(* ===== verification/Moira_Prelude.thy ===== *)
theory Moira_Prelude
  imports Main "HOL-Library.AList" "HOL-Library.Word" "HOL-Library.Char_ord"
begin

text \<open>
  Shared vocabulary of the development: results, machine integers, hash maps and the
  generic contract of a table with a bounded number of entries.

  \<^item> A Rust \<open>Result<A, E>\<close> is the sum \<open>'e + 'a\<close>, with \<open>Err\<close> and \<open>Ok\<close> for its two sides.
  \<^item> A \<open>Uuid\<close> is a 128-bit word. An \<open>Instant\<close> and a \<open>Duration\<close> are natural numbers of one
    clock unit; every operation that reads the clock takes the reading as an argument.
  \<^item> A \<open>HashMap\<close> is an association list with distinct keys. The order of the list stands
    for the (unspecified) iteration order, so a statement about an arbitrary list holds
    for every iteration order.
\<close>

section \<open>Collections of facts\<close>

named_theorems result_simps \<open>equations and inversions for results\<close>
named_theorems hmap_simps \<open>equations for hash maps\<close>

section \<open>Types of the model\<close>

type_synonym uuid = "128 word"
type_synonym instant = nat
type_synonym duration = nat
type_synonym ('k, 'v) hmap = "('k \<times> 'v) list"

abbreviation Ok :: "'a \<Rightarrow> 'e + 'a" where "Ok \<equiv> Inr"
abbreviation Err :: "'e \<Rightarrow> 'e + 'a" where "Err \<equiv> Inl"

section \<open>Results\<close>

definition is_ok :: "'e + 'a \<Rightarrow> bool" where
  "is_ok r = (case r of Err _ \<Rightarrow> False | Ok _ \<Rightarrow> True)"

definition and_then :: "'e + 'a \<Rightarrow> ('a \<Rightarrow> 'e + 'b) \<Rightarrow> 'e + 'b" where
  "and_then r f = (case r of Err e \<Rightarrow> Err e | Ok a \<Rightarrow> f a)"

lemma is_ok_simps [simp, result_simps]:
  "is_ok (Ok a)" "\<not> is_ok (Err e)"
  by (simp_all add: is_ok_def)

lemma is_ok_iff: "is_ok r \<longleftrightarrow> (\<exists>a. r = Ok a)"
  by (cases r) auto

lemma and_then_simps [simp, result_simps]:
  "and_then (Ok a) f = f a" "and_then (Err e) f = Err e"
  by (simp_all add: and_then_def)

lemma and_then_Ok_iff [result_simps]:
  "and_then r f = Ok b \<longleftrightarrow> (\<exists>a. r = Ok a \<and> f a = Ok b)"
  by (cases r) auto

lemma and_then_Err_iff [result_simps]:
  "and_then r f = Err e \<longleftrightarrow> r = Err e \<or> (\<exists>a. r = Ok a \<and> f a = Err e)"
  by (cases r) auto

section \<open>Machine integers\<close>

text \<open>
  The clock unit is the nanosecond: \<open>Duration::from_millis\<close> and \<open>Duration::from_secs\<close>
  scale to it.
\<close>

definition from_millis :: "nat \<Rightarrow> duration" where
  "from_millis n = n * 1000000"

definition from_secs :: "nat \<Rightarrow> duration" where
  "from_secs n = n * 1000000000"

lemma from_millis_mono [simp]: "from_millis a \<le> from_millis b \<longleftrightarrow> a \<le> b"
  by (simp add: from_millis_def)

text \<open>
  An \<open>i32\<close> counter incremented without a check wraps in a release build; an \<open>as u64\<close> or
  \<open>as usize\<close> cast of a negative value is reduced modulo two to the sixty-fourth.
\<close>

definition wrap_i32 :: "int \<Rightarrow> int" where
  "wrap_i32 x = (x + 2 ^ 31) mod 2 ^ 32 - 2 ^ 31"

definition i32_range :: "int \<Rightarrow> bool" where
  "i32_range x \<longleftrightarrow> - (2 ^ 31) \<le> x \<and> x < 2 ^ 31"

definition as_u64 :: "int \<Rightarrow> nat" where
  "as_u64 x = nat (x mod 2 ^ 64)"

definition u64_max :: nat where "u64_max = 2 ^ 64 - 1"

definition u32_max :: nat where "u32_max = 2 ^ 32 - 1"

definition sat_add :: "nat \<Rightarrow> nat \<Rightarrow> nat \<Rightarrow> nat" where
  "sat_add maximum a b = min maximum (a + b)"

definition sat_mul :: "nat \<Rightarrow> nat \<Rightarrow> nat \<Rightarrow> nat" where
  "sat_mul maximum a b = min maximum (a * b)"

lemma wrap_i32_id [simp]: "i32_range x \<Longrightarrow> wrap_i32 x = x"
  by (simp add: wrap_i32_def i32_range_def)

lemma wrap_i32_range: "i32_range (wrap_i32 x)"
proof -
  have "0 \<le> (x + 2 ^ 31) mod 2 ^ 32 \<and> (x + 2 ^ 31) mod 2 ^ 32 < 2 ^ 32"
    by simp
  then show ?thesis
    unfolding wrap_i32_def i32_range_def by simp
qed

lemma as_u64_nonneg [simp]: "0 \<le> x \<Longrightarrow> x < 2 ^ 64 \<Longrightarrow> as_u64 x = nat x"
  by (simp add: as_u64_def)

section \<open>Hash maps as association lists\<close>

definition hm_ok :: "('k, 'v) hmap \<Rightarrow> bool" where
  "hm_ok m \<longleftrightarrow> distinct (map fst m)"

definition hm_keys :: "('k, 'v) hmap \<Rightarrow> 'k set" where
  "hm_keys m = fst ` set m"

definition hm_contains :: "('k, 'v) hmap \<Rightarrow> 'k \<Rightarrow> bool" where
  "hm_contains m k = (map_of m k \<noteq> None)"

definition hm_insert :: "'k \<Rightarrow> 'v \<Rightarrow> ('k, 'v) hmap \<Rightarrow> ('k, 'v) hmap" where
  "hm_insert k v m = AList.update k v m"

definition hm_remove :: "'k \<Rightarrow> ('k, 'v) hmap \<Rightarrow> ('k, 'v) hmap" where
  "hm_remove k m = AList.delete k m"

lemma hm_get_insert [simp, hmap_simps]:
  "map_of (hm_insert k v m) k' = (if k' = k then Some v else map_of m k')"
  by (simp add: hm_insert_def update_conv')

lemma hm_get_remove [simp, hmap_simps]:
  "map_of (hm_remove k m) k' = (if k' = k then None else map_of m k')"
  by (simp add: hm_remove_def delete_conv')

lemma hm_ok_Nil [simp]: "hm_ok []"
  by (simp add: hm_ok_def)

lemma hm_ok_insert [simp]: "hm_ok m \<Longrightarrow> hm_ok (hm_insert k v m)"
  by (simp add: hm_ok_def hm_insert_def distinct_update)

lemma hm_ok_remove [simp]: "hm_ok m \<Longrightarrow> hm_ok (hm_remove k m)"
  by (simp add: hm_ok_def hm_remove_def distinct_delete)

lemma hm_contains_iff: "hm_contains m k \<longleftrightarrow> k \<in> hm_keys m"
  by (simp add: hm_contains_def hm_keys_def map_of_eq_None_iff)

lemma hm_contains_simps [simp]:
  "hm_contains (hm_insert k v m) k' \<longleftrightarrow> k' = k \<or> hm_contains m k'"
  "hm_contains (hm_remove k m) k' \<longleftrightarrow> k' \<noteq> k \<and> hm_contains m k'"
  "\<not> hm_contains [] k"
  by (auto simp: hm_contains_def)

lemma hm_keys_insert [simp]: "hm_keys (hm_insert k v m) = insert k (hm_keys m)"
  by (auto simp: hm_keys_def hm_insert_def dom_update)

lemma hm_keys_remove [simp]: "hm_keys (hm_remove k m) = hm_keys m - {k}"
  by (auto simp: hm_keys_def hm_remove_def AList.delete_eq)

lemma hm_keys_finite [simp]: "finite (hm_keys m)"
  by (simp add: hm_keys_def)

lemma hm_length_card: "hm_ok m \<Longrightarrow> length m = card (hm_keys m)"
  by (metis distinct_card hm_keys_def hm_ok_def length_map set_map)

lemma hm_length_insert:
  "hm_ok m \<Longrightarrow> length (hm_insert k v m) = (if hm_contains m k then length m else Suc (length m))"
  by (simp add: hm_length_card hm_contains_iff insert_absorb)

lemma hm_length_remove:
  "hm_ok m \<Longrightarrow> length (hm_remove k m) = (if hm_contains m k then length m - 1 else length m)"
  by (simp add: hm_length_card hm_contains_iff card_Diff_singleton)

lemma hm_get_in_set: "hm_ok m \<Longrightarrow> map_of m k = Some v \<longleftrightarrow> (k, v) \<in> set m"
  by (simp add: hm_ok_def map_of_eq_Some_iff)

text \<open>\<open>HashMap::retain\<close> keeps the entries that satisfy the predicate.\<close>

definition hm_retain :: "('k \<Rightarrow> bool) \<Rightarrow> ('k, 'v) hmap \<Rightarrow> ('k, 'v) hmap" where
  "hm_retain P m = filter (\<lambda>(k, v). P k) m"

lemma hm_get_retain [simp, hmap_simps]:
  "map_of (hm_retain P m) k = (if P k then map_of m k else None)"
  by (induction m) (auto simp: hm_retain_def)

lemma hm_ok_retain [simp]: "hm_ok m \<Longrightarrow> hm_ok (hm_retain P m)"
  by (simp add: hm_ok_def hm_retain_def distinct_map_filter)

section \<open>\<open>Iterator::min_by_key\<close>\<close>

text \<open>The first element whose key is smallest, as the iterator adaptor returns it.\<close>

fun min_by_key :: "('a \<Rightarrow> 'b::linorder) \<Rightarrow> 'a list \<Rightarrow> 'a option" where
  "min_by_key f [] = None"
| "min_by_key f (x # xs) =
     (case min_by_key f xs of
        None \<Rightarrow> Some x
      | Some y \<Rightarrow> if f x \<le> f y then Some x else Some y)"

lemma min_by_key_None [simp]: "min_by_key f xs = None \<longleftrightarrow> xs = []"
  by (cases xs) (auto split: option.splits if_splits)

lemma min_by_key_Some:
  "min_by_key f xs = Some y \<Longrightarrow> y \<in> set xs \<and> (\<forall>x \<in> set xs. f y \<le> f x)"
proof (induction xs arbitrary: y)
  case (Cons x xs)
  then show ?case
    by (cases "min_by_key f xs") (fastforce split: if_splits)+
qed simp

section \<open>Strings\<close>

text \<open>
  A string is the list of its UTF-8 bytes. \<open>str::trim\<close> removes the characters with the Unicode
  property White_Space from both ends; \<open>white_space\<close> lists their encodings.
\<close>

definition white_space :: "string list" where
  "white_space =
     map (\<lambda>c. [c]) [CHR 0x09, CHR 0x0A, CHR 0x0B, CHR 0x0C, CHR 0x0D, CHR 0x20] @
     map (\<lambda>c. [CHR 0xC2, c]) [CHR 0x85, CHR 0xA0] @ [[CHR 0xE1, CHR 0x9A, CHR 0x80]] @
     map (\<lambda>c. [CHR 0xE2, CHR 0x80, c])
       [CHR 0x80, CHR 0x81, CHR 0x82, CHR 0x83, CHR 0x84, CHR 0x85, CHR 0x86, CHR 0x87, CHR 0x88,
        CHR 0x89, CHR 0x8A, CHR 0xA8, CHR 0xA9, CHR 0xAF] @
     [[CHR 0xE2, CHR 0x81, CHR 0x9F], [CHR 0xE3, CHR 0x80, CHR 0x80]]"

definition strip_one :: "'a list list \<Rightarrow> 'a list \<Rightarrow> 'a list option" where
  "strip_one ws s = map_option (\<lambda>w. drop (length w) s) (find (\<lambda>w. w \<noteq> [] \<and> take (length w) s = w) ws)"

lemma strip_one_shorter: "strip_one ws s = Some s' \<Longrightarrow> length s' < length s"
  by (auto simp: strip_one_def find_Some_iff)
    (metis diff_less length_drop length_greater_0_conv take_eq_Nil)

function strip_start :: "'a list list \<Rightarrow> 'a list \<Rightarrow> 'a list" where
  "strip_start ws s = (case strip_one ws s of None \<Rightarrow> s | Some s' \<Rightarrow> strip_start ws s')"
  by auto
termination
  by (relation "measure (\<lambda>(ws, s). length s)") (auto dest: strip_one_shorter)

declare strip_start.simps [simp del]

definition rust_trim :: "string \<Rightarrow> string" where
  "rust_trim s = rev (strip_start (map rev white_space) (rev (strip_start white_space s)))"

lemma strip_start_fixed: "strip_one ws s = None \<Longrightarrow> strip_start ws s = s"
  by (simp add: strip_start.simps)

lemma strip_start_stripped: "strip_one ws (strip_start ws s) = None"
  by (induction ws s rule: strip_start.induct)
    (subst strip_start.simps, auto split: option.splits)

lemma strip_start_suffix: "\<exists>w. s = w @ strip_start ws s"
proof (induction ws s rule: strip_start.induct)
  case (1 ws s)
  show ?case
  proof (cases "strip_one ws s")
    case None
    then show ?thesis by (simp add: strip_start_fixed)
  next
    case (Some s')
    then obtain w where "s' = w @ strip_start ws s'" using 1 by blast
    moreover obtain n where "s' = drop n s" using Some by (auto simp: strip_one_def)
    ultimately have "s = (take n s @ w) @ strip_start ws s'" by (metis append.assoc append_take_drop_id)
    moreover have "strip_start ws s = strip_start ws s'"
      using Some by (subst strip_start.simps) simp
    ultimately show ?thesis by metis
  qed
qed

lemma strip_one_prefix: "strip_one ws (p @ q) = None \<Longrightarrow> strip_one ws p = None"
  by (auto simp: strip_one_def find_None_iff)

lemma rust_trim_idem [simp]: "rust_trim (rust_trim s) = rust_trim s"
proof -
  let ?t = "strip_start white_space s" and ?rws = "map rev white_space"
  obtain w where "rev ?t = w @ strip_start ?rws (rev ?t)" using strip_start_suffix by blast
  then have "?t = rust_trim s @ rev w"
    by (metis rev_append rev_rev_ident rust_trim_def)
  then have "strip_one white_space (rust_trim s) = None"
    using strip_start_stripped [of white_space s] strip_one_prefix by metis
  then have "strip_start white_space (rust_trim s) = rust_trim s" by (rule strip_start_fixed)
  moreover have "strip_start ?rws (rev (rust_trim s)) = rev (rust_trim s)"
    by (rule strip_start_fixed) (simp add: rust_trim_def strip_start_stripped)
  ultimately show ?thesis by (subst rust_trim_def) simp
qed

lemma strip_one_disjoint:
  assumes "set s \<inter> set (concat ws) = {}"
  shows "strip_one ws s = None"
proof -
  have "\<not> (w \<noteq> [] \<and> take (length w) s = w)" if "w \<in> set ws" for w
  proof (cases w)
    case (Cons c w')
    have "c \<in> set (concat ws)" using that Cons by (force simp: bexI [of _ w])
    then have "c \<notin> set s" using assms by auto
    then show ?thesis using Cons by (metis in_set_takeD list.set_intros(1))
  qed simp
  then show ?thesis by (auto simp: strip_one_def find_None_iff)
qed

lemma rust_trim_plain: "set s \<inter> set (concat white_space) = {} \<Longrightarrow> rust_trim s = s"
  by (simp add: rust_trim_def strip_start_fixed strip_one_disjoint)

text \<open>\<open>str::to_ascii_lowercase\<close> and \<open>str::contains\<close>.\<close>

definition to_ascii_lowercase :: "string \<Rightarrow> string" where
  "to_ascii_lowercase s =
     map (\<lambda>c. if CHR ''A'' \<le> c \<and> c \<le> CHR ''Z'' then char_of ((of_char c :: nat) + 32) else c) s"

fun contains_str :: "string \<Rightarrow> string \<Rightarrow> bool" where
  "contains_str pat [] = (pat = [])"
| "contains_str pat (c # s) = (take (length pat) (c # s) = pat \<or> contains_str pat s)"

text \<open>Decimal formatting of an unsigned integer.\<close>

definition digit_char :: "nat \<Rightarrow> char" where
  "digit_char n = ''0123456789'' ! n"

fun show_nat :: "nat \<Rightarrow> string" where
  "show_nat n = (if n < 10 then [digit_char n] else show_nat (n div 10) @ [digit_char (n mod 10)])"

declare show_nat.simps [simp del]

section \<open>Tables with a bounded number of entries\<close>

text \<open>
  The contract shared by the runtime cache, the rate-limit table and the limiter
  registries: no operation lets the table grow past its configured number of entries.
\<close>

locale bounded_table =
  fixes entries_of :: "'s \<Rightarrow> nat"
    and capacity_of :: "'s \<Rightarrow> nat"
    and well_formed :: "'s \<Rightarrow> bool"
    and apply_op :: "'i \<Rightarrow> 's \<Rightarrow> 's"
  assumes capacity_step: "well_formed s \<Longrightarrow> capacity_of (apply_op i s) = capacity_of s"
    and well_formed_step: "well_formed s \<Longrightarrow> well_formed (apply_op i s)"
    and entries_step:
      "well_formed s \<Longrightarrow> entries_of s \<le> capacity_of s \<Longrightarrow> entries_of (apply_op i s) \<le> capacity_of s"
begin

lemma run_well_formed: "well_formed s \<Longrightarrow> well_formed (fold apply_op ops s)"
  by (induction ops arbitrary: s) (auto simp: well_formed_step)

lemma run_capacity: "well_formed s \<Longrightarrow> capacity_of (fold apply_op ops s) = capacity_of s"
  by (induction ops arbitrary: s) (auto simp: well_formed_step capacity_step)

lemma run_bounded:
  "well_formed s \<Longrightarrow> entries_of s \<le> capacity_of s \<Longrightarrow>
    entries_of (fold apply_op ops s) \<le> capacity_of s"
proof (induction ops arbitrary: s)
  case (Cons i ops)
  have "entries_of (fold apply_op ops (apply_op i s)) \<le> capacity_of (apply_op i s)"
    using Cons.prems by (intro Cons.IH) (auto simp: well_formed_step entries_step capacity_step)
  with Cons.prems show ?case by (simp add: capacity_step)
qed simp

end

end
