(* ===== verification/Execution_Failure.thy ===== *)
theory Execution_Failure
  imports Moira_Prelude
begin

text \<open>
  The failure vocabulary of the execution kernel: \<open>ExecutionFailureClass\<close> and
  \<open>ExecutionFailure\<close> of \<open>src/src/domain/runtime.rs\<close>, and the three dispositions of a class
  (retry the same provider, fall back to another one, count against the circuit) of
  \<open>src/src/orchestration/controls.rs\<close>.
\<close>

section \<open>Failure classes\<close>

datatype execution_failure_class =
    InvalidExecutionRequest
  | ApplicationUnavailable
  | RouteNotFound
  | RouteForbidden
  | AgentProfileNotFound
  | AgentProfileDisabled
  | SkillUnavailable
  | ModelNotFound
  | ModelForbidden
  | ModelCapabilityMismatch
  | NoEligibleModel
  | CredentialNotFound
  | CredentialForbidden
  | CredentialExpired
  | CredentialDisabled
  | CredentialDecryptionFailed
  | ProviderConfigurationInvalid
  | ProviderUnavailable
  | ProviderRateLimited
  | ProviderTimeout
  | ProviderConnectionFailed
  | ProviderAuthenticationFailed
  | ProviderInvalidResponse
  | ProviderUpstreamError
  | CircuitOpen
  | CapacityExhausted
  | RequestCancelled
  | DeadlineExceeded
  | StructuredOutputInvalid
  | StreamBackpressureExceeded
  | ContentDecryptionFailed
  | ContentEnvelopeUnsupported
  | ContentKeyUnavailable
  | ContentKeyAbandoned
  | InternalError

definition failure_class_ALL :: "execution_failure_class list" where
  "failure_class_ALL =
    [InvalidExecutionRequest,
     ApplicationUnavailable,
     RouteNotFound,
     RouteForbidden,
     AgentProfileNotFound,
     AgentProfileDisabled,
     SkillUnavailable,
     ModelNotFound,
     ModelForbidden,
     ModelCapabilityMismatch,
     NoEligibleModel,
     CredentialNotFound,
     CredentialForbidden,
     CredentialExpired,
     CredentialDisabled,
     CredentialDecryptionFailed,
     ProviderConfigurationInvalid,
     ProviderUnavailable,
     ProviderRateLimited,
     ProviderTimeout,
     ProviderConnectionFailed,
     ProviderAuthenticationFailed,
     ProviderInvalidResponse,
     ProviderUpstreamError,
     CircuitOpen,
     CapacityExhausted,
     RequestCancelled,
     DeadlineExceeded,
     StructuredOutputInvalid,
     StreamBackpressureExceeded,
     ContentDecryptionFailed,
     ContentEnvelopeUnsupported,
     ContentKeyUnavailable,
     ContentKeyAbandoned,
     InternalError]"

fun failure_class_code :: "execution_failure_class \<Rightarrow> string" where
  "failure_class_code InvalidExecutionRequest = ''invalid_execution_request''"
| "failure_class_code ApplicationUnavailable = ''application_unavailable''"
| "failure_class_code RouteNotFound = ''route_not_found''"
| "failure_class_code RouteForbidden = ''route_forbidden''"
| "failure_class_code AgentProfileNotFound = ''agent_profile_not_found''"
| "failure_class_code AgentProfileDisabled = ''agent_profile_disabled''"
| "failure_class_code SkillUnavailable = ''skill_unavailable''"
| "failure_class_code ModelNotFound = ''model_not_found''"
| "failure_class_code ModelForbidden = ''model_forbidden''"
| "failure_class_code ModelCapabilityMismatch = ''model_capability_mismatch''"
| "failure_class_code NoEligibleModel = ''no_eligible_model''"
| "failure_class_code CredentialNotFound = ''credential_not_found''"
| "failure_class_code CredentialForbidden = ''credential_forbidden''"
| "failure_class_code CredentialExpired = ''credential_expired''"
| "failure_class_code CredentialDisabled = ''credential_disabled''"
| "failure_class_code CredentialDecryptionFailed = ''credential_decryption_failed''"
| "failure_class_code ProviderConfigurationInvalid = ''provider_configuration_invalid''"
| "failure_class_code ProviderUnavailable = ''provider_unavailable''"
| "failure_class_code ProviderRateLimited = ''provider_rate_limited''"
| "failure_class_code ProviderTimeout = ''provider_timeout''"
| "failure_class_code ProviderConnectionFailed = ''provider_connection_failed''"
| "failure_class_code ProviderAuthenticationFailed = ''provider_authentication_failed''"
| "failure_class_code ProviderInvalidResponse = ''provider_invalid_response''"
| "failure_class_code ProviderUpstreamError = ''provider_upstream_error''"
| "failure_class_code CircuitOpen = ''circuit_open''"
| "failure_class_code CapacityExhausted = ''capacity_exhausted''"
| "failure_class_code RequestCancelled = ''request_cancelled''"
| "failure_class_code DeadlineExceeded = ''deadline_exceeded''"
| "failure_class_code StructuredOutputInvalid = ''structured_output_invalid''"
| "failure_class_code StreamBackpressureExceeded = ''stream_backpressure_exceeded''"
| "failure_class_code ContentDecryptionFailed = ''content_decryption_failed''"
| "failure_class_code ContentEnvelopeUnsupported = ''content_envelope_unsupported''"
| "failure_class_code ContentKeyUnavailable = ''content_key_unavailable''"
| "failure_class_code ContentKeyAbandoned = ''content_key_abandoned''"
| "failure_class_code InternalError = ''internal_error''"

section \<open>Dispositions\<close>

definition is_retryable :: "execution_failure_class \<Rightarrow> bool" where
  "is_retryable c \<longleftrightarrow> c \<in>
     {ProviderTimeout, ProviderConnectionFailed, ProviderRateLimited, ProviderUnavailable,
      ProviderUpstreamError, CircuitOpen, CapacityExhausted}"

definition is_fallback_eligible :: "execution_failure_class \<Rightarrow> bool" where
  "is_fallback_eligible c \<longleftrightarrow> c \<in>
     {CredentialNotFound, ProviderTimeout, ProviderConnectionFailed, ProviderRateLimited,
      ProviderUnavailable, ProviderUpstreamError, CircuitOpen, CapacityExhausted}"

definition is_circuit_failure :: "execution_failure_class \<Rightarrow> bool" where
  "is_circuit_failure c \<longleftrightarrow> c \<in>
     {ProviderTimeout, ProviderConnectionFailed, ProviderUnavailable, ProviderInvalidResponse,
      ProviderUpstreamError, ProviderRateLimited}"

record execution_failure =
  failure_class :: execution_failure_class
  failure_message :: string
  failure_retryable :: bool
  failure_fallback_eligible :: bool

definition ExecutionFailure_new :: "execution_failure_class \<Rightarrow> string \<Rightarrow> execution_failure" where
  "ExecutionFailure_new c msg =
     \<lparr>failure_class = c, failure_message = msg,
      failure_retryable = is_retryable c, failure_fallback_eligible = is_fallback_eligible c\<rparr>"

lemma ExecutionFailure_new_simps [simp]:
  "failure_class (ExecutionFailure_new c msg) = c"
  "failure_message (ExecutionFailure_new c msg) = msg"
  "failure_retryable (ExecutionFailure_new c msg) = is_retryable c"
  "failure_fallback_eligible (ExecutionFailure_new c msg) = is_fallback_eligible c"
  by (simp_all add: ExecutionFailure_new_def)

lemma retryable_imp_fallback: "is_retryable c \<Longrightarrow> is_fallback_eligible c"
  by (auto simp: is_retryable_def is_fallback_eligible_def)

section \<open>The wire codes\<close>

lemma failure_class_ALL_complete: "c \<in> set failure_class_ALL"
  by (cases c) (simp_all add: failure_class_ALL_def)

lemma failure_class_ALL_distinct_codes: "distinct (map failure_class_code failure_class_ALL)"
  by (simp add: failure_class_ALL_def)

lemma failure_class_code_inj: "failure_class_code c = failure_class_code d \<Longrightarrow> c = d"
  using failure_class_ALL_complete [of c] failure_class_ALL_complete [of d]
    failure_class_ALL_distinct_codes
  by (auto simp: distinct_map inj_on_def)

end
