(* ===== verification/Runtime_Types.thy ===== *)
theory Runtime_Types
  imports Execution_Failure
begin

text \<open>
  The runtime records of \<open>src/src/domain/runtime.rs\<close> that several components share.
  \<open>i32\<close> and \<open>i64\<close> columns are integers; timestamps are instants.
\<close>

section \<open>Provider runtime policies\<close>

datatype runtime_policy_status = PolicyActive | PolicyDisabled

record provider_runtime_policy =
  policy_id :: uuid
  policy_provider_id :: uuid
  connect_timeout_ms :: int
  request_timeout_ms :: int
  stream_idle_timeout_ms :: int
  max_concurrent_requests :: int
  max_concurrent_streams :: int
  retry_limit :: int
  retry_base_delay_ms :: int
  retry_max_delay_ms :: int
  circuit_failure_threshold :: int
  circuit_open_duration_ms :: int
  policy_status :: runtime_policy_status
  policy_updated_at :: instant
  version :: int

text \<open>A concrete policy, used where a statement is instantiated.\<close>

definition sample_runtime_policy :: provider_runtime_policy where
  "sample_runtime_policy =
     \<lparr>policy_id = 1, policy_provider_id = 2, connect_timeout_ms = 500, request_timeout_ms = 1000,
      stream_idle_timeout_ms = 500, max_concurrent_requests = 2, max_concurrent_streams = 1,
      retry_limit = 2, retry_base_delay_ms = 10, retry_max_delay_ms = 100,
      circuit_failure_threshold = 2, circuit_open_duration_ms = 1000,
      policy_status = PolicyActive, policy_updated_at = 0, version = 3\<rparr>"

end
