(* ===== verification/Circuit_Breaker.thy ===== *)
theory Circuit_Breaker
  imports Runtime_Types
begin

text \<open>
  The per-process circuit breaker of \<open>src/src/orchestration/controls.rs\<close>
  (\<open>CircuitBreakerRegistry\<close>): one entry per pair of provider and model, consulted before a
  provider call and told of its outcome. Every operation runs under the registry's mutex,
  so a history of the registry is a sequence of whole operations, each with the clock
  reading it took.
\<close>

section \<open>State\<close>

datatype circuit_state = Closed | Open | HalfOpen

record circuit_entry =
  entry_state :: circuit_state
  failure_count :: int
  opened_at :: "instant option"
  entry_policy_version :: int

type_synonym circuits = "uuid \<times> uuid \<rightharpoonup> circuit_entry"

datatype circuit_reset_scope = ResetProvider uuid | ResetModel uuid | Unaffected | ResetAll

section \<open>Operations\<close>

definition closed_entry :: "int \<Rightarrow> circuit_entry" where
  "closed_entry v = \<lparr>entry_state = Closed, failure_count = 0, opened_at = None, entry_policy_version = v\<rparr>"

definition entry_or_insert :: "int \<Rightarrow> uuid \<times> uuid \<Rightarrow> circuits \<Rightarrow> circuit_entry" where
  "entry_or_insert v k states = (case states k of None \<Rightarrow> closed_entry v | Some e \<Rightarrow> e)"

text \<open>An entry left by another policy version counts as a fresh closed one.\<close>

definition current_entry :: "int \<Rightarrow> uuid \<times> uuid \<Rightarrow> circuits \<Rightarrow> circuit_entry" where
  "current_entry v k states =
     (let entry = entry_or_insert v k states
      in if entry_policy_version entry \<noteq> v then closed_entry v else entry)"

definition circuit_before_call ::
    "instant \<Rightarrow> uuid \<Rightarrow> uuid \<Rightarrow> provider_runtime_policy \<Rightarrow> circuits
      \<Rightarrow> (execution_failure + circuit_state) \<times> circuits" where
  "circuit_before_call now p m policy states =
     (let entry = current_entry (version policy) (p, m) states
      in case entry_state entry of
           Open \<Rightarrow>
             (let open_for = from_millis (as_u64 (circuit_open_duration_ms policy)) in
              if (case opened_at entry of None \<Rightarrow> False | Some opened \<Rightarrow> open_for \<le> now - opened)
              then (Ok HalfOpen, states((p, m) \<mapsto> entry\<lparr>entry_state := HalfOpen\<rparr>))
              else (Err (ExecutionFailure_new CircuitOpen ''provider circuit is open''),
                    states((p, m) \<mapsto> entry)))
         | st \<Rightarrow> (Ok st, states((p, m) \<mapsto> entry)))"

definition circuit_on_success :: "uuid \<Rightarrow> uuid \<Rightarrow> circuits \<Rightarrow> circuits" where
  "circuit_on_success p m states = states((p, m) \<mapsto> closed_entry 0)"

definition circuit_on_failure ::
    "instant \<Rightarrow> uuid \<Rightarrow> uuid \<Rightarrow> provider_runtime_policy \<Rightarrow> execution_failure_class
      \<Rightarrow> circuits \<Rightarrow> circuits" where
  "circuit_on_failure now p m policy c states =
     (if \<not> is_circuit_failure c then states
      else
        let entry0 = entry_or_insert (version policy) (p, m) states;
            entry = entry0\<lparr>failure_count := wrap_i32 (failure_count entry0 + 1),
                           entry_policy_version := version policy\<rparr>
        in if entry_state entry = HalfOpen
              \<or> circuit_failure_threshold policy \<le> failure_count entry
           then states((p, m) \<mapsto> entry\<lparr>entry_state := Open, opened_at := Some now\<rparr>)
           else states((p, m) \<mapsto> entry))"

definition circuit_reset_all :: "circuits \<Rightarrow> circuits" where
  "circuit_reset_all states = Map.empty"

fun circuit_reset_for_resource :: "circuit_reset_scope \<Rightarrow> circuits \<Rightarrow> circuits" where
  "circuit_reset_for_resource (ResetProvider p) states =
     (\<lambda>(p', m'). if p' \<noteq> p then states (p', m') else None)"
| "circuit_reset_for_resource (ResetModel m) states =
     (\<lambda>(p', m'). if m' \<noteq> m then states (p', m') else None)"
| "circuit_reset_for_resource Unaffected states = states"
| "circuit_reset_for_resource ResetAll states = Map.empty"

section \<open>Histories\<close>

datatype circuit_op =
    BeforeCall uuid uuid provider_runtime_policy
  | OnSuccess uuid uuid
  | OnFailure uuid uuid provider_runtime_policy execution_failure_class
  | ResetEverything
  | ResetFor circuit_reset_scope

fun circuit_apply :: "instant \<Rightarrow> circuit_op \<Rightarrow> circuits \<Rightarrow> circuits" where
  "circuit_apply now (BeforeCall p m policy) s = snd (circuit_before_call now p m policy s)"
| "circuit_apply now (OnSuccess p m) s = circuit_on_success p m s"
| "circuit_apply now (OnFailure p m policy c) s = circuit_on_failure now p m policy c s"
| "circuit_apply now ResetEverything s = circuit_reset_all s"
| "circuit_apply now (ResetFor scope) s = circuit_reset_for_resource scope s"

text \<open>The clock is monotonic: each operation reads an instant no earlier than the last one.\<close>

inductive circuit_history :: "instant \<Rightarrow> (instant \<times> circuit_op) list \<Rightarrow> circuits \<Rightarrow> bool" where
  init: "circuit_history t [] Map.empty"
| step: "circuit_history t ops s \<Longrightarrow> t \<le> t' \<Longrightarrow>
     circuit_history t' ((t', op) # ops) (circuit_apply t' op s)"

inductive_cases circuit_history_ConsE: "circuit_history t ((t', op) # ops) s"

section \<open>What an entry may look like\<close>

definition entry_inv :: "instant \<Rightarrow> circuit_entry \<Rightarrow> bool" where
  "entry_inv t e \<longleftrightarrow>
     (case entry_state e of
        Closed \<Rightarrow> opened_at e = None
      | _ \<Rightarrow> (case opened_at e of None \<Rightarrow> False | Some opened \<Rightarrow> opened \<le> t))"

definition circuits_inv :: "instant \<Rightarrow> circuits \<Rightarrow> bool" where
  "circuits_inv t s \<longleftrightarrow> (\<forall>k e. s k = Some e \<longrightarrow> entry_inv t e)"

lemma circuits_invI: "(\<And>k e. s k = Some e \<Longrightarrow> entry_inv t e) \<Longrightarrow> circuits_inv t s"
  by (simp add: circuits_inv_def)

lemma entry_inv_mono: "entry_inv t e \<Longrightarrow> t \<le> t' \<Longrightarrow> entry_inv t' e"
  by (auto simp: entry_inv_def split: circuit_state.splits option.splits)

lemma circuits_inv_mono: "circuits_inv t s \<Longrightarrow> t \<le> t' \<Longrightarrow> circuits_inv t' s"
  by (auto simp: circuits_inv_def intro: entry_inv_mono)

lemma closed_entry_simps [simp]:
  "entry_state (closed_entry v) = Closed" "failure_count (closed_entry v) = 0"
  "opened_at (closed_entry v) = None" "entry_policy_version (closed_entry v) = v"
  by (simp_all add: closed_entry_def)

lemma entry_inv_closed [simp]: "entry_inv t (closed_entry v)"
  by (simp add: entry_inv_def)

lemma circuits_inv_upd: "circuits_inv t s \<Longrightarrow> entry_inv t e \<Longrightarrow> circuits_inv t (s(k \<mapsto> e))"
  by (auto simp: circuits_inv_def)

lemma circuits_inv_sub: "circuits_inv t s \<Longrightarrow> s' \<subseteq>\<^sub>m s \<Longrightarrow> circuits_inv t s'"
  unfolding circuits_inv_def map_le_def by (metis domI)

lemma entry_or_insert_inv: "circuits_inv t s \<Longrightarrow> entry_inv t (entry_or_insert v k s)"
  by (cases "s k") (auto simp only: circuits_inv_def entry_or_insert_def option.case entry_inv_closed)

lemma current_entry_inv: "circuits_inv t s \<Longrightarrow> entry_inv t (current_entry v k s)"
  by (simp add: current_entry_def Let_def entry_or_insert_inv)

lemma before_call_inv:
  assumes "circuits_inv t s"
  shows "circuits_inv t (snd (circuit_before_call t p m policy s))"
proof -
  let ?e = "current_entry (version policy) (p, m) s"
  have inv: "entry_inv t ?e" by (rule current_entry_inv [OF assms])
  then have "entry_state ?e = Open \<Longrightarrow> entry_inv t (?e\<lparr>entry_state := HalfOpen\<rparr>)"
    by (simp add: entry_inv_def)
  with inv assms show ?thesis
    by (auto simp: circuit_before_call_def Let_def intro: circuits_inv_upd
        split: circuit_state.splits option.splits)
qed

lemma on_failure_inv:
  assumes "circuits_inv t s"
  shows "circuits_inv t (circuit_on_failure t p m policy c s)"
  using entry_or_insert_inv [OF assms, of "version policy" "(p, m)"] assms
  by (auto simp: circuit_on_failure_def Let_def entry_inv_def
      intro!: circuits_inv_upd split: circuit_state.splits option.splits)

lemma reset_for_resource_sub: "circuit_reset_for_resource scope s \<subseteq>\<^sub>m s"
  by (cases scope) (auto simp: map_le_def split: if_splits)

lemma circuit_apply_inv: "circuits_inv t s \<Longrightarrow> circuits_inv t (circuit_apply t op s)"
  by (cases op)
    (auto simp: before_call_inv on_failure_inv circuit_on_success_def circuit_reset_all_def
      circuits_inv_upd intro: circuits_inv_sub [OF _ reset_for_resource_sub] circuits_invI)

lemma circuit_history_inv: "circuit_history t ops s \<Longrightarrow> circuits_inv t s"
proof (induction rule: circuit_history.induct)
  case (init t)
  show ?case by (simp add: circuits_inv_def)
next
  case (step t ops s t' op)
  then show ?case by (blast intro: circuit_apply_inv circuits_inv_mono)
qed

section \<open>When a call is refused\<close>

text \<open>A call is refused exactly when the entry is open under the caller's policy version and
  the open duration has not passed since it opened.\<close>

definition refuses :: "instant \<Rightarrow> uuid \<Rightarrow> uuid \<Rightarrow> provider_runtime_policy \<Rightarrow> circuits \<Rightarrow> bool" where
  "refuses now p m policy s \<longleftrightarrow> \<not> is_ok (fst (circuit_before_call now p m policy s))"

lemma is_ok_before_call: "is_ok (fst (circuit_before_call now p m policy s)) \<longleftrightarrow> \<not> refuses now p m policy s"
  by (simp add: refuses_def)

lemma refuses_iff:
  "refuses now p m policy s \<longleftrightarrow>
     (\<exists>e. s (p, m) = Some e \<and> entry_policy_version e = version policy \<and> entry_state e = Open \<and>
        (case opened_at e of None \<Rightarrow> True
         | Some opened \<Rightarrow> now - opened < from_millis (as_u64 (circuit_open_duration_ms policy))))"
  by (auto simp: refuses_def circuit_before_call_def current_entry_def Let_def entry_or_insert_def not_le
      split: option.splits circuit_state.splits if_splits)

lemma on_failure_other:
  "(p', m') \<noteq> (p, m) \<Longrightarrow> circuit_on_failure now p m policy c s (p', m') = s (p', m')"
  by (auto simp: circuit_on_failure_def Let_def)

lemma before_call_other:
  "(p', m') \<noteq> (p, m) \<Longrightarrow> snd (circuit_before_call now p m policy s) (p', m') = s (p', m')"
  by (auto simp: circuit_before_call_def Let_def split: option.splits circuit_state.splits)

section \<open>Where an opening time comes from\<close>

text \<open>Every recorded opening time is the instant of a circuit failure on that very pair.\<close>

definition opened_by_failure :: "(instant \<times> circuit_op) list \<Rightarrow> circuits \<Rightarrow> bool" where
  "opened_by_failure ops s \<longleftrightarrow>
     (\<forall>p m e opened. s (p, m) = Some e \<longrightarrow> opened_at e = Some opened \<longrightarrow>
        (\<exists>pol c. (opened, OnFailure p m pol c) \<in> set ops \<and> is_circuit_failure c))"

lemma opened_by_failureD:
  "opened_by_failure ops s \<Longrightarrow> s (p, m) = Some e \<Longrightarrow> opened_at e = Some opened \<Longrightarrow>
    \<exists>pol c. (opened, OnFailure p m pol c) \<in> set ops \<and> is_circuit_failure c"
  unfolding opened_by_failure_def by blast

lemma opened_by_failure_Cons: "opened_by_failure ops s \<Longrightarrow> opened_by_failure (x # ops) s"
  unfolding opened_by_failure_def by (metis list.set_intros(2))

lemma opened_by_failure_sub:
  assumes "opened_by_failure ops s" and "s' \<subseteq>\<^sub>m s"
  shows "opened_by_failure ops s'"
proof -
  have "s (p, m) = Some e" if "s' (p, m) = Some e" for p m e
    using assms(2) that by (metis domI map_le_def)
  with assms(1) show ?thesis unfolding opened_by_failure_def by blast
qed

lemma opened_by_failure_upd:
  assumes "opened_by_failure ops s"
    and "\<And>opened. opened_at e = Some opened \<Longrightarrow>
           \<exists>pol c. (opened, OnFailure p m pol c) \<in> set ops \<and> is_circuit_failure c"
  shows "opened_by_failure ops (s((p, m) \<mapsto> e))"
  using assms unfolding opened_by_failure_def by (metis fun_upd_apply option.inject prod.inject)

lemma opened_by_failure_entry:
  "opened_by_failure ops s \<Longrightarrow> opened_at (entry_or_insert v (p, m) s) = Some opened \<Longrightarrow>
    \<exists>pol c. (opened, OnFailure p m pol c) \<in> set ops \<and> is_circuit_failure c"
  by (cases "s (p, m)") (auto simp: entry_or_insert_def dest: opened_by_failureD)

lemma opened_by_failure_current:
  "opened_by_failure ops s \<Longrightarrow> opened_at (current_entry v (p, m) s) = Some opened \<Longrightarrow>
    \<exists>pol c. (opened, OnFailure p m pol c) \<in> set ops \<and> is_circuit_failure c"
  by (auto simp: current_entry_def Let_def dest: opened_by_failure_entry split: if_splits)

lemma opened_by_failure_step:
  assumes "opened_by_failure ops s"
  shows "opened_by_failure ((t, op) # ops) (circuit_apply t op s)"
proof (cases op)
  case (BeforeCall p m policy)
  note inv = opened_by_failure_Cons [OF assms, of "(t, op)"]
  show ?thesis unfolding BeforeCall circuit_apply.simps
    using inv opened_by_failure_current [OF inv] unfolding BeforeCall
    by (auto simp: circuit_before_call_def Let_def simp del: list.set
        intro!: opened_by_failure_upd split: circuit_state.splits option.splits)
next
  case (OnSuccess p m)
  then show ?thesis
    by (auto simp: circuit_on_success_def
        intro!: opened_by_failure_upd opened_by_failure_Cons [OF assms])
next
  case (OnFailure p m policy c)
  note inv = opened_by_failure_Cons [OF assms, of "(t, op)"]
  show ?thesis unfolding OnFailure circuit_apply.simps
    using inv opened_by_failure_entry [OF inv] unfolding OnFailure
    by (auto simp: circuit_on_failure_def Let_def simp del: list.set
        intro!: opened_by_failure_upd) (meson list.set_intros(1))+
next
  case ResetEverything
  then show ?thesis by (simp add: circuit_reset_all_def opened_by_failure_def)
next
  case (ResetFor scope)
  then show ?thesis
    using opened_by_failure_sub [OF opened_by_failure_Cons [OF assms] reset_for_resource_sub]
    by simp
qed

lemma circuit_history_opened_by_failure: "circuit_history t ops s \<Longrightarrow> opened_by_failure ops s"
proof (induction rule: circuit_history.induct)
  case (init t)
  show ?case by (simp add: opened_by_failure_def)
next
  case (step t ops s t' op)
  then show ?case by (simp add: opened_by_failure_step)
qed

section \<open>Runs of failures\<close>

definition circuit_failures ::
    "uuid \<Rightarrow> uuid \<Rightarrow> provider_runtime_policy \<Rightarrow> (instant \<times> execution_failure_class) list
      \<Rightarrow> circuits \<Rightarrow> circuits" where
  "circuit_failures p m policy fs s =
     fold (\<lambda>(t, c) s. circuit_on_failure t p m policy c s) fs s"

lemma circuit_failures_entry:
  assumes "list_all (is_circuit_failure \<circ> snd) fs" and "fs \<noteq> []"
    and "1 \<le> circuit_failure_threshold policy" and "int (length fs) < 2 ^ 31"
  shows "circuit_failures p m policy fs (circuit_on_success p m s) (p, m) =
           Some (if circuit_failure_threshold policy \<le> int (length fs)
                 then \<lparr>entry_state = Open, failure_count = int (length fs),
                       opened_at = Some (fst (last fs)), entry_policy_version = version policy\<rparr>
                 else \<lparr>entry_state = Closed, failure_count = int (length fs),
                       opened_at = None, entry_policy_version = version policy\<rparr>)"
  using assms
proof (induction fs rule: rev_induct)
  case (snoc x fs)
  obtain t c where x: "x = (t, c)" by fastforce
  have wrap: "wrap_i32 (1 + int (length fs)) = 1 + int (length fs)"
    using snoc.prems by (intro wrap_i32_id) (simp add: i32_range_def)
  show ?case
  proof (cases "fs = []")
    case True
    then show ?thesis using snoc.prems
      by (simp add: x circuit_failures_def circuit_on_failure_def circuit_on_success_def
          entry_or_insert_def Let_def wrap_i32_def closed_entry_def)
  next
    case False
    with snoc show ?thesis
      by (simp add: x circuit_failures_def circuit_on_failure_def entry_or_insert_def Let_def wrap
          add.commute)
  qed
qed simp

section \<open>Properties\<close>

text \<open>
  C14: an open circuit never stays shut. Whatever the history of the registry, a call made at
  least the policy's open duration after the last operation is let through.
\<close>

theorem circuit_recovers:
  assumes "circuit_history t ops s"
    and "t + from_millis (as_u64 (circuit_open_duration_ms policy)) \<le> now"
  shows "is_ok (fst (circuit_before_call now p m policy s))"
proof -
  have "\<not> refuses now p m policy s"
    using circuit_history_inv [OF assms(1)] assms(2)
    by (fastforce simp: refuses_iff circuits_inv_def entry_inv_def split: option.splits)
  then show ?thesis by (simp add: is_ok_before_call)
qed

theorem circuit_recovers_witness:
  "circuit_history 7 [(7, OnFailure 1 2 sample_runtime_policy ProviderTimeout)]
      (circuit_apply 7 (OnFailure 1 2 sample_runtime_policy ProviderTimeout) Map.empty) \<and>
   is_ok (fst (circuit_before_call 1000000007 1 2 sample_runtime_policy
      (circuit_apply 7 (OnFailure 1 2 sample_runtime_policy ProviderTimeout) Map.empty)))"
proof
  show h: "circuit_history 7 [(7, OnFailure 1 2 sample_runtime_policy ProviderTimeout)]
      (circuit_apply 7 (OnFailure 1 2 sample_runtime_policy ProviderTimeout) Map.empty)"
    by (rule circuit_history.step [OF circuit_history.init, of 0]) simp
  show "is_ok (fst (circuit_before_call 1000000007 1 2 sample_runtime_policy
      (circuit_apply 7 (OnFailure 1 2 sample_runtime_policy ProviderTimeout) Map.empty)))"
    by (rule circuit_recovers [OF h]) (simp add: sample_runtime_policy_def from_millis_def)
qed

text \<open>
  C13: after a success, a run of circuit failures refuses the next call exactly when the run is
  at least as long as the policy's threshold and the call comes before the open duration has
  passed since the last failure.
\<close>

theorem circuit_trips_at_threshold:
  assumes "list_all (is_circuit_failure \<circ> snd) fs" and "fs \<noteq> []"
    and "1 \<le> circuit_failure_threshold policy" and "int (length fs) < 2 ^ 31"
  shows "\<not> is_ok (fst (circuit_before_call now p m policy
            (circuit_failures p m policy fs (circuit_on_success p m s)))) \<longleftrightarrow>
         circuit_failure_threshold policy \<le> int (length fs) \<and>
         now - fst (last fs) < from_millis (as_u64 (circuit_open_duration_ms policy))"
  using circuit_failures_entry [OF assms, of p m s]
  by (auto simp: is_ok_before_call refuses_iff)

theorem circuit_trips_at_threshold_witness:
  "\<not> is_ok (fst (circuit_before_call 20 1 2 sample_runtime_policy
      (circuit_failures 1 2 sample_runtime_policy [(5, ProviderTimeout), (9, ProviderUnavailable)]
        (circuit_on_success 1 2 Map.empty))))"
  by (subst circuit_trips_at_threshold)
    (simp_all add: sample_runtime_policy_def is_circuit_failure_def from_millis_def)

text \<open>
  a refusal is always evidence about the provider itself. If a call on a pair is refused,
  the history holds a circuit-class failure of that very pair, recent enough that the open
  duration has not passed since; failures of other classes (a caller's malformed schema) and
  failures of other pairs never refuse a call.
\<close>

theorem circuit_refusal_needs_provider_failure:
  assumes "circuit_history t ops s"
    and "\<not> is_ok (fst (circuit_before_call now p m policy s))"
  shows "\<exists>opened pol c. (opened, OnFailure p m pol c) \<in> set ops \<and> is_circuit_failure c \<and>
           now - opened < from_millis (as_u64 (circuit_open_duration_ms policy))"
proof -
  from assms(2) obtain e where e: "s (p, m) = Some e" "entry_state e = Open"
    and recent: "case opened_at e of None \<Rightarrow> True
      | Some opened \<Rightarrow> now - opened < from_millis (as_u64 (circuit_open_duration_ms policy))"
    by (auto simp: is_ok_before_call refuses_iff)
  from circuit_history_inv [OF assms(1)] e obtain opened where o: "opened_at e = Some opened"
    unfolding circuits_inv_def entry_inv_def by (fastforce split: option.splits)
  with recent have "now - opened < from_millis (as_u64 (circuit_open_duration_ms policy))" by simp
  with opened_by_failureD [OF circuit_history_opened_by_failure [OF assms(1)] e(1) o]
  show ?thesis by blast
qed

theorem circuit_refusal_needs_provider_failure_witness:
  "\<exists>opened pol c. (opened, OnFailure 1 2 pol c) \<in> set
      [(9, OnFailure 1 2 sample_runtime_policy ProviderTimeout),
       (5, OnFailure 1 2 sample_runtime_policy ProviderTimeout)] \<and>
     is_circuit_failure c \<and> 20 - opened < from_millis 1000"
proof -
  let ?op = "OnFailure 1 2 sample_runtime_policy ProviderTimeout"
  have h: "circuit_history 9 [(9, ?op), (5, ?op)]
      (circuit_apply 9 ?op (circuit_apply 5 ?op Map.empty))"
    by (rule circuit_history.step [OF circuit_history.step [OF circuit_history.init, of 0]]) simp_all
  have "\<not> is_ok (fst (circuit_before_call 20 1 2 sample_runtime_policy
      (circuit_apply 9 ?op (circuit_apply 5 ?op Map.empty))))"
    by (simp add: sample_runtime_policy_def circuit_on_failure_def circuit_before_call_def
        current_entry_def entry_or_insert_def is_circuit_failure_def wrap_i32_def from_millis_def
        Let_def)
  from circuit_refusal_needs_provider_failure [OF h this] show ?thesis
    by (simp add: sample_runtime_policy_def)
qed

text \<open>
  the outcome of a half-open probe decides the circuit. A circuit failure refuses calls for
  one open duration counted from that failure; a success admits every later call.
\<close>

theorem circuit_probe_decides:
  assumes "circuit_before_call t p m policy s = (Ok HalfOpen, s')" and "is_circuit_failure c"
  shows "(\<not> is_ok (fst (circuit_before_call now p m policy
             (circuit_on_failure t' p m policy c s'))) \<longleftrightarrow>
           now - t' < from_millis (as_u64 (circuit_open_duration_ms policy))) \<and>
         is_ok (fst (circuit_before_call now p m policy' (circuit_on_success p m s')))"
proof -
  from assms(1) obtain e where "s' (p, m) = Some e" "entry_state e = HalfOpen"
    by (auto simp: circuit_before_call_def Let_def split: circuit_state.splits option.splits if_splits)
  then have "circuit_on_failure t' p m policy c s' (p, m) =
      Some (e\<lparr>failure_count := wrap_i32 (failure_count e + 1),
              entry_policy_version := version policy, entry_state := Open, opened_at := Some t'\<rparr>)"
    using assms(2) by (simp add: circuit_on_failure_def entry_or_insert_def Let_def)
  moreover have "\<not> refuses now p m policy' (circuit_on_success p m s')"
    by (auto simp: refuses_iff circuit_on_success_def)
  ultimately show ?thesis
    unfolding is_ok_before_call by (auto simp: refuses_iff)
qed

theorem circuit_probe_decides_witness:
  "\<not> is_ok (fst (circuit_before_call 2000000000 1 2 sample_runtime_policy
      (circuit_on_failure 1500000000 1 2 sample_runtime_policy ProviderTimeout
        (Map.empty((1, 2) \<mapsto> \<lparr>entry_state = HalfOpen, failure_count = 2, opened_at = Some 9,
                                entry_policy_version = 3\<rparr>)))))"
proof -
  have h: "circuit_before_call 1200000000 1 2 sample_runtime_policy
        (Map.empty((1, 2) \<mapsto> \<lparr>entry_state = Open, failure_count = 2, opened_at = Some 9,
                                entry_policy_version = 3\<rparr>)) =
      (Ok HalfOpen, Map.empty((1, 2) \<mapsto> \<lparr>entry_state = HalfOpen, failure_count = 2,
                                opened_at = Some 9, entry_policy_version = 3\<rparr>))"
    by (simp add: circuit_before_call_def current_entry_def entry_or_insert_def
        sample_runtime_policy_def from_millis_def Let_def)
  show ?thesis
    using circuit_probe_decides [OF h, of ProviderTimeout 2000000000 1500000000]
    by (simp add: is_circuit_failure_def sample_runtime_policy_def from_millis_def)
qed

end
