(* ===== verification/App_Error.thy ===== *)
theory App_Error
  imports Moira_Prelude
begin

text \<open>
  The error type of the service, \<open>src/src/error.rs\<close>: the variants of \<open>AppError\<close>, the status,
  code, message key and message each one is answered with, the wire form of an error, and which
  failures the admin idempotency ledger may store. A source error wrapped by a variant
  (\<open>sqlx::Error\<close>, \<open>reqwest::Error\<close>, \<open>redis::RedisError\<close>) is never shown to a client, so those
  variants carry nothing.
\<close>

datatype json =
    JNull
  | JBool bool
  | JNumber int
  | JString string
  | JArray "json list"
  | JObject "(string \<times> json) list"

record replayed_error =
  re_status :: nat
  re_code :: string
  re_message_key :: string
  re_message :: string
  re_message_args :: json
  re_details :: "json option"

datatype app_error =
    BadRequest string
  | Api nat string string "json option"
  | Replayed replayed_error
  | Unauthorized string
  | Forbidden string
  | NotFound string
  | DatabaseUnavailable
  | Upstream string
  | ConfigError string
  | Sqlx
  | Reqwest
  | Redis
  | Internal string

record error_detail =
  ed_code :: string
  ed_message_key :: string
  ed_message :: string
  ed_message_args :: json
  ed_request_id :: string
  ed_details :: "json option"

definition coded :: "nat \<Rightarrow> string \<Rightarrow> string \<Rightarrow> app_error" where
  "coded status code message = Api status code message None"

definition coded_with_details :: "nat \<Rightarrow> string \<Rightarrow> string \<Rightarrow> json \<Rightarrow> app_error" where
  "coded_with_details status code message details = Api status code message (Some details)"

definition conflict :: "string \<Rightarrow> string \<Rightarrow> app_error" where
  "conflict code message = coded 409 code message"

definition unprocessable :: "string \<Rightarrow> string \<Rightarrow> app_error" where
  "unprocessable code message = coded 422 code message"

fun app_error_status :: "app_error \<Rightarrow> nat" where
  "app_error_status (BadRequest _) = 400"
| "app_error_status (ConfigError _) = 400"
| "app_error_status (Api status _ _ _) = status"
| "app_error_status (Replayed r) = re_status r"
| "app_error_status (Unauthorized _) = 401"
| "app_error_status (Forbidden _) = 403"
| "app_error_status (NotFound _) = 404"
| "app_error_status DatabaseUnavailable = 503"
| "app_error_status (Upstream _) = 502"
| "app_error_status Sqlx = 500"
| "app_error_status Reqwest = 500"
| "app_error_status Redis = 500"
| "app_error_status (Internal _) = 500"

fun app_error_code :: "app_error \<Rightarrow> string" where
  "app_error_code (BadRequest _) = ''bad_request''"
| "app_error_code (Api _ code _ _) = code"
| "app_error_code (Replayed r) = re_code r"
| "app_error_code (Unauthorized _) = ''unauthorized''"
| "app_error_code (Forbidden _) = ''forbidden''"
| "app_error_code (NotFound _) = ''not_found''"
| "app_error_code DatabaseUnavailable = ''database_unavailable''"
| "app_error_code (Upstream _) = ''upstream_error''"
| "app_error_code (ConfigError _) = ''configuration_error''"
| "app_error_code Sqlx = ''database_error''"
| "app_error_code Reqwest = ''http_client_error''"
| "app_error_code Redis = ''redis_error''"
| "app_error_code (Internal _) = ''internal_error''"

definition app_error_message_key :: "app_error \<Rightarrow> string" where
  "app_error_message_key e = ''moira.error.'' @ app_error_code e"

fun english_message :: "app_error \<Rightarrow> string" where
  "english_message (BadRequest m) = m"
| "english_message (Unauthorized m) = m"
| "english_message (Forbidden m) = m"
| "english_message (NotFound m) = m"
| "english_message (Upstream m) = m"
| "english_message (ConfigError m) = m"
| "english_message (Internal m) = m"
| "english_message (Api _ _ m _) = m"
| "english_message (Replayed r) = re_message r"
| "english_message DatabaseUnavailable = ''database is not configured''"
| "english_message Sqlx = ''database error''"
| "english_message Reqwest = ''http client error''"
| "english_message Redis = ''redis error''"

text \<open>
  \<open>generated\<close> is the request id made up when the request carries none
  (\<open>generate_request_id\<close>); a response text without arguments has an empty object.
\<close>

fun error_detail_of :: "string \<Rightarrow> app_error \<Rightarrow> string option \<Rightarrow> error_detail" where
  "error_detail_of generated (Replayed r) request_id =
     \<lparr>ed_code = re_code r, ed_message_key = re_message_key r, ed_message = re_message r,
      ed_message_args = re_message_args r,
      ed_request_id = (case request_id of None \<Rightarrow> generated | Some i \<Rightarrow> i), ed_details = re_details r\<rparr>"
| "error_detail_of generated e request_id =
     \<lparr>ed_code = app_error_code e, ed_message_key = app_error_message_key e,
      ed_message = english_message e, ed_message_args = JObject [],
      ed_request_id = (case request_id of None \<Rightarrow> generated | Some i \<Rightarrow> i),
      ed_details = (case e of Api _ _ _ details \<Rightarrow> details | _ \<Rightarrow> None)\<rparr>"

definition is_cacheable_admin_failure :: "app_error \<Rightarrow> bool" where
  "is_cacheable_admin_failure e \<longleftrightarrow>
     app_error_status e \<in> {400, 404, 409, 422} \<and>
     (case e of Sqlx \<Rightarrow> False | Reqwest \<Rightarrow> False | Redis \<Rightarrow> False | Internal _ \<Rightarrow> False
        | Unauthorized _ \<Rightarrow> False | Forbidden _ \<Rightarrow> False | _ \<Rightarrow> True)"

lemma cacheable_cases:
  "is_cacheable_admin_failure e \<Longrightarrow>
    (\<exists>m. e = BadRequest m \<or> e = ConfigError m \<or> e = NotFound m) \<or>
    (\<exists>s c m d. e = Api s c m d \<and> s \<in> {400, 404, 409, 422}) \<or>
    (\<exists>r. e = Replayed r \<and> re_status r \<in> {400, 404, 409, 422})"
  by (cases e) (auto simp: is_cacheable_admin_failure_def)

end
