(* ===== verification/Limiter_Registry.thy ===== *)
theory Limiter_Registry
  imports Execution_Failure
begin

text \<open>
  The dynamic limiters of \<open>src/src/orchestration/controls.rs\<close>: \<open>DynamicLimiter\<close>,
  \<open>DynamicPermit\<close>, \<open>acquire_dynamic_limiter\<close> and \<open>evict_oldest_inactive_limiter\<close>.

  A \<open>DynamicPermit\<close> holds an \<open>Arc<DynamicLimiter>\<close>, so a limiter that is evicted from its map
  lives on as long as a permit points at it. The model keeps that sharing explicit: a registry
  is the map from keys to entries, an entry holds the address of its limiter, and a store maps
  addresses to limiters. A permit is an address.

  The map operations run under the registry's mutex; \<open>try_acquire\<close> and \<open>drop\<close> are single
  successful compare-and-swap or fetch-and-subtract operations on the limiter's counter. A
  history is therefore a sequence of these operations in any interleaving.
\<close>

section \<open>State\<close>

record dynamic_limiter =
  limiter_limit :: nat
  limiter_active :: nat

record limiter_entry =
  entry_limiter :: nat
  last_used :: instant

record 'k registry =
  reg_map :: "('k, limiter_entry) hmap"
  reg_store :: "nat \<Rightarrow> dynamic_limiter"
  reg_next :: nat

datatype capacity_scope =
    ScopeGlobal
  | ScopeProviderRequest
  | ScopeProviderStream
  | ScopeApplication
  | ScopeUser
  | ScopeLimiterRegistry

section \<open>Operations on one limiter\<close>

definition DynamicLimiter_new :: "nat \<Rightarrow> dynamic_limiter" where
  "DynamicLimiter_new limit = \<lparr>limiter_limit = max limit 1, limiter_active = 0\<rparr>"

definition DynamicLimiter_set_limit :: "nat \<Rightarrow> dynamic_limiter \<Rightarrow> dynamic_limiter" where
  "DynamicLimiter_set_limit limit l = l\<lparr>limiter_limit := max limit 1\<rparr>"

definition DynamicLimiter_try_acquire :: "dynamic_limiter \<Rightarrow> dynamic_limiter option" where
  "DynamicLimiter_try_acquire l =
     (if limiter_limit l \<le> limiter_active l then None
      else Some (l\<lparr>limiter_active := limiter_active l + 1\<rparr>))"

text \<open>\<open>fetch_sub\<close> wraps below zero.\<close>

definition DynamicPermit_drop :: "nat \<Rightarrow> 'k registry \<Rightarrow> 'k registry" where
  "DynamicPermit_drop a reg =
     (let l = reg_store reg a;
          active = (if limiter_active l = 0 then u64_max else limiter_active l - 1)
      in reg\<lparr>reg_store := (reg_store reg)(a := l\<lparr>limiter_active := active\<rparr>)\<rparr>)"

section \<open>Operations on a registry\<close>

definition empty_registry :: "'k registry" where
  "empty_registry = \<lparr>reg_map = [], reg_store = (\<lambda>_. DynamicLimiter_new 0), reg_next = 0\<rparr>"

definition evict_oldest_inactive_limiter :: "'k registry \<Rightarrow> bool \<times> 'k registry" where
  "evict_oldest_inactive_limiter reg =
     (case min_by_key (\<lambda>(k, e). last_used e)
             (filter (\<lambda>(k, e). limiter_active (reg_store reg (entry_limiter e)) = 0) (reg_map reg)) of
        None \<Rightarrow> (False, reg)
      | Some (k, e) \<Rightarrow> (True, reg\<lparr>reg_map := hm_remove k (reg_map reg)\<rparr>))"

definition entry_or_new :: "instant \<Rightarrow> 'k \<Rightarrow> nat \<Rightarrow> 'k registry \<Rightarrow> limiter_entry \<times> 'k registry" where
  "entry_or_new now key limit reg =
     (case map_of (reg_map reg) key of
        Some e \<Rightarrow> (e, reg)
      | None \<Rightarrow>
          (let e = \<lparr>entry_limiter = reg_next reg, last_used = now\<rparr> in
           (e, reg\<lparr>reg_map := hm_insert key e (reg_map reg),
                   reg_store := (reg_store reg)(reg_next reg := DynamicLimiter_new limit),
                   reg_next := Suc (reg_next reg)\<rparr>)))"

definition acquire_dynamic_limiter ::
    "instant \<Rightarrow> 'k \<Rightarrow> nat \<Rightarrow> capacity_scope \<Rightarrow> nat \<Rightarrow> 'k registry
      \<Rightarrow> (capacity_scope + nat) \<times> 'k registry" where
  "acquire_dynamic_limiter now key limit scope maximum reg =
     (let (room, reg1) =
        (if \<not> hm_contains (reg_map reg) key \<and> maximum \<le> length (reg_map reg)
         then evict_oldest_inactive_limiter reg else (True, reg))
      in if \<not> room then (Err ScopeLimiterRegistry, reg1)
         else
           let (e, reg2) = entry_or_new now key limit reg1;
               a = entry_limiter e;
               l = DynamicLimiter_set_limit limit (reg_store reg2 a);
               reg3 = reg2\<lparr>reg_map := hm_insert key (e\<lparr>last_used := now\<rparr>) (reg_map reg2),
                           reg_store := (reg_store reg2)(a := l)\<rparr>
           in case DynamicLimiter_try_acquire l of
                None \<Rightarrow> (Err scope, reg3)
              | Some l' \<Rightarrow> (Ok a, reg3\<lparr>reg_store := (reg_store reg3)(a := l')\<rparr>))"

section \<open>What a registry represents\<close>

text \<open>The number of permits in use under a key; a key without an entry has none.\<close>

definition active_of :: "'k registry \<Rightarrow> 'k \<Rightarrow> nat" where
  "active_of reg key =
     (case map_of (reg_map reg) key of
        None \<Rightarrow> 0
      | Some e \<Rightarrow> limiter_active (reg_store reg (entry_limiter e)))"

definition address_of :: "'k registry \<Rightarrow> 'k \<Rightarrow> nat option" where
  "address_of reg key = map_option entry_limiter (map_of (reg_map reg) key)"

text \<open>Entries never share a limiter, and every address in use was allocated.\<close>

definition reg_inv :: "'k registry \<Rightarrow> bool" where
  "reg_inv reg \<longleftrightarrow>
     hm_ok (reg_map reg) \<and>
     (\<forall>k a. address_of reg k = Some a \<longrightarrow> a < reg_next reg) \<and>
     (\<forall>k k' a. address_of reg k = Some a \<longrightarrow> address_of reg k' = Some a \<longrightarrow> k = k')"

lemma reg_inv_empty [simp]: "reg_inv empty_registry"
  by (simp add: reg_inv_def empty_registry_def address_of_def)

lemma active_of_address:
  "active_of reg k =
     (case address_of reg k of None \<Rightarrow> 0 | Some a \<Rightarrow> limiter_active (reg_store reg a))"
  by (simp add: active_of_def address_of_def split: option.splits)

lemma reg_invD:
  "reg_inv reg \<Longrightarrow> address_of reg k = Some a \<Longrightarrow> a < reg_next reg"
  "reg_inv reg \<Longrightarrow> address_of reg k = Some a \<Longrightarrow> address_of reg k' = Some a \<Longrightarrow> k = k'"
  "reg_inv reg \<Longrightarrow> hm_ok (reg_map reg)"
  by (auto simp: reg_inv_def)

subsection \<open>Eviction\<close>

lemma evict_cases:
  assumes "reg_inv reg"
  obtains (none) "evict_oldest_inactive_limiter reg = (False, reg)"
  | (some) k where "evict_oldest_inactive_limiter reg = (True, reg\<lparr>reg_map := hm_remove k (reg_map reg)\<rparr>)"
      and "active_of reg k = 0" and "hm_contains (reg_map reg) k"
proof (cases "min_by_key (\<lambda>(k, e). last_used e)
    (filter (\<lambda>(k, e). limiter_active (reg_store reg (entry_limiter e)) = 0) (reg_map reg))")
  case None
  then show ?thesis by (intro none) (simp add: evict_oldest_inactive_limiter_def)
next
  case (Some ke)
  obtain k e where ke: "ke = (k, e)" by fastforce
  from min_by_key_Some [OF Some [unfolded ke]]
  have "(k, e) \<in> set (reg_map reg)" and "limiter_active (reg_store reg (entry_limiter e)) = 0"
    by auto
  then have "map_of (reg_map reg) k = Some e"
    using hm_get_in_set [OF reg_invD(3) [OF assms]] by blast
  with Some ke \<open>limiter_active (reg_store reg (entry_limiter e)) = 0\<close> show ?thesis
    by (intro some [of k])
      (simp_all add: evict_oldest_inactive_limiter_def active_of_def hm_contains_def)
qed

lemma address_of_remove:
  "address_of (reg\<lparr>reg_map := hm_remove k (reg_map reg)\<rparr>) k' = (if k' = k then None else address_of reg k')"
  by (simp add: address_of_def)

lemma reg_inv_remove: "reg_inv reg \<Longrightarrow> reg_inv (reg\<lparr>reg_map := hm_remove k (reg_map reg)\<rparr>)"
  unfolding reg_inv_def by (auto simp: address_of_remove split: if_splits)

lemma active_of_remove:
  "active_of reg k = 0 \<Longrightarrow> active_of (reg\<lparr>reg_map := hm_remove k (reg_map reg)\<rparr>) = active_of reg"
  by (rule ext) (auto simp: active_of_address address_of_remove split: option.splits)

subsection \<open>Finding or creating the entry\<close>

lemma entry_or_new_props:
  assumes "reg_inv reg" and "entry_or_new now key limit reg = (e, reg')"
  shows "reg_inv reg'" and "active_of reg' = active_of reg"
    and "map_of (reg_map reg') key = Some e"
    and "address_of reg' = (address_of reg)(key \<mapsto> entry_limiter e)"
proof -
  show map: "map_of (reg_map reg') key = Some e"
    using assms(2) by (auto simp: entry_or_new_def Let_def split: option.splits)
  show addr: "address_of reg' = (address_of reg)(key \<mapsto> entry_limiter e)"
    using assms(2) by (auto simp: entry_or_new_def Let_def address_of_def split: option.splits)
  show "reg_inv reg'"
  proof (cases "map_of (reg_map reg) key")
    case None
    with assms have e: "entry_limiter e = reg_next reg" and "reg_next reg' = Suc (reg_next reg)"
      and "hm_ok (reg_map reg')"
      by (auto simp: entry_or_new_def Let_def reg_inv_def)
    moreover have "address_of reg k \<noteq> Some (reg_next reg)" for k
      using reg_invD(1) [OF assms(1)] by blast
    ultimately show ?thesis
      using assms(1) unfolding reg_inv_def addr by (auto simp: less_Suc_eq)
  next
    case (Some e')
    with assms show ?thesis by (auto simp: entry_or_new_def)
  qed
  show "active_of reg' = active_of reg"
  proof (cases "map_of (reg_map reg) key")
    case None
    show ?thesis
    proof
      fix k
      show "active_of reg' k = active_of reg k"
        using None assms reg_invD(1) [OF assms(1), of k]
        by (auto simp: entry_or_new_def Let_def active_of_address address_of_def DynamicLimiter_new_def
            split: option.splits if_splits)
    qed
  next
    case (Some e')
    with assms show ?thesis by (auto simp: entry_or_new_def)
  qed
qed

lemma entry_or_new_keeps:
  "entry_or_new now key limit reg = (e, reg') \<Longrightarrow> 0 < active_of reg k \<Longrightarrow>
    address_of reg' k = address_of reg k"
  by (auto simp: entry_or_new_def Let_def address_of_def active_of_def split: option.splits)

lemma entry_or_new_length:
  "reg_inv reg \<Longrightarrow> entry_or_new now key limit reg = (e, reg') \<Longrightarrow>
    length (reg_map reg') = (if hm_contains (reg_map reg) key then length (reg_map reg)
                             else Suc (length (reg_map reg)))"
  by (auto simp: entry_or_new_def Let_def hm_contains_def hm_length_insert reg_invD
      split: option.splits)

subsection \<open>Writing an entry back\<close>

text \<open>Touching an entry and changing its limiter without changing the counter.\<close>

definition write_back :: "'k \<Rightarrow> limiter_entry \<Rightarrow> dynamic_limiter \<Rightarrow> 'k registry \<Rightarrow> 'k registry" where
  "write_back key e l reg =
     reg\<lparr>reg_map := hm_insert key e (reg_map reg),
         reg_store := (reg_store reg)(entry_limiter e := l)\<rparr>"

lemma write_back_props:
  assumes "reg_inv reg" and "address_of reg key = Some (entry_limiter e)"
  shows "address_of (write_back key e l reg) = address_of reg"
    and "reg_inv (write_back key e l reg)"
    and "active_of (write_back key e l reg) = (active_of reg)(key := limiter_active l)"
    and "length (reg_map (write_back key e l reg)) = length (reg_map reg)"
proof -
  show addr: "address_of (write_back key e l reg) = address_of reg"
    using assms(2) by (auto simp: write_back_def address_of_def)
  show "reg_inv (write_back key e l reg)"
    using assms(1) unfolding reg_inv_def addr by (simp add: write_back_def)
  show "active_of (write_back key e l reg) = (active_of reg)(key := limiter_active l)"
  proof
    fix k
    have "k \<noteq> key \<Longrightarrow> address_of reg k \<noteq> Some (entry_limiter e)"
      using reg_invD(2) [OF assms(1) assms(2)] by blast
    then show "active_of (write_back key e l reg) k = ((active_of reg)(key := limiter_active l)) k"
      using assms(2) by (auto simp: active_of_address addr) (auto simp: write_back_def split: option.splits)
  qed
  have "hm_contains (reg_map reg) key"
    using assms(2) by (auto simp: hm_contains_def address_of_def)
  then show "length (reg_map (write_back key e l reg)) = length (reg_map reg)"
    using reg_invD(3) [OF assms(1)] by (simp add: write_back_def hm_length_insert)
qed

subsection \<open>Making room\<close>

definition make_room :: "'k \<Rightarrow> nat \<Rightarrow> 'k registry \<Rightarrow> bool \<times> 'k registry" where
  "make_room key maximum reg =
     (if \<not> hm_contains (reg_map reg) key \<and> maximum \<le> length (reg_map reg)
      then evict_oldest_inactive_limiter reg else (True, reg))"

lemma make_room_props:
  assumes "reg_inv reg" and "make_room key maximum reg = (room, reg')"
  shows "reg_inv reg'" and "active_of reg' = active_of reg"
    and "0 < active_of reg k \<Longrightarrow> address_of reg' k = address_of reg k"
    and "hm_contains (reg_map reg') key = hm_contains (reg_map reg) key"
    and "length (reg_map reg) \<le> maximum \<Longrightarrow> length (reg_map reg') \<le> maximum"
    and "room \<Longrightarrow> length (reg_map reg) \<le> maximum \<Longrightarrow> 1 \<le> maximum \<Longrightarrow>
           hm_contains (reg_map reg') key \<or> length (reg_map reg') < maximum"
proof -
  consider (same) "reg' = reg" "room \<longrightarrow> hm_contains (reg_map reg) key \<or> length (reg_map reg) < maximum"
    | (evicted) v where "reg' = reg\<lparr>reg_map := hm_remove v (reg_map reg)\<rparr>" "active_of reg v = 0"
        "hm_contains (reg_map reg) v" "\<not> hm_contains (reg_map reg) key"
  proof (cases "\<not> hm_contains (reg_map reg) key \<and> maximum \<le> length (reg_map reg)")
    case True
    from assms(1) show thesis
      by (cases rule: evict_cases) (use assms(2) True that in \<open>auto simp: make_room_def\<close>)
  next
    case False
    with assms(2) show thesis by (intro that(1)) (auto simp: make_room_def)
  qed
  note cases = this
  from cases show "reg_inv reg'"
    by cases (simp_all add: assms(1) reg_inv_remove)
  from cases show "active_of reg' = active_of reg"
    by cases (simp_all add: active_of_remove)
  from cases show "0 < active_of reg k \<Longrightarrow> address_of reg' k = address_of reg k"
    by cases (auto simp: address_of_remove)
  from cases show "hm_contains (reg_map reg') key = hm_contains (reg_map reg) key"
    by cases auto
  from cases show "length (reg_map reg) \<le> maximum \<Longrightarrow> length (reg_map reg') \<le> maximum"
    by cases (auto simp: hm_length_remove reg_invD(3) [OF assms(1)])
  from cases show "room \<Longrightarrow> length (reg_map reg) \<le> maximum \<Longrightarrow> 1 \<le> maximum \<Longrightarrow>
      hm_contains (reg_map reg') key \<or> length (reg_map reg') < maximum"
    by cases (auto simp: hm_length_remove reg_invD(3) [OF assms(1)] hm_contains_def)
qed

subsection \<open>Acquiring\<close>

lemma acquire_dynamic_limiter_alt:
  "acquire_dynamic_limiter now key limit scope maximum reg =
     (let (room, reg1) = make_room key maximum reg
      in if \<not> room then (Err ScopeLimiterRegistry, reg1)
         else
           let (e, reg2) = entry_or_new now key limit reg1;
               l = DynamicLimiter_set_limit limit (reg_store reg2 (entry_limiter e))
           in case DynamicLimiter_try_acquire l of
                None \<Rightarrow> (Err scope, write_back key (e\<lparr>last_used := now\<rparr>) l reg2)
              | Some l' \<Rightarrow> (Ok (entry_limiter e), write_back key (e\<lparr>last_used := now\<rparr>) l' reg2))"
  by (simp add: acquire_dynamic_limiter_def make_room_def write_back_def Let_def
      split: prod.splits option.splits)

lemma try_acquire_set_limit:
  "DynamicLimiter_try_acquire (DynamicLimiter_set_limit limit l) =
     (if max limit 1 \<le> limiter_active l then None
      else Some \<lparr>limiter_limit = max limit 1, limiter_active = Suc (limiter_active l)\<rparr>)"
  by (cases l) (simp add: DynamicLimiter_try_acquire_def DynamicLimiter_set_limit_def)

lemma acquire_cases:
  assumes "reg_inv reg"
    and "acquire_dynamic_limiter now key limit scope maximum reg = (r, reg')"
  obtains (full) "r = Err ScopeLimiterRegistry" and "make_room key maximum reg = (False, reg')"
  | (entry) reg1 e reg2 l where "make_room key maximum reg = (True, reg1)"
      and "entry_or_new now key limit reg1 = (e, reg2)"
      and "reg' = write_back key (e\<lparr>last_used := now\<rparr>) l reg2"
      and "r = (if max limit 1 \<le> active_of reg key then Err scope else Ok (entry_limiter e))"
      and "limiter_active l = (if max limit 1 \<le> active_of reg key then active_of reg key
                               else Suc (active_of reg key))"
proof -
  obtain room reg1 where room: "make_room key maximum reg = (room, reg1)" by fastforce
  obtain e reg2 where e: "entry_or_new now key limit reg1 = (e, reg2)" by fastforce
  have "active_of reg key = limiter_active (reg_store reg2 (entry_limiter e))"
    using make_room_props(1,2) [OF assms(1) room] entry_or_new_props [OF _ e]
    by (metis active_of_def option.simps(5))
  note active = this
  show ?thesis
  proof (cases room)
    case False
    with assms(2) room show ?thesis
      by (intro full) (auto simp: acquire_dynamic_limiter_alt)
  next
    case True
    let ?l = "reg_store reg2 (entry_limiter e)"
    define l' where "l' = (if max limit 1 \<le> limiter_active ?l then DynamicLimiter_set_limit limit ?l
      else \<lparr>limiter_limit = max limit 1, limiter_active = Suc (limiter_active ?l)\<rparr>)"
    have "limiter_active l' = (if max limit 1 \<le> active_of reg key then active_of reg key
                               else Suc (active_of reg key))"
      by (simp add: l'_def active DynamicLimiter_set_limit_def)
    moreover have "r = (if max limit 1 \<le> active_of reg key then Err scope else Ok (entry_limiter e))"
      and "reg' = write_back key (e\<lparr>last_used := now\<rparr>) l' reg2"
      using assms(2) room e True
      by (auto simp: acquire_dynamic_limiter_alt try_acquire_set_limit active l'_def Let_def
          split: if_splits)
    ultimately show ?thesis using room True e by (intro entry) auto
  qed
qed

lemma acquire_props:
  assumes inv: "reg_inv reg"
    and acq: "acquire_dynamic_limiter now key limit scope maximum reg = (r, reg')"
  shows "reg_inv reg'"
    and "active_of reg' = (case r of Err _ \<Rightarrow> active_of reg
           | Ok _ \<Rightarrow> (active_of reg)(key := Suc (active_of reg key)))"
    and "0 < active_of reg k \<Longrightarrow> address_of reg' k = address_of reg k"
    and "r = Ok a \<Longrightarrow> address_of reg' key = Some a"
    and "length (reg_map reg) \<le> maximum \<Longrightarrow> 1 \<le> maximum \<Longrightarrow> length (reg_map reg') \<le> maximum"
    and "r = Ok a \<Longrightarrow> active_of reg key < max limit 1"
    and "r = Err s \<Longrightarrow> s = ScopeLimiterRegistry \<or> s = scope \<and> max limit 1 \<le> active_of reg key"
proof -
  have "reg_inv reg' \<and>
    active_of reg' = (case r of Err _ \<Rightarrow> active_of reg
           | Ok _ \<Rightarrow> (active_of reg)(key := Suc (active_of reg key))) \<and>
    (0 < active_of reg k \<longrightarrow> address_of reg' k = address_of reg k) \<and>
    (r = Ok a \<longrightarrow> address_of reg' key = Some a) \<and>
    (length (reg_map reg) \<le> maximum \<longrightarrow> 1 \<le> maximum \<longrightarrow> length (reg_map reg') \<le> maximum) \<and>
    (r = Ok a \<longrightarrow> active_of reg key < max limit 1) \<and>
    (r = Err s \<longrightarrow> s = ScopeLimiterRegistry \<or> s = scope \<and> max limit 1 \<le> active_of reg key)"
    using inv acq
  proof (cases rule: acquire_cases)
    case full
    then show ?thesis using make_room_props [OF inv full(2)] by auto
  next
    case (entry reg1 e reg2 l)
    note mr = make_room_props [OF inv entry(1)]
    note eo = entry_or_new_props [OF mr(1) entry(2)]
    have at: "address_of reg2 key = Some (entry_limiter (e\<lparr>last_used := now\<rparr>))"
      by (simp add: eo(4))
    note wb = write_back_props [OF eo(1) at, of l, folded entry(3)]
    have "0 < active_of reg k \<Longrightarrow> address_of reg' k = address_of reg k"
      using mr(2,3) eo(4) wb(1) entry_or_new_keeps [OF entry(2), of k] by auto
    moreover have "length (reg_map reg) \<le> maximum \<Longrightarrow> 1 \<le> maximum \<Longrightarrow> length (reg_map reg') \<le> maximum"
      using mr(4-6) wb(4) entry_or_new_length [OF mr(1) entry(2)] by auto
    ultimately show ?thesis
      using wb(1-3) entry(4,5) mr(2) eo(2) at by (auto split: if_splits)
  qed
  then show "reg_inv reg'"
    and "active_of reg' = (case r of Err _ \<Rightarrow> active_of reg
           | Ok _ \<Rightarrow> (active_of reg)(key := Suc (active_of reg key)))"
    and "0 < active_of reg k \<Longrightarrow> address_of reg' k = address_of reg k"
    and "r = Ok a \<Longrightarrow> address_of reg' key = Some a"
    and "length (reg_map reg) \<le> maximum \<Longrightarrow> 1 \<le> maximum \<Longrightarrow> length (reg_map reg') \<le> maximum"
    and "r = Ok a \<Longrightarrow> active_of reg key < max limit 1"
    and "r = Err s \<Longrightarrow> s = ScopeLimiterRegistry \<or> s = scope \<and> max limit 1 \<le> active_of reg key"
    by blast+
qed

subsection \<open>Dropping\<close>

lemma drop_props:
  shows "address_of (DynamicPermit_drop a reg) = address_of reg"
    and "reg_inv (DynamicPermit_drop a reg) = reg_inv reg"
    and "reg_map (DynamicPermit_drop a reg) = reg_map reg"
    and "reg_inv reg \<Longrightarrow> address_of reg k = Some a \<Longrightarrow> 0 < active_of reg k \<Longrightarrow>
           active_of (DynamicPermit_drop a reg) = (active_of reg)(k := active_of reg k - 1)"
proof -
  show map: "reg_map (DynamicPermit_drop a reg) = reg_map reg"
    by (simp add: DynamicPermit_drop_def Let_def)
  show addr: "address_of (DynamicPermit_drop a reg) = address_of reg"
    by (rule ext) (simp add: address_of_def map)
  show "reg_inv (DynamicPermit_drop a reg) = reg_inv reg"
    unfolding reg_inv_def addr map by (simp add: DynamicPermit_drop_def Let_def)
  assume inv: "reg_inv reg" and a: "address_of reg k = Some a" and pos: "0 < active_of reg k"
  show "active_of (DynamicPermit_drop a reg) = (active_of reg)(k := active_of reg k - 1)"
  proof
    fix k'
    have "k' \<noteq> k \<Longrightarrow> address_of reg k' \<noteq> Some a"
      using reg_invD(2) [OF inv a] by blast
    then show "active_of (DynamicPermit_drop a reg) k' = ((active_of reg)(k := active_of reg k - 1)) k'"
      using a pos unfolding active_of_address addr
      by (auto simp: DynamicPermit_drop_def Let_def split: option.splits)
  qed
qed

section \<open>Histories of a registry\<close>

text \<open>
  A history interleaves acquisitions, refusals and drops of permits that are still held. The
  second argument lists the permits held, each with the key it was acquired under.
\<close>

inductive registry_history :: "nat \<Rightarrow> 'k registry \<Rightarrow> ('k \<times> nat) list \<Rightarrow> bool" for maximum where
  start: "registry_history maximum empty_registry []"
| acquired: "registry_history maximum reg held \<Longrightarrow>
    acquire_dynamic_limiter now key limit scope maximum reg = (Ok a, reg') \<Longrightarrow>
    registry_history maximum reg' ((key, a) # held)"
| refused: "registry_history maximum reg held \<Longrightarrow>
    acquire_dynamic_limiter now key limit scope maximum reg = (Err s, reg') \<Longrightarrow>
    registry_history maximum reg' held"
| dropped: "registry_history maximum reg held \<Longrightarrow> (key, a) \<in> set held \<Longrightarrow>
    registry_history maximum (DynamicPermit_drop a reg) (remove1 (key, a) held)"

definition held_under :: "'k \<Rightarrow> ('k \<times> nat) list \<Rightarrow> nat" where
  "held_under key held = length (filter (\<lambda>p. fst p = key) held)"

definition permits_tracked :: "'k registry \<Rightarrow> ('k \<times> nat) list \<Rightarrow> bool" where
  "permits_tracked reg held \<longleftrightarrow>
     reg_inv reg \<and> (\<forall>k. active_of reg k = held_under k held) \<and>
     (\<forall>(k, a) \<in> set held. address_of reg k = Some a)"

lemma held_under_Nil [simp]: "held_under k [] = 0"
  and held_under_Cons [simp]:
    "held_under k (p # held) = (if fst p = k then Suc (held_under k held) else held_under k held)"
  by (simp_all add: held_under_def)

lemma held_under_pos: "0 < held_under k held \<longleftrightarrow> k \<in> fst ` set held"
  by (induction held) auto

lemma held_under_remove1:
  "(k, a) \<in> set held \<Longrightarrow>
    held_under k' (remove1 (k, a) held) = (if k' = k then held_under k' held - 1 else held_under k' held)"
proof (induction held)
  case (Cons p held)
  then have "p \<noteq> (k, a) \<Longrightarrow> 0 < held_under k held" by (force simp: held_under_pos)
  with Cons show ?case by (cases "p = (k, a)") auto
qed simp

lemma active_of_empty [simp]: "active_of empty_registry k = 0"
  by (simp add: active_of_def empty_registry_def)

lemma permits_tracked_held:
  assumes "permits_tracked reg held" and "(k, a) \<in> set held"
  shows "address_of reg k = Some a" and "0 < active_of reg k"
  using assms held_under_pos [of k held] by (force simp: permits_tracked_def)+

lemma permits_tracked_acquired:
  assumes "permits_tracked reg held"
    and "acquire_dynamic_limiter now key limit scope maximum reg = (Ok a, reg')"
  shows "permits_tracked reg' ((key, a) # held)"
proof -
  note tracked = assms(1) [unfolded permits_tracked_def]
  note acq = acquire_props [OF tracked [THEN conjunct1] assms(2)]
  have "address_of reg' k = Some b" if "(k, b) \<in> set held" for k b
    using acq(3) permits_tracked_held [OF assms(1) that] by simp
  then show ?thesis
    using tracked acq(1,2,4) unfolding permits_tracked_def by auto
qed

lemma permits_tracked_refused:
  assumes "permits_tracked reg held"
    and "acquire_dynamic_limiter now key limit scope maximum reg = (Err s, reg')"
  shows "permits_tracked reg' held"
proof -
  note tracked = assms(1) [unfolded permits_tracked_def]
  note acq = acquire_props [OF tracked [THEN conjunct1] assms(2)]
  have "address_of reg' k = Some b" if "(k, b) \<in> set held" for k b
    using acq(3) permits_tracked_held [OF assms(1) that] by simp
  then show ?thesis
    using tracked acq(1,2) unfolding permits_tracked_def by auto
qed

lemma permits_tracked_dropped:
  assumes "permits_tracked reg held" and "(key, a) \<in> set held"
  shows "permits_tracked (DynamicPermit_drop a reg) (remove1 (key, a) held)"
proof -
  note tracked = assms(1) [unfolded permits_tracked_def]
  from permits_tracked_held [OF assms] show ?thesis
    using tracked assms(2) set_remove1_subset [of "(key, a)" held]
    unfolding permits_tracked_def by (auto simp: drop_props held_under_remove1)
qed

lemma registry_history_tracked: "registry_history maximum reg held \<Longrightarrow> permits_tracked reg held"
proof (induction rule: registry_history.induct)
  case start
  then show ?case by (simp add: permits_tracked_def)
qed (blast intro: permits_tracked_acquired permits_tracked_refused permits_tracked_dropped)+

subsection \<open>When the registry refuses a new key\<close>

lemma evict_fails:
  assumes "evict_oldest_inactive_limiter reg = (False, reg')" and "reg_inv reg"
    and "hm_contains (reg_map reg) k"
  shows "0 < active_of reg k"
  using assms
  by (auto simp: evict_oldest_inactive_limiter_def active_of_def hm_contains_def filter_empty_conv
      hm_get_in_set reg_invD split: option.splits)

lemma full_registry_all_held:
  assumes tracked: "permits_tracked reg held" and full: "make_room key maximum reg = (False, reg')"
  shows "maximum \<le> card (fst ` set held)" and "held_under key held = 0"
proof -
  have inv: "reg_inv reg" and active: "\<And>k. active_of reg k = held_under k held"
    using tracked by (auto simp: permits_tracked_def)
  have ev: "\<not> hm_contains (reg_map reg) key" "maximum \<le> length (reg_map reg)"
    "evict_oldest_inactive_limiter reg = (False, reg')"
    using full by (auto simp: make_room_def split: if_splits)
  have "hm_keys (reg_map reg) \<subseteq> fst ` set held"
    using evict_fails [OF ev(3) inv] active held_under_pos [of _ held] by (auto simp: hm_contains_iff)
  then have "card (hm_keys (reg_map reg)) \<le> card (fst ` set held)"
    by (intro card_mono) auto
  with ev(2) show "maximum \<le> card (fst ` set held)"
    using hm_length_card [OF reg_invD(3) [OF inv]] by simp
  have "active_of reg key = 0"
    using ev(1) by (simp add: active_of_def hm_contains_def)
  then show "held_under key held = 0" using active by simp
qed

subsection \<open>The registry is a bounded table\<close>

datatype 'k registry_op =
    AcquireOp instant 'k nat capacity_scope
  | DropOp nat

definition run_registry_op :: "'k registry_op \<Rightarrow> nat \<times> 'k registry \<Rightarrow> nat \<times> 'k registry" where
  "run_registry_op op s =
     (case op of
        AcquireOp now key limit scope \<Rightarrow>
          (fst s, snd (acquire_dynamic_limiter now key limit scope (fst s) (snd s)))
      | DropOp a \<Rightarrow> (fst s, DynamicPermit_drop a (snd s)))"

interpretation limiter_table: bounded_table
  "\<lambda>s. length (reg_map (snd s))" fst "\<lambda>s. reg_inv (snd s) \<and> 1 \<le> fst s" run_registry_op
proof
  fix s :: "nat \<times> 'k registry" and op
  assume wf: "reg_inv (snd s) \<and> 1 \<le> fst s"
  show "fst (run_registry_op op s) = fst s"
    by (simp add: run_registry_op_def split: registry_op.splits)
  show "reg_inv (snd (run_registry_op op s)) \<and> 1 \<le> fst (run_registry_op op s)"
    using wf acquire_props(1) [OF _ prod.collapse [symmetric]]
    by (auto simp: run_registry_op_def drop_props split: registry_op.splits)
  assume "length (reg_map (snd s)) \<le> fst s"
  then show "length (reg_map (snd (run_registry_op op s))) \<le> fst s"
    using wf acquire_props(5) [OF _ prod.collapse [symmetric]]
    by (auto simp: run_registry_op_def drop_props split: registry_op.splits)
qed

section \<open>Properties\<close>

text \<open>
  C12: In every interleaving of acquisitions, refusals and drops, a permit for a key is granted
  only while fewer than \<open>max limit 1\<close> permits of that key are held, whatever evictions took
  place before; it is refused only when that many are held, or when the registry is full and
  every one of at least \<open>maximum\<close> other keys has a permit in use.
\<close>

theorem limiter_admission_exact:
  assumes "registry_history maximum reg held"
    and "acquire_dynamic_limiter now key limit scope maximum reg = (r, reg')"
  shows "case r of
      Ok a \<Rightarrow> held_under key held < max limit 1
    | Err s \<Rightarrow> s = scope \<and> max limit 1 \<le> held_under key held \<or>
               s = ScopeLimiterRegistry \<and> held_under key held = 0 \<and> maximum \<le> card (fst ` set held)"
proof -
  have tracked: "permits_tracked reg held" by (rule registry_history_tracked [OF assms(1)])
  then have inv: "reg_inv reg" and active: "active_of reg key = held_under key held"
    by (auto simp: permits_tracked_def)
  from inv assms(2) show ?thesis
  proof (cases rule: acquire_cases)
    case full
    then show ?thesis using full_registry_all_held [OF tracked] by simp
  next
    case entry
    then show ?thesis using active by auto
  qed
qed

theorem limiter_admission_exact_witness:
  "\<exists>reg held reg'. registry_history 1 reg held \<and> held_under (7::nat) held = 1 \<and>
     acquire_dynamic_limiter 9 7 1 ScopeUser 1 reg = (Err ScopeUser, reg')"
proof -
  obtain a reg where acq: "acquire_dynamic_limiter 5 (7::nat) 1 ScopeUser 1 empty_registry = (Ok a, reg)"
    by (simp add: acquire_dynamic_limiter_def empty_registry_def entry_or_new_def hm_insert_def
        DynamicLimiter_set_limit_def DynamicLimiter_try_acquire_def DynamicLimiter_new_def Let_def)
  have h: "registry_history 1 reg [(7, a)]"
    by (rule registry_history.acquired [OF registry_history.start acq])
  obtain r reg' where r: "acquire_dynamic_limiter 9 7 1 ScopeUser 1 reg = (r, reg')" by fastforce
  from limiter_admission_exact [OF h r] have "r = Err ScopeUser"
    by (simp split: sum.splits)
  with h r show ?thesis by (intro exI [of _ reg] exI [of _ "[(7, a)]"] exI [of _ reg']) simp
qed

text \<open>
  Whatever keys are used and in whatever order permits are taken and dropped, a registry
  never keeps more limiters than the configured maximum.
\<close>

theorem limiter_registry_bounded:
  assumes "1 \<le> maximum"
  shows "length (reg_map (snd (fold run_registry_op ops (maximum, empty_registry)))) \<le> maximum"
  using limiter_table.run_bounded [of "(maximum, empty_registry)" ops] assms
  by (simp add: empty_registry_def [THEN arg_cong [of _ _ reg_map]])

theorem limiter_registry_bounded_witness:
  "length (reg_map (snd (fold run_registry_op
     [AcquireOp 1 (7::nat) 3 ScopeUser, DropOp 0, AcquireOp 2 8 3 ScopeUser] (1, empty_registry)))) \<le> 1"
  by (rule limiter_registry_bounded) simp

end
