(* ===== verification/Concurrency.thy ===== *)
theory Concurrency
  imports Limiter_Registry
begin

text \<open>
  The concurrency controller of \<open>src/src/orchestration/controls.rs\<close>: the stages of
  \<open>ConcurrencyController::acquire\<close>, the permits it returns and what dropping them does, and the
  cluster slots it takes through a \<open>ClusterCoordinator\<close>.

  \<^item> A string is the list of its UTF-8 bytes.
  \<^item> The process-wide semaphore is the one of the async runtime; its two operations are
    parameters (\<open>semaphore_ops\<close>), and \<open>semaphore_laws\<close> states the documented behaviour.
  \<^item> The coordinator is the trait \<open>ClusterCoordinator\<close>: a record of functions over an arbitrary
    state, each of which may fail. No law is assumed of it.
  \<^item> Dropping a \<open>ClusterPermitGuard\<close> spawns a detached task; \<open>spawned_releases\<close> is the queue of
    these tasks and \<open>run_spawned_release\<close> runs the first.
  \<^item> \<open>show_uuid\<close> (the formatter of \<open>Uuid\<close>) and \<open>sha256\<close> are parameters.
\<close>

section \<open>State\<close>

record 'c coordinator =
  coord_check_rate_window :: "string \<Rightarrow> nat \<Rightarrow> duration \<Rightarrow> 'c \<Rightarrow> (string + bool) \<times> 'c"
  coord_try_acquire_permit :: "string \<Rightarrow> nat \<Rightarrow> duration \<Rightarrow> 'c \<Rightarrow> (string + bool) \<times> 'c"
  coord_release_permit :: "string \<Rightarrow> 'c \<Rightarrow> (string + unit) \<times> 'c"
  coord_key :: "string \<Rightarrow> string"

record 'c cluster_concurrency =
  cc_coordinator :: "'c coordinator"
  cc_ttl :: duration

record 's semaphore_ops =
  sem_new :: "nat \<Rightarrow> 's"
  sem_try_acquire :: "'s \<Rightarrow> 's option"
  sem_release :: "'s \<Rightarrow> 's"

record ('s, 'c) controller =
  global :: 's
  global_limit :: nat
  application_limit :: nat
  user_limit :: nat
  max_dynamic_limiters :: nat
  providers :: "uuid registry"
  provider_streams :: "uuid registry"
  applications :: "uuid registry"
  users :: "string registry"
  cluster :: "'c cluster_concurrency option"
  coord_state :: 'c
  spawned_releases :: "string list"

text \<open>
  \<open>ExecutionPermits\<close>; while \<open>acquire\<close> runs it also stands for the local variables that own the
  permits taken so far.
\<close>

record execution_permits =
  held_global :: bool
  held_provider_request :: "nat option"
  held_provider_stream :: "nat option"
  held_application :: "nat option"
  held_user :: "nat option"
  held_cluster :: "string list"

record acquire_request =
  rq_provider_id :: uuid
  rq_provider_request_limit :: nat
  rq_is_stream :: bool
  rq_provider_stream_limit :: nat
  rq_application_id :: "uuid option"
  rq_external_user_id :: "string option"

definition ConcurrencyController_new ::
    "'s semaphore_ops \<Rightarrow> 'c \<Rightarrow> nat \<Rightarrow> nat \<Rightarrow> nat \<Rightarrow> nat \<Rightarrow> ('s, 'c) controller" where
  "ConcurrencyController_new sem c glimit alimit ulimit maximum =
     \<lparr>global = sem_new sem (max glimit 1), global_limit = max glimit 1,
      application_limit = max alimit 1, user_limit = max ulimit 1,
      max_dynamic_limiters = max maximum 1, providers = empty_registry,
      provider_streams = empty_registry, applications = empty_registry, users = empty_registry,
      cluster = None, coord_state = c, spawned_releases = []\<rparr>"

definition with_cluster :: "'c coordinator \<Rightarrow> duration \<Rightarrow> ('s, 'c) controller \<Rightarrow> ('s, 'c) controller" where
  "with_cluster coordinator ttl ctl =
     ctl\<lparr>cluster := Some \<lparr>cc_coordinator = coordinator, cc_ttl = ttl\<rparr>\<rparr>"

section \<open>Keys\<close>

definition hex_digit :: "nat \<Rightarrow> char" where
  "hex_digit n = ''0123456789abcdef'' ! n"

definition byte_hex :: "char \<Rightarrow> string" where
  "byte_hex c = [hex_digit (of_char c div 16), hex_digit (of_char c mod 16)]"

definition hashed_key_segment :: "(string \<Rightarrow> string) \<Rightarrow> string \<Rightarrow> string" where
  "hashed_key_segment sha256 v = concat (map byte_hex (take 16 (sha256 v)))"

section \<open>Operations\<close>

type_synonym ('s, 'c) acquiring = "(capacity_scope + unit) \<times> ('s, 'c) controller \<times> execution_permits"

text \<open>The \<open>?\<close> operator: the first error ends the stages.\<close>

definition stage_then ::
    "('s, 'c) acquiring \<Rightarrow> (('s, 'c) controller \<Rightarrow> execution_permits \<Rightarrow> ('s, 'c) acquiring)
      \<Rightarrow> ('s, 'c) acquiring" where
  "stage_then st f = (case st of (Err s, ctl, p) \<Rightarrow> (Err s, ctl, p) | (Ok _, ctl, p) \<Rightarrow> f ctl p)"

definition acquire_cluster_slot ::
    "string \<Rightarrow> nat \<Rightarrow> capacity_scope \<Rightarrow> ('s, 'c) controller \<Rightarrow> execution_permits \<Rightarrow> ('s, 'c) acquiring" where
  "acquire_cluster_slot suffix limit scope ctl p =
     (case cluster ctl of
        None \<Rightarrow> (Ok (), ctl, p)
      | Some cl \<Rightarrow>
          (let key = coord_key (cc_coordinator cl) suffix;
               (reply, c') = coord_try_acquire_permit (cc_coordinator cl) key limit (cc_ttl cl) (coord_state ctl);
               ctl' = ctl\<lparr>coord_state := c'\<rparr>
           in case reply of
                Ok granted \<Rightarrow>
                  if granted then (Ok (), ctl', p\<lparr>held_cluster := held_cluster p @ [key]\<rparr>)
                  else (Err scope, ctl', p)
              | Err _ \<Rightarrow> (Err scope, ctl', p)))"

definition acquire_global ::
    "'s semaphore_ops \<Rightarrow> ('s, 'c) controller \<Rightarrow> execution_permits \<Rightarrow> ('s, 'c) acquiring" where
  "acquire_global sem ctl p =
     (case sem_try_acquire sem (global ctl) of
        None \<Rightarrow> (Err ScopeGlobal, ctl, p)
      | Some g \<Rightarrow> (Ok (), ctl\<lparr>global := g\<rparr>, p\<lparr>held_global := True\<rparr>))"

definition acquire_provider_request ::
    "instant \<Rightarrow> uuid \<Rightarrow> nat \<Rightarrow> ('s, 'c) controller \<Rightarrow> execution_permits \<Rightarrow> ('s, 'c) acquiring" where
  "acquire_provider_request now k limit ctl p =
     (case acquire_dynamic_limiter now k limit ScopeProviderRequest (max_dynamic_limiters ctl) (providers ctl) of
        (Err s, reg) \<Rightarrow> (Err s, ctl\<lparr>providers := reg\<rparr>, p)
      | (Ok a, reg) \<Rightarrow> (Ok (), ctl\<lparr>providers := reg\<rparr>, p\<lparr>held_provider_request := Some a\<rparr>))"

definition acquire_provider_stream ::
    "instant \<Rightarrow> uuid \<Rightarrow> nat \<Rightarrow> ('s, 'c) controller \<Rightarrow> execution_permits \<Rightarrow> ('s, 'c) acquiring" where
  "acquire_provider_stream now k limit ctl p =
     (case acquire_dynamic_limiter now k limit ScopeProviderStream (max_dynamic_limiters ctl) (provider_streams ctl) of
        (Err s, reg) \<Rightarrow> (Err s, ctl\<lparr>provider_streams := reg\<rparr>, p)
      | (Ok a, reg) \<Rightarrow> (Ok (), ctl\<lparr>provider_streams := reg\<rparr>, p\<lparr>held_provider_stream := Some a\<rparr>))"

definition acquire_application ::
    "instant \<Rightarrow> uuid \<Rightarrow> ('s, 'c) controller \<Rightarrow> execution_permits \<Rightarrow> ('s, 'c) acquiring" where
  "acquire_application now k ctl p =
     (case acquire_dynamic_limiter now k (application_limit ctl) ScopeApplication (max_dynamic_limiters ctl) (applications ctl) of
        (Err s, reg) \<Rightarrow> (Err s, ctl\<lparr>applications := reg\<rparr>, p)
      | (Ok a, reg) \<Rightarrow> (Ok (), ctl\<lparr>applications := reg\<rparr>, p\<lparr>held_application := Some a\<rparr>))"

definition acquire_user ::
    "instant \<Rightarrow> string \<Rightarrow> ('s, 'c) controller \<Rightarrow> execution_permits \<Rightarrow> ('s, 'c) acquiring" where
  "acquire_user now k ctl p =
     (case acquire_dynamic_limiter now k (user_limit ctl) ScopeUser (max_dynamic_limiters ctl) (users ctl) of
        (Err s, reg) \<Rightarrow> (Err s, ctl\<lparr>users := reg\<rparr>, p)
      | (Ok a, reg) \<Rightarrow> (Ok (), ctl\<lparr>users := reg\<rparr>, p\<lparr>held_user := Some a\<rparr>))"

definition no_permits :: execution_permits where
  "no_permits = \<lparr>held_global = False, held_provider_request = None, held_provider_stream = None,
     held_application = None, held_user = None, held_cluster = []\<rparr>"

definition nonempty_user :: "acquire_request \<Rightarrow> string option" where
  "nonempty_user rq = (case rq_external_user_id rq of None \<Rightarrow> None | Some u \<Rightarrow> if u = [] then None else Some u)"

definition acquire_stages ::
    "'s semaphore_ops \<Rightarrow> (uuid \<Rightarrow> string) \<Rightarrow> (string \<Rightarrow> string) \<Rightarrow> (capacity_scope \<Rightarrow> instant) \<Rightarrow> acquire_request
      \<Rightarrow> ('s, 'c) controller \<Rightarrow> ('s, 'c) acquiring" where
  "acquire_stages sem show_uuid sha256 clock rq ctl0 =
     stage_then (acquire_global sem ctl0 no_permits) (\<lambda>ctl p.
     stage_then (acquire_cluster_slot ''permit:global'' (global_limit ctl) ScopeGlobal ctl p) (\<lambda>ctl p.
     stage_then (acquire_provider_request (clock ScopeProviderRequest) (rq_provider_id rq)
                   (rq_provider_request_limit rq) ctl p) (\<lambda>ctl p.
     stage_then (acquire_cluster_slot (''permit:provider:'' @ show_uuid (rq_provider_id rq))
                   (rq_provider_request_limit rq) ScopeProviderRequest ctl p) (\<lambda>ctl p.
     stage_then
       (if rq_is_stream rq then
          stage_then (acquire_provider_stream (clock ScopeProviderStream) (rq_provider_id rq)
                        (rq_provider_stream_limit rq) ctl p) (\<lambda>ctl p.
          acquire_cluster_slot (''permit:provider-stream:'' @ show_uuid (rq_provider_id rq))
            (rq_provider_stream_limit rq) ScopeProviderStream ctl p)
        else (Ok (), ctl, p)) (\<lambda>ctl p.
     stage_then
       (case rq_application_id rq of
          None \<Rightarrow> (Ok (), ctl, p)
        | Some k \<Rightarrow>
          stage_then (acquire_application (clock ScopeApplication) k ctl p) (\<lambda>ctl p.
          acquire_cluster_slot (''permit:application:'' @ show_uuid k) (application_limit ctl)
            ScopeApplication ctl p)) (\<lambda>ctl p.
       (case nonempty_user rq of
          None \<Rightarrow> (Ok (), ctl, p)
        | Some u \<Rightarrow>
          stage_then (acquire_user (clock ScopeUser) u ctl p) (\<lambda>ctl p.
          acquire_cluster_slot (''permit:user:'' @ hashed_key_segment sha256 u) (user_limit ctl)
            ScopeUser ctl p))))))))"

text \<open>
  Dropping permits: every limiter permit decrements its counter, the semaphore permit goes
  back, and every cluster guard spawns its release if a runtime is running.
\<close>

definition ClusterPermitGuard_drop :: "bool \<Rightarrow> string \<Rightarrow> ('s, 'c) controller \<Rightarrow> ('s, 'c) controller" where
  "ClusterPermitGuard_drop in_runtime key ctl =
     (if in_runtime then ctl\<lparr>spawned_releases := spawned_releases ctl @ [key]\<rparr> else ctl)"

definition drop_opt :: "nat option \<Rightarrow> 'k registry \<Rightarrow> 'k registry" where
  "drop_opt h reg = (case h of None \<Rightarrow> reg | Some a \<Rightarrow> DynamicPermit_drop a reg)"

definition ExecutionPermits_drop ::
    "'s semaphore_ops \<Rightarrow> bool \<Rightarrow> execution_permits \<Rightarrow> ('s, 'c) controller \<Rightarrow> ('s, 'c) controller" where
  "ExecutionPermits_drop sem in_runtime p ctl =
     fold (ClusterPermitGuard_drop in_runtime) (held_cluster p)
       (ctl\<lparr>global := (if held_global p then sem_release sem (global ctl) else global ctl),
            providers := drop_opt (held_provider_request p) (providers ctl),
            provider_streams := drop_opt (held_provider_stream p) (provider_streams ctl),
            applications := drop_opt (held_application p) (applications ctl),
            users := drop_opt (held_user p) (users ctl)\<rparr>)"

definition acquire ::
    "'s semaphore_ops \<Rightarrow> (uuid \<Rightarrow> string) \<Rightarrow> (string \<Rightarrow> string) \<Rightarrow> (capacity_scope \<Rightarrow> instant) \<Rightarrow> acquire_request
      \<Rightarrow> ('s, 'c) controller \<Rightarrow> (capacity_scope + execution_permits) \<times> ('s, 'c) controller" where
  "acquire sem show_uuid sha256 clock rq ctl =
     (case acquire_stages sem show_uuid sha256 clock rq ctl of
        (Err s, ctl', p) \<Rightarrow> (Err s, ExecutionPermits_drop sem True p ctl')
      | (Ok _, ctl', p) \<Rightarrow> (Ok p, ctl'))"

definition run_spawned_release :: "('s, 'c) controller \<Rightarrow> ('s, 'c) controller" where
  "run_spawned_release ctl =
     (case (cluster ctl, spawned_releases ctl) of
        (Some cl, key # rest) \<Rightarrow>
          (case coord_release_permit (cc_coordinator cl) key (coord_state ctl) of
             (_, c') \<Rightarrow> ctl\<lparr>coord_state := c', spawned_releases := rest\<rparr>)
      | _ \<Rightarrow> ctl)"

definition capacity_message :: "capacity_scope \<Rightarrow> string" where
  "capacity_message s =
     (case s of
        ScopeGlobal \<Rightarrow> ''global execution capacity is exhausted''
      | ScopeProviderRequest \<Rightarrow> ''provider request capacity is exhausted''
      | ScopeProviderStream \<Rightarrow> ''provider stream capacity is exhausted''
      | ScopeApplication \<Rightarrow> ''application execution capacity is exhausted''
      | ScopeUser \<Rightarrow> ''user execution capacity is exhausted''
      | ScopeLimiterRegistry \<Rightarrow> ''dynamic limiter registry capacity is exhausted'')"

definition capacity_failure :: "capacity_scope \<Rightarrow> execution_failure" where
  "capacity_failure s =
     (ExecutionFailure_new CapacityExhausted (capacity_message s))
       \<lparr>failure_retryable := False,
        failure_fallback_eligible := s \<in> {ScopeProviderRequest, ScopeProviderStream}\<rparr>"

section \<open>What the parameters promise\<close>

text \<open>
  The semaphore counts: \<open>avail\<close> is \<open>available_permits\<close>, \<open>try_acquire_owned\<close> takes one permit when
  there is one, and dropping a permit gives one back.
\<close>

definition semaphore_laws :: "'s semaphore_ops \<Rightarrow> ('s \<Rightarrow> nat) \<Rightarrow> bool" where
  "semaphore_laws sem avail \<longleftrightarrow>
     (\<forall>n. avail (sem_new sem n) = n) \<and>
     (\<forall>s. case sem_try_acquire sem s of None \<Rightarrow> avail s = 0 | Some s' \<Rightarrow> avail s = Suc (avail s')) \<and>
     (\<forall>s. avail (sem_release sem s) = Suc (avail s))"

definition counter_semaphore :: "nat semaphore_ops" where
  "counter_semaphore = \<lparr>sem_new = id, sem_try_acquire = (\<lambda>n. if n = 0 then None else Some (n - 1)),
     sem_release = Suc\<rparr>"

lemma counter_semaphore_laws [simp]: "semaphore_laws counter_semaphore id"
  by (simp add: semaphore_laws_def counter_semaphore_def)

text \<open>
  An observed coordinator behaves as the coordinator it wraps, which may answer and fail in any
  way, and keeps the keys of the slots it granted.
\<close>

definition observed :: "'c coordinator \<Rightarrow> ('c \<times> string list) coordinator" where
  "observed co =
     \<lparr>coord_check_rate_window = (\<lambda>k l w (c, log).
        let (r, c') = coord_check_rate_window co k l w c in (r, (c', log))),
      coord_try_acquire_permit = (\<lambda>k l t (c, log).
        let (r, c') = coord_try_acquire_permit co k l t c
        in (r, (c', if r = Ok True then log @ [k] else log))),
      coord_release_permit = (\<lambda>k (c, log).
        let (r, c') = coord_release_permit co k c in (r, (c', log))),
      coord_key = coord_key co\<rparr>"

definition observed_cluster :: "('s, 'c \<times> string list) controller \<Rightarrow> bool" where
  "observed_cluster ctl \<longleftrightarrow> (\<forall>cl. cluster ctl = Some cl \<longrightarrow> (\<exists>co. cc_coordinator cl = observed co))"

section \<open>Stages\<close>

definition reg_extends :: "'k \<Rightarrow> nat option \<Rightarrow> 'k registry \<Rightarrow> 'k registry \<Rightarrow> bool" where
  "reg_extends k h reg0 reg \<longleftrightarrow> reg_inv reg \<and>
     (case h of
        None \<Rightarrow> active_of reg = active_of reg0
      | Some a \<Rightarrow> active_of reg = (active_of reg0)(k := Suc (active_of reg0 k)) \<and> address_of reg k = Some a)"

lemma reg_extends_refl [simp]: "reg_extends k None reg reg \<longleftrightarrow> reg_inv reg"
  by (simp add: reg_extends_def)

lemma reg_extends_acquire:
  assumes "reg_extends k None reg0 reg" and "acquire_dynamic_limiter now k l s m reg = (r, reg')"
  shows "reg_extends k (case r of Err _ \<Rightarrow> None | Ok a \<Rightarrow> Some a) reg0 reg'"
  using assms acquire_props [OF _ assms(2)] by (auto simp: reg_extends_def split: sum.splits)

lemma reg_extends_drop:
  assumes "reg_extends k h reg0 reg"
  shows "reg_inv (drop_opt h reg)" and "active_of (drop_opt h reg) = active_of reg0"
  using assms drop_props(4) [of reg k "the h"]
  by (auto simp: reg_extends_def drop_opt_def drop_props split: option.splits)

definition controller_inv :: "('s, 'c) controller \<Rightarrow> bool" where
  "controller_inv ctl \<longleftrightarrow> reg_inv (providers ctl) \<and> reg_inv (provider_streams ctl) \<and>
     reg_inv (applications ctl) \<and> reg_inv (users ctl)"

definition cluster_keys :: "('s, 'c) controller \<Rightarrow> string list \<Rightarrow> string list" where
  "cluster_keys ctl ks = (case cluster ctl of None \<Rightarrow> [] | Some cl \<Rightarrow> map (coord_key (cc_coordinator cl)) ks)"

text \<open>
  The state reached from \<open>ctl0\<close> when the permits of the scopes \<open>hs\<close> and the cluster slots \<open>ks\<close>
  have been taken for a request.
\<close>

definition acquiring_from ::
    "('s \<Rightarrow> nat) \<Rightarrow> acquire_request \<Rightarrow> ('s, 'c \<times> string list) controller \<Rightarrow> capacity_scope set \<Rightarrow> string list
      \<Rightarrow> ('s, 'c \<times> string list) controller \<Rightarrow> execution_permits \<Rightarrow> bool" where
  "acquiring_from avail rq ctl0 hs ks ctl p \<longleftrightarrow>
     avail (global ctl0) = avail (global ctl) + of_bool (held_global p) \<and>
     reg_extends (rq_provider_id rq) (held_provider_request p) (providers ctl0) (providers ctl) \<and>
     reg_extends (rq_provider_id rq) (held_provider_stream p) (provider_streams ctl0) (provider_streams ctl) \<and>
     reg_extends (the (rq_application_id rq)) (held_application p) (applications ctl0) (applications ctl) \<and>
     reg_extends (the (nonempty_user rq)) (held_user p) (users ctl0) (users ctl) \<and>
     cluster ctl = cluster ctl0 \<and> spawned_releases ctl = spawned_releases ctl0 \<and>
     snd (coord_state ctl) = snd (coord_state ctl0) @ held_cluster p \<and>
     held_cluster p = cluster_keys ctl0 ks \<and>
     (held_global p \<longleftrightarrow> ScopeGlobal \<in> hs) \<and>
     (held_provider_request p \<noteq> None \<longleftrightarrow> ScopeProviderRequest \<in> hs) \<and>
     (held_provider_stream p \<noteq> None \<longleftrightarrow> ScopeProviderStream \<in> hs) \<and>
     (held_application p \<noteq> None \<longleftrightarrow> ScopeApplication \<in> hs) \<and>
     (held_user p \<noteq> None \<longleftrightarrow> ScopeUser \<in> hs)"

definition stage_ok ::
    "(('s, 'c) controller \<Rightarrow> execution_permits \<Rightarrow> bool) \<Rightarrow> (('s, 'c) controller \<Rightarrow> execution_permits \<Rightarrow> bool)
      \<Rightarrow> ('s, 'c) acquiring \<Rightarrow> bool" where
  "stage_ok E Q st = (case st of (Err _, ctl, p) \<Rightarrow> E ctl p | (Ok _, ctl, p) \<Rightarrow> Q ctl p)"

lemma stage_ok_simps [simp]:
  "stage_ok E Q (Err s, ctl, p) = E ctl p" "stage_ok E Q (Ok u, ctl, p) = Q ctl p"
  by (simp_all add: stage_ok_def)

lemma stage_ok_then:
  assumes "stage_ok E P st" and "\<And>ctl p. P ctl p \<Longrightarrow> stage_ok E Q (f ctl p)"
  shows "stage_ok E Q (stage_then st f)"
proof (cases st)
  case (fields r ctl p)
  with assms show ?thesis by (cases r) (simp_all add: stage_then_def)
qed

definition acquiring_some where
  "acquiring_some avail rq ctl0 ctl p = (\<exists>hs ks. acquiring_from avail rq ctl0 hs ks ctl p)"

lemma cluster_slot_stage:
  assumes "observed_cluster ctl0" and "acquiring_from avail rq ctl0 hs ks ctl p"
  shows "stage_ok (acquiring_some avail rq ctl0) (acquiring_from avail rq ctl0 hs (ks @ [k]))
    (acquire_cluster_slot k limit scope ctl p)"
proof (cases "cluster ctl0")
  case None
  with assms(2) show ?thesis
    by (simp add: acquire_cluster_slot_def acquiring_from_def cluster_keys_def)
next
  case (Some cl)
  then obtain co where co: "cc_coordinator cl = observed co"
    using assms(1) by (auto simp: observed_cluster_def)
  have cl: "cluster ctl = Some cl" using assms(2) Some by (simp add: acquiring_from_def)
  let ?key = "coord_key co k"
  obtain c log where c: "coord_state ctl = (c, log)" by fastforce
  obtain r c' where r: "coord_try_acquire_permit co ?key limit (cc_ttl cl) c = (r, c')" by fastforce
  have *: "coord_try_acquire_permit (observed co) ?key limit (cc_ttl cl) (c, log) =
      (r, (c', if r = Ok True then log @ [?key] else log))"
    by (simp add: observed_def r)
  have key: "coord_key (observed co) = coord_key co" by (simp add: observed_def)
  show ?thesis
  proof (cases "r = Ok True")
    case True
    with * cl co c key assms(2) Some show ?thesis
      by (simp add: acquire_cluster_slot_def Let_def acquiring_from_def cluster_keys_def)
  next
    case False
    have "acquiring_from avail rq ctl0 hs ks (ctl\<lparr>coord_state := (c', log)\<rparr>) p"
      using assms(2) c by (simp add: acquiring_from_def)
    then have "acquiring_some avail rq ctl0 (ctl\<lparr>coord_state := (c', log)\<rparr>) p"
      by (auto simp: acquiring_some_def)
    with False * cl co c key show ?thesis
      by (auto simp: acquire_cluster_slot_def Let_def split: sum.splits)
  qed
qed

lemma acquiring_someI: "acquiring_from avail rq ctl0 hs ks ctl p \<Longrightarrow> acquiring_some avail rq ctl0 ctl p"
  by (auto simp: acquiring_some_def)

lemma global_stage:
  assumes "semaphore_laws sem avail" and "acquiring_from avail rq ctl0 hs ks ctl p" and "ScopeGlobal \<notin> hs"
  shows "stage_ok (acquiring_some avail rq ctl0) (acquiring_from avail rq ctl0 (insert ScopeGlobal hs) ks)
    (acquire_global sem ctl p)"
proof (cases "sem_try_acquire sem (global ctl)")
  case None
  with assms(2) show ?thesis by (simp add: acquire_global_def acquiring_someI)
next
  case (Some g)
  then have "avail (global ctl) = Suc (avail g)"
    using assms(1) by (auto simp: semaphore_laws_def split: option.splits)
  with Some assms(2,3) show ?thesis by (auto simp: acquire_global_def acquiring_from_def)
qed

lemma provider_request_stage:
  assumes "acquiring_from avail rq ctl0 hs ks ctl p" and "ScopeProviderRequest \<notin> hs"
  shows "stage_ok (acquiring_some avail rq ctl0) (acquiring_from avail rq ctl0 (insert ScopeProviderRequest hs) ks)
    (acquire_provider_request now (rq_provider_id rq) limit ctl p)"
proof -
  obtain r reg where acq: "acquire_dynamic_limiter now (rq_provider_id rq) (limit) ScopeProviderRequest
      (max_dynamic_limiters ctl) (providers ctl) = (r, reg)" by fastforce
  have "reg_extends (rq_provider_id rq) (case r of Err _ \<Rightarrow> None | Ok a \<Rightarrow> Some a) (providers ctl0) reg"
    using assms by (intro reg_extends_acquire [OF _ acq]) (auto simp: acquiring_from_def)
  note ext = this
  show ?thesis
  proof (cases r)
    case (Inl e)
    with ext assms have "acquiring_from avail rq ctl0 hs ks (ctl\<lparr>providers := reg\<rparr>) p"
      by (simp add: acquiring_from_def)
    with acq Inl show ?thesis by (simp add: acquire_provider_request_def acquiring_someI)
  next
    case (Inr a)
    with ext acq assms show ?thesis by (simp add: acquire_provider_request_def acquiring_from_def)
  qed
qed

lemma provider_stream_stage:
  assumes "acquiring_from avail rq ctl0 hs ks ctl p" and "ScopeProviderStream \<notin> hs"
  shows "stage_ok (acquiring_some avail rq ctl0) (acquiring_from avail rq ctl0 (insert ScopeProviderStream hs) ks)
    (acquire_provider_stream now (rq_provider_id rq) limit ctl p)"
proof -
  obtain r reg where acq: "acquire_dynamic_limiter now (rq_provider_id rq) (limit) ScopeProviderStream
      (max_dynamic_limiters ctl) (provider_streams ctl) = (r, reg)" by fastforce
  have "reg_extends (rq_provider_id rq) (case r of Err _ \<Rightarrow> None | Ok a \<Rightarrow> Some a) (provider_streams ctl0) reg"
    using assms by (intro reg_extends_acquire [OF _ acq]) (auto simp: acquiring_from_def)
  note ext = this
  show ?thesis
  proof (cases r)
    case (Inl e)
    with ext assms have "acquiring_from avail rq ctl0 hs ks (ctl\<lparr>provider_streams := reg\<rparr>) p"
      by (simp add: acquiring_from_def)
    with acq Inl show ?thesis by (simp add: acquire_provider_stream_def acquiring_someI)
  next
    case (Inr a)
    with ext acq assms show ?thesis by (simp add: acquire_provider_stream_def acquiring_from_def)
  qed
qed

lemma application_stage:
  assumes "acquiring_from avail rq ctl0 hs ks ctl p" and "ScopeApplication \<notin> hs" and "rq_application_id rq = Some k"
  shows "stage_ok (acquiring_some avail rq ctl0) (acquiring_from avail rq ctl0 (insert ScopeApplication hs) ks)
    (acquire_application now k ctl p)"
proof -
  obtain r reg where acq: "acquire_dynamic_limiter now (k) (application_limit ctl) ScopeApplication
      (max_dynamic_limiters ctl) (applications ctl) = (r, reg)" by fastforce
  have "reg_extends (k) (case r of Err _ \<Rightarrow> None | Ok a \<Rightarrow> Some a) (applications ctl0) reg"
    using assms by (intro reg_extends_acquire [OF _ acq]) (auto simp: acquiring_from_def)
  note ext = this
  show ?thesis
  proof (cases r)
    case (Inl e)
    with ext assms have "acquiring_from avail rq ctl0 hs ks (ctl\<lparr>applications := reg\<rparr>) p"
      by (simp add: acquiring_from_def)
    with acq Inl show ?thesis by (simp add: acquire_application_def acquiring_someI)
  next
    case (Inr a)
    with ext acq assms show ?thesis by (simp add: acquire_application_def acquiring_from_def)
  qed
qed

lemma user_stage:
  assumes "acquiring_from avail rq ctl0 hs ks ctl p" and "ScopeUser \<notin> hs" and "nonempty_user rq = Some k"
  shows "stage_ok (acquiring_some avail rq ctl0) (acquiring_from avail rq ctl0 (insert ScopeUser hs) ks)
    (acquire_user now k ctl p)"
proof -
  obtain r reg where acq: "acquire_dynamic_limiter now (k) (user_limit ctl) ScopeUser
      (max_dynamic_limiters ctl) (users ctl) = (r, reg)" by fastforce
  have "reg_extends (k) (case r of Err _ \<Rightarrow> None | Ok a \<Rightarrow> Some a) (users ctl0) reg"
    using assms by (intro reg_extends_acquire [OF _ acq]) (auto simp: acquiring_from_def)
  note ext = this
  show ?thesis
  proof (cases r)
    case (Inl e)
    with ext assms have "acquiring_from avail rq ctl0 hs ks (ctl\<lparr>users := reg\<rparr>) p"
      by (simp add: acquiring_from_def)
    with acq Inl show ?thesis by (simp add: acquire_user_def acquiring_someI)
  next
    case (Inr a)
    with ext acq assms show ?thesis by (simp add: acquire_user_def acquiring_from_def)
  qed
qed

section \<open>All stages\<close>

definition required_scopes :: "acquire_request \<Rightarrow> capacity_scope set" where
  "required_scopes rq =
     {ScopeGlobal, ScopeProviderRequest} \<union> (if rq_is_stream rq then {ScopeProviderStream} else {}) \<union>
     (if rq_application_id rq = None then {} else {ScopeApplication}) \<union>
     (if nonempty_user rq = None then {} else {ScopeUser})"

lemma required_scopes_iff:
  "ScopeGlobal \<in> required_scopes rq" "ScopeProviderRequest \<in> required_scopes rq"
  "ScopeProviderStream \<in> required_scopes rq \<longleftrightarrow> rq_is_stream rq"
  "ScopeApplication \<in> required_scopes rq \<longleftrightarrow> rq_application_id rq \<noteq> None"
  "ScopeUser \<in> required_scopes rq \<longleftrightarrow> nonempty_user rq \<noteq> None"
  by (auto simp: required_scopes_def)

definition required_suffixes :: "(uuid \<Rightarrow> string) \<Rightarrow> (string \<Rightarrow> string) \<Rightarrow> acquire_request \<Rightarrow> string list" where
  "required_suffixes show_uuid sha256 rq =
     [''permit:global'', ''permit:provider:'' @ show_uuid (rq_provider_id rq)] @
     (if rq_is_stream rq then [''permit:provider-stream:'' @ show_uuid (rq_provider_id rq)] else []) @
     (case rq_application_id rq of None \<Rightarrow> [] | Some k \<Rightarrow> [''permit:application:'' @ show_uuid k]) @
     (case nonempty_user rq of None \<Rightarrow> [] | Some u \<Rightarrow> [''permit:user:'' @ hashed_key_segment sha256 u])"

lemma acquiring_from_start:
  "controller_inv ctl \<Longrightarrow> acquiring_from avail rq ctl {} [] ctl no_permits"
  by (simp add: acquiring_from_def no_permits_def controller_inv_def cluster_keys_def split: option.splits)

lemma stream_part:
  assumes "observed_cluster ctl0" and "acquiring_from avail rq ctl0 hs ks ctl p" and "ScopeProviderStream \<notin> hs"
  shows "stage_ok (acquiring_some avail rq ctl0)
    (acquiring_from avail rq ctl0 (hs \<union> (if b then {ScopeProviderStream} else {})) (ks @ (if b then [k] else [])))
    (if b then stage_then (acquire_provider_stream now (rq_provider_id rq) limit ctl p)
       (\<lambda>ctl p. acquire_cluster_slot k limit' ScopeProviderStream ctl p) else (Ok (), ctl, p))"
  using assms stage_ok_then [OF provider_stream_stage [OF assms(2,3)] cluster_slot_stage [OF assms(1)]]
  by simp

lemma application_part:
  assumes "observed_cluster ctl0" and "acquiring_from avail rq ctl0 hs ks ctl p" and "ScopeApplication \<notin> hs"
  shows "stage_ok (acquiring_some avail rq ctl0)
    (acquiring_from avail rq ctl0 (hs \<union> (if rq_application_id rq = None then {} else {ScopeApplication}))
      (ks @ (case rq_application_id rq of None \<Rightarrow> [] | Some k \<Rightarrow> [suffix k])))
    (case rq_application_id rq of None \<Rightarrow> (Ok (), ctl, p) | Some k \<Rightarrow>
       stage_then (acquire_application now k ctl p)
         (\<lambda>ctl p. acquire_cluster_slot (suffix k) (application_limit ctl) ScopeApplication ctl p))"
  using assms by (auto intro!: stage_ok_then [OF application_stage [OF assms(2,3)]]
      cluster_slot_stage [OF assms(1)] split: option.splits)

lemma user_part:
  assumes "observed_cluster ctl0" and "acquiring_from avail rq ctl0 hs ks ctl p" and "ScopeUser \<notin> hs"
  shows "stage_ok (acquiring_some avail rq ctl0)
    (acquiring_from avail rq ctl0 (hs \<union> (if nonempty_user rq = None then {} else {ScopeUser}))
      (ks @ (case nonempty_user rq of None \<Rightarrow> [] | Some k \<Rightarrow> [suffix k])))
    (case nonempty_user rq of None \<Rightarrow> (Ok (), ctl, p) | Some k \<Rightarrow>
       stage_then (acquire_user now k ctl p)
         (\<lambda>ctl p. acquire_cluster_slot (suffix k) (user_limit ctl) ScopeUser ctl p))"
  using assms by (auto intro!: stage_ok_then [OF user_stage [OF assms(2,3)]]
      cluster_slot_stage [OF assms(1)] split: option.splits)

lemma stage_ok_cong:
  "stage_ok E (acquiring_from avail rq ctl0 hs ks) st \<Longrightarrow> hs = hs' \<Longrightarrow> ks = ks' \<Longrightarrow>
    stage_ok E (acquiring_from avail rq ctl0 hs' ks') st"
  by simp

lemma acquire_stages_ok:
  assumes sem: "semaphore_laws sem avail" and obs: "observed_cluster ctl0" and inv: "controller_inv ctl0"
  shows "stage_ok (acquiring_some avail rq ctl0)
    (acquiring_from avail rq ctl0 (required_scopes rq) (required_suffixes show_uuid sha256 rq))
    (acquire_stages sem show_uuid sha256 clock rq ctl0)"
  unfolding acquire_stages_def
  apply (rule stage_ok_cong)
    apply (rule stage_ok_then, rule global_stage [OF sem acquiring_from_start [OF inv]], simp)
    apply (rule stage_ok_then, erule cluster_slot_stage [OF obs])
    apply (rule stage_ok_then, erule provider_request_stage, simp)
    apply (rule stage_ok_then, erule cluster_slot_stage [OF obs])
    apply (rule stage_ok_then, erule stream_part [OF obs], simp)
    apply (rule stage_ok_then, erule application_part [OF obs], simp)
    apply (erule user_part [OF obs], simp)
   apply (auto simp: required_scopes_def required_suffixes_def)
  done

section \<open>What a request takes and gives back\<close>

text \<open>The capacity in use: free permits of the semaphore and the counters of the four registries.\<close>

definition capacity_in_use ::
    "('s \<Rightarrow> nat) \<Rightarrow> ('s, 'c) controller \<Rightarrow> nat \<times> (uuid \<Rightarrow> nat) \<times> (uuid \<Rightarrow> nat) \<times> (uuid \<Rightarrow> nat) \<times> (string \<Rightarrow> nat)" where
  "capacity_in_use avail ctl =
     (avail (global ctl), active_of (providers ctl), active_of (provider_streams ctl),
      active_of (applications ctl), active_of (users ctl))"

definition bump :: "'k option \<Rightarrow> ('k \<Rightarrow> nat) \<Rightarrow> 'k \<Rightarrow> nat" where
  "bump k f = (case k of None \<Rightarrow> f | Some k \<Rightarrow> f(k := Suc (f k)))"

lemma guards_drop:
  "fold (ClusterPermitGuard_drop True) ks ctl = ctl\<lparr>spawned_releases := spawned_releases ctl @ ks\<rparr>"
  by (induction ks arbitrary: ctl) (simp_all add: ClusterPermitGuard_drop_def)

lemma drop_restores:
  assumes "semaphore_laws sem avail" and "acquiring_from avail rq ctl0 hs ks ctl p"
  defines "ctl' \<equiv> ExecutionPermits_drop sem True p ctl"
  shows "capacity_in_use avail ctl' = capacity_in_use avail ctl0" and "controller_inv ctl'"
    and "snd (coord_state ctl') = snd (coord_state ctl0) @ held_cluster p"
    and "spawned_releases ctl' = spawned_releases ctl0 @ held_cluster p"
proof -
  note A = assms(2) [unfolded acquiring_from_def]
  note restored = A [THEN conjunct2, THEN conjunct1, THEN reg_extends_drop(1)]
    A [THEN conjunct2, THEN conjunct1, THEN reg_extends_drop(2)]
    A [THEN conjunct2, THEN conjunct2, THEN conjunct1, THEN reg_extends_drop(1)]
    A [THEN conjunct2, THEN conjunct2, THEN conjunct1, THEN reg_extends_drop(2)]
    A [THEN conjunct2, THEN conjunct2, THEN conjunct2, THEN conjunct1, THEN reg_extends_drop(1)]
    A [THEN conjunct2, THEN conjunct2, THEN conjunct2, THEN conjunct1, THEN reg_extends_drop(2)]
    A [THEN conjunct2, THEN conjunct2, THEN conjunct2, THEN conjunct2, THEN conjunct1, THEN reg_extends_drop(1)]
    A [THEN conjunct2, THEN conjunct2, THEN conjunct2, THEN conjunct2, THEN conjunct1, THEN reg_extends_drop(2)]
  have avail: "avail (if held_global p then sem_release sem (global ctl) else global ctl) = avail (global ctl0)"
    using A assms(1) by (auto simp: semaphore_laws_def)
  show "capacity_in_use avail ctl' = capacity_in_use avail ctl0"
    unfolding ctl'_def ExecutionPermits_drop_def guards_drop capacity_in_use_def
    by (simp add: restored avail del: if_distrib)
  show "controller_inv ctl'"
    unfolding ctl'_def ExecutionPermits_drop_def guards_drop controller_inv_def by (simp add: restored)
  show "snd (coord_state ctl') = snd (coord_state ctl0) @ held_cluster p"
    and "spawned_releases ctl' = spawned_releases ctl0 @ held_cluster p"
    unfolding ctl'_def ExecutionPermits_drop_def guards_drop using A by simp_all
qed

lemma acquire_Err_stages:
  assumes "semaphore_laws sem avail" and "observed_cluster ctl" and "controller_inv ctl"
    and "acquire sem show_uuid sha256 clock rq ctl = (Err s, ctl')"
  obtains hs ks ctl1 p where "acquiring_from avail rq ctl hs ks ctl1 p"
    and "ctl' = ExecutionPermits_drop sem True p ctl1"
  using assms(4) acquire_stages_ok [OF assms(1-3), of rq show_uuid sha256 clock]
  by (auto simp: acquire_def acquiring_some_def split: prod.splits sum.splits intro: that)

lemma acquire_Ok_stages:
  assumes "semaphore_laws sem avail" and "observed_cluster ctl" and "controller_inv ctl"
    and "acquire sem show_uuid sha256 clock rq ctl = (Ok p, ctl')"
  shows "acquiring_from avail rq ctl (required_scopes rq) (required_suffixes show_uuid sha256 rq) ctl' p"
  using assms(4) acquire_stages_ok [OF assms(1-3), of rq show_uuid sha256 clock]
  by (auto simp: acquire_def split: prod.splits sum.splits)

lemma reg_extends_bump:
  "reg_extends (the k) h reg0 reg \<Longrightarrow> (h \<noteq> None \<longleftrightarrow> k \<noteq> None) \<Longrightarrow> active_of reg = bump k (active_of reg0)"
  by (auto simp: reg_extends_def bump_def split: option.splits)

section \<open>Properties\<close>

text \<open>
  C10: A request that is refused at any stage, for whatever reason the semaphore, a limiter or
  the coordinator (answering no or failing) gives, leaves every local counter as it was, and
  every cluster slot it was granted is scheduled for release exactly once.
\<close>

theorem acquire_failure_leaks_nothing:
  assumes "semaphore_laws sem avail" and "observed_cluster ctl" and "controller_inv ctl"
    and "acquire sem show_uuid sha256 clock rq ctl = (Err s, ctl')"
  shows "capacity_in_use avail ctl' = capacity_in_use avail ctl \<and> controller_inv ctl' \<and>
    (\<exists>granted. snd (coord_state ctl') = snd (coord_state ctl) @ granted \<and>
               spawned_releases ctl' = spawned_releases ctl @ granted)"
  using acquire_Err_stages [OF assms] drop_restores [OF assms(1)] by metis

definition sample_coordinator :: "string set \<Rightarrow> unit coordinator" where
  "sample_coordinator granted =
     \<lparr>coord_check_rate_window = (\<lambda>k l w c. (Ok True, c)),
      coord_try_acquire_permit = (\<lambda>k l t c. (Ok (k \<in> granted), c)),
      coord_release_permit = (\<lambda>k c. (Ok (), c)),
      coord_key = id\<rparr>"

definition sample_controller :: "string set \<Rightarrow> (nat, unit \<times> string list) controller" where
  "sample_controller granted = with_cluster (observed (sample_coordinator granted)) 30
     (ConcurrencyController_new counter_semaphore ((), []) 2 2 2 4)"

definition sample_request :: acquire_request where
  "sample_request = \<lparr>rq_provider_id = 7, rq_provider_request_limit = 1, rq_is_stream = False,
     rq_provider_stream_limit = 1, rq_application_id = None, rq_external_user_id = Some []\<rparr>"

lemma sample_controller_ok:
  "observed_cluster (sample_controller granted)" "controller_inv (sample_controller granted)"
  by (auto simp: sample_controller_def observed_cluster_def controller_inv_def with_cluster_def
      ConcurrencyController_new_def)

lemmas acquire_eval = acquire_def acquire_stages_def stage_then_def acquire_global_def
  acquire_cluster_slot_def acquire_provider_request_def sample_controller_def sample_coordinator_def
  observed_def with_cluster_def ConcurrencyController_new_def counter_semaphore_def sample_request_def
  acquire_dynamic_limiter_def empty_registry_def entry_or_new_def hm_insert_def
  DynamicLimiter_set_limit_def DynamicLimiter_try_acquire_def DynamicLimiter_new_def Let_def no_permits_def

theorem acquire_failure_leaks_nothing_witness:
  "\<exists>ctl'. acquire counter_semaphore (\<lambda>_. ''u'') id (\<lambda>_. 5) sample_request
       (sample_controller {''permit:global''}) = (Err ScopeProviderRequest, ctl') \<and>
     capacity_in_use id ctl' = capacity_in_use id (sample_controller {''permit:global''})"
proof -
  obtain ctl' where "acquire counter_semaphore (\<lambda>_. ''u'') id (\<lambda>_. 5) sample_request
       (sample_controller {''permit:global''}) = (Err ScopeProviderRequest, ctl')"
    by (simp add: acquire_eval)
  with acquire_failure_leaks_nothing [OF counter_semaphore_laws sample_controller_ok this] show ?thesis
    by blast
qed

text \<open>
  A request that is admitted holds one permit of every scope that applies to it, and one
  cluster slot for each when a coordinator is configured: an unanswered or failed
  coordinator call never admits a request.
\<close>

theorem acquire_success_holds_every_scope:
  assumes "semaphore_laws sem avail" and "observed_cluster ctl" and "controller_inv ctl"
    and "acquire sem show_uuid sha256 clock rq ctl = (Ok p, ctl')"
  shows "avail (global ctl) = Suc (avail (global ctl')) \<and>
    active_of (providers ctl') = bump (Some (rq_provider_id rq)) (active_of (providers ctl)) \<and>
    active_of (provider_streams ctl') =
      bump (if rq_is_stream rq then Some (rq_provider_id rq) else None) (active_of (provider_streams ctl)) \<and>
    active_of (applications ctl') = bump (rq_application_id rq) (active_of (applications ctl)) \<and>
    active_of (users ctl') = bump (nonempty_user rq) (active_of (users ctl)) \<and>
    held_cluster p = cluster_keys ctl (required_suffixes show_uuid sha256 rq) \<and>
    snd (coord_state ctl') = snd (coord_state ctl) @ held_cluster p \<and>
    spawned_releases ctl' = spawned_releases ctl"
proof -
  note A = acquire_Ok_stages [OF assms, unfolded acquiring_from_def]
  have "active_of (providers ctl') = bump (Some (rq_provider_id rq)) (active_of (providers ctl))"
    using A by (intro reg_extends_bump [where h = "held_provider_request p"]) (simp_all add: required_scopes_iff)
  moreover have "active_of (provider_streams ctl') =
      bump (if rq_is_stream rq then Some (rq_provider_id rq) else None) (active_of (provider_streams ctl))"
  proof (cases "rq_is_stream rq")
    case True
    with A show ?thesis
      by (intro reg_extends_bump [where h = "held_provider_stream p"]) (simp_all add: required_scopes_iff)
  next
    case False
    then have "held_provider_stream p = None" using A by (simp add: required_scopes_iff)
    with A False show ?thesis by (simp add: reg_extends_def bump_def)
  qed
  moreover have "active_of (applications ctl') = bump (rq_application_id rq) (active_of (applications ctl))"
    using A by (intro reg_extends_bump [where h = "held_application p"]) (simp_all add: required_scopes_iff)
  moreover have "active_of (users ctl') = bump (nonempty_user rq) (active_of (users ctl))"
    using A by (intro reg_extends_bump [where h = "held_user p"]) (simp_all add: required_scopes_iff)
  ultimately show ?thesis using A by (simp add: required_scopes_iff)
qed

lemma sample_admitted:
  obtains p ctl' where "acquire counter_semaphore (\<lambda>_. ''u'') id (\<lambda>_. 5) sample_request
    (sample_controller {''permit:global'', ''permit:provider:u''}) = (Ok p, ctl')"
  by (simp add: acquire_eval nonempty_user_def)

theorem acquire_success_holds_every_scope_witness:
  "\<exists>p ctl'. acquire counter_semaphore (\<lambda>_. ''u'') id (\<lambda>_. 5) sample_request
       (sample_controller {''permit:global'', ''permit:provider:u''}) = (Ok p, ctl') \<and>
     held_cluster p = cluster_keys (sample_controller {''permit:global'', ''permit:provider:u''})
       (required_suffixes (\<lambda>_. ''u'') id sample_request)"
proof (rule sample_admitted)
  fix p ctl'
  assume acq: "acquire counter_semaphore (\<lambda>_. ''u'') id (\<lambda>_. 5) sample_request
    (sample_controller {''permit:global'', ''permit:provider:u''}) = (Ok p, ctl')"
  with acquire_success_holds_every_scope [OF counter_semaphore_laws sample_controller_ok acq]
  show ?thesis by blast
qed

text \<open>
  C11: Dropping the permits of an admitted request restores every local counter and schedules
  the release of exactly the cluster slots the request took.
\<close>

theorem acquire_drop_roundtrip:
  assumes "semaphore_laws sem avail" and "observed_cluster ctl" and "controller_inv ctl"
    and "acquire sem show_uuid sha256 clock rq ctl = (Ok p, ctl')"
  shows "capacity_in_use avail (ExecutionPermits_drop sem True p ctl') = capacity_in_use avail ctl \<and>
    controller_inv (ExecutionPermits_drop sem True p ctl') \<and>
    spawned_releases (ExecutionPermits_drop sem True p ctl') =
      spawned_releases ctl @ cluster_keys ctl (required_suffixes show_uuid sha256 rq)"
  using drop_restores [OF assms(1) acquire_Ok_stages [OF assms]] acquire_Ok_stages [OF assms]
  by (simp add: acquiring_from_def)

theorem acquire_drop_roundtrip_witness:
  "\<exists>p ctl'. acquire counter_semaphore (\<lambda>_. ''u'') id (\<lambda>_. 5) sample_request
       (sample_controller {''permit:global'', ''permit:provider:u''}) = (Ok p, ctl') \<and>
     capacity_in_use id (ExecutionPermits_drop counter_semaphore True p ctl') =
       capacity_in_use id (sample_controller {''permit:global'', ''permit:provider:u''})"
proof (rule sample_admitted)
  fix p ctl'
  assume acq: "acquire counter_semaphore (\<lambda>_. ''u'') id (\<lambda>_. 5) sample_request
    (sample_controller {''permit:global'', ''permit:provider:u''}) = (Ok p, ctl')"
  with acquire_drop_roundtrip [OF counter_semaphore_laws sample_controller_ok acq]
  show ?thesis by blast
qed

end
