(* ===== verification/Rate_Limit.thy ===== *)
theory Rate_Limit
  imports App_Error Concurrency
begin

text \<open>
  The public rate limiter of \<open>src/src/orchestration/controls.rs\<close> in its two backings, and the
  scripts of \<open>src/src/infra/redis.rs\<close> behind the cluster one. Both are fixed windows: the locale
  \<open>window_counter\<close> states what a window promises, and the two backings are instances of it.

  The commands a script runs (\<open>GET\<close>, \<open>INCR\<close>, \<open>DECR\<close>, \<open>SET\<close>, \<open>DEL\<close>, \<open>PEXPIRE\<close>) belong to the
  Redis server and are parameters, and so is the passing of time on it; \<open>redis_laws\<close> states their
  documented behaviour, expiry of keys included. A script runs atomically on the server, at one instant.
\<close>

section \<open>The in-memory limiter\<close>

record rate_limit_bucket =
  window_started :: instant
  bucket_count :: nat

record rate_limiter =
  rl_max_entries :: nat
  rl_buckets :: "(string, rate_limit_bucket) hmap"

definition InMemoryRateLimiter_new :: "nat \<Rightarrow> rate_limiter" where
  "InMemoryRateLimiter_new max_entries = \<lparr>rl_max_entries = max max_entries 1, rl_buckets = []\<rparr>"

definition rate_limited :: app_error where
  "rate_limited = coded 429 ''rate_limited'' ''public execution rate limit exceeded''"

definition evict_oldest_bucket :: "string \<Rightarrow> rate_limiter \<Rightarrow> (string, rate_limit_bucket) hmap" where
  "evict_oldest_bucket key rl =
     (if rl_max_entries rl \<le> length (rl_buckets rl) \<and> \<not> hm_contains (rl_buckets rl) key then
        case min_by_key (\<lambda>(k, b). window_started b) (rl_buckets rl) of
          None \<Rightarrow> rl_buckets rl
        | Some (oldest_key, _) \<Rightarrow> hm_remove oldest_key (rl_buckets rl)
      else rl_buckets rl)"

definition InMemoryRateLimiter_check ::
    "instant \<Rightarrow> string \<Rightarrow> nat \<Rightarrow> duration \<Rightarrow> rate_limiter \<Rightarrow> (app_error + unit) \<times> rate_limiter" where
  "InMemoryRateLimiter_check now key limit window rl =
     (let buckets = evict_oldest_bucket key rl;
          b = (case map_of buckets key of Some b \<Rightarrow> b | None \<Rightarrow> \<lparr>window_started = now, bucket_count = 0\<rparr>);
          b = (if window \<le> now - window_started b then \<lparr>window_started = now, bucket_count = 0\<rparr> else b)
      in if max limit 1 \<le> bucket_count b
         then (Err rate_limited, rl\<lparr>rl_buckets := hm_insert key b buckets\<rparr>)
         else (Ok (), rl\<lparr>rl_buckets :=
                 hm_insert key (b\<lparr>bucket_count := sat_add u32_max (bucket_count b) 1\<rparr>) buckets\<rparr>))"

section \<open>The scripts\<close>

record 'r redis_ops =
  redis_get :: "string \<Rightarrow> 'r \<Rightarrow> int option"
  redis_incr :: "string \<Rightarrow> 'r \<Rightarrow> int \<times> 'r"
  redis_decr :: "string \<Rightarrow> 'r \<Rightarrow> int \<times> 'r"
  redis_set :: "string \<Rightarrow> int \<Rightarrow> 'r \<Rightarrow> 'r"
  redis_del :: "string \<Rightarrow> 'r \<Rightarrow> 'r"
  redis_pexpire :: "string \<Rightarrow> int \<Rightarrow> 'r \<Rightarrow> 'r"

definition script_current :: "'r redis_ops \<Rightarrow> string \<Rightarrow> 'r \<Rightarrow> int" where
  "script_current R key r = (case redis_get R key r of None \<Rightarrow> 0 | Some v \<Rightarrow> v)"

definition RATE_LIMIT_SCRIPT :: "'r redis_ops \<Rightarrow> string \<Rightarrow> int \<Rightarrow> int \<Rightarrow> 'r \<Rightarrow> int \<times> 'r" where
  "RATE_LIMIT_SCRIPT R key limit window_ms r =
     (if limit \<le> script_current R key r then (0, r)
      else let (updated, r') = redis_incr R key r
           in (1, if updated = 1 then redis_pexpire R key window_ms r' else r'))"

definition PERMIT_ACQUIRE_SCRIPT :: "'r redis_ops \<Rightarrow> string \<Rightarrow> int \<Rightarrow> int \<Rightarrow> 'r \<Rightarrow> int \<times> 'r" where
  "PERMIT_ACQUIRE_SCRIPT R key limit ttl_ms r =
     (if limit \<le> script_current R key r then (0, r)
      else let (_, r') = redis_incr R key r in (1, redis_pexpire R key ttl_ms r'))"

definition PERMIT_RELEASE_SCRIPT :: "'r redis_ops \<Rightarrow> string \<Rightarrow> 'r \<Rightarrow> int \<times> 'r" where
  "PERMIT_RELEASE_SCRIPT R key r =
     (if script_current R key r \<le> 0 then (0, r)
      else let (updated, r') = redis_decr R key r
           in if updated < 0 then (0, redis_set R key 0 r')
              else (updated, if updated = 0 then redis_del R key r' else r'))"

text \<open>\<open>i64::try_from(duration.as_millis()).unwrap_or(i64::MAX).max(1)\<close>.\<close>

definition i64_max :: int where "i64_max = 2 ^ 63 - 1"

definition millis_arg :: "duration \<Rightarrow> int" where
  "millis_arg d = max 1 (min i64_max (int (d div 1000000)))"

definition usize_arg :: "nat \<Rightarrow> int" where
  "usize_arg n = min i64_max (int (max n 1))"

text \<open>
  The Redis client as a coordinator. \<open>link\<close> says whether the next command reaches the server
  (and, on failure, whether it still ran there before the reply was lost): every call may fail.
\<close>

datatype link = LinkUp | LinkDownBefore | LinkDownAfter

record 'r redis_client =
  rc_store :: 'r
  rc_links :: "link list"

definition invoke :: "('r \<Rightarrow> int \<times> 'r) \<Rightarrow> 'r redis_client \<Rightarrow> (string + int) \<times> 'r redis_client" where
  "invoke script c =
     (case rc_links c of
        [] \<Rightarrow> (let (v, r') = script (rc_store c) in (Ok v, c\<lparr>rc_store := r'\<rparr>))
      | LinkUp # ls \<Rightarrow> (let (v, r') = script (rc_store c) in (Ok v, c\<lparr>rc_store := r', rc_links := ls\<rparr>))
      | LinkDownBefore # ls \<Rightarrow> (Err ''redis error'', c\<lparr>rc_links := ls\<rparr>)
      | LinkDownAfter # ls \<Rightarrow>
          (let (v, r') = script (rc_store c) in (Err ''redis command timed out'', c\<lparr>rc_store := r', rc_links := ls\<rparr>)))"

definition redis_check_rate_window ::
    "'r redis_ops \<Rightarrow> string \<Rightarrow> nat \<Rightarrow> duration \<Rightarrow> 'r redis_client \<Rightarrow> (string + bool) \<times> 'r redis_client" where
  "redis_check_rate_window R key limit window c =
     (case invoke (RATE_LIMIT_SCRIPT R key (int (max limit 1)) (millis_arg window)) c of
        (Ok admitted, c') \<Rightarrow> (Ok (admitted = 1), c') | (Err e, c') \<Rightarrow> (Err e, c'))"

definition redis_try_acquire_permit ::
    "'r redis_ops \<Rightarrow> string \<Rightarrow> nat \<Rightarrow> duration \<Rightarrow> 'r redis_client \<Rightarrow> (string + bool) \<times> 'r redis_client" where
  "redis_try_acquire_permit R key limit ttl c =
     (case invoke (PERMIT_ACQUIRE_SCRIPT R key (usize_arg limit) (millis_arg ttl)) c of
        (Ok acquired, c') \<Rightarrow> (Ok (acquired = 1), c') | (Err e, c') \<Rightarrow> (Err e, c'))"

definition redis_release_permit ::
    "'r redis_ops \<Rightarrow> string \<Rightarrow> 'r redis_client \<Rightarrow> (string + unit) \<times> 'r redis_client" where
  "redis_release_permit R key c =
     (case invoke (PERMIT_RELEASE_SCRIPT R key) c of
        (Ok _, c') \<Rightarrow> (Ok (), c') | (Err e, c') \<Rightarrow> (Err e, c'))"

definition redis_key :: "string \<Rightarrow> string \<Rightarrow> string" where
  "redis_key namespace suffix = namespace @ '':'' @ suffix"

definition redis_coordinator :: "'r redis_ops \<Rightarrow> string \<Rightarrow> 'r redis_client coordinator" where
  "redis_coordinator R namespace =
     \<lparr>coord_check_rate_window = redis_check_rate_window R,
      coord_try_acquire_permit = redis_try_acquire_permit R,
      coord_release_permit = redis_release_permit R,
      coord_key = redis_key namespace\<rparr>"

section \<open>The cluster limiter\<close>

definition ClusterRateLimiter_check ::
    "'c coordinator \<Rightarrow> string \<Rightarrow> nat \<Rightarrow> duration \<Rightarrow> 'c \<Rightarrow> (app_error + unit) \<times> 'c" where
  "ClusterRateLimiter_check co key limit window c =
     (case coord_check_rate_window co (coord_key co (''ratelimit:'' @ key)) limit window c of
        (Ok admitted, c') \<Rightarrow> (if admitted then Ok () else Err rate_limited, c')
      | (Err _, c') \<Rightarrow> (Err rate_limited, c'))"

datatype 'c rate_limiter_backend =
    InMemory rate_limiter
  | Cluster "'c coordinator"

definition RateLimiterBackend_check ::
    "instant \<Rightarrow> string \<Rightarrow> nat \<Rightarrow> duration \<Rightarrow> 'c rate_limiter_backend \<Rightarrow> 'c
      \<Rightarrow> (app_error + unit) \<times> 'c rate_limiter_backend \<times> 'c" where
  "RateLimiterBackend_check now key limit window backend c =
     (case backend of
        InMemory rl \<Rightarrow>
          (case InMemoryRateLimiter_check now key limit window rl of (r, rl') \<Rightarrow> (r, InMemory rl', c))
      | Cluster co \<Rightarrow>
          (case ClusterRateLimiter_check co key limit window c of (r, c') \<Rightarrow> (r, backend, c')))"

section \<open>What a window promises\<close>

fun run_checks :: "('i \<Rightarrow> 's \<Rightarrow> bool \<times> 's) \<Rightarrow> ('i \<Rightarrow> bool) \<Rightarrow> 'i list \<Rightarrow> 's \<Rightarrow> bool list \<times> 's" where
  "run_checks check relevant [] s = ([], s)"
| "run_checks check relevant (i # is) s =
     (case check i s of (admitted, s') \<Rightarrow>
      case run_checks check relevant is s' of (rs, s'') \<Rightarrow>
        (if relevant i then admitted # rs else rs, s''))"

text \<open>
  The contract of a fixed window for one key: a check of that key is admitted while fewer than
  \<open>quota\<close> were, and counted; a refused check is not counted; a check of another key does not
  touch the window.
\<close>

locale window_counter =
  fixes good :: "'s \<Rightarrow> bool" and used :: "'s \<Rightarrow> nat" and quota :: nat
    and check :: "'i \<Rightarrow> 's \<Rightarrow> bool \<times> 's"
    and relevant :: "'i \<Rightarrow> bool" and in_window :: "'i \<Rightarrow> bool"
  assumes check_relevant: "good s \<Longrightarrow> in_window i \<Longrightarrow> relevant i \<Longrightarrow> check i s = (r, s') \<Longrightarrow>
      r = (used s < quota) \<and> used s' = (if r then Suc (used s) else used s) \<and> good s'"
    and check_other: "good s \<Longrightarrow> in_window i \<Longrightarrow> \<not> relevant i \<Longrightarrow> check i s = (r, s') \<Longrightarrow>
      used s' = used s \<and> good s'"
begin

lemma admitted_prefix:
  assumes "good s" and "\<forall>i \<in> set is. in_window i"
  shows "fst (run_checks check relevant is s) =
    map (\<lambda>j. used s + j < quota) [0 ..< length (filter relevant is)]"
  using assms
proof (induction "is" arbitrary: s)
  case (Cons i "is")
  obtain r s' where c: "check i s = (r, s')" by fastforce
  obtain rs s'' where run: "run_checks check relevant is s' = (rs, s'')" by fastforce
  show ?case
  proof (cases "relevant i")
    case False
    with check_other [OF _ _ False c] Cons c run show ?thesis by force
  next
    case True
    from check_relevant [OF _ _ True c] Cons.prems
    have r: "r = (used s < quota)" and used: "used s' = (if r then Suc (used s) else used s)"
      and "good s'" by auto
    then have rs: "rs = map (\<lambda>j. used s' + j < quota) [0 ..< length (filter relevant is)]"
      using Cons run by force
    have "r # rs = map (\<lambda>j. used s + j < quota) (0 # map Suc [0 ..< length (filter relevant is)])"
      unfolding rs r using used r by auto
    then show ?thesis using True c run by (simp add: map_Suc_upt upt_conv_Cons del: upt_Suc)
  qed
qed simp

lemma admitted_count:
  assumes "good s" and "\<forall>i \<in> set is. in_window i" and "used s = 0"
  shows "length (filter id (fst (run_checks check relevant is s))) =
    min quota (length (filter relevant is))"
proof -
  have "length (filter id (map (\<lambda>j. j < quota) [0 ..< n])) = min quota n" for n
    by (induction n) (auto simp: min_def)
  then show ?thesis using admitted_prefix [OF assms(1,2)] assms(3) by simp
qed

end

section \<open>The in-memory limiter is a window counter\<close>

definition rate_check_op ::
    "instant \<times> string \<times> nat \<times> duration \<Rightarrow> rate_limiter \<Rightarrow> bool \<times> rate_limiter" where
  "rate_check_op i rl =
     (case i of (now, key, limit, window) \<Rightarrow>
        case InMemoryRateLimiter_check now key limit window rl of (r, rl') \<Rightarrow> (is_ok r, rl'))"

definition window_used :: "string \<Rightarrow> instant \<Rightarrow> rate_limiter \<Rightarrow> nat" where
  "window_used k t0 rl =
     (case map_of (rl_buckets rl) k of
        None \<Rightarrow> 0
      | Some b \<Rightarrow> if t0 \<le> window_started b then bucket_count b else 0)"

definition window_good :: "string \<Rightarrow> instant \<Rightarrow> duration \<Rightarrow> string set \<Rightarrow> rate_limiter \<Rightarrow> bool" where
  "window_good k t0 window keys rl \<longleftrightarrow>
     hm_ok (rl_buckets rl) \<and> finite keys \<and> card keys \<le> rl_max_entries rl \<and>
     hm_keys (rl_buckets rl) \<subseteq> keys \<and>
     (\<forall>b. map_of (rl_buckets rl) k = Some b \<longrightarrow> t0 \<le> window_started b \<or> window_started b + window \<le> t0)"

lemma no_eviction:
  assumes "window_good k t0 window keys rl" and "key \<in> keys"
  shows "evict_oldest_bucket key rl = rl_buckets rl"
proof (cases "hm_contains (rl_buckets rl) key")
  case False
  with assms have "hm_keys (rl_buckets rl) \<subset> keys"
    by (auto simp: window_good_def hm_contains_iff)
  then have "card (hm_keys (rl_buckets rl)) < card keys"
    using assms(1) by (intro psubset_card_mono) (auto simp: window_good_def)
  then show ?thesis
    using assms(1) by (simp add: evict_oldest_bucket_def window_good_def hm_length_card)
qed (simp add: evict_oldest_bucket_def)

text \<open>The bucket a check works on: the stored one, or a fresh one for a new key or a new window.\<close>

definition current_bucket :: "instant \<Rightarrow> duration \<Rightarrow> rate_limit_bucket option \<Rightarrow> rate_limit_bucket" where
  "current_bucket now window b =
     (case b of None \<Rightarrow> \<lparr>window_started = now, bucket_count = 0\<rparr>
      | Some b \<Rightarrow> if window \<le> now - window_started b then \<lparr>window_started = now, bucket_count = 0\<rparr> else b)"

lemma check_alt:
  "InMemoryRateLimiter_check now key limit window rl =
     (let buckets = evict_oldest_bucket key rl; b = current_bucket now window (map_of buckets key)
      in if max limit 1 \<le> bucket_count b
         then (Err rate_limited, rl\<lparr>rl_buckets := hm_insert key b buckets\<rparr>)
         else (Ok (), rl\<lparr>rl_buckets :=
                 hm_insert key (b\<lparr>bucket_count := sat_add u32_max (bucket_count b) 1\<rparr>) buckets\<rparr>))"
  by (simp add: InMemoryRateLimiter_check_def current_bucket_def Let_def split: option.splits)

lemma current_bucket_used:
  assumes "window_good k t0 window keys rl" and "t0 \<le> now" and "now < t0 + window"
  shows "bucket_count (current_bucket now window (map_of (rl_buckets rl) k)) = window_used k t0 rl"
    and "t0 \<le> window_started (current_bucket now window (map_of (rl_buckets rl) k))"
  using assms by (auto simp: current_bucket_def window_used_def window_good_def split: option.splits)

definition window_input ::
    "string \<Rightarrow> instant \<Rightarrow> duration \<Rightarrow> nat \<Rightarrow> string set \<Rightarrow> instant \<times> string \<times> nat \<times> duration \<Rightarrow> bool" where
  "window_input k t0 window limit keys i \<longleftrightarrow>
     (case i of (now, key, l, w) \<Rightarrow> key \<in> keys \<and>
        (key = k \<longrightarrow> t0 \<le> now \<and> now < t0 + window \<and> l = limit \<and> l \<le> u32_max \<and> w = window))"

interpretation memory_window: window_counter
  "window_good k t0 window keys" "window_used k t0" "max limit 1" rate_check_op
  "\<lambda>i. fst (snd i) = k" "window_input k t0 window limit keys"
  for k t0 window keys limit
proof
  fix s :: rate_limiter and i r s'
  assume good: "window_good k t0 window keys s" and inw: "window_input k t0 window limit keys i"
    and check: "rate_check_op i s = (r, s')"
  obtain now key l w where i: "i = (now, key, l, w)" by (cases i) auto
  have noev: "evict_oldest_bucket key s = rl_buckets s"
    using inw i by (intro no_eviction [OF good]) (simp add: window_input_def)
  {
    assume "fst (snd i) = k"
    with i inw have k: "key = k" "l = limit" "w = window" and t: "t0 \<le> now" "now < t0 + window"
      and lim: "limit \<le> u32_max" by (auto simp: window_input_def)
    note cb = current_bucket_used [OF good t]
    show "r = (window_used k t0 s < max limit 1) \<and>
        window_used k t0 s' = (if r then Suc (window_used k t0 s) else window_used k t0 s) \<and>
        window_good k t0 window keys s'"
      using check good inw noev cb lim i k
      by (auto simp: rate_check_op_def check_alt Let_def window_used_def [of _ _ "_\<lparr>rl_buckets := _\<rparr>"]
          window_good_def window_input_def sat_add_def u32_max_def split: if_splits)
  next
    assume "fst (snd i) \<noteq> k"
    with check good inw noev i show "window_used k t0 s' = window_used k t0 s \<and> window_good k t0 window keys s'"
      by (auto simp: rate_check_op_def check_alt Let_def window_used_def window_good_def window_input_def
          split: if_splits)
  }
qed

subsection \<open>The table is bounded\<close>

lemma evict_oldest_bucket_props:
  assumes "hm_ok (rl_buckets rl)"
  shows "hm_ok (evict_oldest_bucket key rl)"
    and "length (rl_buckets rl) \<le> rl_max_entries rl \<Longrightarrow> 1 \<le> rl_max_entries rl \<Longrightarrow>
      hm_contains (evict_oldest_bucket key rl) key \<or> length (evict_oldest_bucket key rl) < rl_max_entries rl"
    and "length (evict_oldest_bucket key rl) \<le> length (rl_buckets rl)"
proof -
  show "hm_ok (evict_oldest_bucket key rl)"
    using assms by (auto simp: evict_oldest_bucket_def split: option.splits)
  have found: "hm_contains (rl_buckets rl) k" if "min_by_key f (rl_buckets rl) = Some (k, b)"
    for f :: "string \<times> rate_limit_bucket \<Rightarrow> nat" and k b
    using min_by_key_Some [OF that] assms by (auto simp: hm_contains_def hm_get_in_set)
  show "length (evict_oldest_bucket key rl) \<le> length (rl_buckets rl)"
    using assms by (auto simp: evict_oldest_bucket_def hm_length_remove split: option.splits)
  show "hm_contains (evict_oldest_bucket key rl) key \<or> length (evict_oldest_bucket key rl) < rl_max_entries rl"
    if "length (rl_buckets rl) \<le> rl_max_entries rl" "1 \<le> rl_max_entries rl"
    using that assms found
    by (auto simp: evict_oldest_bucket_def hm_length_remove split: option.splits dest!: found)
qed

lemma check_table:
  assumes "InMemoryRateLimiter_check now key limit window rl = (r, rl')"
  obtains b where "rl' = rl\<lparr>rl_buckets := hm_insert key b (evict_oldest_bucket key rl)\<rparr>"
  using assms by (auto simp: check_alt Let_def split: if_splits)

interpretation rate_table: bounded_table
  "\<lambda>rl. length (rl_buckets rl)" rl_max_entries "\<lambda>rl. hm_ok (rl_buckets rl) \<and> 1 \<le> rl_max_entries rl"
  "\<lambda>i rl. snd (rate_check_op i rl)"
proof
  fix rl :: rate_limiter and i :: "instant \<times> string \<times> nat \<times> duration"
  assume wf: "hm_ok (rl_buckets rl) \<and> 1 \<le> rl_max_entries rl"
  obtain now key limit window where i: "i = (now, key, limit, window)" by (cases i) auto
  obtain r rl1 where c: "InMemoryRateLimiter_check now key limit window rl = (r, rl1)" by fastforce
  obtain b where rl': "snd (rate_check_op i rl) = rl\<lparr>rl_buckets := hm_insert key b (evict_oldest_bucket key rl)\<rparr>"
    using check_table [OF c] by (auto simp: rate_check_op_def i c)
  note ev = evict_oldest_bucket_props [OF wf [THEN conjunct1], of key]
  show "rl_max_entries (snd (rate_check_op i rl)) = rl_max_entries rl"
    and "hm_ok (rl_buckets (snd (rate_check_op i rl))) \<and> 1 \<le> rl_max_entries (snd (rate_check_op i rl))"
    using wf ev(1) by (simp_all add: rl')
  assume "length (rl_buckets rl) \<le> rl_max_entries rl"
  with ev wf show "length (rl_buckets (snd (rate_check_op i rl))) \<le> rl_max_entries rl"
    by (auto simp: rl' hm_length_insert)
qed

section \<open>The scripts count\<close>

text \<open>
  What the server documents. A key has a value and maybe a time to live, in milliseconds. \<open>INCR\<close> and \<open>DECR\<close>
  start from 0 on a missing key and keep the time to live of the key, \<open>SET\<close> clears it, \<open>PEXPIRE\<close> sets it on a key that
  exists, and a key whose time to live has passed is gone.
\<close>

type_synonym redis_view = "string \<Rightarrow> (int \<times> int option) option"

definition redis_laws :: "'r redis_ops \<Rightarrow> ('r \<Rightarrow> redis_view) \<Rightarrow> (int \<Rightarrow> 'r \<Rightarrow> 'r) \<Rightarrow> bool" where
  "redis_laws R view elapse \<longleftrightarrow> (\<forall>k r. redis_get R k r = map_option fst (view r k)) \<and>
     (\<forall>k r. fst (redis_incr R k r) = script_current R k r + 1 \<and>
            view (snd (redis_incr R k r)) = (view r)(k \<mapsto> (script_current R k r + 1, Option.bind (view r k) snd))) \<and>
     (\<forall>k r. fst (redis_decr R k r) = script_current R k r - 1 \<and>
            view (snd (redis_decr R k r)) = (view r)(k \<mapsto> (script_current R k r - 1, Option.bind (view r k) snd))) \<and>
     (\<forall>k v r. view (redis_set R k v r) = (view r)(k \<mapsto> (v, None))) \<and>
     (\<forall>k r. view (redis_del R k r) = (view r)(k := None)) \<and>
     (\<forall>k ms r. 0 < ms \<longrightarrow> view (redis_pexpire R k ms r) = (view r)(k := map_option (\<lambda>(v, _). (v, Some ms)) (view r k))) \<and>
     (\<forall>d r k. 0 \<le> d \<longrightarrow> view (elapse d r) k =
        (case view r k of
           Some (v, Some ttl) \<Rightarrow> if ttl \<le> d then None else Some (v, Some (ttl - d))
         | x \<Rightarrow> x))"

lemma script_current_view:
  "redis_laws R view elapse \<Longrightarrow> script_current R k r = (case view r k of None \<Rightarrow> 0 | Some (v, _) \<Rightarrow> v)"
  by (auto simp: script_current_def redis_laws_def split: option.splits)

lemma redis_views:
  assumes "redis_laws R view elapse"
  shows "fst (redis_incr R k r) = script_current R k r + 1"
    and "view (snd (redis_incr R k r)) = (view r)(k \<mapsto> (script_current R k r + 1, Option.bind (view r k) snd))"
    and "fst (redis_decr R k r) = script_current R k r - 1"
    and "view (snd (redis_decr R k r)) = (view r)(k \<mapsto> (script_current R k r - 1, Option.bind (view r k) snd))"
    and "view (redis_del R k r) = (view r)(k := None)"
    and "0 < ms \<Longrightarrow> view (redis_pexpire R k ms r) = (view r)(k := map_option (\<lambda>(v, _). (v, Some ms)) (view r k))"
    and "0 \<le> d \<Longrightarrow> view (elapse d r) k =
        (case view r k of Some (v, Some ttl) \<Rightarrow> if ttl \<le> d then None else Some (v, Some (ttl - d)) | x \<Rightarrow> x)"
  using assms unfolding redis_laws_def by blast+

lemma redis_current:
  assumes "redis_laws R view elapse"
  shows "script_current R k' (snd (redis_incr R k r)) =
      (if k' = k then script_current R k r + 1 else script_current R k' r)"
    and "0 < ms \<Longrightarrow> script_current R k' (redis_pexpire R k ms r) = script_current R k' r"
  by (auto simp: script_current_view [OF assms] redis_views [OF assms] split: option.splits)

lemma rate_script_current:
  assumes "redis_laws R view elapse" and "0 < ms" and "RATE_LIMIT_SCRIPT R k limit ms r = (a, r')"
  shows "a = (if script_current R k r < limit then 1 else 0)"
    and "script_current R k' r' =
      (if k' = k \<and> script_current R k r < limit then script_current R k r + 1 else script_current R k' r)"
  using assms(3) redis_views(1) [OF assms(1)] redis_current [OF assms(1)] assms(2)
  by (auto simp: RATE_LIMIT_SCRIPT_def case_prod_beta Let_def split: if_splits)

text \<open>What the permit scripts do to the counter of their key and its time to live; other keys stay as they are.\<close>

lemma permit_acquire_view:
  assumes "redis_laws R view elapse" and "0 < ms" and "PERMIT_ACQUIRE_SCRIPT R k limit ms r = (a, r')"
  shows "a = (if script_current R k r < limit then 1 else 0)"
    and "view r' = (if script_current R k r < limit then (view r)(k \<mapsto> (script_current R k r + 1, Some ms)) else view r)"
  using assms(3) redis_views [OF assms(1)] assms(2)
  by (auto simp: PERMIT_ACQUIRE_SCRIPT_def case_prod_beta Let_def split: if_splits)

lemma permit_release_view:
  assumes "redis_laws R view elapse" and "PERMIT_RELEASE_SCRIPT R k r = (a, r')" and "view r k = Some (n, ttl)" and "0 < n"
  shows "view r' = (view r)(k := (if n = 1 then None else Some (n - 1, ttl)))"
proof -
  have n: "script_current R k r = n" using assms(3) by (simp add: script_current_view [OF assms(1)])
  show ?thesis
    using assms(2-4) redis_views(3-5) [OF assms(1)]
    by (auto simp: PERMIT_RELEASE_SCRIPT_def case_prod_beta Let_def n split: if_splits)
qed

lemma redis_window_counter:
  assumes "redis_laws R view elapse"
  shows "window_counter (\<lambda>r. 0 \<le> script_current R k r) (\<lambda>r. nat (script_current R k r)) (max limit 1)
    (\<lambda>(key, l, ms) r. case RATE_LIMIT_SCRIPT R key (int (max l 1)) ms r of (a, r') \<Rightarrow> (a = 1, r'))
    (\<lambda>i. fst i = k) (\<lambda>(key, l, ms). 0 < ms \<and> (key = k \<longrightarrow> l = limit))"
proof -
  have *: "0 < ms \<Longrightarrow> RATE_LIMIT_SCRIPT R key l ms r = (a, r') \<Longrightarrow>
      (a = 1) = (script_current R key r < l) \<and> script_current R k r' =
        (if k = key \<and> script_current R key r < l then script_current R key r + 1 else script_current R k r)"
    for ms key l r a r'
    using rate_script_current [OF assms] by (metis zero_neq_one)
  show ?thesis
    by unfold_locales (auto split: prod.splits dest!: * simp: nat_less_iff Suc_nat_eq_nat_zadd1)
qed

subsection \<open>Cluster permits\<close>

text \<open>
  A history of the permit scripts of all processes, with the slots that were granted and not given back: the
  key, the age in milliseconds, and whether the execution that holds the slot is alive. A slot that is not alive is
  one whose process died, or whose grant was lost on the way. \<open>idle k\<close> is the time since the last grant for \<open>k\<close>. An
  execution ends before its slot is as old as the time to live, which is the condition documented for
  that setting; slots that are not alive are reclaimed once the last grant of the key is that old.
\<close>

type_synonym permit_slot = "string \<times> int \<times> bool"

definition slots_of :: "string \<Rightarrow> permit_slot list \<Rightarrow> nat" where
  "slots_of k slots = length (filter (\<lambda>s. fst s = k) slots)"

definition surviving :: "int \<Rightarrow> (string \<Rightarrow> int) \<Rightarrow> int \<Rightarrow> permit_slot list \<Rightarrow> permit_slot list" where
  "surviving ttl idle d slots =
     map (\<lambda>(k, age, alive). (k, age + d, alive)) (filter (\<lambda>(k, age, alive). alive \<or> idle k + d < ttl) slots)"

inductive redis_permit_history ::
    "'r redis_ops \<Rightarrow> (int \<Rightarrow> 'r \<Rightarrow> 'r) \<Rightarrow> int \<Rightarrow> 'r \<Rightarrow> permit_slot list \<Rightarrow> (string \<Rightarrow> int) \<Rightarrow> bool" for R elapse ttl where
  start: "(\<forall>k. redis_get R k r = None) \<Longrightarrow> redis_permit_history R elapse ttl r [] idle"
| acquired: "redis_permit_history R elapse ttl r slots idle \<Longrightarrow> PERMIT_ACQUIRE_SCRIPT R k limit ttl r = (1, r') \<Longrightarrow>
    redis_permit_history R elapse ttl r' ((k, 0, alive) # slots) (idle(k := 0))"
| refused: "redis_permit_history R elapse ttl r slots idle \<Longrightarrow> PERMIT_ACQUIRE_SCRIPT R k limit ttl r = (0, r') \<Longrightarrow>
    redis_permit_history R elapse ttl r' slots idle"
| released: "redis_permit_history R elapse ttl r slots idle \<Longrightarrow> (k, age, True) \<in> set slots \<Longrightarrow>
    PERMIT_RELEASE_SCRIPT R k r = (a, r') \<Longrightarrow> redis_permit_history R elapse ttl r' (remove1 (k, age, True) slots) idle"
| died: "redis_permit_history R elapse ttl r slots idle \<Longrightarrow> (k, age, True) \<in> set slots \<Longrightarrow>
    redis_permit_history R elapse ttl r ((k, age, False) # remove1 (k, age, True) slots) idle"
| elapsed: "redis_permit_history R elapse ttl r slots idle \<Longrightarrow> 0 \<le> d \<Longrightarrow>
    (\<forall>k age. (k, age, True) \<in> set slots \<longrightarrow> age + d < ttl) \<Longrightarrow>
    redis_permit_history R elapse ttl (elapse d r) (surviving ttl idle d slots) (\<lambda>k. idle k + d)"

lemma millis_arg_pos [simp]: "0 < millis_arg d"
  by (simp add: millis_arg_def)

definition permit_inv :: "('r \<Rightarrow> redis_view) \<Rightarrow> int \<Rightarrow> 'r \<Rightarrow> permit_slot list \<Rightarrow> (string \<Rightarrow> int) \<Rightarrow> bool" where
  "permit_inv view ttl r slots idle \<longleftrightarrow>
     (\<forall>k. view r k = (if slots_of k slots = 0 then None else Some (int (slots_of k slots), Some (ttl - idle k)))) \<and>
     (\<forall>(k, age, alive) \<in> set slots. 0 \<le> age \<and> idle k \<le> age \<and> idle k < ttl)"

lemma slots_of_Cons [simp]: "slots_of k (s # slots) = (if fst s = k then Suc (slots_of k slots) else slots_of k slots)"
  by (simp add: slots_of_def)

lemma slots_of_remove1: "s \<in> set slots \<Longrightarrow> slots_of k (remove1 s slots) = slots_of k slots - (if fst s = k then 1 else 0)"
  by (auto simp: slots_of_def filter_remove1 length_remove1)

lemma slots_of_pos: "s \<in> set slots \<Longrightarrow> 0 < slots_of (fst s) slots"
  by (auto simp: slots_of_def filter_empty_conv)

lemma slots_of_surviving:
  assumes "permit_inv view ttl r slots idle" and "\<forall>k age. (k, age, True) \<in> set slots \<longrightarrow> age + d < ttl"
  shows "slots_of k (surviving ttl idle d slots) = (if idle k + d < ttl then slots_of k slots else 0)"
proof -
  have "filter (\<lambda>s. fst s = k) (filter (\<lambda>(k, age, alive). alive \<or> idle k + d < ttl) slots) =
      (if idle k + d < ttl then filter (\<lambda>s. fst s = k) slots else [])"
    using assms by (auto simp: permit_inv_def filter_empty_conv intro!: filter_cong) force
  then show ?thesis by (simp add: slots_of_def surviving_def filter_map comp_def case_prod_beta)
qed

lemma redis_permit_history_inv:
  assumes "redis_permit_history R elapse ttl r slots idle" and laws: "redis_laws R view elapse" and ttl: "0 < ttl"
  shows "permit_inv view ttl r slots idle"
  using assms(1)
proof (induction rule: redis_permit_history.induct)
  case (start r idle)
  then show ?case using laws by (simp add: permit_inv_def slots_of_def redis_laws_def)
next
  case (acquired r slots idle k limit r' alive)
  note v = permit_acquire_view [OF laws ttl acquired.hyps(2)]
  have cur: "script_current R k r = int (slots_of k slots)"
    using acquired.IH by (simp add: script_current_view [OF laws] permit_inv_def)
  from v(1) have "script_current R k r < limit" by (auto split: if_splits)
  with v(2) have "view r' = (view r)(k \<mapsto> (int (slots_of k slots) + 1, Some ttl))" by (simp add: cur)
  with acquired.IH ttl show ?case unfolding permit_inv_def by auto
next
  case (refused r slots idle k limit r')
  have "view r' = view r" using permit_acquire_view [OF laws ttl refused.hyps(2)] by (auto split: if_splits)
  with refused.IH show ?case by (simp add: permit_inv_def)
next
  case (released r slots idle k age a r')
  let ?n = "slots_of k slots"
  have n: "0 < ?n" using slots_of_pos [OF released.hyps(2)] by simp
  then have "view r k = Some (int ?n, Some (ttl - idle k))" using released.IH by (simp add: permit_inv_def)
  from permit_release_view [OF laws released.hyps(3) this] n
  have "view r' = (view r)(k := (if ?n = 1 then None else Some (int ?n - 1, Some (ttl - idle k))))" by simp
  with released.IH n slots_of_remove1 [OF released.hyps(2)] show ?case
    unfolding permit_inv_def by (auto dest!: notin_set_remove1 set_remove1_subset [THEN subsetD] simp: of_nat_diff)
next
  case (died r slots idle k age)
  have "slots_of k' ((k, age, False) # remove1 (k, age, True) slots) = slots_of k' slots" for k'
    using slots_of_remove1 [OF died.hyps(2)] slots_of_pos [OF died.hyps(2)] by auto
  with died show ?case unfolding permit_inv_def by (auto dest!: set_remove1_subset [THEN subsetD])
next
  case (elapsed r slots idle d)
  note n = slots_of_surviving [OF elapsed.IH elapsed.hyps(3)]
  have "view (elapse d r) k = (if slots_of k (surviving ttl idle d slots) = 0 then None
      else Some (int (slots_of k (surviving ttl idle d slots)), Some (ttl - (idle k + d))))" for k
    using elapsed.IH elapsed.hyps(2) by (auto simp: redis_views(7) [OF laws] n permit_inv_def)
  moreover have "0 \<le> age \<and> idle k + d \<le> age \<and> idle k + d < ttl" if "(k, age, alive) \<in> set (surviving ttl idle d slots)" for k age alive
    using that elapsed unfolding surviving_def permit_inv_def by fastforce
  ultimately show ?case unfolding permit_inv_def by auto
qed

section \<open>Properties\<close>

text \<open>
  As long as the table has room for the keys in use, the checks of one key inside one
  window are admitted exactly up to the limit and refused afterwards, whatever checks of other
  keys happen in between.
\<close>

theorem rate_window_exact:
  assumes "hm_ok (rl_buckets rl)"
    and "\<forall>b. map_of (rl_buckets rl) k = Some b \<longrightarrow> window_started b + window \<le> t0"
    and "0 < window" and "limit \<le> u32_max"
    and "card (hm_keys (rl_buckets rl) \<union> (\<lambda>(now, key, l, w). key) ` set checks) \<le> rl_max_entries rl"
    and "\<forall>(now, key, l, w) \<in> set checks. key = k \<longrightarrow>
           t0 \<le> now \<and> now < t0 + window \<and> l = limit \<and> w = window"
  shows "fst (run_checks rate_check_op (\<lambda>i. fst (snd i) = k) checks rl) =
    map (\<lambda>j. j < max limit 1) [0 ..< length (filter (\<lambda>i. fst (snd i) = k) checks)]"
proof -
  let ?keys = "hm_keys (rl_buckets rl) \<union> (\<lambda>(now, key, l, w). key) ` set checks"
  have "window_good k t0 window ?keys rl"
    using assms by (auto simp: window_good_def)
  moreover have "\<forall>i \<in> set checks. window_input k t0 window limit ?keys i"
    using assms(4,6) by (force simp: window_input_def)
  moreover have "window_used k t0 rl = 0"
    using assms(2,3) by (auto simp: window_used_def split: option.splits)
  ultimately show ?thesis
    using memory_window.admitted_prefix [of k t0 window ?keys rl checks limit] by simp
qed

theorem rate_window_exact_witness:
  "fst (run_checks rate_check_op (\<lambda>i. fst (snd i) = ''a'')
     [(10, ''a'', 2, 60), (11, ''b'', 9, 60), (12, ''a'', 2, 60), (13, ''a'', 2, 60)]
     (InMemoryRateLimiter_new 2)) = [True, True, False]"
  using rate_window_exact [of "InMemoryRateLimiter_new 2" "''a''" 60 10 2
    "[(10, ''a'', 2, 60), (11, ''b'', 9, 60), (12, ''a'', 2, 60), (13, ''a'', 2, 60)]"]
  by (simp add: InMemoryRateLimiter_new_def u32_max_def hm_keys_def card_insert_if)

text \<open>
  The number of buckets never exceeds the configured maximum, whatever keys are checked.
\<close>

theorem rate_table_bounded:
  "length (rl_buckets (fold (\<lambda>i rl. snd (rate_check_op i rl)) checks (InMemoryRateLimiter_new n))) \<le> max n 1"
  using rate_table.run_bounded [of "InMemoryRateLimiter_new n" checks]
  by (simp add: InMemoryRateLimiter_new_def)

text \<open>
  The cluster window admits exactly the first \<open>limit\<close> checks of a key until the key
  expires, counted over every process that shares the store.
\<close>

theorem redis_window_exact:
  assumes "redis_laws R view elapse" and "view r k = None"
    and "\<forall>(key, l, ms) \<in> set checks. 0 < ms \<and> (key = k \<longrightarrow> l = limit)"
  shows "fst (run_checks
      (\<lambda>(key, l, ms) r. case RATE_LIMIT_SCRIPT R key (int (max l 1)) ms r of (a, r') \<Rightarrow> (a = 1, r'))
      (\<lambda>i. fst i = k) checks r) =
    map (\<lambda>j. j < max limit 1) [0 ..< length (filter (\<lambda>i. fst i = k) checks)]"
  using window_counter.admitted_prefix [OF redis_window_counter [OF assms(1), of k limit], of r checks] assms
  by (simp add: script_current_view [OF assms(1)])

text \<open>A store with expiry, for the witnesses.\<close>

definition timed_redis :: "redis_view redis_ops" where
  "timed_redis =
     \<lparr>redis_get = (\<lambda>k r. map_option fst (r k)),
      redis_incr = (\<lambda>k r. let v = (case r k of None \<Rightarrow> 0 | Some (v, _) \<Rightarrow> v) + 1 in (v, r(k \<mapsto> (v, Option.bind (r k) snd)))),
      redis_decr = (\<lambda>k r. let v = (case r k of None \<Rightarrow> 0 | Some (v, _) \<Rightarrow> v) - 1 in (v, r(k \<mapsto> (v, Option.bind (r k) snd)))),
      redis_set = (\<lambda>k v r. r(k \<mapsto> (v, None))), redis_del = (\<lambda>k r. r(k := None)),
      redis_pexpire = (\<lambda>k ms r. r(k := map_option (\<lambda>(v, _). (v, Some ms)) (r k)))\<rparr>"

definition timed_elapse :: "int \<Rightarrow> redis_view \<Rightarrow> redis_view" where
  "timed_elapse d r = (\<lambda>k. case r k of
     Some (v, Some ttl) \<Rightarrow> if ttl \<le> d then None else Some (v, Some (ttl - d))
   | x \<Rightarrow> x)"

lemma timed_redis_laws: "redis_laws timed_redis (\<lambda>r. r) timed_elapse"
  by (auto simp: redis_laws_def timed_redis_def timed_elapse_def script_current_def Let_def split: option.splits)

theorem redis_window_exact_witness:
  "fst (run_checks
      (\<lambda>(key, l, ms) r. case RATE_LIMIT_SCRIPT timed_redis key (int (max l 1)) ms r of (a, r') \<Rightarrow> (a = 1, r'))
      (\<lambda>i. fst i = ''a'') [(''a'', 1, 60), (''b'', 3, 60), (''a'', 1, 60)] Map.empty) = [True, False]"
  using redis_window_exact [OF timed_redis_laws, of Map.empty "''a''"
    "[(''a'', 1, 60), (''b'', 3, 60), (''a'', 1, 60)]" 1] by simp

text \<open>
  C36: In every interleaving of permit scripts of all processes, with time passing and processes dying in between, as long as
  every execution ends within the time to live of its slot: the counter of a key is the number of its
  slots that were granted and neither given back nor reclaimed, a slot is granted exactly when these are fewer than the
  limit, the counter never expires under an execution that is alive, and once the last grant of a key is as old as the
  time to live the counter is 0 again, whatever slots were lost.
\<close>

theorem redis_permit_exact:
  assumes "redis_laws R view elapse" and "redis_permit_history R elapse (millis_arg ttl) r slots idle"
    and "PERMIT_ACQUIRE_SCRIPT R k limit (millis_arg ttl) r = (a, r')"
  shows "a = (if int (slots_of k slots) < limit then 1 else 0) \<and>
    script_current R k r = int (slots_of k slots) \<and>
    (millis_arg ttl \<le> idle k \<longrightarrow> script_current R k r = 0)"
proof -
  have inv: "permit_inv view (millis_arg ttl) r slots idle"
    using redis_permit_history_inv [OF assms(2,1)] by simp
  then have "script_current R k r = int (slots_of k slots)"
    by (simp add: script_current_view [OF assms(1)] permit_inv_def)
  moreover have "slots_of k slots = 0" if "millis_arg ttl \<le> idle k"
    using inv that by (auto simp: permit_inv_def slots_of_def filter_empty_conv)
  ultimately show ?thesis using permit_acquire_view(1) [OF assms(1) millis_arg_pos assms(3)] by simp
qed

theorem redis_permit_exact_witness:
  "\<exists>r. redis_permit_history timed_redis timed_elapse (millis_arg 5000000) r [(''a'', 0, False)] (\<lambda>_. 0) \<and>
     fst (PERMIT_ACQUIRE_SCRIPT timed_redis ''a'' 1 (millis_arg 5000000) r) = 0 \<and>
     redis_permit_history timed_redis timed_elapse (millis_arg 5000000) (timed_elapse 5 r) [] (\<lambda>_. 5) \<and>
     fst (PERMIT_ACQUIRE_SCRIPT timed_redis ''a'' 1 (millis_arg 5000000) (timed_elapse 5 r)) = 1"
proof -
  let ?r = "[''a'' \<mapsto> (1, Some 5)] :: redis_view" and ?H = "redis_permit_history timed_redis timed_elapse (millis_arg 5000000)"
  have ttl: "millis_arg 5000000 = 5" by (simp add: millis_arg_def i64_max_def)
  have "?H Map.empty [] (\<lambda>_. 0)" by (rule redis_permit_history.start) (simp add: timed_redis_def)
  then have "?H ?r [(''a'', 0, True)] ((\<lambda>_. 0)(''a'' := 0))"
    by (rule redis_permit_history.acquired [where limit = 1])
      (simp add: ttl timed_redis_def script_current_def PERMIT_ACQUIRE_SCRIPT_def)
  then have "?H ?r ((''a'', 0, False) # remove1 (''a'', 0, True) [(''a'', 0, True)]) ((\<lambda>_. 0)(''a'' := 0))"
    by (rule redis_permit_history.died) simp
  then have h: "?H ?r [(''a'', 0, False)] (\<lambda>_. 0)" by (simp add: fun_upd_def)
  then have "?H (timed_elapse 5 ?r) (surviving (millis_arg 5000000) (\<lambda>_. 0) 5 [(''a'', 0, False)]) (\<lambda>k. 0 + 5)"
    by (rule redis_permit_history.elapsed) simp_all
  then have h': "?H (timed_elapse 5 ?r) [] (\<lambda>_. 5)" by (simp add: surviving_def ttl)
  show ?thesis
    using h h' redis_permit_exact [OF timed_redis_laws h prod.collapse [symmetric], of "''a''" 1]
      redis_permit_exact [OF timed_redis_laws h' prod.collapse [symmetric], of "''a''" 1]
    by (intro exI [of _ ?r]) (simp add: slots_of_def)
qed

text \<open>
  The cluster limiter is fail-closed: a coordinator that fails, in whatever way, refuses
  the check with the rate-limit error, and a check is admitted only on an explicit yes.
\<close>

theorem cluster_rate_fail_closed:
  "fst (ClusterRateLimiter_check co key limit window c) =
     (if fst (coord_check_rate_window co (coord_key co (''ratelimit:'' @ key)) limit window c) = Ok True
      then Ok () else Err (Api 429 ''rate_limited'' ''public execution rate limit exceeded'' None))"
  by (auto simp: ClusterRateLimiter_check_def rate_limited_def coded_def split: prod.splits sum.splits)

end
