(* ===== verification/Runtime_Cache.thy ===== *)
theory Runtime_Cache
  imports App_Error
begin

text \<open>
  The cache of provider runtimes, \<open>ProviderRuntimeCache\<close> of
  \<open>src/src/orchestration/controls.rs\<close>: entries with a time to live, the eviction of the oldest
  entry when the table is full, the per-key build locks and \<open>get_or_insert_with\<close>. The handle
  (\<open>RuntimeModelHandle\<close>) is opaque; \<open>build\<close> is the result of the builder the caller passes in,
  and every reading of the clock is an argument.
\<close>

record runtime_cache_key =
  ck_provider_id :: uuid
  ck_provider_version :: int
  ck_model_id :: uuid
  ck_model_version :: int
  ck_credential_id :: uuid
  ck_credential_version :: int
  ck_runtime_policy_version :: int

record 'h runtime_cache_entry =
  ce_handle :: 'h
  expires_at :: instant
  inserted_at :: instant

record 'h runtime_cache =
  cache_ttl :: duration
  cache_max_entries :: nat
  cache_entries :: "(runtime_cache_key, 'h runtime_cache_entry) hmap"
  build_locks :: "(runtime_cache_key, nat) hmap"
  next_lock :: nat

definition ProviderRuntimeCache_new :: "nat \<Rightarrow> nat \<Rightarrow> 'h runtime_cache" where
  "ProviderRuntimeCache_new ttl_seconds max_entries =
     \<lparr>cache_ttl = from_secs ttl_seconds, cache_max_entries = max max_entries 1,
      cache_entries = [], build_locks = [], next_lock = 0\<rparr>"

definition cache_get :: "instant \<Rightarrow> runtime_cache_key \<Rightarrow> 'h runtime_cache \<Rightarrow> 'h option" where
  "cache_get now key c =
     (case map_of (cache_entries c) key of
        None \<Rightarrow> None
      | Some e \<Rightarrow> if now < expires_at e then Some (ce_handle e) else None)"

definition evict_oldest_entry ::
    "'h runtime_cache \<Rightarrow> (runtime_cache_key, 'h runtime_cache_entry) hmap" where
  "evict_oldest_entry c =
     (if cache_max_entries c \<le> length (cache_entries c) then
        case min_by_key (\<lambda>(k, e). inserted_at e) (cache_entries c) of
          None \<Rightarrow> cache_entries c
        | Some (oldest_key, _) \<Rightarrow> hm_remove oldest_key (cache_entries c)
      else cache_entries c)"

definition cache_insert :: "instant \<Rightarrow> runtime_cache_key \<Rightarrow> 'h \<Rightarrow> 'h runtime_cache \<Rightarrow> 'h runtime_cache" where
  "cache_insert now key h c =
     c\<lparr>cache_entries :=
        hm_insert key \<lparr>ce_handle = h, expires_at = now + cache_ttl c, inserted_at = now\<rparr>
          (evict_oldest_entry c)\<rparr>"

definition cache_invalidate_all :: "'h runtime_cache \<Rightarrow> 'h runtime_cache" where
  "cache_invalidate_all c = c\<lparr>cache_entries := []\<rparr>"

definition build_lock_for :: "runtime_cache_key \<Rightarrow> 'h runtime_cache \<Rightarrow> nat \<times> 'h runtime_cache" where
  "build_lock_for key c =
     (case map_of (build_locks c) key of
        Some l \<Rightarrow> (l, c)
      | None \<Rightarrow> (next_lock c, c\<lparr>build_locks := hm_insert key (next_lock c) (build_locks c),
                               next_lock := Suc (next_lock c)\<rparr>))"

definition remove_build_lock :: "runtime_cache_key \<Rightarrow> 'h runtime_cache \<Rightarrow> 'h runtime_cache" where
  "remove_build_lock key c = c\<lparr>build_locks := hm_remove key (build_locks c)\<rparr>"

text \<open>
  \<open>now1\<close> and \<open>now2\<close> are the clock readings of the lookups before and after the build lock is
  held, \<open>now3\<close> the one of the insertion; \<open>interim\<close> is what other tasks did to the cache while
  this one waited for the lock.
\<close>

definition get_or_insert_with ::
    "instant \<Rightarrow> instant \<Rightarrow> instant \<Rightarrow> ('h runtime_cache \<Rightarrow> 'h runtime_cache) \<Rightarrow> runtime_cache_key
      \<Rightarrow> (app_error + 'h) \<Rightarrow> 'h runtime_cache \<Rightarrow> (app_error + 'h) \<times> 'h runtime_cache" where
  "get_or_insert_with now1 now2 now3 interim key build c =
     (case cache_get now1 key c of
        Some h \<Rightarrow> (Ok h, c)
      | None \<Rightarrow>
          (let (lock, c1) = build_lock_for key c;
               c2 = interim c1
           in case cache_get now2 key c2 of
                Some h \<Rightarrow> (Ok h, remove_build_lock key c2)
              | None \<Rightarrow>
                  (case build of
                     Err e \<Rightarrow> (Err e, remove_build_lock key c2)
                   | Ok h \<Rightarrow> (Ok h, remove_build_lock key (cache_insert now3 key h c2)))))"

section \<open>The table is bounded\<close>

datatype 'h cache_op =
    CacheInsert instant runtime_cache_key 'h
  | CacheInvalidate

definition run_cache_op :: "'h cache_op \<Rightarrow> 'h runtime_cache \<Rightarrow> 'h runtime_cache" where
  "run_cache_op op c =
     (case op of CacheInsert now key h \<Rightarrow> cache_insert now key h c | CacheInvalidate \<Rightarrow> cache_invalidate_all c)"

lemma evict_oldest_entry_props:
  assumes "hm_ok (cache_entries c)"
  shows "hm_ok (evict_oldest_entry c)"
    and "length (cache_entries c) \<le> cache_max_entries c \<Longrightarrow> 1 \<le> cache_max_entries c \<Longrightarrow>
      length (evict_oldest_entry c) < cache_max_entries c"
    and "map_of (evict_oldest_entry c) k = Some e \<Longrightarrow> map_of (cache_entries c) k = Some e"
proof -
  have found: "hm_contains (cache_entries c) k" if "min_by_key f (cache_entries c) = Some (k, b)"
    for f :: "_ \<Rightarrow> nat" and k b
    using min_by_key_Some [OF that] assms by (auto simp: hm_contains_def hm_get_in_set)
  show "hm_ok (evict_oldest_entry c)"
    using assms by (auto simp: evict_oldest_entry_def split: option.splits)
  show "length (evict_oldest_entry c) < cache_max_entries c"
    if "length (cache_entries c) \<le> cache_max_entries c" "1 \<le> cache_max_entries c"
    using that assms
    by (auto simp: evict_oldest_entry_def hm_length_remove split: option.splits dest!: found)
  show "map_of (cache_entries c) k = Some e" if "map_of (evict_oldest_entry c) k = Some e"
    using that by (auto simp: evict_oldest_entry_def split: if_splits option.splits)
qed

interpretation cache_table: bounded_table
  "\<lambda>c. length (cache_entries c)" cache_max_entries
  "\<lambda>c. hm_ok (cache_entries c) \<and> 1 \<le> cache_max_entries c" run_cache_op
proof
  fix c :: "'h runtime_cache" and op
  assume wf: "hm_ok (cache_entries c) \<and> 1 \<le> cache_max_entries c"
  note ev = evict_oldest_entry_props [OF wf [THEN conjunct1]]
  show "cache_max_entries (run_cache_op op c) = cache_max_entries c"
    and "hm_ok (cache_entries (run_cache_op op c)) \<and> 1 \<le> cache_max_entries (run_cache_op op c)"
    using wf ev(1)
    by (simp_all add: run_cache_op_def cache_insert_def cache_invalidate_all_def split: cache_op.splits)
  assume "length (cache_entries c) \<le> cache_max_entries c"
  with wf ev(1,2) show "length (cache_entries (run_cache_op op c)) \<le> cache_max_entries c"
    by (auto simp: run_cache_op_def cache_insert_def cache_invalidate_all_def hm_length_insert
        split: cache_op.splits)
qed

section \<open>What a lookup returns\<close>

text \<open>The last insertion under a key since the last invalidation; the most recent operation comes last.\<close>

fun last_insert :: "runtime_cache_key \<Rightarrow> 'h cache_op list \<Rightarrow> (instant \<times> 'h) option \<Rightarrow> (instant \<times> 'h) option" where
  "last_insert key [] acc = acc"
| "last_insert key (CacheInvalidate # ops) acc = last_insert key ops None"
| "last_insert key (CacheInsert now k h # ops) acc = last_insert key ops (if k = key then Some (now, h) else acc)"

definition entry_from :: "duration \<Rightarrow> (instant \<times> 'h) option \<Rightarrow> 'h runtime_cache_entry option \<Rightarrow> bool" where
  "entry_from ttl acc e \<longleftrightarrow>
     (\<forall>x. e = Some x \<longrightarrow> (\<exists>t. acc = Some (t, ce_handle x) \<and> expires_at x = t + ttl))"

lemma run_cache_ops_entry:
  assumes "hm_ok (cache_entries c)" and "entry_from (cache_ttl c) acc (map_of (cache_entries c) key)"
  shows "entry_from (cache_ttl c) (last_insert key ops acc)
    (map_of (cache_entries (fold run_cache_op ops c)) key)"
  using assms
proof (induction ops arbitrary: c acc)
  case (Cons op ops)
  note ev = evict_oldest_entry_props [OF Cons.prems(1)]
  have ok: "hm_ok (cache_entries (run_cache_op op c))" "cache_ttl (run_cache_op op c) = cache_ttl c"
    using Cons.prems(1) ev(1)
    by (simp_all add: run_cache_op_def cache_insert_def cache_invalidate_all_def split: cache_op.splits)
  have "entry_from (cache_ttl c) (last_insert key [op] acc) (map_of (cache_entries (run_cache_op op c)) key)"
    using Cons.prems(2) ev(3) [of key]
    by (cases op) (auto simp: entry_from_def run_cache_op_def cache_insert_def cache_invalidate_all_def)
  with Cons.IH [OF ok(1), of "last_insert key [op] acc"] ok(2) show ?case
    by (cases op) auto
qed simp

section \<open>Properties\<close>

text \<open>
  C39: A lookup never returns a stale runtime: whatever was inserted, evicted and invalidated
  before, the handle it returns is the last one inserted under exactly that key since the last
  invalidation, and its time to live has not passed.
\<close>

theorem cache_never_stale:
  assumes "cache_get now key (fold run_cache_op ops (ProviderRuntimeCache_new ttl n)) = Some h"
  shows "\<exists>t. last_insert key ops None = Some (t, h) \<and> now < t + from_secs ttl"
proof -
  let ?c = "ProviderRuntimeCache_new ttl n :: 'a runtime_cache"
  have "entry_from (cache_ttl ?c) (last_insert key ops None)
      (map_of (cache_entries (fold run_cache_op ops ?c)) key)"
    by (rule run_cache_ops_entry) (simp_all add: ProviderRuntimeCache_new_def entry_from_def)
  moreover obtain e where "map_of (cache_entries (fold run_cache_op ops ?c)) key = Some e"
    and "now < expires_at e" and "h = ce_handle e"
    using assms by (auto simp: cache_get_def split: option.splits if_splits)
  moreover have "cache_ttl ?c = from_secs ttl" by (simp add: ProviderRuntimeCache_new_def)
  ultimately show ?thesis by (auto simp: entry_from_def)
qed

definition sample_key :: "int \<Rightarrow> runtime_cache_key" where
  "sample_key v = \<lparr>ck_provider_id = 1, ck_provider_version = v, ck_model_id = 2, ck_model_version = 1,
     ck_credential_id = 3, ck_credential_version = 1, ck_runtime_policy_version = 1\<rparr>"

theorem cache_never_stale_witness:
  "\<exists>t. last_insert (sample_key 1) [CacheInvalidate, CacheInsert 4 (sample_key 1) ''h''] None = Some (t, ''h'') \<and>
     5 < t + from_secs 1"
  by (rule cache_never_stale [of 5 "sample_key 1" _ 1 1])
    (simp add: run_cache_op_def cache_invalidate_all_def cache_insert_def cache_get_def
      ProviderRuntimeCache_new_def evict_oldest_entry_def hm_insert_def from_secs_def)

text \<open>
  The cache never keeps more entries than its configured maximum.
\<close>

theorem cache_bounded:
  "length (cache_entries (fold run_cache_op ops (ProviderRuntimeCache_new ttl n))) \<le> max n 1"
  using cache_table.run_bounded [of "ProviderRuntimeCache_new ttl n" ops]
  by (simp add: ProviderRuntimeCache_new_def)

text \<open>
  A failed build caches nothing and leaves no build lock behind, a successful one is
  returned by every lookup until its time to live ends, and in either case the entry of no
  other key changes except by the eviction of one entry.
\<close>

theorem cache_build_outcome:
  assumes "get_or_insert_with now1 now2 now3 id key build c = (r, c')" and "hm_ok (cache_entries c)"
    and "cache_get now1 key c = None" and "now1 \<le> now2"
  shows "map_of (build_locks c') key = None \<and>
    (case build of
       Err e \<Rightarrow> r = Err e \<and> cache_entries c' = cache_entries c
     | Ok h \<Rightarrow> r = Ok h \<and> (\<forall>now. cache_get now key c' = (if now < now3 + cache_ttl c then Some h else None)) \<and>
               (\<forall>k e. k \<noteq> key \<longrightarrow> map_of (cache_entries c') k = Some e \<longrightarrow> map_of (cache_entries c) k = Some e))"
proof -
  obtain lock c1 where c1: "build_lock_for key c = (lock, c1)" by fastforce
  then have same: "cache_entries c1 = cache_entries c" "cache_ttl c1 = cache_ttl c"
      "cache_max_entries c1 = cache_max_entries c"
    by (auto simp: build_lock_for_def split: option.splits)
  then have ev: "evict_oldest_entry c1 = evict_oldest_entry c"
    by (simp add: evict_oldest_entry_def cong: option.case_cong)
  have "cache_get now2 key c1 = None"
    using assms(3,4) same by (auto simp: cache_get_def split: option.splits if_splits)
  then have "(r, c') = (case build of Err e \<Rightarrow> (Err e, remove_build_lock key c1)
      | Ok h \<Rightarrow> (Ok h, remove_build_lock key (cache_insert now3 key h c1)))"
    using assms(1,3) c1 by (simp add: get_or_insert_with_def)
  then show ?thesis
    using evict_oldest_entry_props(3) [OF assms(2)] same ev
    by (cases build) (simp_all add: remove_build_lock_def cache_get_def cache_insert_def)
qed

theorem cache_build_outcome_witness:
  "\<exists>c'. get_or_insert_with 1 2 3 id (sample_key 1) (Ok ''h'') (ProviderRuntimeCache_new 1 1) = (Ok ''h'', c') \<and>
     cache_get 4 (sample_key 1) c' = Some ''h''"
proof -
  obtain r c' where g: "get_or_insert_with 1 2 3 id (sample_key 1) (Ok ''h'')
      (ProviderRuntimeCache_new 1 1) = (r, c')" by fastforce
  from cache_build_outcome [OF g] show ?thesis
    using g by (simp add: ProviderRuntimeCache_new_def cache_get_def from_secs_def)
qed

end
