(* ===== verification/Authz.thy ===== *)
theory Authz
  imports App_Error "HOL-Library.List_Lexorder" "HOL-Library.Char_ord"
begin

text \<open>
  Authorization, \<open>src/src/security/authz.rs\<close>, and the actor of \<open>src/src/security/auth.rs\<close>: the
  catalogue of scopes, what an actor's scopes allow, which scopes an actor may grant to a key
  it creates, and the normal form of a scope list. Strings are compared byte by byte.
\<close>

section \<open>Actors\<close>

datatype actor_type = Anonymous | DevAdmin | SystemKey | ConsumerKey | TrustedJwt

record actor =
  actor_type :: actor_type
  actor_subject :: "string option"
  actor_tenant_id :: "string option"
  actor_application_id :: "string option"
  actor_external_user_id :: "string option"
  actor_external_tenant_id :: "string option"
  actor_internal_application_id :: "uuid option"
  actor_delegated_subject :: "string option"
  actor_roles :: "string list"
  actor_scopes :: "string list"
  actor_trusted_jwt_issuer_id :: "uuid option"
  actor_api_key_id :: "uuid option"

definition default_actor :: actor where
  "default_actor = \<lparr>actor_type = Anonymous, actor_subject = None, actor_tenant_id = None,
     actor_application_id = None, actor_external_user_id = None, actor_external_tenant_id = None,
     actor_internal_application_id = None, actor_delegated_subject = None, actor_roles = [],
     actor_scopes = [], actor_trusted_jwt_issuer_id = None, actor_api_key_id = None\<rparr>"

section \<open>Scopes\<close>

definition ADMIN_SCOPE :: string where
  "ADMIN_SCOPE = ''moira:admin''"

definition ADMIN_SCOPES :: "string list" where
  "ADMIN_SCOPES =
     [ADMIN_SCOPE,
      ''moira:setup:read'', ''moira:applications:read'', ''moira:applications:write'',
      ''moira:applications:delete'', ''moira:providers:read'', ''moira:providers:write'',
      ''moira:providers:delete'', ''moira:models:read'', ''moira:models:write'',
      ''moira:models:delete'', ''moira:credentials:read'', ''moira:credentials:write'',
      ''moira:credentials:rotate'', ''moira:credentials:disable'', ''moira:credentials:delete'',
      ''moira:jwt-issuers:read'', ''moira:jwt-issuers:write'', ''moira:jwt-issuers:delete'',
      ''moira:system-keys:read'', ''moira:system-keys:write'', ''moira:system-keys:rotate'',
      ''moira:system-keys:revoke'', ''moira:consumer-keys:read'', ''moira:consumer-keys:write'',
      ''moira:consumer-keys:rotate'', ''moira:consumer-keys:revoke'', ''moira:audit:read'',
      ''moira:auth-settings:read'', ''moira:auth-settings:write'', ''moira:auth-settings:delete'',
      ''moira:admins:read'', ''moira:admins:invite'', ''moira:identity:delegate'',
      ''moira:routes:read'', ''moira:routes:write'', ''moira:routes:delete'',
      ''moira:routing-policies:read'', ''moira:routing-policies:write'', ''moira:routing-policies:delete'',
      ''moira:agent-profiles:read'', ''moira:agent-profiles:write'', ''moira:agent-profiles:delete'',
      ''moira:skills:read'', ''moira:skills:write'', ''moira:skills:delete'',
      ''moira:evals:read'', ''moira:evals:write'', ''moira:evals:delete'',
      ''moira:flows:read'', ''moira:flows:write'', ''moira:flows:delete'',
      ''moira:graph:read'', ''moira:runners:read'', ''moira:runners:write'',
      ''moira:runners:delete'', ''moira:runtime-policies:read'', ''moira:runtime-policies:write'',
      ''moira:routing-defaults:read'', ''moira:routing-defaults:write'', ''moira:runtime:diagnose'',
      ''moira:responses:create'', ''moira:responses:stream'', ''moira:responses:read'',
      ''moira:executions:read'', ''moira:usage:read'', ''moira:capabilities:read'',
      ''moira:execution-policies:read'', ''moira:execution-policies:write'', ''moira:execution:override-route'',
      ''moira:execution:override-model'', ''moira:execution:override-provider'', ''moira:execution:override-credential'',
      ''moira:execution:override-timeout'', ''moira:execution:override-priority'', ''moira:execution:override-complexity-hint'',
      ''moira:execution:use-tools'', ''moira:conversations:create'', ''moira:conversations:read'',
      ''moira:conversations:write'', ''moira:conversations:delete'', ''moira:conversations:export'',
      ''moira:memories:create'', ''moira:memories:read'', ''moira:memories:write'',
      ''moira:memories:delete'', ''moira:rag-collections:read'', ''moira:rag-collections:write'',
      ''moira:rag-collections:delete'', ''moira:rag-documents:read'', ''moira:rag-documents:write'',
      ''moira:rag-documents:delete'', ''moira:rag-documents:ingest'', ''moira:conversation-policies:read'',
      ''moira:conversation-policies:write'', ''moira:memory-policies:read'', ''moira:memory-policies:write'',
      ''moira:retrieval-policies:read'', ''moira:retrieval-policies:write'', ''moira:embedding-policies:read'',
      ''moira:embedding-policies:write'', ''moira:memory:extract'', ''moira:memory:diagnose'',
      ''moira:retrieval:diagnose'']"

definition is_known_scope :: "string \<Rightarrow> bool" where
  "is_known_scope scope = (scope \<in> set ADMIN_SCOPES)"

definition ADMIN_IMPLYING_ACTOR_TYPES :: "actor_type list" where
  "ADMIN_IMPLYING_ACTOR_TYPES = [DevAdmin, SystemKey, TrustedJwt]"

definition admin_scope_implies_all :: "actor \<Rightarrow> bool" where
  "admin_scope_implies_all a = (actor_type a \<in> set ADMIN_IMPLYING_ACTOR_TYPES)"

definition has_scope :: "actor \<Rightarrow> string \<Rightarrow> bool" where
  "has_scope a required_scope \<longleftrightarrow>
     required_scope \<in> set (actor_scopes a) \<or>
     admin_scope_implies_all a \<and> ADMIN_SCOPE \<in> set (actor_scopes a)"

definition require :: "actor \<Rightarrow> string \<Rightarrow> app_error + unit" where
  "require a required_scope =
     (if \<not> is_known_scope required_scope then Err (Internal (''unknown required scope '' @ required_scope))
      else if has_scope a required_scope then Ok ()
      else Err (Forbidden (''missing required scope '' @ required_scope)))"

fun normalize_each :: "string list \<Rightarrow> string list \<Rightarrow> app_error + string list" where
  "normalize_each [] normalized = Ok normalized"
| "normalize_each (s # scopes) normalized =
     (let scope = rust_trim s in
      if scope = [] then
        Err (unprocessable ''scope_invalid'' ''api key scopes must not contain empty values'')
      else if \<not> is_known_scope scope then
        Err (unprocessable ''scope_invalid'' (''unknown scope '' @ scope))
      else normalize_each scopes (normalized @ [scope]))"

definition normalize_scopes :: "string list \<Rightarrow> app_error + string list" where
  "normalize_scopes scopes = and_then (normalize_each scopes []) (\<lambda>normalized. Ok (remdups_adj (sort normalized)))"

definition can_grant :: "actor \<Rightarrow> string list \<Rightarrow> bool" where
  "can_grant a requested \<longleftrightarrow> admin_scope_implies_all a \<and> list_all (has_scope a) requested"

section \<open>Lemmas\<close>

lemma normalize_each_Ok:
  "normalize_each scopes acc = Ok out \<longleftrightarrow>
     out = acc @ map rust_trim scopes \<and> (\<forall>s \<in> set scopes. rust_trim s \<noteq> [] \<and> is_known_scope (rust_trim s))"
  by (induction scopes acc rule: normalize_each.induct) (auto simp: Let_def)

lemma normalize_each_Err:
  "normalize_each scopes acc = Err e \<Longrightarrow> app_error_status e = 422 \<and> app_error_code e = ''scope_invalid''"
  by (induction scopes acc rule: normalize_each.induct)
    (auto simp: Let_def unprocessable_def coded_def split: if_splits)

lemma remdups_adj_sorted: "sorted xs \<Longrightarrow> sorted (remdups_adj xs) \<and> distinct (remdups_adj xs)"
proof (induction xs rule: remdups_adj.induct)
  case (3 x y xs)
  have "x \<notin> set (remdups_adj (y # xs))" if "x \<noteq> y"
    using 3(3) that by fastforce
  with 3 show ?case by (auto simp: remdups_adj_set simp del: remdups_adj.simps(3)) (auto split: if_splits)
qed auto

lemma normalize_scopes_Ok:
  "normalize_scopes scopes = Ok out \<longleftrightarrow>
     out = remdups_adj (sort (map rust_trim scopes)) \<and>
     (\<forall>s \<in> set scopes. rust_trim s \<noteq> [] \<and> is_known_scope (rust_trim s))"
  by (auto simp: normalize_scopes_def and_then_Ok_iff normalize_each_Ok)

section \<open>Properties\<close>

text \<open>
  C20: No privilege escalation: whatever the type of the key an actor creates, a key with the
  scopes the actor was allowed to grant can do nothing the actor could not do itself.
\<close>

theorem grant_never_escalates:
  assumes "can_grant grantor (actor_scopes grantee)" and "has_scope grantee s"
  shows "has_scope grantor s"
  using assms by (auto simp: can_grant_def has_scope_def list_all_iff)

theorem grant_never_escalates_witness:
  "has_scope (default_actor\<lparr>actor_type := SystemKey, actor_scopes := [ADMIN_SCOPE]\<rparr>) ''moira:evals:read''"
  by (rule grant_never_escalates [of _ "default_actor\<lparr>actor_type := ConsumerKey, actor_scopes := [''moira:evals:read'']\<rparr>"])
    (simp_all add: can_grant_def has_scope_def admin_scope_implies_all_def ADMIN_IMPLYING_ACTOR_TYPES_def)

text \<open>
  The decision of \<open>require\<close> on every branch: an unknown scope is an internal error whoever
  asks; a known one is allowed exactly when the actor carries it, or carries the admin scope
  and is of one of the three types whose admin scope implies all.
\<close>

theorem require_decision:
  "require a s =
     (if s \<notin> set ADMIN_SCOPES then Err (Internal (''unknown required scope '' @ s))
      else if s \<in> set (actor_scopes a) \<or>
        actor_type a \<notin> {Anonymous, ConsumerKey} \<and> ''moira:admin'' \<in> set (actor_scopes a)
      then Ok () else Err (Forbidden (''missing required scope '' @ s)))"
  by (cases "actor_type a")
    (simp_all add: require_def is_known_scope_def has_scope_def admin_scope_implies_all_def
      ADMIN_IMPLYING_ACTOR_TYPES_def ADMIN_SCOPE_def)

text \<open>
  A normalized scope list is strictly sorted, holds exactly the trimmed scopes it was given,
  all of them known, and normalizing it again changes nothing; anything else is refused
  with \<open>scope_invalid\<close>.
\<close>

theorem normalize_scopes_canonical:
  "case normalize_scopes scopes of
     Ok out \<Rightarrow> sorted out \<and> distinct out \<and> set out = rust_trim ` set scopes \<and>
       set out \<subseteq> set ADMIN_SCOPES \<and> normalize_scopes out = Ok out
   | Err e \<Rightarrow> app_error_status e = 422 \<and> app_error_code e = ''scope_invalid'' \<and>
       \<not> (rust_trim ` set scopes \<subseteq> set ADMIN_SCOPES - {[]})"
proof (cases "normalize_scopes scopes")
  case (Inl e)
  then have e: "normalize_each scopes [] = Err e"
    by (auto simp: normalize_scopes_def and_then_Err_iff)
  then have "normalize_each scopes [] \<noteq> Ok (map rust_trim scopes)" by simp
  then show ?thesis
    using Inl normalize_each_Err [OF e] by (auto simp: normalize_each_Ok is_known_scope_def)
next
  case (Inr out)
  then have out: "out = remdups_adj (sort (map rust_trim scopes))"
    and ok: "\<forall>s \<in> set scopes. rust_trim s \<noteq> [] \<and> is_known_scope (rust_trim s)"
    by (simp_all add: normalize_scopes_Ok)
  have sd: "sorted out" "distinct out" and set: "set out = rust_trim ` set scopes"
    using remdups_adj_sorted [of "sort (map rust_trim scopes)"] by (simp_all add: out)
  have "map rust_trim out = out" using set by (intro map_idI) auto
  then have "normalize_scopes out = Ok out"
    using sd ok set by (simp add: normalize_scopes_Ok sorted_sort_id remdups_adj_distinct)
  with Inr sd set ok show ?thesis by (auto simp: is_known_scope_def)
qed

end
