(* ===== verification/Job_Store.thy ===== *)
theory Job_Store
  imports App_Error
begin

text \<open>
  The table of background jobs, \<open>src/src/infra/repositories/worker_jobs.rs\<close>. Each SQL statement
  is a function on the list of rows; \<open>now\<close> is the value of \<open>now()\<close> in that statement, the id of a
  new row is the one the column default generates, and \<open>locked\<close> says which rows another
  transaction holds while a batch is claimed (\<open>for update skip locked\<close>). A statement is atomic;
  statements of different replicas interleave in any order.
\<close>

section \<open>Rows\<close>

datatype job_status = JobPending | JobRunning | JobCompleted | JobDeadLetter

record worker_job =
  wj_id :: uuid
  wj_job_name :: string
  wj_payload :: json
  wj_status :: job_status
  wj_run_at :: instant
  wj_attempts :: int
  wj_max_attempts :: int
  wj_claimed_by :: "uuid option"
  wj_claimed_at :: "instant option"
  wj_last_error :: "string option"
  wj_dead_letter_at :: "instant option"
  wj_completed_at :: "instant option"

record claimed_job =
  cj_id :: uuid
  cj_job_name :: string
  cj_payload :: json
  cj_attempts :: int
  cj_max_attempts :: int

record worker_job_insert =
  ji_job_name :: string
  ji_payload :: json
  ji_run_at :: "instant option"
  ji_max_attempts :: int

definition claimed_job_from_row :: "worker_job \<Rightarrow> claimed_job" where
  "claimed_job_from_row j =
     \<lparr>cj_id = wj_id j, cj_job_name = wj_job_name j, cj_payload = wj_payload j,
      cj_attempts = wj_attempts j, cj_max_attempts = wj_max_attempts j\<rparr>"

section \<open>Statements\<close>

definition PENDING_DEPTH_SQL :: "worker_job list \<Rightarrow> nat" where
  "PENDING_DEPTH_SQL jobs = length (filter (\<lambda>j. wj_status j = JobPending) jobs)"

definition new_row :: "instant \<Rightarrow> uuid \<Rightarrow> worker_job_insert \<Rightarrow> worker_job" where
  "new_row now i job =
     \<lparr>wj_id = i, wj_job_name = ji_job_name job, wj_payload = ji_payload job, wj_status = JobPending,
      wj_run_at = (case ji_run_at job of None \<Rightarrow> now | Some t \<Rightarrow> t), wj_attempts = 0,
      wj_max_attempts = ji_max_attempts job, wj_claimed_by = None, wj_claimed_at = None,
      wj_last_error = None, wj_dead_letter_at = None, wj_completed_at = None\<rparr>"

definition ENQUEUE_SQL ::
    "instant \<Rightarrow> uuid \<Rightarrow> worker_job_insert \<Rightarrow> int \<Rightarrow> worker_job list \<Rightarrow> uuid option \<times> worker_job list" where
  "ENQUEUE_SQL now i job max_pending jobs =
     (if int (PENDING_DEPTH_SQL jobs) < max_pending then (Some i, jobs @ [new_row now i job])
      else (None, jobs))"

definition ENQUEUE_IF_IDLE_SQL ::
    "instant \<Rightarrow> uuid \<Rightarrow> worker_job_insert \<Rightarrow> int \<Rightarrow> worker_job list \<Rightarrow> uuid option \<times> worker_job list" where
  "ENQUEUE_IF_IDLE_SQL now i job max_pending jobs =
     (if \<not> list_ex (\<lambda>j. wj_job_name j = ji_job_name job \<and> wj_status j \<in> {JobPending, JobRunning}) jobs \<and>
         int (PENDING_DEPTH_SQL jobs) < max_pending
      then (Some i, jobs @ [new_row now i job]) else (None, jobs))"

definition claim_victims :: "instant \<Rightarrow> (uuid \<Rightarrow> bool) \<Rightarrow> nat \<Rightarrow> worker_job list \<Rightarrow> uuid list" where
  "claim_victims now locked limit jobs =
     map wj_id (take limit (sort_key wj_run_at
       (filter (\<lambda>j. wj_status j = JobPending \<and> wj_run_at j \<le> now \<and> \<not> locked (wj_id j)) jobs)))"

definition claim_row :: "instant \<Rightarrow> uuid \<Rightarrow> worker_job \<Rightarrow> worker_job" where
  "claim_row now claimed_by j =
     j\<lparr>wj_status := JobRunning, wj_attempts := wj_attempts j + 1,
       wj_claimed_by := Some claimed_by, wj_claimed_at := Some now\<rparr>"

definition CLAIM_BATCH_SQL ::
    "instant \<Rightarrow> (uuid \<Rightarrow> bool) \<Rightarrow> uuid \<Rightarrow> nat \<Rightarrow> worker_job list \<Rightarrow> claimed_job list \<times> worker_job list" where
  "CLAIM_BATCH_SQL now locked claimed_by limit jobs =
     (let victims = claim_victims now locked limit jobs;
          update = (\<lambda>j. if wj_id j \<in> set victims then claim_row now claimed_by j else j)
      in (map (claimed_job_from_row \<circ> update) (filter (\<lambda>j. wj_id j \<in> set victims) jobs), map update jobs))"

text \<open>\<open>update worker_jobs set ... where id = $1 and status = 'running'\<close>.\<close>

definition update_running :: "uuid \<Rightarrow> (worker_job \<Rightarrow> worker_job) \<Rightarrow> worker_job list \<Rightarrow> worker_job list" where
  "update_running i f jobs = map (\<lambda>j. if wj_id j = i \<and> wj_status j = JobRunning then f j else j) jobs"

definition COMPLETE_SQL :: "instant \<Rightarrow> uuid \<Rightarrow> worker_job list \<Rightarrow> worker_job list" where
  "COMPLETE_SQL now i =
     update_running i (\<lambda>j. j\<lparr>wj_status := JobCompleted, wj_completed_at := Some now,
       wj_claimed_by := None, wj_claimed_at := None\<rparr>)"

definition RESCHEDULE_SQL :: "uuid \<Rightarrow> instant \<Rightarrow> string \<Rightarrow> worker_job list \<Rightarrow> worker_job list" where
  "RESCHEDULE_SQL i run_at err =
     update_running i (\<lambda>j. j\<lparr>wj_status := JobPending, wj_run_at := run_at, wj_last_error := Some err,
       wj_claimed_by := None, wj_claimed_at := None\<rparr>)"

definition DEAD_LETTER_SQL :: "instant \<Rightarrow> uuid \<Rightarrow> string \<Rightarrow> worker_job list \<Rightarrow> worker_job list" where
  "DEAD_LETTER_SQL now i err =
     update_running i (\<lambda>j. j\<lparr>wj_status := JobDeadLetter, wj_dead_letter_at := Some now,
       wj_last_error := Some err, wj_claimed_by := None, wj_claimed_at := None\<rparr>)"

definition is_stale :: "instant \<Rightarrow> nat \<Rightarrow> worker_job \<Rightarrow> bool" where
  "is_stale now stale_seconds j \<longleftrightarrow>
     wj_status j = JobRunning \<and>
     (case wj_claimed_at j of None \<Rightarrow> False | Some t \<Rightarrow> t + from_secs stale_seconds < now)"

definition REQUEUE_STALE_SQL :: "instant \<Rightarrow> nat \<Rightarrow> worker_job list \<Rightarrow> nat \<times> worker_job list" where
  "REQUEUE_STALE_SQL now stale_seconds jobs =
     (length (filter (is_stale now stale_seconds) jobs),
      map (\<lambda>j. if is_stale now stale_seconds j
               then j\<lparr>wj_status := JobPending, wj_run_at := now, wj_claimed_by := None, wj_claimed_at := None\<rparr>
               else j) jobs)"

definition is_prunable :: "instant \<Rightarrow> nat \<Rightarrow> worker_job \<Rightarrow> bool" where
  "is_prunable now retention_hours j \<longleftrightarrow>
     (let old = (\<lambda>t. case t of None \<Rightarrow> False | Some t \<Rightarrow> t + from_secs (3600 * retention_hours) < now)
      in wj_status j = JobCompleted \<and> old (wj_completed_at j) \<or>
         wj_status j = JobDeadLetter \<and> old (wj_dead_letter_at j))"

definition PRUNE_TERMINAL_SQL :: "instant \<Rightarrow> nat \<Rightarrow> worker_job list \<Rightarrow> nat \<times> worker_job list" where
  "PRUNE_TERMINAL_SQL now retention_hours jobs =
     (length (filter (is_prunable now retention_hours) jobs),
      filter (\<lambda>j. \<not> is_prunable now retention_hours j) jobs)"

section \<open>Attempts are handed out once\<close>

text \<open>The claims a run of operations hands out, in order.\<close>

fun run_claims :: "('op \<Rightarrow> 's \<Rightarrow> 'c list) \<Rightarrow> ('op \<Rightarrow> 's \<Rightarrow> 's) \<Rightarrow> 'op list \<Rightarrow> 's \<Rightarrow> 'c list" where
  "run_claims claims step [] s = []"
| "run_claims claims step (op # ops) s = claims op s @ run_claims claims step ops (step op s)"

text \<open>
  What the queue needs of its store: an operation creates at most one job, never lowers the
  number of attempts of a job that stays, and a claim hands a job out under the next attempt
  number.
\<close>

locale attempt_ledger =
  fixes attempts_of :: "'s \<Rightarrow> 'i \<Rightarrow> int option"
    and creates :: "'op \<Rightarrow> 'i list"
    and claims :: "'op \<Rightarrow> 's \<Rightarrow> ('i \<times> int) list"
    and apply_op :: "'op \<Rightarrow> 's \<Rightarrow> 's"
    and well_formed :: "'s \<Rightarrow> bool"
  assumes well_formed_step:
      "well_formed s \<Longrightarrow> \<forall>i \<in> set (creates op). attempts_of s i = None \<Longrightarrow> well_formed (apply_op op s)"
    and not_created: "well_formed s \<Longrightarrow> attempts_of s i = None \<Longrightarrow> i \<notin> set (creates op) \<Longrightarrow>
      attempts_of (apply_op op s) i = None"
    and not_lowered: "well_formed s \<Longrightarrow> attempts_of s i = Some a \<Longrightarrow> i \<notin> set (creates op) \<Longrightarrow>
      attempts_of (apply_op op s) i = Some b \<Longrightarrow> a \<le> b"
    and claimed_next: "well_formed s \<Longrightarrow> (i, a) \<in> set (claims op s) \<Longrightarrow>
      attempts_of s i = Some (a - 1) \<and> attempts_of (apply_op op s) i = Some a"
    and claimed_distinct: "well_formed s \<Longrightarrow> distinct (claims op s)"
begin

definition fresh_creates :: "'op list \<Rightarrow> 's \<Rightarrow> bool" where
  "fresh_creates ops s \<longleftrightarrow>
     distinct (concat (map creates ops)) \<and> (\<forall>i \<in> set (concat (map creates ops)). attempts_of s i = None)"

lemma fresh_creates_Cons:
  assumes "well_formed s" and "fresh_creates (op # ops) s"
  shows "well_formed (apply_op op s)" and "fresh_creates ops (apply_op op s)"
proof -
  show "well_formed (apply_op op s)"
    using assms by (intro well_formed_step) (auto simp: fresh_creates_def)
  have "attempts_of (apply_op op s) i = None" if "i \<in> set (concat (map creates ops))" for i
    using assms that by (intro not_created) (auto simp: fresh_creates_def)
  then show "fresh_creates ops (apply_op op s)"
    using assms(2) by (auto simp: fresh_creates_def)
qed

lemma run_claims_above:
  assumes "well_formed s" and "fresh_creates ops s" and "(i, a) \<in> set (run_claims claims apply_op ops s)"
  shows "case attempts_of s i of None \<Rightarrow> i \<in> set (concat (map creates ops)) | Some b \<Rightarrow> b < a"
  using assms
proof (induction ops arbitrary: s)
  case (Cons op ops)
  note step = fresh_creates_Cons [OF Cons.prems(1,2)]
  show ?case
  proof (cases "(i, a) \<in> set (claims op s)")
    case True
    then show ?thesis using claimed_next [OF Cons.prems(1)] by fastforce
  next
    case False
    then have IH: "case attempts_of (apply_op op s) i of None \<Rightarrow> i \<in> set (concat (map creates ops)) | Some b \<Rightarrow> b < a"
      using Cons step by auto
    show ?thesis
    proof (cases "attempts_of s i")
      case None
      then show ?thesis
        using IH not_created [OF Cons.prems(1) None, of op] by (auto split: option.splits)
    next
      case (Some b)
      then have "i \<notin> set (concat (map creates (op # ops)))"
        using Cons.prems(2) by (metis fresh_creates_def option.distinct(1))
      then show ?thesis
        using IH Some not_lowered [OF Cons.prems(1) Some, of op] by (fastforce split: option.splits)
    qed
  qed
qed simp

lemma run_not_created:
  assumes "well_formed s" and "fresh_creates ops s" and "attempts_of s i = None" and "i \<notin> set (concat (map creates ops))"
  shows "attempts_of (fold apply_op ops s) i = None"
  using assms
proof (induction ops arbitrary: s)
  case (Cons op ops)
  show ?case
    using Cons.IH [OF fresh_creates_Cons [OF Cons.prems(1,2)]] not_created [OF Cons.prems(1,3), of op] Cons.prems(4) by simp
qed simp

lemma attempt_claimed_once:
  assumes "well_formed s" and "fresh_creates ops s"
  shows "distinct (run_claims claims apply_op ops s)"
  using assms
proof (induction ops arbitrary: s)
  case (Cons op ops)
  note step = fresh_creates_Cons [OF Cons.prems]
  have "(i, a) \<notin> set (run_claims claims apply_op ops (apply_op op s))" if "(i, a) \<in> set (claims op s)" for i a
    using claimed_next [OF Cons.prems(1) that] run_claims_above [OF step, of i a] by auto
  then show ?case
    using Cons step claimed_distinct [OF Cons.prems(1), of op] by auto
qed simp

end

subsection \<open>The statements form a ledger\<close>

datatype job_op =
    OpEnqueue instant uuid worker_job_insert int
  | OpEnqueueIfIdle instant uuid worker_job_insert int
  | OpClaim instant "uuid \<Rightarrow> bool" uuid nat
  | OpComplete instant uuid
  | OpReschedule uuid instant string
  | OpDeadLetter instant uuid string
  | OpRequeueStale instant nat
  | OpPrune instant nat

fun run_job_op :: "job_op \<Rightarrow> worker_job list \<Rightarrow> worker_job list" where
  "run_job_op (OpEnqueue now i job m) jobs = snd (ENQUEUE_SQL now i job m jobs)"
| "run_job_op (OpEnqueueIfIdle now i job m) jobs = snd (ENQUEUE_IF_IDLE_SQL now i job m jobs)"
| "run_job_op (OpClaim now locked r limit) jobs = snd (CLAIM_BATCH_SQL now locked r limit jobs)"
| "run_job_op (OpComplete now i) jobs = COMPLETE_SQL now i jobs"
| "run_job_op (OpReschedule i t e) jobs = RESCHEDULE_SQL i t e jobs"
| "run_job_op (OpDeadLetter now i e) jobs = DEAD_LETTER_SQL now i e jobs"
| "run_job_op (OpRequeueStale now n) jobs = snd (REQUEUE_STALE_SQL now n jobs)"
| "run_job_op (OpPrune now n) jobs = snd (PRUNE_TERMINAL_SQL now n jobs)"

fun job_op_claims :: "job_op \<Rightarrow> worker_job list \<Rightarrow> (uuid \<times> int) list" where
  "job_op_claims (OpClaim now locked r limit) jobs =
     map (\<lambda>c. (cj_id c, cj_attempts c)) (fst (CLAIM_BATCH_SQL now locked r limit jobs))"
| "job_op_claims _ jobs = []"

fun job_op_creates :: "job_op \<Rightarrow> uuid list" where
  "job_op_creates (OpEnqueue now i job m) = [i]"
| "job_op_creates (OpEnqueueIfIdle now i job m) = [i]"
| "job_op_creates _ = []"

definition find_job :: "uuid \<Rightarrow> worker_job list \<Rightarrow> worker_job option" where
  "find_job i jobs = find (\<lambda>j. wj_id j = i) jobs"

definition job_attempts :: "worker_job list \<Rightarrow> uuid \<Rightarrow> int option" where
  "job_attempts jobs i = map_option wj_attempts (find_job i jobs)"

definition jobs_ok :: "worker_job list \<Rightarrow> bool" where
  "jobs_ok jobs \<longleftrightarrow> distinct (map wj_id jobs)"

lemma find_job_None: "find_job i jobs = None \<longleftrightarrow> i \<notin> wj_id ` set jobs"
  by (auto simp: find_job_def find_None_iff)

lemma find_job_Some: "jobs_ok jobs \<Longrightarrow> find_job i jobs = Some j \<longleftrightarrow> j \<in> set jobs \<and> wj_id j = i"
  unfolding find_job_def jobs_ok_def by (induction jobs) (auto simp: image_iff)

lemma find_job_map: "(\<And>j. wj_id (f j) = wj_id j) \<Longrightarrow> find_job i (map f jobs) = map_option f (find_job i jobs)"
  unfolding find_job_def by (induction jobs) auto

lemma find_job_append: "find_job i (jobs @ [j]) =
    (case find_job i jobs of None \<Rightarrow> if wj_id j = i then Some j else None | Some j' \<Rightarrow> Some j')"
  unfolding find_job_def by (induction jobs) auto

lemma jobs_ok_map: "(\<And>j. wj_id (f j) = wj_id j) \<Longrightarrow> jobs_ok (map f jobs) = jobs_ok jobs"
  by (simp add: jobs_ok_def comp_def)

lemma claim_batch_alt:
  "CLAIM_BATCH_SQL now locked r limit jobs =
     (map (claimed_job_from_row \<circ> claim_row now r)
        (filter (\<lambda>j. wj_id j \<in> set (claim_victims now locked limit jobs)) jobs),
      map (\<lambda>j. if wj_id j \<in> set (claim_victims now locked limit jobs) then claim_row now r j else j) jobs)"
  by (auto simp: CLAIM_BATCH_SQL_def Let_def)

lemma claim_row_simps [simp]:
  "wj_id (claim_row now r j) = wj_id j" "wj_attempts (claim_row now r j) = wj_attempts j + 1"
  "wj_status (claim_row now r j) = JobRunning"
  by (simp_all add: claim_row_def)

lemma update_running_map:
  assumes "\<And>j. wj_id (f j) = wj_id j" and "\<And>j. wj_attempts (f j) = wj_attempts j"
  obtains g where "update_running i f jobs = map g jobs" and "\<And>j. wj_id (g j) = wj_id j"
    and "\<And>j. wj_attempts j \<le> wj_attempts (g j)"
  by (rule that [of "\<lambda>j. if wj_id j = i \<and> wj_status j = JobRunning then f j else j"])
    (simp_all add: update_running_def assms)

text \<open>Every statement but the insertions maps or filters the rows.\<close>

lemma run_job_op_cases:
  obtains (map) f where "run_job_op op jobs = map f jobs" and "\<And>j. wj_id (f j) = wj_id j"
    and "\<And>j. wj_attempts j \<le> wj_attempts (f j)" and "job_op_creates op = []"
  | (insert) now i job where "run_job_op op jobs = jobs @ [new_row now i job]" and "job_op_creates op = [i]"
      and "job_op_claims op jobs = []"
  | (same) "run_job_op op jobs = jobs" and "job_op_claims op jobs = []"
  | (delete) P where "run_job_op op jobs = filter P jobs" and "job_op_creates op = []"
      and "job_op_claims op jobs = []"
proof (cases op)
  case (OpEnqueue now i job m)
  then show ?thesis
    by (cases "int (PENDING_DEPTH_SQL jobs) < m") (auto simp: ENQUEUE_SQL_def intro: insert same)
next
  case (OpEnqueueIfIdle now i job m)
  then show ?thesis
    by (cases "fst (ENQUEUE_IF_IDLE_SQL now i job m jobs)")
      (auto simp: ENQUEUE_IF_IDLE_SQL_def split: if_splits intro: insert same)
next
  case (OpPrune now n)
  then show ?thesis by (intro delete) (auto simp: PRUNE_TERMINAL_SQL_def)
next
  case (OpClaim now locked r limit)
  then have "run_job_op op jobs =
      map (\<lambda>j. if wj_id j \<in> set (claim_victims now locked limit jobs) then claim_row now r j else j) jobs"
    by (simp add: claim_batch_alt)
  then show ?thesis by (rule map) (simp_all add: OpClaim)
next
  case (OpRequeueStale now n)
  then have "run_job_op op jobs = map (\<lambda>j. if is_stale now n j
      then j\<lparr>wj_status := JobPending, wj_run_at := now, wj_claimed_by := None, wj_claimed_at := None\<rparr> else j) jobs"
    by (simp add: REQUEUE_STALE_SQL_def)
  then show ?thesis by (rule map) (simp_all add: OpRequeueStale)
next
  case (OpComplete now i)
  show ?thesis
    by (rule update_running_map [of "\<lambda>j. j\<lparr>wj_status := JobCompleted, wj_completed_at := Some now,
         wj_claimed_by := None, wj_claimed_at := None\<rparr>" i jobs])
      (use OpComplete in \<open>auto simp: COMPLETE_SQL_def intro: map\<close>)
next
  case (OpReschedule i t e)
  show ?thesis
    by (rule update_running_map [of "\<lambda>j. j\<lparr>wj_status := JobPending, wj_run_at := t, wj_last_error := Some e,
         wj_claimed_by := None, wj_claimed_at := None\<rparr>" i jobs])
      (use OpReschedule in \<open>auto simp: RESCHEDULE_SQL_def intro: map\<close>)
next
  case (OpDeadLetter now i e)
  show ?thesis
    by (rule update_running_map [of "\<lambda>j. j\<lparr>wj_status := JobDeadLetter, wj_dead_letter_at := Some now,
         wj_last_error := Some e, wj_claimed_by := None, wj_claimed_at := None\<rparr>" i jobs])
      (use OpDeadLetter in \<open>auto simp: DEAD_LETTER_SQL_def intro: map\<close>)
qed

lemma jobs_ok_same_id: "jobs_ok jobs \<Longrightarrow> j \<in> set jobs \<Longrightarrow> j' \<in> set jobs \<Longrightarrow> wj_id j = wj_id j' \<Longrightarrow> j = j'"
  by (metis find_job_Some option.inject)

lemma claims_in_jobs:
  assumes "(i, a) \<in> set (job_op_claims op jobs)"
  obtains now locked r limit j where "op = OpClaim now locked r limit" and "j \<in> set jobs"
    and "wj_id j = i" and "i \<in> set (claim_victims now locked limit jobs)" and "a = wj_attempts j + 1"
  using assms
  by (cases op) (auto simp: claim_batch_alt claimed_job_from_row_def intro: that)

interpretation job_ledger: attempt_ledger job_attempts job_op_creates job_op_claims run_job_op jobs_ok
proof
  fix jobs op
  assume ok: "jobs_ok jobs" and fresh: "\<forall>i \<in> set (job_op_creates op). job_attempts jobs i = None"
  show "jobs_ok (run_job_op op jobs)"
  proof (cases rule: run_job_op_cases [of op jobs])
    case (insert now i job)
    then show ?thesis
      using ok fresh by (auto simp: jobs_ok_def job_attempts_def find_job_None new_row_def)
  qed (use ok in \<open>auto simp: jobs_ok_def distinct_map_filter comp_def\<close>)
next
  fix jobs i op
  assume ok: "jobs_ok jobs" and "job_attempts jobs i = None" and "i \<notin> set (job_op_creates op)"
  then show "job_attempts (run_job_op op jobs) i = None"
    by (cases rule: run_job_op_cases [of op jobs])
      (auto simp: job_attempts_def find_job_map find_job_append find_job_None new_row_def split: option.splits)
next
  fix jobs i a op b
  assume ok: "jobs_ok jobs" and a: "job_attempts jobs i = Some a" and "i \<notin> set (job_op_creates op)"
    and b: "job_attempts (run_job_op op jobs) i = Some b"
  then show "a \<le> b"
  proof (cases rule: run_job_op_cases [of op jobs])
    case (delete P)
    have ok': "jobs_ok (filter P jobs)" using ok by (simp add: jobs_ok_def distinct_map_filter)
    obtain j j' where "find_job i jobs = Some j" "find_job i (filter P jobs) = Some j'"
      and ab: "a = wj_attempts j" "b = wj_attempts j'"
      using a b delete by (auto simp: job_attempts_def)
    then have "j = j'"
      using jobs_ok_same_id [OF ok, of j j'] find_job_Some [OF ok] find_job_Some [OF ok'] by auto
    then show ?thesis using ab by simp
  qed (auto simp: job_attempts_def find_job_map find_job_append)
next
  fix jobs i a op
  assume ok: "jobs_ok jobs" and claim: "(i, a) \<in> set (job_op_claims op jobs)"
  from claim obtain now locked r limit j where op: "op = OpClaim now locked r limit" and j: "j \<in> set jobs" "wj_id j = i"
    and v: "i \<in> set (claim_victims now locked limit jobs)" and a: "a = wj_attempts j + 1"
    by (rule claims_in_jobs)
  have "find_job i jobs = Some j" using ok j by (simp add: find_job_Some)
  then show "job_attempts jobs i = Some (a - 1) \<and> job_attempts (run_job_op op jobs) i = Some a"
    using v a j op by (simp add: job_attempts_def claim_batch_alt find_job_map)
next
  fix jobs op
  assume "jobs_ok jobs"
  then have "distinct (map fst (job_op_claims op jobs))"
    by (cases op) (auto simp: claim_batch_alt claimed_job_from_row_def jobs_ok_def comp_def distinct_map_filter)
  then show "distinct (job_op_claims op jobs)" by (simp add: distinct_map)
qed

section \<open>What a batch holds\<close>

definition is_due :: "instant \<Rightarrow> (uuid \<Rightarrow> bool) \<Rightarrow> worker_job \<Rightarrow> bool" where
  "is_due now locked j \<longleftrightarrow> wj_status j = JobPending \<and> wj_run_at j \<le> now \<and> \<not> locked (wj_id j)"

lemma claim_victims_due:
  "claim_victims now locked limit jobs = map wj_id (take limit (sort_key wj_run_at (filter (is_due now locked) jobs)))"
  by (simp add: claim_victims_def is_due_def [abs_def])

lemma victims_rows:
  assumes "jobs_ok jobs" and "j \<in> set jobs"
  shows "wj_id j \<in> set (claim_victims now locked limit jobs) \<longleftrightarrow>
    j \<in> set (take limit (sort_key wj_run_at (filter (is_due now locked) jobs)))"
proof -
  have "set (take limit (sort_key wj_run_at (filter (is_due now locked) jobs))) \<subseteq> set jobs"
    using set_take_subset [of limit "sort_key wj_run_at (filter (is_due now locked) jobs)"] by auto
  then show ?thesis
    using jobs_ok_same_id [OF assms] by (auto simp: claim_victims_due)
qed

lemma claimed_length:
  assumes "jobs_ok jobs"
  shows "length (fst (CLAIM_BATCH_SQL now locked r limit jobs)) = min limit (length (filter (is_due now locked) jobs))"
proof -
  let ?vs = "claim_victims now locked limit jobs"
  let ?rows = "filter (\<lambda>j. wj_id j \<in> set ?vs) jobs"
  have "set ?vs \<subseteq> wj_id ` set jobs"
    by (auto simp: claim_victims_due dest: in_set_takeD)
  then have "set (map wj_id ?rows) = set ?vs" by auto
  moreover have "distinct (map wj_id ?rows)"
    using assms by (simp add: jobs_ok_def distinct_map_filter)
  moreover have "distinct (map wj_id (filter (is_due now locked) jobs))"
    using assms by (simp add: jobs_ok_def distinct_map_filter)
  then have "distinct ?vs"
    unfolding claim_victims_due take_map [symmetric]
    by (intro distinct_take) (simp add: distinct_map)
  ultimately have "length ?rows = length ?vs"
    by (metis distinct_card length_map)
  then show ?thesis by (simp add: claim_batch_alt claim_victims_due)
qed

lemma sorted_take_drop: "sorted xs \<Longrightarrow> x \<in> set (take n xs) \<Longrightarrow> y \<in> set (drop n xs) \<Longrightarrow> x \<le> y"
  by (metis append_take_drop_id sorted_append)

lemma oldest_first:
  assumes "jobs_ok jobs" and "j \<in> set jobs" and "j' \<in> set jobs"
    and "wj_id j \<in> set (claim_victims now locked limit jobs)"
    and "is_due now locked j'" and "wj_id j' \<notin> set (claim_victims now locked limit jobs)"
  shows "wj_run_at j \<le> wj_run_at j'"
proof -
  let ?xs = "sort_key wj_run_at (filter (is_due now locked) jobs)"
  have "j \<in> set (take limit ?xs)" and "j' \<in> set ?xs" and "j' \<notin> set (take limit ?xs)"
    using assms victims_rows [OF assms(1)] by auto
  moreover from this have "j' \<in> set (drop limit ?xs)"
    by (metis Un_iff append_take_drop_id set_append)
  moreover have "sorted (map wj_run_at ?xs)" by simp
  ultimately show ?thesis
    using sorted_take_drop [of "map wj_run_at ?xs" "wj_run_at j" limit "wj_run_at j'"]
    by (auto simp: take_map drop_map)
qed

section \<open>Leases\<close>

text \<open>
  What a history says of a job. It was enqueued to be due at \<open>t\<close>; it was claimed under attempt \<open>a\<close> at \<open>now\<close> and not
  since; it was handed back, due at \<open>t\<close>, after a claim at \<open>since\<close>; it waits, due at \<open>t\<close>, after \<open>a\<close> attempts.
\<close>

definition enqueued :: "uuid \<Rightarrow> instant \<Rightarrow> job_op \<Rightarrow> bool" where
  "enqueued i t op \<longleftrightarrow> (\<exists>now job m. (op = OpEnqueue now i job m \<or> op = OpEnqueueIfIdle now i job m) \<and>
     t = (case ji_run_at job of None \<Rightarrow> now | Some t \<Rightarrow> t))"

definition handed_back :: "uuid \<Rightarrow> instant \<Rightarrow> instant \<Rightarrow> job_op \<Rightarrow> bool" where
  "handed_back i since t op \<longleftrightarrow>
     (\<exists>e. op = OpReschedule i t e) \<or> (\<exists>n. op = OpRequeueStale t n \<and> since + from_secs n < t)"

definition last_claimed :: "uuid \<Rightarrow> job_op list \<Rightarrow> int \<Rightarrow> instant \<Rightarrow> job_op list \<Rightarrow> bool" where
  "last_claimed i ops a now mid \<longleftrightarrow> (\<exists>pre locked r limit. let claim = OpClaim now locked r limit in
     ops = pre @ claim # mid \<and> (i, a) \<in> set (job_op_claims claim (fold run_job_op pre [])) \<and>
     i \<notin> fst ` set (run_claims job_op_claims run_job_op mid (fold run_job_op (pre @ [claim]) [])))"

definition waiting :: "uuid \<Rightarrow> job_op list \<Rightarrow> int \<Rightarrow> instant \<Rightarrow> bool" where
  "waiting i ops a t \<longleftrightarrow>
     i \<notin> fst ` set (run_claims job_op_claims run_job_op ops []) \<and> a = 0 \<and> (\<exists>op \<in> set ops. enqueued i t op) \<or>
     (\<exists>now mid. last_claimed i ops a now mid \<and> (\<exists>op \<in> set mid. handed_back i now t op))"

definition lease_inv :: "uuid \<Rightarrow> job_op list \<Rightarrow> worker_job option \<Rightarrow> bool" where
  "lease_inv i ops row \<longleftrightarrow> (\<forall>j. row = Some j \<longrightarrow>
     (wj_status j = JobPending \<longrightarrow> waiting i ops (wj_attempts j) (wj_run_at j)) \<and>
     (wj_status j = JobRunning \<longrightarrow> (\<exists>now mid. wj_claimed_at j = Some now \<and> last_claimed i ops (wj_attempts j) now mid)))"

lemma run_claims_snoc: "run_claims claims step (ops @ [op]) st = run_claims claims step ops st @ claims op (fold step ops st)"
  by (induction ops arbitrary: st) auto

lemma last_claimed_snoc:
  assumes "last_claimed i ops a now mid" and "i \<notin> fst ` set (job_op_claims op (fold run_job_op ops []))"
  shows "last_claimed i (ops @ [op]) a now (mid @ [op])"
  using assms unfolding last_claimed_def Let_def by (fastforce simp: run_claims_snoc)

lemma waiting_snoc:
  assumes "waiting i ops a t" and "i \<notin> fst ` set (job_op_claims op (fold run_job_op ops []))"
  shows "waiting i (ops @ [op]) a t"
  using assms(1) unfolding waiting_def
proof (elim disjE exE conjE bexE)
  fix op'
  assume "i \<notin> fst ` set (run_claims job_op_claims run_job_op ops [])" "a = 0" "op' \<in> set ops" "enqueued i t op'"
  with assms(2) show "i \<notin> fst ` set (run_claims job_op_claims run_job_op (ops @ [op]) []) \<and> a = 0 \<and> (\<exists>op \<in> set (ops @ [op]). enqueued i t op) \<or>
     (\<exists>now mid. last_claimed i (ops @ [op]) a now mid \<and> (\<exists>op \<in> set mid. handed_back i now t op))"
    by (auto simp: run_claims_snoc)
next
  fix now mid op'
  assume "last_claimed i ops a now mid" "op' \<in> set mid" "handed_back i now t op'"
  with last_claimed_snoc [OF _ assms(2)]
  show "i \<notin> fst ` set (run_claims job_op_claims run_job_op (ops @ [op]) []) \<and> a = 0 \<and> (\<exists>op \<in> set (ops @ [op]). enqueued i t op) \<or>
     (\<exists>now mid. last_claimed i (ops @ [op]) a now mid \<and> (\<exists>op \<in> set mid. handed_back i now t op))"
    by (intro disjI2 exI [of _ now] exI [of _ "mid @ [op]"]) auto
qed

lemma lease_inv_same:
  assumes "lease_inv i ops row" and "i \<notin> fst ` set (job_op_claims op (fold run_job_op ops []))"
    and "\<And>j'. row' = Some j' \<Longrightarrow> wj_status j' \<in> {JobPending, JobRunning} \<Longrightarrow> row = Some j'"
  shows "lease_inv i (ops @ [op]) row'"
  using assms(1,3) waiting_snoc [OF _ assms(2)] last_claimed_snoc [OF _ assms(2)] unfolding lease_inv_def by (metis insert_iff)

lemma claim_lease:
  assumes ok: "jobs_ok jobs" and jobs: "jobs = fold run_job_op ops []" and "lease_inv i ops (find_job i jobs)"
  shows "lease_inv i (ops @ [OpClaim now locked r limit]) (find_job i (run_job_op (OpClaim now locked r limit) jobs))"
proof (cases "find_job i jobs")
  case None
  then show ?thesis by (simp add: lease_inv_def claim_batch_alt find_job_map)
next
  case (Some j)
  then have j: "j \<in> set jobs" "wj_id j = i" using find_job_Some [OF ok] by auto
  show ?thesis
  proof (cases "i \<in> set (claim_victims now locked limit jobs)")
    case True
    have "(i, wj_attempts j + 1) \<in> set (job_op_claims (OpClaim now locked r limit) jobs)"
      using True j by (force simp: claim_batch_alt claimed_job_from_row_def)
    then have "last_claimed i (ops @ [OpClaim now locked r limit]) (wj_attempts j + 1) now []"
      unfolding last_claimed_def Let_def by (auto simp: jobs)
    then show ?thesis
      using Some True j by (auto simp: lease_inv_def claim_batch_alt find_job_map claim_row_def)
  next
    case False
    then have "i \<notin> fst ` set (job_op_claims (OpClaim now locked r limit) jobs)"
      by (auto simp: claim_batch_alt claimed_job_from_row_def)
    with Some False j assms show ?thesis
      by (intro lease_inv_same [OF assms(3)]) (auto simp: claim_batch_alt find_job_map)
  qed
qed

lemma update_running_lease:
  assumes "jobs = fold run_job_op ops []" and "lease_inv i ops (find_job i jobs)"
    and "run_job_op op jobs = update_running k f jobs" and "job_op_claims op jobs = []"
    and "\<And>j. wj_id (f j) = wj_id j" and "\<And>j. wj_attempts (f j) = wj_attempts j" and "\<And>j. wj_status (f j) \<noteq> JobRunning"
    and "\<And>j now. k = i \<Longrightarrow> wj_status (f j) = JobPending \<Longrightarrow> handed_back i now (wj_run_at (f j)) op"
  shows "lease_inv i (ops @ [op]) (find_job i (run_job_op op jobs))"
proof -
  have row: "find_job i (run_job_op op jobs) =
      map_option (\<lambda>j. if wj_id j = k \<and> wj_status j = JobRunning then f j else j) (find_job i jobs)"
    using assms(5) by (simp add: assms(3) update_running_def find_job_map)
  have un: "i \<notin> fst ` set (job_op_claims op (fold run_job_op ops []))" using assms(1,4) by simp
  show ?thesis
  proof (cases "\<exists>j. find_job i jobs = Some j \<and> wj_id j = k \<and> wj_status j = JobRunning")
    case True
    then obtain j where j: "find_job i jobs = Some j" "wj_id j = k" "wj_status j = JobRunning" by blast
    then have ki: "k = i" by (auto simp: find_job_def find_Some_iff)
    from assms(2) j obtain now mid where "last_claimed i ops (wj_attempts j) now mid" by (auto simp: lease_inv_def)
    then have last: "last_claimed i (ops @ [op]) (wj_attempts j) now (mid @ [op])" by (rule last_claimed_snoc [OF _ un])
    then have "waiting i (ops @ [op]) (wj_attempts j) (wj_run_at (f j))" if "wj_status (f j) = JobPending"
      using assms(8) [OF ki that, of now] unfolding waiting_def by (intro disjI2 exI [of _ now] exI [of _ "mid @ [op]"]) auto
    then show ?thesis using j assms(6,7) by (auto simp: row lease_inv_def)
  next
    case False
    then show ?thesis by (intro lease_inv_same [OF assms(2) un]) (auto simp: row split: if_splits)
  qed
qed

lemma requeue_lease:
  assumes "jobs = fold run_job_op ops []" and "lease_inv i ops (find_job i jobs)"
  shows "lease_inv i (ops @ [OpRequeueStale t n]) (find_job i (run_job_op (OpRequeueStale t n) jobs))"
proof -
  let ?op = "OpRequeueStale t n"
  let ?f = "\<lambda>j. j\<lparr>wj_status := JobPending, wj_run_at := t, wj_claimed_by := None, wj_claimed_at := None\<rparr>"
  have row: "find_job i (run_job_op ?op jobs) = map_option (\<lambda>j. if is_stale t n j then ?f j else j) (find_job i jobs)"
    by (simp add: REQUEUE_STALE_SQL_def find_job_map)
  have un: "i \<notin> fst ` set (job_op_claims ?op (fold run_job_op ops []))" by simp
  show ?thesis
  proof (cases "\<exists>j. find_job i jobs = Some j \<and> is_stale t n j")
    case True
    then obtain j now where j: "find_job i jobs = Some j" "is_stale t n j" "wj_claimed_at j = Some now" "now + from_secs n < t"
      by (auto simp: is_stale_def split: option.splits)
    then obtain mid where "last_claimed i ops (wj_attempts j) now mid" using assms(2) by (auto simp: lease_inv_def is_stale_def)
    then have "last_claimed i (ops @ [?op]) (wj_attempts j) now (mid @ [?op])" by (rule last_claimed_snoc [OF _ un])
    moreover have "handed_back i now t ?op" using j(4) by (simp add: handed_back_def)
    ultimately have "waiting i (ops @ [?op]) (wj_attempts j) t"
      unfolding waiting_def by (intro disjI2 exI [of _ now] exI [of _ "mid @ [?op]"]) auto
    then show ?thesis unfolding row lease_inv_def using j(1,2) by auto
  next
    case False
    then show ?thesis unfolding row by (intro lease_inv_same [OF assms(2) un]) auto
  qed
qed

lemma insert_lease:
  assumes "jobs = fold run_job_op ops []" and "lease_inv i ops (find_job i jobs)"
    and "run_job_op op jobs = jobs \<or> run_job_op op jobs = jobs @ [new_row now k job]" and "job_op_claims op jobs = []"
    and "enqueued k (wj_run_at (new_row now k job)) op" and "k \<notin> fst ` set (run_claims job_op_claims run_job_op ops [])"
  shows "lease_inv i (ops @ [op]) (find_job i (run_job_op op jobs))"
proof (cases "run_job_op op jobs = jobs @ [new_row now k job] \<and> k = i \<and> find_job i jobs = None")
  case True
  then have "waiting i (ops @ [op]) 0 (wj_run_at (new_row now k job))"
    using assms(1,4-6) by (auto simp: waiting_def run_claims_snoc)
  then show ?thesis using True by (simp add: lease_inv_def find_job_append) (simp add: new_row_def)
next
  case False
  have un: "i \<notin> fst ` set (job_op_claims op (fold run_job_op ops []))" using assms(1,4) by simp
  show ?thesis
    by (rule lease_inv_same [OF assms(2) un])
      (use assms(3) False in \<open>auto simp: find_job_append new_row_def split: option.splits if_splits\<close>)
qed

lemma prune_lease:
  assumes "jobs_ok jobs" and "jobs = fold run_job_op ops []" and "lease_inv i ops (find_job i jobs)"
  shows "lease_inv i (ops @ [OpPrune now n]) (find_job i (run_job_op (OpPrune now n) jobs))"
proof (rule lease_inv_same [OF assms(3)])
  fix j'
  assume "find_job i (run_job_op (OpPrune now n) jobs) = Some j'"
  then have "j' \<in> set jobs" "wj_id j' = i" by (auto simp: PRUNE_TERMINAL_SQL_def find_job_def find_Some_iff dest!: nth_mem)
  then show "find_job i jobs = Some j'" using find_job_Some [OF assms(1)] by blast
qed simp

lemma lease_step:
  assumes "jobs_ok jobs" and "jobs = fold run_job_op ops []" and "lease_inv i ops (find_job i jobs)"
    and "\<And>k. k \<in> set (job_op_creates op) \<Longrightarrow> k \<notin> fst ` set (run_claims job_op_claims run_job_op ops [])"
  shows "lease_inv i (ops @ [op]) (find_job i (run_job_op op jobs))"
proof (cases op)
  case (OpEnqueue now k job m)
  show ?thesis
    by (rule insert_lease [OF assms(2,3), of op now k job])
      (use OpEnqueue assms(4) in \<open>auto simp: ENQUEUE_SQL_def enqueued_def new_row_def\<close>)
next
  case (OpEnqueueIfIdle now k job m)
  show ?thesis
    by (rule insert_lease [OF assms(2,3), of op now k job])
      (use OpEnqueueIfIdle assms(4) in \<open>auto simp: ENQUEUE_IF_IDLE_SQL_def enqueued_def new_row_def\<close>)
next
  case (OpComplete now k)
  show ?thesis
    by (rule update_running_lease [OF assms(2,3), of op k "\<lambda>j. j\<lparr>wj_status := JobCompleted, wj_completed_at := Some now,
         wj_claimed_by := None, wj_claimed_at := None\<rparr>"])
      (use OpComplete in \<open>auto simp: COMPLETE_SQL_def\<close>)
next
  case (OpReschedule k t e)
  show ?thesis
    by (rule update_running_lease [OF assms(2,3), of op k "\<lambda>j. j\<lparr>wj_status := JobPending, wj_run_at := t, wj_last_error := Some e,
         wj_claimed_by := None, wj_claimed_at := None\<rparr>"])
      (use OpReschedule in \<open>auto simp: RESCHEDULE_SQL_def handed_back_def\<close>)
next
  case (OpDeadLetter now k e)
  show ?thesis
    by (rule update_running_lease [OF assms(2,3), of op k "\<lambda>j. j\<lparr>wj_status := JobDeadLetter, wj_dead_letter_at := Some now,
         wj_last_error := Some e, wj_claimed_by := None, wj_claimed_at := None\<rparr>"])
      (use OpDeadLetter in \<open>auto simp: DEAD_LETTER_SQL_def\<close>)
qed (use claim_lease [OF assms(1-3)] requeue_lease [OF assms(2,3)] prune_lease [OF assms(1-3)] in auto)

lemma lease_history:
  assumes "distinct (concat (map job_op_creates ops))"
  shows "jobs_ok (fold run_job_op ops []) \<and> lease_inv i ops (find_job i (fold run_job_op ops []))"
  using assms
proof (induction ops rule: rev_induct)
  case Nil
  then show ?case by (simp add: jobs_ok_def lease_inv_def find_job_def)
next
  case (snoc op ops)
  have fresh: "job_ledger.fresh_creates ops []" and ok0: "jobs_ok []"
    using snoc.prems by (auto simp: job_ledger.fresh_creates_def jobs_ok_def job_attempts_def find_job_def)
  have created: "k \<in> set (concat (map job_op_creates ops))" if "k \<in> fst ` set (run_claims job_op_claims run_job_op ops [])" for k
    using that job_ledger.run_claims_above [OF ok0 fresh] by (fastforce simp: job_attempts_def find_job_def)
  have none: "job_attempts (fold run_job_op ops []) k = None" if "k \<in> set (job_op_creates op)" for k
    using that snoc.prems job_ledger.run_not_created [OF ok0 fresh, of k] by (auto simp: job_attempts_def find_job_def)
  have "jobs_ok (run_job_op op (fold run_job_op ops []))"
    using snoc none by (intro job_ledger.well_formed_step) auto
  moreover have "lease_inv i (ops @ [op]) (find_job i (run_job_op op (fold run_job_op ops [])))"
    using snoc created by (intro lease_step) auto
  ultimately show ?case by simp
qed

section \<open>Properties\<close>

text \<open>
  C15: In every interleaving of the statements of all replicas (enqueues with fresh ids, claims,
  completions, reschedules, dead letters, stale requeues, prunes) a job is handed to one replica at a time. Each
  claim finds the job unlocked and carries an attempt number never handed out before. It is the first claim of the job, with
  attempt number 1, after an enqueue whose \<open>run_at\<close> has come; or it is the next attempt after the last claim of the
  job, and between the two the job was handed back, by a reschedule to a time that has come or by a requeue of stale
  claims at a time when the last claim was older than the stale limit.
\<close>

theorem job_claims_exclusive:
  assumes "distinct (concat (map job_op_creates ops))"
    and "(i, a) \<in> set (job_op_claims (OpClaim now locked r limit) (fold run_job_op ops []))"
  shows "\<not> locked i \<and> (i, a) \<notin> set (run_claims job_op_claims run_job_op ops []) \<and> (\<exists>t \<le> now. waiting i ops (a - 1) t)"
proof -
  have ok: "jobs_ok (fold run_job_op ops [])" and inv: "lease_inv i ops (find_job i (fold run_job_op ops []))"
    using lease_history [OF assms(1)] by blast+
  from assms(2) obtain j where j: "j \<in> set (fold run_job_op ops [])" "wj_id j = i" "a = wj_attempts j + 1"
      "i \<in> set (claim_victims now locked limit (fold run_job_op ops []))"
    by (rule claims_in_jobs) auto
  have due: "is_due now locked j" using victims_rows [OF ok j(1)] j(2,4) by (auto dest: in_set_takeD)
  have "find_job i (fold run_job_op ops []) = Some j" using find_job_Some [OF ok] j(1,2) by blast
  with inv due j(2,3) have "\<not> locked i" "waiting i ops (a - 1) (wj_run_at j)" "wj_run_at j \<le> now"
    by (auto simp: lease_inv_def is_due_def)
  moreover have "distinct (run_claims job_op_claims run_job_op (ops @ [OpClaim now locked r limit]) [])"
    using assms(1) by (intro job_ledger.attempt_claimed_once) (auto simp: job_ledger.fresh_creates_def jobs_ok_def job_attempts_def find_job_def)
  ultimately show ?thesis using assms(2) by (auto simp: run_claims_snoc)
qed

definition sample_insert :: worker_job_insert where
  "sample_insert = \<lparr>ji_job_name = ''embedding-retry'', ji_payload = JNull, ji_run_at = None, ji_max_attempts = 5\<rparr>"

theorem job_claims_exclusive_witness:
  "\<exists>t \<le> 3000000000001. waiting 7 [OpEnqueue 1 7 sample_insert 9, OpClaim 2 (\<lambda>_. False) 100 4, OpRequeueStale 3000000000000 1] 1 t"
proof -
  let ?ops = "[OpEnqueue 1 7 sample_insert 9, OpClaim 2 (\<lambda>_. False) 100 4, OpRequeueStale 3000000000000 1]"
  have "(7, 2) \<in> set (job_op_claims (OpClaim 3000000000001 (\<lambda>_. False) 200 4) (fold run_job_op ?ops []))"
    by (simp add: ENQUEUE_SQL_def PENDING_DEPTH_SQL_def claim_batch_alt claim_victims_def new_row_def sample_insert_def
        REQUEUE_STALE_SQL_def is_stale_def from_secs_def claim_row_def claimed_job_from_row_def)
  from job_claims_exclusive [OF _ this] show ?thesis by simp
qed

text \<open>
  A claim takes as many due, unlocked, pending jobs as there are, up to the limit, oldest
  first; each becomes running under the claiming replica with one more attempt, and no other
  row changes.
\<close>

theorem claim_batch_exact:
  assumes "jobs_ok jobs" and "CLAIM_BATCH_SQL now locked r limit jobs = (claimed, jobs')"
  shows "length claimed = min limit (length (filter (is_due now locked) jobs)) \<and>
    (\<forall>j \<in> set jobs. \<exists>j'. find_job (wj_id j) jobs' = Some j' \<and>
       (if wj_id j \<in> cj_id ` set claimed
        then is_due now locked j \<and>
          j' = j\<lparr>wj_status := JobRunning, wj_attempts := wj_attempts j + 1,
                 wj_claimed_by := Some r, wj_claimed_at := Some now\<rparr> \<and>
          (\<forall>k \<in> set jobs. is_due now locked k \<longrightarrow> wj_id k \<notin> cj_id ` set claimed \<longrightarrow>
             wj_run_at j \<le> wj_run_at k)
        else j' = j))"
proof -
  let ?vs = "claim_victims now locked limit jobs"
  have ids: "wj_id j \<in> cj_id ` set claimed \<longleftrightarrow> wj_id j \<in> set ?vs" if "j \<in> set jobs" for j
    using assms(2) that by (auto simp: claim_batch_alt claimed_job_from_row_def image_iff)
  have jobs': "jobs' = map (\<lambda>j. if wj_id j \<in> set ?vs then claim_row now r j else j) jobs"
    using assms(2) by (simp add: claim_batch_alt)
  have found: "find_job (wj_id j) jobs' = Some (if wj_id j \<in> set ?vs then claim_row now r j else j)"
    if "j \<in> set jobs" for j
    using that assms(1) find_job_Some [OF assms(1), of "wj_id j" j] by (simp add: jobs' find_job_map)
  have due: "is_due now locked j" if "j \<in> set jobs" "wj_id j \<in> set ?vs" for j
    using that victims_rows [OF assms(1) that(1)] by (auto dest: in_set_takeD)
  have "length claimed = min limit (length (filter (is_due now locked) jobs))"
    using claimed_length [OF assms(1), of now locked r limit] assms(2) by simp
  then show ?thesis
    using found due ids oldest_first [OF assms(1)] by (simp add: claim_row_def)
qed

theorem claim_batch_exact_witness:
  "length (fst (CLAIM_BATCH_SQL 5 (\<lambda>_. False) 9 1 [new_row 2 7 sample_insert, new_row 3 8 sample_insert])) = 1"
proof -
  have ok: "jobs_ok [new_row 2 7 sample_insert, new_row 3 8 sample_insert]"
    by (simp add: jobs_ok_def new_row_def)
  show ?thesis
    using claim_batch_exact [OF ok, of 5 "\<lambda>_. False" 9 1, OF prod.collapse [symmetric]]
    by (simp add: is_due_def new_row_def sample_insert_def)
qed

text \<open>
  The predicate of the terminal statements checks the status of a row and not its owner, so a
  replica whose claim was requeued as stale still completes the row another replica now runs.
\<close>

lemma stale_owner_completes:
  "\<exists>ops jobs. jobs = fold run_job_op ops [] \<and>
     ops = [OpEnqueue 0 7 sample_insert 9, OpClaim 1 (\<lambda>_. False) 100 4,
            OpRequeueStale 2000000002 1, OpClaim 2000000003 (\<lambda>_. False) 200 4, OpComplete 2000000004 7] \<and>
     map_option wj_claimed_by (find_job 7 (fold run_job_op (butlast ops) [])) = Some (Some 200) \<and>
     map_option wj_status (find_job 7 jobs) = Some JobCompleted"
  by (simp add: ENQUEUE_SQL_def PENDING_DEPTH_SQL_def claim_batch_alt claim_victims_def new_row_def
      sample_insert_def REQUEUE_STALE_SQL_def is_stale_def from_secs_def COMPLETE_SQL_def update_running_def
      find_job_def claim_row_def)

end
