(* ===== verification/Worker_Queue.thy ===== *)
theory Worker_Queue
  imports Job_Store
begin

text \<open>
  The background job queue, \<open>src/src/infra/workers/queue.rs\<close>, over the trait
  \<open>WorkerJobRepository\<close>, and its PostgreSQL implementation from \<open>Job_Store\<close>.

  A repository is a record of functions over an arbitrary state, each of which may fail. The
  behaviour of the environment during one poll (the stop flag, the clock, what the handler of
  each claimed job does and how long it takes) is the record \<open>tick_env\<close>. Metrics and log lines
  are left out.
\<close>

section \<open>Settings and helpers\<close>

record worker_settings =
  max_concurrent_jobs :: nat
  retry_base_delay_seconds :: nat
  retry_max_delay_seconds :: nat
  dead_letter_retention_hours :: nat
  queue_stale_claim_seconds :: nat
  queue_job_timeout_seconds :: nat
  queue_max_pending_jobs :: int

definition DEFAULT_MAX_ATTEMPTS :: int where "DEFAULT_MAX_ATTEMPTS = 5"

definition DISPATCH_BUDGET_PERCENT_OF_STALE_CLAIM :: nat where
  "DISPATCH_BUDGET_PERCENT_OF_STALE_CLAIM = 80"

definition WORKER_JOB_NAMES :: "string list" where
  "WORKER_JOB_NAMES =
     [''memory-extraction-retry'', ''conversation-summarization-retry'', ''embedding-retry'',
      ''document-ingestion-retry'', ''latency-stats-aggregation'', ''oauth-token-refresh'',
      ''provider-health-check'', ''retention-cleanup'', ''runtime-cache-warmer'']"

definition is_known_job_name :: "string \<Rightarrow> bool" where
  "is_known_job_name name = (name \<in> set WORKER_JOB_NAMES)"

text \<open>\<open>u64::checked_shl\<close>: the shift is refused from the width on; bits shifted out are lost.\<close>

definition checked_shl_u64 :: "nat \<Rightarrow> nat \<Rightarrow> nat option" where
  "checked_shl_u64 x n = (if n < 64 then Some ((x * 2 ^ n) mod 2 ^ 64) else None)"

definition retry_delay :: "int \<Rightarrow> nat \<Rightarrow> nat \<Rightarrow> duration" where
  "retry_delay attempts base_seconds max_seconds =
     (let base = max base_seconds 1;
          maximum = max max_seconds base;
          exponent = nat (max attempts 1 - 1);
          scaled = (case checked_shl_u64 base exponent of
                      None \<Rightarrow> maximum
                    | Some v \<Rightarrow> if v \<le> maximum then v else maximum)
      in from_secs scaled)"

definition attempts_exhausted :: "int \<Rightarrow> int \<Rightarrow> bool" where
  "attempts_exhausted attempts max_attempts \<longleftrightarrow> max max_attempts 1 \<le> attempts"

definition queue_i64_max :: int where "queue_i64_max = 2 ^ 63 - 1"

definition claim_batch_size :: "worker_settings \<Rightarrow> nat" where
  "claim_batch_size st = nat (min queue_i64_max (int (max (max_concurrent_jobs st) 1)))"

definition dispatch_budget :: "worker_settings \<Rightarrow> duration" where
  "dispatch_budget st =
     (let stale = max (queue_stale_claim_seconds st) 1
      in from_secs (max (sat_mul u64_max stale DISPATCH_BUDGET_PERCENT_OF_STALE_CLAIM div 100) 1))"

definition job_timeout :: "worker_settings \<Rightarrow> duration" where
  "job_timeout st = from_secs (max (queue_job_timeout_seconds st) 1)"

section \<open>Dispatching one job\<close>

text \<open>What a handler does: return after some time, panic after some time, or never finish.\<close>

datatype handler_run =
    HandlerReturns duration "string + unit"
  | HandlerPanics duration
  | HandlerHangs

definition dispatch_guarded :: "claimed_job \<Rightarrow> duration \<Rightarrow> handler_run \<Rightarrow> string + unit" where
  "dispatch_guarded job budget run =
     (let elapsed = Err (''the handler for job '' @ cj_job_name job @ '' exceeded its '' @
            show_nat (budget div 1000000000) @ ''s slice of this poll's dispatch budget'')
      in case run of
           HandlerReturns d r \<Rightarrow> if d \<le> budget then r else elapsed
         | HandlerPanics d \<Rightarrow>
             if d \<le> budget then
               Err (''the handler for job '' @ cj_job_name job @
                 '' panicked; see the process log for the panic itself'')
             else elapsed
         | HandlerHangs \<Rightarrow> elapsed)"

section \<open>The repository\<close>

record 'r job_repository =
  repo_enqueue :: "instant \<Rightarrow> uuid \<Rightarrow> worker_job_insert \<Rightarrow> int \<Rightarrow> 'r \<Rightarrow> (app_error + uuid option) \<times> 'r"
  repo_enqueue_if_idle :: "instant \<Rightarrow> uuid \<Rightarrow> worker_job_insert \<Rightarrow> int \<Rightarrow> 'r \<Rightarrow> (app_error + uuid option) \<times> 'r"
  repo_claim_batch :: "instant \<Rightarrow> (uuid \<Rightarrow> bool) \<Rightarrow> uuid \<Rightarrow> nat \<Rightarrow> 'r \<Rightarrow> (app_error + claimed_job list) \<times> 'r"
  repo_complete :: "instant \<Rightarrow> uuid \<Rightarrow> 'r \<Rightarrow> (app_error + unit) \<times> 'r"
  repo_reschedule :: "uuid \<Rightarrow> instant \<Rightarrow> string \<Rightarrow> 'r \<Rightarrow> (app_error + unit) \<times> 'r"
  repo_dead_letter :: "instant \<Rightarrow> uuid \<Rightarrow> string \<Rightarrow> 'r \<Rightarrow> (app_error + unit) \<times> 'r"
  repo_requeue_stale :: "instant \<Rightarrow> nat \<Rightarrow> 'r \<Rightarrow> (app_error + nat) \<times> 'r"
  repo_prune_terminal :: "instant \<Rightarrow> nat \<Rightarrow> 'r \<Rightarrow> (app_error + nat) \<times> 'r"

definition pg_repository :: "worker_job list job_repository" where
  "pg_repository =
     \<lparr>repo_enqueue = (\<lambda>now i job m jobs. case ENQUEUE_SQL now i job m jobs of (r, jobs') \<Rightarrow> (Ok r, jobs')),
      repo_enqueue_if_idle = (\<lambda>now i job m jobs. case ENQUEUE_IF_IDLE_SQL now i job m jobs of (r, jobs') \<Rightarrow> (Ok r, jobs')),
      repo_claim_batch = (\<lambda>now locked r limit jobs. case CLAIM_BATCH_SQL now locked r limit jobs of (c, jobs') \<Rightarrow> (Ok c, jobs')),
      repo_complete = (\<lambda>now i jobs. (Ok (), COMPLETE_SQL now i jobs)),
      repo_reschedule = (\<lambda>i t e jobs. (Ok (), RESCHEDULE_SQL i t e jobs)),
      repo_dead_letter = (\<lambda>now i e jobs. (Ok (), DEAD_LETTER_SQL now i e jobs)),
      repo_requeue_stale = (\<lambda>now n jobs. case REQUEUE_STALE_SQL now n jobs of (k, jobs') \<Rightarrow> (Ok k, jobs')),
      repo_prune_terminal = (\<lambda>now n jobs. case PRUNE_TERMINAL_SQL now n jobs of (k, jobs') \<Rightarrow> (Ok k, jobs'))\<rparr>"

section \<open>Enqueueing\<close>

definition unknown_job :: "(string \<Rightarrow> string) \<Rightarrow> string \<Rightarrow> app_error" where
  "unknown_job debug_str job_name =
     Internal (''worker queue asked to enqueue unknown job '' @ debug_str job_name @
       ''; declare it in WORKER_JOB_NAMES in src/infra/workers.rs'')"

definition queue_enqueue ::
    "'r job_repository \<Rightarrow> worker_settings \<Rightarrow> (string \<Rightarrow> string) \<Rightarrow> instant \<Rightarrow> uuid \<Rightarrow> string \<Rightarrow> json \<Rightarrow> instant option
      \<Rightarrow> 'r \<Rightarrow> (app_error + uuid) \<times> 'r" where
  "queue_enqueue repo st debug_str now i job_name payload run_at r =
     (if \<not> is_known_job_name job_name then (Err (unknown_job debug_str job_name), r)
      else
        case repo_enqueue repo now i
            \<lparr>ji_job_name = job_name, ji_payload = payload, ji_run_at = run_at,
             ji_max_attempts = DEFAULT_MAX_ATTEMPTS\<rparr> (queue_max_pending_jobs st) r of
          (Err e, r') \<Rightarrow> (Err e, r')
        | (Ok (Some j), r') \<Rightarrow> (Ok j, r')
        | (Ok None, r') \<Rightarrow>
            (Err (coded 429 ''worker_queue_capacity_exceeded'' ''the background job queue is at capacity''), r'))"

definition queue_enqueue_periodic ::
    "'r job_repository \<Rightarrow> worker_settings \<Rightarrow> (string \<Rightarrow> string) \<Rightarrow> instant \<Rightarrow> uuid \<Rightarrow> string
      \<Rightarrow> 'r \<Rightarrow> (app_error + uuid option) \<times> 'r" where
  "queue_enqueue_periodic repo st debug_str now i job_name r =
     (if \<not> is_known_job_name job_name then (Err (unknown_job debug_str job_name), r)
      else repo_enqueue_if_idle repo now i
             \<lparr>ji_job_name = job_name, ji_payload = JNull, ji_run_at = None,
              ji_max_attempts = DEFAULT_MAX_ATTEMPTS\<rparr> (queue_max_pending_jobs st) r)"

section \<open>One poll\<close>

record queue_tick_outcome =
  qt_reclaimed :: nat
  qt_claimed :: nat
  qt_completed :: nat
  qt_rescheduled :: nat
  qt_dead_lettered :: nat
  qt_pruned :: nat
  qt_undispatched :: nat

definition default_outcome :: queue_tick_outcome where
  "default_outcome = \<lparr>qt_reclaimed = 0, qt_claimed = 0, qt_completed = 0, qt_rescheduled = 0,
     qt_dead_lettered = 0, qt_pruned = 0, qt_undispatched = 0\<rparr>"

record job_env =
  je_stop :: bool
  je_clock :: instant
  je_run :: handler_run
  je_now :: instant

record tick_env =
  te_requeue_now :: instant
  te_claim_now :: instant
  te_locked :: "uuid \<Rightarrow> bool"
  te_start :: instant
  te_job :: "nat \<Rightarrow> job_env"
  te_prune_now :: instant

definition settle_failure ::
    "'r job_repository \<Rightarrow> worker_settings \<Rightarrow> instant \<Rightarrow> claimed_job \<Rightarrow> string \<Rightarrow> queue_tick_outcome \<Rightarrow> 'r
      \<Rightarrow> (app_error + queue_tick_outcome) \<times> 'r" where
  "settle_failure repo st now job err outcome r =
     (if attempts_exhausted (cj_attempts job) (cj_max_attempts job) then
        case repo_dead_letter repo now (cj_id job) err r of
          (Err e, r') \<Rightarrow> (Err e, r')
        | (Ok _, r') \<Rightarrow> (Ok (outcome\<lparr>qt_dead_lettered := qt_dead_lettered outcome + 1\<rparr>), r')
      else
        let delay = retry_delay (cj_attempts job) (retry_base_delay_seconds st) (retry_max_delay_seconds st);
            run_at = now + delay
        in case repo_reschedule repo (cj_id job) run_at err r of
             (Err e, r') \<Rightarrow> (Err e, r')
           | (Ok _, r') \<Rightarrow> (Ok (outcome\<lparr>qt_rescheduled := qt_rescheduled outcome + 1\<rparr>), r'))"

definition settle_dispatch ::
    "'r job_repository \<Rightarrow> worker_settings \<Rightarrow> instant \<Rightarrow> claimed_job \<Rightarrow> string + unit \<Rightarrow> queue_tick_outcome \<Rightarrow> 'r
      \<Rightarrow> (app_error + queue_tick_outcome) \<times> 'r" where
  "settle_dispatch repo st now job result outcome r =
     (case result of
        Ok _ \<Rightarrow>
          (case repo_complete repo now (cj_id job) r of
             (Err e, r') \<Rightarrow> (Err e, r')
           | (Ok _, r') \<Rightarrow> (Ok (outcome\<lparr>qt_completed := qt_completed outcome + 1\<rparr>), r'))
      | Err msg \<Rightarrow> settle_failure repo st now job msg outcome r)"

fun dispatch_loop ::
    "'r job_repository \<Rightarrow> worker_settings \<Rightarrow> (nat \<Rightarrow> job_env) \<Rightarrow> instant \<Rightarrow> nat \<Rightarrow> claimed_job list
      \<Rightarrow> queue_tick_outcome \<Rightarrow> 'r \<Rightarrow> (app_error + queue_tick_outcome) \<times> 'r" where
  "dispatch_loop repo st env deadline dispatched [] outcome r = (Ok outcome, r)"
| "dispatch_loop repo st env deadline dispatched (job # jobs) outcome r =
     (let e = env dispatched;
          remaining = deadline - je_clock e
      in if je_stop e \<or> remaining = 0
         then (Ok (outcome\<lparr>qt_undispatched := length (job # jobs)\<rparr>), r)
         else
           case settle_dispatch repo st (je_now e) job
                  (dispatch_guarded job (min (job_timeout st) remaining) (je_run e)) outcome r of
             (Err er, r') \<Rightarrow> (Err er, r')
           | (Ok outcome', r') \<Rightarrow> dispatch_loop repo st env deadline (Suc dispatched) jobs outcome' r')"

definition run_once_until ::
    "'r job_repository \<Rightarrow> worker_settings \<Rightarrow> uuid \<Rightarrow> tick_env \<Rightarrow> 'r
      \<Rightarrow> (app_error + queue_tick_outcome) \<times> 'r" where
  "run_once_until repo st replica_id env r =
     (case repo_requeue_stale repo (te_requeue_now env)
             (nat (min queue_i64_max (int (queue_stale_claim_seconds st)))) r of
        (Err e, r1) \<Rightarrow> (Err e, r1)
      | (Ok reclaimed, r1) \<Rightarrow>
      case repo_claim_batch repo (te_claim_now env) (te_locked env) replica_id (claim_batch_size st) r1 of
        (Err e, r2) \<Rightarrow> (Err e, r2)
      | (Ok claimed, r2) \<Rightarrow>
      case dispatch_loop repo st (te_job env) (te_start env + dispatch_budget st) 0 claimed
             (default_outcome\<lparr>qt_reclaimed := reclaimed, qt_claimed := length claimed\<rparr>) r2 of
        (Err e, r3) \<Rightarrow> (Err e, r3)
      | (Ok outcome, r3) \<Rightarrow>
      case repo_prune_terminal repo (te_prune_now env)
             (nat (min (2 ^ 31 - 1) (int (max (dead_letter_retention_hours st) 1)))) r3 of
        (Err e, r4) \<Rightarrow> (Err e, r4)
      | (Ok pruned, r4) \<Rightarrow> (Ok (outcome\<lparr>qt_pruned := pruned\<rparr>), r4))"

section \<open>What becomes of a claimed job\<close>

text \<open>
  The fate of the \<open>n\<close>-th job of a poll. It is reached if the stop flag was down and the deadline ahead at this job and
  at all before it. Its handler then has a slice of time, and succeeds only by returning success within it. A job that does
  not succeed is retried as long as it has attempts left.
\<close>

datatype job_fate = FateUndispatched | FateCompleted | FateRetried | FateDead

definition reached :: "(nat \<Rightarrow> job_env) \<Rightarrow> instant \<Rightarrow> nat \<Rightarrow> bool" where
  "reached env deadline n \<longleftrightarrow> (\<forall>m \<in> {..n}. \<not> je_stop (env m) \<and> je_clock (env m) < deadline)"

definition handler_slice :: "worker_settings \<Rightarrow> instant \<Rightarrow> job_env \<Rightarrow> duration" where
  "handler_slice st deadline e = min (job_timeout st) (deadline - je_clock e)"

definition succeeds :: "duration \<Rightarrow> handler_run \<Rightarrow> bool" where
  "succeeds time run \<longleftrightarrow> (\<exists>d \<in> {..time}. run = HandlerReturns d (Ok ()))"

definition fate_of :: "worker_settings \<Rightarrow> (nat \<Rightarrow> job_env) \<Rightarrow> instant \<Rightarrow> nat \<Rightarrow> claimed_job \<Rightarrow> job_fate" where
  "fate_of st env deadline n c =
     (if \<not> reached env deadline n then FateUndispatched
      else if succeeds (handler_slice st deadline (env n)) (je_run (env n)) then FateCompleted
      else if cj_attempts c < cj_max_attempts c \<or> cj_attempts c < 1 then FateRetried
      else FateDead)"



fun fates :: "worker_settings \<Rightarrow> (nat \<Rightarrow> job_env) \<Rightarrow> instant \<Rightarrow> nat \<Rightarrow> claimed_job list \<Rightarrow> job_fate list" where
  "fates st env deadline n [] = []"
| "fates st env deadline n (c # cs) = fate_of st env deadline n c # fates st env deadline (Suc n) cs"







lemma length_fates [simp]: "length (fates st env deadline n cs) = length cs"
  by (induction cs arbitrary: n) auto







lemma pg_calls:
  "repo_requeue_stale pg_repository now n js = (Ok (fst (REQUEUE_STALE_SQL now n js)), snd (REQUEUE_STALE_SQL now n js))"
  "repo_claim_batch pg_repository now l r k js = (Ok (fst (CLAIM_BATCH_SQL now l r k js)), snd (CLAIM_BATCH_SQL now l r k js))"
  "repo_prune_terminal pg_repository now n js = (Ok (fst (PRUNE_TERMINAL_SQL now n js)), snd (PRUNE_TERMINAL_SQL now n js))"
  by (simp_all add: pg_repository_def split: prod.splits)


section \<open>The retry budget\<close>

definition budget_ok :: "worker_job list \<Rightarrow> bool" where
  "budget_ok jobs \<longleftrightarrow> (\<forall>j \<in> set jobs.
     (wj_status j = JobPending \<longrightarrow> wj_attempts j < max (wj_max_attempts j) 1) \<and>
     (wj_status j = JobRunning \<longrightarrow> wj_attempts j \<le> max (wj_max_attempts j) 1))"

definition row_of :: "worker_job list \<Rightarrow> claimed_job \<Rightarrow> bool" where
  "row_of jobs c \<longleftrightarrow> (\<forall>j \<in> set jobs. wj_id j = cj_id c \<longrightarrow>
     wj_attempts j = cj_attempts c \<and> wj_max_attempts j = cj_max_attempts c)"

lemma update_running_keeps:
  assumes "\<And>j. wj_id (f j) = wj_id j \<and> wj_attempts (f j) = wj_attempts j \<and> wj_max_attempts (f j) = wj_max_attempts j"
    and "row_of jobs c"
  shows "row_of (update_running i f jobs) c"
  using assms by (auto simp: row_of_def update_running_def)

lemma update_running_budget:
  assumes "budget_ok jobs"
    and "\<And>j. j \<in> set jobs \<Longrightarrow> wj_id j = i \<Longrightarrow> wj_status j = JobRunning \<Longrightarrow>
      wj_status (f j) \<noteq> JobRunning \<and> (wj_status (f j) = JobPending \<longrightarrow> wj_attempts (f j) < max (wj_max_attempts (f j)) 1)"
  shows "budget_ok (update_running i f jobs)"
  using assms by (auto simp: budget_ok_def update_running_def)

lemmas terminal_sql = COMPLETE_SQL_def RESCHEDULE_SQL_def DEAD_LETTER_SQL_def

lemma pg_settle_dispatch:
  assumes "budget_ok jobs" and "row_of jobs job"
    and "settle_dispatch pg_repository st now job res out jobs = (r, jobs')"
  shows "is_ok r" and "budget_ok jobs'" and "row_of jobs c \<Longrightarrow> row_of jobs' c"
proof -
  consider (terminal) f where "jobs' = update_running (cj_id job) f jobs" "is_ok r"
      "\<And>j. wj_status (f j) \<notin> {JobRunning, JobPending}"
      "\<And>j. wj_id (f j) = wj_id j \<and> wj_attempts (f j) = wj_attempts j \<and> wj_max_attempts (f j) = wj_max_attempts j"
    | (retry) f where "jobs' = update_running (cj_id job) f jobs" "is_ok r"
      "\<And>j. wj_status (f j) = JobPending" "cj_attempts job < max (cj_max_attempts job) 1"
      "\<And>j. wj_id (f j) = wj_id j \<and> wj_attempts (f j) = wj_attempts j \<and> wj_max_attempts (f j) = wj_max_attempts j"
    using assms(3)
    by (cases res)
      (auto simp: settle_dispatch_def settle_failure_def pg_repository_def terminal_sql Let_def
        attempts_exhausted_def split: if_splits)
  note cases = this
  from cases show "is_ok r" by cases
  from cases show "budget_ok jobs'"
    by cases (use assms(1,2) in \<open>auto simp: row_of_def intro!: update_running_budget\<close>)
  from cases show "row_of jobs c \<Longrightarrow> row_of jobs' c"
    by cases (auto intro: update_running_keeps)
qed

lemma pg_dispatch_loop:
  assumes "budget_ok jobs" and "\<forall>c \<in> set claimed. row_of jobs c"
  shows "\<exists>out' jobs'. dispatch_loop pg_repository st env deadline n claimed out jobs = (Ok out', jobs') \<and> budget_ok jobs'"
  using assms
proof (induction claimed arbitrary: n out jobs)
  case (Cons job claimed)
  show ?case
  proof (cases "je_stop (env n) \<or> deadline - je_clock (env n) = 0")
    case True
    with Cons.prems show ?thesis by auto
  next
    case False
    obtain r jobs1 where s: "settle_dispatch pg_repository st (je_now (env n)) job
        (dispatch_guarded job (min (job_timeout st) (deadline - je_clock (env n))) (je_run (env n))) out jobs = (r, jobs1)"
      by fastforce
    note step = pg_settle_dispatch [OF Cons.prems(1) _ s]
    have row: "row_of jobs job" using Cons.prems(2) by simp
    obtain out1 where "r = Ok out1" using step(1) [OF row] by (auto simp: is_ok_iff)
    moreover have "\<forall>c \<in> set claimed. row_of jobs1 c" using step(3) [OF row] Cons.prems(2) by simp
    ultimately show ?thesis
      using Cons.IH [OF step(2) [OF row]] False s by (simp add: Let_def)
  qed
qed simp

lemma claim_budget:
  assumes "jobs_ok jobs" and "budget_ok jobs" and "CLAIM_BATCH_SQL now locked r limit jobs = (claimed, jobs')"
  shows "budget_ok jobs'" and "\<forall>c \<in> set claimed. row_of jobs' c"
proof -
  let ?vs = "claim_victims now locked limit jobs"
  have jobs': "jobs' = map (\<lambda>j. if wj_id j \<in> set ?vs then claim_row now r j else j) jobs"
    and claimed: "claimed = map (claimed_job_from_row \<circ> claim_row now r) (filter (\<lambda>j. wj_id j \<in> set ?vs) jobs)"
    using assms(3) by (simp_all add: claim_batch_alt)
  have "wj_status j = JobPending" if "j \<in> set jobs" "wj_id j \<in> set ?vs" for j
    using that victims_rows [OF assms(1) that(1)] by (auto simp: is_due_def dest: in_set_takeD)
  then show "budget_ok jobs'"
    using assms(2) by (fastforce simp: budget_ok_def jobs' claim_row_def)
  show "\<forall>c \<in> set claimed. row_of jobs' c"
    using jobs_ok_same_id [OF assms(1)]
    by (fastforce simp: row_of_def jobs' claimed claimed_job_from_row_def claim_row_def)
qed

section \<open>Backoff\<close>

lemma retry_delay_cases:
  "retry_delay attempts base maximum =
     from_secs (let b = max base 1; m = max maximum b; e = nat (max attempts 1 - 1)
                in if e < 64 then min m ((b * 2 ^ e) mod 2 ^ 64) else m)"
proof -
  have "(case (if c then Some v else None) of None \<Rightarrow> m | Some v \<Rightarrow> if v \<le> m then v else m) =
      (if c then min m v else m)" for c and v m :: nat
    by auto
  then show ?thesis unfolding retry_delay_def checked_shl_u64_def Let_def by (rule arg_cong)
qed

text \<open>
  \<open>checked_shl\<close> refuses only a shift by the width or more; bits shifted out of the word are lost
  before the comparison with the maximum, so a large attempt number can wait no time at all.
\<close>

lemma retry_delay_shifted_out: "retry_delay 64 2 300 = 0"
  by (simp add: retry_delay_cases from_secs_def)

section \<open>Properties\<close>


definition sample_settings :: worker_settings where
  "sample_settings = \<lparr>max_concurrent_jobs = 2, retry_base_delay_seconds = 5, retry_max_delay_seconds = 300,
     dead_letter_retention_hours = 72, queue_stale_claim_seconds = 300, queue_job_timeout_seconds = 60,
     queue_max_pending_jobs = 100\<rparr>"

definition sample_tick :: tick_env where
  "sample_tick = \<lparr>te_requeue_now = 10, te_claim_now = 10, te_locked = (\<lambda>_. False), te_start = 10,
     te_job = (\<lambda>n. \<lparr>je_stop = False, je_clock = 10, je_run = (if n = 0 then HandlerReturns 4 (Ok ()) else HandlerHangs), je_now = 20\<rparr>),
     te_prune_now = 30\<rparr>"


text \<open>
  A poll on the PostgreSQL repository always returns, and keeps the retry budget: as long
  as no claim went stale, a pending job has attempts left and a running one is within its
  budget, so a job that keeps failing is claimed at most \<open>max_attempts\<close> times.
\<close>

theorem queue_poll_keeps_budget:
  assumes "jobs_ok jobs" and "budget_ok jobs"
    and "\<forall>j \<in> set jobs. \<not> is_stale (te_requeue_now env) (queue_stale_claim_seconds st) j"
    and "queue_stale_claim_seconds st \<le> 2 ^ 63 - 1"
  shows "\<exists>out jobs'. run_once_until pg_repository st replica env jobs = (Ok out, jobs') \<and> budget_ok jobs'"
proof -
  have "nat (min queue_i64_max (int (queue_stale_claim_seconds st))) = queue_stale_claim_seconds st"
    using assms(4) by (simp add: queue_i64_max_def)
  moreover have "map (\<lambda>j. if is_stale (te_requeue_now env) (queue_stale_claim_seconds st) j
      then j\<lparr>wj_status := JobPending, wj_run_at := te_requeue_now env, wj_claimed_by := None, wj_claimed_at := None\<rparr>
      else j) jobs = jobs"
    using assms(3) by (intro map_idI) simp
  ultimately have requeue: "REQUEUE_STALE_SQL (te_requeue_now env)
      (nat (min queue_i64_max (int (queue_stale_claim_seconds st)))) jobs = (0, jobs)"
    using assms(3) by (simp add: REQUEUE_STALE_SQL_def filter_empty_conv)
  obtain claimed jobs1 where claim: "CLAIM_BATCH_SQL (te_claim_now env) (te_locked env) replica
      (claim_batch_size st) jobs = (claimed, jobs1)" by fastforce
  note cb = claim_budget [OF assms(1,2) claim]
  from pg_dispatch_loop [OF cb] obtain out jobs2 where
    loop: "dispatch_loop pg_repository st (te_job env) (te_start env + dispatch_budget st) 0 claimed
        (default_outcome\<lparr>qt_reclaimed := 0, qt_claimed := length claimed\<rparr>) jobs1 = (Ok out, jobs2)"
    and b: "budget_ok jobs2" by blast
  have "budget_ok (snd (PRUNE_TERMINAL_SQL now n jobs2))" for now n
    using b by (auto simp: PRUNE_TERMINAL_SQL_def budget_ok_def)
  then show ?thesis
    using requeue claim loop by (simp add: run_once_until_def pg_calls)
qed

theorem queue_poll_keeps_budget_witness:
  "\<exists>out jobs'. run_once_until pg_repository sample_settings 9 sample_tick [new_row 2 7 sample_insert] = (Ok out, jobs') \<and>
     budget_ok jobs'"
  by (rule queue_poll_keeps_budget)
    (simp_all add: jobs_ok_def budget_ok_def new_row_def sample_insert_def is_stale_def sample_settings_def)

text \<open>
  The backoff doubles from the base and is capped: as long as the doubled value still fits
  the word, attempt \<open>n\<close> waits \<open>base * 2 ^ (n - 1)\<close> seconds or the maximum, whichever is less, and a
  later attempt never waits less than an earlier one.
\<close>

theorem retry_delay_exact:
  assumes "1 \<le> n" and "n \<le> m" and "max base 1 * 2 ^ (m - 1) < (2 :: nat) ^ 64"
  shows "retry_delay (int n) base maximum = from_secs (min (max maximum (max base 1)) (max base 1 * 2 ^ (n - 1))) \<and>
    retry_delay (int n) base maximum \<le> retry_delay (int m) base maximum"
proof -
  have le: "max base 1 * 2 ^ (n - 1) \<le> max base 1 * 2 ^ (m - 1)"
    using assms(2) by (intro mult_left_mono power_increasing) auto
  have exact: "retry_delay (int k) base maximum = from_secs (min (max maximum (max base 1)) (max base 1 * 2 ^ (k - 1)))"
    if "1 \<le> k" "max base 1 * 2 ^ (k - 1) < (2 :: nat) ^ 64" for k
  proof -
    have "(2 :: nat) ^ (k - 1) \<le> max base 1 * 2 ^ (k - 1)" by simp
    then have "(2 :: nat) ^ (k - 1) < 2 ^ 64" using that(2) by linarith
    then have "k - 1 < 64" by (rule power_less_imp_less_exp [rotated]) simp
    then show ?thesis using that by (simp add: retry_delay_cases Let_def nat_diff_distrib del: power_Suc)
  qed
  have n: "max base 1 * 2 ^ (n - 1) < (2 :: nat) ^ 64" and m: "1 \<le> m"
    using le assms by linarith+
  show ?thesis
    unfolding exact [OF assms(1) n] exact [OF m assms(3)]
    using le by (intro conjI refl) (simp only: from_secs_def, intro mult_right_mono min.mono order_refl, simp_all)
qed

theorem retry_delay_exact_witness:
  "retry_delay 3 5 300 = from_secs 20 \<and> retry_delay 3 5 300 \<le> retry_delay 4 5 300"
  using retry_delay_exact [of 3 4 5 300] by simp

end
