(* ===== verification/Execution_Policy.thy ===== *)
theory Execution_Policy
  imports Authz Runtime_Types "HOL-Library.Sublist"
begin

text \<open>
  What is decided before a provider is called, \<open>src/src/application/execution.rs\<close>: the validation
  of a command, the effective execution policy, the choice of the route, the eligible model
  candidates, and the per-candidate settings, with the records of \<open>src/src/domain/runtime.rs\<close>.

  Results of repository calls are parameters: the statements hold whatever the database
  answers. \<open>supports_response_format\<close> stands for the constants of the provider library. The
  \<open>temperature\<close> option, a float nothing here reads, is left out.
\<close>

section \<open>Data\<close>

datatype provider_type =
    OpenAiCompatible | OpenAi | Anthropic | Gemini | DeepSeek | AzureOpenAi | LocalProvider
  | CustomProvider | ChatgptOauth

datatype credential_type =
    ApiKey | Oauth2 | BearerToken | BasicAuth | CustomHeaders | AzureOpenAiCredential | ServiceAccount

datatype complexity_tier = Trivial | Standard | Heavy

datatype domain_message_role = RoleSystem | RoleUser | RoleAssistant | RoleTool

datatype domain_message_content = TextPart string | ImageUrlPart string

record domain_message =
  dm_role :: domain_message_role
  dm_content :: "domain_message_content list"

record caller_runtime_identity =
  id_actor_type :: string
  id_subject :: "string option"
  id_external_user_id :: "string option"
  id_external_tenant_id :: "string option"
  id_application_id :: "uuid option"
  id_scopes :: "string list"

record execution_options =
  opt_max_tokens :: "nat option"
  opt_timeout_ms :: "nat option"
  opt_stream :: bool
  opt_required_capabilities :: "string list"
  opt_allow_fallback :: bool
  opt_max_fallbacks :: "nat option"
  opt_max_retries :: "nat option"
  opt_output_schema :: "json option"
  opt_priority :: "int option"
  opt_complexity_hint :: "complexity_tier option"

record execution_command =
  cmd_request_id :: string
  cmd_execution_id :: uuid
  cmd_identity :: caller_runtime_identity
  cmd_application_id :: "uuid option"
  cmd_external_tenant_id :: "string option"
  cmd_external_user_id :: "string option"
  cmd_messages :: "domain_message list"
  cmd_route_hint :: "string option"
  cmd_provider_hint :: "uuid option"
  cmd_model_hint :: "uuid option"
  cmd_credential_hint :: "uuid option"
  cmd_agent_profile_hint :: "uuid option"
  cmd_options :: execution_options
  cmd_metadata :: json

record effective_execution_policy =
  ep_timeout_ms :: nat
  ep_max_retries :: nat
  ep_max_fallbacks :: nat
  ep_required_capabilities :: "string list"
  ep_allow_fallback :: bool

record effective_runtime_policy =
  erp_timeout_ms :: nat
  erp_max_retries :: nat

datatype route_selection_reason = RouteExplicitHint | RuleMatch | ApplicationDefault | GlobalDefault

record route_row =
  rr_id :: uuid
  rr_route_key :: string
  rr_agent_profile_id :: "uuid option"

record route_decision =
  rd_route_id :: uuid
  rd_route_key :: string
  rd_reason :: route_selection_reason
  rd_agent_profile_id :: "uuid option"

record model_candidate =
  mc_policy_id :: uuid
  mc_provider_id :: uuid
  mc_provider_version :: int
  mc_provider_type :: provider_type
  mc_provider_display_name :: string
  mc_base_url :: "string option"
  mc_provider_model_id :: uuid
  mc_model_version :: int
  mc_model_key :: string
  mc_capabilities :: json
  mc_policy_priority :: int
  mc_weight :: int
  mc_timeout_ms :: "int option"
  mc_retry_policy :: json
  mc_runtime_policy :: provider_runtime_policy

datatype attempt_selection_reason = AttemptPriority | AttemptExplicitHint | AttemptScored | AttemptFallbackAfterFailure

record runtime_settings =
  maximum_eligible_model_candidates :: nat
  maximum_provider_fallback_candidates :: nat
  maximum_retries_per_candidate :: nat
  maximum_total_upstream_attempts :: nat
  default_execution_timeout_seconds :: nat
  maximum_execution_timeout_seconds :: nat

section \<open>Identity and scopes\<close>

fun debug_actor_type :: "actor_type \<Rightarrow> string" where
  "debug_actor_type Anonymous = ''Anonymous''"
| "debug_actor_type DevAdmin = ''DevAdmin''"
| "debug_actor_type SystemKey = ''SystemKey''"
| "debug_actor_type ConsumerKey = ''ConsumerKey''"
| "debug_actor_type TrustedJwt = ''TrustedJwt''"

definition caller_identity_from_actor :: "actor \<Rightarrow> caller_runtime_identity" where
  "caller_identity_from_actor a =
     \<lparr>id_actor_type = debug_actor_type (actor_type a), id_subject = actor_subject a,
      id_external_user_id = actor_external_user_id a, id_external_tenant_id = actor_external_tenant_id a,
      id_application_id = actor_internal_application_id a, id_scopes = actor_scopes a\<rparr>"

definition has_runtime_scope :: "execution_command \<Rightarrow> string \<Rightarrow> bool" where
  "has_runtime_scope cmd required =
     (let has_required = list_ex (\<lambda>s. s = required) (id_scopes (cmd_identity cmd));
          admin = list_ex (\<lambda>s. s = ''moira:admin'') (id_scopes (cmd_identity cmd)) \<and>
                  id_actor_type (cmd_identity cmd) \<noteq> debug_actor_type ConsumerKey
      in has_required \<or> admin)"

section \<open>Validation and policy\<close>

text \<open>\<open>ensure_active\<close> is the answer of \<open>ensure_application_active\<close>. The command is updated in place.\<close>

definition validate_command ::
    "(uuid \<Rightarrow> app_error + unit) \<Rightarrow> execution_command
      \<Rightarrow> (app_error + execution_failure option) \<times> execution_command" where
  "validate_command ensure_active cmd =
     (if cmd_messages cmd = [] then
        (Ok (Some (ExecutionFailure_new InvalidExecutionRequest
           ''execution command must contain at least one Rig message'')), cmd)
      else
        let bound = id_application_id (cmd_identity cmd);
            cmd = (if cmd_application_id cmd = None then cmd\<lparr>cmd_application_id := bound\<rparr> else cmd)
        in case (bound, cmd_application_id cmd) of
             (Some b, Some r) \<Rightarrow>
               if b \<noteq> r then
                 (Ok (Some (ExecutionFailure_new ApplicationUnavailable
                    ''caller is not bound to the requested application'')), cmd)
               else (case ensure_active r of
                       Ok _ \<Rightarrow> (Ok None, cmd)
                     | Err (Forbidden _) \<Rightarrow>
                         (Ok (Some (ExecutionFailure_new ApplicationUnavailable ''application is unavailable'')), cmd)
                     | Err e \<Rightarrow> (Err e, cmd))
           | (_, Some r) \<Rightarrow>
               (case ensure_active r of
                  Ok _ \<Rightarrow> (Ok None, cmd)
                | Err (Forbidden _) \<Rightarrow>
                    (Ok (Some (ExecutionFailure_new ApplicationUnavailable ''application is unavailable'')), cmd)
                | Err e \<Rightarrow> (Err e, cmd))
           | (_, None) \<Rightarrow> (Ok None, cmd))"

definition opt_or :: "'a option \<Rightarrow> 'a \<Rightarrow> 'a" where
  "opt_or x d = (case x of None \<Rightarrow> d | Some v \<Rightarrow> v)"

text \<open>\<open>* 1_000\<close> on a \<open>u64\<close> wraps in a release build.\<close>

definition seconds_to_ms :: "nat \<Rightarrow> nat" where
  "seconds_to_ms s = (s * 1000) mod 2 ^ 64"

definition total_timeout_ms :: "runtime_settings \<Rightarrow> execution_command \<Rightarrow> nat" where
  "total_timeout_ms defaults cmd =
     min (opt_or (opt_timeout_ms (cmd_options cmd)) (seconds_to_ms (default_execution_timeout_seconds defaults)))
       (seconds_to_ms (maximum_execution_timeout_seconds defaults))"

definition override_checks :: "execution_command \<Rightarrow> (bool \<times> string \<times> execution_failure) list" where
  "override_checks cmd =
     [(cmd_route_hint cmd \<noteq> None, ''moira:execution:override-route'',
        ExecutionFailure_new RouteForbidden ''route override is not authorized''),
      (cmd_provider_hint cmd \<noteq> None, ''moira:execution:override-provider'',
        ExecutionFailure_new ModelForbidden ''provider override is not authorized''),
      (cmd_model_hint cmd \<noteq> None, ''moira:execution:override-model'',
        ExecutionFailure_new ModelForbidden ''model override is not authorized''),
      (opt_priority (cmd_options cmd) \<noteq> None, ''moira:execution:override-priority'',
        ExecutionFailure_new ModelForbidden ''priority override is not authorized''),
      (opt_complexity_hint (cmd_options cmd) \<noteq> None, ''moira:execution:override-complexity-hint'',
        ExecutionFailure_new ModelForbidden ''complexity hint override is not authorized'')]"

definition evaluate_policy ::
    "runtime_settings \<Rightarrow> execution_command \<Rightarrow> execution_failure + effective_execution_policy" where
  "evaluate_policy defaults cmd =
     (case find (\<lambda>(present, scope, failure). present \<and> \<not> has_runtime_scope cmd scope) (override_checks cmd) of
        Some (_, _, failure) \<Rightarrow> Err failure
      | None \<Rightarrow>
          Ok \<lparr>ep_timeout_ms = total_timeout_ms defaults cmd,
              ep_max_retries = min (opt_or (opt_max_retries (cmd_options cmd)) (maximum_retries_per_candidate defaults))
                (maximum_retries_per_candidate defaults),
              ep_max_fallbacks = min (opt_or (opt_max_fallbacks (cmd_options cmd)) (maximum_provider_fallback_candidates defaults))
                (maximum_provider_fallback_candidates defaults),
              ep_required_capabilities = opt_required_capabilities (cmd_options cmd),
              ep_allow_fallback = opt_allow_fallback (cmd_options cmd)\<rparr>)"

text \<open>\<open>as u64\<close> and \<open>as usize\<close> of a negative column wrap.\<close>

definition effective_runtime_policy_of ::
    "effective_execution_policy \<Rightarrow> provider_runtime_policy \<Rightarrow> effective_runtime_policy" where
  "effective_runtime_policy_of policy runtime =
     \<lparr>erp_timeout_ms = min (ep_timeout_ms policy) (as_u64 (request_timeout_ms runtime)),
      erp_max_retries = min (ep_max_retries policy) (as_u64 (retry_limit runtime))\<rparr>"

section \<open>Route\<close>

fun message_first_text :: "domain_message_content list \<Rightarrow> string option" where
  "message_first_text [] = None"
| "message_first_text (TextPart t # _) = Some t"
| "message_first_text (ImageUrlPart _ # parts) = message_first_text parts"

fun find_first_text :: "domain_message list \<Rightarrow> string option" where
  "find_first_text [] = None"
| "find_first_text (m # ms) =
     (case message_first_text (dm_content m) of Some t \<Rightarrow> Some t | None \<Rightarrow> find_first_text ms)"

definition first_text :: "execution_command \<Rightarrow> string" where
  "first_text cmd = opt_or (find_first_text (cmd_messages cmd)) []"

definition route_decision_of :: "route_row \<Rightarrow> route_selection_reason \<Rightarrow> route_decision" where
  "route_decision_of r reason = \<lparr>rd_route_id = rr_id r, rd_route_key = rr_route_key r, rd_reason = reason,
     rd_agent_profile_id = rr_agent_profile_id r\<rparr>"

definition select_default_route ::
    "(app_error + route_row option) \<Rightarrow> execution_failure + route_decision" where
  "select_default_route answer =
     (case answer of
        Err _ \<Rightarrow> Err (ExecutionFailure_new RouteNotFound ''default route lookup failed'')
      | Ok None \<Rightarrow> Err (ExecutionFailure_new RouteNotFound ''no active default route'')
      | Ok (Some r) \<Rightarrow> Ok (route_decision_of r GlobalDefault))"

definition select_route ::
    "(string \<Rightarrow> app_error + route_row option) \<Rightarrow> (app_error + route_row option) \<Rightarrow> execution_command
      \<Rightarrow> execution_failure + route_decision" where
  "select_route active_route default_route cmd =
     (case cmd_route_hint cmd of
        Some key \<Rightarrow>
          (case active_route key of
             Err _ \<Rightarrow> Err (ExecutionFailure_new RouteNotFound ''route lookup failed'')
           | Ok None \<Rightarrow> Err (ExecutionFailure_new RouteNotFound ''route hint did not match an active route'')
           | Ok (Some r) \<Rightarrow> Ok (route_decision_of r RouteExplicitHint))
      | None \<Rightarrow>
          if contains_str ''code'' (to_ascii_lowercase (first_text cmd)) then
            (case active_route ''coding'' of
               Err _ \<Rightarrow> Err (ExecutionFailure_new RouteNotFound ''route lookup failed'')
             | Ok (Some r) \<Rightarrow> Ok (route_decision_of r RuleMatch)
             | Ok None \<Rightarrow> select_default_route default_route)
          else select_default_route default_route)"

section \<open>Candidates\<close>

definition STRUCTURED_OUTPUT_CAPABILITY :: string where
  "STRUCTURED_OUTPUT_CAPABILITY = ''structured_output''"

definition provider_emits_output_schema :: "(provider_type \<Rightarrow> bool) \<Rightarrow> provider_type \<Rightarrow> bool" where
  "provider_emits_output_schema supports_response_format t =
     (case t of
        OpenAi \<Rightarrow> supports_response_format OpenAi
      | OpenAiCompatible \<Rightarrow> supports_response_format OpenAi
      | LocalProvider \<Rightarrow> supports_response_format OpenAi
      | AzureOpenAi \<Rightarrow> supports_response_format AzureOpenAi
      | DeepSeek \<Rightarrow> supports_response_format DeepSeek
      | Anthropic \<Rightarrow> True
      | Gemini \<Rightarrow> True
      | CustomProvider \<Rightarrow> False
      | ChatgptOauth \<Rightarrow> False)"

definition json_get :: "json \<Rightarrow> string \<Rightarrow> json option" where
  "json_get v k = (case v of JObject kvs \<Rightarrow> map_of kvs k | _ \<Rightarrow> None)"

definition capabilities_match :: "(provider_type \<Rightarrow> bool) \<Rightarrow> provider_type \<Rightarrow> json \<Rightarrow> string list \<Rightarrow> bool" where
  "capabilities_match supports_response_format t capabilities required =
     list_all (\<lambda>r.
       if r = STRUCTURED_OUTPUT_CAPABILITY \<and> \<not> provider_emits_output_schema supports_response_format t
       then False
       else (case json_get capabilities r of Some (JBool b) \<Rightarrow> b | _ \<Rightarrow> False) \<or>
            (case json_get capabilities ''capabilities'' of
               Some (JArray vs) \<Rightarrow> list_ex (\<lambda>v. v = JString r) vs
             | _ \<Rightarrow> False)) required"

definition select_candidates ::
    "(provider_type \<Rightarrow> bool) \<Rightarrow> (app_error + model_candidate list) \<Rightarrow> execution_command
      \<Rightarrow> effective_execution_policy \<Rightarrow> execution_failure + model_candidate list" where
  "select_candidates supports_response_format listed cmd policy =
     (case listed of
        Err _ \<Rightarrow> Err (ExecutionFailure_new NoEligibleModel ''model candidate lookup failed'')
      | Ok all \<Rightarrow>
          (let candidates = filter (\<lambda>c.
                 (case cmd_provider_hint cmd of None \<Rightarrow> True | Some p \<Rightarrow> mc_provider_id c = p) \<and>
                 (case cmd_model_hint cmd of None \<Rightarrow> True | Some m \<Rightarrow> mc_provider_model_id c = m) \<and>
                 capabilities_match supports_response_format (mc_provider_type c) (mc_capabilities c)
                   (ep_required_capabilities policy)) all
           in if candidates = []
              then Err (ExecutionFailure_new NoEligibleModel ''no eligible model candidate matched policy'')
              else Ok candidates))"

definition attempt_selection_reason_of ::
    "execution_command \<Rightarrow> nat \<Rightarrow> model_candidate \<Rightarrow> attempt_selection_reason" where
  "attempt_selection_reason_of cmd index c =
     (if cmd_model_hint cmd = Some (mc_provider_model_id c) \<or> cmd_provider_hint cmd = Some (mc_provider_id c)
      then AttemptExplicitHint
      else if index = 0 then AttemptPriority
      else AttemptFallbackAfterFailure)"

fun supported_credential_types :: "provider_type \<Rightarrow> credential_type list" where
  "supported_credential_types AzureOpenAi = [AzureOpenAiCredential, ApiKey]"
| "supported_credential_types OpenAi = [ApiKey, BearerToken]"
| "supported_credential_types OpenAiCompatible = [ApiKey, BearerToken]"
| "supported_credential_types LocalProvider = [ApiKey, BearerToken]"
| "supported_credential_types Anthropic = [ApiKey]"
| "supported_credential_types Gemini = [ApiKey]"
| "supported_credential_types DeepSeek = [ApiKey]"
| "supported_credential_types ChatgptOauth = [Oauth2]"
| "supported_credential_types CustomProvider = []"

section \<open>Lemmas\<close>

lemma debug_actor_type_inj: "debug_actor_type t = debug_actor_type t' \<longleftrightarrow> t = t'"
  by (cases t; cases t'; simp)

lemma has_runtime_scope_iff:
  "has_runtime_scope cmd s \<longleftrightarrow> s \<in> set (id_scopes (cmd_identity cmd)) \<or>
     ''moira:admin'' \<in> set (id_scopes (cmd_identity cmd)) \<and> id_actor_type (cmd_identity cmd) \<noteq> ''ConsumerKey''"
  by (auto simp: has_runtime_scope_def list_ex_iff)

text \<open>
  An anonymous caller with the admin scope passes the check of the execution service and not
  the one of the authorization service.
\<close>

lemma anonymous_admin_diverges:
  "\<exists>a cmd s. cmd_identity cmd = caller_identity_from_actor a \<and> actor_type a = Anonymous \<and>
     has_runtime_scope cmd s \<and> \<not> has_scope a s"
proof -
  let ?a = "default_actor\<lparr>actor_scopes := [''moira:admin'']\<rparr>"
  let ?cmd = "\<lparr>cmd_request_id = '''', cmd_execution_id = 0, cmd_identity = caller_identity_from_actor ?a,
    cmd_application_id = None, cmd_external_tenant_id = None, cmd_external_user_id = None,
    cmd_messages = [], cmd_route_hint = None, cmd_provider_hint = None, cmd_model_hint = None,
    cmd_credential_hint = None, cmd_agent_profile_hint = None,
    cmd_options = \<lparr>opt_max_tokens = None, opt_timeout_ms = None, opt_stream = False,
      opt_required_capabilities = [], opt_allow_fallback = True, opt_max_fallbacks = None,
      opt_max_retries = None, opt_output_schema = None, opt_priority = None, opt_complexity_hint = None\<rparr>,
    cmd_metadata = JNull\<rparr>"
  show ?thesis
    by (intro exI [of _ ?a] exI [of _ ?cmd] exI [of _ "''moira:execution:override-route''"])
      (simp add: has_runtime_scope_iff caller_identity_from_actor_def default_actor_def has_scope_def
        admin_scope_implies_all_def ADMIN_IMPLYING_ACTOR_TYPES_def)
qed

section \<open>Properties\<close>

text \<open>
  For every authenticated caller the execution service's own scope check agrees with the
  authorization service.
\<close>

theorem runtime_scope_agrees:
  assumes "cmd_identity cmd = caller_identity_from_actor a" and "actor_type a \<noteq> Anonymous"
  shows "has_runtime_scope cmd s \<longleftrightarrow> has_scope a s"
  using assms
  by (cases "actor_type a")
    (auto simp: has_runtime_scope_iff caller_identity_from_actor_def has_scope_def
      admin_scope_implies_all_def ADMIN_IMPLYING_ACTOR_TYPES_def ADMIN_SCOPE_def)

definition sample_command :: execution_command where
  "sample_command =
     \<lparr>cmd_request_id = ''r'', cmd_execution_id = 5,
      cmd_identity = caller_identity_from_actor
        (default_actor\<lparr>actor_type := TrustedJwt, actor_scopes := [''moira:execution:override-model'']\<rparr>),
      cmd_application_id = None, cmd_external_tenant_id = None, cmd_external_user_id = None,
      cmd_messages = [\<lparr>dm_role = RoleUser, dm_content = [TextPart ''hi'']\<rparr>], cmd_route_hint = None,
      cmd_provider_hint = None, cmd_model_hint = Some 9, cmd_credential_hint = None, cmd_agent_profile_hint = None,
      cmd_options = \<lparr>opt_max_tokens = None, opt_timeout_ms = Some 5000, opt_stream = False,
        opt_required_capabilities = [], opt_allow_fallback = True, opt_max_fallbacks = None,
        opt_max_retries = Some 99, opt_output_schema = None, opt_priority = None, opt_complexity_hint = None\<rparr>,
      cmd_metadata = JNull\<rparr>"

theorem runtime_scope_agrees_witness:
  "has_runtime_scope sample_command ''moira:execution:override-model'' \<longleftrightarrow>
   has_scope (default_actor\<lparr>actor_type := TrustedJwt, actor_scopes := [''moira:execution:override-model'']\<rparr>)
     ''moira:execution:override-model''"
  by (rule runtime_scope_agrees) (simp_all add: sample_command_def)

text \<open>
  An effective policy never exceeds the configured limits, whatever the caller asks for,
  and every override the command carries is covered by the caller's scopes; a command with an
  uncovered override is refused with a failure that is neither retried nor falls back.
\<close>

theorem policy_within_limits:
  "case evaluate_policy d cmd of
     Ok p \<Rightarrow> ep_timeout_ms p \<le> seconds_to_ms (maximum_execution_timeout_seconds d) \<and>
       ep_max_retries p \<le> maximum_retries_per_candidate d \<and>
       ep_max_fallbacks p \<le> maximum_provider_fallback_candidates d \<and>
       {scope. \<exists>f. (True, scope, f) \<in> set (override_checks cmd)} \<subseteq> {scope. has_runtime_scope cmd scope}
   | Err f \<Rightarrow> failure_class f \<in> {RouteForbidden, ModelForbidden} \<and>
       \<not> failure_retryable f \<and> \<not> failure_fallback_eligible f"
proof (cases "find (\<lambda>(present, scope, failure). present \<and> \<not> has_runtime_scope cmd scope) (override_checks cmd)")
  case None
  then have "{scope. \<exists>f. (True, scope, f) \<in> set (override_checks cmd)} \<subseteq> {scope. has_runtime_scope cmd scope}"
    by (auto simp: find_None_iff)
  then show ?thesis unfolding evaluate_policy_def None by (simp add: total_timeout_ms_def)
next
  case (Some x)
  obtain b sc f where x: "x = (b, sc, f)" by (cases x) auto
  with Some have "(b, sc, f) \<in> set (override_checks cmd)" by (auto simp: find_Some_iff dest: nth_mem)
  then have "f \<in> (\<lambda>(b, sc, f). f) ` set (override_checks cmd)" by force
  then have "failure_class f \<in> {RouteForbidden, ModelForbidden} \<and> \<not> failure_retryable f \<and> \<not> failure_fallback_eligible f"
    by (auto simp: override_checks_def ExecutionFailure_new_def is_retryable_def is_fallback_eligible_def)
  with Some x show ?thesis by (simp add: evaluate_policy_def)
qed

text \<open>
  The candidates of an execution are the listed ones that match the hints and have every
  required capability, all of them and in the listed order; there is at least one, and when
  structured output is required each is of a provider that sends the schema.
\<close>

theorem candidates_eligible:
  assumes "select_candidates srf listed cmd policy = Ok cs"
  shows "\<exists>all. listed = Ok all \<and> subseq cs all \<and> cs \<noteq> [] \<and>
    set cs = {c \<in> set all.
       cmd_provider_hint cmd \<in> {None, Some (mc_provider_id c)} \<and>
       cmd_model_hint cmd \<in> {None, Some (mc_provider_model_id c)} \<and>
       capabilities_match srf (mc_provider_type c) (mc_capabilities c) (ep_required_capabilities policy)} \<and>
    (''structured_output'' \<in> set (ep_required_capabilities policy) \<longrightarrow>
       (\<forall>c \<in> set cs. provider_emits_output_schema srf (mc_provider_type c)))"
proof -
  have emits: "capabilities_match srf t caps req \<Longrightarrow> ''structured_output'' \<in> set req \<Longrightarrow>
      provider_emits_output_schema srf t" for t caps req
    by (auto simp: capabilities_match_def list_all_iff STRUCTURED_OUTPUT_CAPABILITY_def split: if_splits)
  obtain all P where all: "listed = Ok all" and cs: "cs = filter P all" and ne: "cs \<noteq> []"
    and P: "P = (\<lambda>c.
        (case cmd_provider_hint cmd of None \<Rightarrow> True | Some p \<Rightarrow> mc_provider_id c = p) \<and>
        (case cmd_model_hint cmd of None \<Rightarrow> True | Some m \<Rightarrow> mc_provider_model_id c = m) \<and>
        capabilities_match srf (mc_provider_type c) (mc_capabilities c) (ep_required_capabilities policy))"
    using assms by (auto simp: select_candidates_def Let_def split: sum.splits if_splits)
  have "set cs = {c \<in> set all.
       cmd_provider_hint cmd \<in> {None, Some (mc_provider_id c)} \<and>
       cmd_model_hint cmd \<in> {None, Some (mc_provider_model_id c)} \<and>
       capabilities_match srf (mc_provider_type c) (mc_capabilities c) (ep_required_capabilities policy)}"
    by (cases "cmd_provider_hint cmd"; cases "cmd_model_hint cmd") (auto simp: cs P)
  with all ne emits cs show ?thesis by auto
qed

definition sample_candidate :: model_candidate where
  "sample_candidate =
     \<lparr>mc_policy_id = 1, mc_provider_id = 7, mc_provider_version = 1, mc_provider_type = OpenAi,
      mc_provider_display_name = ''p'', mc_base_url = None, mc_provider_model_id = 9, mc_model_version = 1,
      mc_model_key = ''m'', mc_capabilities = JObject [(''structured_output'', JBool True)],
      mc_policy_priority = 1, mc_weight = 1, mc_timeout_ms = None, mc_retry_policy = JNull,
      mc_runtime_policy = sample_runtime_policy\<rparr>"

definition sample_policy :: effective_execution_policy where
  "sample_policy = \<lparr>ep_timeout_ms = 5000, ep_max_retries = 1, ep_max_fallbacks = 1,
     ep_required_capabilities = [''structured_output''], ep_allow_fallback = True\<rparr>"

theorem candidates_eligible_witness:
  "subseq [sample_candidate] [sample_candidate\<lparr>mc_provider_model_id := 8\<rparr>, sample_candidate] \<and>
   provider_emits_output_schema (\<lambda>t. t = OpenAi) (mc_provider_type sample_candidate)"
proof -
  have "select_candidates (\<lambda>t. t = OpenAi) (Ok [sample_candidate\<lparr>mc_provider_model_id := 8\<rparr>, sample_candidate])
      sample_command sample_policy = Ok [sample_candidate]"
    by (simp add: select_candidates_def sample_command_def sample_policy_def sample_candidate_def
        capabilities_match_def STRUCTURED_OUTPUT_CAPABILITY_def provider_emits_output_schema_def json_get_def)
  from candidates_eligible [OF this] show ?thesis by (auto simp: sample_policy_def)
qed

end
