(* ===== verification/Execution_Events.thy ===== *)
theory Execution_Events
  imports Execution_Policy
begin

text \<open>
  The event collector and the streaming run of an attempt, \<open>src/src/application/execution.rs\<close>.

  An envelope keeps its sequence number and its type; its payload and timestamp, which nothing
  reads, are left out. A live channel answers each \<open>try_send\<close> from a list of results chosen by
  the environment (an empty list always accepts). What the provider's stream yields is a list of
  polls; each item carries what delivering it to the consumer led to.
\<close>

section \<open>Data\<close>

record usage_summary =
  us_input_tokens :: "nat option"
  us_output_tokens :: "nat option"
  us_cached_input_tokens :: "nat option"
  us_reasoning_tokens :: "nat option"
  us_total_tokens :: "nat option"

definition default_usage :: usage_summary where
  "default_usage = \<lparr>us_input_tokens = None, us_output_tokens = None, us_cached_input_tokens = None,
     us_reasoning_tokens = None, us_total_tokens = None\<rparr>"

definition usage_was_reported :: "usage_summary \<Rightarrow> bool" where
  "usage_was_reported u \<longleftrightarrow>
     us_input_tokens u \<noteq> None \<or> us_output_tokens u \<noteq> None \<or> us_cached_input_tokens u \<noteq> None \<or>
     us_reasoning_tokens u \<noteq> None \<or> us_total_tokens u \<noteq> None"

datatype runtime_event_type =
    ExecutionStarted | RoutingStarted | RouteSelected | AgentProfileUnavailable | ModelSelected
  | CandidateRanked | ProviderAttemptStarted | OutputTextDelta | ToolCallStartedEvent
  | ToolCallDeltaEvent | ToolCallCompleted | ToolResult | UsageUpdatedEvent
  | ProviderAttemptFailed | FallbackSelected | ExecutionCompleted | ExecutionFailedEvent

record runtime_event =
  ev_sequence :: nat
  ev_type :: runtime_event_type

record execution_run_output =
  ro_text :: string
  ro_structured_output :: "json option"
  ro_usage :: usage_summary
  ro_provider_request_id :: "string option"
  ro_events :: "runtime_event list"
  ro_tool_calls :: nat

record failed_attempt =
  fa_failure :: execution_failure
  fa_usage :: usage_summary
  fa_tool_calls :: nat

definition failed_attempt_from :: "execution_failure \<Rightarrow> failed_attempt" where
  "failed_attempt_from f = \<lparr>fa_failure = f, fa_usage = default_usage, fa_tool_calls = 0\<rparr>"

section \<open>Failures\<close>

definition cancelled_failure :: execution_failure where
  "cancelled_failure = ExecutionFailure_new RequestCancelled ''execution stream was cancelled by its consumer''"

definition deadline_failure :: execution_failure where
  "deadline_failure = ExecutionFailure_new DeadlineExceeded ''execution exceeded its total deadline''"

definition make_final :: "execution_failure \<Rightarrow> execution_failure" where
  "make_final f = f\<lparr>failure_retryable := False, failure_fallback_eligible := False\<rparr>"

definition attempt_timeout_failure :: "bool \<Rightarrow> bool \<Rightarrow> execution_failure" where
  "attempt_timeout_failure bounded_by_total_deadline output_committed =
     (let f = (if bounded_by_total_deadline then deadline_failure
               else ExecutionFailure_new ProviderTimeout ''provider request exceeded effective deadline'')
      in if output_committed then make_final f else f)"

definition terminal_persistence_deadline_failure :: execution_failure where
  "terminal_persistence_deadline_failure =
     (attempt_timeout_failure True True)
       \<lparr>failure_message := ''execution exceeded its total deadline while persisting terminal state''\<rparr>"

section \<open>The collector\<close>

datatype send_result = SendOk | SendClosed | SendFull

record event_collector =
  next_sequence :: nat
  ec_events :: "runtime_event list"
  ec_live :: bool
  ec_sent :: "runtime_event list"
  ec_send_results :: "send_result list"
  ec_cancelled :: bool
  delivery_failure :: "execution_failure option"
  output_committed :: bool

definition EventCollector_new :: event_collector where
  "EventCollector_new = \<lparr>next_sequence = 1, ec_events = [], ec_live = False, ec_sent = [],
     ec_send_results = [], ec_cancelled = False, delivery_failure = None, output_committed = False\<rparr>"

definition EventCollector_streaming :: "send_result list \<Rightarrow> bool \<Rightarrow> event_collector" where
  "EventCollector_streaming results cancelled =
     EventCollector_new\<lparr>ec_live := True, ec_send_results := results, ec_cancelled := cancelled\<rparr>"

definition forward_now :: "runtime_event \<Rightarrow> event_collector \<Rightarrow> event_collector" where
  "forward_now e ec =
     (if \<not> ec_live ec \<or> delivery_failure ec \<noteq> None then ec
      else
        let result = (case ec_send_results ec of [] \<Rightarrow> SendOk | r # _ \<Rightarrow> r);
            ec = ec\<lparr>ec_send_results := tl (ec_send_results ec)\<rparr>
        in case result of
             SendOk \<Rightarrow> ec\<lparr>ec_sent := ec_sent ec @ [e]\<rparr>
           | SendClosed \<Rightarrow> ec\<lparr>delivery_failure := Some cancelled_failure, ec_cancelled := True\<rparr>
           | SendFull \<Rightarrow> ec\<lparr>delivery_failure := Some (ExecutionFailure_new StreamBackpressureExceeded
                 ''stream consumer did not keep pace with execution lifecycle events''), ec_cancelled := True\<rparr>)"

definition emit :: "runtime_event \<Rightarrow> event_collector \<Rightarrow> event_collector" where
  "emit e ec = (if ec_live ec then forward_now e ec else ec\<lparr>ec_events := ec_events ec @ [e]\<rparr>)"

definition push_event :: "runtime_event_type \<Rightarrow> event_collector \<Rightarrow> event_collector" where
  "push_event t ec =
     emit \<lparr>ev_sequence = next_sequence ec, ev_type = t\<rparr> (ec\<lparr>next_sequence := next_sequence ec + 1\<rparr>)"

definition push_existing :: "runtime_event \<Rightarrow> event_collector \<Rightarrow> event_collector" where
  "push_existing e ec =
     emit (e\<lparr>ev_sequence := next_sequence ec\<rparr>) (ec\<lparr>next_sequence := next_sequence ec + 1\<rparr>)"

definition push_tool_result_events :: "nat \<Rightarrow> event_collector \<Rightarrow> event_collector" where
  "push_tool_result_events n ec = (push_event ToolResult ^^ n) ec"

datatype delivery = Delivered | DeliveryCancelled | DeliveryClosed | DeliveryTimedOut

definition push_stream ::
    "runtime_event_type \<Rightarrow> delivery \<Rightarrow> event_collector \<Rightarrow> (execution_failure + unit) \<times> event_collector" where
  "push_stream t d ec =
     (case delivery_failure ec of
        Some f \<Rightarrow> (Err f, ec)
      | None \<Rightarrow>
          let e = \<lparr>ev_sequence = next_sequence ec, ev_type = t\<rparr>;
              ec = ec\<lparr>next_sequence := next_sequence ec + 1\<rparr>
          in if \<not> ec_live ec then (Ok (), ec\<lparr>ec_events := ec_events ec @ [e]\<rparr>)
             else case d of
                    Delivered \<Rightarrow> (Ok (), ec\<lparr>ec_sent := ec_sent ec @ [e]\<rparr>)
                  | DeliveryCancelled \<Rightarrow> (Err cancelled_failure, ec)
                  | DeliveryClosed \<Rightarrow> (Err cancelled_failure, ec)
                  | DeliveryTimedOut \<Rightarrow>
                      (Err (ExecutionFailure_new StreamBackpressureExceeded
                         ''stream consumer did not accept output before the delivery deadline''), ec))"

section \<open>The streaming run\<close>

datatype stream_item =
    TextDelta string
  | ToolCallStarted
  | ToolCallDelta
  | UsageUpdated usage_summary
  | FinalMetadata "string option"

datatype stream_poll =
    PollCancelled
  | PollIdle
  | PollError execution_failure
  | PollItem stream_item delivery

record stream_progress =
  sp_text :: string
  sp_usage :: usage_summary
  sp_provider_request_id :: "string option"
  sp_committed :: bool

definition start_progress :: stream_progress where
  "start_progress = \<lparr>sp_text = [], sp_usage = default_usage, sp_provider_request_id = None, sp_committed = False\<rparr>"

definition idle_failure :: execution_failure where
  "idle_failure = ExecutionFailure_new ProviderTimeout ''provider stream exceeded the idle timeout''"

definition final_if :: "bool \<Rightarrow> execution_failure \<Rightarrow> execution_failure" where
  "final_if committed f = (if committed then make_final f else f)"

text \<open>Committing output: the event was delivered, so the attempt may not be repeated.\<close>

definition deliver_output ::
    "runtime_event_type \<Rightarrow> delivery \<Rightarrow> string \<Rightarrow> stream_progress \<Rightarrow> event_collector
      \<Rightarrow> (execution_failure + stream_progress) \<times> event_collector" where
  "deliver_output t d delta sp ec =
     (case push_stream t d ec of
        (Err f, ec') \<Rightarrow> (Err f, ec')
      | (Ok _, ec') \<Rightarrow> (Ok (sp\<lparr>sp_text := sp_text sp @ delta, sp_committed := True\<rparr>), ec'\<lparr>output_committed := True\<rparr>))"

definition handle_item ::
    "stream_item \<Rightarrow> delivery \<Rightarrow> stream_progress \<Rightarrow> event_collector
      \<Rightarrow> (execution_failure + stream_progress) \<times> event_collector" where
  "handle_item item d sp ec =
     (case item of
        TextDelta delta \<Rightarrow> deliver_output OutputTextDelta d delta sp ec
      | ToolCallStarted \<Rightarrow> deliver_output ToolCallStartedEvent d [] sp ec
      | ToolCallDelta \<Rightarrow> deliver_output ToolCallDeltaEvent d [] sp ec
      | UsageUpdated u \<Rightarrow>
          (case push_stream UsageUpdatedEvent d ec of
             (Err f, ec') \<Rightarrow> (Err f, ec')
           | (Ok _, ec') \<Rightarrow> (Ok (sp\<lparr>sp_usage := u\<rparr>), ec'))
      | FinalMetadata request_id \<Rightarrow> (Ok (sp\<lparr>sp_provider_request_id := request_id\<rparr>), ec))"

fun stream_loop ::
    "stream_poll list \<Rightarrow> stream_progress \<Rightarrow> event_collector \<Rightarrow> (execution_failure + stream_progress) \<times> event_collector" where
  "stream_loop [] sp ec = (Ok sp, ec)"
| "stream_loop (poll # polls) sp ec =
     (case poll of
        PollCancelled \<Rightarrow> (Err cancelled_failure, ec)
      | PollIdle \<Rightarrow> (Err (final_if (sp_committed sp) idle_failure), ec)
      | PollError f \<Rightarrow> (Err (final_if (sp_committed sp) f), ec)
      | PollItem item d \<Rightarrow>
          (case handle_item item d sp ec of
             (Err f, ec') \<Rightarrow> (Err f, ec')
           | (Ok sp', ec') \<Rightarrow> stream_loop polls sp' ec'))"

text \<open>
  \<open>parse_json\<close> is the JSON parser of the serialization library, applied to the trimmed text.
\<close>

definition STRUCTURED_OUTPUT_NOT_JSON :: string where
  "STRUCTURED_OUTPUT_NOT_JSON =
     ''the model'' @ [CHR 0x27] @ ''s reply to a schema-constrained request was not JSON, so no structured output could be produced''"

definition structured_output_from_text ::
    "(string \<Rightarrow> json option) \<Rightarrow> bool \<Rightarrow> string \<Rightarrow> execution_failure + json option" where
  "structured_output_from_text parse_json wants_structured text =
     (if \<not> wants_structured then Ok None
      else case parse_json (rust_trim text) of
             Some v \<Rightarrow> Ok (Some v)
           | None \<Rightarrow> Err (ExecutionFailure_new StructuredOutputInvalid
               STRUCTURED_OUTPUT_NOT_JSON))"

text \<open>
  \<open>started\<close> is the answer of \<open>start_stream\<close> (or the cancellation that won against it). \<open>stopped\<close> says that
  the attempt was stopped from outside, by its deadline or its cancellation, after these polls:
  then the run has no result of its own unless it failed before.
\<close>

definition execute_rig_stream ::
    "(string \<Rightarrow> json option) \<Rightarrow> bool \<Rightarrow> (execution_failure + unit) \<Rightarrow> stream_poll list \<Rightarrow> bool \<Rightarrow> event_collector
      \<Rightarrow> (failed_attempt + execution_run_output) option \<times> event_collector" where
  "execute_rig_stream parse_json wants_structured started polls stopped ec =
     (case delivery_failure ec of
        Some f \<Rightarrow> (Some (Err (failed_attempt_from f)), ec)
      | None \<Rightarrow>
      case started of
        Err f \<Rightarrow> (Some (Err (failed_attempt_from f)), ec)
      | Ok _ \<Rightarrow>
      case stream_loop polls start_progress ec of
        (Err f, ec') \<Rightarrow> (Some (Err (failed_attempt_from f)), ec')
      | (Ok sp, ec') \<Rightarrow>
          if stopped then (None, ec')
          else case structured_output_from_text parse_json wants_structured (sp_text sp) of
                 Err f \<Rightarrow> (Some (Err \<lparr>fa_failure = f, fa_usage = sp_usage sp, fa_tool_calls = 0\<rparr>), ec')
               | Ok v \<Rightarrow> (Some (Ok \<lparr>ro_text = sp_text sp, ro_structured_output = v, ro_usage = sp_usage sp,
                   ro_provider_request_id = sp_provider_request_id sp, ro_events = [], ro_tool_calls = 0\<rparr>), ec'))"

section \<open>The other two ways to run an attempt\<close>

record completion_output =
  co_text :: string
  co_usage :: usage_summary
  co_provider_request_id :: "string option"

definition execute_rig_completion ::
    "(string \<Rightarrow> json option) \<Rightarrow> bool \<Rightarrow> (execution_failure + completion_output)
      \<Rightarrow> failed_attempt + execution_run_output" where
  "execute_rig_completion parse_json wants_structured answer =
     (case answer of
        Err f \<Rightarrow> Err (failed_attempt_from f)
      | Ok out \<Rightarrow>
          (case structured_output_from_text parse_json wants_structured (co_text out) of
             Err f \<Rightarrow> Err \<lparr>fa_failure = f, fa_usage = co_usage out, fa_tool_calls = 0\<rparr>
           | Ok v \<Rightarrow> Ok \<lparr>ro_text = co_text out, ro_structured_output = v, ro_usage = co_usage out,
               ro_provider_request_id = co_provider_request_id out, ro_events = [], ro_tool_calls = 0\<rparr>))"

record tool_loop_outcome =
  tl_text :: string
  tl_usage :: usage_summary
  tl_provider_request_id :: "string option"
  tl_tool_calls :: nat

definition execute_rig_tool_loop ::
    "(failed_attempt + tool_loop_outcome) \<Rightarrow> failed_attempt + execution_run_output" where
  "execute_rig_tool_loop answer =
     (case answer of
        Err f \<Rightarrow> Err f
      | Ok out \<Rightarrow> Ok \<lparr>ro_text = tl_text out, ro_structured_output = None, ro_usage = tl_usage out,
          ro_provider_request_id = tl_provider_request_id out, ro_events = [], ro_tool_calls = tl_tool_calls out\<rparr>)"

section \<open>Committed output is final\<close>

definition is_final :: "execution_failure \<Rightarrow> bool" where
  "is_final f \<longleftrightarrow> \<not> failure_retryable f \<and> \<not> failure_fallback_eligible f"

lemma is_final_new: "is_final (ExecutionFailure_new c m) \<longleftrightarrow> \<not> is_retryable c \<and> \<not> is_fallback_eligible c"
  by (simp add: is_final_def ExecutionFailure_new_def)

lemma final_failures [simp]:
  "is_final cancelled_failure" "is_final deadline_failure" "is_final (make_final f)"
  "is_final (ExecutionFailure_new StreamBackpressureExceeded m)"
  "is_final (ExecutionFailure_new StructuredOutputInvalid m)"
  "is_final (attempt_timeout_failure b True)"
  by (auto simp: cancelled_failure_def deadline_failure_def is_final_new is_retryable_def
      is_fallback_eligible_def make_final_def is_final_def attempt_timeout_failure_def Let_def)

text \<open>
  What the collector keeps: the failures it reports are final, sequence numbers grow, output
  events imply that output is committed, and no attempt is announced after an output event.
\<close>

definition output_types :: "runtime_event_type set" where
  "output_types = {OutputTextDelta, ToolCallStartedEvent, ToolCallDeltaEvent}"

definition no_restart :: "runtime_event \<Rightarrow> runtime_event \<Rightarrow> bool" where
  "no_restart a b \<longleftrightarrow> \<not> (ev_type a \<in> output_types \<and> ev_type b = ProviderAttemptStarted)"

definition collector_ok :: "event_collector \<Rightarrow> bool" where
  "collector_ok ec \<longleftrightarrow>
     (\<forall>f. delivery_failure ec = Some f \<longrightarrow> is_final f) \<and>
     (if ec_live ec then ec_events ec = [] else ec_sent ec = []) \<and>
     (\<not> ec_live ec \<longrightarrow> map ev_sequence (ec_events ec) = [1 ..< next_sequence ec]) \<and>
     sorted_wrt (<) (map ev_sequence (ec_sent ec)) \<and>
     (\<forall>e \<in> set (ec_sent ec). ev_sequence e < next_sequence ec) \<and> 1 \<le> next_sequence ec \<and>
     (\<not> output_committed ec \<longrightarrow> (\<forall>e \<in> set (ec_events ec @ ec_sent ec). ev_type e \<notin> output_types)) \<and>
     sorted_wrt no_restart (ec_events ec @ ec_sent ec)"

lemma collector_ok_new [simp]: "collector_ok EventCollector_new"
  by (simp add: collector_ok_def EventCollector_new_def)

lemma collector_ok_streaming [simp]: "collector_ok (EventCollector_streaming rs c)"
  by (simp add: collector_ok_def EventCollector_streaming_def EventCollector_new_def)

lemma collector_ok_commit: "collector_ok ec \<Longrightarrow> collector_ok (ec\<lparr>output_committed := True\<rparr>)"
  by (simp add: collector_ok_def)

definition may_emit :: "runtime_event_type \<Rightarrow> event_collector \<Rightarrow> bool" where
  "may_emit t ec \<longleftrightarrow> t \<notin> output_types \<and> (t = ProviderAttemptStarted \<longrightarrow> \<not> output_committed ec)"

lemma may_emit_simps [simp]:
  "may_emit ToolResult ec" "may_emit ProviderAttemptFailed ec" "may_emit FallbackSelected ec"
  "may_emit ExecutionCompleted ec" "may_emit ExecutionFailedEvent ec" "may_emit ModelSelected ec"
  "may_emit CandidateRanked ec"
  "may_emit ProviderAttemptStarted ec \<longleftrightarrow> \<not> output_committed ec"
  by (simp_all add: may_emit_def output_types_def)

lemma upt_snoc: "1 \<le> n \<Longrightarrow> [1 ..< n] @ [n] = [1 ..< Suc n]"
  by simp

lemma emit_props:
  assumes "collector_ok ec" and "ev_sequence e = next_sequence ec" and "may_emit (ev_type e) ec"
  shows "collector_ok (emit e (ec\<lparr>next_sequence := next_sequence ec + 1\<rparr>))"
    and "output_committed (emit e (ec\<lparr>next_sequence := next_sequence ec + 1\<rparr>)) = output_committed ec"
proof -
  show "output_committed (emit e (ec\<lparr>next_sequence := next_sequence ec + 1\<rparr>)) = output_committed ec"
    by (simp add: emit_def forward_now_def Let_def split: send_result.splits)
  have less: "\<forall>e' \<in> set (ec_sent ec). ev_sequence e' < Suc (next_sequence ec)"
    using assms(1) by (auto simp: collector_ok_def less_SucI)
  have order: "\<forall>e' \<in> set (ec_events ec @ ec_sent ec). no_restart e' e"
    using assms(1,3) by (auto simp: collector_ok_def may_emit_def no_restart_def)
  have out: "ev_type e \<notin> output_types" using assms(3) by (simp add: may_emit_def)
  note less = less order out
  show "collector_ok (emit e (ec\<lparr>next_sequence := next_sequence ec + 1\<rparr>))"
  proof (cases "ec_live ec")
    case False
    with assms less show ?thesis by (simp add: emit_def collector_ok_def sorted_wrt_append)
  next
    case True
    show ?thesis
    proof (cases "delivery_failure ec = None")
      case True
      with assms less \<open>ec_live ec\<close> show ?thesis
        by (cases "case ec_send_results ec of [] \<Rightarrow> SendOk | r # _ \<Rightarrow> r")
          (simp_all add: emit_def forward_now_def collector_ok_def sorted_wrt_append)
    next
      case False
      with assms less True show ?thesis by (auto simp: emit_def forward_now_def collector_ok_def)
    qed
  qed
qed

lemma push_event_props:
  assumes "collector_ok ec" and "may_emit t ec"
  shows "collector_ok (push_event t ec)" and "output_committed (push_event t ec) = output_committed ec"
  using emit_props [OF assms(1), of "\<lparr>ev_sequence = next_sequence ec, ev_type = t\<rparr>"] assms(2)
  by (simp_all add: push_event_def)

lemma push_tool_result_props:
  assumes "collector_ok ec"
  shows "collector_ok (push_tool_result_events n ec)"
    and "output_committed (push_tool_result_events n ec) = output_committed ec"
  using assms by (induction n) (simp_all add: push_tool_result_events_def push_event_props)

lemma collector_ok_snoc:
  fixes t :: runtime_event_type
  defines "e n \<equiv> \<lparr>ev_sequence = n, ev_type = t\<rparr>"
  assumes ok: "collector_ok ec" and t: "t \<noteq> ProviderAttemptStarted" and b: "t \<notin> output_types \<or> b"
  shows "ec_live ec \<Longrightarrow> collector_ok (ec\<lparr>next_sequence := next_sequence ec + 1\<rparr>)"
    and "\<not> ec_live ec \<Longrightarrow> collector_ok (ec\<lparr>next_sequence := next_sequence ec + 1,
      ec_events := ec_events ec @ [e (next_sequence ec)], output_committed := output_committed ec \<or> b\<rparr>)"
    and "ec_live ec \<Longrightarrow> collector_ok (ec\<lparr>next_sequence := next_sequence ec + 1,
      ec_sent := ec_sent ec @ [e (next_sequence ec)], output_committed := output_committed ec \<or> b\<rparr>)"
proof -
  have less: "\<forall>e' \<in> set (ec_sent ec). ev_sequence e' < Suc (next_sequence ec)"
    using ok by (auto simp: collector_ok_def less_SucI)
  have last: "no_restart e' (e n)" for e' n
    using t by (simp add: no_restart_def e_def)
  show "collector_ok (ec\<lparr>next_sequence := next_sequence ec + 1\<rparr>)" if "ec_live ec"
    using ok less that by (simp add: collector_ok_def sorted_wrt_append)
  show "collector_ok (ec\<lparr>next_sequence := next_sequence ec + 1,
      ec_events := ec_events ec @ [e (next_sequence ec)], output_committed := output_committed ec \<or> b\<rparr>)" if "\<not> ec_live ec"
    using ok less last b that by (auto simp: collector_ok_def sorted_wrt_append e_def)
  show "collector_ok (ec\<lparr>next_sequence := next_sequence ec + 1,
      ec_sent := ec_sent ec @ [e (next_sequence ec)], output_committed := output_committed ec \<or> b\<rparr>)" if "ec_live ec"
    using ok less last b that by (auto simp: collector_ok_def sorted_wrt_append e_def)
qed

lemma push_stream_props:
  assumes "collector_ok ec" and "push_stream t d ec = (r, ec')" and "t \<noteq> ProviderAttemptStarted"
  shows "collector_ok (ec'\<lparr>output_committed := True\<rparr>)"
    and "t \<notin> output_types \<or> (\<exists>f. r = Err f) \<Longrightarrow> collector_ok ec'"
    and "output_committed ec' = output_committed ec" and "r = Err f \<Longrightarrow> is_final f"
proof -
  note snoc = collector_ok_snoc [OF assms(1,3), of True, simplified] collector_ok_snoc [OF assms(1,3), of False, simplified]
  show "collector_ok (ec'\<lparr>output_committed := True\<rparr>)"
    using assms(1,2) snoc(1-3)
    by (cases d) (auto simp: push_stream_def Let_def intro: collector_ok_commit split: option.splits if_splits)
  show "collector_ok ec'" if "t \<notin> output_types \<or> (\<exists>f. r = Err f)"
    using assms(1,2) snoc(1,5,6) that
    by (cases d) (auto simp: push_stream_def Let_def split: option.splits if_splits)
  show "output_committed ec' = output_committed ec"
    using assms(2) by (cases d) (auto simp: push_stream_def Let_def split: option.splits if_splits)
  show "r = Err f \<Longrightarrow> is_final f"
    using assms by (cases d) (auto simp: push_stream_def collector_ok_def Let_def split: option.splits if_splits)
qed

lemma deliver_output_props:
  assumes "collector_ok ec" and "sp_committed sp = output_committed ec"
    and "deliver_output t d delta sp ec = (r, ec')" and "t \<noteq> ProviderAttemptStarted"
  shows "collector_ok ec'" and "r = Err f \<Longrightarrow> is_final f"
    and "r = Ok sp' \<Longrightarrow> sp_committed sp' = output_committed ec'"
    and "r = Err f \<Longrightarrow> output_committed ec' = output_committed ec"
  using assms
  by (auto simp: deliver_output_def split: prod.splits sum.splits dest: push_stream_props)

lemma handle_item_props:
  assumes "collector_ok ec" and "sp_committed sp = output_committed ec" and "handle_item item d sp ec = (r, ec')"
  shows "collector_ok ec'" and "r = Err f \<Longrightarrow> is_final f"
    and "r = Ok sp' \<Longrightarrow> sp_committed sp' = output_committed ec'"
    and "r = Err f \<Longrightarrow> output_committed ec' = output_committed ec"
proof -
  have "UsageUpdatedEvent \<notin> output_types" by (simp add: output_types_def)
  with assms have "collector_ok ec' \<and> (\<forall>f. r = Err f \<longrightarrow> is_final f \<and> output_committed ec' = output_committed ec) \<and>
      (\<forall>sp'. r = Ok sp' \<longrightarrow> sp_committed sp' = output_committed ec')"
    using deliver_output_props [OF assms(1,2)]
    by (cases item)
      (auto simp: handle_item_def split: prod.splits sum.splits dest: push_stream_props)
  then show "collector_ok ec'" and "r = Err f \<Longrightarrow> is_final f"
    and "r = Ok sp' \<Longrightarrow> sp_committed sp' = output_committed ec'"
    and "r = Err f \<Longrightarrow> output_committed ec' = output_committed ec" by auto
qed

lemma stream_loop_props:
  assumes "collector_ok ec" and "sp_committed sp = output_committed ec" and "stream_loop polls sp ec = (r, ec')"
  shows "collector_ok ec' \<and> (\<forall>f. r = Err f \<longrightarrow> output_committed ec' \<longrightarrow> is_final f)"
  using assms
proof (induction polls sp ec rule: stream_loop.induct)
  case (2 poll polls sp ec)
  show ?case
  proof (cases poll)
    case (PollItem item d)
    obtain r1 ec1 where h: "handle_item item d sp ec = (r1, ec1)" by fastforce
    note props = handle_item_props [OF 2(2,3) h]
    show ?thesis
    proof (cases r1)
      case (Inl f)
      with 2(4) PollItem h props show ?thesis by auto
    next
      case (Inr sp1)
      with 2(4) PollItem h have "stream_loop polls sp1 ec1 = (r, ec')" by simp
      with 2(1) [OF PollItem h [symmetric] Inr] props Inr show ?thesis by simp
    qed
  qed (use 2 in \<open>auto simp: final_if_def\<close>)
qed auto

lemma execute_rig_stream_props:
  assumes "collector_ok ec" and "\<not> output_committed ec"
    and "execute_rig_stream parse_json wants started polls stopped ec = (r, ec')"
  shows "collector_ok ec' \<and>
    (output_committed ec' \<longrightarrow> (\<forall>fa. r = Some (Err fa) \<longrightarrow>
       \<not> failure_retryable (fa_failure fa) \<and> \<not> failure_fallback_eligible (fa_failure fa)))"
proof (cases "delivery_failure ec \<noteq> None \<or> (\<exists>f. started = Err f)")
  case True
  with assms show ?thesis
    by (auto simp: execute_rig_stream_def split: option.splits sum.splits)
next
  case False
  obtain r1 ec1 where loop: "stream_loop polls start_progress ec = (r1, ec1)" by fastforce
  have "collector_ok ec1 \<and> (\<forall>f. r1 = Err f \<longrightarrow> output_committed ec1 \<longrightarrow> is_final f)"
    using stream_loop_props [OF assms(1) _ loop] assms(2) by (simp add: start_progress_def)
  moreover have "structured_output_from_text parse_json wants t = Err f \<Longrightarrow> is_final f" for t f
    by (auto simp: structured_output_from_text_def split: option.splits if_splits)
  ultimately show ?thesis
    using assms(3) loop False
    by (cases started)
      (auto simp: execute_rig_stream_def failed_attempt_from_def is_final_def split: option.splits sum.splits if_splits)
qed

section \<open>Properties\<close>

text \<open>
  C38: Once a streamed attempt has delivered output to the consumer, no failure of that attempt
  is retried or falls back to another provider, whatever the provider reported; and sequence
  numbers of delivered events stay strictly increasing.
\<close>

theorem stream_output_is_final:
  assumes "collector_ok ec" and "\<not> output_committed ec"
    and "execute_rig_stream parse_json wants started polls stopped ec = (r, ec')"
  shows "collector_ok ec' \<and>
    (output_committed ec' \<longrightarrow> (\<forall>fa. r = Some (Err fa) \<longrightarrow>
       \<not> failure_retryable (fa_failure fa) \<and> \<not> failure_fallback_eligible (fa_failure fa)))"
  using execute_rig_stream_props [OF assms] by simp

theorem stream_output_is_final_witness:
  "\<exists>ec'. execute_rig_stream (\<lambda>_. None) False (Ok ()) [PollItem (TextDelta ''a'') Delivered, PollIdle] False
       (EventCollector_streaming [] False) = (Some (Err (failed_attempt_from (make_final idle_failure))), ec') \<and>
     collector_ok ec'"
proof -
  obtain ec' where run: "execute_rig_stream (\<lambda>_. None) False (Ok ()) [PollItem (TextDelta ''a'') Delivered, PollIdle] False
       (EventCollector_streaming [] False) = (Some (Err (failed_attempt_from (make_final idle_failure))), ec')"
    by (simp add: execute_rig_stream_def EventCollector_streaming_def EventCollector_new_def handle_item_def
        deliver_output_def push_stream_def final_if_def)
  moreover have "\<not> output_committed (EventCollector_streaming [] False)"
    by (simp add: EventCollector_streaming_def EventCollector_new_def)
  ultimately show ?thesis
    using stream_output_is_final [OF collector_ok_streaming _ run] by blast
qed

end
