(* ===== verification/Execution_Loop.thy ===== *)
theory Execution_Loop
  imports Circuit_Breaker Concurrency Execution_Events
begin

text \<open>
  The attempt loop of \<open>MoiraExecutionService::execute_inner\<close>, \<open>src/src/application/execution.rs\<close>:
  the candidates of an execution in order, the attempts of one candidate with their retries, and
  what each attempt does to the circuit breaker, the concurrency controller, the event collector
  and the database.

  Everything the outside world decides is in the environment records: the clock readings, the
  answers of the phases before an attempt, what the provider did, whether a deadline or a
  cancellation stopped it, and how a wait before a retry ended. A database statement fails when
  the head of \<open>es_faults\<close> says so, and is logged otherwise. Latencies, metrics and log lines are
  left out.
\<close>

section \<open>Data\<close>

datatype attempt_status = AttemptStarted | AttemptSucceeded | AttemptFailed | AttemptCancelled

datatype execution_status = Succeeded | Failed | Cancelled

record provider_attempt_summary =
  pa_attempt_id :: uuid
  pa_attempt_number :: int
  pa_provider_id :: uuid
  pa_provider_model_id :: uuid
  pa_credential_id :: uuid
  pa_status :: attempt_status
  pa_failure_class :: "execution_failure_class option"
  pa_usage :: usage_summary

datatype model_selection_reason = ModelExplicitHint | ModelPriority | ModelWeighted

record model_decision =
  md_policy_id :: uuid
  md_provider_id :: uuid
  md_provider_model_id :: uuid
  md_model_key :: string
  md_provider_type :: provider_type
  md_reason :: model_selection_reason

record execution_outcome =
  eo_request_id :: string
  eo_execution_id :: uuid
  eo_status :: execution_status
  eo_output_text :: "string option"
  eo_structured_output :: "json option"
  eo_usage :: usage_summary
  eo_route :: "route_decision option"
  eo_model :: "model_decision option"
  eo_attempts :: "provider_attempt_summary list"
  eo_failure :: "execution_failure option"

datatype db_op =
    InsertAttemptStarted uuid int
  | UpdateAttempt uuid attempt_status "execution_failure_class option" usage_summary
  | InsertUsageRecord uuid usage_summary
  | TouchCredentialUsed uuid
  | AuditEvent string bool

record ('s, 'c) exec_state =
  es_circuits :: circuits
  es_controller :: "('s, 'c) controller"
  es_events :: event_collector
  es_faults :: "app_error option list"
  es_log :: "db_op list"
  es_total_attempts :: nat
  es_attempts :: "provider_attempt_summary list"
  es_last_failure :: "execution_failure option"

section \<open>The environment\<close>

datatype 'a phase_run = PhaseReturns duration "execution_failure + 'a" | PhaseHangs

datatype attempt_end = EndReturns | EndElapsed | EndCancelled

record retry_env =
  re_now :: instant
  re_cancelled_while_waiting :: bool
  re_is_cancelled :: bool
  re_now_after :: instant

record attempt_env =
  ae_now :: instant
  ae_attempt_id :: uuid
  ae_clock :: "capacity_scope \<Rightarrow> instant"
  ae_request :: "execution_failure option"
  ae_started :: "execution_failure + unit"
  ae_polls :: "stream_poll list"
  ae_completion :: "execution_failure + completion_output"
  ae_tool_loop :: "failed_attempt + tool_loop_outcome"
  ae_end :: attempt_end
  ae_persist_elapsed :: "nat option"
  ae_failed_now :: instant
  ae_deadline_now :: instant
  ae_retry :: retry_env

record candidate_env =
  ce_credential_now :: instant
  ce_credential :: "uuid phase_run"
  ce_circuit_now :: instant
  ce_handle_now :: instant
  ce_handle :: "unit phase_run"
  ce_attempt :: "nat \<Rightarrow> attempt_env"

text \<open>What does not change during one execution.\<close>

record 's exec_context =
  xc_semaphore :: "'s semaphore_ops"
  xc_show_uuid :: "uuid \<Rightarrow> string"
  xc_sha256 :: "string \<Rightarrow> string"
  xc_parse_json :: "string \<Rightarrow> json option"
  xc_maximum_total_upstream_attempts :: nat
  xc_command :: execution_command
  xc_policy :: effective_execution_policy
  xc_route :: route_decision
  xc_has_tools :: bool
  xc_deadline :: instant

section \<open>Helpers\<close>

definition attempt_status_for_failure :: "execution_failure_class \<Rightarrow> attempt_status" where
  "attempt_status_for_failure c = (if c = RequestCancelled then AttemptCancelled else AttemptFailed)"

definition execution_status_for_failure :: "execution_failure_class \<Rightarrow> execution_status" where
  "execution_status_for_failure c = (if c = RequestCancelled then Cancelled else Failed)"

definition attempt_summary ::
    "uuid \<Rightarrow> nat \<Rightarrow> model_candidate \<Rightarrow> uuid \<Rightarrow> execution_failure_class option \<Rightarrow> usage_summary
      \<Rightarrow> provider_attempt_summary" where
  "attempt_summary i n c credential fc u =
     \<lparr>pa_attempt_id = i, pa_attempt_number = wrap_i32 (int n), pa_provider_id = mc_provider_id c,
      pa_provider_model_id = mc_provider_model_id c, pa_credential_id = credential,
      pa_status = (case fc of None \<Rightarrow> AttemptSucceeded | Some f \<Rightarrow> attempt_status_for_failure f),
      pa_failure_class = fc, pa_usage = u\<rparr>"

definition usage_reported_by :: "provider_attempt_summary list \<Rightarrow> usage_summary" where
  "usage_reported_by attempts =
     (case find (\<lambda>a. usage_was_reported (pa_usage a)) (rev attempts) of
        None \<Rightarrow> default_usage | Some a \<Rightarrow> pa_usage a)"

definition failed_outcome ::
    "execution_command \<Rightarrow> route_decision option \<Rightarrow> model_decision option \<Rightarrow> provider_attempt_summary list
      \<Rightarrow> execution_failure \<Rightarrow> execution_outcome" where
  "failed_outcome cmd route model attempts failure =
     \<lparr>eo_request_id = cmd_request_id cmd, eo_execution_id = cmd_execution_id cmd,
      eo_status = execution_status_for_failure (failure_class failure), eo_output_text = None,
      eo_structured_output = None, eo_usage = usage_reported_by attempts, eo_route = route,
      eo_model = model, eo_attempts = attempts, eo_failure = Some failure\<rparr>"

definition remaining_execution_time :: "instant \<Rightarrow> instant \<Rightarrow> duration option" where
  "remaining_execution_time deadline now = (if now < deadline then Some (deadline - now) else None)"

definition bounded_phase :: "instant \<Rightarrow> instant \<Rightarrow> 'a phase_run \<Rightarrow> execution_failure + 'a" where
  "bounded_phase deadline now run =
     (case remaining_execution_time deadline now of
        None \<Rightarrow> Err deadline_failure
      | Some remaining \<Rightarrow>
          (case run of
             PhaseReturns d r \<Rightarrow> if d \<le> remaining then r else Err deadline_failure
           | PhaseHangs \<Rightarrow> Err deadline_failure))"

datatype retry_wait = RetryReady | RetryDeadline | RetryCancelled

definition sleep_for_retry :: "nat \<Rightarrow> provider_runtime_policy \<Rightarrow> instant \<Rightarrow> retry_env \<Rightarrow> retry_wait" where
  "sleep_for_retry retry_number policy deadline env =
     (case remaining_execution_time deadline (re_now env) of
        None \<Rightarrow> RetryDeadline
      | Some remaining \<Rightarrow>
          (let base = as_u64 (max (retry_base_delay_ms policy) 0);
               maximum = as_u64 (max (retry_max_delay_ms policy) 0);
               delay = from_millis (min (sat_mul u64_max base (min u64_max (2 ^ retry_number))) maximum)
           in if 0 < delay \<and> remaining \<le> delay then
                (if re_cancelled_while_waiting env then RetryCancelled else RetryDeadline)
              else if 0 < delay \<and> re_cancelled_while_waiting env then RetryCancelled
              else if re_is_cancelled env then RetryCancelled
              else if remaining_execution_time deadline (re_now_after env) \<noteq> None then RetryReady
              else RetryDeadline))"

section \<open>Database statements\<close>

fun run_db :: "db_op list \<Rightarrow> ('s, 'c) exec_state \<Rightarrow> (app_error + unit) \<times> ('s, 'c) exec_state" where
  "run_db [] st = (Ok (), st)"
| "run_db (op # ops) st =
     (case es_faults st of
        Some e # fs \<Rightarrow> (Err e, st\<lparr>es_faults := fs\<rparr>)
      | fs \<Rightarrow> run_db ops (st\<lparr>es_faults := tl fs, es_log := es_log st @ [op]\<rparr>))"

text \<open>How a piece of the loop ends: with the result of the execution, or by
  leaving or repeating the inner loop (with the number of retries so far).\<close>

datatype loop_step =
    StepReturn "app_error + execution_outcome"
  | StepBreak
  | StepContinue nat

definition db_then ::
    "db_op list \<Rightarrow> ('s, 'c) exec_state \<Rightarrow> (('s, 'c) exec_state \<Rightarrow> loop_step \<times> ('s, 'c) exec_state)
      \<Rightarrow> loop_step \<times> ('s, 'c) exec_state" where
  "db_then ops st k = (case run_db ops st of (Err e, st') \<Rightarrow> (StepReturn (Err e), st') | (Ok _, st') \<Rightarrow> k st')"

definition on_events ::
    "(event_collector \<Rightarrow> event_collector) \<Rightarrow> ('s, 'c) exec_state \<Rightarrow> ('s, 'c) exec_state" where
  "on_events f st = st\<lparr>es_events := f (es_events st)\<rparr>"

definition return_failed ::
    "'s exec_context \<Rightarrow> model_decision option \<Rightarrow> execution_failure \<Rightarrow> ('s, 'c) exec_state
      \<Rightarrow> loop_step \<times> ('s, 'c) exec_state" where
  "return_failed xc model failure st =
     (StepReturn (Ok (failed_outcome (xc_command xc) (Some (xc_route xc)) model (es_attempts st) failure)), st)"

section \<open>One attempt\<close>

definition record_attempt :: "provider_attempt_summary \<Rightarrow> ('s, 'c) exec_state \<Rightarrow> ('s, 'c) exec_state" where
  "record_attempt a st = st\<lparr>es_attempts := es_attempts st @ [a]\<rparr>"

definition set_last_failure :: "execution_failure \<Rightarrow> ('s, 'c) exec_state \<Rightarrow> ('s, 'c) exec_state" where
  "set_last_failure f st = st\<lparr>es_last_failure := Some f\<rparr>"

definition retry_or_break ::
    "'s exec_context \<Rightarrow> model_candidate \<Rightarrow> effective_runtime_policy \<Rightarrow> nat \<Rightarrow> execution_failure \<Rightarrow> retry_env
      \<Rightarrow> ('s, 'c) exec_state \<Rightarrow> loop_step \<times> ('s, 'c) exec_state" where
  "retry_or_break xc cand erp retries failure env st =
     (if failure_retryable failure \<and> retries < erp_max_retries erp then
        case sleep_for_retry (retries + 1) (mc_runtime_policy cand) (xc_deadline xc) env of
          RetryReady \<Rightarrow> (StepContinue (retries + 1), st)
        | RetryDeadline \<Rightarrow> (StepBreak, set_last_failure deadline_failure st)
        | RetryCancelled \<Rightarrow> (StepBreak, set_last_failure cancelled_failure st)
      else (StepBreak, st))"

definition on_circuits :: "(circuits \<Rightarrow> circuits) \<Rightarrow> ('s, 'c) exec_state \<Rightarrow> ('s, 'c) exec_state" where
  "on_circuits f st = st\<lparr>es_circuits := f (es_circuits st)\<rparr>"

definition settle_success ::
    "'s exec_context \<Rightarrow> model_candidate \<Rightarrow> uuid \<Rightarrow> model_decision \<Rightarrow> nat \<Rightarrow> attempt_env \<Rightarrow> execution_run_output
      \<Rightarrow> ('s, 'c) exec_state \<Rightarrow> loop_step \<times> ('s, 'c) exec_state" where
  "settle_success xc cand credential model n env output st =
     (let i = ae_attempt_id env;
          ops = [UpdateAttempt i AttemptSucceeded None (ro_usage output),
                 InsertUsageRecord i (ro_usage output), TouchCredentialUsed credential];
          outcome = (\<lambda>status attempts failure.
            \<lparr>eo_request_id = cmd_request_id (xc_command xc), eo_execution_id = cmd_execution_id (xc_command xc),
             eo_status = status, eo_output_text = Some (ro_text output),
             eo_structured_output = ro_structured_output output, eo_usage = ro_usage output,
             eo_route = Some (xc_route xc), eo_model = Some model, eo_attempts = attempts, eo_failure = failure\<rparr>)
      in case ae_persist_elapsed env of
           Some k \<Rightarrow>
             db_then (take k ops) st (\<lambda>st.
               let failure = terminal_persistence_deadline_failure;
                   st = snd (run_db [AuditEvent ''execution.terminal_persistence_deadline_exceeded'' False] st);
                   st = record_attempt (attempt_summary i n cand credential (Some (failure_class failure)) (ro_usage output)) st;
                   st = on_events (push_event ExecutionFailedEvent) st
               in (StepReturn (Ok (outcome (execution_status_for_failure (failure_class failure)) (es_attempts st) (Some failure))), st))
         | None \<Rightarrow>
             db_then ops st (\<lambda>st.
             db_then [AuditEvent ''provider.attempt.completed'' True]
               (on_circuits (circuit_on_success (mc_provider_id cand) (mc_provider_model_id cand)) st) (\<lambda>st.
               let st = record_attempt (attempt_summary i n cand credential None (ro_usage output)) st;
                   st = on_events (fold push_existing (ro_events output)) st;
                   st = on_events (push_tool_result_events (ro_tool_calls output)) st;
                   st = on_events (push_event ExecutionCompleted) st
               in db_then [AuditEvent ''execution.completed'' True] st (\<lambda>st.
                    (StepReturn (Ok (outcome Succeeded (es_attempts st) None)), st)))))"

definition settle_failed ::
    "'s exec_context \<Rightarrow> model_candidate \<Rightarrow> uuid \<Rightarrow> nat \<Rightarrow> effective_runtime_policy \<Rightarrow> nat \<Rightarrow> attempt_env \<Rightarrow> failed_attempt
      \<Rightarrow> ('s, 'c) exec_state \<Rightarrow> loop_step \<times> ('s, 'c) exec_state" where
  "settle_failed xc cand credential n erp retries env fa st =
     (let i = ae_attempt_id env; failure = fa_failure fa; fc = failure_class failure;
          st = on_circuits (circuit_on_failure (ae_failed_now env) (mc_provider_id cand) (mc_provider_model_id cand)
                 (mc_runtime_policy cand) fc) st
      in db_then (UpdateAttempt i (attempt_status_for_failure fc) (Some fc) (fa_usage fa) #
                  (if usage_was_reported (fa_usage fa) then [InsertUsageRecord i (fa_usage fa)] else [])) st (\<lambda>st.
         let st = record_attempt (attempt_summary i n cand credential (Some fc) (fa_usage fa)) st;
             st = on_events (push_tool_result_events (fa_tool_calls fa)) st;
             st = on_events (push_event ProviderAttemptFailed) st
         in db_then [AuditEvent ''provider.attempt.failed'' False] st (\<lambda>st.
              retry_or_break xc cand erp retries failure (ae_retry env) (set_last_failure failure st))))"

definition settle_timeout ::
    "'s exec_context \<Rightarrow> model_candidate \<Rightarrow> uuid \<Rightarrow> nat \<Rightarrow> effective_runtime_policy \<Rightarrow> nat \<Rightarrow> bool \<Rightarrow> attempt_env
      \<Rightarrow> ('s, 'c) exec_state \<Rightarrow> loop_step \<times> ('s, 'c) exec_state" where
  "settle_timeout xc cand credential n erp retries bounded env st =
     (let i = ae_attempt_id env;
          failure = attempt_timeout_failure
            (bounded \<or> remaining_execution_time (xc_deadline xc) (ae_deadline_now env) = None)
            (output_committed (es_events st));
          fc = failure_class failure;
          st = on_circuits (circuit_on_failure (ae_failed_now env) (mc_provider_id cand) (mc_provider_model_id cand)
                 (mc_runtime_policy cand) fc) st
      in db_then [UpdateAttempt i (attempt_status_for_failure fc) (Some fc) default_usage] st (\<lambda>st.
         let st = record_attempt (attempt_summary i n cand credential (Some fc) default_usage) st
         in retry_or_break xc cand erp retries failure (ae_retry env) (set_last_failure failure st)))"

datatype attempt_result =
    ResOk execution_run_output
  | ResErr failed_attempt
  | ResElapsed

definition run_provider ::
    "'s exec_context \<Rightarrow> attempt_env \<Rightarrow> event_collector \<Rightarrow> attempt_result \<times> event_collector" where
  "run_provider xc env ec =
     (let ended = (\<lambda>r. case r of
            Some (Ok output) \<Rightarrow> ResOk output
          | Some (Err fa) \<Rightarrow> ResErr fa
          | None \<Rightarrow> (case ae_end env of
                       EndCancelled \<Rightarrow> ResErr (failed_attempt_from cancelled_failure)
                     | _ \<Rightarrow> ResElapsed));
          opts = cmd_options (xc_command xc)
      in if opt_stream opts then
           case execute_rig_stream (xc_parse_json xc) (opt_output_schema opts \<noteq> None) (ae_started env)
                  (ae_polls env) (ae_end env \<noteq> EndReturns) ec of
             (r, ec') \<Rightarrow> (ended r, ec')
         else if ae_end env \<noteq> EndReturns then (ended None, ec)
         else if xc_has_tools xc then (ended (Some (execute_rig_tool_loop (ae_tool_loop env))), ec)
         else (ended (Some (execute_rig_completion (xc_parse_json xc) (opt_output_schema opts \<noteq> None)
                              (ae_completion env))), ec))"

definition acquire_request_of :: "'s exec_context \<Rightarrow> model_candidate \<Rightarrow> acquire_request" where
  "acquire_request_of xc cand =
     \<lparr>rq_provider_id = mc_provider_id cand,
      rq_provider_request_limit = as_u64 (max (max_concurrent_requests (mc_runtime_policy cand)) 1),
      rq_is_stream = opt_stream (cmd_options (xc_command xc)),
      rq_provider_stream_limit = as_u64 (max (max_concurrent_streams (mc_runtime_policy cand)) 1),
      rq_application_id = cmd_application_id (xc_command xc),
      rq_external_user_id = cmd_external_user_id (xc_command xc)\<rparr>"

definition fail_attempt ::
    "model_candidate \<Rightarrow> uuid \<Rightarrow> nat \<Rightarrow> attempt_env \<Rightarrow> execution_failure \<Rightarrow> ('s, 'c) exec_state
      \<Rightarrow> (('s, 'c) exec_state \<Rightarrow> loop_step \<times> ('s, 'c) exec_state) \<Rightarrow> loop_step \<times> ('s, 'c) exec_state" where
  "fail_attempt cand credential n env failure st k =
     (let i = ae_attempt_id env; fc = failure_class failure
      in db_then [UpdateAttempt i (attempt_status_for_failure fc) (Some fc) default_usage,
                  AuditEvent ''provider.attempt.failed'' False] st (\<lambda>st.
         k (record_attempt (attempt_summary i n cand credential (Some fc) default_usage) st)))"

definition call_provider ::
    "'s exec_context \<Rightarrow> model_candidate \<Rightarrow> uuid \<Rightarrow> model_decision \<Rightarrow> effective_runtime_policy \<Rightarrow> nat \<Rightarrow> nat \<Rightarrow> duration
      \<Rightarrow> attempt_env \<Rightarrow> ('s, 'c) exec_state \<Rightarrow> loop_step \<times> ('s, 'c) exec_state" where
  "call_provider xc cand credential model erp retries n remaining env st =
     (case acquire (xc_semaphore xc) (xc_show_uuid xc) (xc_sha256 xc) (ae_clock env) (acquire_request_of xc cand)
             (es_controller st) of
        (Err scope, ctl) \<Rightarrow>
          fail_attempt cand credential n env (capacity_failure scope) (st\<lparr>es_controller := ctl\<rparr>) (\<lambda>st.
            (StepBreak, set_last_failure (capacity_failure scope) st))
      | (Ok permits, ctl) \<Rightarrow>
          (case ae_request env of
             Some failure \<Rightarrow>
               fail_attempt cand credential n env failure
                 (st\<lparr>es_controller := ExecutionPermits_drop (xc_semaphore xc) True permits ctl\<rparr>) (\<lambda>st.
                 return_failed xc (Some model) failure st)
           | None \<Rightarrow>
               (let timeout = from_millis (erp_timeout_ms erp);
                    bounded = min remaining timeout < timeout;
                    (res, ec) = run_provider xc env (es_events st);
                    st = st\<lparr>es_events := ec, es_controller := ExecutionPermits_drop (xc_semaphore xc) True permits ctl\<rparr>
                in case res of
                     ResOk output \<Rightarrow> settle_success xc cand credential model n env output st
                   | ResErr fa \<Rightarrow> settle_failed xc cand credential n erp retries env fa st
                   | ResElapsed \<Rightarrow> settle_timeout xc cand credential n erp retries bounded env st)))"

definition attempt_step ::
    "'s exec_context \<Rightarrow> model_candidate \<Rightarrow> uuid \<Rightarrow> model_decision \<Rightarrow> effective_runtime_policy \<Rightarrow> nat
      \<Rightarrow> attempt_env \<Rightarrow> ('s, 'c) exec_state \<Rightarrow> loop_step \<times> ('s, 'c) exec_state" where
  "attempt_step xc cand credential model erp retries env st =
     (case remaining_execution_time (xc_deadline xc) (ae_now env) of
        None \<Rightarrow> return_failed xc (Some model) deadline_failure st
      | Some remaining \<Rightarrow>
          if xc_maximum_total_upstream_attempts xc \<le> es_total_attempts st then
            return_failed xc (Some model)
              (ExecutionFailure_new DeadlineExceeded ''maximum upstream attempts reached'') st
          else
            let n = es_total_attempts st + 1; st = st\<lparr>es_total_attempts := n\<rparr>
            in db_then [InsertAttemptStarted (ae_attempt_id env) (wrap_i32 (int n))] st (\<lambda>st.
               db_then [AuditEvent ''provider.attempt.started'' True] (on_events (push_event ProviderAttemptStarted) st) (\<lambda>st.
               call_provider xc cand credential model erp retries n remaining env st)))"

section \<open>What one attempt preserves\<close>

text \<open>
  \<open>core_inv\<close>: the collector is well formed and no capacity is held, compared with the controller
  the execution started with. \<open>numbered k\<close>: the attempts on record carry the numbers \<open>1\<close> to \<open>k\<close>.
\<close>

definition core_inv ::
    "('s \<Rightarrow> nat) \<Rightarrow> ('s, 'c \<times> string list) controller \<Rightarrow> ('s, 'c \<times> string list) exec_state \<Rightarrow> bool" where
  "core_inv avail ctl0 st \<longleftrightarrow>
     collector_ok (es_events st) \<and> controller_inv (es_controller st) \<and> observed_cluster (es_controller st) \<and>
     capacity_in_use avail (es_controller st) = capacity_in_use avail ctl0"

definition numbered :: "nat \<Rightarrow> ('s, 'c) exec_state \<Rightarrow> bool" where
  "numbered k st \<longleftrightarrow> map pa_attempt_number (es_attempts st) = map int [1 ..< Suc k]"

definition step_post ::
    "('s \<Rightarrow> nat) \<Rightarrow> ('s, 'c \<times> string list) controller \<Rightarrow> nat \<Rightarrow> nat \<Rightarrow> nat
      \<Rightarrow> loop_step \<times> ('s, 'c \<times> string list) exec_state \<Rightarrow> bool" where
  "step_post avail ctl0 max_retries retries n res \<longleftrightarrow>
     (case res of (r, st) \<Rightarrow> core_inv avail ctl0 st \<and> es_total_attempts st = n \<and>
        (case r of
           StepReturn (Err _) \<Rightarrow> True
         | StepReturn (Ok oc) \<Rightarrow> numbered n st \<and> eo_attempts oc = es_attempts st
         | StepBreak \<Rightarrow> numbered n st \<and>
             (\<exists>f. es_last_failure st = Some f \<and> (output_committed (es_events st) \<longrightarrow> is_final f))
         | StepContinue r \<Rightarrow> numbered n st \<and> r = Suc retries \<and> retries < max_retries \<and>
             \<not> output_committed (es_events st)))"

lemma run_db_frame: "\<exists>fs log. snd (run_db ops st) = st\<lparr>es_faults := fs, es_log := log\<rparr>"
proof (induction ops arbitrary: st)
  case Nil
  show ?case by (intro exI [of _ "es_faults st"] exI [of _ "es_log st"]) simp
next
  case (Cons op ops)
  let ?st = "st\<lparr>es_faults := tl (es_faults st), es_log := es_log st @ [op]\<rparr>"
  obtain fs log where IH: "snd (run_db ops ?st) = ?st\<lparr>es_faults := fs, es_log := log\<rparr>" using Cons by blast
  consider (fault) e fs where "es_faults st = Some e # fs" | (ok) "run_db (op # ops) st = run_db ops ?st"
    by (cases "es_faults st"; cases "hd (es_faults st)") auto
  then show ?case
  proof cases
    case (fault e fs)
    then show ?thesis by (intro exI [of _ fs] exI [of _ "es_log st"]) simp
  next
    case ok
    then show ?thesis using IH by (intro exI [of _ fs] exI [of _ log]) simp
  qed
qed

lemma core_inv_frame [simp]:
  "core_inv avail ctl0 (st\<lparr>es_faults := fs, es_log := log\<rparr>) = core_inv avail ctl0 st"
  "core_inv avail ctl0 (st\<lparr>es_circuits := c\<rparr>) = core_inv avail ctl0 st"
  "core_inv avail ctl0 (st\<lparr>es_attempts := as\<rparr>) = core_inv avail ctl0 st"
  "core_inv avail ctl0 (st\<lparr>es_last_failure := lf\<rparr>) = core_inv avail ctl0 st"
  "core_inv avail ctl0 (st\<lparr>es_total_attempts := n\<rparr>) = core_inv avail ctl0 st"
  by (simp_all add: core_inv_def)

lemma step_post_db_then:
  assumes "core_inv avail ctl0 st" and "es_total_attempts st = n"
    and "\<And>fs log. step_post avail ctl0 mr retries n (k (st\<lparr>es_faults := fs, es_log := log\<rparr>))"
  shows "step_post avail ctl0 mr retries n (db_then ops st k)"
proof -
  obtain fs log where frame: "snd (run_db ops st) = st\<lparr>es_faults := fs, es_log := log\<rparr>"
    using run_db_frame by blast
  show ?thesis
  proof (cases "run_db ops st")
    case (Pair r st1)
    with frame have st1: "st1 = st\<lparr>es_faults := fs, es_log := log\<rparr>" by simp
    show ?thesis
    proof (cases r)
      case (Inl e)
      then show ?thesis using Pair st1 assms(1,2) by (simp add: db_then_def step_post_def)
    next
      case (Inr u)
      then show ?thesis using Pair st1 assms(3) by (simp add: db_then_def)
    qed
  qed
qed

lemma core_inv_events:
  "core_inv avail ctl0 st \<Longrightarrow> collector_ok (f (es_events st)) \<Longrightarrow> core_inv avail ctl0 (on_events f st)"
  by (simp add: core_inv_def on_events_def)

lemma core_inv_collector: "core_inv avail ctl0 st \<Longrightarrow> collector_ok (es_events st)"
  by (simp add: core_inv_def)

lemma numbered_frame [simp]:
  "numbered k (st\<lparr>es_faults := fs, es_log := log\<rparr>) = numbered k st"
  "numbered k (st\<lparr>es_circuits := c\<rparr>) = numbered k st"
  "numbered k (st\<lparr>es_last_failure := lf\<rparr>) = numbered k st"
  "numbered k (st\<lparr>es_total_attempts := n\<rparr>) = numbered k st"
  "numbered k (st\<lparr>es_events := ec\<rparr>) = numbered k st"
  "numbered k (st\<lparr>es_controller := ctl\<rparr>) = numbered k st"
  by (simp_all add: numbered_def)

lemma numbered_record [simp]:
  "Suc k < 2 ^ 31 \<Longrightarrow>
    numbered (Suc k) (record_attempt (attempt_summary i (Suc k) cand credential fc u) st) = numbered k st"
  by (simp add: numbered_def record_attempt_def attempt_summary_def i32_range_def)

lemma helper_simps [simp]:
  "numbered k (on_events f st) = numbered k st"
  "numbered k (on_circuits g st) = numbered k st"
  "numbered k (set_last_failure lf st) = numbered k st"
  "es_total_attempts (on_events f st) = es_total_attempts st"
  "es_total_attempts (on_circuits g st) = es_total_attempts st"
  "es_total_attempts (record_attempt a st) = es_total_attempts st"
  "es_total_attempts (set_last_failure lf st) = es_total_attempts st"
  "es_events (on_events f st) = f (es_events st)"
  "es_events (on_circuits g st) = es_events st"
  "es_events (record_attempt a st) = es_events st"
  "es_events (set_last_failure lf st) = es_events st"
  "es_last_failure (set_last_failure lf st) = Some lf"
  by (simp_all add: on_events_def on_circuits_def record_attempt_def set_last_failure_def)

lemma core_inv_helpers [simp]:
  "core_inv avail ctl0 (on_circuits g st) = core_inv avail ctl0 st"
  "core_inv avail ctl0 (record_attempt a st) = core_inv avail ctl0 st"
  "core_inv avail ctl0 (set_last_failure lf st) = core_inv avail ctl0 st"
  by (simp_all add: on_circuits_def record_attempt_def set_last_failure_def)

lemmas event_props = core_inv_events core_inv_collector push_event_props push_tool_result_props

lemma retry_or_break_post:
  assumes "core_inv avail ctl0 st" and "es_total_attempts st = n" and "numbered n st"
    and "output_committed (es_events st) \<longrightarrow> is_final failure"
  shows "step_post avail ctl0 (erp_max_retries erp) retries n
    (retry_or_break xc cand erp retries failure env (set_last_failure failure st))"
  using assms
  by (auto simp: retry_or_break_def step_post_def is_final_def split: retry_wait.splits)

lemma settle_timeout_post:
  assumes "core_inv avail ctl0 st" and "es_total_attempts st = Suc k" and "numbered k st" and "Suc k < 2 ^ 31"
  shows "step_post avail ctl0 (erp_max_retries erp) retries (Suc k)
    (settle_timeout xc cand credential (Suc k) erp retries bounded env st)"
  unfolding settle_timeout_def Let_def
  using assms by (auto intro!: step_post_db_then retry_or_break_post)

lemma settle_failed_post:
  assumes "core_inv avail ctl0 st" and "es_total_attempts st = Suc k" and "numbered k st" and "Suc k < 2 ^ 31"
    and "output_committed (es_events st) \<longrightarrow> is_final (fa_failure fa)"
  shows "step_post avail ctl0 (erp_max_retries erp) retries (Suc k)
    (settle_failed xc cand credential (Suc k) erp retries env fa st)"
  unfolding settle_failed_def Let_def
  using assms by (auto intro!: step_post_db_then retry_or_break_post simp: event_props)

lemma settle_success_post:
  assumes "core_inv avail ctl0 st" and "es_total_attempts st = Suc k" and "numbered k st" and "Suc k < 2 ^ 31"
    and "ro_events output = []"
  shows "step_post avail ctl0 mr retries (Suc k) (settle_success xc cand credential model (Suc k) env output st)"
proof -
  have returned: "step_post avail ctl0 mr retries (Suc k) (StepReturn (Ok oc), st')"
    if "core_inv avail ctl0 st'" "es_total_attempts st' = Suc k" "numbered (Suc k) st'" "eo_attempts oc = es_attempts st'"
    for oc st'
    using that by (simp add: step_post_def)
  have late: "\<exists>fs log. snd (run_db ops st') = st'\<lparr>es_faults := fs, es_log := log\<rparr>" for ops and st' :: "('a, 'b \<times> string list) exec_state"
    by (rule run_db_frame)
  show ?thesis
  proof (cases "ae_persist_elapsed env")
    case None
    then show ?thesis
      unfolding settle_success_def Let_def
      using assms by (auto intro!: step_post_db_then returned simp: event_props)
  next
    case (Some j)
    then show ?thesis
      unfolding settle_success_def Let_def
      apply simp
      apply (rule step_post_db_then)
      using assms apply (simp_all)
      subgoal for fs log
        using late [of "[AuditEvent ''execution.terminal_persistence_deadline_exceeded'' False]" "st\<lparr>es_faults := fs, es_log := log\<rparr>"] assms
        by (auto intro!: returned simp: event_props)
      done
  qed
qed

subsection \<open>Calling the provider\<close>

lemma drop_cluster: "cluster (ExecutionPermits_drop sem True p ctl) = cluster ctl"
  by (simp add: ExecutionPermits_drop_def guards_drop)

lemma acquire_refused_inv:
  assumes "semaphore_laws sem avail" and "core_inv avail ctl0 st"
    and "acquire sem show_uuid sha256 clock rq (es_controller st) = (Err s, ctl)"
  shows "core_inv avail ctl0 (st\<lparr>es_controller := ctl\<rparr>)"
proof -
  have ctl: "observed_cluster (es_controller st)" "controller_inv (es_controller st)"
    using assms(2) by (simp_all add: core_inv_def)
  from acquire_Err_stages [OF assms(1) ctl assms(3)] obtain hs ks ctl1 p where
    A: "acquiring_from avail rq (es_controller st) hs ks ctl1 p" and ctl': "ctl = ExecutionPermits_drop sem True p ctl1" .
  have "cluster ctl = cluster (es_controller st)"
    using A by (simp add: ctl' drop_cluster acquiring_from_def)
  then show ?thesis
    using assms(2) drop_restores [OF assms(1) A, folded ctl'] by (simp add: core_inv_def observed_cluster_def)
qed

lemma acquire_dropped_inv:
  assumes "semaphore_laws sem avail" and "core_inv avail ctl0 st"
    and "acquire sem show_uuid sha256 clock rq (es_controller st) = (Ok p, ctl)"
  shows "core_inv avail ctl0 (st\<lparr>es_controller := ExecutionPermits_drop sem True p ctl\<rparr>)"
proof -
  have "observed_cluster (es_controller st)" "controller_inv (es_controller st)"
    using assms(2) by (simp_all add: core_inv_def)
  note A = acquire_Ok_stages [OF assms(1) this assms(3)]
  have "cluster (ExecutionPermits_drop sem True p ctl) = cluster (es_controller st)"
    using A by (simp add: drop_cluster acquiring_from_def)
  then show ?thesis
    using assms(2) drop_restores [OF assms(1) A] by (simp add: core_inv_def observed_cluster_def)
qed

lemma run_provider_props:
  assumes "collector_ok ec" and "\<not> output_committed ec" and "run_provider xc env ec = (r, ec')"
  shows "collector_ok ec'" and "r = ResErr fa \<Longrightarrow> output_committed ec' \<longrightarrow> is_final (fa_failure fa)"
    and "r = ResOk out \<Longrightarrow> ro_events out = []"
proof -
  have no_events: "execute_rig_stream pj w sd ps b ec0 = (Some (Ok out), ec1) \<Longrightarrow> ro_events out = []"
    "execute_rig_completion pj w ans = Ok out \<Longrightarrow> ro_events out = []"
    "execute_rig_tool_loop tl = Ok out \<Longrightarrow> ro_events out = []" for pj w sd ps b ec0 out ec1 ans tl
    by (auto simp: execute_rig_stream_def execute_rig_completion_def execute_rig_tool_loop_def
        split: option.splits sum.splits prod.splits if_splits)
  show "r = ResOk out \<Longrightarrow> ro_events out = []"
    using assms(3)
    by (auto simp: run_provider_def Let_def split: if_splits prod.splits option.splits sum.splits
        attempt_end.splits dest: no_events)
  have "collector_ok ec' \<and> (\<forall>fa. r = ResErr fa \<longrightarrow> output_committed ec' \<longrightarrow> is_final (fa_failure fa))"
  proof (cases "opt_stream (cmd_options (xc_command xc))")
    case True
    obtain r1 ec1 where run: "execute_rig_stream (xc_parse_json xc) (opt_output_schema (cmd_options (xc_command xc)) \<noteq> None)
        (ae_started env) (ae_polls env) (ae_end env \<noteq> EndReturns) ec = (r1, ec1)" by fastforce
    from execute_rig_stream_props [OF assms(1,2) this] assms(3) True run show ?thesis
      by (auto simp: run_provider_def Let_def is_final_def failed_attempt_from_def
          cancelled_failure_def ExecutionFailure_new_def is_retryable_def is_fallback_eligible_def
          split: option.splits sum.splits attempt_end.splits)
  next
    case False
    with assms show ?thesis by (auto simp: run_provider_def Let_def split: if_splits)
  qed
  then show "collector_ok ec'" and "r = ResErr fa \<Longrightarrow> output_committed ec' \<longrightarrow> is_final (fa_failure fa)" by auto
qed

lemma fail_attempt_post:
  assumes "core_inv avail ctl0 st" and "es_total_attempts st = Suc k" and "numbered k st" and "Suc k < 2 ^ 31"
    and "\<And>st'. core_inv avail ctl0 st' \<Longrightarrow> es_total_attempts st' = Suc k \<Longrightarrow> numbered (Suc k) st' \<Longrightarrow>
      es_events st' = es_events st \<Longrightarrow> step_post avail ctl0 mr retries (Suc k) (cont st')"
  shows "step_post avail ctl0 mr retries (Suc k) (fail_attempt cand credential (Suc k) env failure st cont)"
  unfolding fail_attempt_def Let_def
  using assms by (auto intro!: step_post_db_then assms(5))

lemma step_post_break:
  "core_inv avail ctl0 st \<Longrightarrow> es_total_attempts st = n \<Longrightarrow> numbered n st \<Longrightarrow>
    es_last_failure st = Some f \<Longrightarrow> output_committed (es_events st) \<longrightarrow> is_final f \<Longrightarrow>
    step_post avail ctl0 mr retries n (StepBreak, st)"
  by (simp add: step_post_def)

lemma step_post_return_failed:
  "core_inv avail ctl0 st \<Longrightarrow> es_total_attempts st = n \<Longrightarrow> numbered n st \<Longrightarrow>
    step_post avail ctl0 mr retries n (return_failed xc model failure st)"
  by (simp add: step_post_def return_failed_def failed_outcome_def)

lemma call_provider_post:
  assumes sem: "semaphore_laws (xc_semaphore xc) avail" and inv: "core_inv avail ctl0 st"
    and n: "es_total_attempts st = Suc k" "numbered k st" "Suc k < 2 ^ 31"
    and nc: "\<not> output_committed (es_events st)"
  shows "step_post avail ctl0 (erp_max_retries erp) retries (Suc k)
    (call_provider xc cand credential model erp retries (Suc k) remaining env st)"
proof (cases "acquire (xc_semaphore xc) (xc_show_uuid xc) (xc_sha256 xc) (ae_clock env)
    (acquire_request_of xc cand) (es_controller st)")
  case (Pair r ctl)
  show ?thesis
  proof (cases r)
    case (Inl scope)
    show ?thesis
      using acquire_refused_inv [OF sem inv Pair [unfolded Inl]] n nc Pair Inl
      by (auto simp: call_provider_def intro!: fail_attempt_post step_post_break)
  next
    case (Inr permits)
    note dropped = acquire_dropped_inv [OF sem inv Pair [unfolded Inr]]
    show ?thesis
    proof (cases "ae_request env")
      case (Some failure)
      then show ?thesis
        using dropped n Pair Inr
        by (auto simp: call_provider_def intro!: fail_attempt_post step_post_return_failed)
    next
      case None
      obtain res ec where run: "run_provider xc env (es_events st) = (res, ec)" by fastforce
      note rp = run_provider_props [OF core_inv_collector [OF inv] nc run]
      let ?st = "st\<lparr>es_events := ec, es_controller := ExecutionPermits_drop (xc_semaphore xc) True permits ctl\<rparr>"
      have inv': "core_inv avail ctl0 ?st" "es_total_attempts ?st = Suc k" "numbered k ?st"
        using dropped rp(1) n by (simp_all add: core_inv_def)
      have "es_events ?st = ec" by simp
      then show ?thesis
        using Pair Inr None run rp(2,3) settle_success_post [OF inv' n(3)] settle_timeout_post [OF inv' n(3)]
          settle_failed_post [OF inv' n(3)]
        by (cases res) (simp_all add: call_provider_def Let_def)
    qed
  qed
qed

lemma attempt_step_post:
  assumes sem: "semaphore_laws (xc_semaphore xc) avail" and inv: "core_inv avail ctl0 st"
    and n: "numbered (es_total_attempts st) st" and nc: "\<not> output_committed (es_events st)"
    and bound: "xc_maximum_total_upstream_attempts xc < 2 ^ 31"
  shows "(\<exists>oc. attempt_step xc cand credential model erp retries env st = (StepReturn (Ok oc), st) \<and>
        eo_attempts oc = es_attempts st) \<or>
    es_total_attempts st < xc_maximum_total_upstream_attempts xc \<and>
    step_post avail ctl0 (erp_max_retries erp) retries (Suc (es_total_attempts st))
      (attempt_step xc cand credential model erp retries env st)"
proof (cases "remaining_execution_time (xc_deadline xc) (ae_now env) = None \<or>
    xc_maximum_total_upstream_attempts xc \<le> es_total_attempts st")
  case True
  then have "\<exists>oc. attempt_step xc cand credential model erp retries env st = (StepReturn (Ok oc), st) \<and>
      eo_attempts oc = es_attempts st"
    by (cases "remaining_execution_time (xc_deadline xc) (ae_now env)")
      (auto simp: attempt_step_def return_failed_def failed_outcome_def)
  then show ?thesis by blast
next
  case False
  then obtain remaining where rem: "remaining_execution_time (xc_deadline xc) (ae_now env) = Some remaining"
    and less: "es_total_attempts st < xc_maximum_total_upstream_attempts xc" by auto
  have "step_post avail ctl0 (erp_max_retries erp) retries (Suc (es_total_attempts st))
      (attempt_step xc cand credential model erp retries env st)"
    unfolding attempt_step_def rem Let_def
    using less inv n nc bound
    by (auto intro!: step_post_db_then call_provider_post sem simp: event_props)
  with less show ?thesis by simp
qed

section \<open>The attempts of one candidate\<close>

text \<open>Only \<open>attempt_step\<close> itself counts an attempt.\<close>

definition total_is :: "nat \<Rightarrow> loop_step \<times> ('s, 'c) exec_state \<Rightarrow> bool" where
  "total_is n res \<longleftrightarrow> es_total_attempts (snd res) = n"

lemma total_is_Pair [simp]: "total_is n (r, st) \<longleftrightarrow> es_total_attempts st = n"
  by (simp add: total_is_def)

lemma total_is_db_then:
  assumes "es_total_attempts st = n" and "\<And>fs log. total_is n (k (st\<lparr>es_faults := fs, es_log := log\<rparr>))"
  shows "total_is n (db_then ops st k)"
proof (cases "run_db ops st")
  case (Pair r st1)
  obtain fs log where "snd (run_db ops st) = st\<lparr>es_faults := fs, es_log := log\<rparr>"
    using run_db_frame by blast
  with Pair have "st1 = st\<lparr>es_faults := fs, es_log := log\<rparr>" by simp
  with Pair assms show ?thesis by (cases r) (simp_all add: db_then_def)
qed

lemma total_is_retry:
  "es_total_attempts st = n \<Longrightarrow> total_is n (retry_or_break xc cand erp retries failure renv st)"
  by (auto simp: retry_or_break_def split: retry_wait.splits)

lemma total_is_helpers:
  assumes "es_total_attempts st = n"
  shows "total_is n (settle_success xc cand credential model m env output st)"
    and "total_is n (settle_failed xc cand credential m erp retries env fa st)"
    and "total_is n (settle_timeout xc cand credential m erp retries bounded env st)"
proof -
  note retry = total_is_retry
  show "total_is n (settle_failed xc cand credential m erp retries env fa st)"
    unfolding settle_failed_def Let_def using assms by (auto intro!: total_is_db_then retry)
  show "total_is n (settle_timeout xc cand credential m erp retries bounded env st)"
    unfolding settle_timeout_def Let_def using assms by (auto intro!: total_is_db_then retry)
  have late: "es_total_attempts (snd (run_db ops st')) = es_total_attempts st'"
    for ops and st' :: "('a, 'b) exec_state"
    using run_db_frame [of ops st'] by auto
  show "total_is n (settle_success xc cand credential model m env output st)"
    unfolding settle_success_def Let_def
    using assms by (auto intro!: total_is_db_then simp: late simp del: run_db.simps split: option.splits)
qed

lemma attempt_step_continues:
  assumes "attempt_step xc cand credential model erp retries env st = (StepContinue r, st')"
  shows "es_total_attempts st' = Suc (es_total_attempts st)"
    and "es_total_attempts st < xc_maximum_total_upstream_attempts xc"
proof -
  obtain remaining where rem: "remaining_execution_time (xc_deadline xc) (ae_now env) = Some remaining"
    and less: "es_total_attempts st < xc_maximum_total_upstream_attempts xc"
    using assms by (auto simp: attempt_step_def return_failed_def split: option.splits if_splits)
  have call: "total_is n (call_provider xc cand credential model erp retries m rem env st)"
    if "es_total_attempts st = n" for n m rem and st :: "('a, 'b) exec_state"
    using that
    by (auto simp: call_provider_def fail_attempt_def return_failed_def Let_def total_is_helpers
        intro!: total_is_db_then split: prod.splits sum.splits option.splits attempt_result.splits)
  have "total_is (Suc (es_total_attempts st)) (attempt_step xc cand credential model erp retries env st)"
    unfolding attempt_step_def rem Let_def using less by (auto intro!: total_is_db_then call)
  with assms show "es_total_attempts st' = Suc (es_total_attempts st)" by simp
  show "es_total_attempts st < xc_maximum_total_upstream_attempts xc" by (rule less)
qed

function attempt_loop ::
    "'s exec_context \<Rightarrow> model_candidate \<Rightarrow> uuid \<Rightarrow> model_decision \<Rightarrow> effective_runtime_policy \<Rightarrow> candidate_env
      \<Rightarrow> nat \<Rightarrow> ('s, 'c) exec_state \<Rightarrow> loop_step \<times> ('s, 'c) exec_state" where
  "attempt_loop xc cand credential model erp cenv retries st =
     (case attempt_step xc cand credential model erp retries (ce_attempt cenv (es_total_attempts st)) st of
        (StepContinue r, st') \<Rightarrow> attempt_loop xc cand credential model erp cenv r st'
      | (StepReturn x, st') \<Rightarrow> (StepReturn x, st')
      | (StepBreak, st') \<Rightarrow> (StepBreak, st'))"
  by auto
termination
  by (relation "measure (\<lambda>(xc, _, _, _, _, _, _, st). xc_maximum_total_upstream_attempts xc - es_total_attempts st)")
    (use attempt_step_continues [OF sym] in fastforce)+

declare attempt_loop.simps [simp del]

section \<open>The candidates in order\<close>

definition model_decision_of :: "execution_command \<Rightarrow> model_candidate \<Rightarrow> model_decision" where
  "model_decision_of cmd c =
     \<lparr>md_policy_id = mc_policy_id c, md_provider_id = mc_provider_id c,
      md_provider_model_id = mc_provider_model_id c, md_model_key = mc_model_key c,
      md_provider_type = mc_provider_type c,
      md_reason = (if cmd_model_hint cmd = Some (mc_provider_model_id c) then ModelExplicitHint else ModelPriority)\<rparr>"

text \<open>A failure before the first attempt of a candidate: fall back to the next one or give up.\<close>

definition skip_or_return ::
    "'s exec_context \<Rightarrow> model_decision \<Rightarrow> bool \<Rightarrow> execution_failure \<Rightarrow> ('s, 'c) exec_state
      \<Rightarrow> loop_step \<times> ('s, 'c) exec_state" where
  "skip_or_return xc model announce failure st =
     (let st = set_last_failure failure st
      in if ep_allow_fallback (xc_policy xc) \<and> failure_fallback_eligible failure
         then (StepContinue 0, if announce then on_events (push_event FallbackSelected) st else st)
         else return_failed xc (Some model) failure st)"

definition candidate_step ::
    "'s exec_context \<Rightarrow> model_candidate \<Rightarrow> candidate_env \<Rightarrow> ('s, 'c) exec_state
      \<Rightarrow> loop_step \<times> ('s, 'c) exec_state" where
  "candidate_step xc cand cenv st =
     (let model = model_decision_of (xc_command xc) cand;
          st = on_events (push_event ModelSelected) st
      in case bounded_phase (xc_deadline xc) (ce_credential_now cenv) (ce_credential cenv) of
           Err failure \<Rightarrow> skip_or_return xc model True failure st
         | Ok credential \<Rightarrow>
      case circuit_before_call (ce_circuit_now cenv) (mc_provider_id cand) (mc_provider_model_id cand)
             (mc_runtime_policy cand) (es_circuits st) of
           (Err failure, cs) \<Rightarrow> skip_or_return xc model False failure (st\<lparr>es_circuits := cs\<rparr>)
         | (Ok _, cs) \<Rightarrow>
      let st = st\<lparr>es_circuits := cs\<rparr> in
      case bounded_phase (xc_deadline xc) (ce_handle_now cenv) (ce_handle cenv) of
           Err failure \<Rightarrow> skip_or_return xc model False failure st
         | Ok _ \<Rightarrow>
      case attempt_loop xc cand credential model
             (effective_runtime_policy_of (xc_policy xc) (mc_runtime_policy cand)) cenv 0 st of
           (StepReturn x, st) \<Rightarrow> (StepReturn x, st)
         | (_, st) \<Rightarrow>
      (case es_last_failure st of
         Some failure \<Rightarrow>
           if \<not> ep_allow_fallback (xc_policy xc) \<or> \<not> failure_fallback_eligible failure then
             db_then [AuditEvent ''execution.failed'' False] st (\<lambda>st. return_failed xc (Some model) failure st)
           else (StepContinue 0, on_events (push_event FallbackSelected) st)
       | None \<Rightarrow> (StepContinue 0, on_events (push_event FallbackSelected) st)))"

definition finish_candidates ::
    "'s exec_context \<Rightarrow> ('s, 'c) exec_state \<Rightarrow> (app_error + execution_outcome) \<times> ('s, 'c) exec_state" where
  "finish_candidates xc st =
     (let failure = (case es_last_failure st of
            Some f \<Rightarrow> f | None \<Rightarrow> ExecutionFailure_new NoEligibleModel ''no eligible model'')
      in case run_db [AuditEvent ''execution.failed'' False] st of
           (Err e, st) \<Rightarrow> (Err e, st)
         | (Ok _, st) \<Rightarrow>
             (Ok (failed_outcome (xc_command xc) (Some (xc_route xc)) None (es_attempts st) failure),
              on_events (push_event ExecutionFailedEvent) st))"

fun candidates_loop ::
    "'s exec_context \<Rightarrow> (nat \<Rightarrow> candidate_env) \<Rightarrow> nat \<Rightarrow> model_candidate list \<Rightarrow> ('s, 'c) exec_state
      \<Rightarrow> (app_error + execution_outcome) \<times> ('s, 'c) exec_state" where
  "candidates_loop xc env rank [] st = finish_candidates xc st"
| "candidates_loop xc env rank (cand # cands) st =
     (case candidate_step xc cand (env rank) st of
        (StepReturn x, st') \<Rightarrow> (x, st')
      | (_, st') \<Rightarrow> candidates_loop xc env (Suc rank) cands st')"

definition execute_candidates ::
    "'s exec_context \<Rightarrow> (nat \<Rightarrow> candidate_env) \<Rightarrow> model_candidate list \<Rightarrow> ('s, 'c) exec_state
      \<Rightarrow> (app_error + execution_outcome) \<times> ('s, 'c) exec_state" where
  "execute_candidates xc env candidates st =
     (let max_candidates = (if ep_allow_fallback (xc_policy xc)
            then sat_add u64_max (ep_max_fallbacks (xc_policy xc)) 1 else 1);
          ranked = take max_candidates candidates
      in candidates_loop xc env 0 ranked (on_events (push_event CandidateRanked) st))"

section \<open>What the loops preserve\<close>

text \<open>At the start of an attempt or a candidate: nothing held, nothing committed, attempts numbered.\<close>

definition loop_inv ::
    "('s \<Rightarrow> nat) \<Rightarrow> ('s, 'c \<times> string list) controller \<Rightarrow> ('s, 'c \<times> string list) exec_state \<Rightarrow> bool" where
  "loop_inv avail ctl0 st \<longleftrightarrow>
     core_inv avail ctl0 st \<and> numbered (es_total_attempts st) st \<and> \<not> output_committed (es_events st)"

definition result_ok ::
    "('s \<Rightarrow> nat) \<Rightarrow> ('s, 'c \<times> string list) controller \<Rightarrow> (app_error + execution_outcome)
      \<Rightarrow> ('s, 'c \<times> string list) exec_state \<Rightarrow> bool" where
  "result_ok avail ctl0 x st \<longleftrightarrow> core_inv avail ctl0 st \<and>
     (\<forall>oc. x = Ok oc \<longrightarrow> map pa_attempt_number (eo_attempts oc) = map int [1 ..< Suc (es_total_attempts st)])"

lemma attempt_loop_post:
  assumes "semaphore_laws (xc_semaphore xc) avail" and "xc_maximum_total_upstream_attempts xc < 2 ^ 31"
    and "loop_inv avail ctl0 st" and "retries \<le> erp_max_retries erp"
    and "es_total_attempts st \<le> xc_maximum_total_upstream_attempts xc"
    and "attempt_loop xc cand credential model erp cenv retries st = (r, st')"
  shows "es_total_attempts st' \<le> es_total_attempts st + (erp_max_retries erp - retries) + 1 \<and>
    es_total_attempts st' \<le> xc_maximum_total_upstream_attempts xc \<and>
    (case r of
       StepReturn x \<Rightarrow> result_ok avail ctl0 x st'
     | StepBreak \<Rightarrow> core_inv avail ctl0 st' \<and> numbered (es_total_attempts st') st' \<and>
         (\<exists>f. es_last_failure st' = Some f \<and> (output_committed (es_events st') \<longrightarrow> is_final f))
     | StepContinue _ \<Rightarrow> False)"
  using assms
proof (induction xc cand credential model erp cenv retries st rule: attempt_loop.induct)
  case (1 xc cand credential model erp cenv retries st)
  let ?env = "ce_attempt cenv (es_total_attempts st)"
  obtain r1 st1 where step: "attempt_step xc cand credential model erp retries ?env st = (r1, st1)" by fastforce
  have inv: "core_inv avail ctl0 st" "numbered (es_total_attempts st) st" "\<not> output_committed (es_events st)"
    using 1(4) by (simp_all add: loop_inv_def)
  note post = attempt_step_post [OF 1(2) inv 1(3), of cand credential model erp retries ?env, unfolded step]
  show ?case
  proof (cases "\<exists>oc. r1 = StepReturn (Ok oc) \<and> st1 = st")
    case True
    then show ?thesis
      using post 1(7) step inv 1(6)
      by (auto simp: attempt_loop.simps result_ok_def numbered_def step_post_def)
  next
    case False
    with post have less: "es_total_attempts st < xc_maximum_total_upstream_attempts xc"
      and sp: "step_post avail ctl0 (erp_max_retries erp) retries (Suc (es_total_attempts st)) (r1, st1)" by auto
    show ?thesis
    proof (cases r1)
      case (StepReturn x)
      then show ?thesis
        using sp less 1(7) step
        by (auto simp: attempt_loop.simps step_post_def result_ok_def numbered_def split: sum.splits)
    next
      case StepBreak
      then show ?thesis using sp less 1(7) step by (auto simp: attempt_loop.simps step_post_def)
    next
      case (StepContinue r2)
      with sp have r2: "r2 = Suc retries" "retries < erp_max_retries erp" "loop_inv avail ctl0 st1"
          "es_total_attempts st1 = Suc (es_total_attempts st)"
        by (simp_all add: step_post_def loop_inv_def)
      have "attempt_loop xc cand credential model erp cenv r2 st1 = (r, st')"
        using 1(7) step StepContinue by (simp add: attempt_loop.simps [of xc cand credential model erp cenv retries st])
      from 1(1) [OF step [symmetric] StepContinue 1(2,3) r2(3) _ _ this] r2 less show ?thesis by auto
    qed
  qed
qed

lemma loop_inv_simps [simp]:
  "loop_inv avail ctl0 (st\<lparr>es_circuits := cs\<rparr>) = loop_inv avail ctl0 st"
  "loop_inv avail ctl0 (set_last_failure lf st) = loop_inv avail ctl0 st"
  by (simp_all add: loop_inv_def)

lemma loop_inv_push:
  assumes "loop_inv avail ctl0 st" and "may_emit t (es_events st)"
  shows "loop_inv avail ctl0 (on_events (push_event t) st)"
proof -
  have "core_inv avail ctl0 st" using assms(1) by (simp add: loop_inv_def)
  from push_event_props [OF core_inv_collector [OF this] assms(2)] assms show ?thesis
    by (simp add: loop_inv_def core_inv_events)
qed

lemma loop_inv_result_ok: "loop_inv avail ctl0 st \<Longrightarrow> return_failed xc m f st = (StepReturn x, st') \<Longrightarrow>
    result_ok avail ctl0 x st' \<and> es_total_attempts st' = es_total_attempts st"
  by (auto simp: return_failed_def loop_inv_def result_ok_def failed_outcome_def numbered_def)

definition candidate_post ::
    "('s \<Rightarrow> nat) \<Rightarrow> ('s, 'c \<times> string list) controller \<Rightarrow> nat \<Rightarrow> nat
      \<Rightarrow> loop_step \<times> ('s, 'c \<times> string list) exec_state \<Rightarrow> bool" where
  "candidate_post avail ctl0 lim n res \<longleftrightarrow>
     (case res of (r, st) \<Rightarrow> es_total_attempts st \<le> n \<and> es_total_attempts st \<le> lim \<and>
        (case r of StepReturn x \<Rightarrow> result_ok avail ctl0 x st | _ \<Rightarrow> loop_inv avail ctl0 st))"

lemma skip_or_return_post:
  assumes "loop_inv avail ctl0 st" and "es_total_attempts st \<le> n" and "es_total_attempts st \<le> lim"
  shows "candidate_post avail ctl0 lim n (skip_or_return xc model announce failure st)"
proof -
  have "loop_inv avail ctl0 (set_last_failure failure st)" using assms by simp
  moreover from this have "result_ok avail ctl0 (Ok (failed_outcome (xc_command xc) (Some (xc_route xc)) (Some model)
      (es_attempts (set_last_failure failure st)) failure)) (set_last_failure failure st)"
    by (simp add: loop_inv_def result_ok_def failed_outcome_def numbered_def)
  ultimately show ?thesis
    using assms by (auto simp: skip_or_return_def candidate_post_def return_failed_def Let_def intro!: loop_inv_push)
qed


lemma core_inv_result_ok_failed:
  "core_inv avail ctl0 st \<Longrightarrow> numbered (es_total_attempts st) st \<Longrightarrow>
    result_ok avail ctl0 (Ok (failed_outcome cmd route model (es_attempts st) f)) st"
  by (simp add: result_ok_def failed_outcome_def numbered_def)

lemma result_ok_Err: "core_inv avail ctl0 st \<Longrightarrow> result_ok avail ctl0 (Err e) st"
  by (simp add: result_ok_def)

lemma candidate_post_failed_db:
  assumes "core_inv avail ctl0 st" and "numbered (es_total_attempts st) st"
    and "es_total_attempts st \<le> n" and "es_total_attempts st \<le> lim"
  shows "candidate_post avail ctl0 lim n (db_then ops st (\<lambda>st. return_failed xc model failure st))"
proof -
  obtain r fs log where run: "run_db ops st = (r, st\<lparr>es_faults := fs, es_log := log\<rparr>)"
    using run_db_frame [of ops st] by (metis prod.collapse)
  have "core_inv avail ctl0 (st\<lparr>es_faults := fs, es_log := log\<rparr>)" using assms(1) by simp
  moreover from core_inv_result_ok_failed [OF this] assms(2)
  have "result_ok avail ctl0 (Ok (failed_outcome (xc_command xc) (Some (xc_route xc)) model (es_attempts st) failure))
      (st\<lparr>es_faults := fs, es_log := log\<rparr>)" by simp
  ultimately show ?thesis
    using assms(3,4)
    by (cases r) (simp_all add: db_then_def run candidate_post_def return_failed_def result_ok_Err)
qed

lemma candidate_after_attempts:
  assumes "core_inv avail ctl0 st" and "numbered (es_total_attempts st) st"
    and "es_last_failure st = Some f" and "output_committed (es_events st) \<longrightarrow> is_final f"
    and "es_total_attempts st \<le> n" and "es_total_attempts st \<le> lim"
  shows "candidate_post avail ctl0 lim n
    (if \<not> ep_allow_fallback (xc_policy xc) \<or> \<not> failure_fallback_eligible f
     then db_then ops st (\<lambda>st. return_failed xc model f st)
     else (StepContinue 0, on_events (push_event FallbackSelected) st))"
proof (cases "\<not> ep_allow_fallback (xc_policy xc) \<or> \<not> failure_fallback_eligible f")
  case True
  then show ?thesis using candidate_post_failed_db [OF assms(1,2,5,6)] by simp
next
  case False
  with assms have "loop_inv avail ctl0 st" by (auto simp: loop_inv_def is_final_def)
  with False assms show ?thesis by (simp add: candidate_post_def loop_inv_push)
qed

lemma candidate_step_post:
  assumes sem: "semaphore_laws (xc_semaphore xc) avail" and small: "xc_maximum_total_upstream_attempts xc < 2 ^ 31"
    and inv: "loop_inv avail ctl0 st" and le: "es_total_attempts st \<le> xc_maximum_total_upstream_attempts xc"
  shows "candidate_post avail ctl0 (xc_maximum_total_upstream_attempts xc)
    (es_total_attempts st + ep_max_retries (xc_policy xc) + 1) (candidate_step xc cand cenv st)"
proof -
  let ?model = "model_decision_of (xc_command xc) cand" and ?lim = "xc_maximum_total_upstream_attempts xc"
  let ?n = "es_total_attempts st + ep_max_retries (xc_policy xc) + 1"
  let ?erp = "effective_runtime_policy_of (xc_policy xc) (mc_runtime_policy cand)"
  define st1 where "st1 = on_events (push_event ModelSelected) st"
  have skip: "candidate_post avail ctl0 ?lim ?n (skip_or_return xc ?model b f (st1\<lparr>es_circuits := cs\<rparr>))"
    "candidate_post avail ctl0 ?lim ?n (skip_or_return xc ?model b f st1)" for b f cs
    using le by (auto intro!: skip_or_return_post simp: st1_def loop_inv_push inv)
  have mr: "erp_max_retries ?erp \<le> ep_max_retries (xc_policy xc)" by (simp add: effective_runtime_policy_of_def)
  have loop: "candidate_post avail ctl0 ?lim ?n
      (case attempt_loop xc cand credential ?model ?erp cenv 0 (st1\<lparr>es_circuits := cs\<rparr>) of
         (StepReturn x, st) \<Rightarrow> (StepReturn x, st)
       | (_, st) \<Rightarrow>
         (case es_last_failure st of
            Some failure \<Rightarrow>
              if \<not> ep_allow_fallback (xc_policy xc) \<or> \<not> failure_fallback_eligible failure then
                db_then [AuditEvent ''execution.failed'' False] st (\<lambda>st. return_failed xc (Some ?model) failure st)
              else (StepContinue 0, on_events (push_event FallbackSelected) st)
          | None \<Rightarrow> (StepContinue 0, on_events (push_event FallbackSelected) st)))" for credential cs
  proof -
    obtain r st2 where run: "attempt_loop xc cand credential ?model ?erp cenv 0 (st1\<lparr>es_circuits := cs\<rparr>) = (r, st2)"
      by fastforce
    have "loop_inv avail ctl0 (st1\<lparr>es_circuits := cs\<rparr>)" by (simp add: st1_def loop_inv_push inv)
    from attempt_loop_post [OF sem small this _ _ run] le
    have post: "es_total_attempts st2 \<le> es_total_attempts st + erp_max_retries ?erp + 1" "es_total_attempts st2 \<le> ?lim"
      "case r of
         StepReturn x \<Rightarrow> result_ok avail ctl0 x st2
       | StepBreak \<Rightarrow> core_inv avail ctl0 st2 \<and> numbered (es_total_attempts st2) st2 \<and>
           (\<exists>f. es_last_failure st2 = Some f \<and> (output_committed (es_events st2) \<longrightarrow> is_final f))
       | StepContinue _ \<Rightarrow> False"
      by (simp_all add: st1_def)
    from post(1) mr have n: "es_total_attempts st2 \<le> ?n" by simp
    show ?thesis
    proof (cases r)
      case (StepReturn x)
      then show ?thesis using run post n by (simp add: candidate_post_def)
    next
      case StepBreak
      with post(3) obtain f where "core_inv avail ctl0 st2" "numbered (es_total_attempts st2) st2"
        "es_last_failure st2 = Some f" "output_committed (es_events st2) \<longrightarrow> is_final f" by auto
      then show ?thesis
        using run StepBreak candidate_after_attempts [OF _ _ _ _ n post(2)] by simp
    qed (use post(3) in simp)
  qed
  obtain r cs where circuit: "circuit_before_call (ce_circuit_now cenv) (mc_provider_id cand)
      (mc_provider_model_id cand) (mc_runtime_policy cand) (es_circuits st1) = (r, cs)" by fastforce
  show ?thesis
    unfolding candidate_step_def Let_def st1_def [symmetric] circuit prod.case
    by (cases "bounded_phase (xc_deadline xc) (ce_credential_now cenv) (ce_credential cenv)"; cases r;
        cases "bounded_phase (xc_deadline xc) (ce_handle_now cenv) (ce_handle cenv)";
        simp only: sum.case skip loop)
qed

lemma finish_candidates_post:
  assumes "loop_inv avail ctl0 st" and "finish_candidates xc st = (x, st')"
  shows "result_ok avail ctl0 x st' \<and> es_total_attempts st' = es_total_attempts st"
proof -
  let ?ops = "[AuditEvent ''execution.failed'' False]"
  obtain r fs log where run: "run_db ?ops st = (r, st\<lparr>es_faults := fs, es_log := log\<rparr>)"
    using run_db_frame [of ?ops st] by (metis prod.collapse)
  have st: "core_inv avail ctl0 st" "numbered (es_total_attempts st) st"
    using assms(1) by (simp_all add: loop_inv_def)
  note ev = push_event_props(1) [OF core_inv_collector [OF st(1)], of ExecutionFailedEvent]
  show ?thesis
    using assms(2) st run ev
    by (cases r) (auto simp: finish_candidates_def Let_def result_ok_def failed_outcome_def numbered_def
        core_inv_events simp del: run_db.simps)
qed

lemma candidates_loop_post:
  assumes "semaphore_laws (xc_semaphore xc) avail" and "xc_maximum_total_upstream_attempts xc < 2 ^ 31"
    and "loop_inv avail ctl0 st" and "es_total_attempts st \<le> xc_maximum_total_upstream_attempts xc"
    and "candidates_loop xc env rank cands st = (x, st')"
  shows "result_ok avail ctl0 x st' \<and> es_total_attempts st' \<le> xc_maximum_total_upstream_attempts xc \<and>
    es_total_attempts st' \<le> es_total_attempts st + length cands * (ep_max_retries (xc_policy xc) + 1)"
  using assms(3-5)
proof (induction cands arbitrary: rank st)
  case Nil
  then show ?case using finish_candidates_post [of avail ctl0 st xc x st'] by simp
next
  case (Cons cand cands)
  obtain r st1 where step: "candidate_step xc cand (env rank) st = (r, st1)" by fastforce
  have post: "candidate_post avail ctl0 (xc_maximum_total_upstream_attempts xc)
      (es_total_attempts st + ep_max_retries (xc_policy xc) + 1) (r, st1)"
    using candidate_step_post [OF assms(1,2) Cons(2,3), of cand "env rank"] step by simp
  show ?case
  proof (cases "\<exists>y. r = StepReturn y")
    case True
    then show ?thesis using post step Cons(4) by (auto simp: candidate_post_def)
  next
    case False
    then have "candidates_loop xc env (Suc rank) cands st1 = (x, st')"
      using Cons(4) step by (cases r) auto
    moreover have "loop_inv avail ctl0 st1" "es_total_attempts st1 \<le> xc_maximum_total_upstream_attempts xc"
      "es_total_attempts st1 \<le> es_total_attempts st + ep_max_retries (xc_policy xc) + 1"
      using post False by (cases r; simp add: candidate_post_def)+
    ultimately show ?thesis using Cons(1) [of st1 "Suc rank"] by (auto simp: algebra_simps)
  qed
qed

section \<open>What an outcome says\<close>

text \<open>
  A successful outcome reports no failure and ends with the attempt that produced the answer; any
  other outcome reports a failure, and its status is the one of that failure.
\<close>

definition outcome_consistent :: "execution_outcome \<Rightarrow> bool" where
  "outcome_consistent oc \<longleftrightarrow>
     (case eo_failure oc of
        Some f \<Rightarrow> eo_status oc = execution_status_for_failure (failure_class f)
      | None \<Rightarrow> eo_status oc = Succeeded \<and> eo_output_text oc \<noteq> None \<and>
          (\<exists>a as model. eo_attempts oc = as @ [a] \<and> pa_status a = AttemptSucceeded \<and>
             eo_usage oc = pa_usage a \<and> eo_model oc = Some model \<and>
             md_provider_id model = pa_provider_id a \<and> md_provider_model_id model = pa_provider_model_id a))"

definition returns_consistent :: "loop_step \<times> ('s, 'c) exec_state \<Rightarrow> bool" where
  "returns_consistent res \<longleftrightarrow> (\<forall>oc. fst res = StepReturn (Ok oc) \<longrightarrow> outcome_consistent oc)"

lemma returns_consistent_simps [simp]:
  "returns_consistent (StepBreak, st)" "returns_consistent (StepContinue r, st)"
  "returns_consistent (StepReturn (Ok oc), st) \<longleftrightarrow> outcome_consistent oc"
  "returns_consistent (StepReturn (Err e), st)"
  by (simp_all add: returns_consistent_def)

lemma failed_outcome_consistent [simp]: "outcome_consistent (failed_outcome cmd route model attempts f)"
  by (simp add: outcome_consistent_def failed_outcome_def)

lemma return_failed_consistent [simp]: "returns_consistent (return_failed xc model f st)"
  by (simp add: return_failed_def)

lemma db_then_consistent: "(\<And>st'. es_attempts st' = es_attempts st \<Longrightarrow> returns_consistent (k st')) \<Longrightarrow> returns_consistent (db_then ops st k)"
  using run_db_frame [of ops st]
  by (auto simp: db_then_def split: prod.splits sum.splits)

lemma es_attempts_helpers [simp]:
  "es_attempts (on_events f st) = es_attempts st" "es_attempts (record_attempt a st) = es_attempts st @ [a]"
  by (simp_all add: on_events_def record_attempt_def)

lemma retry_or_break_consistent: "returns_consistent (retry_or_break xc cand erp retries failure renv st)"
  by (auto simp: retry_or_break_def split: retry_wait.splits)

lemma settle_consistent:
  "md_provider_id model = mc_provider_id cand \<Longrightarrow> md_provider_model_id model = mc_provider_model_id cand \<Longrightarrow>
    returns_consistent (settle_success xc cand credential model n env output st)"
  "returns_consistent (settle_failed xc cand credential n erp retries env fa st)"
  "returns_consistent (settle_timeout xc cand credential n erp retries bounded env st)"
  by (auto simp: settle_success_def settle_failed_def settle_timeout_def Let_def outcome_consistent_def
      attempt_summary_def intro!: db_then_consistent retry_or_break_consistent split: option.splits)

lemma attempt_step_consistent:
  "md_provider_id model = mc_provider_id cand \<Longrightarrow> md_provider_model_id model = mc_provider_model_id cand \<Longrightarrow>
    returns_consistent (attempt_step xc cand credential model erp retries env st)"
  by (auto simp: attempt_step_def call_provider_def fail_attempt_def Let_def settle_consistent
      intro!: db_then_consistent split: option.splits prod.splits sum.splits attempt_result.splits)

lemma attempt_loop_consistent:
  "md_provider_id model = mc_provider_id cand \<Longrightarrow> md_provider_model_id model = mc_provider_model_id cand \<Longrightarrow>
    returns_consistent (attempt_loop xc cand credential model erp cenv retries st)"
proof (induction xc cand credential model erp cenv retries st rule: attempt_loop.induct)
  case (1 xc cand credential model erp cenv retries st)
  obtain r1 st1 where step: "attempt_step xc cand credential model erp retries (ce_attempt cenv (es_total_attempts st)) st
      = (r1, st1)" by fastforce
  with attempt_step_consistent [OF 1(2,3), of xc credential erp retries "ce_attempt cenv (es_total_attempts st)" st]
    1(1) [OF step [symmetric] _ 1(2,3)]
  show ?case by (cases r1) (simp_all add: attempt_loop.simps [of xc cand credential model erp cenv retries st])
qed

lemma candidate_step_consistent: "returns_consistent (candidate_step xc cand cenv st)"
proof -
  have skip: "returns_consistent (skip_or_return xc model b f st)" for model b f and st :: "('a, 'b) exec_state"
    by (simp add: skip_or_return_def Let_def)
  have loop: "attempt_loop xc cand credential (model_decision_of (xc_command xc) cand) erp cenv 0 st = (StepReturn (Ok oc), st')
      \<Longrightarrow> outcome_consistent oc" for credential erp oc and st st' :: "('a, 'b) exec_state"
    using attempt_loop_consistent [of "model_decision_of (xc_command xc) cand" cand xc credential erp cenv 0 st]
    by (simp add: model_decision_of_def)
  show ?thesis
    unfolding candidate_step_def Let_def
    by (auto intro!: db_then_consistent skip dest: loop simp: returns_consistent_def [of "(StepReturn _, _)"]
        split: sum.splits prod.splits loop_step.splits option.splits)
qed

lemma candidates_loop_consistent: "candidates_loop xc env rank cands st = (Ok oc, st') \<Longrightarrow> outcome_consistent oc"
proof (induction cands arbitrary: rank st)
  case Nil
  then show ?case by (auto simp: finish_candidates_def Let_def split: prod.splits sum.splits)
next
  case (Cons cand cands)
  then show ?case using candidate_step_consistent [of xc cand "env rank" st]
    by (auto split: prod.splits loop_step.splits)
qed

section \<open>Properties\<close>

lemma execute_candidates_post:
  assumes "semaphore_laws (xc_semaphore xc) avail" and "xc_maximum_total_upstream_attempts xc < 2 ^ 31"
    and "loop_inv avail ctl0 st" and "es_total_attempts st = 0"
    and "execute_candidates xc env candidates st = (x, st')"
  shows "result_ok avail ctl0 x st' \<and> es_total_attempts st' \<le> xc_maximum_total_upstream_attempts xc \<and>
    es_total_attempts st' \<le> (if ep_allow_fallback (xc_policy xc) then ep_max_fallbacks (xc_policy xc) + 1 else 1)
      * (ep_max_retries (xc_policy xc) + 1)"
proof -
  define m where "m = (if ep_allow_fallback (xc_policy xc) then sat_add u64_max (ep_max_fallbacks (xc_policy xc)) 1 else 1)"
  have m: "m \<le> (if ep_allow_fallback (xc_policy xc) then ep_max_fallbacks (xc_policy xc) + 1 else 1)"
    by (simp add: m_def sat_add_def)
  let ?st = "on_events (push_event CandidateRanked) st"
  have "loop_inv avail ctl0 ?st" "es_total_attempts ?st \<le> xc_maximum_total_upstream_attempts xc"
    using assms(3,4) by (simp_all add: loop_inv_push)
  from candidates_loop_post [OF assms(1,2) this, of env 0 "take m candidates" x st'] assms(4,5)
  have "result_ok avail ctl0 x st' \<and> es_total_attempts st' \<le> xc_maximum_total_upstream_attempts xc \<and>
      es_total_attempts st' \<le> length (take m candidates) * (ep_max_retries (xc_policy xc) + 1)"
    by (simp add: execute_candidates_def Let_def m_def)
  moreover have "length (take m candidates) * (ep_max_retries (xc_policy xc) + 1)
      \<le> (if ep_allow_fallback (xc_policy xc) then ep_max_fallbacks (xc_policy xc) + 1 else 1)
        * (ep_max_retries (xc_policy xc) + 1)"
    using m by (intro mult_le_mono1) simp
  ultimately show ?thesis by linarith
qed

text \<open>The state an execution starts with.\<close>

definition initial_exec_state ::
    "circuits \<Rightarrow> ('s, 'c) controller \<Rightarrow> event_collector \<Rightarrow> app_error option list \<Rightarrow> ('s, 'c) exec_state" where
  "initial_exec_state cs ctl ec faults =
     \<lparr>es_circuits = cs, es_controller = ctl, es_events = ec, es_faults = faults, es_log = [],
      es_total_attempts = 0, es_attempts = [], es_last_failure = None\<rparr>"

lemma initial_loop_inv:
  "collector_ok ec \<Longrightarrow> \<not> output_committed ec \<Longrightarrow> observed_cluster ctl \<Longrightarrow> controller_inv ctl \<Longrightarrow>
    loop_inv avail ctl (initial_exec_state cs ctl ec faults)"
  by (simp add: initial_exec_state_def loop_inv_def core_inv_def numbered_def)

lemma initial_total [simp]: "es_total_attempts (initial_exec_state cs ctl ec faults) = 0"
  by (simp add: initial_exec_state_def)

definition sample_context :: "nat exec_context" where
  "sample_context =
     \<lparr>xc_semaphore = counter_semaphore, xc_show_uuid = (\<lambda>_. ''u''), xc_sha256 = id, xc_parse_json = (\<lambda>_. None),
      xc_maximum_total_upstream_attempts = 4, xc_command = sample_command, xc_policy = sample_policy,
      xc_route = \<lparr>rd_route_id = 1, rd_route_key = ''r'', rd_reason = GlobalDefault, rd_agent_profile_id = None\<rparr>,
      xc_has_tools = False, xc_deadline = 5000000000\<rparr>"

text \<open>The first attempt exceeds its timeout, the retry answers.\<close>

definition sample_attempt :: "nat \<Rightarrow> attempt_env" where
  "sample_attempt n =
     \<lparr>ae_now = 10, ae_attempt_id = of_nat n, ae_clock = (\<lambda>_. 5), ae_request = None, ae_started = Ok (),
      ae_polls = [], ae_completion = Ok \<lparr>co_text = ''hello'', co_usage = default_usage, co_provider_request_id = None\<rparr>,
      ae_tool_loop = Err (failed_attempt_from cancelled_failure),
      ae_end = (if n = 0 then EndElapsed else EndReturns), ae_persist_elapsed = None,
      ae_failed_now = 20, ae_deadline_now = 20,
      ae_retry = \<lparr>re_now = 30, re_cancelled_while_waiting = False, re_is_cancelled = False, re_now_after = 40\<rparr>\<rparr>"

definition sample_env :: "nat \<Rightarrow> candidate_env" where
  "sample_env rank =
     \<lparr>ce_credential_now = 1, ce_credential = PhaseReturns 1 (Ok 3), ce_circuit_now = 2, ce_handle_now = 3,
      ce_handle = PhaseReturns 1 (Ok ()), ce_attempt = sample_attempt\<rparr>"

definition sample_state :: "event_collector \<Rightarrow> (nat, unit \<times> string list) exec_state" where
  "sample_state ec = initial_exec_state Map.empty
     (sample_controller {''permit:global'', ''permit:provider:u''}) ec []"

lemma sample_state_ok:
  "semaphore_laws (xc_semaphore sample_context) id" "xc_maximum_total_upstream_attempts sample_context < 2 ^ 31"
  "\<not> output_committed EventCollector_new"
  by (simp_all add: sample_context_def EventCollector_new_def)

text \<open>
  C1: Whatever providers, deadlines, cancellations and the database do, an execution calls
  upstream at most \<open>maximum_total_upstream_attempts\<close> times and at most once per retry of each
  allowed candidate, and the attempts it reports are numbered from one without a gap.
\<close>

theorem execution_attempts_bounded:
  assumes "semaphore_laws (xc_semaphore xc) avail" and "xc_maximum_total_upstream_attempts xc < 2 ^ 31"
    and "collector_ok ec" and "\<not> output_committed ec" and "observed_cluster ctl" and "controller_inv ctl"
    and "execute_candidates xc env candidates (initial_exec_state cs ctl ec faults) = (x, st')"
  shows "es_total_attempts st' \<le> xc_maximum_total_upstream_attempts xc \<and>
    es_total_attempts st' \<le> (if ep_allow_fallback (xc_policy xc) then ep_max_fallbacks (xc_policy xc) + 1 else 1)
      * (ep_max_retries (xc_policy xc) + 1) \<and>
    (\<forall>oc. x = Ok oc \<longrightarrow> map pa_attempt_number (eo_attempts oc) = map int [1 ..< Suc (es_total_attempts st')])"
  using execute_candidates_post [OF assms(1,2) initial_loop_inv [OF assms(3-6)] _ assms(7)]
  by (simp add: result_ok_def)

theorem execution_attempts_bounded_witness:
  "es_total_attempts (snd (execute_candidates sample_context sample_env [sample_candidate]
     (sample_state EventCollector_new))) \<le> 4"
proof -
  obtain x st' where run: "execute_candidates sample_context sample_env [sample_candidate]
      (sample_state EventCollector_new) = (x, st')" by fastforce
  from execution_attempts_bounded [OF sample_state_ok(1,2) collector_ok_new sample_state_ok(3) sample_controller_ok
      run [unfolded sample_state_def]]
  have "es_total_attempts st' \<le> xc_maximum_total_upstream_attempts sample_context" by simp
  then have "es_total_attempts st' \<le> 4" by (simp add: sample_context_def)
  then show ?thesis by (simp add: run)
qed

text \<open>
  C2: When an execution ends, on every path, each permit it took at any scope has been
  returned: the local counters are those of the start.
\<close>

theorem execution_returns_capacity:
  assumes "semaphore_laws (xc_semaphore xc) avail" and "xc_maximum_total_upstream_attempts xc < 2 ^ 31"
    and "collector_ok ec" and "\<not> output_committed ec" and "observed_cluster ctl" and "controller_inv ctl"
    and "execute_candidates xc env candidates (initial_exec_state cs ctl ec faults) = (x, st')"
  shows "capacity_in_use avail (es_controller st') = capacity_in_use avail ctl \<and> controller_inv (es_controller st')"
  using execute_candidates_post [OF assms(1,2) initial_loop_inv [OF assms(3-6)] _ assms(7)]
  by (simp add: result_ok_def core_inv_def)

theorem execution_returns_capacity_witness:
  "capacity_in_use id (es_controller (snd (execute_candidates sample_context sample_env [sample_candidate]
     (sample_state EventCollector_new)))) =
   capacity_in_use id (sample_controller {''permit:global'', ''permit:provider:u''})"
proof -
  obtain x st' where run: "execute_candidates sample_context sample_env [sample_candidate]
      (sample_state EventCollector_new) = (x, st')" by fastforce
  from execution_returns_capacity [OF sample_state_ok(1,2) collector_ok_new sample_state_ok(3) sample_controller_ok
      run [unfolded sample_state_def]]
  show ?thesis by (simp add: run)
qed

text \<open>
  C3: The consumer of a stream never sees output of two attempts: once a text or tool-call event
  was delivered, no later event of the execution announces another attempt. Delivered events
  carry increasing sequence numbers.
\<close>

theorem no_attempt_after_output:
  assumes "semaphore_laws (xc_semaphore xc) avail" and "xc_maximum_total_upstream_attempts xc < 2 ^ 31"
    and "observed_cluster ctl" and "controller_inv ctl"
    and "execute_candidates xc env candidates
      (initial_exec_state cs ctl (EventCollector_streaming sends closed) faults) = (x, st')"
  shows "sorted_wrt (\<lambda>a b. ev_type a \<in> output_types \<longrightarrow> ev_type b \<noteq> ProviderAttemptStarted)
      (ec_events (es_events st') @ ec_sent (es_events st')) \<and>
    sorted_wrt (<) (map ev_sequence (ec_sent (es_events st')))"
proof -
  have "\<not> output_committed (EventCollector_streaming sends closed)"
    by (simp add: EventCollector_streaming_def EventCollector_new_def)
  from execute_candidates_post [OF assms(1,2) initial_loop_inv [OF collector_ok_streaming this assms(3,4)] _ assms(5)]
  have "collector_ok (es_events st')" by (simp add: result_ok_def core_inv_def)
  then have "sorted_wrt no_restart (ec_events (es_events st') @ ec_sent (es_events st'))"
    "sorted_wrt (<) (map ev_sequence (ec_sent (es_events st')))"
    by (simp_all add: collector_ok_def)
  moreover have "no_restart = (\<lambda>a b. ev_type a \<in> output_types \<longrightarrow> ev_type b \<noteq> ProviderAttemptStarted)"
    by (auto simp: no_restart_def fun_eq_iff)
  ultimately show ?thesis by simp
qed

theorem no_attempt_after_output_witness:
  "sorted_wrt (<) (map ev_sequence (ec_sent (es_events (snd (execute_candidates sample_context sample_env
     [sample_candidate] (sample_state (EventCollector_streaming [SendOk] False)))))))"
proof -
  obtain x st' where run: "execute_candidates sample_context sample_env [sample_candidate]
      (sample_state (EventCollector_streaming [SendOk] False)) = (x, st')" by fastforce
  from no_attempt_after_output [OF sample_state_ok(1,2) sample_controller_ok run [unfolded sample_state_def]]
  show ?thesis by (simp add: run)
qed

text \<open>
  C37: An execution that succeeds reports no failure, an answer, and as its last attempt the
  successful one with its usage and model; an execution that does not succeed reports the
  failure that its status is derived from.
\<close>

theorem execution_outcome_consistent:
  assumes "execute_candidates xc env candidates st = (Ok oc, st')"
  shows "outcome_consistent oc"
  using assms candidates_loop_consistent by (fastforce simp: execute_candidates_def Let_def)

theorem execution_outcome_consistent_witness:
  "\<exists>oc st'. execute_candidates sample_context sample_env [] (sample_state EventCollector_new) = (Ok oc, st') \<and>
     outcome_consistent oc"
proof -
  obtain oc st' where run: "execute_candidates sample_context sample_env [] (sample_state EventCollector_new) = (Ok oc, st')"
    by (simp add: execute_candidates_def finish_candidates_def sample_state_def initial_exec_state_def on_events_def)
  from execution_outcome_consistent [OF this] run show ?thesis by blast
qed

end
