(* ===== verification/Ssrf.thy ===== *)
theory Ssrf
  imports App_Error
begin

text \<open>
  The outbound URL guard, \<open>src/src/security/ssrf.rs\<close>: which addresses may never be contacted, the
  validation of a URL before a request, and the fetch of a key set with its limits.

  An IPv4 address is its four octets, an IPv6 address the list of its sixteen octets, as in the
  standard library, whose address predicates are written out. The URL parser, the resolver and
  the HTTP client are parameters: \<open>parse_url\<close> answers a \<open>parsed_url\<close> with the accessors the code
  reads, a resolution answers the addresses of a host, and a response is a record of what was
  received. The text of an error of those libraries is part of their answer.
\<close>

unbundle bit_operations_syntax

section \<open>Addresses\<close>

type_synonym octet = "8 word"

datatype ipv4_addr = Ipv4Addr octet octet octet octet

type_synonym ipv6_addr = "octet list"

datatype ip_addr = V4 ipv4_addr | V6 ipv6_addr

subsection \<open>The predicates of the standard library\<close>

fun ipv4_octets :: "ipv4_addr \<Rightarrow> octet list" where
  "ipv4_octets (Ipv4Addr a b c d) = [a, b, c, d]"

fun ipv4_is_unspecified :: "ipv4_addr \<Rightarrow> bool" where
  "ipv4_is_unspecified (Ipv4Addr a b c d) \<longleftrightarrow> a = 0 \<and> b = 0 \<and> c = 0 \<and> d = 0"

fun ipv4_is_loopback :: "ipv4_addr \<Rightarrow> bool" where
  "ipv4_is_loopback (Ipv4Addr a b c d) \<longleftrightarrow> a = 127"

fun ipv4_is_private :: "ipv4_addr \<Rightarrow> bool" where
  "ipv4_is_private (Ipv4Addr a b c d) \<longleftrightarrow>
     a = 10 \<or> (a = 172 \<and> 16 \<le> b \<and> b \<le> 31) \<or> (a = 192 \<and> b = 168)"

fun ipv4_is_link_local :: "ipv4_addr \<Rightarrow> bool" where
  "ipv4_is_link_local (Ipv4Addr a b c d) \<longleftrightarrow> a = 169 \<and> b = 254"

fun ipv4_is_multicast :: "ipv4_addr \<Rightarrow> bool" where
  "ipv4_is_multicast (Ipv4Addr a b c d) \<longleftrightarrow> 224 \<le> a \<and> a \<le> 239"

fun ipv4_is_broadcast :: "ipv4_addr \<Rightarrow> bool" where
  "ipv4_is_broadcast (Ipv4Addr a b c d) \<longleftrightarrow> a = 255 \<and> b = 255 \<and> c = 255 \<and> d = 255"

definition from_be_bytes :: "octet \<Rightarrow> octet \<Rightarrow> 16 word" where
  "from_be_bytes h l = ucast h * 256 + ucast l"

definition segments :: "ipv6_addr \<Rightarrow> 16 word list" where
  "segments ip = map (\<lambda>i. from_be_bytes (ip ! (2 * i)) (ip ! (2 * i + 1))) [0 ..< 8]"

definition ipv6_is_unspecified :: "ipv6_addr \<Rightarrow> bool" where
  "ipv6_is_unspecified ip \<longleftrightarrow> ip = replicate 16 0"

definition ipv6_is_loopback :: "ipv6_addr \<Rightarrow> bool" where
  "ipv6_is_loopback ip \<longleftrightarrow> ip = replicate 15 0 @ [1]"

definition ipv6_is_multicast :: "ipv6_addr \<Rightarrow> bool" where
  "ipv6_is_multicast ip \<longleftrightarrow> segments ip ! 0 AND 0xff00 = 0xff00"

definition to_ipv4_mapped :: "ipv6_addr \<Rightarrow> ipv4_addr option" where
  "to_ipv4_mapped ip =
     (if take 12 ip = replicate 10 0 @ [0xff, 0xff]
      then Some (Ipv4Addr (ip ! 12) (ip ! 13) (ip ! 14) (ip ! 15)) else None)"

definition to_ipv4 :: "ipv6_addr \<Rightarrow> ipv4_addr option" where
  "to_ipv4 ip =
     (if take 5 (segments ip) = replicate 5 0 \<and> (segments ip ! 5 = 0 \<or> segments ip ! 5 = 0xffff)
      then Some (Ipv4Addr (ip ! 12) (ip ! 13) (ip ! 14) (ip ! 15)) else None)"

subsection \<open>Denied addresses\<close>

fun is_denied_ipv4 :: "ipv4_addr \<Rightarrow> bool" where
  "is_denied_ipv4 (Ipv4Addr a b c d) =
     (let ip = Ipv4Addr a b c d in
      if ipv4_is_unspecified ip \<or> ipv4_is_loopback ip \<or> ipv4_is_private ip \<or> ipv4_is_link_local ip \<or>
         ipv4_is_multicast ip \<or> ipv4_is_broadcast ip then True
      else if a = 0 then True
      else if a = 100 \<and> 64 \<le> b \<and> b \<le> 127 then True
      else if a = 192 \<and> b = 0 \<and> c = 0 then True
      else if a = 192 \<and> b = 88 \<and> c = 99 then True
      else if a = 198 \<and> (b = 18 \<or> b = 19) then True
      else if 240 \<le> a then True
      else False)"

definition LAYOUTS :: "(nat list \<times> nat) list" where
  "LAYOUTS = [([4, 5, 6, 7], 9), ([5, 6, 7, 9], 10), ([6, 7, 9, 10], 11), ([7, 9, 10, 11], 12), ([9, 10, 11, 12], 13)]"

definition embedded_ipv4_addresses :: "ipv6_addr \<Rightarrow> ipv4_addr list" where
  "embedded_ipv4_addresses ip =
     (let s = segments ip; oct = (\<lambda>i. ip ! i) in
      (if take 6 s = [0, 0, 0, 0, 0xffff, 0] then [Ipv4Addr (oct 12) (oct 13) (oct 14) (oct 15)] else []) @
      (if s ! 0 = 0x2002 then [Ipv4Addr (oct 2) (oct 3) (oct 4) (oct 5)] else []) @
      (if s ! 0 = 0x0064 \<and> s ! 1 = 0xff9b then
         Ipv4Addr (oct 12) (oct 13) (oct 14) (oct 15) #
         (if oct 8 = 0 then
            concat (map (\<lambda>(positions, suffix_start).
              if list_all (\<lambda>byte. byte = 0) (drop suffix_start ip)
              then [Ipv4Addr (oct (positions ! 0)) (oct (positions ! 1)) (oct (positions ! 2)) (oct (positions ! 3))]
              else []) LAYOUTS)
          else [])
       else []))"

definition is_denied_ipv6 :: "ipv6_addr \<Rightarrow> bool" where
  "is_denied_ipv6 ip =
     (if ipv6_is_unspecified ip \<or> ipv6_is_loopback ip \<or> ipv6_is_multicast ip then True
      else case to_ipv4_mapped ip of
        Some v4 \<Rightarrow> is_denied_ipv4 v4
      | None \<Rightarrow>
      case to_ipv4 ip of
        Some v4 \<Rightarrow> is_denied_ipv4 v4
      | None \<Rightarrow>
      if list_ex is_denied_ipv4 (embedded_ipv4_addresses ip) then True
      else if segments ip ! 0 AND 0xfe00 = 0xfc00 then True
      else if segments ip ! 0 AND 0xffc0 = 0xfe80 then True
      else if segments ip ! 0 AND 0xffc0 = 0xfec0 then True
      else False)"

fun is_denied_ip :: "ip_addr \<Rightarrow> bool" where
  "is_denied_ip (V4 v4) = is_denied_ipv4 v4"
| "is_denied_ip (V6 v6) = is_denied_ipv6 v6"

section \<open>What is denied, as address blocks\<close>

fun ipv4_value :: "ipv4_addr \<Rightarrow> nat" where
  "ipv4_value (Ipv4Addr a b c d) = ((unat a * 256 + unat b) * 256 + unat c) * 256 + unat d"

text \<open>The addresses of a block given by its first address and its prefix length.\<close>

definition block :: "ipv4_addr \<Rightarrow> nat \<Rightarrow> nat set" where
  "block base len = {ipv4_value base ..< ipv4_value base + 2 ^ (32 - len)}"

definition denied_blocks :: "(ipv4_addr \<times> nat) list" where
  "denied_blocks =
     [(Ipv4Addr 0 0 0 0, 8), (Ipv4Addr 10 0 0 0, 8), (Ipv4Addr 100 64 0 0, 10), (Ipv4Addr 127 0 0 0, 8),
      (Ipv4Addr 169 254 0 0, 16), (Ipv4Addr 172 16 0 0, 12), (Ipv4Addr 192 0 0 0, 24),
      (Ipv4Addr 192 88 99 0, 24), (Ipv4Addr 192 168 0 0, 16), (Ipv4Addr 198 18 0 0, 15),
      (Ipv4Addr 224 0 0 0, 4), (Ipv4Addr 240 0 0 0, 4)]"

lemma octet_less: "unat (w :: octet) < 256"
  using unsigned_less [of w] by simp

lemmas octet_arith = word_le_nat_alt word_unat_eq_iff

lemma high_part:
  fixes B K L x r :: nat
  assumes "r < B"
  shows "x * B + r \<in> {K * B ..< L * B} \<longleftrightarrow> K \<le> x \<and> x < L"
proof -
  have "(x * B + r) div B = x" using assms by simp
  then have "K * B \<le> x * B + r \<longleftrightarrow> K \<le> x" and "x * B + r < L * B \<longleftrightarrow> x < L"
    using assms less_eq_div_iff_mult_less_eq [of B] div_less_iff_less_mult [of B] by (metis gr_zeroI not_less0)+
  then show ?thesis by simp
qed

lemma radix_eq:
  fixes B k s x r :: nat
  assumes "r < B" and "s < B"
  shows "x * B + r = k * B + s \<longleftrightarrow> x = k \<and> r = s"
proof
  assume eq: "x * B + r = k * B + s"
  have "(x * B + r) div B = x" "(k * B + s) div B = k" using assms by simp_all
  with eq show "x = k \<and> r = s" by simp
qed simp

lemma radix_between:
  fixes a b k lo hi :: nat
  assumes "b < 256" and "lo < 256" and "hi \<le> 256" and "n = k * 256 + lo" and "m = k * 256 + hi"
  shows "n \<le> a * 256 + b \<and> a * 256 + b < m \<longleftrightarrow> a = k \<and> lo \<le> b \<and> b < hi"
proof
  assume r: "n \<le> a * 256 + b \<and> a * 256 + b < m"
  with assms have "a < k + 1" "k < a + 1" by linarith+
  then have "a = k" by simp
  with r assms show "a = k \<and> lo \<le> b \<and> b < hi" by simp
qed (simp add: assms)

lemma between_Suc: "x \<le> y \<and> y < Suc x \<longleftrightarrow> y = x"
  by auto

lemma block_simps:
  fixes a b c d :: nat
  assumes "a < 256" and "b < 256" and "c < 256" and "d < 256"
  defines "v \<equiv> ((a * 256 + b) * 256 + c) * 256 + d"
  shows "v \<in> block (Ipv4Addr 0 0 0 0) 8 \<longleftrightarrow> a = 0"
    and "v \<in> block (Ipv4Addr 10 0 0 0) 8 \<longleftrightarrow> a = 10"
    and "v \<in> block (Ipv4Addr 100 64 0 0) 10 \<longleftrightarrow> a = 100 \<and> 64 \<le> b \<and> b \<le> 127"
    and "v \<in> block (Ipv4Addr 127 0 0 0) 8 \<longleftrightarrow> a = 127"
    and "v \<in> block (Ipv4Addr 169 254 0 0) 16 \<longleftrightarrow> a = 169 \<and> b = 254"
    and "v \<in> block (Ipv4Addr 172 16 0 0) 12 \<longleftrightarrow> a = 172 \<and> 16 \<le> b \<and> b \<le> 31"
    and "v \<in> block (Ipv4Addr 192 0 0 0) 24 \<longleftrightarrow> a = 192 \<and> b = 0 \<and> c = 0"
    and "v \<in> block (Ipv4Addr 192 88 99 0) 24 \<longleftrightarrow> a = 192 \<and> b = 88 \<and> c = 99"
    and "v \<in> block (Ipv4Addr 192 168 0 0) 16 \<longleftrightarrow> a = 192 \<and> b = 168"
    and "v \<in> block (Ipv4Addr 198 18 0 0) 15 \<longleftrightarrow> a = 198 \<and> (b = 18 \<or> b = 19)"
    and "v \<in> block (Ipv4Addr 224 0 0 0) 4 \<longleftrightarrow> 224 \<le> a \<and> a \<le> 239"
    and "v \<in> block (Ipv4Addr 240 0 0 0) 4 \<longleftrightarrow> 240 \<le> a"
proof -
  have one: "v \<in> {K * 16777216 ..< L * 16777216} \<longleftrightarrow> K \<le> a \<and> a < L" for K L
    using high_part [of "(b * 256 + c) * 256 + d" 16777216 a K L] assms by (simp add: v_def algebra_simps)
  have two: "v \<in> {K * 65536 ..< L * 65536} \<longleftrightarrow> K \<le> a * 256 + b \<and> a * 256 + b < L" for K L
    using high_part [of "c * 256 + d" 65536 "a * 256 + b" K L] assms by (simp add: v_def algebra_simps)
  have three: "v \<in> {K * 256 ..< L * 256} \<longleftrightarrow> K \<le> (a * 256 + b) * 256 + c \<and> (a * 256 + b) * 256 + c < L" for K L
    using high_part [of d 256 "(a * 256 + b) * 256 + c" K L] assms by (simp add: v_def algebra_simps)
  show "v \<in> block (Ipv4Addr 0 0 0 0) 8 \<longleftrightarrow> a = 0" using one [of 0 1] by (simp add: block_def)
  show "v \<in> block (Ipv4Addr 10 0 0 0) 8 \<longleftrightarrow> a = 10" using one [of 10 11] by (simp add: block_def) linarith
  show "v \<in> block (Ipv4Addr 127 0 0 0) 8 \<longleftrightarrow> a = 127" using one [of 127 128] by (simp add: block_def) linarith
  show "v \<in> block (Ipv4Addr 224 0 0 0) 4 \<longleftrightarrow> 224 \<le> a \<and> a \<le> 239" using one [of 224 240] by (simp add: block_def) linarith
  show "v \<in> block (Ipv4Addr 240 0 0 0) 4 \<longleftrightarrow> 240 \<le> a" using one [of 240 256] assms by (simp add: block_def)
  show "v \<in> block (Ipv4Addr 100 64 0 0) 10 \<longleftrightarrow> a = 100 \<and> 64 \<le> b \<and> b \<le> 127"
    using two [of 25664 25728] radix_between [of b 64 128 25664 100 25728 a] assms(2) by (auto simp: block_def)
  show "v \<in> block (Ipv4Addr 169 254 0 0) 16 \<longleftrightarrow> a = 169 \<and> b = 254"
    using two [of 43518 43519] radix_between [of b 254 255 43518 169 43519 a] assms(2) by (auto simp: block_def)
  show "v \<in> block (Ipv4Addr 172 16 0 0) 12 \<longleftrightarrow> a = 172 \<and> 16 \<le> b \<and> b \<le> 31"
    using two [of 44048 44064] radix_between [of b 16 32 44048 172 44064 a] assms(2) by (auto simp: block_def)
  show "v \<in> block (Ipv4Addr 192 168 0 0) 16 \<longleftrightarrow> a = 192 \<and> b = 168"
    using two [of 49320 49321] radix_between [of b 168 169 49320 192 49321 a] assms(2) by (auto simp: block_def)
  show "v \<in> block (Ipv4Addr 198 18 0 0) 15 \<longleftrightarrow> a = 198 \<and> (b = 18 \<or> b = 19)"
    using two [of 50706 50708] radix_between [of b 18 20 50706 198 50708 a] assms(2) by (auto simp: block_def)
  have exact: "v \<in> {((A * 256 + B) * 256 + C) * 256 ..< Suc ((A * 256 + B) * 256 + C) * 256} \<longleftrightarrow>
      a = A \<and> b = B \<and> c = C" if "B < 256" "C < 256" for A B C
  proof -
    have "v \<in> {((A * 256 + B) * 256 + C) * 256 ..< Suc ((A * 256 + B) * 256 + C) * 256} \<longleftrightarrow>
        (a * 256 + b) * 256 + c = (A * 256 + B) * 256 + C"
      unfolding three by (rule between_Suc)
    then show ?thesis
      unfolding radix_eq [OF assms(3) that(2)] radix_eq [OF assms(2) that(1)] by simp
  qed
  show "v \<in> block (Ipv4Addr 192 0 0 0) 24 \<longleftrightarrow> a = 192 \<and> b = 0 \<and> c = 0"
    using exact [of 0 0 192] by (simp add: block_def)
  show "v \<in> block (Ipv4Addr 192 88 99 0) 24 \<longleftrightarrow> a = 192 \<and> b = 88 \<and> c = 99"
    using exact [of 88 99 192] by (simp add: block_def)
qed

lemma is_denied_ipv4_blocks:
  "is_denied_ipv4 ip \<longleftrightarrow> (\<exists>(base, len) \<in> set denied_blocks. ipv4_value ip \<in> block base len)"
proof (cases ip)
  case (Ipv4Addr a b c d)
  have less: "unat a < 256" "unat b < 256" "unat c < 256" "unat d < 256" by (rule octet_less)+
  have "(\<exists>(base, len) \<in> set denied_blocks. ipv4_value ip \<in> block base len) \<longleftrightarrow>
      unat a = 0 \<or> unat a = 10 \<or> (unat a = 100 \<and> 64 \<le> unat b \<and> unat b \<le> 127) \<or> unat a = 127 \<or>
      (unat a = 169 \<and> unat b = 254) \<or> (unat a = 172 \<and> 16 \<le> unat b \<and> unat b \<le> 31) \<or>
      (unat a = 192 \<and> unat b = 0 \<and> unat c = 0) \<or> (unat a = 192 \<and> unat b = 88 \<and> unat c = 99) \<or>
      (unat a = 192 \<and> unat b = 168) \<or> (unat a = 198 \<and> (unat b = 18 \<or> unat b = 19)) \<or>
      (224 \<le> unat a \<and> unat a \<le> 239) \<or> 240 \<le> unat a"
    unfolding denied_blocks_def Ipv4Addr ipv4_value.simps
    by (simp only: list.set block_simps [OF less] bex_simps prod.case simp_thms)
  also have "\<dots> \<longleftrightarrow> is_denied_ipv4 ip"
    unfolding Ipv4Addr is_denied_ipv4.simps Let_def ipv4_is_unspecified.simps ipv4_is_loopback.simps
      ipv4_is_private.simps ipv4_is_link_local.simps ipv4_is_multicast.simps ipv4_is_broadcast.simps octet_arith
    by auto
  finally show ?thesis by blast
qed

subsection \<open>IPv6\<close>

lemma unat_from_be_bytes: "unat (from_be_bytes h l) = 256 * unat h + unat l"
  using octet_less [of h] octet_less [of l]
  by (simp add: from_be_bytes_def unat_word_ariths unsigned_ucast_eq take_bit_eq_mod)

lemma unat_and_high: "unat (s AND NOT (mask n)) = unat s div 2 ^ n * 2 ^ n" for s :: "'a::len word"
proof -
  have "s AND NOT (mask n) = push_bit n (drop_bit n s)"
    by (rule bit_word_eqI) (auto simp: bit_simps)
  moreover have "unat s div 2 ^ n * 2 ^ n < 2 ^ LENGTH('a)"
    by (rule le_less_trans [OF div_times_less_eq_dividend]) (rule unsigned_less)
  ultimately show ?thesis
    by (simp only: unsigned_push_bit_eq unat_drop_bit_eq) (simp add: drop_bit_eq_div push_bit_eq_mult take_bit_eq_mod)
qed

lemma segment_prefixes:
  "from_be_bytes h l AND 0xff00 = 0xff00 \<longleftrightarrow> h = 0xff"
  "from_be_bytes h l AND 0xfe00 = 0xfc00 \<longleftrightarrow> h = 0xfc \<or> h = 0xfd"
  "from_be_bytes h l AND 0xffc0 = 0xfe80 \<longleftrightarrow> h = 0xfe \<and> 0x80 \<le> l \<and> l < 0xc0"
  "from_be_bytes h l AND 0xffc0 = 0xfec0 \<longleftrightarrow> h = 0xfe \<and> 0xc0 \<le> l"
proof -
  have less: "unat h < 256" "unat l < 256" by (rule octet_less)+
  have m: "(0xff00 :: 16 word) = NOT (mask 8)" "(0xfe00 :: 16 word) = NOT (mask 9)" "(0xffc0 :: 16 word) = NOT (mask 6)"
    by (simp_all add: mask_numeral)
  have "from_be_bytes h l AND NOT (mask 8) = 0xff00 \<longleftrightarrow> h = 0xff"
    using less by (simp add: word_unat_eq_iff unat_from_be_bytes unat_and_high)
  with m show "from_be_bytes h l AND 0xff00 = 0xff00 \<longleftrightarrow> h = 0xff" by metis
  have "unat (from_be_bytes h l) div 256 = unat h" using less by (simp add: unat_from_be_bytes)
  then have nine: "unat (from_be_bytes h l) div 512 = unat h div 2"
    using div_mult2_eq [of "unat (from_be_bytes h l)" 256 2] by simp
  have "from_be_bytes h l AND NOT (mask 9) = 0xfc00 \<longleftrightarrow> h = 0xfc \<or> h = 0xfd"
    using less by (simp add: word_unat_eq_iff unat_and_high nine) linarith
  with m show "from_be_bytes h l AND 0xfe00 = 0xfc00 \<longleftrightarrow> h = 0xfc \<or> h = 0xfd" by metis
  have "unat (from_be_bytes h l) div 64 = 4 * unat h + unat l div 64"
    unfolding unat_from_be_bytes by simp
  then have six: "unat (from_be_bytes h l) div 64 * 64 = (unat h * 4 + unat l div 64) * 64" by simp
  have q: "unat l div 64 < 4" "unat l div 64 = 2 \<longleftrightarrow> 128 \<le> unat l \<and> unat l < 192" "unat l div 64 = 3 \<longleftrightarrow> 192 \<le> unat l"
    using less(2) by linarith+
  have top: "(unat h * 4 + unat l div 64) * 64 = 64 * (254 * 4 + s) \<longleftrightarrow> unat h = 254 \<and> unat l div 64 = s" if "s < 4" for s
    using radix_eq [OF q(1) that, of "unat h" 254] by (metis mult.commute mult_cancel1 zero_neq_numeral)
  have "from_be_bytes h l AND NOT (mask 6) = 0xfe80 \<longleftrightarrow> h = 0xfe \<and> 0x80 \<le> l \<and> l < 0xc0"
    using top [of 2] q(2) unfolding word_unat_eq_iff word_le_nat_alt word_less_nat_alt unat_and_high power_numeral
    by (simp add: six)
  with m show "from_be_bytes h l AND 0xffc0 = 0xfe80 \<longleftrightarrow> h = 0xfe \<and> 0x80 \<le> l \<and> l < 0xc0" by metis
  have "from_be_bytes h l AND NOT (mask 6) = 0xfec0 \<longleftrightarrow> h = 0xfe \<and> 0xc0 \<le> l"
    using top [of 3] q(3) unfolding word_unat_eq_iff word_le_nat_alt word_less_nat_alt unat_and_high power_numeral
    by (simp add: six)
  with m show "from_be_bytes h l AND 0xffc0 = 0xfec0 \<longleftrightarrow> h = 0xfe \<and> 0xc0 \<le> l" by metis
qed

lemma segment_values:
  "from_be_bytes h l = 0 \<longleftrightarrow> h = 0 \<and> l = 0"
  "from_be_bytes h l = 0xffff \<longleftrightarrow> h = 0xff \<and> l = 0xff"
  "from_be_bytes h l = 0x2002 \<longleftrightarrow> h = 0x20 \<and> l = 0x02"
  "from_be_bytes h l = 0x64 \<longleftrightarrow> h = 0 \<and> l = 0x64"
  "from_be_bytes h l = 0xff9b \<longleftrightarrow> h = 0xff \<and> l = 0x9b"
proof -
  have less: "unat h < 256" "unat l < 256" by (rule octet_less)+
  note arith = word_unat_eq_iff unat_from_be_bytes
  show "from_be_bytes h l = 0 \<longleftrightarrow> h = 0 \<and> l = 0" using less by (simp add: arith)
  show "from_be_bytes h l = 0xffff \<longleftrightarrow> h = 0xff \<and> l = 0xff" using radix_eq [OF less(2), of 255 "unat h" 255] by (simp add: arith mult.commute)
  show "from_be_bytes h l = 0x2002 \<longleftrightarrow> h = 0x20 \<and> l = 0x02" using radix_eq [OF less(2), of 2 "unat h" 32] by (simp add: arith mult.commute)
  show "from_be_bytes h l = 0x64 \<longleftrightarrow> h = 0 \<and> l = 0x64" using radix_eq [OF less(2), of 100 "unat h" 0] by (simp add: arith mult.commute)
  show "from_be_bytes h l = 0xff9b \<longleftrightarrow> h = 0xff \<and> l = 0x9b" using radix_eq [OF less(2), of 155 "unat h" 255] by (simp add: arith mult.commute)
qed

text \<open>
  \<open>carries v4 v6\<close>: the IPv6 address is one of the forms a host or a gateway may deliver to the IPv4
  address: mapped, compatible, translated, 6to4, and the embeddings of RFC 6052 in the
  well-known prefix for every prefix length.
\<close>

inductive carries :: "ipv4_addr \<Rightarrow> ipv6_addr \<Rightarrow> bool" where
  mapped: "carries (Ipv4Addr a b c d) [0, 0, 0, 0, 0, 0, 0, 0, 0, 0, 0xff, 0xff, a, b, c, d]"
| compatible: "carries (Ipv4Addr a b c d) [0, 0, 0, 0, 0, 0, 0, 0, 0, 0, 0, 0, a, b, c, d]"
| translated: "carries (Ipv4Addr a b c d) [0, 0, 0, 0, 0, 0, 0, 0, 0xff, 0xff, 0, 0, a, b, c, d]"
| six_to_four: "carries (Ipv4Addr a b c d) [0x20, 0x02, a, b, c, d, o6, o7, o8, o9, o10, o11, o12, o13, o14, o15]"
| nat64_96: "carries (Ipv4Addr a b c d) [0, 0x64, 0xff, 0x9b, o4, o5, o6, o7, o8, o9, o10, o11, a, b, c, d]"
| nat64_32: "carries (Ipv4Addr a b c d) [0, 0x64, 0xff, 0x9b, a, b, c, d, 0, 0, 0, 0, 0, 0, 0, 0]"
| nat64_40: "carries (Ipv4Addr a b c d) [0, 0x64, 0xff, 0x9b, o4, a, b, c, 0, d, 0, 0, 0, 0, 0, 0]"
| nat64_48: "carries (Ipv4Addr a b c d) [0, 0x64, 0xff, 0x9b, o4, o5, a, b, 0, c, d, 0, 0, 0, 0, 0]"
| nat64_56: "carries (Ipv4Addr a b c d) [0, 0x64, 0xff, 0x9b, o4, o5, o6, a, 0, b, c, d, 0, 0, 0, 0]"
| nat64_64: "carries (Ipv4Addr a b c d) [0, 0x64, 0xff, 0x9b, o4, o5, o6, o7, 0, a, b, c, d, 0, 0, 0]"

text \<open>IPv6 ranges that are denied by themselves.\<close>

definition denied_prefix :: "ipv6_addr \<Rightarrow> bool" where
  "denied_prefix ip \<longleftrightarrow>
     ip ! 0 = 0xff \<or> ip ! 0 = 0xfc \<or> ip ! 0 = 0xfd \<or> (ip ! 0 = 0xfe \<and> 0x80 \<le> ip ! 1)"

lemma sixteen_octets:
  assumes "length ip = 16"
  obtains a b c d e f g h i j k l m n p q where "ip = [a, b, c, d, e, f, g, h, i, j, k, l, m, n, p, q]"
  using assms by (auto simp: eval_nat_numeral length_Suc_conv)

lemma carries_length: "carries v4 v6 \<Longrightarrow> length v6 = 16"
  by (induction rule: carries.induct) simp_all

text \<open>The operations on an address given by its octets.\<close>

lemma segments_octets:
  "segments [a, b, c, d, e, f, g, h, i, j, k, l, m, n, p, q] =
     [from_be_bytes a b, from_be_bytes c d, from_be_bytes e f, from_be_bytes g h, from_be_bytes i j,
      from_be_bytes k l, from_be_bytes m n, from_be_bytes p q]"
  by (simp add: segments_def upt_rec)

lemma ipv6_tests:
  fixes a b c d e f g h i j k l m n p q :: octet
  defines "ip \<equiv> [a, b, c, d, e, f, g, h, i, j, k, l, m, n, p, q]"
  shows "ipv6_is_unspecified ip \<longleftrightarrow> ip = [0, 0, 0, 0, 0, 0, 0, 0, 0, 0, 0, 0, 0, 0, 0, 0]"
    and "ipv6_is_loopback ip \<longleftrightarrow> ip = [0, 0, 0, 0, 0, 0, 0, 0, 0, 0, 0, 0, 0, 0, 0, 1]"
    and "ipv6_is_multicast ip \<longleftrightarrow> a = 0xff"
    and "to_ipv4_mapped ip =
      (if [a, b, c, d, e, f, g, h, i, j, k, l] = [0, 0, 0, 0, 0, 0, 0, 0, 0, 0, 0xff, 0xff]
       then Some (Ipv4Addr m n p q) else None)"
    and "to_ipv4 ip =
      (if [a, b, c, d, e, f, g, h, i, j] = [0, 0, 0, 0, 0, 0, 0, 0, 0, 0] \<and> (k = 0 \<and> l = 0 \<or> k = 0xff \<and> l = 0xff)
       then Some (Ipv4Addr m n p q) else None)"
  unfolding ip_def ipv6_is_unspecified_def ipv6_is_loopback_def ipv6_is_multicast_def to_ipv4_mapped_def
    to_ipv4_def segments_octets
  by (simp_all add: numeral_nat segment_prefixes segment_values conj_assoc)

lemma embedded_octets:
  fixes a b c d e f g h i j k l m n p q :: octet
  defines "ip \<equiv> [a, b, c, d, e, f, g, h, i, j, k, l, m, n, p, q]"
  shows "x \<in> set (embedded_ipv4_addresses ip) \<longleftrightarrow>
     (x = Ipv4Addr m n p q \<and>
      a = 0 \<and> b = 0 \<and> c = 0 \<and> d = 0 \<and> e = 0 \<and> f = 0 \<and> g = 0 \<and> h = 0 \<and> i = 0xff \<and> j = 0xff \<and> k = 0 \<and> l = 0) \<or>
     (x = Ipv4Addr c d e f \<and> a = 0x20 \<and> b = 0x02) \<or>
     (a = 0 \<and> b = 0x64 \<and> c = 0xff \<and> d = 0x9b \<and>
      (x = Ipv4Addr m n p q \<or> i = 0 \<and>
        (x = Ipv4Addr e f g h \<and> j = 0 \<and> k = 0 \<and> l = 0 \<and> m = 0 \<and> n = 0 \<and> p = 0 \<and> q = 0 \<or>
         x = Ipv4Addr f g h j \<and> k = 0 \<and> l = 0 \<and> m = 0 \<and> n = 0 \<and> p = 0 \<and> q = 0 \<or>
         x = Ipv4Addr g h j k \<and> l = 0 \<and> m = 0 \<and> n = 0 \<and> p = 0 \<and> q = 0 \<or>
         x = Ipv4Addr h j k l \<and> m = 0 \<and> n = 0 \<and> p = 0 \<and> q = 0 \<or>
         x = Ipv4Addr j k l m \<and> n = 0 \<and> p = 0 \<and> q = 0)))"
  unfolding ip_def embedded_ipv4_addresses_def segments_octets Let_def
  by (simp add: numeral_nat segment_values LAYOUTS_def conj_assoc split del: if_split)

lemma carries_found: "carries x ip \<Longrightarrow> to_ipv4 ip = Some x \<or> x \<in> set (embedded_ipv4_addresses ip)"
  by (induction rule: carries.induct) (simp_all add: embedded_octets ipv6_tests)

lemma found_carries:
  assumes "length ip = 16" and "to_ipv4 ip = Some x \<or> x \<in> set (embedded_ipv4_addresses ip)"
  shows "carries x ip"
proof -
  obtain a b c d e f g h i j k l m n p q where ip: "ip = [a, b, c, d, e, f, g, h, i, j, k, l, m, n, p, q]"
    using assms(1) by (rule sixteen_octets)
  from assms(2) show ?thesis
  proof
    assume "to_ipv4 ip = Some x"
    then show ?thesis unfolding ip ipv6_tests by (auto split: if_splits intro: carries.intros)
  next
    assume "x \<in> set (embedded_ipv4_addresses ip)"
    then show ?thesis unfolding ip embedded_octets by (elim disjE conjE; simp add: carries.intros)
  qed
qed

lemma carries_iff:
  "length ip = 16 \<Longrightarrow> carries x ip \<longleftrightarrow> to_ipv4 ip = Some x \<or> x \<in> set (embedded_ipv4_addresses ip)"
  using carries_found found_carries by blast

lemma is_denied_ipv6_exact:
  assumes "length ip = 16"
  shows "is_denied_ipv6 ip \<longleftrightarrow> denied_prefix ip \<or> (\<exists>v4. carries v4 ip \<and> is_denied_ipv4 v4)"
proof -
  obtain a b c d e f g h i j k l m n p q where ip: "ip = [a, b, c, d, e, f, g, h, i, j, k, l, m, n, p, q]"
    using assms by (rule sixteen_octets)
  note carry = carries_iff [OF assms]
  have first: "segments ip ! 0 = from_be_bytes a b" by (simp add: ip segments_octets)
  show ?thesis
  proof (cases "to_ipv4 ip")
    case (Some v4)
    then have zero: "[a, b, c, d, e, f, g, h, i, j] = [0, 0, 0, 0, 0, 0, 0, 0, 0, 0]" and v4: "v4 = Ipv4Addr m n p q"
      by (simp_all add: ip ipv6_tests split: if_splits)
    then have "x \<notin> set (embedded_ipv4_addresses ip)" for x
      unfolding ip embedded_octets by simp
    then have "(\<exists>v. carries v ip \<and> is_denied_ipv4 v) \<longleftrightarrow> is_denied_ipv4 v4" using Some by (simp add: carry)
    moreover have "\<not> denied_prefix ip" using zero by (simp add: denied_prefix_def ip)
    moreover have "\<not> ipv6_is_multicast ip" using zero by (simp add: ip ipv6_tests)
    moreover have "is_denied_ipv4 v4" if "ipv6_is_unspecified ip \<or> ipv6_is_loopback ip"
      using that by (auto simp: v4 ip ipv6_tests)
    moreover have "to_ipv4_mapped ip = None \<or> to_ipv4_mapped ip = Some v4"
      unfolding v4 ip ipv6_tests by presburger
    ultimately show ?thesis using Some by (auto simp: is_denied_ipv6_def)
  next
    case None
    then have "to_ipv4_mapped ip = None" "\<not> ipv6_is_unspecified ip" "\<not> ipv6_is_loopback ip"
      by (auto simp: ip ipv6_tests split: if_splits)
    moreover have "(\<exists>v. carries v ip \<and> is_denied_ipv4 v) \<longleftrightarrow> list_ex is_denied_ipv4 (embedded_ipv4_addresses ip)"
      using None by (auto simp: carry list_ex_iff)
    moreover have "128 \<le> b" if "192 \<le> b" using that by (simp add: word_le_nat_alt)
    then have "denied_prefix ip \<longleftrightarrow> ipv6_is_multicast ip \<or> segments ip ! 0 AND 0xfe00 = 0xfc00 \<or>
        segments ip ! 0 AND 0xffc0 = 0xfe80 \<or> segments ip ! 0 AND 0xffc0 = 0xfec0"
      unfolding first segment_prefixes by (auto simp: denied_prefix_def ip ipv6_tests)
    ultimately show ?thesis using None by (simp add: is_denied_ipv6_def)
  qed
qed

section \<open>Validating a URL\<close>

datatype outbound_denial_reason =
    DenialUrl | DenialScheme | DenialCredentials | DenialHost | DenialResolution | DenialIpRange
  | DenialHostNotAllowed | DenialTimeout

fun outbound_reason_str :: "outbound_denial_reason \<Rightarrow> string" where
  "outbound_reason_str DenialUrl = ''url''"
| "outbound_reason_str DenialScheme = ''scheme''"
| "outbound_reason_str DenialCredentials = ''credentials''"
| "outbound_reason_str DenialHost = ''host''"
| "outbound_reason_str DenialResolution = ''resolution''"
| "outbound_reason_str DenialIpRange = ''ip_range''"
| "outbound_reason_str DenialHostNotAllowed = ''host_not_allowed''"
| "outbound_reason_str DenialTimeout = ''timeout''"

record outbound_url_denial =
  od_reason :: outbound_denial_reason
  od_detail :: string

definition OutboundUrlDenial_new :: "outbound_denial_reason \<Rightarrow> string \<Rightarrow> outbound_url_denial" where
  "OutboundUrlDenial_new r d = \<lparr>od_reason = r, od_detail = d\<rparr>"

record outbound_url_policy =
  pol_subject :: string
  pol_dns_timeout :: duration
  pol_allowed_hosts :: "string list"
  pol_reject_credentials :: bool
  pol_allow_insecure :: bool

text \<open>What the code reads of a parsed URL.\<close>

datatype host = Domain string | HostV4 ipv4_addr | HostV6 ipv6_addr

record parsed_url =
  url_text :: string
  url_scheme :: string
  url_username :: string
  url_password :: "string option"
  url_host :: "host option"
  url_port_or_known_default :: "nat option"

text \<open>The answer of the resolver, or that it did not answer within the timeout.\<close>

datatype resolution = Resolved "ip_addr list" | ResolveFailed string | ResolveTimedOut

subsection \<open>Formatting of addresses\<close>

fun show_ipv4 :: "ipv4_addr \<Rightarrow> string" where
  "show_ipv4 (Ipv4Addr a b c d) =
     show_nat (unat a) @ ''.'' @ show_nat (unat b) @ ''.'' @ show_nat (unat c) @ ''.'' @ show_nat (unat d)"

fun show_hex :: "nat \<Rightarrow> string" where
  "show_hex n = (if n < 16 then [''0123456789abcdef'' ! n] else show_hex (n div 16) @ [''0123456789abcdef'' ! (n mod 16)])"

declare show_hex.simps [simp del]

fun intersperse_colon :: "string list \<Rightarrow> string" where
  "intersperse_colon [] = []"
| "intersperse_colon [s] = s"
| "intersperse_colon (s # t # ss) = s @ '':'' @ intersperse_colon (t # ss)"

definition show_segments :: "16 word list \<Rightarrow> string" where
  "show_segments ss = intersperse_colon (map (\<lambda>s. show_hex (unat s)) ss)"

text \<open>The first longest run of zero segments, as start and length.\<close>

definition zero_run :: "16 word list \<Rightarrow> nat \<Rightarrow> nat" where
  "zero_run ss i = length (takeWhile (\<lambda>s. s = 0) (drop i ss))"

definition longest_zero_run :: "16 word list \<Rightarrow> nat \<times> nat" where
  "longest_zero_run ss =
     (let n = Max (set (map (zero_run ss) [0 ..< Suc (length ss)]));
          i = hd (filter (\<lambda>i. zero_run ss i = n) [0 ..< Suc (length ss)])
      in (i, n))"

definition show_ipv6 :: "ipv6_addr \<Rightarrow> string" where
  "show_ipv6 ip =
     (case to_ipv4_mapped ip of
        Some v4 \<Rightarrow> ''::ffff:'' @ show_ipv4 v4
      | None \<Rightarrow>
          (case longest_zero_run (segments ip) of
             (i, n) \<Rightarrow>
               if 1 < n then show_segments (take i (segments ip)) @ ''::'' @ show_segments (drop (i + n) (segments ip))
               else show_segments (segments ip)))"

fun show_ip :: "ip_addr \<Rightarrow> string" where
  "show_ip (V4 v4) = show_ipv4 v4"
| "show_ip (V6 v6) = show_ipv6 v6"

subsection \<open>The checks\<close>

definition eq_ignore_ascii_case :: "string \<Rightarrow> string \<Rightarrow> bool" where
  "eq_ignore_ascii_case s t \<longleftrightarrow> to_ascii_lowercase s = to_ascii_lowercase t"

definition reject_if_denied :: "string \<Rightarrow> ip_addr \<Rightarrow> outbound_url_denial + unit" where
  "reject_if_denied subject ip =
     (if is_denied_ip ip
      then Err (OutboundUrlDenial_new DenialIpRange (subject @ '' resolves to denied address '' @ show_ip ip))
      else Ok ())"

fun reject_any_denied :: "string \<Rightarrow> ip_addr list \<Rightarrow> outbound_url_denial + unit" where
  "reject_any_denied subject [] = Ok ()"
| "reject_any_denied subject (ip # ips) =
     and_then (reject_if_denied subject ip) (\<lambda>_. reject_any_denied subject ips)"

definition quoted :: "string \<Rightarrow> string" where
  "quoted s = [CHR 0x27] @ s @ [CHR 0x27]"

definition host_text :: "host \<Rightarrow> string" where
  "host_text h = (case h of Domain d \<Rightarrow> to_ascii_lowercase d | HostV4 v4 \<Rightarrow> show_ipv4 v4 | HostV6 v6 \<Rightarrow> show_ipv6 v6)"

definition validate_host ::
    "outbound_url_policy \<Rightarrow> (string \<Rightarrow> nat \<Rightarrow> resolution) \<Rightarrow> parsed_url \<Rightarrow> host \<Rightarrow> outbound_url_denial + unit" where
  "validate_host policy resolve url h =
     (let subject = pol_subject policy in
      case h of
        HostV4 v4 \<Rightarrow> reject_if_denied subject (V4 v4)
      | HostV6 v6 \<Rightarrow> reject_if_denied subject (V6 v6)
      | Domain d \<Rightarrow>
          (let port = (case url_port_or_known_default url of None \<Rightarrow> 443 | Some p \<Rightarrow> p) in
           case resolve d port of
             ResolveTimedOut \<Rightarrow> Err (OutboundUrlDenial_new DenialTimeout
               (subject @ '' host '' @ quoted d @ '' did not resolve within '' @
                show_nat (pol_dns_timeout policy div 1000000) @ '' ms''))
           | ResolveFailed err \<Rightarrow> Err (OutboundUrlDenial_new DenialResolution
               (subject @ '' host '' @ quoted d @ '' could not be resolved: '' @ err))
           | Resolved [] \<Rightarrow> Err (OutboundUrlDenial_new DenialResolution
               (subject @ '' host '' @ quoted d @ '' resolved to no addresses''))
           | Resolved ips \<Rightarrow> reject_any_denied subject ips))"

definition validate_outbound_url ::
    "(string \<Rightarrow> string + parsed_url) \<Rightarrow> outbound_url_policy \<Rightarrow> (string \<Rightarrow> nat \<Rightarrow> resolution) \<Rightarrow> string
      \<Rightarrow> outbound_url_denial + parsed_url" where
  "validate_outbound_url parse_url policy resolve raw_url =
     (let subject = pol_subject policy in
      case parse_url raw_url of
        Err err \<Rightarrow> Err (OutboundUrlDenial_new DenialUrl (subject @ '' is not a valid absolute url: '' @ err))
      | Ok url \<Rightarrow>
      if pol_allow_insecure policy then Ok url
      else if url_scheme url \<noteq> ''https'' then
        Err (OutboundUrlDenial_new DenialScheme (subject @ '' scheme '' @ quoted (url_scheme url) @ '' is not https''))
      else if pol_reject_credentials policy \<and> (url_username url \<noteq> [] \<or> url_password url \<noteq> None) then
        Err (OutboundUrlDenial_new DenialCredentials (subject @ '' embeds credentials''))
      else case url_host url of
        None \<Rightarrow> Err (OutboundUrlDenial_new DenialHost (subject @ '' has no host component''))
      | Some h \<Rightarrow>
      if pol_allowed_hosts policy \<noteq> [] \<and>
         \<not> list_ex (\<lambda>allowed. eq_ignore_ascii_case allowed (host_text h)) (pol_allowed_hosts policy) then
        Err (OutboundUrlDenial_new DenialHostNotAllowed
          (subject @ '' host '' @ quoted (host_text h) @ '' is not on the egress allow-list''))
      else and_then (validate_host policy resolve url h) (\<lambda>_. Ok url))"

section \<open>Fetching a key set\<close>

datatype jwks_denial_reason =
    JwksUrl | JwksScheme | JwksHost | JwksResolution | JwksIpRange | JwksTransport | JwksRedirect | JwksStatus
  | JwksContentType | JwksSize | JwksTimeout | JwksParse

fun jwks_reason_str :: "jwks_denial_reason \<Rightarrow> string" where
  "jwks_reason_str JwksUrl = ''url''"
| "jwks_reason_str JwksScheme = ''scheme''"
| "jwks_reason_str JwksHost = ''host''"
| "jwks_reason_str JwksResolution = ''resolution''"
| "jwks_reason_str JwksIpRange = ''ip_range''"
| "jwks_reason_str JwksTransport = ''transport''"
| "jwks_reason_str JwksRedirect = ''redirect''"
| "jwks_reason_str JwksStatus = ''status''"
| "jwks_reason_str JwksContentType = ''content_type''"
| "jwks_reason_str JwksSize = ''size''"
| "jwks_reason_str JwksTimeout = ''timeout''"
| "jwks_reason_str JwksParse = ''parse''"

record jwks_fetch_error =
  je_reason :: jwks_denial_reason
  je_detail :: string

definition JwksFetchError_new :: "jwks_denial_reason \<Rightarrow> string \<Rightarrow> jwks_fetch_error" where
  "JwksFetchError_new r d = \<lparr>je_reason = r, je_detail = d\<rparr>"

record jwks_fetch_settings =
  max_response_bytes :: nat
  jwks_timeout_ms :: nat
  allow_insecure_dev_urls :: bool

definition ALLOWED_JWKS_CONTENT_TYPES :: "string list" where
  "ALLOWED_JWKS_CONTENT_TYPES = [''application/json'', ''application/jwk-set+json'']"

definition jwks_policy :: "jwks_fetch_settings \<Rightarrow> outbound_url_policy" where
  "jwks_policy settings =
     \<lparr>pol_subject = ''jwks url'', pol_dns_timeout = from_millis (max (jwks_timeout_ms settings) 1),
      pol_allowed_hosts = [], pol_reject_credentials = False,
      pol_allow_insecure = allow_insecure_dev_urls settings\<rparr>"

fun jwks_reason_of :: "outbound_denial_reason \<Rightarrow> jwks_denial_reason" where
  "jwks_reason_of DenialUrl = JwksUrl"
| "jwks_reason_of DenialScheme = JwksScheme"
| "jwks_reason_of DenialCredentials = JwksHost"
| "jwks_reason_of DenialHost = JwksHost"
| "jwks_reason_of DenialResolution = JwksResolution"
| "jwks_reason_of DenialIpRange = JwksIpRange"
| "jwks_reason_of DenialHostNotAllowed = JwksIpRange"
| "jwks_reason_of DenialTimeout = JwksTimeout"

definition validate_jwks_url ::
    "(string \<Rightarrow> string + parsed_url) \<Rightarrow> (string \<Rightarrow> nat \<Rightarrow> resolution) \<Rightarrow> string \<Rightarrow> jwks_fetch_settings
      \<Rightarrow> jwks_fetch_error + parsed_url" where
  "validate_jwks_url parse_url resolve raw_url settings =
     (case validate_outbound_url parse_url (jwks_policy settings) resolve raw_url of
        Err denial \<Rightarrow> Err (JwksFetchError_new (jwks_reason_of (od_reason denial)) (od_detail denial))
      | Ok url \<Rightarrow> Ok url)"

text \<open>What the HTTP client answers: an error, or a response whose body arrives in chunks.\<close>

record http_response =
  resp_status :: nat
  resp_status_text :: string
  resp_location :: "string option"
  resp_url :: parsed_url
  resp_content_type :: "string option"
  resp_content_length :: "nat option"
  resp_chunks :: "(string + octet list) list"

datatype send_answer = SendTimedOut string | SendFailed string | SendResponse http_response

fun read_body :: "nat \<Rightarrow> octet list \<Rightarrow> (string + octet list) list \<Rightarrow> jwks_fetch_error + octet list" where
  "read_body cap buffered [] = Ok buffered"
| "read_body cap buffered (Err err # chunks) =
     Err (JwksFetchError_new JwksTransport (''jwks response body read failed: '' @ err))"
| "read_body cap buffered (Ok chunk # chunks) =
     (if cap < sat_add u64_max (length buffered) (length chunk)
      then Err (JwksFetchError_new JwksSize (''jwks response exceeded the '' @ show_nat cap @ '' byte cap''))
      else read_body cap (buffered @ chunk) chunks)"

definition content_essence :: "string \<Rightarrow> string" where
  "content_essence ct = to_ascii_lowercase (rust_trim (takeWhile (\<lambda>c. c \<noteq> CHR '';'') ct))"

definition fetch_validated ::
    "(octet list \<Rightarrow> string + 'jwks) \<Rightarrow> send_answer \<Rightarrow> parsed_url \<Rightarrow> jwks_fetch_settings \<Rightarrow> jwks_fetch_error + 'jwks" where
  "fetch_validated parse_jwks answer url settings =
     (case answer of
        SendTimedOut err \<Rightarrow> Err (JwksFetchError_new JwksTimeout (''jwks request timed out: '' @ err))
      | SendFailed err \<Rightarrow> Err (JwksFetchError_new JwksTransport (''jwks request failed: '' @ err))
      | SendResponse r \<Rightarrow>
      if 300 \<le> resp_status r \<and> resp_status r < 400 then
        Err (JwksFetchError_new JwksRedirect (''jwks endpoint answered '' @ resp_status_text r @ '' redirecting to '' @
          (case resp_location r of None \<Rightarrow> ''(no location header)'' | Some l \<Rightarrow> l) @ ''; redirects are not followed''))
      else if resp_url r \<noteq> url then
        Err (JwksFetchError_new JwksRedirect (''jwks response came from '' @ url_text (resp_url r) @
          '' rather than the validated '' @ url_text url))
      else if \<not> (200 \<le> resp_status r \<and> resp_status r < 300) then
        Err (JwksFetchError_new JwksStatus (''jwks endpoint returned status '' @ resp_status_text r))
      else case resp_content_type r of
        None \<Rightarrow> Err (JwksFetchError_new JwksContentType ''jwks response has no content-type header'')
      | Some ct \<Rightarrow>
      if content_essence ct \<notin> set ALLOWED_JWKS_CONTENT_TYPES then
        Err (JwksFetchError_new JwksContentType
          (''jwks response content-type '' @ quoted (content_essence ct) @ '' is not a JSON media type''))
      else if (case resp_content_length r of None \<Rightarrow> False | Some declared \<Rightarrow> max_response_bytes settings < declared) then
        Err (JwksFetchError_new JwksSize (''jwks response declares '' @
          show_nat (case resp_content_length r of None \<Rightarrow> 0 | Some declared \<Rightarrow> declared) @
          '' bytes, cap is '' @ show_nat (max_response_bytes settings)))
      else case read_body (max_response_bytes settings) [] (resp_chunks r) of
        Err e \<Rightarrow> Err e
      | Ok buffered \<Rightarrow>
          (case parse_jwks buffered of
             Err err \<Rightarrow> Err (JwksFetchError_new JwksParse (''jwks response is not a valid JWKS document: '' @ err))
           | Ok jwks \<Rightarrow> Ok jwks))"

text \<open>\<open>elapsed\<close> says that the budget ran out before the attempt finished.\<close>

definition fetch_jwks_hardened ::
    "(string \<Rightarrow> string + parsed_url) \<Rightarrow> (string \<Rightarrow> nat \<Rightarrow> resolution) \<Rightarrow> (parsed_url \<Rightarrow> send_answer)
      \<Rightarrow> (octet list \<Rightarrow> string + 'jwks) \<Rightarrow> bool \<Rightarrow> string \<Rightarrow> jwks_fetch_settings \<Rightarrow> jwks_fetch_error + 'jwks" where
  "fetch_jwks_hardened parse_url resolve send parse_jwks elapsed raw_url settings =
     (if elapsed then
        Err (JwksFetchError_new JwksTimeout (''jwks fetch exceeded '' @ show_nat (jwks_timeout_ms settings) @ '' ms''))
      else and_then (validate_jwks_url parse_url resolve raw_url settings)
             (\<lambda>url. fetch_validated parse_jwks (send url) url settings))"

definition into_registration_error :: "jwks_fetch_error \<Rightarrow> app_error" where
  "into_registration_error e =
     coded 400 ''jwks_url_rejected'' (''The JWKS URL was rejected by the server'' @ [CHR 0x27] @ ''s security policy.'')"

definition into_unauthorized :: "jwks_fetch_error \<Rightarrow> app_error" where
  "into_unauthorized e = Unauthorized ''unable to verify the token signing keys''"

section \<open>Lemmas\<close>

lemma reject_any_denied_Ok: "reject_any_denied subject ips = Ok u \<Longrightarrow> ip \<in> set ips \<Longrightarrow> \<not> is_denied_ip ip"
  by (induction ips) (auto simp: and_then_Ok_iff reject_if_denied_def split: if_splits)

text \<open>The addresses a request to the host may go to, when it has any.\<close>

definition contacted :: "(string \<Rightarrow> nat \<Rightarrow> resolution) \<Rightarrow> parsed_url \<Rightarrow> ip_addr list" where
  "contacted resolve url =
     (case url_host url of
        None \<Rightarrow> []
      | Some (HostV4 v4) \<Rightarrow> [V4 v4]
      | Some (HostV6 v6) \<Rightarrow> [V6 v6]
      | Some (Domain d) \<Rightarrow>
          (case resolve d (case url_port_or_known_default url of None \<Rightarrow> 443 | Some p \<Rightarrow> p) of
             Resolved ips \<Rightarrow> ips | _ \<Rightarrow> []))"

lemma validate_host_Ok:
  assumes "validate_host policy resolve url h = Ok u" and "url_host url = Some h"
  shows "contacted resolve url \<noteq> [] \<and> (\<forall>ip \<in> set (contacted resolve url). \<not> is_denied_ip ip)"
  using assms
  by (auto simp: validate_host_def contacted_def reject_if_denied_def Let_def
      split: host.splits resolution.splits list.splits if_splits
      dest: reject_any_denied_Ok)

lemma validate_outbound_url_Ok:
  assumes "validate_outbound_url parse_url policy resolve raw = Ok url" and "\<not> pol_allow_insecure policy"
  shows "parse_url raw = Ok url \<and> url_scheme url = ''https'' \<and>
    (pol_reject_credentials policy \<longrightarrow> url_username url = [] \<and> url_password url = None) \<and>
    (pol_allowed_hosts policy \<noteq> [] \<longrightarrow> (\<exists>h allowed. url_host url = Some h \<and> allowed \<in> set (pol_allowed_hosts policy) \<and>
       eq_ignore_ascii_case allowed (host_text h))) \<and>
    contacted resolve url \<noteq> [] \<and> (\<forall>ip \<in> set (contacted resolve url). \<not> is_denied_ip ip)"
proof -
  obtain h where "parse_url raw = Ok url" "url_host url = Some h" "validate_host policy resolve url h = Ok ()"
    "url_scheme url = ''https''" "\<not> (pol_reject_credentials policy \<and> (url_username url \<noteq> [] \<or> url_password url \<noteq> None))"
    "pol_allowed_hosts policy = [] \<or> list_ex (\<lambda>allowed. eq_ignore_ascii_case allowed (host_text h)) (pol_allowed_hosts policy)"
    using assms by (auto simp: validate_outbound_url_def Let_def and_then_Ok_iff split: sum.splits if_splits option.splits)
  with validate_host_Ok [of policy resolve url h "()"] show ?thesis by (auto simp: list_ex_iff)
qed

lemma read_body_Ok:
  "read_body cap buffered chunks = Ok body \<Longrightarrow> length buffered \<le> cap \<Longrightarrow> cap < u64_max \<Longrightarrow>
    length body \<le> cap \<and> (\<exists>parts. chunks = map Ok parts \<and> body = buffered @ concat parts)"
proof (induction cap buffered chunks rule: read_body.induct)
  case (3 cap buffered chunk chunks)
  then obtain parts where "length body \<le> cap" "chunks = map Ok parts" "body = (buffered @ chunk) @ concat parts"
    by (auto simp: sat_add_def split: if_splits)
  then show ?case by (auto intro!: exI [of _ "chunk # parts"])
qed auto

section \<open>Properties\<close>

text \<open>
  C18: The addresses that are never contacted are exactly these: the IPv4 blocks listed in
  \<open>denied_blocks\<close>; and the IPv6 addresses that are multicast, unique local, link local or site
  local, or that deliver to a denied IPv4 address in any of the forms of \<open>carries\<close>, the
  embeddings of RFC 6052 included.
\<close>

theorem denied_addresses_exact:
  assumes "length ip6 = 16"
  shows "(is_denied_ip (V4 ip4) \<longleftrightarrow> (\<exists>(base, len) \<in> set denied_blocks. ipv4_value ip4 \<in> block base len)) \<and>
    (is_denied_ip (V6 ip6) \<longleftrightarrow> denied_prefix ip6 \<or> (\<exists>v4. carries v4 ip6 \<and> is_denied_ip (V4 v4)))"
  using is_denied_ipv4_blocks is_denied_ipv6_exact [OF assms] by simp

theorem denied_addresses_exact_witness:
  "is_denied_ip (V6 [0, 0x64, 0xff, 0x9b, 10, 0, 0, 7, 0, 0, 0, 0, 0, 0, 0, 0]) \<and> is_denied_ip (V4 (Ipv4Addr 10 0 0 7))"
proof -
  have denied: "is_denied_ip (V4 (Ipv4Addr 10 0 0 7))" by simp
  have "carries (Ipv4Addr 10 0 0 7) [0, 0x64, 0xff, 0x9b, 10, 0, 0, 7, 0, 0, 0, 0, 0, 0, 0, 0]"
    by (rule nat64_32)
  moreover have "length [0 :: octet, 0x64, 0xff, 0x9b, 10, 0, 0, 7, 0, 0, 0, 0, 0, 0, 0, 0] = 16" by simp
  ultimately show ?thesis using denied_addresses_exact denied by blast
qed

text \<open>
  C19: A key set is only returned from a response that came from the validated URL itself, was
  neither a redirect nor an error, had a JSON media type and a body within the size cap;
  outside the development escape hatch the URL is https and every address its host resolved to
  is allowed.
\<close>

theorem jwks_fetch_guarded:
  assumes "fetch_jwks_hardened parse_url resolve send parse_jwks elapsed raw settings = Ok jwks"
    and "max_response_bytes settings < u64_max"
  shows "\<exists>url r parts. parse_url raw = Ok url \<and> send url = SendResponse r \<and> resp_url r = url \<and>
    200 \<le> resp_status r \<and> resp_status r < 300 \<and>
    resp_chunks r = map Ok parts \<and> length (concat parts) \<le> max_response_bytes settings \<and>
    parse_jwks (concat parts) = Ok jwks \<and>
    (\<not> allow_insecure_dev_urls settings \<longrightarrow> url_scheme url = ''https'' \<and> contacted resolve url \<noteq> [] \<and>
       (\<forall>ip \<in> set (contacted resolve url). \<not> is_denied_ip ip))"
proof -
  obtain url where v: "validate_outbound_url parse_url (jwks_policy settings) resolve raw = Ok url"
    and f: "fetch_validated parse_jwks (send url) url settings = Ok jwks"
    using assms(1)
    by (auto simp: fetch_jwks_hardened_def validate_jwks_url_def and_then_Ok_iff split: if_splits sum.splits)
  obtain r body where r: "send url = SendResponse r" "resp_url r = url" "200 \<le> resp_status r" "resp_status r < 300"
    and body: "read_body (max_response_bytes settings) [] (resp_chunks r) = Ok body" "parse_jwks body = Ok jwks"
    using f by (auto simp: fetch_validated_def split: send_answer.splits if_splits option.splits sum.splits)
  obtain parts where parts: "resp_chunks r = map Ok parts" "body = concat parts" "length body \<le> max_response_bytes settings"
    using read_body_Ok [OF body(1) _ assms(2)] by auto
  have "parse_url raw = Ok url"
    using v by (auto simp: validate_outbound_url_def Let_def and_then_Ok_iff split: sum.splits if_splits option.splits)
  moreover have "url_scheme url = ''https'' \<and> contacted resolve url \<noteq> [] \<and>
      (\<forall>ip \<in> set (contacted resolve url). \<not> is_denied_ip ip)" if "\<not> allow_insecure_dev_urls settings"
    using validate_outbound_url_Ok [OF v] that by (simp add: jwks_policy_def)
  ultimately show ?thesis using r body(2) parts by blast
qed

definition sample_url :: parsed_url where
  "sample_url = \<lparr>url_text = ''https://k.example/'', url_scheme = ''https'', url_username = [], url_password = None,
     url_host = Some (Domain ''k.example''), url_port_or_known_default = Some 443\<rparr>"

theorem jwks_fetch_guarded_witness:
  "\<not> is_denied_ip (V4 (Ipv4Addr 93 184 216 34))"
proof -
  let ?resolve = "\<lambda>d p. Resolved [V4 (Ipv4Addr 93 184 216 34)]"
  let ?settings = "\<lparr>max_response_bytes = 8, jwks_timeout_ms = 5, allow_insecure_dev_urls = False\<rparr>"
  let ?send = "\<lambda>url. SendResponse \<lparr>resp_status = 200, resp_status_text = ''200 OK'', resp_location = None,
    resp_url = url, resp_content_type = Some ''application/json'', resp_content_length = None,
    resp_chunks = [Ok [1, 2], Ok [3]]\<rparr>"
  have essence: "content_essence ''application/json'' = ''application/json''"
    by (simp add: content_essence_def rust_trim_def strip_start.simps strip_one_def white_space_def to_ascii_lowercase_def)
  have "fetch_jwks_hardened (\<lambda>_. Ok sample_url) ?resolve ?send Ok False ''https://k.example/'' ?settings = Ok [1, 2, 3]"
    by (simp add: fetch_jwks_hardened_def validate_jwks_url_def validate_outbound_url_def jwks_policy_def sample_url_def
        validate_host_def reject_if_denied_def fetch_validated_def essence ALLOWED_JWKS_CONTENT_TYPES_def sat_add_def)
  from jwks_fetch_guarded [OF this] show ?thesis
    by (auto simp: u64_max_def contacted_def sample_url_def simp del: is_denied_ip.simps)
qed

end
