(* ===== verification/Chunking.thy ===== *)
theory Chunking
  imports Moira_Prelude
begin

text \<open>
  Splitting a document into chunks, \<open>src/src/orchestration/chunking.rs\<close>.

  A text is the list of its Unicode scalar values; offsets count the bytes of its UTF-8 form, so a
  slice \<open>content[a..b]\<close> panics unless both offsets are character boundaries. A function that
  slices answers \<open>None\<close> where the code would panic.
\<close>

section \<open>Texts\<close>

type_synonym uchar = nat
type_synonym utext = "uchar list"

definition lit :: "string \<Rightarrow> utext" where
  "lit s = map of_char s"

definition utf8_width :: "uchar \<Rightarrow> nat" where
  "utf8_width c = (if c < 0x80 then 1 else if c < 0x800 then 2 else if c < 0x10000 then 3 else 4)"

definition bytes :: "utext \<Rightarrow> nat" where
  "bytes cs = sum_list (map utf8_width cs)"

definition is_whitespace :: "uchar \<Rightarrow> bool" where
  "is_whitespace c \<longleftrightarrow>
     c \<in> {0x09, 0x0A, 0x0B, 0x0C, 0x0D, 0x20, 0x85, 0xA0, 0x1680, 0x2028, 0x2029, 0x202F, 0x205F, 0x3000} \<or>
     (0x2000 \<le> c \<and> c \<le> 0x200A)"

definition trim_start :: "utext \<Rightarrow> utext" where
  "trim_start cs = dropWhile is_whitespace cs"

definition trim_end_matches :: "(uchar \<Rightarrow> bool) \<Rightarrow> utext \<Rightarrow> utext" where
  "trim_end_matches P cs = rev (dropWhile P (rev cs))"

definition trim_end :: "utext \<Rightarrow> utext" where
  "trim_end cs = trim_end_matches is_whitespace cs"

definition trim :: "utext \<Rightarrow> utext" where
  "trim cs = trim_end (trim_start cs)"

fun drop_bytes :: "nat \<Rightarrow> utext \<Rightarrow> utext option" where
  "drop_bytes n [] = (if n = 0 then Some [] else None)"
| "drop_bytes n (c # cs) =
     (if n = 0 then Some (c # cs) else if utf8_width c \<le> n then drop_bytes (n - utf8_width c) cs else None)"

fun take_bytes :: "nat \<Rightarrow> utext \<Rightarrow> utext option" where
  "take_bytes n [] = (if n = 0 then Some [] else None)"
| "take_bytes n (c # cs) =
     (if n = 0 then Some []
      else if utf8_width c \<le> n then map_option (Cons c) (take_bytes (n - utf8_width c) cs) else None)"

definition slice_of :: "utext \<Rightarrow> nat \<Rightarrow> nat \<Rightarrow> utext option" where
  "slice_of content a b = (if a \<le> b then Option.bind (drop_bytes a content) (take_bytes (b - a)) else None)"

section \<open>Data\<close>

datatype chunk_strategy = Paragraph | Markdown | FixedWindow nat nat

fun chunk_strategy_str :: "chunk_strategy \<Rightarrow> string" where
  "chunk_strategy_str Paragraph = ''paragraph''"
| "chunk_strategy_str Markdown = ''markdown''"
| "chunk_strategy_str (FixedWindow _ _) = ''fixed_window''"

definition for_mime_type :: "string option \<Rightarrow> chunk_strategy" where
  "for_mime_type mime_type =
     (let mime = to_ascii_lowercase (rust_trim (case mime_type of None \<Rightarrow> [] | Some m \<Rightarrow> m));
          mime = rust_trim (takeWhile (\<lambda>c. c \<noteq> CHR '';'') mime)
      in if mime \<in> {''text/markdown'', ''text/x-markdown'', ''application/markdown''} then Markdown else Paragraph)"

record chunking_limits =
  max_chunk_chars :: nat
  max_chunks_per_document :: nat

record chunk_candidate =
  cc_text :: utext
  cc_start_offset :: nat
  cc_end_offset :: nat
  cc_section_title :: "utext option"
  cc_chunk_index :: int

datatype chunking_error = TooManyChunks nat nat

record section_span =
  ss_start :: nat
  ss_end :: nat
  ss_title :: "utext option"

section \<open>Windows\<close>

definition trim_span :: "utext \<Rightarrow> nat \<Rightarrow> nat \<Rightarrow> (nat \<times> nat) option option" where
  "trim_span content a b =
     map_option (\<lambda>sl.
       let trimmed = trim sl in
       if trimmed = [] then None
       else let lead = bytes sl - bytes (trim_start sl)
            in Some (a + lead, a + lead + bytes trimmed)) (slice_of content a b)"

definition boundaries_of :: "utext \<Rightarrow> nat list" where
  "boundaries_of sl = map (\<lambda>i. bytes (take i sl)) [0 ..< length sl] @ [bytes sl]"

definition opt_list :: "'a option \<Rightarrow> 'a list" where
  "opt_list x = (case x of None \<Rightarrow> [] | Some a \<Rightarrow> [a])"

function window_loop ::
    "utext \<Rightarrow> nat \<Rightarrow> nat list \<Rightarrow> nat \<Rightarrow> nat \<Rightarrow> nat \<Rightarrow> nat \<Rightarrow> (nat \<times> nat) list option" where
  "window_loop content start boundaries char_count window overlap cursor =
     (if cursor < char_count then
        let stop = min (cursor + window) char_count in
        case trim_span content (start + boundaries ! cursor) (start + boundaries ! stop) of
          None \<Rightarrow> None
        | Some span \<Rightarrow>
            if stop = char_count then Some (opt_list span)
            else map_option (\<lambda>spans. opt_list span @ spans)
                   (window_loop content start boundaries char_count window overlap
                     (cursor + max (window - overlap) 1))
      else Some [])"
  by auto
termination
  by (relation "measure (\<lambda>(_, _, _, char_count, _, _, cursor). char_count - cursor)") auto

declare window_loop.simps [simp del]

definition window_spans :: "utext \<Rightarrow> nat \<Rightarrow> nat \<Rightarrow> nat \<Rightarrow> nat \<Rightarrow> (nat \<times> nat) list option" where
  "window_spans content start end' window_chars overlap_chars =
     (if end' \<le> start then Some []
      else case slice_of content start end' of
        None \<Rightarrow> None
      | Some sl \<Rightarrow>
          (let boundaries = boundaries_of sl; char_count = length boundaries - 1 in
           if char_count = 0 then Some []
           else window_loop content start boundaries char_count (max window_chars 1) overlap_chars 0))"

section \<open>Blocks\<close>

text \<open>\<open>split_inclusive\<close> on the line feed.\<close>

fun split_lines :: "utext \<Rightarrow> utext list" where
  "split_lines [] = []"
| "split_lines (c # cs) =
     (if c = 10 then [c] # split_lines cs
      else case split_lines cs of [] \<Rightarrow> [[c]] | l # ls \<Rightarrow> (c # l) # ls)"

fun line_spans_from :: "nat \<Rightarrow> utext list \<Rightarrow> (nat \<times> utext) list" where
  "line_spans_from offset [] = []"
| "line_spans_from offset (line # lines) =
     (offset, trim_end_matches (\<lambda>c. c = 13) (trim_end_matches (\<lambda>c. c = 10) line)) #
     line_spans_from (offset + bytes line) lines"

definition line_spans :: "utext \<Rightarrow> (nat \<times> utext) list" where
  "line_spans content = line_spans_from 0 (split_lines content)"

definition leading_whitespace_bytes :: "utext \<Rightarrow> nat" where
  "leading_whitespace_bytes line = bytes line - bytes (trim_start line)"

definition truncate_chars :: "utext \<Rightarrow> nat \<Rightarrow> utext" where
  "truncate_chars value max_chars = take max_chars value"

definition atx_heading :: "utext \<Rightarrow> utext option" where
  "atx_heading trimmed_line =
     (let hashes = length (takeWhile (\<lambda>c. c = 35) trimmed_line); rest = drop hashes trimmed_line in
      if hashes = 0 \<or> 6 < hashes then None
      else if rest = [] \<or> \<not> is_whitespace (hd rest) then None
      else let title = trim (trim_end_matches (\<lambda>c. c = 35) (trim rest)) in
           if title = [] then None else Some (truncate_chars title 512))"

record block_state =
  bl_spans :: "section_span list"
  bl_title :: "utext option"
  bl_start :: "nat option"
  bl_end :: nat

definition flush :: "utext \<Rightarrow> nat \<Rightarrow> block_state \<Rightarrow> block_state option" where
  "flush content maximum st =
     (case bl_start st of
        None \<Rightarrow> Some st
      | Some start \<Rightarrow>
          map_option (\<lambda>spans. st\<lparr>bl_start := None, bl_spans := bl_spans st @
              map (\<lambda>(s, e). \<lparr>ss_start = s, ss_end = e, ss_title = bl_title st\<rparr>) spans\<rparr>)
            (window_spans content start (bl_end st) maximum 0))"

definition extend_block :: "nat \<Rightarrow> utext \<Rightarrow> block_state \<Rightarrow> block_state" where
  "extend_block line_start line st =
     (let st = (if bl_start st = None then st\<lparr>bl_start := Some (line_start + leading_whitespace_bytes line)\<rparr> else st)
      in st\<lparr>bl_end := line_start + bytes (trim_end line)\<rparr>)"

definition line_step :: "utext \<Rightarrow> bool \<Rightarrow> nat \<Rightarrow> nat \<times> utext \<Rightarrow> block_state \<Rightarrow> block_state option" where
  "line_step content markdown maximum entry st =
     (case entry of (line_start, line) \<Rightarrow>
        let trimmed = trim line in
        if trimmed = [] then flush content maximum st
        else case (if markdown then atx_heading trimmed else None) of
               Some heading \<Rightarrow>
                 map_option (\<lambda>st. extend_block line_start line (st\<lparr>bl_title := Some heading\<rparr>))
                   (flush content maximum st)
             | None \<Rightarrow> Some (extend_block line_start line st))"

fun lines_loop :: "utext \<Rightarrow> bool \<Rightarrow> nat \<Rightarrow> (nat \<times> utext) list \<Rightarrow> block_state \<Rightarrow> block_state option" where
  "lines_loop content markdown maximum [] st = Some st"
| "lines_loop content markdown maximum (l # ls) st =
     Option.bind (line_step content markdown maximum l st) (lines_loop content markdown maximum ls)"

definition structural_spans :: "utext \<Rightarrow> bool \<Rightarrow> nat \<Rightarrow> section_span list option" where
  "structural_spans content markdown maximum =
     Option.bind (lines_loop content markdown maximum (line_spans content)
         \<lparr>bl_spans = [], bl_title = None, bl_start = None, bl_end = 0\<rparr>)
       (\<lambda>st. map_option bl_spans (flush content maximum st))"

section \<open>Chunks\<close>

fun candidates_of :: "utext \<Rightarrow> nat \<Rightarrow> section_span list \<Rightarrow> chunk_candidate list option" where
  "candidates_of content index [] = Some []"
| "candidates_of content index (span # spans) =
     (case slice_of content (ss_start span) (ss_end span) of
        None \<Rightarrow> None
      | Some t \<Rightarrow>
          map_option (Cons \<lparr>cc_text = t, cc_start_offset = ss_start span, cc_end_offset = ss_end span,
              cc_section_title = ss_title span, cc_chunk_index = wrap_i32 (int index)\<rparr>)
            (candidates_of content (Suc index) spans))"

definition spans_for :: "utext \<Rightarrow> chunk_strategy \<Rightarrow> nat \<Rightarrow> section_span list option" where
  "spans_for content strategy maximum =
     (case strategy of
        Paragraph \<Rightarrow> structural_spans content False maximum
      | Markdown \<Rightarrow> structural_spans content True maximum
      | FixedWindow window_chars overlap_chars \<Rightarrow>
          (let window = min (max window_chars 1) maximum; overlap = min overlap_chars (window - 1) in
           map_option (map (\<lambda>(s, e). \<lparr>ss_start = s, ss_end = e, ss_title = None\<rparr>))
             (window_spans content 0 (bytes content) window overlap)))"

definition chunk :: "utext \<Rightarrow> chunk_strategy \<Rightarrow> chunking_limits \<Rightarrow> (chunking_error + chunk_candidate list) option" where
  "chunk content strategy limits =
     (case spans_for content strategy (max (max_chunk_chars limits) 1) of
        None \<Rightarrow> None
      | Some spans \<Rightarrow>
          if max_chunks_per_document limits < length spans
          then Some (Err (TooManyChunks (length spans) (max_chunks_per_document limits)))
          else map_option Ok (candidates_of content 0 spans))"

section \<open>Offsets and slices\<close>

text \<open>The offset of the character with a given index.\<close>

definition pos :: "utext \<Rightarrow> nat \<Rightarrow> nat" where
  "pos c i = bytes (take i c)"

lemma bytes_simps [simp]: "bytes [] = 0" "bytes (c # cs) = utf8_width c + bytes cs" "bytes (xs @ ys) = bytes xs + bytes ys"
  by (simp_all add: bytes_def)

lemma utf8_width_pos [simp]: "0 < utf8_width c"
  by (simp add: utf8_width_def)

lemma bytes_zero [simp]: "bytes cs = 0 \<longleftrightarrow> cs = []"
  by (cases cs) (simp_all add: utf8_width_def)

lemma bytes_pos [simp]: "0 < bytes cs \<longleftrightarrow> cs \<noteq> []"
  using bytes_zero [of cs] by linarith

lemma drop_bytes_take: "drop_bytes (bytes (take i c)) c = Some (drop i c)"
proof (induction c arbitrary: i)
  case (Cons x c)
  then show ?case by (cases i) (simp_all add: utf8_width_def)
qed simp

lemma take_bytes_take: "take_bytes (bytes (take i c)) c = Some (take i c)"
proof (induction c arbitrary: i)
  case (Cons x c)
  then show ?case by (cases i) (simp_all add: utf8_width_def)
qed simp

lemma pos_split: "i \<le> j \<Longrightarrow> pos c j = pos c i + bytes (take (j - i) (drop i c))"
  unfolding pos_def by (metis append_take_drop_id bytes_simps(3) le_add_diff_inverse take_add)

lemma pos_mono: "i \<le> j \<Longrightarrow> pos c i \<le> pos c j"
  by (simp add: pos_split [of i j c])

lemma pos_strict: "i < j \<Longrightarrow> j \<le> length c \<Longrightarrow> pos c i < pos c j"
  by (simp add: pos_split [of i j c])

lemma pos_le_iff: "i \<le> length c \<Longrightarrow> j \<le> length c \<Longrightarrow> pos c i \<le> pos c j \<longleftrightarrow> i \<le> j"
  by (meson leD linorder_not_le pos_mono pos_strict)

lemma slice_of_pos: "i \<le> j \<Longrightarrow> slice_of c (pos c i) (pos c j) = Some (take (j - i) (drop i c))"
  using pos_split [of i j c] by (simp add: slice_of_def pos_def drop_bytes_take take_bytes_take)

lemma pos_slice: "i + k \<le> length c \<Longrightarrow> pos c i + bytes (take k (drop i c)) = pos c (i + k)"
  using pos_split [of i "i + k" c] by simp

section \<open>Trimming\<close>

text \<open>\<open>gap c i j\<close>: only white space between two indices.\<close>

definition gap :: "utext \<Rightarrow> nat \<Rightarrow> nat \<Rightarrow> bool" where
  "gap c i j \<longleftrightarrow> (\<forall>k. i \<le> k \<and> k < j \<and> k < length c \<longrightarrow> is_whitespace (c ! k))"

text \<open>A trimmed, non-empty range of characters.\<close>

definition tight :: "utext \<Rightarrow> nat \<times> nat \<Rightarrow> bool" where
  "tight c r \<longleftrightarrow> (case r of (i, j) \<Rightarrow> i < j \<and> j \<le> length c \<and> \<not> is_whitespace (c ! i) \<and> \<not> is_whitespace (c ! (j - 1)))"

lemma trim_start_split: "s = takeWhile is_whitespace s @ trim_start s"
  by (simp add: trim_start_def)

lemma trim_end_split:
  obtains w where "s = trim_end_matches P s @ w" and "\<forall>x \<in> set w. P x"
proof
  show "s = trim_end_matches P s @ rev (takeWhile P (rev s))"
    by (metis rev_append rev_rev_ident takeWhile_dropWhile_id trim_end_matches_def)
  show "\<forall>x \<in> set (rev (takeWhile P (rev s))). P x" by (auto dest: set_takeWhileD)
qed

lemma trim_end_last: "trim_end_matches P s \<noteq> [] \<Longrightarrow> \<not> P (last (trim_end_matches P s))"
  unfolding trim_end_matches_def by (metis hd_dropWhile last_rev rev_is_Nil_conv)

lemma trim_split:
  obtains u w where "s = u @ trim s @ w" and "\<forall>x \<in> set u. is_whitespace x" and "\<forall>x \<in> set w. is_whitespace x"
    and "trim_start s = trim s @ w"
    and "trim s \<noteq> [] \<longrightarrow> \<not> is_whitespace (hd (trim s)) \<and> \<not> is_whitespace (last (trim s))"
proof -
  obtain w where w: "trim_start s = trim s @ w" "\<forall>x \<in> set w. is_whitespace x"
    using trim_end_split [of "trim_start s" is_whitespace] by (auto simp: trim_def trim_end_def)
  let ?u = "takeWhile is_whitespace s"
  have "s = ?u @ trim s @ w" using trim_start_split [of s] w(1) by simp
  moreover have "\<forall>x \<in> set ?u. is_whitespace x" by (auto dest: set_takeWhileD)
  moreover have "\<not> is_whitespace (hd (trim s)) \<and> \<not> is_whitespace (last (trim s))" if ne: "trim s \<noteq> []"
  proof -
    have "hd (trim s) = hd (trim_start s)" "trim_start s \<noteq> []" using w(1) ne by simp_all
    then show ?thesis
      using hd_dropWhile [of is_whitespace s] trim_end_last [of is_whitespace "trim_start s"] ne
      by (simp add: trim_start_def trim_def trim_end_def)
  qed
  ultimately show ?thesis using that w by blast
qed

lemma gap_range:
  "u = take m (drop i c) \<Longrightarrow> \<forall>x \<in> set u. is_whitespace x \<Longrightarrow> gap c i (i + m)"
  unfolding gap_def
proof (intro allI impI)
  fix k
  assume u: "u = take m (drop i c)" "\<forall>x \<in> set u. is_whitespace x" and k: "i \<le> k \<and> k < i + m \<and> k < length c"
  then have "u ! (k - i) = c ! k" "k - i < length u" by auto
  with u(2) show "is_whitespace (c ! k)" by (metis nth_mem)
qed

text \<open>Trimming a range of characters leaves a tight range and takes away white space only.\<close>

lemma nth_slice: "t = take n (drop i c) \<Longrightarrow> k < n \<Longrightarrow> i + n \<le> length c \<Longrightarrow> t ! k = c ! (i + k)"
  by simp

lemma trim_span_range:
  assumes "i \<le> j" and "j \<le> length c"
  shows "(trim_span c (pos c i) (pos c j) = Some None \<and> gap c i j) \<or>
    (\<exists>i' j'. trim_span c (pos c i) (pos c j) = Some (Some (pos c i', pos c j')) \<and>
       i \<le> i' \<and> j' \<le> j \<and> tight c (i', j') \<and> gap c i i' \<and> gap c j' j)"
proof -
  define s where "s = take (j - i) (drop i c)"
  define t where "t = trim s"
  obtain u w where s: "s = u @ t @ w" and ws: "\<forall>x \<in> set u. is_whitespace x" "\<forall>x \<in> set w. is_whitespace x"
    and start: "trim_start s = t @ w"
    and ends: "t \<noteq> [] \<longrightarrow> \<not> is_whitespace (hd t) \<and> \<not> is_whitespace (last t)"
    using trim_split [of s] unfolding t_def by metis
  have len: "length u + length t + length w = j - i" using arg_cong [OF s, of length] assms by (simp add: s_def)
  let ?i = "i + length u" and ?j = "i + length u + length t"
  have drops: "drop k s = take (j - i - k) (drop (i + k) c)" for k by (simp add: s_def drop_take add.commute)
  have cut: "u = take (length u) (drop i c)" "t = take (length t) (drop ?i c)" "w = take (length w) (drop ?j c)"
  proof -
    have "u = take (length u) s" "t = take (length t) (drop (length u) s)" "w = take (length w) (drop (length u + length t) s)"
      by (simp_all add: s)
    then show "u = take (length u) (drop i c)" "t = take (length t) (drop ?i c)" "w = take (length w) (drop ?j c)"
      using len drops [of "length u"] drops [of "length u + length t"]
      by (simp_all add: s_def min_absorb1 ac_simps)
  qed
  have gaps: "gap c i ?i" "gap c ?j j"
    using gap_range [OF cut(1) ws(1)] gap_range [OF cut(3) ws(2)] len assms
    by (simp_all add: ac_simps)
  have lead: "bytes s - bytes (trim_start s) = bytes u"
    unfolding start using arg_cong [OF s, of bytes] by simp
  have span: "trim_span c (pos c i) (pos c j) =
      Some (if t = [] then None else Some (pos c i + bytes u, pos c i + bytes u + bytes t))"
    by (simp add: trim_span_def slice_of_pos [OF assms(1)] flip: s_def t_def) (simp add: lead Let_def)
  have offsets: "pos c i + bytes u = pos c ?i" "pos c ?i + bytes t = pos c ?j"
    using pos_slice [of i "length u" c] pos_slice [of ?i "length t" c] cut len assms by simp_all
  show ?thesis
  proof (cases "t = []")
    case True
    then have "gap c i j" using gaps by (auto simp: gap_def) (metis not_less)
    with True span show ?thesis by simp
  next
    case False
    have "?j - 1 = ?i + (length t - 1)" using False by (cases t) simp_all
    then have "hd t = c ! ?i" "last t = c ! (?j - 1)"
      using False len assms nth_slice [OF cut(2), of 0] nth_slice [OF cut(2), of "length t - 1"]
      by (simp_all add: hd_conv_nth last_conv_nth)
    then have "tight c (?i, ?j)" using ends False len assms by (simp add: tight_def)
    with False span offsets gaps len assms show ?thesis
      by (intro disjI2 exI [of _ ?i] exI [of _ ?j]) simp
  qed
qed

section \<open>Windows cover a range\<close>

abbreviation offsets :: "utext \<Rightarrow> nat \<times> nat \<Rightarrow> nat \<times> nat" where
  "offsets c r \<equiv> (pos c (fst r), pos c (snd r))"

text \<open>
  The ranges \<open>rs\<close> are tight, lie between two indices, have at most \<open>sz\<close> characters and miss only
  white space. \<open>apart\<close>: they follow each other without an overlap.
\<close>

definition covers :: "utext \<Rightarrow> nat \<Rightarrow> nat \<Rightarrow> nat \<Rightarrow> (nat \<times> nat) list \<Rightarrow> bool" where
  "covers c i j sz rs \<longleftrightarrow>
     (\<forall>r \<in> set rs. tight c r \<and> i \<le> fst r \<and> snd r \<le> j \<and> snd r - fst r \<le> sz) \<and>
     (\<forall>k. i \<le> k \<and> k < j \<and> \<not> is_whitespace (c ! k) \<longrightarrow> (\<exists>r \<in> set rs. fst r \<le> k \<and> k < snd r))"

definition apart :: "(nat \<times> nat) list \<Rightarrow> bool" where
  "apart rs = sorted_wrt (\<lambda>r r'. snd r \<le> fst r') rs"

lemma trim_span_covers:
  assumes "i \<le> j" and "j \<le> length c" and "j - i \<le> sz"
  obtains rs where "map_option opt_list (trim_span c (pos c i) (pos c j)) = Some (map (offsets c) rs)"
    and "covers c i j sz rs" and "apart rs"
proof -
  consider (gap) "trim_span c (pos c i) (pos c j) = Some None" "gap c i j"
    | (range) i' j' where "trim_span c (pos c i) (pos c j) = Some (Some (pos c i', pos c j'))"
        "i \<le> i'" "j' \<le> j" "tight c (i', j')" "gap c i i'" "gap c j' j"
    using trim_span_range [OF assms(1,2)] by blast
  then show ?thesis
  proof cases
    case gap
    then show ?thesis using assms that [of "[]"] by (auto simp: covers_def gap_def opt_list_def apart_def)
  next
    case (range i' j')
    then have "\<exists>r \<in> set [(i', j')]. fst r \<le> k \<and> k < snd r" if "i \<le> k" "k < j" "\<not> is_whitespace (c ! k)" for k
      using that assms by (auto simp: gap_def)
    with range assms that [of "[(i', j')]"] show ?thesis
      by (auto simp: covers_def opt_list_def apart_def)
  qed
qed

lemma covers_append:
  assumes "covers c i m sz rs" and "covers c m' j sz rs'" and "i \<le> m'" and "m' \<le> m" and "m \<le> j"
  shows "covers c i j sz (rs @ rs')" and "m' = m \<Longrightarrow> apart rs \<Longrightarrow> apart rs' \<Longrightarrow> apart (rs @ rs')"
proof -
  show "covers c i j sz (rs @ rs')"
    unfolding covers_def
  proof (intro conjI ballI allI impI)
    fix k
    assume k: "i \<le> k \<and> k < j \<and> \<not> is_whitespace (c ! k)"
    show "\<exists>r \<in> set (rs @ rs'). fst r \<le> k \<and> k < snd r"
    proof (cases "k < m")
      case True
      then have "\<exists>r \<in> set rs. fst r \<le> k \<and> k < snd r" using assms(1) k by (simp add: covers_def)
      then show ?thesis by auto
    next
      case False
      then have "\<exists>r \<in> set rs'. fst r \<le> k \<and> k < snd r" using assms(2,4) k by (simp add: covers_def)
      then show ?thesis by auto
    qed
  qed (use assms in \<open>auto simp: covers_def\<close>)
  show "apart (rs @ rs')" if "m' = m" "apart rs" "apart rs'"
    using assms that by (fastforce simp: apart_def covers_def sorted_wrt_append)
qed

lemma window_loop_covers:
  assumes "j \<le> length c" and "\<And>k. k \<le> j - i \<Longrightarrow> start + boundaries ! k = pos c (i + k)"
    and "0 < window" and "cursor \<le> j - i"
  shows "\<exists>rs. window_loop c start boundaries (j - i) window overlap cursor = Some (map (offsets c) rs) \<and>
    covers c (i + cursor) j window rs \<and> (overlap = 0 \<longrightarrow> apart rs)"
  using assms(4)
proof (induction "j - i - cursor" arbitrary: cursor rule: less_induct)
  case less
  show ?case
  proof (cases "cursor < j - i")
    case False
    then have "\<not> (i + cursor \<le> k \<and> k < j)" for k by linarith
    with False show ?thesis
      by (intro exI [of _ "[]"]) (auto simp: window_loop.simps covers_def apart_def)
  next
    case True
    define stop where "stop = min (cursor + window) (j - i)"
    have stop: "cursor < stop" "stop \<le> j - i" "stop - cursor \<le> window" using True assms(3) by (auto simp: stop_def)
    obtain rs1 where span: "map_option opt_list (trim_span c (pos c (i + cursor)) (pos c (i + stop))) = Some (map (offsets c) rs1)"
      and rs1: "covers c (i + cursor) (i + stop) window rs1" "apart rs1"
      by (rule trim_span_covers [of "i + cursor" "i + stop" c window]) (use stop assms(1) True in auto)
    then obtain x where x: "trim_span c (pos c (i + cursor)) (pos c (i + stop)) = Some x" "opt_list x = map (offsets c) rs1"
      by blast
    have bounds: "start + boundaries ! cursor = pos c (i + cursor)" "start + boundaries ! stop = pos c (i + stop)"
      using assms(2) stop True by simp_all
    note unfold = window_loop.simps [of c start boundaries "j - i" window overlap cursor, unfolded Let_def, folded stop_def]
    show ?thesis
    proof (cases "stop = j - i")
      case last: True
      then have "i + stop = j" using True by linarith
      with rs1 show ?thesis using True last x bounds by (intro exI [of _ rs1]) (simp add: unfold)
    next
      case False
      define next_cursor where "next_cursor = cursor + max (window - overlap) (Suc 0)"
      have nc: "cursor < next_cursor" "next_cursor \<le> stop" "stop = cursor + window"
        using False assms(3) by (auto simp: next_cursor_def stop_def)
      have "j - i - next_cursor < j - i - cursor" "next_cursor \<le> j - i" using nc stop True by linarith+
      from less.hyps [OF this] obtain rs2 where rs2: "window_loop c start boundaries (j - i) window overlap next_cursor = Some (map (offsets c) rs2)"
        "covers c (i + next_cursor) j window rs2" "overlap = 0 \<longrightarrow> apart rs2"
        by blast
      have "window_loop c start boundaries (j - i) window overlap cursor = Some (map (offsets c) (rs1 @ rs2))"
        using True False x bounds rs2(1) by (simp add: unfold flip: next_cursor_def)
      moreover have "covers c (i + cursor) j window (rs1 @ rs2)"
        by (rule covers_append(1) [OF rs1(1) rs2(2)]) (use nc stop True in auto)
      moreover have "apart (rs1 @ rs2)" if "overlap = 0"
        by (rule covers_append(2) [OF rs1(1) rs2(2)]) (use that nc stop True rs1 rs2 assms(3) in \<open>auto simp: next_cursor_def\<close>)
      ultimately show ?thesis by blast
    qed
  qed
qed

lemma window_spans_covers:
  assumes "i \<le> j" and "j \<le> length c"
  shows "\<exists>rs. window_spans c (pos c i) (pos c j) window overlap = Some (map (offsets c) rs) \<and>
    covers c i j (max window 1) rs \<and> (overlap = 0 \<longrightarrow> apart rs)"
proof (cases "i = j")
  case True
  then show ?thesis by (intro exI [of _ "[]"]) (simp add: window_spans_def covers_def apart_def)
next
  case False
  let ?s = "take (j - i) (drop i c)"
  have len: "length ?s = j - i" using assms by simp
  have lt: "pos c i < pos c j" using False assms by (intro pos_strict) simp_all
  have bounds: "pos c i + boundaries_of ?s ! k = pos c (i + k)" if "k \<le> j - i" for k
    using that pos_slice [of i k c] assms len
    by (cases "k = j - i") (simp_all add: boundaries_of_def nth_append min_absorb1)
  have "length (boundaries_of ?s) - 1 = j - i" using len by (simp add: boundaries_of_def)
  then have "window_spans c (pos c i) (pos c j) window overlap =
      window_loop c (pos c i) (boundaries_of ?s) (j - i) (max window 1) overlap 0"
    using lt False assms unfolding window_spans_def slice_of_pos [OF assms(1)] Let_def by simp
  with window_loop_covers [OF assms(2) bounds, of "max window 1" 0 overlap] show ?thesis by simp
qed

section \<open>Blocks cover a document\<close>

lemma covers_gap: "covers c i m sz rs \<Longrightarrow> gap c m j \<Longrightarrow> m \<le> j \<Longrightarrow> j \<le> length c \<Longrightarrow> covers c i j sz rs"
proof -
  assume c: "covers c i m sz rs" and g: "gap c m j" and le: "m \<le> j" "j \<le> length c"
  have "\<exists>r \<in> set rs. fst r \<le> k \<and> k < snd r" if "i \<le> k" "k < j" "\<not> is_whitespace (c ! k)" for k
    using that c g le by (cases "k < m") (auto simp: covers_def gap_def)
  moreover have "\<forall>r \<in> set rs. tight c r \<and> i \<le> fst r \<and> snd r \<le> j \<and> snd r - fst r \<le> sz"
    using c le by (auto simp: covers_def)
  ultimately show "covers c i j sz rs" by (simp add: covers_def)
qed

definition span_offsets :: "section_span \<Rightarrow> nat \<times> nat" where
  "span_offsets s = (ss_start s, ss_end s)"

text \<open>
  After the first \<open>p\<close> characters: the spans so far cover everything before the open block, the
  block ends before \<open>p\<close>, and only white space follows it.
\<close>

definition block_inv :: "utext \<Rightarrow> nat \<Rightarrow> nat \<Rightarrow> block_state \<Rightarrow> bool" where
  "block_inv c sz p st \<longleftrightarrow> p \<le> length c \<and>
     (\<exists>rs. map span_offsets (bl_spans st) = map (offsets c) rs \<and> apart rs \<and>
        (case bl_start st of
           None \<Rightarrow> covers c 0 p sz rs
         | Some s \<Rightarrow> \<exists>b e. s = pos c b \<and> bl_end st = pos c e \<and> b \<le> e \<and> e \<le> p \<and> covers c 0 b sz rs \<and> gap c e p))"

lemma flush_inv:
  assumes "block_inv c (max maximum 1) p st"
  obtains st' where "flush c maximum st = Some st'" and "block_inv c (max maximum 1) p st'" and "bl_start st' = None"
proof (cases "bl_start st")
  case None
  then show ?thesis using assms that [of st] by (simp add: flush_def)
next
  case (Some s)
  from assms obtain rs b e where p: "p \<le> length c" and rs: "map span_offsets (bl_spans st) = map (offsets c) rs" "apart rs"
    and be: "s = pos c b" "bl_end st = pos c e" "b \<le> e" "e \<le> p" "covers c 0 b (max maximum 1) rs" "gap c e p"
    unfolding block_inv_def Some by auto
  obtain rs' where rs': "window_spans c (pos c b) (pos c e) maximum 0 = Some (map (offsets c) rs')"
      "covers c b e (max maximum 1) rs'" "apart rs'"
    using window_spans_covers [of b e c maximum 0] be p by auto
  let ?st = "st\<lparr>bl_start := None, bl_spans := bl_spans st @
      map (\<lambda>(s, e). \<lparr>ss_start = s, ss_end = e, ss_title = bl_title st\<rparr>) (map (offsets c) rs')\<rparr>"
  have "covers c 0 e (max maximum 1) (rs @ rs')" "apart (rs @ rs')"
    using covers_append [OF be(5) rs'(2)] be(3) rs(2) rs'(3) by auto
  then have "covers c 0 p (max maximum 1) (rs @ rs')" using be p by (blast intro: covers_gap)
  moreover have "map span_offsets (bl_spans ?st) = map (offsets c) (rs @ rs')"
    using rs(1) by (simp add: span_offsets_def)
  ultimately have "block_inv c (max maximum 1) p ?st"
    unfolding block_inv_def using p \<open>apart (rs @ rs')\<close> by (intro conjI exI [of _ "rs @ rs'"]) simp_all
  with that [of ?st] show ?thesis using Some rs'(1) be by (simp add: flush_def)
qed

text \<open>A line without its terminator, and what trimming it finds.\<close>

definition strip_line :: "utext \<Rightarrow> utext" where
  "strip_line l = trim_end_matches (\<lambda>c. c = 13) (trim_end_matches (\<lambda>c. c = 10) l)"

lemma strip_line_split:
  obtains w where "l = strip_line l @ w" and "\<forall>x \<in> set w. is_whitespace x"
proof -
  obtain w1 where w1: "l = trim_end_matches (\<lambda>c. c = 10) l @ w1" "\<forall>x \<in> set w1. x = 10"
    using trim_end_split [of l "\<lambda>c. c = 10"] by auto
  obtain w2 where w2: "trim_end_matches (\<lambda>c. c = 10) l = strip_line l @ w2" "\<forall>x \<in> set w2. x = 13"
    using trim_end_split [of "trim_end_matches (\<lambda>c. c = 10) l" "\<lambda>c. c = 13"] by (auto simp: strip_line_def)
  have "l = strip_line l @ w2 @ w1" using w1(1) w2(1) by simp
  moreover have "\<forall>x \<in> set (w2 @ w1). is_whitespace x" using w1(2) w2(2) by (auto simp: is_whitespace_def)
  ultimately show ?thesis using that by blast
qed

lemma line_parts:
  obtains u w where "l = u @ trim (strip_line l) @ w" and "\<forall>x \<in> set (u @ w). is_whitespace x"
    and "leading_whitespace_bytes (strip_line l) = bytes u"
    and "trim (strip_line l) \<noteq> [] \<longrightarrow> trim_end (strip_line l) = u @ trim (strip_line l)"
proof -
  let ?t = "strip_line l"
  obtain v where v: "l = ?t @ v" "\<forall>x \<in> set v. is_whitespace x" by (rule strip_line_split)
  obtain u w where t: "?t = u @ trim ?t @ w" "\<forall>x \<in> set u. is_whitespace x" "\<forall>x \<in> set w. is_whitespace x"
    "trim_start ?t = trim ?t @ w"
    and ends: "trim ?t \<noteq> [] \<longrightarrow> \<not> is_whitespace (hd (trim ?t)) \<and> \<not> is_whitespace (last (trim ?t))"
    using trim_split [of ?t] by metis
  have "trim_end ?t = u @ trim ?t" if "trim ?t \<noteq> []"
  proof -
    have "rev ?t = rev w @ rev (u @ trim ?t)" using arg_cong [OF t(1), of rev] by simp
    moreover have "hd (rev (u @ trim ?t)) = last (trim ?t)" using that by (simp add: hd_rev)
    moreover have "dropWhile is_whitespace (rev w @ ys) = dropWhile is_whitespace ys" for ys
      using t(3) by (intro dropWhile_append2) simp
    moreover have "dropWhile is_whitespace (rev (u @ trim ?t)) = rev (u @ trim ?t)"
      using ends that by (simp add: dropWhile_eq_self_iff hd_append hd_rev)
    ultimately have "dropWhile is_whitespace (rev ?t) = rev (u @ trim ?t)" by metis
    then show ?thesis by (simp add: trim_end_def trim_end_matches_def)
  qed
  moreover have "l = u @ trim ?t @ w @ v" using v(1) t(1) by (metis append.assoc)
  moreover have "leading_whitespace_bytes ?t = bytes u"
    unfolding leading_whitespace_bytes_def t(4) using arg_cong [OF t(1), of bytes] by simp
  ultimately show ?thesis using that [of u "w @ v"] t v by auto
qed

lemma gap_trans: "gap c i j \<Longrightarrow> gap c j k \<Longrightarrow> gap c i k"
  unfolding gap_def by (meson not_less)

lemma block_inv_gap:
  assumes "block_inv c sz p st" and "gap c p q" and "p \<le> q" and "q \<le> length c"
  shows "block_inv c sz q st"
proof -
  from assms(1) obtain rs where rs: "map span_offsets (bl_spans st) = map (offsets c) rs" "apart rs"
    and st: "case bl_start st of None \<Rightarrow> covers c 0 p sz rs
      | Some s \<Rightarrow> \<exists>b e. s = pos c b \<and> bl_end st = pos c e \<and> b \<le> e \<and> e \<le> p \<and> covers c 0 b sz rs \<and> gap c e p"
    unfolding block_inv_def by blast
  have "case bl_start st of None \<Rightarrow> covers c 0 q sz rs
      | Some s \<Rightarrow> \<exists>b e. s = pos c b \<and> bl_end st = pos c e \<and> b \<le> e \<and> e \<le> q \<and> covers c 0 b sz rs \<and> gap c e q"
    using st assms(2-4) by (fastforce split: option.splits intro: covers_gap gap_trans)
  with rs assms(4) show ?thesis unfolding block_inv_def by blast
qed

lemma extend_block_inv:
  assumes "block_inv c sz p st" and "p \<le> b" and "b < e" and "e \<le> q" and "q \<le> length c" and "gap c p b" and "gap c e q"
    and "line_start + leading_whitespace_bytes line = pos c b" and "line_start + bytes (trim_end line) = pos c e"
  shows "block_inv c sz q (extend_block line_start line st)"
proof -
  from assms(1) obtain rs where rs: "map span_offsets (bl_spans st) = map (offsets c) rs" "apart rs"
    and st: "case bl_start st of None \<Rightarrow> covers c 0 p sz rs
      | Some s \<Rightarrow> \<exists>b e. s = pos c b \<and> bl_end st = pos c e \<and> b \<le> e \<and> e \<le> p \<and> covers c 0 b sz rs \<and> gap c e p"
    unfolding block_inv_def by blast
  let ?st = "extend_block line_start line st"
  have "\<exists>b' e'. the (bl_start ?st) = pos c b' \<and> bl_end ?st = pos c e' \<and> b' \<le> e' \<and> e' \<le> q \<and> covers c 0 b' sz rs \<and> gap c e' q"
  proof (cases "bl_start st")
    case None
    then have "covers c 0 b sz rs" using st assms by (auto intro: covers_gap [of c 0 p])
    with None assms show ?thesis
      by (intro exI [of _ b] exI [of _ e]) (simp add: extend_block_def Let_def)
  next
    case (Some s)
    with st obtain b' e' where "s = pos c b'" "b' \<le> e'" "e' \<le> p" "covers c 0 b' sz rs" by auto
    with Some assms show ?thesis
      by (intro exI [of _ b'] exI [of _ e]) (simp add: extend_block_def Let_def)
  qed
  moreover have "\<exists>s. bl_start ?st = Some s" "bl_spans ?st = bl_spans st"
    by (auto simp: extend_block_def Let_def)
  ultimately show ?thesis using rs assms(5) unfolding block_inv_def by fastforce
qed

lemma block_inv_title [simp]: "block_inv c sz p (st\<lparr>bl_title := t\<rparr>) = block_inv c sz p st"
  by (simp add: block_inv_def cong: option.case_cong)

lemma line_step_inv:
  assumes inv: "block_inv c (max maximum 1) p st" and rest: "drop p c = l @ rest"
  obtains st' where "line_step c markdown maximum (pos c p, strip_line l) st = Some st'"
    and "block_inv c (max maximum 1) (p + length l) st'"
proof -
  let ?q = "p + length l"
  define line where "line = strip_line l"
  define t where "t = trim line"
  have p: "p \<le> length c" using inv by (simp add: block_inv_def)
  have q: "?q \<le> length c" using arg_cong [OF rest, of length] p by simp
  obtain u w where l: "l = u @ t @ w" and ws: "\<forall>x \<in> set (u @ w). is_whitespace x"
    and lead: "leading_whitespace_bytes line = bytes u" and tend: "t \<noteq> [] \<longrightarrow> trim_end line = u @ t"
    using line_parts [of l] unfolding t_def line_def by metis
  let ?b = "p + length u" and ?e = "p + length u + length t"
  have len: "length l = length u + length t + length w" by (simp add: l)
  have parts: "drop p c = u @ t @ w @ rest" by (simp add: rest l)
  then have "drop ?e c = drop (length u + length t) (u @ t @ w @ rest)" by (metis add.assoc add.commute drop_drop)
  then have w: "w = take (length w) (drop ?e c)" by simp
  have u: "u = take (length u) (drop p c)" by (simp add: parts)
  have gaps: "gap c p ?b" "gap c ?e ?q"
    using gap_range [OF u] gap_range [OF w] ws len by (simp_all add: add.assoc)
  have at_b: "pos c p + leading_whitespace_bytes line = pos c ?b"
    using pos_slice [of p "length u" c] lead len q by (simp add: parts)
  show ?thesis
  proof (cases "t = []")
    case True
    with gaps have "gap c p ?q" by (simp add: gap_trans [OF gaps(1)])
    then have "block_inv c (max maximum 1) ?q st" using block_inv_gap [OF inv] q by simp
    then obtain st' where "flush c maximum st = Some st'" "block_inv c (max maximum 1) ?q st'" by (rule flush_inv)
    with True that show ?thesis by (simp add: line_step_def flip: line_def t_def)
  next
    case False
    then have at_e: "pos c p + bytes (trim_end line) = pos c ?e"
      using pos_slice [of p "length u + length t" c] tend len q by (simp add: parts add.assoc)
    have ext: "block_inv c (max maximum 1) ?q (extend_block (pos c p) line st1)" if "block_inv c (max maximum 1) p st1" for st1
      by (rule extend_block_inv [OF that _ _ _ q gaps at_b at_e]) (use False len in auto)
    show ?thesis
    proof (cases "if markdown then atx_heading t else None")
      case None
      with False that ext [OF inv] show ?thesis by (simp add: line_step_def flip: line_def t_def)
    next
      case (Some heading)
      obtain st1 where st1: "flush c maximum st = Some st1" "block_inv c (max maximum 1) p st1" using inv by (rule flush_inv)
      then have "block_inv c (max maximum 1) ?q (extend_block (pos c p) line (st1\<lparr>bl_title := Some heading\<rparr>))"
        by (intro ext) simp
      with False Some st1 that show ?thesis by (simp add: line_step_def flip: line_def t_def)
    qed
  qed
qed

lemma lines_loop_inv:
  assumes "block_inv c (max maximum 1) p st" and "drop p c = concat ls"
  shows "\<exists>st'. lines_loop c markdown maximum (line_spans_from (pos c p) ls) st = Some st' \<and>
    block_inv c (max maximum 1) (length c) st'"
  using assms
proof (induction ls arbitrary: p st)
  case Nil
  then have "length c = p" by (simp add: block_inv_def)
  with Nil show ?case by simp
next
  case (Cons l ls)
  then have rest: "drop p c = l @ concat ls" by simp
  obtain st1 where st1: "line_step c markdown maximum (pos c p, strip_line l) st = Some st1"
    "block_inv c (max maximum 1) (p + length l) st1"
    using Cons.prems(1) rest by (rule line_step_inv)
  have "p + length l \<le> length c" using st1(2) by (simp add: block_inv_def)
  then have "pos c p + bytes l = pos c (p + length l)"
    using pos_slice [of p "length l" c] rest by simp
  moreover have "drop (p + length l) c = concat ls"
    using arg_cong [OF rest, of "drop (length l)"] by (simp add: add.commute)
  ultimately show ?case using Cons.IH [OF st1(2)] st1(1) by (simp add: strip_line_def)
qed

lemma concat_split_lines: "concat (split_lines c) = c"
  by (induction c rule: split_lines.induct) (auto split: list.splits)

lemma structural_spans_covers:
  "\<exists>spans rs. structural_spans c markdown maximum = Some spans \<and> map span_offsets spans = map (offsets c) rs \<and>
     covers c 0 (length c) (max maximum 1) rs \<and> apart rs"
proof -
  let ?st = "\<lparr>bl_spans = [], bl_title = None, bl_start = None, bl_end = 0\<rparr>"
  have "block_inv c (max maximum 1) 0 ?st"
    unfolding block_inv_def by (intro conjI exI [of _ "[]"]) (simp_all add: apart_def covers_def)
  then obtain st1 where st1: "lines_loop c markdown maximum (line_spans c) ?st = Some st1"
      "block_inv c (max maximum 1) (length c) st1"
    using lines_loop_inv [of c maximum 0 ?st "split_lines c" markdown] by (auto simp: concat_split_lines line_spans_def pos_def)
  obtain st2 where "flush c maximum st1 = Some st2" "block_inv c (max maximum 1) (length c) st2" "bl_start st2 = None"
    using st1(2) by (rule flush_inv)
  with st1(1) show ?thesis by (auto simp: structural_spans_def block_inv_def)
qed

section \<open>Properties\<close>

lemma spans_for_covers:
  assumes "0 < maximum"
  shows "\<exists>spans rs. spans_for c strategy maximum = Some spans \<and> map span_offsets spans = map (offsets c) rs \<and>
    covers c 0 (length c) maximum rs \<and> (strategy = Paragraph \<or> strategy = Markdown \<longrightarrow> apart rs)"
proof (cases strategy)
  case (FixedWindow window_chars overlap_chars)
  let ?w = "min (max window_chars 1) maximum"
  obtain rs where rs: "window_spans c 0 (bytes c) ?w (min overlap_chars (?w - 1)) = Some (map (offsets c) rs)"
    "covers c 0 (length c) (max ?w 1) rs"
    using window_spans_covers [of 0 "length c" c ?w "min overlap_chars (?w - 1)"] by (auto simp: pos_def)
  have "covers c 0 (length c) maximum rs" using rs(2) assms by (auto simp: covers_def)
  with rs(1) FixedWindow show ?thesis
    by (intro exI [of _ "map (\<lambda>(s, e). \<lparr>ss_start = s, ss_end = e, ss_title = None\<rparr>) (map (offsets c) rs)"] exI [of _ rs])
      (simp add: spans_for_def Let_def span_offsets_def)
next
  case Paragraph
  with structural_spans_covers [of c False maximum] assms show ?thesis by (simp add: spans_for_def max_absorb1)
next
  case Markdown
  with structural_spans_covers [of c True maximum] assms show ?thesis by (simp add: spans_for_def max_absorb1)
qed

text \<open>What a chunk says about the range it was cut from.\<close>

definition chunk_at :: "utext \<Rightarrow> chunk_candidate \<Rightarrow> nat \<times> nat \<Rightarrow> bool" where
  "chunk_at c ch r \<longleftrightarrow> cc_start_offset ch = pos c (fst r) \<and> cc_end_offset ch = pos c (snd r) \<and>
     cc_text ch = take (snd r - fst r) (drop (fst r) c)"

lemma candidates_of_ranges:
  assumes "map span_offsets spans = map (offsets c) rs" and "\<forall>r \<in> set rs. tight c r" and "index + length spans < 2 ^ 31"
  shows "\<exists>chunks. candidates_of c index spans = Some chunks \<and> list_all2 (chunk_at c) chunks rs \<and>
    map cc_chunk_index chunks = map int [index ..< index + length spans]"
  using assms
proof (induction spans arbitrary: rs index)
  case (Cons span spans)
  obtain r rs' where rs0: "rs = r # rs'" using Cons.prems(1) by (cases rs) simp_all
  with Cons.prems(1) have rs: "rs = r # rs'" "ss_start span = pos c (fst r)" "ss_end span = pos c (snd r)"
    "map span_offsets spans = map (offsets c) rs'"
    using span_offsets_def [of span] by auto
  have "fst r \<le> snd r" using Cons.prems(2) rs(1) by (auto simp: tight_def)
  moreover obtain chunks where "candidates_of c (Suc index) spans = Some chunks" "list_all2 (chunk_at c) chunks rs'"
    "map cc_chunk_index chunks = map int [Suc index ..< Suc index + length spans]"
    using Cons.IH [OF rs(4), of "Suc index"] Cons.prems(2,3) rs(1) by auto
  moreover have "wrap_i32 (int index) = int index" using Cons.prems(3) by (intro wrap_i32_id) (simp add: i32_range_def)
  moreover have "[index ..< index + length (span # spans)] = index # [Suc index ..< Suc index + length spans]"
    by (subst upt_rec) simp
  ultimately show ?case
    using rs chunk_at_def [of c _ r] by (auto simp: slice_of_pos simp del: upt_Suc)
qed simp

lemma chunk_ranges:
  assumes "max_chunks_per_document limits < 2 ^ 31"
  shows "(\<exists>n. chunk c strategy limits = Some (Err (TooManyChunks n (max_chunks_per_document limits))) \<and>
      max_chunks_per_document limits < n) \<or>
    (\<exists>chunks rs. chunk c strategy limits = Some (Ok chunks) \<and> length chunks \<le> max_chunks_per_document limits \<and>
      list_all2 (chunk_at c) chunks rs \<and> covers c 0 (length c) (max (max_chunk_chars limits) 1) rs \<and>
      (strategy = Paragraph \<or> strategy = Markdown \<longrightarrow> apart rs) \<and>
      map cc_chunk_index chunks = map int [0 ..< length chunks])"
proof -
  have "0 < max (max_chunk_chars limits) 1" by simp
  from spans_for_covers [OF this, of c strategy]
  obtain spans rs where spans: "spans_for c strategy (max (max_chunk_chars limits) 1) = Some spans"
    "map span_offsets spans = map (offsets c) rs" "covers c 0 (length c) (max (max_chunk_chars limits) 1) rs"
    "strategy = Paragraph \<or> strategy = Markdown \<longrightarrow> apart rs"
    by blast
  show ?thesis
  proof (cases "max_chunks_per_document limits < length spans")
    case True
    with spans show ?thesis by (simp add: chunk_def)
  next
    case False
    have "\<forall>r \<in> set rs. tight c r" using spans(3) by (simp add: covers_def)
    moreover have "0 + length spans < 2 ^ 31" using False assms by simp
    ultimately obtain chunks where chunks: "candidates_of c 0 spans = Some chunks" "list_all2 (chunk_at c) chunks rs"
      "map cc_chunk_index chunks = map int [0 ..< 0 + length spans]"
      using candidates_of_ranges [OF spans(2)] by blast
    have "length chunks = length spans" using arg_cong [OF chunks(3), of length] by simp
    with chunks spans False show ?thesis
      by (intro disjI2 exI [of _ chunks] exI [of _ rs]) (simp add: chunk_def)
  qed
qed

text \<open>
  C25: Chunking never panics, for any text, strategy and limits. It either reports too many
  chunks or cuts chunks that are exact slices of the document at character boundaries, are
  not empty, start and end with a non-blank character, have at most \<open>max_chunk_chars\<close>
  characters, and together miss no non-blank character of the document.
\<close>

theorem chunks_cover_document:
  assumes "max_chunks_per_document limits < 2 ^ 31"
  shows "(\<exists>n. chunk c strategy limits = Some (Err (TooManyChunks n (max_chunks_per_document limits))) \<and>
      max_chunks_per_document limits < n) \<or>
    (\<exists>chunks. chunk c strategy limits = Some (Ok chunks) \<and> length chunks \<le> max_chunks_per_document limits \<and>
      map cc_chunk_index chunks = map int [0 ..< length chunks] \<and>
      (\<forall>ch \<in> set chunks. \<exists>pre post. c = pre @ cc_text ch @ post \<and>
         cc_start_offset ch = bytes pre \<and> cc_end_offset ch = bytes pre + bytes (cc_text ch) \<and>
         cc_text ch \<noteq> [] \<and> \<not> is_whitespace (hd (cc_text ch)) \<and> \<not> is_whitespace (last (cc_text ch)) \<and>
         length (cc_text ch) \<le> max (max_chunk_chars limits) 1) \<and>
      (\<forall>pre x post. c = pre @ x # post \<and> \<not> is_whitespace x \<longrightarrow>
         (\<exists>ch \<in> set chunks. cc_start_offset ch \<le> bytes pre \<and> bytes pre < cc_end_offset ch)))"
proof -
  have cut: "\<exists>pre post. c = pre @ cc_text ch @ post \<and>
         cc_start_offset ch = bytes pre \<and> cc_end_offset ch = bytes pre + bytes (cc_text ch) \<and>
         cc_text ch \<noteq> [] \<and> \<not> is_whitespace (hd (cc_text ch)) \<and> \<not> is_whitespace (last (cc_text ch)) \<and>
         length (cc_text ch) \<le> sz"
    if "chunk_at c ch r" "tight c r" "snd r - fst r \<le> sz" for ch r sz
  proof -
    obtain i j where r: "r = (i, j)" by fastforce
    with that have ij: "i < j" "j \<le> length c" and ch: "cc_start_offset ch = pos c i" "cc_end_offset ch = pos c j"
      "cc_text ch = take (j - i) (drop i c)" by (simp_all add: chunk_at_def tight_def)
    have "c = take i c @ cc_text ch @ drop j c"
      using ij ch(3) by (metis append_take_drop_id drop_drop le_add_diff_inverse2 less_imp_le)
    moreover have "hd (cc_text ch) = c ! i" "last (cc_text ch) = c ! (j - 1)"
      using ij by (simp_all add: ch(3) hd_conv_nth last_conv_nth)
    moreover have "cc_end_offset ch = bytes (take i c) + bytes (cc_text ch)"
      using ch pos_split [of i j c] ij by (simp add: pos_def)
    ultimately show ?thesis
      using that(2,3) ij ch r by (intro exI [of _ "take i c"] exI [of _ "drop j c"]) (auto simp: tight_def pos_def)
  qed
  have cover: "\<exists>ch \<in> set chunks. cc_start_offset ch \<le> bytes pre \<and> bytes pre < cc_end_offset ch"
    if "list_all2 (chunk_at c) chunks rs" "covers c 0 (length c) sz rs" "c = pre @ x # post" "\<not> is_whitespace x"
    for chunks rs sz pre x post
  proof -
    note hyps = that
    have k: "length pre < length c" "c ! length pre = x" "pos c (length pre) = bytes pre" using hyps(3) by (simp_all add: pos_def)
    obtain r where r: "r \<in> set rs" "fst r \<le> length pre" "length pre < snd r"
      using hyps(2,4) k unfolding covers_def by (metis zero_le)
    then obtain ch where "ch \<in> set chunks" "chunk_at c ch r" using hyps(1) by (metis in_set_conv_nth list_all2_conv_all_nth)
    moreover have "snd r \<le> length c" using hyps(2) r(1) by (auto simp: covers_def)
    ultimately show ?thesis
      using r k pos_mono [of "fst r" "length pre" c] pos_strict [of "length pre" "snd r" c]
      by (intro bexI [of _ ch]) (auto simp: chunk_at_def)
  qed
  have each: "\<exists>r. chunk_at c ch r \<and> tight c r \<and> snd r - fst r \<le> sz"
    if "list_all2 (chunk_at c) chunks rs" "covers c 0 (length c) sz rs" "ch \<in> set chunks" for chunks rs sz ch
    using that unfolding covers_def by (metis in_set_conv_nth list_all2_conv_all_nth)
  from chunk_ranges [OF assms, of c strategy] show ?thesis
  proof (elim disjE exE conjE)
    fix chunks rs
    assume "chunk c strategy limits = Some (Ok chunks)" "length chunks \<le> max_chunks_per_document limits"
      and ranges: "list_all2 (chunk_at c) chunks rs" "covers c 0 (length c) (max (max_chunk_chars limits) 1) rs"
      and "map cc_chunk_index chunks = map int [0 ..< length chunks]"
    moreover from each [OF ranges] cut have "\<forall>ch \<in> set chunks. \<exists>pre post. c = pre @ cc_text ch @ post \<and>
         cc_start_offset ch = bytes pre \<and> cc_end_offset ch = bytes pre + bytes (cc_text ch) \<and>
         cc_text ch \<noteq> [] \<and> \<not> is_whitespace (hd (cc_text ch)) \<and> \<not> is_whitespace (last (cc_text ch)) \<and>
         length (cc_text ch) \<le> max (max_chunk_chars limits) 1" by meson
    ultimately show ?thesis using cover [OF ranges] by blast
  qed blast
qed

theorem chunks_cover_document_witness:
  "\<exists>chunks. chunk [35, 32, 65, 10, 10, 66] Markdown \<lparr>max_chunk_chars = 10, max_chunks_per_document = 9\<rparr> = Some (Ok chunks) \<and>
     map cc_text chunks = [[35, 32, 65], [66]] \<and>
     (\<exists>ch \<in> set chunks. cc_start_offset ch \<le> bytes [35, 32] \<and> bytes [35, 32] < cc_end_offset ch)"
proof -
  let ?c = "[35, 32, 65, 10, 10, 66] :: utext" and ?l = "\<lparr>max_chunk_chars = 10, max_chunks_per_document = 9\<rparr>"
  obtain chunks where run: "chunk ?c Markdown ?l = Some (Ok chunks)" "map cc_text chunks = [[35, 32, 65], [66]]"
    by (simp add: chunk_def spans_for_def structural_spans_def line_spans_def line_step_def trim_def trim_end_def
        trim_end_matches_def trim_start_def is_whitespace_def atx_heading_def flush_def extend_block_def
        leading_whitespace_bytes_def window_spans_def slice_of_def utf8_width_def boundaries_of_def
        window_loop.simps trim_span_def opt_list_def truncate_chars_def wrap_i32_def Let_def upt_rec)
  have "max_chunks_per_document ?l < 2 ^ 31" by simp
  from chunks_cover_document [OF this, of ?c Markdown]
  have all: "\<forall>pre x post. ?c = pre @ x # post \<and> \<not> is_whitespace x \<longrightarrow>
      (\<exists>ch \<in> set chunks. cc_start_offset ch \<le> bytes pre \<and> bytes pre < cc_end_offset ch)"
  proof (elim disjE exE conjE)
    fix chs
    assume "chunk ?c Markdown ?l = Some (Ok chs)" and
      cover: "\<forall>pre x post. ?c = pre @ x # post \<and> \<not> is_whitespace x \<longrightarrow>
        (\<exists>ch \<in> set chs. cc_start_offset ch \<le> bytes pre \<and> bytes pre < cc_end_offset ch)"
    then have "chs = chunks" using run(1) by (simp only: option.inject sum.inject)
    with cover show ?thesis by (simp only:)
  qed (simp only: run(1) option.inject sum.distinct)
  have "?c = [35, 32] @ 65 # [10, 10, 66] \<and> \<not> is_whitespace 65" by (simp add: is_whitespace_def)
  with all [rule_format, of "[35, 32]" 65 "[10, 10, 66]"] run show ?thesis by (intro exI [of _ chunks]) (simp only: simp_thms)
qed

end
