(* ===== verification/Cluster.thy ===== *)
theory Cluster
  imports App_Error
begin

text \<open>
  The admission lease that bounds the number of running replicas,
  \<open>src/src/infra/repositories/cluster.rs\<close> and \<open>src/src/app/cluster_lease.rs\<close>.

  A transaction or statement is one step on the rows. Times are integers in the unit of the clock;
  \<open>now\<close> is the timestamp the database gives the transaction. What the database or the network
  decides is an argument of the operation.
\<close>

section \<open>Admission leases\<close>

subsection \<open>The table\<close>

record lease_row =
  lr_replica_id :: uuid
  lr_pod_name :: string
  lr_acquired_at :: int
  lr_heartbeat_at :: int
  lr_released_at :: "int option"

record cluster_lease_grant =
  cg_replica_id :: uuid
  cg_pod_name :: string
  cg_acquired_at :: int

datatype cluster_lease_outcome = LeaseGranted cluster_lease_grant | LeaseDenied int nat

definition seconds :: "int \<Rightarrow> int" where
  "seconds s = s * 1000000000"

definition as_i64 :: "nat \<Rightarrow> int" where
  "as_i64 n = (int n + 2 ^ 63) mod 2 ^ 64 - 2 ^ 63"

definition RELEASED_LEASE_RETENTION_DAYS :: int where
  "RELEASED_LEASE_RETENTION_DAYS = 7"

definition RECLAIM_EXPIRED_SQL :: "int \<Rightarrow> int \<Rightarrow> lease_row list \<Rightarrow> lease_row list" where
  "RECLAIM_EXPIRED_SQL now secs rows =
     map (\<lambda>r. if lr_released_at r = None \<and> lr_heartbeat_at r < now - seconds secs
              then r\<lparr>lr_released_at := Some now\<rparr> else r) rows"

definition PRUNE_RELEASED_SQL :: "int \<Rightarrow> int \<Rightarrow> lease_row list \<Rightarrow> lease_row list" where
  "PRUNE_RELEASED_SQL now days rows =
     filter (\<lambda>r. \<not> (case lr_released_at r of None \<Rightarrow> False | Some t \<Rightarrow> t < now - seconds (days * 86400))) rows"

definition COUNT_LIVE_SQL :: "lease_row list \<Rightarrow> int" where
  "COUNT_LIVE_SQL rows = int (length (filter (\<lambda>r. lr_released_at r = None) rows))"

definition COUNT_LIVE_WITHIN_EXPIRY_SQL :: "int \<Rightarrow> int \<Rightarrow> lease_row list \<Rightarrow> int" where
  "COUNT_LIVE_WITHIN_EXPIRY_SQL now secs rows =
     int (length (filter (\<lambda>r. lr_released_at r = None \<and> now - seconds secs \<le> lr_heartbeat_at r) rows))"

definition INSERT_LEASE_SQL :: "int \<Rightarrow> uuid \<Rightarrow> string \<Rightarrow> lease_row list \<Rightarrow> lease_row list" where
  "INSERT_LEASE_SQL now i pod rows =
     rows @ [\<lparr>lr_replica_id = i, lr_pod_name = pod, lr_acquired_at = now, lr_heartbeat_at = now, lr_released_at = None\<rparr>]"

definition RENEW_SQL :: "int \<Rightarrow> uuid \<Rightarrow> lease_row list \<Rightarrow> nat \<times> lease_row list" where
  "RENEW_SQL now i rows =
     (let hit = (\<lambda>r. lr_replica_id r = i \<and> lr_released_at r = None) in
      (length (filter hit rows), map (\<lambda>r. if hit r then r\<lparr>lr_heartbeat_at := now\<rparr> else r) rows))"

definition RELEASE_SQL :: "int \<Rightarrow> uuid \<Rightarrow> lease_row list \<Rightarrow> lease_row list" where
  "RELEASE_SQL now i rows =
     map (\<lambda>r. if lr_replica_id r = i \<and> lr_released_at r = None then r\<lparr>lr_released_at := Some now\<rparr> else r) rows"

subsection \<open>The repository\<close>

text \<open>
  How a transaction ends: committed and answered, failed before the commit, or committed with
  the answer lost on the way.
\<close>

datatype db_fault = NoFault | RolledBack app_error | LostAck app_error

definition lease_acquire ::
    "db_fault \<Rightarrow> int \<Rightarrow> uuid \<Rightarrow> string \<Rightarrow> nat \<Rightarrow> nat \<Rightarrow> lease_row list
      \<Rightarrow> (app_error + cluster_lease_outcome) \<times> lease_row list" where
  "lease_acquire fault now replica_id pod_name max_replicas expiry_seconds rows =
     (let rows1 = RECLAIM_EXPIRED_SQL now (as_i64 expiry_seconds) rows;
          rows2 = PRUNE_RELEASED_SQL now RELEASED_LEASE_RETENTION_DAYS rows1;
          live = COUNT_LIVE_SQL rows2;
          (outcome, rows3) =
            (if int max_replicas \<le> live then (LeaseDenied live max_replicas, rows2)
             else (LeaseGranted \<lparr>cg_replica_id = replica_id, cg_pod_name = pod_name, cg_acquired_at = now\<rparr>,
                   INSERT_LEASE_SQL now replica_id pod_name rows2))
      in case fault of
           NoFault \<Rightarrow> (Ok outcome, rows3)
         | RolledBack e \<Rightarrow> (Err e, rows)
         | LostAck e \<Rightarrow> (Err e, rows3))"

definition lease_renew :: "db_fault \<Rightarrow> int \<Rightarrow> uuid \<Rightarrow> lease_row list \<Rightarrow> (app_error + bool) \<times> lease_row list" where
  "lease_renew fault now replica_id rows =
     (case RENEW_SQL now replica_id rows of
        (affected, rows') \<Rightarrow>
          (case fault of
             NoFault \<Rightarrow> (Ok (affected = 1), rows')
           | RolledBack e \<Rightarrow> (Err e, rows)
           | LostAck e \<Rightarrow> (Err e, rows')))"

definition lease_release :: "db_fault \<Rightarrow> int \<Rightarrow> uuid \<Rightarrow> lease_row list \<Rightarrow> (app_error + unit) \<times> lease_row list" where
  "lease_release fault now replica_id rows =
     (case fault of
        NoFault \<Rightarrow> (Ok (), RELEASE_SQL now replica_id rows)
      | RolledBack e \<Rightarrow> (Err e, rows)
      | LostAck e \<Rightarrow> (Err e, RELEASE_SQL now replica_id rows))"

definition live_lease_count :: "int \<Rightarrow> nat \<Rightarrow> lease_row list \<Rightarrow> int" where
  "live_lease_count now expiry_seconds rows = COUNT_LIVE_WITHIN_EXPIRY_SQL now (as_i64 expiry_seconds) rows"

text \<open>\<open>simple\<close> is the hyphen-free form of a UUID.\<close>

definition resolve_pod_name :: "(uuid \<Rightarrow> string) \<Rightarrow> string option \<Rightarrow> string option \<Rightarrow> uuid \<Rightarrow> string" where
  "resolve_pod_name simple pod_env host_env replica_id =
     (case find (\<lambda>v. rust_trim v \<noteq> []) (concat (map (case_option [] (\<lambda>v. [v])) [pod_env, host_env])) of
        Some v \<Rightarrow> rust_trim v
      | None \<Rightarrow> ''unnamed-'' @ simple replica_id)"

subsection \<open>The replica\<close>

datatype lease_status = NotEnforced | Held | Lost

definition lease_is_denied :: "lease_status \<Rightarrow> bool" where
  "lease_is_denied s \<longleftrightarrow> s = Lost"

fun lease_label :: "lease_status \<Rightarrow> string" where
  "lease_label Held = ''held''"
| "lease_label Lost = ''lost''"
| "lease_label NotEnforced = ''not_enforced''"

record cluster_settings =
  admission_enabled :: bool
  max_replicas :: nat
  lease_heartbeat_seconds :: nat
  lease_expiry_seconds :: nat

text \<open>
  Start-up: the admission decision of a replica, given whether a database is configured and what
  the repository answered. \<open>undefined_table\<close> is the test for SQLSTATE 42P01. A granted
  replica starts its heartbeat.
\<close>

definition admission_acquire ::
    "(app_error \<Rightarrow> bool) \<Rightarrow> bool \<Rightarrow> cluster_settings \<Rightarrow> (app_error + cluster_lease_outcome) \<Rightarrow> lease_status
      \<Rightarrow> (app_error + uuid option) \<times> lease_status" where
  "admission_acquire undefined_table has_pool settings answer status =
     (if \<not> admission_enabled settings then (Ok None, status)
      else if \<not> has_pool then (Ok None, status)
      else case answer of
             Err e \<Rightarrow> if undefined_table e then (Ok None, status) else (Err e, status)
           | Ok (LeaseDenied live maximum) \<Rightarrow>
               (Err (ConfigError (''cluster admission lease denied: '' @ show_nat (nat live) @ '' of '' @ show_nat maximum @
                  '' leases are live. Raise cluster.max_replicas or reduce the replica count.'')), status)
           | Ok (LeaseGranted grant) \<Rightarrow> (Ok (Some (cg_replica_id grant)), Held))"

definition heartbeat_tick :: "(app_error + bool) \<Rightarrow> lease_status \<Rightarrow> lease_status" where
  "heartbeat_tick answer status =
     (case answer of Ok True \<Rightarrow> Held | Ok False \<Rightarrow> Lost | Err _ \<Rightarrow> status)"

text \<open>Shutdown: the heartbeat is stopped, the row released, and a failure to do so only logged.\<close>

definition lease_handle_release :: "db_fault \<Rightarrow> int \<Rightarrow> uuid \<Rightarrow> lease_row list \<Rightarrow> lease_row list \<times> lease_status" where
  "lease_handle_release fault now replica_id rows =
     (case lease_release fault now replica_id rows of (_, rows') \<Rightarrow> (rows', NotEnforced))"

section \<open>The ceiling\<close>

text \<open>
  The system: the rows, the identifiers handed out so far (every acquisition draws a fresh one)
  and the status each admitted replica reports.
\<close>

record lease_system =
  sys_rows :: "lease_row list"
  sys_used :: "uuid set"
  sys_status :: "uuid \<Rightarrow> lease_status"

inductive lease_step :: "cluster_settings \<Rightarrow> lease_system \<Rightarrow> lease_system \<Rightarrow> bool" for cfg where
  acquire: "admission_enabled cfg \<Longrightarrow> i \<notin> sys_used sys \<Longrightarrow>
    lease_acquire fault now i pod (max_replicas cfg) (lease_expiry_seconds cfg) (sys_rows sys) = (answer, rows) \<Longrightarrow>
    admission_acquire undefined_table True cfg answer NotEnforced = (admitted, status) \<Longrightarrow>
    lease_step cfg sys \<lparr>sys_rows = rows, sys_used = insert i (sys_used sys),
      sys_status = (sys_status sys)(i := status)\<rparr>"
| beat: "i \<in> sys_used sys \<Longrightarrow> sys_status sys i \<noteq> NotEnforced \<Longrightarrow>
    lease_renew fault now i (sys_rows sys) = (answer, rows) \<Longrightarrow>
    lease_step cfg sys (sys\<lparr>sys_rows := rows, sys_status := (sys_status sys)(i := heartbeat_tick answer (sys_status sys i))\<rparr>)"
| release: "i \<in> sys_used sys \<Longrightarrow> lease_handle_release fault now i (sys_rows sys) = (rows, status) \<Longrightarrow>
    lease_step cfg sys (sys\<lparr>sys_rows := rows, sys_status := (sys_status sys)(i := status)\<rparr>)"

inductive lease_reachable :: "cluster_settings \<Rightarrow> lease_system \<Rightarrow> bool" for cfg where
  start: "lease_reachable cfg \<lparr>sys_rows = [], sys_used = {}, sys_status = (\<lambda>_. NotEnforced)\<rparr>"
| step: "lease_reachable cfg sys \<Longrightarrow> lease_step cfg sys sys' \<Longrightarrow> lease_reachable cfg sys'"

definition live :: "lease_row list \<Rightarrow> lease_row list" where
  "live rows = filter (\<lambda>r. lr_released_at r = None) rows"

definition lease_inv :: "cluster_settings \<Rightarrow> lease_system \<Rightarrow> bool" where
  "lease_inv cfg sys \<longleftrightarrow> length (live (sys_rows sys)) \<le> max_replicas cfg \<and>
     distinct (map lr_replica_id (sys_rows sys)) \<and> lr_replica_id ` set (sys_rows sys) \<subseteq> sys_used sys \<and>
     (\<forall>i. sys_status sys i \<noteq> NotEnforced \<longrightarrow> i \<in> sys_used sys)"

lemma reclaim_live: "length (live (RECLAIM_EXPIRED_SQL now secs rows)) \<le> length (live rows)"
  by (induction rows) (auto simp: live_def RECLAIM_EXPIRED_SQL_def)

lemma reclaim_ids [simp]: "map lr_replica_id (RECLAIM_EXPIRED_SQL now secs rows) = map lr_replica_id rows"
  by (simp add: RECLAIM_EXPIRED_SQL_def)

lemma prune_live: "live (PRUNE_RELEASED_SQL now days rows) = live rows"
  by (induction rows) (auto simp: live_def PRUNE_RELEASED_SQL_def)

lemma prune_ids:
  "distinct (map lr_replica_id rows) \<Longrightarrow> distinct (map lr_replica_id (PRUNE_RELEASED_SQL now days rows))"
  "set (PRUNE_RELEASED_SQL now days rows) \<subseteq> set rows"
  by (auto simp: PRUNE_RELEASED_SQL_def distinct_map_filter)

lemma reclaim_id_set: "lr_replica_id ` set (RECLAIM_EXPIRED_SQL now secs rows) = lr_replica_id ` set rows"
  by (metis list.set_map reclaim_ids)

lemma renew_shape:
  "live (snd (RENEW_SQL now i rows)) = map (\<lambda>r. if lr_replica_id r = i then r\<lparr>lr_heartbeat_at := now\<rparr> else r) (live rows)"
  "map lr_replica_id (snd (RENEW_SQL now i rows)) = map lr_replica_id rows"
  by (induction rows) (auto simp: RENEW_SQL_def live_def)

lemma release_shape:
  "live (RELEASE_SQL now i rows) = filter (\<lambda>r. lr_replica_id r \<noteq> i) (live rows)"
  "map lr_replica_id (RELEASE_SQL now i rows) = map lr_replica_id rows"
  by (induction rows) (auto simp: RELEASE_SQL_def live_def)

lemma lease_acquire_inv:
  assumes "lease_acquire fault now i pod (max_replicas cfg) secs rows = (answer, rows')"
    and "length (live rows) \<le> max_replicas cfg" "distinct (map lr_replica_id rows)" "i \<notin> lr_replica_id ` set rows"
  shows "length (live rows') \<le> max_replicas cfg" "distinct (map lr_replica_id rows')"
    "lr_replica_id ` set rows' \<subseteq> insert i (lr_replica_id ` set rows)"
proof -
  define rows2 where "rows2 = PRUNE_RELEASED_SQL now RELEASED_LEASE_RETENTION_DAYS (RECLAIM_EXPIRED_SQL now (as_i64 secs) rows)"
  have shape: "rows' = rows \<or> rows' = rows2 \<or> (COUNT_LIVE_SQL rows2 < int (max_replicas cfg) \<and> rows' = INSERT_LEASE_SQL now i pod rows2)"
    using assms(1) by (auto simp: lease_acquire_def Let_def rows2_def split: db_fault.splits if_splits)
  have ids: "lr_replica_id ` set rows2 \<subseteq> lr_replica_id ` set rows"
    unfolding rows2_def using prune_ids(2) reclaim_id_set by (metis image_mono)
  have d: "distinct (map lr_replica_id rows2)"
    unfolding rows2_def by (rule prune_ids(1)) (simp only: reclaim_ids assms(3))
  have l: "length (live rows2) \<le> max_replicas cfg"
    unfolding rows2_def prune_live by (rule order_trans [OF reclaim_live assms(2)])
  show "length (live rows') \<le> max_replicas cfg"
    using shape l assms(2) by (auto simp: INSERT_LEASE_SQL_def COUNT_LIVE_SQL_def live_def)
  show "distinct (map lr_replica_id rows')"
    using shape d assms(3,4) ids by (elim disjE) (auto simp: INSERT_LEASE_SQL_def)
  show "lr_replica_id ` set rows' \<subseteq> insert i (lr_replica_id ` set rows)"
    using shape ids by (elim disjE) (auto simp: INSERT_LEASE_SQL_def)
qed

lemma same_ids: "map lr_replica_id rows' = map lr_replica_id rows \<Longrightarrow> lr_replica_id ` set rows' = lr_replica_id ` set rows"
  by (metis list.set_map)

lemma lease_step_inv: "lease_step cfg sys sys' \<Longrightarrow> lease_inv cfg sys \<Longrightarrow> lease_inv cfg sys'"
proof (induction rule: lease_step.induct)
  case (acquire i sys fault now pod answer rows undefined_table admitted status)
  have "i \<notin> lr_replica_id ` set (sys_rows sys)"
    using acquire by (auto simp: lease_inv_def)
  from lease_acquire_inv [OF acquire(3) _ _ this] acquire show ?case
    by (auto simp: lease_inv_def)
next
  case (beat i sys fault now answer rows)
  have "rows = sys_rows sys \<or> rows = snd (RENEW_SQL now i (sys_rows sys))"
    using beat(3) by (auto simp: lease_renew_def split: db_fault.splits prod.splits)
  then have "length (live rows) = length (live (sys_rows sys))" "map lr_replica_id rows = map lr_replica_id (sys_rows sys)"
    by (auto simp: renew_shape)
  with beat(1,4) same_ids [OF this(2)] show ?case
    by (simp add: lease_inv_def)
next
  case (release i sys fault now rows status)
  have "rows = sys_rows sys \<or> rows = RELEASE_SQL now i (sys_rows sys)"
    using release(2) by (auto simp: lease_handle_release_def lease_release_def split: db_fault.splits)
  then have "length (live rows) \<le> length (live (sys_rows sys))" "map lr_replica_id rows = map lr_replica_id (sys_rows sys)"
    by (auto simp: release_shape)
  with release(1,3) same_ids [OF this(2)] show ?case
    by (simp add: lease_inv_def)
qed

lemma lease_reachable_inv: "lease_reachable cfg sys \<Longrightarrow> lease_inv cfg sys"
proof (induction rule: lease_reachable.induct)
  case start
  show ?case by (simp add: lease_inv_def live_def)
qed (rule lease_step_inv)

lemma renew_hits_live:
  "distinct (map lr_replica_id rows) \<Longrightarrow>
     fst (RENEW_SQL now i rows) = (if \<exists>r \<in> set (live rows). lr_replica_id r = i then 1 else 0)"
proof (induction rows)
  case (Cons r rows)
  have "lr_replica_id r = i \<Longrightarrow> filter (\<lambda>r. lr_replica_id r = i \<and> lr_released_at r = None) rows = []"
    using Cons.prems by (fastforce simp: filter_empty_conv image_iff)
  with Cons show ?case
    by (auto simp: RENEW_SQL_def live_def Let_def split: if_splits)
qed (simp add: RENEW_SQL_def live_def Let_def)

definition live_ids :: "lease_row list \<Rightarrow> uuid set" where
  "live_ids rows = lr_replica_id ` set (live rows)"

lemma reclaim_live_ids: "live_ids (RECLAIM_EXPIRED_SQL now secs rows) \<subseteq> live_ids rows"
  by (auto simp: live_ids_def live_def RECLAIM_EXPIRED_SQL_def)

lemma insert_live_ids: "live_ids (INSERT_LEASE_SQL now j pod rows) = insert j (live_ids rows)"
  by (auto simp: INSERT_LEASE_SQL_def live_ids_def live_def)

lemma acquire_live_ids:
  assumes "lease_acquire fault now j pod m secs rows = (answer, rows')"
  shows "live_ids rows' \<subseteq> insert j (live_ids rows)"
proof -
  define rows2 where "rows2 = PRUNE_RELEASED_SQL now RELEASED_LEASE_RETENTION_DAYS (RECLAIM_EXPIRED_SQL now (as_i64 secs) rows)"
  have "rows' = rows \<or> rows' = rows2 \<or> rows' = INSERT_LEASE_SQL now j pod rows2"
    using assms by (auto simp: lease_acquire_def Let_def rows2_def split: db_fault.splits if_splits)
  moreover have "live_ids rows2 \<subseteq> live_ids rows"
    using reclaim_live_ids by (simp add: rows2_def live_ids_def prune_live)
  ultimately show ?thesis
    by (elim disjE) (auto simp: insert_live_ids)
qed

lemma renew_live_ids: "live_ids (snd (RENEW_SQL now j rows)) = live_ids rows"
proof -
  have "map lr_replica_id (live (snd (RENEW_SQL now j rows))) = map lr_replica_id (live rows)"
    by (simp add: renew_shape)
  then show ?thesis unfolding live_ids_def by (rule same_ids)
qed

lemma lost_stays_lost:
  "lease_step cfg sys sys' \<Longrightarrow> i \<in> sys_used sys \<Longrightarrow> i \<notin> live_ids (sys_rows sys) \<Longrightarrow> i \<notin> live_ids (sys_rows sys')"
proof (induction rule: lease_step.induct)
  case (acquire j sys fault now pod answer rows undefined_table admitted status)
  then show ?case using acquire_live_ids [OF acquire(3)] by auto
next
  case (beat j sys fault now answer rows)
  have "rows = sys_rows sys \<or> rows = snd (RENEW_SQL now j (sys_rows sys))"
    using beat(3) by (auto simp: lease_renew_def split: db_fault.splits prod.splits)
  then have "live_ids rows = live_ids (sys_rows sys)"
    by (elim disjE) (simp_all only: renew_live_ids)
  with beat show ?case by simp
next
  case (release j sys fault now rows status)
  have "rows = sys_rows sys \<or> rows = RELEASE_SQL now j (sys_rows sys)"
    using release(2) by (auto simp: lease_handle_release_def lease_release_def split: db_fault.splits)
  then have "live_ids rows \<subseteq> live_ids (sys_rows sys)"
    by (auto simp: release_shape live_ids_def)
  with release show ?case by auto
qed

text \<open>
  C28: Whatever order replicas start, beat, expire, stop and lose their database connection in, the
  number of live leases never exceeds \<open>max_replicas\<close>; an answered renewal says exactly whether the
  replica still holds a live lease; and a lease that was lost, by expiry or by release, never comes
  back to life under the same identifier.
\<close>
theorem replica_ceiling:
  assumes "lease_reachable cfg sys"
  shows "COUNT_LIVE_SQL (sys_rows sys) \<le> int (max_replicas cfg) \<and>
    lease_renew NoFault now i (sys_rows sys) = (Ok (i \<in> live_ids (sys_rows sys)), snd (RENEW_SQL now i (sys_rows sys))) \<and>
    (lease_step cfg sys sys' \<and> i \<in> sys_used sys \<and> i \<notin> live_ids (sys_rows sys) \<longrightarrow> i \<notin> live_ids (sys_rows sys'))"
proof (intro conjI impI)
  from lease_reachable_inv [OF assms] show "COUNT_LIVE_SQL (sys_rows sys) \<le> int (max_replicas cfg)"
    by (simp add: lease_inv_def COUNT_LIVE_SQL_def live_def)
  from lease_reachable_inv [OF assms] show "lease_renew NoFault now i (sys_rows sys) = (Ok (i \<in> live_ids (sys_rows sys)), snd (RENEW_SQL now i (sys_rows sys)))"
    using renew_hits_live [of "sys_rows sys" now i]
    by (auto simp: lease_inv_def lease_renew_def live_ids_def image_iff split: prod.splits if_splits)
qed (auto dest: lost_stays_lost)

theorem replica_ceiling_witness:
  "COUNT_LIVE_SQL [\<lparr>lr_replica_id = 1, lr_pod_name = ''pod-a'', lr_acquired_at = 0, lr_heartbeat_at = 0, lr_released_at = None\<rparr>] \<le> 1"
proof -
  let ?cfg = "\<lparr>admission_enabled = True, max_replicas = 1, lease_heartbeat_seconds = 10, lease_expiry_seconds = 30\<rparr>"
  let ?row = "\<lparr>lr_replica_id = 1, lr_pod_name = ''pod-a'', lr_acquired_at = 0, lr_heartbeat_at = 0, lr_released_at = None\<rparr>"
  have a: "lease_acquire NoFault 0 1 ''pod-a'' (max_replicas ?cfg) (lease_expiry_seconds ?cfg) []
      = (Ok (LeaseGranted \<lparr>cg_replica_id = 1, cg_pod_name = ''pod-a'', cg_acquired_at = 0\<rparr>), [?row])"
    by (simp add: lease_acquire_def RECLAIM_EXPIRED_SQL_def PRUNE_RELEASED_SQL_def COUNT_LIVE_SQL_def INSERT_LEASE_SQL_def)
  have "lease_step ?cfg \<lparr>sys_rows = [], sys_used = {}, sys_status = (\<lambda>_. NotEnforced)\<rparr>
      \<lparr>sys_rows = [?row], sys_used = {1}, sys_status = (\<lambda>_. NotEnforced)(1 := Held)\<rparr>"
    using lease_step.acquire [of ?cfg 1 "\<lparr>sys_rows = [], sys_used = {}, sys_status = (\<lambda>_. NotEnforced)\<rparr>", simplified, OF a [simplified]]
    by (simp add: admission_acquire_def)
  from replica_ceiling [OF lease_reachable.step [OF lease_reachable.start this]]
  show ?thesis by simp
qed

end
