(* ===== verification/Leader_Election.thy ===== *)
theory Leader_Election
  imports App_Error
begin

text \<open>
  The leader lock of the singleton workers, \<open>src/src/infra/workers/leader.rs\<close>: one replica at a
  time runs a job named in \<open>LEADER_LOCK_KEYS\<close>, elected by a session-level advisory lock of
  the database.

  The database is the sessions it still considers alive and the holder of every advisory lock. A
  session that ends, for whatever reason, gives up its locks; a client that drops its connection
  leaves the session behind until the database notices. What the network does in a call is an
  argument of the call.
\<close>

section \<open>Advisory locks of the database\<close>

record pg_server =
  pg_next :: nat
  pg_alive :: "nat set"
  pg_holder :: "int \<Rightarrow> nat option"

definition pg_connect :: "pg_server \<Rightarrow> nat \<times> pg_server" where
  "pg_connect srv = (pg_next srv, srv\<lparr>pg_next := Suc (pg_next srv), pg_alive := insert (pg_next srv) (pg_alive srv)\<rparr>)"

definition pg_try_advisory_lock :: "nat \<Rightarrow> int \<Rightarrow> pg_server \<Rightarrow> bool \<times> pg_server" where
  "pg_try_advisory_lock s key srv =
     (if pg_holder srv key \<in> {None, Some s} then (True, srv\<lparr>pg_holder := (pg_holder srv)(key := Some s)\<rparr>)
      else (False, srv))"

definition pg_advisory_unlock :: "nat \<Rightarrow> int \<Rightarrow> pg_server \<Rightarrow> pg_server" where
  "pg_advisory_unlock s key srv =
     (if pg_holder srv key = Some s then srv\<lparr>pg_holder := (pg_holder srv)(key := None)\<rparr> else srv)"

definition pg_end_session :: "nat \<Rightarrow> pg_server \<Rightarrow> pg_server" where
  "pg_end_session s srv =
     srv\<lparr>pg_alive := pg_alive srv - {s},
         pg_holder := (\<lambda>k. if pg_holder srv k = Some s then None else pg_holder srv k)\<rparr>"

section \<open>Keys and states\<close>

definition i64_from_be_bytes :: "string \<Rightarrow> int" where
  "i64_from_be_bytes bs = foldl (\<lambda>acc c. acc * 256 + of_char c) 0 bs"

definition RETENTION_CLEANUP_WORKER :: string where
  "RETENTION_CLEANUP_WORKER = ''retention-cleanup''"

definition RETENTION_CLEANUP_LEADER_LOCK_KEY :: int where
  "RETENTION_CLEANUP_LEADER_LOCK_KEY = i64_from_be_bytes ''moiralrt''"

definition LEADER_LOCK_KEYS :: "(string \<times> int) list" where
  "LEADER_LOCK_KEYS = [(RETENTION_CLEANUP_WORKER, RETENTION_CLEANUP_LEADER_LOCK_KEY)]"

definition leader_lock_key :: "string \<Rightarrow> int option" where
  "leader_lock_key job_name = map_option snd (find (\<lambda>(name, _). name = job_name) LEADER_LOCK_KEYS)"

datatype leader_state = Disabled | Follower | Leader

definition runs_singleton_job :: "leader_state \<Rightarrow> bool" where
  "runs_singleton_job st \<longleftrightarrow> st \<in> {Disabled, Leader}"

fun after_acquire_attempt :: "leader_state \<Rightarrow> bool \<Rightarrow> leader_state" where
  "after_acquire_attempt Disabled _ = Disabled"
| "after_acquire_attempt _ True = Leader"
| "after_acquire_attempt _ False = Follower"

fun after_liveness_check :: "leader_state \<Rightarrow> bool \<Rightarrow> leader_state" where
  "after_liveness_check Leader False = Follower"
| "after_liveness_check st _ = st"

section \<open>The lock\<close>

record leader_lock =
  ll_session :: nat
  ll_job_name :: string
  ll_key :: int

text \<open>
  What can happen to an acquisition: the pool gives no connection, the statement fails on the
  way out or back (the flag says whether the database had executed it), or it is answered and
  the close of an unsuccessful session goes through or not.
\<close>

datatype acquire_env = PoolFails app_error | QueryFails app_error bool | QueryAnswers bool

definition try_acquire :: "acquire_env \<Rightarrow> string \<Rightarrow> pg_server \<Rightarrow> (app_error + leader_lock option) \<times> pg_server" where
  "try_acquire env job_name srv =
     (case leader_lock_key job_name of
        None \<Rightarrow> (Err (Internal (''no leader lock key is declared for worker '' @ CHR 0x22 # job_name @ CHR 0x22 #
            ''; add one to LEADER_LOCK_KEYS in src/infra/workers/leader.rs'')), srv)
      | Some key \<Rightarrow>
          (case env of
             PoolFails e \<Rightarrow> (Err e, srv)
           | QueryFails e executed \<Rightarrow>
               let (session, srv1) = pg_connect srv
               in (Err e, if executed then snd (pg_try_advisory_lock session key srv1) else srv1)
           | QueryAnswers closed \<Rightarrow>
               let (session, srv1) = pg_connect srv;
                   (acquired, srv2) = pg_try_advisory_lock session key srv1
               in if \<not> acquired then (Ok None, if closed then pg_end_session session srv2 else srv2)
                  else (Ok (Some \<lparr>ll_session = session, ll_job_name = job_name, ll_key = key\<rparr>), srv2)))"

text \<open>A ping is answered only by a session that is alive; the flag is what the network does to it.\<close>

definition is_alive :: "bool \<Rightarrow> leader_lock \<Rightarrow> pg_server \<Rightarrow> bool" where
  "is_alive ping lock srv \<longleftrightarrow> ping \<and> ll_session lock \<in> pg_alive srv"

definition release_lock :: "bool \<Rightarrow> bool \<Rightarrow> leader_lock \<Rightarrow> pg_server \<Rightarrow> pg_server" where
  "release_lock unlocked closed lock srv =
     (let srv1 = (if unlocked then pg_advisory_unlock (ll_session lock) (ll_key lock) srv else srv)
      in if closed then pg_end_session (ll_session lock) srv1 else srv1)"

section \<open>The election\<close>

record leader_election =
  le_job_name :: string
  le_state :: leader_state
  le_lock :: "leader_lock option"

definition leader_election_new :: "string \<Rightarrow> bool \<Rightarrow> leader_election" where
  "leader_election_new job_name enabled =
     \<lparr>le_job_name = job_name, le_state = (if enabled then Follower else Disabled), le_lock = None\<rparr>"

definition contest :: "acquire_env \<Rightarrow> leader_election \<Rightarrow> pg_server \<Rightarrow> bool \<times> leader_election \<times> pg_server" where
  "contest env le srv =
     (case try_acquire env (le_job_name le) srv of
        (Ok (Some lock), srv') \<Rightarrow>
          (True, le\<lparr>le_lock := Some lock, le_state := after_acquire_attempt (le_state le) True\<rparr>, srv')
      | (Ok None, srv') \<Rightarrow> (False, le\<lparr>le_state := after_acquire_attempt (le_state le) False\<rparr>, srv')
      | (Err _, srv') \<Rightarrow> (False, le\<lparr>le_state := after_acquire_attempt (le_state le) False\<rparr>, srv'))"

definition should_run ::
    "bool \<Rightarrow> bool \<Rightarrow> acquire_env \<Rightarrow> leader_election \<Rightarrow> pg_server \<Rightarrow> bool \<times> leader_election \<times> pg_server" where
  "should_run has_pool ping env le srv =
     (if le_state le = Disabled then (True, le, srv)
      else if \<not> has_pool then (False, le\<lparr>le_state := Follower\<rparr>, srv)
      else case le_lock le of
             Some lock \<Rightarrow>
               let alive = is_alive ping lock srv;
                   le1 = le\<lparr>le_state := after_liveness_check (le_state le) alive\<rparr>
               in if alive then (True, le1, srv)
                  else contest env (le1\<lparr>le_lock := None\<rparr>) srv
           | None \<Rightarrow> contest env le srv)"

definition resign :: "bool \<Rightarrow> bool \<Rightarrow> leader_election \<Rightarrow> pg_server \<Rightarrow> leader_election \<times> pg_server" where
  "resign unlocked closed le srv =
     (let srv' = (case le_lock le of Some lock \<Rightarrow> release_lock unlocked closed lock srv | None \<Rightarrow> srv);
          le1 = le\<lparr>le_lock := None\<rparr>
      in (if le_state le1 \<noteq> Disabled then le1\<lparr>le_state := Follower\<rparr> else le1, srv'))"

section \<open>Replicas sharing a database\<close>

record leader_system =
  ls_replica :: "nat \<Rightarrow> leader_election"
  ls_server :: pg_server

text \<open>
  A replica ticks, stops, or is replaced by a new process that knows nothing of the old one's
  lock; and at any time the database ends any session.
\<close>

inductive leader_step :: "leader_system \<Rightarrow> leader_system \<Rightarrow> bool" where
  tick: "should_run has_pool ping env (ls_replica sys r) (ls_server sys) = (leads, le, srv) \<Longrightarrow>
    leader_step sys \<lparr>ls_replica = (ls_replica sys)(r := le), ls_server = srv\<rparr>"
| stop: "resign unlocked closed (ls_replica sys r) (ls_server sys) = (le, srv) \<Longrightarrow>
    leader_step sys \<lparr>ls_replica = (ls_replica sys)(r := le), ls_server = srv\<rparr>"
| restart: "leader_step sys (sys\<lparr>ls_replica := (ls_replica sys)(r := leader_election_new job enabled)\<rparr>)"
| session_end: "leader_step sys (sys\<lparr>ls_server := pg_end_session s (ls_server sys)\<rparr>)"

inductive leader_reachable :: "leader_system \<Rightarrow> bool" where
  start: "leader_reachable \<lparr>ls_replica = (\<lambda>r. leader_election_new (job r) (enabled r)),
            ls_server = \<lparr>pg_next = 0, pg_alive = {}, pg_holder = (\<lambda>_. None)\<rparr>\<rparr>"
| step: "leader_reachable sys \<Longrightarrow> leader_step sys sys' \<Longrightarrow> leader_reachable sys'"

definition server_ok :: "pg_server \<Rightarrow> bool" where
  "server_ok srv \<longleftrightarrow> (\<forall>s \<in> pg_alive srv. s < pg_next srv) \<and> (\<forall>k s. pg_holder srv k = Some s \<longrightarrow> s \<in> pg_alive srv)"

text \<open>A session that believes it holds a key is gone, or does hold it.\<close>

definition session_ok :: "pg_server \<Rightarrow> nat \<Rightarrow> int \<Rightarrow> bool" where
  "session_ok srv s key \<longleftrightarrow> s < pg_next srv \<and> (s \<in> pg_alive srv \<longrightarrow> pg_holder srv key = Some s)"

definition leader_inv :: "leader_system \<Rightarrow> bool" where
  "leader_inv sys \<longleftrightarrow> server_ok (ls_server sys) \<and>
     (\<forall>r l. le_lock (ls_replica sys r) = Some l \<longrightarrow>
        session_ok (ls_server sys) (ll_session l) (ll_key l) \<and>
        leader_lock_key (le_job_name (ls_replica sys r)) = Some (ll_key l)) \<and>
     (\<forall>r r' l l'. le_lock (ls_replica sys r) = Some l \<longrightarrow> le_lock (ls_replica sys r') = Some l' \<longrightarrow>
        ll_session l = ll_session l' \<longrightarrow> r = r')"

lemmas server_defs = server_ok_def session_ok_def pg_connect_def pg_try_advisory_lock_def
  pg_advisory_unlock_def pg_end_session_def

lemma end_session_ok:
  "server_ok srv \<Longrightarrow> server_ok (pg_end_session s srv)"
  "session_ok srv s' key \<Longrightarrow> session_ok (pg_end_session s srv) s' key"
  by (auto simp: server_defs)

lemma unlock_ok:
  "server_ok srv \<Longrightarrow> server_ok (pg_advisory_unlock s key srv)"
  "session_ok srv s' key' \<Longrightarrow> s' \<noteq> s \<Longrightarrow> session_ok (pg_advisory_unlock s key srv) s' key'"
  by (auto simp: server_defs)

lemma connect_lock_ok:
  assumes "server_ok srv" "pg_connect srv = (s, srv1)" "pg_try_advisory_lock s key srv1 = (acquired, srv2)"
  shows "s = pg_next srv" "server_ok srv1" "server_ok srv2" "pg_next srv2 = Suc s"
    "session_ok srv s' key' \<Longrightarrow> session_ok srv1 s' key'" "session_ok srv s' key' \<Longrightarrow> session_ok srv2 s' key'"
    "acquired \<Longrightarrow> session_ok srv2 s key \<and> s \<in> pg_alive srv2"
    "acquired \<longleftrightarrow> pg_holder srv key = None"
  using assms by (auto simp: server_defs less_Suc_eq split: if_splits)

definition acquire_post :: "string \<Rightarrow> pg_server \<Rightarrow> (app_error + leader_lock option) \<times> pg_server \<Rightarrow> bool" where
  "acquire_post job srv res \<longleftrightarrow> server_ok (snd res) \<and>
     (\<forall>s k. session_ok srv s k \<longrightarrow> session_ok (snd res) s k) \<and>
     (\<forall>l. fst res = Ok (Some l) \<longrightarrow> leader_lock_key job = Some (ll_key l) \<and> pg_holder srv (ll_key l) = None \<and>
        ll_session l = pg_next srv \<and> session_ok (snd res) (ll_session l) (ll_key l) \<and> ll_session l \<in> pg_alive (snd res))"

lemma try_acquire_post: "server_ok srv \<Longrightarrow> acquire_post job srv (try_acquire env job srv)"
proof (cases "leader_lock_key job")
  case None
  then show "server_ok srv \<Longrightarrow> ?thesis" by (simp add: try_acquire_def acquire_post_def)
next
  case (Some key)
  obtain s srv1 acquired srv2 where c: "pg_connect srv = (s, srv1)" "pg_try_advisory_lock s key srv1 = (acquired, srv2)"
    by (metis surj_pair)
  assume "server_ok srv"
  note ok = connect_lock_ok [OF this c]
  have "\<And>s' k. session_ok srv s' k \<Longrightarrow> session_ok srv1 s' k \<and> session_ok srv2 s' k" "\<And>closed s' k. session_ok srv s' k \<Longrightarrow> session_ok (if closed then pg_end_session s srv2 else srv2) s' k"
    "\<And>closed. server_ok (if closed then pg_end_session s srv2 else srv2)"
    using ok(3,5,6) end_session_ok by simp_all
  then show ?thesis
    using ok(2,3,8) ok(7) \<open>server_ok srv\<close>
    by (cases env) (simp_all add: try_acquire_def acquire_post_def c Let_def Some ok(1) [symmetric])
qed

text \<open>
  What a call of \<open>should_run\<close> or \<open>resign\<close> leaves behind: a sound database, the other sessions
  undisturbed, and a lock that is the old one, none, or one on a new session.
\<close>

definition election_post :: "leader_election \<Rightarrow> pg_server \<Rightarrow> leader_election \<Rightarrow> pg_server \<Rightarrow> bool" where
  "election_post le srv le' srv' \<longleftrightarrow> server_ok srv' \<and> le_job_name le' = le_job_name le \<and>
     (\<forall>s k. session_ok srv s k \<longrightarrow> (\<forall>l. le_lock le = Some l \<longrightarrow> s \<noteq> ll_session l) \<longrightarrow> session_ok srv' s k) \<and>
     (case le_lock le' of
        None \<Rightarrow> True
      | Some l \<Rightarrow> (le_lock le = Some l \<and> srv' = srv) \<or>
          (ll_session l = pg_next srv \<and> session_ok srv' (ll_session l) (ll_key l) \<and>
           leader_lock_key (le_job_name le) = Some (ll_key l)))"

lemma contest_post:
  assumes "server_ok srv" "contest env le srv = (leads, le', srv')" "le_lock le = None"
  shows "election_post le srv le' srv'"
  using try_acquire_post [OF assms(1), of "le_job_name le" env] assms(2,3)
  by (auto simp: contest_def acquire_post_def election_post_def split: prod.splits sum.splits option.splits)

lemma should_run_post:
  assumes "server_ok srv" "should_run has_pool ping env le srv = (leads, le', srv')"
  shows "election_post le srv le' srv'"
proof (cases "le_state le = Disabled \<or> \<not> has_pool \<or> (\<exists>l. le_lock le = Some l \<and> is_alive ping l srv)")
  case True
  with assms show ?thesis
    by (auto simp: should_run_def election_post_def Let_def split: if_splits option.splits)
next
  case False
  define le1 where "le1 = (if le_lock le = None then le else le\<lparr>le_state := after_liveness_check (le_state le) False, le_lock := None\<rparr>)"
  have "contest env le1 srv = (leads, le', srv')" "le_lock le1 = None"
    using assms(2) False by (auto simp: should_run_def le1_def Let_def split: option.splits)
  from contest_post [OF assms(1) this] show ?thesis
    by (auto simp: election_post_def le1_def split: option.splits if_splits)
qed

lemma resign_post:
  assumes "server_ok srv" "resign unlocked closed le srv = (le', srv')"
  shows "election_post le srv le' srv'"
  using assms
  by (auto simp: resign_def release_lock_def election_post_def Let_def intro!: end_session_ok unlock_ok split: option.splits if_splits)

lemma election_post_inv:
  assumes "leader_inv sys" "election_post (ls_replica sys r) (ls_server sys) le srv"
  shows "leader_inv \<lparr>ls_replica = (ls_replica sys)(r := le), ls_server = srv\<rparr>"
proof -
  let ?own = "\<lambda>l. ll_session l = pg_next (ls_server sys)"
  have old: "session_ok (ls_server sys) (ll_session l') (ll_key l') \<and>
      leader_lock_key (le_job_name (ls_replica sys r')) = Some (ll_key l') \<and> ll_session l' < pg_next (ls_server sys)"
    if "le_lock (ls_replica sys r') = Some l'" for r' l'
    using assms(1) that by (auto simp: leader_inv_def session_ok_def)
  have uniq: "r1 = r2" if "le_lock (ls_replica sys r1) = Some l1" "le_lock (ls_replica sys r2) = Some l2"
      "ll_session l1 = ll_session l2" for r1 r2 l1 l2
    using assms(1) that unfolding leader_inv_def by blast
  have other: "session_ok srv (ll_session l') (ll_key l')" if "le_lock (ls_replica sys r') = Some l'" "r' \<noteq> r" for r' l'
    using assms(2) old [OF that(1)] uniq [OF that(1)] that(2) unfolding election_post_def by blast
  have mine: "session_ok srv (ll_session l) (ll_key l) \<and> leader_lock_key (le_job_name le) = Some (ll_key l) \<and>
      (le_lock (ls_replica sys r) = Some l \<or> ?own l)" if "le_lock le = Some l" for l
    using assms(2) old [of r l] that by (auto simp: election_post_def)
  show ?thesis
    using assms(2) old other mine uniq
    unfolding leader_inv_def
    by (auto simp: election_post_def) (metis less_irrefl)+
qed

lemma leader_inv_lock:
  "leader_inv sys \<Longrightarrow> le_lock (ls_replica sys r) = Some l \<Longrightarrow>
     session_ok (ls_server sys) (ll_session l) (ll_key l) \<and> leader_lock_key (le_job_name (ls_replica sys r)) = Some (ll_key l)"
  "leader_inv sys \<Longrightarrow> le_lock (ls_replica sys r) = Some l \<Longrightarrow> le_lock (ls_replica sys r') = Some l' \<Longrightarrow>
     r \<noteq> r' \<Longrightarrow> ll_session l \<noteq> ll_session l'"
  unfolding leader_inv_def by blast+

lemma leader_step_inv: "leader_step sys sys' \<Longrightarrow> leader_inv sys \<Longrightarrow> leader_inv sys'"
proof (induction rule: leader_step.induct)
  case (tick has_pool ping env sys r leads le srv)
  then show ?case by (intro election_post_inv should_run_post) (auto simp: leader_inv_def)
next
  case (stop unlocked closed sys r le srv)
  then show ?case by (intro election_post_inv resign_post) (auto simp: leader_inv_def)
next
  case (restart sys r job enabled)
  then show ?case by (auto simp: leader_inv_def leader_election_new_def)
next
  case (session_end sys s)
  then show ?case by (auto simp: leader_inv_def intro: end_session_ok)
qed

lemma leader_reachable_inv: "leader_reachable sys \<Longrightarrow> leader_inv sys"
proof (induction rule: leader_reachable.induct)
  case (start job enabled)
  show ?case by (simp add: leader_inv_def server_ok_def leader_election_new_def)
qed (rule leader_step_inv)

lemma held_key_not_won:
  assumes "server_ok srv" "leader_lock_key (le_job_name le) = Some key" "pg_holder srv key \<noteq> None"
  shows "\<not> fst (contest env le srv)"
  using try_acquire_post [OF assms(1), of "le_job_name le" env] assms(2,3)
  by (auto simp: contest_def acquire_post_def split: prod.splits sum.splits option.splits)

lemma free_key_won:
  assumes "server_ok srv" "leader_lock_key (le_job_name le) = Some key" "pg_holder srv key = None"
  shows "fst (contest (QueryAnswers closed) le srv)"
  using assms
  by (simp add: contest_def try_acquire_def Let_def pg_connect_def pg_try_advisory_lock_def)

lemma contest_wins:
  assumes "server_ok srv" "contest env le srv = (True, le', srv')"
  shows "\<exists>l. le_lock le' = Some l \<and> ll_session l \<in> pg_alive srv' \<and> leader_lock_key (le_job_name le) = Some (ll_key l)
           \<and> pg_holder srv' (ll_key l) = Some (ll_session l)"
  using try_acquire_post [OF assms(1), of "le_job_name le" env] assms(2)
  by (auto simp: contest_def acquire_post_def session_ok_def split: prod.splits sum.splits option.splits)

lemma should_run_wins:
  assumes "leader_inv sys" "le_state (ls_replica sys r) \<noteq> Disabled"
    and run: "should_run has_pool ping env (ls_replica sys r) (ls_server sys) = (True, le, srv)"
  shows "\<exists>l. le_lock le = Some l \<and> ll_session l \<in> pg_alive srv \<and> pg_holder srv (ll_key l) = Some (ll_session l)
           \<and> leader_lock_key (le_job_name (ls_replica sys r)) = Some (ll_key l)"
proof (cases "\<exists>l. le_lock (ls_replica sys r) = Some l \<and> is_alive ping l (ls_server sys)")
  case True
  then obtain l where l: "le_lock (ls_replica sys r) = Some l" "is_alive ping l (ls_server sys)" by blast
  with run assms(2) have "srv = ls_server sys" "le_lock le = Some l"
    by (auto simp: should_run_def Let_def split: if_splits)
  with assms(1) l show ?thesis
    by (auto simp: leader_inv_def session_ok_def is_alive_def)
next
  case False
  have ok: "server_ok (ls_server sys)" using assms(1) by (simp add: leader_inv_def)
  from False run assms(2) obtain le1 where
    "contest env le1 (ls_server sys) = (True, le, srv)" "le_job_name le1 = le_job_name (ls_replica sys r)"
    by (auto simp: should_run_def Let_def split: if_splits option.splits)
  from contest_wins [OF ok this(1)] this(2) show ?thesis by auto
qed

lemma should_run_lock_view:
  assumes "le_state le \<noteq> Disabled" "\<And>l. le_lock le = Some l \<Longrightarrow> \<not> is_alive ping l srv"
    and "\<And>le1. le_job_name le1 = le_job_name le \<Longrightarrow> fst (contest env le1 srv) = b"
  shows "fst (should_run has_pool ping env le srv) \<longleftrightarrow> has_pool \<and> b"
  using assms by (auto simp: should_run_def Let_def split: option.splits)

lemma others_stand_down:
  assumes inv: "leader_inv sys" and enabled: "le_state (ls_replica sys r) \<noteq> Disabled"
    and run: "should_run has_pool ping env (ls_replica sys r) (ls_server sys) = (True, le, srv)"
    and r': "r' \<noteq> r" "le_job_name (ls_replica sys r') = le_job_name (ls_replica sys r)" "le_state (ls_replica sys r') \<noteq> Disabled"
  shows "\<not> fst (should_run has_pool' ping' env' (ls_replica sys r') srv)"
proof -
  let ?sys = "\<lparr>ls_replica = (ls_replica sys)(r := le), ls_server = srv\<rparr>"
  from leader_step_inv [OF leader_step.tick [OF run] inv] have inv': "leader_inv ?sys" .
  from should_run_wins [OF inv enabled run] obtain l where l: "le_lock le = Some l" "ll_session l \<in> pg_alive srv"
    "pg_holder srv (ll_key l) = Some (ll_session l)" "leader_lock_key (le_job_name (ls_replica sys r)) = Some (ll_key l)" by blast
  have dead: "\<not> is_alive ping' l' srv" if "le_lock (ls_replica sys r') = Some l'" for l'
  proof
    assume "is_alive ping' l' srv"
    moreover have "session_ok srv (ll_session l') (ll_key l')" "leader_lock_key (le_job_name (ls_replica sys r')) = Some (ll_key l')"
      "ll_session l \<noteq> ll_session l'"
      using leader_inv_lock(1) [OF inv', of r' l'] leader_inv_lock(2) [OF inv', of r l r' l'] that l(1) r'(1) by simp_all
    ultimately show False using l(3,4) r'(2) by (auto simp: is_alive_def session_ok_def)
  qed
  have lost: "fst (contest env' le1 srv) = False" if "le_job_name le1 = le_job_name (ls_replica sys r')" for le1
  proof -
    have "server_ok srv" using inv' by (simp add: leader_inv_def)
    moreover have "leader_lock_key (le_job_name le1) = Some (ll_key l)" using that r'(2) l(4) by simp
    ultimately show ?thesis using held_key_not_won [of srv le1 "ll_key l" env'] l(3) by simp
  qed
  show ?thesis
    using should_run_lock_view [OF r'(3) dead lost] by simp
qed

lemma free_lock_is_won:
  assumes inv: "leader_inv sys" and enabled: "le_state (ls_replica sys r) \<noteq> Disabled"
    and key: "leader_lock_key (le_job_name (ls_replica sys r)) = Some key" "pg_holder (ls_server sys) key = None"
  shows "fst (should_run True ping (QueryAnswers closed) (ls_replica sys r) (ls_server sys))"
proof -
  have dead: "\<not> is_alive ping l (ls_server sys)" if "le_lock (ls_replica sys r) = Some l" for l
    using inv that key by (auto simp: leader_inv_def is_alive_def session_ok_def)
  have won: "fst (contest (QueryAnswers closed) le1 (ls_server sys)) = True"
    if "le_job_name le1 = le_job_name (ls_replica sys r)" for le1
    using free_key_won [of "ls_server sys" le1 key closed] inv that key by (simp add: leader_inv_def)
  show ?thesis
    using should_run_lock_view [OF enabled dead won] by simp
qed

text \<open>
  C29: When a replica is told to run a leader-gated job, its database session is alive and holds
  the job's lock, and in that same state every other replica of the job that takes part in the
  election is told not to run, whatever its connection does, whatever was lost before: stale
  leaders, crashed processes and sessions the database has not noticed are dead are all allowed for.
  Conversely, when nobody holds the lock, the next replica whose query is answered leads.
\<close>
theorem single_leader:
  assumes "leader_reachable sys" "le_state (ls_replica sys r) \<noteq> Disabled"
  shows "(should_run has_pool ping env (ls_replica sys r) (ls_server sys) = (True, le, srv) \<longrightarrow>
      (\<exists>l. le_lock le = Some l \<and> ll_session l \<in> pg_alive srv \<and> pg_holder srv (ll_key l) = Some (ll_session l)) \<and>
      (\<forall>r' has_pool' ping' env'. r' \<noteq> r \<and> le_job_name (ls_replica sys r') = le_job_name (ls_replica sys r) \<and>
         le_state (ls_replica sys r') \<noteq> Disabled \<longrightarrow> \<not> fst (should_run has_pool' ping' env' (ls_replica sys r') srv))) \<and>
    (leader_lock_key (le_job_name (ls_replica sys r)) = Some key \<and> pg_holder (ls_server sys) key = None \<longrightarrow>
      fst (should_run True ping (QueryAnswers closed) (ls_replica sys r) (ls_server sys)))"
  using should_run_wins [OF leader_reachable_inv [OF assms(1)] assms(2)]
    others_stand_down [OF leader_reachable_inv [OF assms(1)] assms(2)]
    free_lock_is_won [OF leader_reachable_inv [OF assms(1)] assms(2)]
  by blast

theorem single_leader_witness:
  "let job = RETENTION_CLEANUP_WORKER;
       le = \<lparr>le_job_name = job, le_state = Leader,
             le_lock = Some \<lparr>ll_session = 0, ll_job_name = job, ll_key = RETENTION_CLEANUP_LEADER_LOCK_KEY\<rparr>\<rparr>;
       srv = \<lparr>pg_next = 1, pg_alive = {0}, pg_holder = (\<lambda>_. None)(RETENTION_CLEANUP_LEADER_LOCK_KEY \<mapsto> 0)\<rparr>
   in should_run True True (QueryAnswers True) (leader_election_new job True)
        \<lparr>pg_next = 0, pg_alive = {}, pg_holder = (\<lambda>_. None)\<rparr> = (True, le, srv) \<and>
      \<not> fst (should_run True True (QueryAnswers True) (leader_election_new job True) srv)"
proof -
  let ?job = RETENTION_CLEANUP_WORKER
  let ?srv = "\<lparr>pg_next = 0, pg_alive = {}, pg_holder = (\<lambda>_. None)\<rparr>"
  let ?sys = "\<lparr>ls_replica = (\<lambda>r. leader_election_new ?job True), ls_server = ?srv\<rparr>"
  have run: "should_run True True (QueryAnswers True) (leader_election_new ?job True) ?srv =
      (True, \<lparr>le_job_name = ?job, le_state = Leader, le_lock = Some \<lparr>ll_session = 0, ll_job_name = ?job, ll_key = RETENTION_CLEANUP_LEADER_LOCK_KEY\<rparr>\<rparr>,
       \<lparr>pg_next = 1, pg_alive = {0}, pg_holder = (\<lambda>_. None)(RETENTION_CLEANUP_LEADER_LOCK_KEY \<mapsto> 0)\<rparr>)"
    by (simp add: should_run_def leader_election_new_def contest_def try_acquire_def leader_lock_key_def LEADER_LOCK_KEYS_def
        pg_connect_def pg_try_advisory_lock_def Let_def)
  have "leader_reachable ?sys"
    by (rule leader_reachable.start [of "\<lambda>_. ?job" "\<lambda>_. True"])
  note leads = single_leader [OF this, of 0 True True "QueryAnswers True", unfolded leader_system.select_convs, OF _ ]
  have enabled: "le_state (leader_election_new ?job True) \<noteq> Disabled" by (simp add: leader_election_new_def)
  from leads [OF enabled] run enabled show ?thesis
    unfolding Let_def by (metis zero_neq_one)
qed

end
