(* ===== verification/Idempotency.thy ===== *)
theory Idempotency
  imports App_Error "HOL-Library.List_Lexorder" "HOL-Library.Multiset"
begin

text \<open>
  Keyed digests of the idempotency ledger, \<open>src/src/security/idempotency.rs\<close> and
  \<open>src/src/security/masking.rs\<close>, and the canonical form of a command,
  \<open>src/src/application/admin_command.rs\<close>. A byte sequence is a list of characters. HMAC-SHA256, SHA-256
  and the base64 alphabet come from libraries and are the fields of \<open>crypto\<close>; what the code relies
  on is \<open>crypto_laws\<close>.
\<close>

section \<open>Digests\<close>

record crypto =
  cr_hmac :: "string \<Rightarrow> string \<Rightarrow> string"
  cr_sha256 :: "string \<Rightarrow> string"
  cr_encode :: "string \<Rightarrow> string"
  cr_decode :: "string \<Rightarrow> string option"

text \<open>URL-safe base64 without padding decodes what it encodes and has no colon in its alphabet.\<close>

definition crypto_laws :: "crypto \<Rightarrow> bool" where
  "crypto_laws cr \<longleftrightarrow> (\<forall>bs. cr_decode cr (cr_encode cr bs) = Some bs \<and> CHR '':'' \<notin> set (cr_encode cr bs))"

record idempotency_hasher =
  ih_pepper :: string
  ih_pepper_version :: string

definition VERSION_SEPARATOR :: char where
  "VERSION_SEPARATOR = CHR '':''"

fun split_once :: "char \<Rightarrow> string \<Rightarrow> (string \<times> string) option" where
  "split_once sep [] = None"
| "split_once sep (c # cs) =
     (if c = sep then Some ([], cs) else map_option (\<lambda>(a, b). (c # a, b)) (split_once sep cs))"

definition secret_fingerprint :: "crypto \<Rightarrow> string \<Rightarrow> string" where
  "secret_fingerprint cr bytes = cr_encode cr (cr_sha256 cr bytes)"

definition request_hash :: "crypto \<Rightarrow> string \<Rightarrow> string" where
  "request_hash cr bytes = secret_fingerprint cr bytes"

definition IdempotencyHasher_new :: "string \<Rightarrow> string \<Rightarrow> idempotency_hasher" where
  "IdempotencyHasher_new pepper pepper_version = \<lparr>ih_pepper = pepper, ih_pepper_version = pepper_version\<rparr>"

definition hasher_mac :: "crypto \<Rightarrow> idempotency_hasher \<Rightarrow> string \<Rightarrow> string" where
  "hasher_mac cr h bytes = cr_hmac cr (ih_pepper h) bytes"

definition hasher_hash :: "crypto \<Rightarrow> idempotency_hasher \<Rightarrow> string \<Rightarrow> string" where
  "hasher_hash cr h bytes = ih_pepper_version h @ [VERSION_SEPARATOR] @ cr_encode cr (hasher_mac cr h bytes)"

definition legacy_hash :: "crypto \<Rightarrow> idempotency_hasher \<Rightarrow> string \<Rightarrow> string" where
  "legacy_hash cr h bytes = secret_fingerprint cr bytes"

definition hasher_verify :: "crypto \<Rightarrow> idempotency_hasher \<Rightarrow> string \<Rightarrow> string \<Rightarrow> bool" where
  "hasher_verify cr h bytes stored =
     (case split_once VERSION_SEPARATOR stored of
        Some (v, digest) \<Rightarrow>
          if v = ih_pepper_version h then
            (case cr_decode cr digest of
               None \<Rightarrow> False
             | Some expected \<Rightarrow> hasher_mac cr h bytes = expected)
          else False
      | None \<Rightarrow> secret_fingerprint cr bytes = stored)"

text \<open>What \<open>Settings::validate\<close> asks of the version tag.\<close>

definition version_ok :: "idempotency_hasher \<Rightarrow> bool" where
  "version_ok h \<longleftrightarrow> ih_pepper_version h \<noteq> [] \<and> CHR '':'' \<notin> set (ih_pepper_version h)"

lemma split_once_append: "sep \<notin> set xs \<Longrightarrow> split_once sep (xs @ sep # ys) = Some (xs, ys)"
  by (induction xs) auto

lemma split_once_None: "split_once sep xs = None \<longleftrightarrow> sep \<notin> set xs"
  by (induction xs) auto

lemma verify_hash:
  assumes "crypto_laws cr" "version_ok h"
  shows "hasher_verify cr h bytes (hasher_hash cr h bytes') \<longleftrightarrow> hasher_mac cr h bytes = hasher_mac cr h bytes'"
  using assms
  by (simp add: hasher_verify_def hasher_hash_def version_ok_def VERSION_SEPARATOR_def split_once_append crypto_laws_def)

lemma verify_other_version:
  assumes "version_ok h'" "ih_pepper_version h \<noteq> ih_pepper_version h'"
  shows "\<not> hasher_verify cr h bytes (hasher_hash cr h' bytes')"
  using assms by (simp add: hasher_verify_def hasher_hash_def version_ok_def VERSION_SEPARATOR_def split_once_append)

lemma verify_legacy:
  assumes "crypto_laws cr"
  shows "hasher_verify cr h bytes (legacy_hash cr h bytes') \<longleftrightarrow> secret_fingerprint cr bytes = secret_fingerprint cr bytes'"
proof -
  have "split_once VERSION_SEPARATOR (legacy_hash cr h bytes') = None"
    using assms by (simp add: split_once_None legacy_hash_def secret_fingerprint_def crypto_laws_def VERSION_SEPARATOR_def)
  then show ?thesis by (simp add: hasher_verify_def legacy_hash_def)
qed

text \<open>A plain instance of the libraries, for examples: every byte is written as two letters.\<close>

fun nibbles :: "char \<Rightarrow> string" where
  "nibbles (Char b0 b1 b2 b3 b4 b5 b6 b7) =
     [Char b0 b1 b2 b3 False False True False, Char b4 b5 b6 b7 False False True False]"

fun read_nibbles :: "string \<Rightarrow> string option" where
  "read_nibbles (Char b0 b1 b2 b3 _ _ _ _ # Char b4 b5 b6 b7 _ _ _ _ # cs) =
     map_option ((#) (Char b0 b1 b2 b3 b4 b5 b6 b7)) (read_nibbles cs)"
| "read_nibbles [] = Some []"
| "read_nibbles [_] = None"

definition plain_crypto :: crypto where
  "plain_crypto = \<lparr>cr_hmac = (\<lambda>k m. take 32 (rev (k @ m) @ replicate 32 CHR 0x00)), cr_sha256 = id,
     cr_encode = (\<lambda>bs. concat (map nibbles bs)), cr_decode = read_nibbles\<rparr>"

lemma plain_crypto_laws: "crypto_laws plain_crypto"
proof -
  have "read_nibbles (concat (map nibbles bs)) = Some bs" for bs
  proof (induction bs)
    case (Cons c bs)
    then show ?case by (cases c) simp
  qed simp
  moreover have "CHR '':'' \<notin> set (nibbles c)" for c by (cases c) auto
  ultimately show ?thesis by (simp add: crypto_laws_def plain_crypto_def)
qed

section \<open>Canonical form\<close>

lemma size_member: "(k, v) \<in> set es \<Longrightarrow> size v < Suc (size_list (size_prod (\<lambda>x. 0) size) es)"
  by (induction es) auto

lemma size_element: "v \<in> set vs \<Longrightarrow> size v < Suc (size_list size vs)"
  by (induction vs) auto

function canonicalize :: "json \<Rightarrow> json" where
  "canonicalize (JObject es) = JObject (map (\<lambda>(k, v). (k, canonicalize v)) (sort_key fst es))"
| "canonicalize (JArray vs) = JArray (map canonicalize vs)"
| "canonicalize JNull = JNull"
| "canonicalize (JBool b) = JBool b"
| "canonicalize (JNumber n) = JNumber n"
| "canonicalize (JString s) = JString s"
  by pat_completeness auto

termination
  by (relation "measure size") (auto simp: size_member size_element)

text \<open>Two values that differ at most in the order of the members of their objects.\<close>

inductive same_json :: "json \<Rightarrow> json \<Rightarrow> bool" where
  same: "same_json v v"
| array: "list_all2 same_json vs ws \<Longrightarrow> same_json (JArray vs) (JArray ws)"
| object: "list_all2 (rel_prod (=) same_json) es es' \<Longrightarrow> mset es' = mset fs \<Longrightarrow> distinct (map fst fs) \<Longrightarrow>
    same_json (JObject es) (JObject fs)"

lemma sort_key_map_values:
  fixes es :: "('k::linorder \<times> 'v) list"
  shows "map (\<lambda>(k, v). (k, f v)) (sort_key fst es) = sort_key fst (map (\<lambda>(k, v). (k, f v)) es)"
proof -
  have "map (\<lambda>(k, v). (k, f v)) (insort_key fst e fs) = insort_key fst (fst e, f (snd e)) (map (\<lambda>(k, v). (k, f v)) fs)"
    for e :: "'k \<times> 'v" and fs
    by (induction fs) (auto split: prod.splits)
  then show ?thesis by (induction es) auto
qed

lemma canonicalize_same: "same_json v w \<Longrightarrow> canonicalize v = canonicalize w"
proof (induction rule: same_json.induct)
  case (array vs ws)
  then have "map canonicalize vs = map canonicalize ws"
    by (induction rule: list_all2_induct) auto
  then show ?case by simp
next
  case (object es es' fs)
  let ?c = "map (\<lambda>(k, v). (k, canonicalize v))"
  from object(1) have "?c es = ?c es'"
    by (induction rule: list_all2_induct) (auto simp: rel_prod_conv split: prod.splits)
  moreover have "sort_key fst es' = sort_key fst fs"
  proof (rule sort_key_eq_sort_key [OF object(2)])
    have "set es' = set fs" using object(2) by (rule mset_eq_setD)
    then show "inj_on fst (set es')" using object(3) by (simp add: distinct_map)
  qed
  ultimately show ?case
    by (simp add: sort_key_map_values) (metis sort_key_map_values)
qed simp

end
