(* ===== verification/Admin_Command.thy ===== *)
theory Admin_Command
  imports Idempotency
begin

text \<open>
  Idempotent admin commands: \<open>src/src/application/admin_command.rs\<close> over the ledger transaction of
  \<open>src/src/infra/repositories/admin.rs\<close>. A command runs in one transaction on the ledger rows and
  the rest of the database; the advisory lock taken on the key serialises commands with the same key,
  so a command is one step. Every call to the database may fail, and a commit may fail before or after it
  took effect; those choices, the two clocks and the random identifier are the command's environment.
  The rest of the database and the mutation run on it are arbitrary.
\<close>

section \<open>Commands\<close>

record admin_command_idempotency =
  ci_key :: string
  ci_actor_identity :: string

record admin_command_spec =
  cs_operation :: string
  cs_path :: json
  cs_request :: json
  cs_expected_version :: "int option"
  cs_idempotency :: "admin_command_idempotency option"

record 'r admin_command_mutation =
  am_client_response :: 'r
  am_replay_response :: json
  am_status :: "16 word"
  am_resource_id :: "string option"

record 'r admin_command_outcome =
  ao_response :: 'r
  ao_status :: "16 word"
  ao_resource_id :: "string option"
  ao_replayed :: bool

record stored_admin_error =
  se_code :: string
  se_message_key :: string
  se_message :: string
  se_message_args :: json
  se_details :: "json option"

datatype stored_admin_replay = ReplaySuccess json | ReplayFailure stored_admin_error

record idempotency_record =
  ir_id :: uuid
  ir_key_hash :: string
  ir_actor_fingerprint :: string
  ir_operation :: string
  ir_request_hash :: string
  ir_response_status :: "int option"
  ir_response_body :: "json option"
  ir_resource_id :: "string option"
  ir_expires_at :: int

record admin_idempotency_claim =
  cl_record_id :: uuid
  cl_key_hash :: string
  cl_legacy_key_hash :: "string option"
  cl_actor_fingerprint :: string
  cl_legacy_actor_fingerprint :: "string option"
  cl_operation :: string
  cl_request_hash :: string
  cl_expires_at :: int

datatype claim_outcome = Acquired | Existing idempotency_record

record admin_command_runner =
  ru_hasher :: idempotency_hasher
  ru_accept_legacy_hashes :: bool

text \<open>
  The JSON library: printing a value, and the generated conversions of the response type and of the
  stored replay. A \<open>null\<close> in an optional field is read as absent.
\<close>

record 'r serde =
  sd_to_vec :: "json \<Rightarrow> string + string"
  sd_to_value :: "'r \<Rightarrow> string + json"
  sd_from_value :: "json \<Rightarrow> string + 'r"
  sd_replay_to_value :: "stored_admin_replay \<Rightarrow> string + json"
  sd_replay_from_value :: "json \<Rightarrow> string + stored_admin_replay"

fun read_back :: "stored_admin_replay \<Rightarrow> stored_admin_replay" where
  "read_back (ReplaySuccess body) = ReplaySuccess body"
| "read_back (ReplayFailure e) = ReplayFailure (e\<lparr>se_details := (if se_details e = Some JNull then None else se_details e)\<rparr>)"

definition serde_laws :: "'r serde \<Rightarrow> bool" where
  "serde_laws sd \<longleftrightarrow> (\<forall>r. \<exists>v. sd_replay_to_value sd r = Ok v \<and> sd_replay_from_value sd v = Ok (read_back r))"

definition ADMIN_COMMAND_VERSION :: int where "ADMIN_COMMAND_VERSION = 1"

definition IDEMPOTENCY_RETENTION_HOURS :: int where "IDEMPOTENCY_RETENTION_HOURS = 24"

definition hours :: "int \<Rightarrow> int" where "hours h = h * 3600 * 1000000000"

definition invalid_command :: "string \<Rightarrow> app_error" where
  "invalid_command err = BadRequest (''invalid idempotent command: '' @ err)"

definition map_err :: "('e \<Rightarrow> 'f) \<Rightarrow> 'e + 'a \<Rightarrow> 'f + 'a" where
  "map_err f r = (case r of Err e \<Rightarrow> Err (f e) | Ok a \<Rightarrow> Ok a)"

definition AdminCommandSpec_new :: "string \<Rightarrow> string + json \<Rightarrow> string + json \<Rightarrow> app_error + admin_command_spec" where
  "AdminCommandSpec_new operation path request =
     and_then (map_err invalid_command path) (\<lambda>p.
     and_then (map_err invalid_command request) (\<lambda>r.
       Ok \<lparr>cs_operation = operation, cs_path = p, cs_request = r, cs_expected_version = None, cs_idempotency = None\<rparr>))"

definition with_expected_version :: "int option \<Rightarrow> admin_command_spec \<Rightarrow> admin_command_spec" where
  "with_expected_version v spec = spec\<lparr>cs_expected_version := v\<rparr>"

definition with_idempotency :: "admin_command_idempotency option \<Rightarrow> admin_command_spec \<Rightarrow> admin_command_spec" where
  "with_idempotency i spec = spec\<lparr>cs_idempotency := i\<rparr>"

definition envelope :: "admin_command_spec \<Rightarrow> json" where
  "envelope spec = JObject
     [(''version'', JNumber ADMIN_COMMAND_VERSION), (''operation'', JString (cs_operation spec)),
      (''path'', cs_path spec), (''request'', cs_request spec),
      (''expected_version'', (case cs_expected_version spec of None \<Rightarrow> JNull | Some v \<Rightarrow> JNumber v))]"

definition envelope_bytes :: "'r serde \<Rightarrow> admin_command_spec \<Rightarrow> app_error + string" where
  "envelope_bytes sd spec = map_err invalid_command (sd_to_vec sd (canonicalize (envelope spec)))"

definition spec_request_hash :: "'r serde \<Rightarrow> crypto \<Rightarrow> idempotency_hasher \<Rightarrow> admin_command_spec \<Rightarrow> app_error + string" where
  "spec_request_hash sd cr h spec = map_sum id (hasher_hash cr h) (envelope_bytes sd spec)"

definition legacy_request_hash :: "'r serde \<Rightarrow> crypto \<Rightarrow> admin_command_spec \<Rightarrow> app_error + string" where
  "legacy_request_hash sd cr spec = map_sum id (request_hash cr) (envelope_bytes sd spec)"

definition AdminCommandMutation_new :: "'r serde \<Rightarrow> 'r \<Rightarrow> 16 word \<Rightarrow> string option \<Rightarrow> app_error + 'r admin_command_mutation" where
  "AdminCommandMutation_new sd response status resource_id =
     and_then (map_err (\<lambda>e. Internal (''encode admin command response: '' @ e)) (sd_to_value sd response)) (\<lambda>v.
       Ok \<lparr>am_client_response = response, am_replay_response = v, am_status = status, am_resource_id = resource_id\<rparr>)"

definition with_replay_response :: "'r \<Rightarrow> string + json \<Rightarrow> 16 word \<Rightarrow> string option \<Rightarrow> app_error + 'r admin_command_mutation" where
  "with_replay_response client_response replay_response status resource_id =
     and_then (map_err (\<lambda>e. Internal (''encode sanitized admin command response: '' @ e)) replay_response) (\<lambda>v.
       Ok \<lparr>am_client_response = client_response, am_replay_response = v, am_status = status, am_resource_id = resource_id\<rparr>)"

text \<open>Members of the path or the request in another order make the same envelope.\<close>

lemma envelope_bytes_same:
  assumes "cs_operation a = cs_operation b" "cs_expected_version a = cs_expected_version b"
    and "same_json (cs_path a) (cs_path b)" "same_json (cs_request a) (cs_request b)"
  shows "envelope_bytes sd a = envelope_bytes sd b"
proof -
  have "same_json (envelope a) (envelope b)"
    unfolding envelope_def using assms by (intro same_json.object [OF _ refl]) (auto intro: same_json.same)
  then show ?thesis by (simp add: envelope_bytes_def canonicalize_same)
qed

section \<open>The ledger\<close>

datatype db_call =
    CallBegin | CallLock | CallSweep | CallLoad string string | CallInsert
  | CallSavepoint | CallRelease | CallRollbackTo | CallFinalize | CallCommit | CallRollback

text \<open>
  \<open>ae_lock\<close> lists the attempts at the advisory lock until it is won or the deadline of five
  seconds has passed: whether the attempt won, and whether the deadline had passed after it.
\<close>

record admin_env =
  ae_fails :: "db_call \<Rightarrow> app_error option"
  ae_commit_applied :: bool
  ae_lock :: "(bool \<times> bool) list"
  ae_record_id :: uuid
  ae_app_now :: int
  ae_db_now :: int

definition idempotency_in_progress :: app_error where
  "idempotency_in_progress = conflict ''idempotency_in_progress'' ''another request with this Idempotency-Key is still in progress''"

fun lock_loop :: "(bool \<times> bool) list \<Rightarrow> bool" where
  "lock_loop [] \<longleftrightarrow> False"
| "lock_loop ((acquired, deadline_passed) # attempts) \<longleftrightarrow>
     (if acquired then True else if deadline_passed then False else lock_loop attempts)"

definition opt_cons :: "'a \<Rightarrow> 'a option \<Rightarrow> 'a list" where
  "opt_cons x y = x # (case y of None \<Rightarrow> [] | Some z \<Rightarrow> [z])"

definition sweep_expired :: "int \<Rightarrow> admin_idempotency_claim \<Rightarrow> idempotency_record list \<Rightarrow> idempotency_record list" where
  "sweep_expired db_now claim rows =
     filter (\<lambda>r. \<not> (ir_key_hash r \<in> set (opt_cons (cl_key_hash claim) (cl_legacy_key_hash claim)) \<and>
                    ir_actor_fingerprint r \<in> set (opt_cons (cl_actor_fingerprint claim) (cl_legacy_actor_fingerprint claim)) \<and>
                    ir_operation r = cl_operation claim \<and> ir_expires_at r \<le> db_now)) rows"

definition load_idempotency :: "string \<Rightarrow> string \<Rightarrow> string \<Rightarrow> idempotency_record list \<Rightarrow> idempotency_record option" where
  "load_idempotency key_hash actor_fingerprint operation rows =
     find (\<lambda>r. ir_key_hash r = key_hash \<and> ir_actor_fingerprint r = actor_fingerprint \<and> ir_operation r = operation) rows"

fun load_first ::
    "(db_call \<Rightarrow> app_error option) \<Rightarrow> string \<Rightarrow> (string \<times> string) list \<Rightarrow> idempotency_record list
      \<Rightarrow> app_error + idempotency_record option" where
  "load_first fails operation [] rows = Ok None"
| "load_first fails operation ((fingerprint, key_hash) # probes) rows =
     (case fails (CallLoad key_hash fingerprint) of
        Some e \<Rightarrow> Err e
      | None \<Rightarrow>
          (case load_idempotency key_hash fingerprint operation rows of
             Some r \<Rightarrow> Ok (Some r)
           | None \<Rightarrow> load_first fails operation probes rows))"

definition claim_probes :: "admin_idempotency_claim \<Rightarrow> (string \<times> string) list" where
  "claim_probes claim =
     concat (map (\<lambda>fp. map (\<lambda>k. (fp, k)) (opt_cons (cl_key_hash claim) (cl_legacy_key_hash claim)))
       (opt_cons (cl_actor_fingerprint claim) (cl_legacy_actor_fingerprint claim)))"

definition claimed_row :: "admin_idempotency_claim \<Rightarrow> idempotency_record" where
  "claimed_row claim =
     \<lparr>ir_id = cl_record_id claim, ir_key_hash = cl_key_hash claim, ir_actor_fingerprint = cl_actor_fingerprint claim,
      ir_operation = cl_operation claim, ir_request_hash = cl_request_hash claim, ir_response_status = None,
      ir_response_body = None, ir_resource_id = None, ir_expires_at = cl_expires_at claim\<rparr>"

definition claim_idempotency ::
    "admin_env \<Rightarrow> admin_idempotency_claim \<Rightarrow> idempotency_record list
      \<Rightarrow> app_error + claim_outcome \<times> idempotency_record list" where
  "claim_idempotency env claim rows =
     (case ae_fails env CallLock of
        Some e \<Rightarrow> Err e
      | None \<Rightarrow>
          if \<not> lock_loop (ae_lock env) then Err idempotency_in_progress
          else case ae_fails env CallSweep of
            Some e \<Rightarrow> Err e
          | None \<Rightarrow>
              let rows1 = sweep_expired (ae_db_now env) claim rows in
              case load_first (ae_fails env) (cl_operation claim) (claim_probes claim) rows1 of
                Err e \<Rightarrow> Err e
              | Ok (Some record) \<Rightarrow> Ok (Existing record, rows1)
              | Ok None \<Rightarrow>
                  (case ae_fails env CallInsert of
                     Some e \<Rightarrow> Err e
                   | None \<Rightarrow> Ok (Acquired, rows1 @ [claimed_row claim])))"

definition finalize_idempotency ::
    "admin_env \<Rightarrow> uuid \<Rightarrow> int \<Rightarrow> json \<Rightarrow> string option \<Rightarrow> idempotency_record list
      \<Rightarrow> app_error + idempotency_record list" where
  "finalize_idempotency env record_id status body resource_id rows =
     (case ae_fails env CallFinalize of
        Some e \<Rightarrow> Err e
      | None \<Rightarrow>
          let hit = (\<lambda>r. ir_id r = record_id \<and> ir_response_status r = None \<and> ir_response_body r = None) in
          if length (filter hit rows) \<noteq> 1 then Err (Internal ''idempotency claim could not be finalized'')
          else Ok (map (\<lambda>r. if hit r then r\<lparr>ir_response_status := Some status, ir_response_body := Some body,
                                            ir_resource_id := resource_id\<rparr> else r) rows))"

section \<open>Running a command\<close>

definition verify_stored_request_hash ::
    "crypto \<Rightarrow> idempotency_hasher \<Rightarrow> bool \<Rightarrow> string \<Rightarrow> string \<Rightarrow> app_error + unit" where
  "verify_stored_request_hash cr h accept_legacy_hashes bytes stored =
     (let is_legacy_format = (CHR '':'' \<notin> set stored);
          matches = ((accept_legacy_hashes \<or> \<not> is_legacy_format) \<and> hasher_verify cr h bytes stored)
      in if matches then Ok ()
         else Err (conflict ''idempotency_conflict'' ''same Idempotency-Key was used with a different request''))"

definition http_status :: "16 word \<Rightarrow> app_error + nat" where
  "http_status status =
     (if 100 \<le> unat status \<and> unat status < 1000 then Ok (unat status)
      else Err (Internal (''invalid idempotent response status '' @ show_nat (unat status))))"

definition u16_of_i32 :: "int \<Rightarrow> 16 word option" where
  "u16_of_i32 n = (if 0 \<le> n \<and> n < 65536 then Some (word_of_int n) else None)"

definition replayed_outcome :: "'r \<Rightarrow> 16 word \<Rightarrow> idempotency_record \<Rightarrow> 'r admin_command_outcome" where
  "replayed_outcome response status record =
     \<lparr>ao_response = response, ao_status = status, ao_resource_id = ir_resource_id record, ao_replayed = True\<rparr>"

definition replay_record :: "'r serde \<Rightarrow> idempotency_record \<Rightarrow> app_error + 'r admin_command_outcome" where
  "replay_record sd record =
     (case Option.bind (ir_response_status record) u16_of_i32 of
        None \<Rightarrow> Err (Internal ''idempotent response is missing its status'')
      | Some status \<Rightarrow>
          (case ir_response_body record of
             None \<Rightarrow> Err (Internal ''idempotent response is missing its body'')
           | Some response_body \<Rightarrow>
               (case sd_replay_from_value sd response_body of
                  Ok (ReplaySuccess body) \<Rightarrow>
                    and_then (map_err (\<lambda>e. Internal (''decode idempotent success response: '' @ e)) (sd_from_value sd body))
                      (\<lambda>response. Ok (replayed_outcome response status record))
                | Ok (ReplayFailure e) \<Rightarrow>
                    and_then (http_status status) (\<lambda>st.
                      Err (Replayed \<lparr>re_status = st, re_code = se_code e, re_message_key = se_message_key e,
                                     re_message = se_message e, re_message_args = se_message_args e, re_details = se_details e\<rparr>))
                | Err _ \<Rightarrow>
                    and_then (map_err (\<lambda>e. Internal (''decode legacy idempotent response: '' @ e)) (sd_from_value sd response_body))
                      (\<lambda>response. Ok (replayed_outcome response status record)))))"

type_synonym 'db admin_state = "idempotency_record list \<times> 'db"
type_synonym ('r, 'db) admin_mutation = "'db \<Rightarrow> (app_error + 'r admin_command_mutation) \<times> 'db"

definition commit :: "admin_env \<Rightarrow> 'db admin_state \<Rightarrow> 'db admin_state \<Rightarrow> app_error + 'a \<Rightarrow> (app_error + 'a) \<times> 'db admin_state" where
  "commit env before after answer =
     (case ae_fails env CallCommit of
        Some e \<Rightarrow> (Err e, if ae_commit_applied env then after else before)
      | None \<Rightarrow> (answer, after))"

definition stored_error :: "app_error \<Rightarrow> stored_admin_error" where
  "stored_error e =
     (let d = error_detail_of [] e (Some []) in
      \<lparr>se_code = ed_code d, se_message_key = ed_message_key d, se_message = ed_message d,
       se_message_args = ed_message_args d, se_details = ed_details d\<rparr>)"

definition finish_success ::
    "'r serde \<Rightarrow> admin_env \<Rightarrow> admin_idempotency_claim option \<Rightarrow> 'r admin_command_mutation
      \<Rightarrow> 'db admin_state \<Rightarrow> 'db admin_state \<Rightarrow> (app_error + 'r admin_command_outcome) \<times> 'db admin_state" where
  "finish_success sd env claim result before now =
     (case ae_fails env CallRelease of
        Some e \<Rightarrow> (Err e, before)
      | None \<Rightarrow>
          let answer = Ok \<lparr>ao_response = am_client_response result, ao_status = am_status result,
                           ao_resource_id = am_resource_id result, ao_replayed = False\<rparr> in
          (case claim of
             None \<Rightarrow> commit env before now answer
           | Some c \<Rightarrow>
               (case sd_replay_to_value sd (ReplaySuccess (am_replay_response result)) of
                  Err e \<Rightarrow> (Err (Internal (''encode idempotent success: '' @ e)), before)
                | Ok replay \<Rightarrow>
                    (case finalize_idempotency env (cl_record_id c) (uint (am_status result)) replay (am_resource_id result) (fst now) of
                       Err e \<Rightarrow> (Err e, before)
                     | Ok rows \<Rightarrow> commit env before (rows, snd now) answer))))"

definition finish_cached_failure ::
    "'r serde \<Rightarrow> admin_env \<Rightarrow> admin_idempotency_claim \<Rightarrow> app_error
      \<Rightarrow> 'db admin_state \<Rightarrow> 'db admin_state \<Rightarrow> (app_error + 'r admin_command_outcome) \<times> 'db admin_state" where
  "finish_cached_failure sd env c error before savepoint =
     (case ae_fails env CallRollbackTo of
        Some e \<Rightarrow> (Err e, before)
      | None \<Rightarrow>
          (case sd_replay_to_value sd (ReplayFailure (stored_error error)) of
             Err e \<Rightarrow> (Err (Internal (''encode idempotent failure: '' @ e)), before)
           | Ok replay \<Rightarrow>
               (case finalize_idempotency env (cl_record_id c) (int (app_error_status error)) replay None (fst savepoint) of
                  Err e \<Rightarrow> (Err e, before)
                | Ok rows \<Rightarrow> commit env before (rows, snd savepoint) (Err error))))"

definition run_mutation ::
    "'r serde \<Rightarrow> admin_env \<Rightarrow> admin_idempotency_claim option \<Rightarrow> ('r, 'db) admin_mutation
      \<Rightarrow> 'db admin_state \<Rightarrow> 'db admin_state \<Rightarrow> (app_error + 'r admin_command_outcome) \<times> 'db admin_state" where
  "run_mutation sd env claim mutation before savepoint =
     (case ae_fails env CallSavepoint of
        Some e \<Rightarrow> (Err e, before)
      | None \<Rightarrow>
          (case mutation (snd savepoint) of
             (Ok result, data) \<Rightarrow> finish_success sd env claim result before (fst savepoint, data)
           | (Err error, data) \<Rightarrow>
               (case claim of
                  Some c \<Rightarrow>
                    if is_cacheable_admin_failure error then finish_cached_failure sd env c error before savepoint
                    else (case ae_fails env CallRollback of Some e \<Rightarrow> (Err e, before) | None \<Rightarrow> (Err error, before))
                | None \<Rightarrow> (case ae_fails env CallRollback of Some e \<Rightarrow> (Err e, before) | None \<Rightarrow> (Err error, before)))))"

definition make_claim ::
    "crypto \<Rightarrow> admin_command_runner \<Rightarrow> admin_env \<Rightarrow> admin_command_spec \<Rightarrow> admin_command_idempotency \<Rightarrow> string
      \<Rightarrow> admin_idempotency_claim" where
  "make_claim cr ru env spec i bytes =
     \<lparr>cl_record_id = ae_record_id env,
      cl_key_hash = hasher_hash cr (ru_hasher ru) (ci_key i),
      cl_legacy_key_hash = (if ru_accept_legacy_hashes ru then Some (legacy_hash cr (ru_hasher ru) (ci_key i)) else None),
      cl_actor_fingerprint = hasher_hash cr (ru_hasher ru) (ci_actor_identity i),
      cl_legacy_actor_fingerprint = Some (legacy_hash cr (ru_hasher ru) (ci_actor_identity i)),
      cl_operation = cs_operation spec,
      cl_request_hash = hasher_hash cr (ru_hasher ru) bytes,
      cl_expires_at = ae_app_now env + hours IDEMPOTENCY_RETENTION_HOURS\<rparr>"

definition execute ::
    "'r serde \<Rightarrow> crypto \<Rightarrow> admin_command_runner \<Rightarrow> admin_env \<Rightarrow> admin_command_spec \<Rightarrow> ('r, 'db) admin_mutation
      \<Rightarrow> 'db admin_state \<Rightarrow> (app_error + 'r admin_command_outcome) \<times> 'db admin_state" where
  "execute sd cr ru env spec mutation st =
     (case ae_fails env CallBegin of
        Some e \<Rightarrow> (Err e, st)
      | None \<Rightarrow>
          (case cs_idempotency spec of
             None \<Rightarrow> run_mutation sd env None mutation st st
           | Some i \<Rightarrow>
               (case envelope_bytes sd spec of
                  Err e \<Rightarrow> (Err e, st)
                | Ok bytes \<Rightarrow>
                    let claim = make_claim cr ru env spec i bytes in
                    (case claim_idempotency env claim (fst st) of
                       Err e \<Rightarrow> (Err e, st)
                     | Ok (Existing record, rows) \<Rightarrow>
                         (case verify_stored_request_hash cr (ru_hasher ru) (ru_accept_legacy_hashes ru) bytes (ir_request_hash record) of
                            Err e \<Rightarrow> (Err e, st)
                          | Ok _ \<Rightarrow>
                              if ir_response_status record = None \<or> ir_response_body record = None
                              then (Err idempotency_in_progress, st)
                              else commit env st (rows, snd st) (replay_record sd record))
                     | Ok (Acquired, rows) \<Rightarrow> run_mutation sd env (Some claim) mutation st (rows, snd st)))))"

section \<open>One effect per key and retention period\<close>

text \<open>The place of a row in the unique index.\<close>

definition ir_point :: "idempotency_record \<Rightarrow> string \<times> string \<times> string" where
  "ir_point r = (ir_key_hash r, ir_actor_fingerprint r, ir_operation r)"

definition cl_point :: "admin_idempotency_claim \<Rightarrow> string \<times> string \<times> string" where
  "cl_point c = (cl_key_hash c, cl_actor_fingerprint c, cl_operation c)"

definition ir_slot :: "idempotency_record \<Rightarrow> (string \<times> string \<times> string) \<times> int" where
  "ir_slot r = (ir_point r, ir_expires_at r)"

text \<open>Rows that have not expired stay, at their place and with their expiry.\<close>

definition kept :: "int \<Rightarrow> idempotency_record list \<Rightarrow> idempotency_record list \<Rightarrow> bool" where
  "kept now rows rows' \<longleftrightarrow> (\<forall>r \<in> set rows. now < ir_expires_at r \<longrightarrow> ir_slot r \<in> ir_slot ` set rows')"

lemma kept_refl [simp]: "kept now rows rows"
  by (auto simp: kept_def)

lemma kept_sweep [simp]: "kept now rows (sweep_expired now c rows)"
  by (auto simp: kept_def sweep_expired_def)

lemma kept_append: "kept now rows rows' \<Longrightarrow> kept now rows (rows' @ xs)"
  by (auto simp: kept_def)

lemma finalize_slots:
  assumes "finalize_idempotency env i status body res rows = Ok rows'"
  shows "ir_slot ` set rows' = ir_slot ` set rows"
proof -
  have "map ir_slot rows' = map ir_slot rows"
    using assms by (auto simp: finalize_idempotency_def ir_slot_def ir_point_def Let_def split: option.splits if_splits)
  then show ?thesis by (metis list.set_map)
qed

lemma load_first_None:
  "load_first fails operation probes rows = Ok None \<Longrightarrow> (fp, k) \<in> set probes \<Longrightarrow> load_idempotency k fp operation rows = None"
  by (induction fails operation probes rows rule: load_first.induct) (auto split: option.splits)

lemma own_probe: "(cl_actor_fingerprint c, cl_key_hash c) \<in> set (claim_probes c)"
  by (auto simp: claim_probes_def opt_cons_def)

lemma claim_acquired:
  assumes "claim_idempotency env c rows = Ok (Acquired, rows')"
  shows "rows' = sweep_expired (ae_db_now env) c rows @ [claimed_row c]"
    and "r \<in> set rows \<Longrightarrow> ir_point r = cl_point c \<Longrightarrow> ir_expires_at r \<le> ae_db_now env"
proof -
  let ?rows = "sweep_expired (ae_db_now env) c rows"
  have none: "load_first (ae_fails env) (cl_operation c) (claim_probes c) ?rows = Ok None"
    and rows': "rows' = ?rows @ [claimed_row c]"
    using assms by (auto simp: claim_idempotency_def Let_def split: option.splits if_splits sum.splits)
  show "rows' = ?rows @ [claimed_row c]" by (rule rows')
  show "ir_expires_at r \<le> ae_db_now env" if "r \<in> set rows" "ir_point r = cl_point c"
  proof (rule ccontr)
    assume "\<not> ?thesis"
    then have "r \<in> set ?rows" using that(1) by (simp add: sweep_expired_def)
    with load_first_None [OF none own_probe] that(2) show False
      by (auto simp: load_idempotency_def find_None_iff ir_point_def cl_point_def)
  qed
qed

lemma claim_existing:
  assumes "claim_idempotency env c rows = Ok (Existing r, rows')"
  shows "rows' = sweep_expired (ae_db_now env) c rows"
  using assms by (auto simp: claim_idempotency_def Let_def split: option.splits if_splits sum.splits)

text \<open>
  What a command does to the state: the data stays, or it is what the mutation made of it and then an
  idempotent command found no unexpired row at its place and left one there.
\<close>

definition command_effect ::
    "crypto \<Rightarrow> admin_command_runner \<Rightarrow> admin_env \<Rightarrow> admin_command_spec \<Rightarrow> ('r, 'db) admin_mutation
      \<Rightarrow> 'db admin_state \<Rightarrow> 'db admin_state \<Rightarrow> bool" where
  "command_effect cr ru env spec mutation st st' \<longleftrightarrow> kept (ae_db_now env) (fst st) (fst st') \<and>
     (snd st' = snd st \<or>
      (\<exists>result. mutation (snd st) = (Ok result, snd st')) \<and>
      (\<forall>i. cs_idempotency spec = Some i \<longrightarrow>
         (\<exists>bytes. let c = make_claim cr ru env spec i bytes in
            (\<forall>r \<in> set (fst st). ir_point r = cl_point c \<longrightarrow> ir_expires_at r \<le> ae_db_now env) \<and>
            (cl_point c, cl_expires_at c) \<in> ir_slot ` set (fst st'))))"

lemma commit_cases:
  "commit env before after answer = (a, st) \<Longrightarrow> st = before \<or> st = after"
  by (auto simp: commit_def split: option.splits if_splits)

lemma run_mutation_cases:
  assumes "run_mutation sd env claim mutation before savepoint = (a, st)"
  shows "st = before \<or>
    (snd st = snd savepoint \<or> (\<exists>result. mutation (snd savepoint) = (Ok result, snd st))) \<and>
    ir_slot ` set (fst st) = ir_slot ` set (fst savepoint)"
  using assms
  by (auto simp: run_mutation_def finish_success_def finish_cached_failure_def Let_def
      dest!: commit_cases finalize_slots split: option.splits if_splits sum.splits prod.splits)

lemma claimed_row_slot: "ir_slot (claimed_row c) = (cl_point c, cl_expires_at c)"
  by (simp add: ir_slot_def ir_point_def claimed_row_def cl_point_def)

lemma execute_effect:
  assumes "execute sd cr ru env spec mutation st = (a, st')"
  shows "command_effect cr ru env spec mutation st st'"
proof (cases "st' = st")
  case True
  then show ?thesis by (simp add: command_effect_def)
next
  case False
  show ?thesis
  proof (cases "cs_idempotency spec")
    case None
    with assms False have "run_mutation sd env None mutation st st = (a, st')"
      by (auto simp: execute_def split: option.splits)
    from run_mutation_cases [OF this] False None show ?thesis
      by (auto simp: command_effect_def kept_def)
  next
    case (Some i)
    then obtain bytes where bytes: "envelope_bytes sd spec = Ok bytes"
      using assms False by (auto simp: execute_def split: option.splits sum.splits)
    define c where "c = make_claim cr ru env spec i bytes"
    from assms False Some bytes consider
        (existing) r rows where "claim_idempotency env c (fst st) = Ok (Existing r, rows)" "st' = (rows, snd st)"
      | (acquired) rows where "claim_idempotency env c (fst st) = Ok (Acquired, rows)"
          "run_mutation sd env (Some c) mutation st (rows, snd st) = (a, st')"
      by (auto simp: execute_def Let_def c_def dest!: commit_cases split: option.splits sum.splits claim_outcome.splits if_splits)
    then show ?thesis
    proof cases
      case existing
      then show ?thesis using claim_existing [OF existing(1)] by (simp add: command_effect_def)
    next
      case acquired
      note rows = claim_acquired [OF acquired(1)]
      from run_mutation_cases [OF acquired(2)] False
      have slots: "ir_slot ` set (fst st') = ir_slot ` set rows"
        and data: "snd st' = snd st \<or> (\<exists>result. mutation (snd st) = (Ok result, snd st'))" by auto
      have "kept (ae_db_now env) (fst st) rows"
        unfolding rows(1) by (rule kept_append) simp
      then have "kept (ae_db_now env) (fst st) (fst st')"
        unfolding kept_def slots .
      moreover have "(cl_point c, cl_expires_at c) \<in> ir_slot ` set (fst st')"
        unfolding slots rows(1) using claimed_row_slot [of c] by force
      ultimately have "\<forall>j. cs_idempotency spec = Some j \<longrightarrow>
         (\<exists>bytes. let c = make_claim cr ru env spec j bytes in
            (\<forall>r \<in> set (fst st). ir_point r = cl_point c \<longrightarrow> ir_expires_at r \<le> ae_db_now env) \<and>
            (cl_point c, cl_expires_at c) \<in> ir_slot ` set (fst st'))"
        using rows(2) Some unfolding c_def Let_def by auto
      with \<open>kept (ae_db_now env) (fst st) (fst st')\<close> data show ?thesis
        unfolding command_effect_def by simp
    qed
  qed
qed

text \<open>
  A run of commands. To see which mutations took effect, each is given a tag, and the data
  carries the tags of the mutations whose result was committed. The tag of a command is its origin (the
  idempotency key, the actor and the operation as the caller gave them, and the hasher, pepper and version, of the
  process that ran it), the database clock it read and the expiry of its claim.
\<close>

type_synonym command_origin = "idempotency_hasher \<times> string \<times> string \<times> string"
type_synonym effect_tag = "command_origin \<times> int \<times> int"

definition origin_point :: "crypto \<Rightarrow> command_origin \<Rightarrow> string \<times> string \<times> string" where
  "origin_point cr p = (case p of (h, key, actor, operation) \<Rightarrow> (hasher_hash cr h key, hasher_hash cr h actor, operation))"

definition command_tag :: "admin_command_runner \<Rightarrow> admin_env \<Rightarrow> admin_command_spec \<Rightarrow> effect_tag option" where
  "command_tag ru env spec =
     map_option (\<lambda>i. ((ru_hasher ru, ci_key i, ci_actor_identity i, cs_operation spec), ae_db_now env,
       ae_app_now env + hours IDEMPOTENCY_RETENTION_HOURS)) (cs_idempotency spec)"

definition tagged :: "'t \<Rightarrow> ('r, 'db) admin_mutation \<Rightarrow> ('r, 'db \<times> 't list) admin_mutation" where
  "tagged t m dl = (case m (fst dl) of (r, d') \<Rightarrow> (r, (d', snd dl @ [t])))"

lemma tagged_snd: "tagged t m d = (r, d') \<Longrightarrow> snd d' = snd d @ [t]"
  by (auto simp: tagged_def split: prod.splits)

type_synonym ('r, 'db) admin_step = "admin_command_runner \<times> admin_env \<times> admin_command_spec \<times> ('r, 'db) admin_mutation"

fun run_commands ::
    "'r serde \<Rightarrow> crypto \<Rightarrow> ('r, 'db) admin_step list \<Rightarrow> ('db \<times> effect_tag option list) admin_state
      \<Rightarrow> ('db \<times> effect_tag option list) admin_state" where
  "run_commands sd cr [] st = st"
| "run_commands sd cr ((ru, env, spec, m) # steps) st =
     run_commands sd cr steps (snd (execute sd cr ru env spec (tagged (command_tag ru env spec) m) st))"

definition step_now :: "('r, 'db) admin_step \<Rightarrow> int" where
  "step_now s = (case s of (_, env, _, _) \<Rightarrow> ae_db_now env)"

text \<open>
  Two effects of the same origin are apart if the claim of the first had expired when the second read the
  clock. The database clock of a command is the start of its transaction, which may have waited for the lock: a later
  command may read an earlier time, by \<open>\<delta>\<close> at most.
\<close>

definition apart :: "int \<Rightarrow> effect_tag option \<Rightarrow> effect_tag option \<Rightarrow> bool" where
  "apart \<delta> a b \<longleftrightarrow> (\<forall>p t e t' e'. a = Some (p, t, e) \<and> b = Some (p, t', e') \<longrightarrow> e \<le> t' + \<delta>)"

definition ledger_inv :: "crypto \<Rightarrow> int \<Rightarrow> int set \<Rightarrow> ('db \<times> effect_tag option list) admin_state \<Rightarrow> bool" where
  "ledger_inv cr \<delta> past st \<longleftrightarrow> sorted_wrt (apart \<delta>) (snd (snd st)) \<and>
     (\<forall>p t e. Some (p, t, e) \<in> set (snd (snd st)) \<longrightarrow> (\<exists>n \<in> past. e \<le> n) \<or> (origin_point cr p, e) \<in> ir_slot ` set (fst st))"

lemma claim_point_origin:
  "cl_point (make_claim cr ru env spec i bytes) = origin_point cr (ru_hasher ru, ci_key i, ci_actor_identity i, cs_operation spec)"
  "cl_expires_at (make_claim cr ru env spec i bytes) = ae_app_now env + hours IDEMPOTENCY_RETENTION_HOURS"
  by (simp_all add: make_claim_def cl_point_def origin_point_def)

lemma kept_slot: "kept now rows rows' \<Longrightarrow> (p, e) \<in> ir_slot ` set rows \<Longrightarrow> now < e \<Longrightarrow> (p, e) \<in> ir_slot ` set rows'"
  by (auto simp: kept_def ir_slot_def)

lemma execute_ledger_inv:
  assumes "ledger_inv cr \<delta> past st" "\<And>n. n \<in> past \<Longrightarrow> n \<le> ae_db_now env + \<delta>" "0 \<le> \<delta>"
    and "execute sd cr ru env spec (tagged (command_tag ru env spec) m) st = (a, st')"
  shows "ledger_inv cr \<delta> (insert (ae_db_now env) past) st'"
proof -
  let ?t = "command_tag ru env spec"
  note eff = execute_effect [OF assms(4), unfolded command_effect_def]
  then have kept: "kept (ae_db_now env) (fst st) (fst st')" by simp
  have old: "(\<exists>n \<in> insert (ae_db_now env) past. e \<le> n) \<or> (origin_point cr p, e) \<in> ir_slot ` set (fst st')"
    if "Some (p, t, e) \<in> set (snd (snd st))" for p t e
  proof -
    from assms(1) that have "(\<exists>n \<in> past. e \<le> n) \<or> (origin_point cr p, e) \<in> ir_slot ` set (fst st)" unfolding ledger_inv_def by blast
    with kept_slot [OF kept, of "origin_point cr p" e] show ?thesis by (cases "e \<le> ae_db_now env") auto
  qed
  from eff consider (same) "snd st' = snd st"
    | (applied) "snd (snd st') = snd (snd st) @ [?t]"
        "\<And>i. cs_idempotency spec = Some i \<Longrightarrow>
         (\<exists>bytes. let c = make_claim cr ru env spec i bytes in
            (\<forall>r \<in> set (fst st). ir_point r = cl_point c \<longrightarrow> ir_expires_at r \<le> ae_db_now env) \<and>
            (cl_point c, cl_expires_at c) \<in> ir_slot ` set (fst st'))"
    using tagged_snd by metis
  then show ?thesis
  proof cases
    case same
    then show ?thesis using assms(1) old unfolding ledger_inv_def by simp
  next
    case applied
    have new: "(origin_point cr p, e) \<in> ir_slot ` set (fst st')" "t = ae_db_now env"
      "(origin_point cr p, e') \<in> ir_slot ` set (fst st) \<Longrightarrow> e' \<le> ae_db_now env" if tag: "?t = Some (p, t, e)" for p t e e'
    proof -
      obtain i where i: "cs_idempotency spec = Some i" using tag by (auto simp: command_tag_def)
      have pe: "p = (ru_hasher ru, ci_key i, ci_actor_identity i, cs_operation spec)"
        "e = ae_app_now env + hours IDEMPOTENCY_RETENTION_HOURS" "t = ae_db_now env"
        using tag i by (simp_all add: command_tag_def)
      from applied(2) [OF i] have
        b: "\<forall>r \<in> set (fst st). ir_point r = origin_point cr p \<longrightarrow> ir_expires_at r \<le> ae_db_now env"
          "(origin_point cr p, e) \<in> ir_slot ` set (fst st')"
        unfolding Let_def claim_point_origin pe(1,2) by blast+
      show "(origin_point cr p, e) \<in> ir_slot ` set (fst st')" by (rule b(2))
      show "t = ae_db_now env" by (rule pe(3))
      show "e' \<le> ae_db_now env" if "(origin_point cr p, e') \<in> ir_slot ` set (fst st)"
        using that b(1) by (auto simp: ir_slot_def)
    qed
    have "apart \<delta> x ?t" if "x \<in> set (snd (snd st))" for x
      unfolding apart_def
    proof (intro allI impI, elim conjE)
      fix p t e t' e'
      assume x: "x = Some (p, t, e)" and tag: "?t = Some (p, t', e')"
      from assms(1) that x have "(\<exists>n \<in> past. e \<le> n) \<or> (origin_point cr p, e) \<in> ir_slot ` set (fst st)" unfolding ledger_inv_def by blast
      with new(2,3) [OF tag] assms(2,3) show "e \<le> t' + \<delta>" by force
    qed
    moreover have "(\<exists>n \<in> insert (ae_db_now env) past. e \<le> n) \<or> (origin_point cr p, e) \<in> ir_slot ` set (fst st')" if "Some (p, t, e) \<in> set (snd (snd st'))" for p t e
      using that old [of p t e] new(1) [of p t e] by (auto simp: applied(1))
    ultimately show ?thesis
      using assms(1) by (simp add: ledger_inv_def sorted_wrt_append applied(1))
  qed
qed

lemma run_commands_ledger_inv:
  assumes "ledger_inv cr \<delta> past st" "sorted_wrt (\<lambda>a b. a \<le> b + \<delta>) (map step_now steps)" "0 \<le> \<delta>"
    and "\<And>n s. n \<in> past \<Longrightarrow> s \<in> set steps \<Longrightarrow> n \<le> step_now s + \<delta>"
  shows "\<exists>past'. ledger_inv cr \<delta> past' (run_commands sd cr steps st)"
  using assms
proof (induction sd cr steps st arbitrary: past rule: run_commands.induct)
  case (2 sd cr ru env spec m steps st)
  let ?ex = "execute sd cr ru env spec (tagged (command_tag ru env spec) m) st"
  have "ledger_inv cr \<delta> (insert (ae_db_now env) past) (snd ?ex)"
  proof (rule execute_ledger_inv [OF 2(2) _ 2(4)])
    show "n \<le> ae_db_now env + \<delta>" if "n \<in> past" for n
      using 2(5) [OF that, of "(ru, env, spec, m)"] by (simp add: step_now_def)
  qed (rule prod.collapse [symmetric])
  moreover have "n \<le> step_now s + \<delta>" if "n \<in> insert (ae_db_now env) past" "s \<in> set steps" for n s
  proof (cases "n \<in> past")
    case True
    then show ?thesis using 2(5) that(2) by simp
  next
    case False
    then have "n = step_now (ru, env, spec, m)" using that(1) by (simp add: step_now_def)
    then show ?thesis using 2(3) that(2) by simp
  qed
  ultimately show ?case using 2(1) [of "insert (ae_db_now env) past"] 2(3,4) by auto
qed auto

section \<open>Replay\<close>

definition fault_free :: "admin_env \<Rightarrow> bool" where
  "fault_free env \<longleftrightarrow> ae_fails env = (\<lambda>_. None) \<and> lock_loop (ae_lock env)"

text \<open>The answer a command stored, as a later call with the same key sees it.\<close>

definition replay_of :: "'r serde \<Rightarrow> app_error + 'r admin_command_mutation \<Rightarrow> app_error + 'r admin_command_outcome" where
  "replay_of sd res =
     (case res of
        Ok r \<Rightarrow>
          and_then (map_err (\<lambda>e. Internal (''decode idempotent success response: '' @ e)) (sd_from_value sd (am_replay_response r)))
            (\<lambda>response. Ok \<lparr>ao_response = response, ao_status = am_status r, ao_resource_id = am_resource_id r, ao_replayed = True\<rparr>)
      | Err e \<Rightarrow>
          (let d = error_detail_of [] e (Some []) in
           Err (Replayed \<lparr>re_status = app_error_status e, re_code = ed_code d, re_message_key = ed_message_key d,
             re_message = ed_message d, re_message_args = ed_message_args d,
             re_details = (if ed_details d = Some JNull then None else ed_details d)\<rparr>)))"

definition stored_row :: "admin_idempotency_claim \<Rightarrow> int \<Rightarrow> json \<Rightarrow> string option \<Rightarrow> idempotency_record" where
  "stored_row c status body res =
     (claimed_row c)\<lparr>ir_response_status := Some status, ir_response_body := Some body, ir_resource_id := res\<rparr>"

lemma finalize_claimed:
  assumes "fault_free env" "cl_record_id c \<notin> ir_id ` set rows"
  shows "finalize_idempotency env (cl_record_id c) status body res (rows @ [claimed_row c]) = Ok (rows @ [stored_row c status body res])"
proof -
  have none: "ir_id r \<noteq> cl_record_id c" if "r \<in> set rows" for r using that assms(2) by (metis imageI)
  then have "filter (\<lambda>r. ir_id r = cl_record_id c \<and> ir_response_status r = None \<and> ir_response_body r = None) rows = []"
    by (auto simp: filter_empty_conv)
  moreover have "map (\<lambda>r. if ir_id r = cl_record_id c \<and> ir_response_status r = None \<and> ir_response_body r = None
      then r\<lparr>ir_response_status := Some status, ir_response_body := Some body, ir_resource_id := res\<rparr> else r) rows = rows"
    by (rule map_idI) (use none in auto)
  ultimately show ?thesis
    using assms(1) by (simp add: finalize_idempotency_def fault_free_def claimed_row_def stored_row_def)
qed

lemma uint16_range: "0 \<le> uint (w :: 16 word) \<and> uint w < 65536"
  using uint_bounded [of w] by simp

lemma replay_stored_success:
  assumes "sd_replay_from_value sd body = Ok (ReplaySuccess (am_replay_response r))"
  shows "replay_record sd (stored_row c (uint (am_status r)) body (am_resource_id r)) = replay_of sd (Ok r)"
  using assms uint16_range [of "am_status r"]
  by (simp add: replay_record_def stored_row_def u16_of_i32_def replay_of_def replayed_outcome_def)

lemma cacheable_status: "is_cacheable_admin_failure e \<Longrightarrow> app_error_status e \<in> {400, 404, 409, 422}"
  by (simp add: is_cacheable_admin_failure_def)

lemma replay_stored_failure:
  assumes "sd_replay_from_value sd body = Ok (read_back (ReplayFailure (stored_error e)))" "is_cacheable_admin_failure e"
  shows "replay_record sd (stored_row c (int (app_error_status e)) body None) = replay_of sd (Err e)"
proof -
  have u: "u16_of_i32 (int (app_error_status e)) = Some (of_nat (app_error_status e))" "unat (of_nat (app_error_status e) :: 16 word) = app_error_status e"
    "100 \<le> app_error_status e" "app_error_status e < 1000"
    using cacheable_status [OF assms(2)] by (auto simp: u16_of_i32_def)
  show ?thesis
    using assms(1) u
    by (simp add: replay_record_def stored_row_def replay_of_def stored_error_def Let_def http_status_def and_then_def)
qed

lemma sweep_ids: "x \<notin> ir_id ` set rows \<Longrightarrow> x \<notin> ir_id ` set (sweep_expired now c rows)"
  by (auto simp: sweep_expired_def)

text \<open>After a fault-free first run the ledger holds the row from which the answer is replayed.\<close>

lemma first_run_stores:
  assumes "serde_laws sd" "fault_free env" "cs_idempotency spec = Some i" "envelope_bytes sd spec = Ok bytes"
    and c: "c = make_claim cr ru env spec i bytes"
    and acquired: "claim_idempotency env c (fst st) = Ok (Acquired, rows)"
    and fresh: "ae_record_id env \<notin> ir_id ` set (fst st)"
    and cacheable: "\<And>e. fst (m (snd st)) = Err e \<Longrightarrow> is_cacheable_admin_failure e"
    and run: "execute sd cr ru env spec m st = (answer, st')"
  shows "\<exists>status body res. fst st' = sweep_expired (ae_db_now env) c (fst st) @ [stored_row c status body res] \<and>
    replay_record sd (stored_row c status body res) = replay_of sd (fst (m (snd st)))"
proof -
  let ?rows = "sweep_expired (ae_db_now env) c (fst st)"
  have rows: "rows = ?rows @ [claimed_row c]" by (rule claim_acquired(1) [OF acquired])
  have "cl_record_id c \<notin> ir_id ` set ?rows" using sweep_ids [OF fresh] by (simp add: c make_claim_def)
  note fin = finalize_claimed [OF assms(2) this]
  have ff: "ae_fails env = (\<lambda>_. None)" using assms(2) by (simp add: fault_free_def)
  have ex: "run_mutation sd env (Some c) m st (rows, snd st) = (answer, st')"
    using run acquired assms(3,4) c by (simp add: execute_def ff)
  obtain res d where md: "m (snd st) = (res, d)" by fastforce
  show ?thesis
  proof (cases res)
    case (Inr r)
    obtain v where v: "sd_replay_to_value sd (ReplaySuccess (am_replay_response r)) = Ok v"
      "sd_replay_from_value sd v = Ok (ReplaySuccess (am_replay_response r))"
      using assms(1) by (metis serde_laws_def read_back.simps(1))
    from ex have "fst st' = ?rows @ [stored_row c (uint (am_status r)) v (am_resource_id r)]"
      by (auto simp: run_mutation_def finish_success_def md Inr ff v(1) rows fin commit_def)
    with replay_stored_success [OF v(2)] show ?thesis by (auto simp: md Inr)
  next
    case (Inl e)
    then have ca: "is_cacheable_admin_failure e" using cacheable md by auto
    obtain v where v: "sd_replay_to_value sd (ReplayFailure (stored_error e)) = Ok v"
      "sd_replay_from_value sd v = Ok (read_back (ReplayFailure (stored_error e)))"
      using assms(1) by (metis serde_laws_def)
    from ex have "fst st' = ?rows @ [stored_row c (int (app_error_status e)) v None]"
      by (auto simp: run_mutation_def finish_cached_failure_def md Inl ff v(1) rows fin commit_def ca)
    with replay_stored_failure [OF v(2) ca] show ?thesis by (auto simp: md Inl)
  qed
qed

lemma find_unique: "filter P xs = [] \<Longrightarrow> P x \<Longrightarrow> find P (xs @ [x]) = Some x"
  by (induction xs) (auto split: if_splits)

lemma second_run_finds:
  assumes "fault_free env2" and c: "c = make_claim cr ru env spec i bytes" and c2: "c2 = make_claim cr ru2 env2 spec2 i bytes2"
    and same: "cs_operation spec2 = cs_operation spec" "ru_hasher ru2 = ru_hasher ru"
    and acquired: "claim_idempotency env c rows = Ok (Acquired, rows0)"
    and rows1: "rows1 = sweep_expired (ae_db_now env) c rows @ [stored_row c status body res]"
    and live: "ae_db_now env2 < cl_expires_at c"
  shows "\<exists>rows2. claim_idempotency env2 c2 rows1 = Ok (Existing (stored_row c status body res), rows2)"
proof -
  let ?old = "sweep_expired (ae_db_now env) c rows" and ?row = "stored_row c status body res"
  have pt: "ir_point ?row = cl_point c" by (simp add: stored_row_def claimed_row_def ir_point_def cl_point_def)
  have cp: "cl_point c2 = cl_point c" using same by (simp add: c c2 make_claim_def cl_point_def)
  have none: "ir_point r \<noteq> cl_point c" if "r \<in> set ?old" for r
  proof
    assume p: "ir_point r = cl_point c"
    have "r \<in> set rows" using that by (simp add: sweep_expired_def)
    from claim_acquired(2) [OF acquired this p] that p show False
      by (auto simp: sweep_expired_def ir_point_def cl_point_def opt_cons_def)
  qed
  have keep: "sweep_expired (ae_db_now env2) c2 rows1 = sweep_expired (ae_db_now env2) c2 ?old @ [?row]"
    using live by (simp add: rows1 sweep_expired_def stored_row_def claimed_row_def)
  have "load_idempotency (cl_key_hash c2) (cl_actor_fingerprint c2) (cl_operation c2) (sweep_expired (ae_db_now env2) c2 rows1) = Some ?row"
    unfolding keep load_idempotency_def
  proof (rule find_unique)
    show "filter (\<lambda>r. ir_key_hash r = cl_key_hash c2 \<and> ir_actor_fingerprint r = cl_actor_fingerprint c2 \<and> ir_operation r = cl_operation c2)
        (sweep_expired (ae_db_now env2) c2 ?old) = []"
    proof -
      have "r \<in> set ?old" if "r \<in> set (sweep_expired (ae_db_now env2) c2 ?old)" for r
        using that by (simp add: sweep_expired_def)
      then show ?thesis using none cp by (fastforce simp: filter_empty_conv ir_point_def cl_point_def)
    qed
    show "ir_key_hash ?row = cl_key_hash c2 \<and> ir_actor_fingerprint ?row = cl_actor_fingerprint c2 \<and> ir_operation ?row = cl_operation c2"
      using pt cp by (simp add: ir_point_def cl_point_def)
  qed
  then have "load_first (\<lambda>_. None) (cl_operation c2) (claim_probes c2) (sweep_expired (ae_db_now env2) c2 rows1) = Ok (Some ?row)"
    by (simp add: claim_probes_def opt_cons_def)
  then show ?thesis
    using assms(1) by (simp add: claim_idempotency_def fault_free_def Let_def)
qed

section \<open>Properties\<close>

text \<open>
  C4: However admin commands are sequenced, repeated and interrupted by database failures, including
  commits whose acknowledgement is lost, two mutations issued under the same idempotency key, actor and
  operation by processes with the same pepper and pepper version both take effect only if the second ran, by the
  database clock, after the retention period of 24 hours of the first had passed. The condition on the pepper is
  needed and documented: a rotation opens a window in which the ledger rows of the old pepper are not
  found (\<open>pepper_rotation_window\<close>). \<open>\<delta>\<close> bounds how far the clock a command reads may lie behind that of
  an earlier one, which is the time its transaction may wait for the lock.
\<close>
theorem admin_command_exactly_once:
  assumes "sorted_wrt (\<lambda>a b. a \<le> b + \<delta>) (map step_now steps)" "0 \<le> \<delta>"
  shows "sorted_wrt (apart \<delta>)
    (snd (snd (run_commands sd cr steps ([], (d, [])))))"
proof -
  obtain past where "ledger_inv cr \<delta> past (run_commands sd cr steps ([], (d, [])))"
    using run_commands_ledger_inv [of cr \<delta> "{}" "([], (d, []))" steps sd] assms by (auto simp: ledger_inv_def)
  then show ?thesis by (simp add: ledger_inv_def)
qed

text \<open>
  C16: Once a first command under a key has been answered, by success or by a failure of the kind that is
  stored, a second one under the same key, actor and operation within the retention period changes no data.
  If it carries the same request it gets the stored answer: the response, status and resource of the success
  marked as replayed, or the same status, code and message of the failure. Otherwise it gets
  \<open>idempotency_conflict\<close>.
\<close>
theorem admin_command_replays:
  assumes laws: "serde_laws sd" "crypto_laws cr" "version_ok (ru_hasher ru)"
    and ff: "fault_free env" "fault_free env2"
    and spec: "cs_idempotency spec = Some i" "envelope_bytes sd spec = Ok bytes"
    and spec2: "cs_idempotency spec2 = Some i" "cs_operation spec2 = cs_operation spec" "envelope_bytes sd spec2 = Ok bytes2"
    and acquired: "claim_idempotency env (make_claim cr ru env spec i bytes) (fst st) = Ok (Acquired, rows)"
    and fresh: "ae_record_id env \<notin> ir_id ` set (fst st)"
    and cacheable: "\<And>e. fst (m (snd st)) = Err e \<Longrightarrow> is_cacheable_admin_failure e"
    and run: "execute sd cr ru env spec m st = (answer, st1)"
    and run2: "execute sd cr ru env2 spec2 m2 st1 = (answer2, st2)"
    and live: "ae_db_now env2 < ae_app_now env + hours IDEMPOTENCY_RETENTION_HOURS"
  shows "snd st2 = snd st1 \<and>
    answer2 = (if hasher_mac cr (ru_hasher ru) bytes2 = hasher_mac cr (ru_hasher ru) bytes
               then replay_of sd (fst (m (snd st)))
               else Err (conflict ''idempotency_conflict'' ''same Idempotency-Key was used with a different request''))"
proof -
  define c where "c = make_claim cr ru env spec i bytes"
  from first_run_stores [OF laws(1) ff(1) spec c_def acquired [folded c_def] fresh cacheable run] obtain status body res where
    rows1: "fst st1 = sweep_expired (ae_db_now env) c (fst st) @ [stored_row c status body res]" and
    replay: "replay_record sd (stored_row c status body res) = replay_of sd (fst (m (snd st)))" by blast
  let ?row = "stored_row c status body res"
  have "ae_db_now env2 < cl_expires_at c" using live by (simp add: c_def make_claim_def)
  from second_run_finds [OF ff(2) c_def refl spec2(2) refl acquired [folded c_def] rows1 this] obtain rows2 where
    found: "claim_idempotency env2 (make_claim cr ru env2 spec2 i bytes2) (fst st1) = Ok (Existing ?row, rows2)" by blast
  have row: "ir_request_hash ?row = hasher_hash cr (ru_hasher ru) bytes" "ir_response_status ?row = Some status" "ir_response_body ?row = Some body"
    by (simp_all add: stored_row_def claimed_row_def c_def make_claim_def)
  have "CHR '':'' \<in> set (hasher_hash cr (ru_hasher ru) bytes)" by (simp add: hasher_hash_def VERSION_SEPARATOR_def)
  with verify_hash [OF laws(2,3), of bytes2 bytes] run2 found spec2(1,3) ff(2) show ?thesis
    by (auto simp: execute_def fault_free_def verify_stored_request_hash_def row replay commit_def Let_def split: if_splits)
qed

text \<open>A plain instance of the JSON library, for examples.\<close>

fun plain_replay :: "stored_admin_replay \<Rightarrow> json" where
  "plain_replay (ReplaySuccess body) = JObject [(''kind'', JString ''success''), (''body'', body)]"
| "plain_replay (ReplayFailure e) = JObject [(''kind'', JString ''failure''),
     (''error'', JObject [(''code'', JString (se_code e)), (''message_key'', JString (se_message_key e)), (''message'', JString (se_message e)),
       (''message_args'', se_message_args e), (''details'', (case se_details e of None \<Rightarrow> JNull | Some d \<Rightarrow> d))])]"

fun read_replay :: "json \<Rightarrow> string + stored_admin_replay" where
  "read_replay (JObject [(k, JString kind), (b, body)]) =
     (if kind = ''success'' then Ok (ReplaySuccess body)
      else case body of
        JObject [(_, JString code), (_, JString key), (_, JString msg), (_, args), (_, details)] \<Rightarrow>
          Ok (ReplayFailure \<lparr>se_code = code, se_message_key = key, se_message = msg, se_message_args = args,
                             se_details = (if details = JNull then None else Some details)\<rparr>)
      | _ \<Rightarrow> Err ''not a replay'')"
| "read_replay _ = Err ''not a replay''"

definition plain_serde :: "json serde" where
  "plain_serde = \<lparr>sd_to_vec = (\<lambda>v. Ok (if v = JNull then ''null'' else ''value'')), sd_to_value = Ok, sd_from_value = Ok,
     sd_replay_to_value = (\<lambda>r. Ok (plain_replay r)), sd_replay_from_value = read_replay\<rparr>"

lemma plain_serde_laws: "serde_laws plain_serde"
proof -
  have "read_replay (plain_replay r) = Ok (read_back r)" for r
    by (cases r) (auto split: option.splits)
  then show ?thesis by (simp add: serde_laws_def plain_serde_def)
qed

definition sample_runner :: admin_command_runner where
  "sample_runner = \<lparr>ru_hasher = \<lparr>ih_pepper = ''pepper'', ih_pepper_version = ''v1''\<rparr>, ru_accept_legacy_hashes = True\<rparr>"

definition sample_admin_env :: "uuid \<Rightarrow> int \<Rightarrow> admin_env" where
  "sample_admin_env i now = \<lparr>ae_fails = (\<lambda>_. None), ae_commit_applied = True, ae_lock = [(False, False), (True, False)],
     ae_record_id = i, ae_app_now = now, ae_db_now = now\<rparr>"

definition sample_spec :: admin_command_spec where
  "sample_spec = \<lparr>cs_operation = ''create'', cs_path = JNull, cs_request = JNull, cs_expected_version = None,
     cs_idempotency = Some \<lparr>ci_key = ''k'', ci_actor_identity = ''a''\<rparr>\<rparr>"

definition sample_mutation :: "(json, nat) admin_mutation" where
  "sample_mutation n = (Ok \<lparr>am_client_response = JNumber 7, am_replay_response = JNull, am_status = 201, am_resource_id = None\<rparr>, n + 1)"

theorem admin_command_replays_witness:
  "let (a1, st1) = execute plain_serde plain_crypto sample_runner (sample_admin_env 1 0) sample_spec sample_mutation ([], 0);
       (a2, st2) = execute plain_serde plain_crypto sample_runner (sample_admin_env 2 5) sample_spec sample_mutation st1
   in a2 = Ok \<lparr>ao_response = JNull, ao_status = 201, ao_resource_id = None, ao_replayed = True\<rparr> \<and> snd st2 = snd st1"
proof -
  obtain a1 st1 where e1: "execute plain_serde plain_crypto sample_runner (sample_admin_env 1 0) sample_spec sample_mutation ([], 0) = (a1, st1)"
    by (metis surj_pair)
  obtain a2 st2 where e2: "execute plain_serde plain_crypto sample_runner (sample_admin_env 2 5) sample_spec sample_mutation st1 = (a2, st2)"
    by (metis surj_pair)
  obtain bytes where bytes: "envelope_bytes plain_serde sample_spec = Ok bytes"
    by (auto simp: envelope_bytes_def plain_serde_def map_err_def)
  let ?i = "\<lparr>ci_key = ''k'', ci_actor_identity = ''a''\<rparr>"
  have spec: "cs_idempotency sample_spec = Some ?i" by (simp add: sample_spec_def)
  have acq: "claim_idempotency (sample_admin_env 1 0) (make_claim plain_crypto sample_runner (sample_admin_env 1 0) sample_spec ?i bytes) (fst ([], 0 :: nat))
      = Ok (Acquired, [claimed_row (make_claim plain_crypto sample_runner (sample_admin_env 1 0) sample_spec ?i bytes)])"
    by (simp add: claim_idempotency_def sample_admin_env_def sweep_expired_def claim_probes_def opt_cons_def make_claim_def load_idempotency_def sample_runner_def)
  have "snd st2 = snd st1 \<and> a2 = replay_of plain_serde (fst (sample_mutation 0))"
    using admin_command_replays [OF plain_serde_laws plain_crypto_laws _ _ _ spec bytes spec refl bytes acq _ _ e1 e2]
    by (simp add: version_ok_def sample_runner_def fault_free_def sample_admin_env_def sample_mutation_def hours_def IDEMPOTENCY_RETENTION_HOURS_def)
  moreover have "replay_of plain_serde (fst (sample_mutation 0)) =
      Ok \<lparr>ao_response = JNull, ao_status = 201, ao_resource_id = None, ao_replayed = True\<rparr>"
    by (simp add: replay_of_def plain_serde_def sample_mutation_def map_err_def and_then_def)
  ultimately show ?thesis by (simp add: e1 e2)
qed

theorem admin_command_exactly_once_witness:
  "sorted_wrt (apart 5000000000)
     (snd (snd (run_commands plain_serde plain_crypto
       [(sample_runner, sample_admin_env 1 0, sample_spec, sample_mutation),
        (sample_runner, sample_admin_env 2 5, sample_spec, sample_mutation),
        (sample_runner, sample_admin_env 3 (hours 25), sample_spec, sample_mutation)] ([], (0, [])))))"
  by (rule admin_command_exactly_once) (simp_all add: step_now_def sample_admin_env_def hours_def)

text \<open>
  Across a rotation of the pepper the same key, actor and operation takes effect a second time within the
  retention period, as \<open>src/src/security/idempotency.rs\<close> documents.
\<close>

lemma pepper_rotation_window:
  "fst (snd (run_commands plain_serde plain_crypto
     [(sample_runner, sample_admin_env 1 0, sample_spec, sample_mutation),
      (sample_runner\<lparr>ru_hasher := \<lparr>ih_pepper = ''other'', ih_pepper_version = ''v2''\<rparr>\<rparr>, sample_admin_env 2 5, sample_spec, sample_mutation)]
     ([], (0, [])))) = 2"
  by code_simp

end
