(* ===== verification/Pagination.thy ===== *)
theory Pagination
  imports Idempotency "HOL-Library.Product_Lexorder" "HOL-Library.Word"
begin

text \<open>
  Cursor pagination: the signed cursors of \<open>src/src/domain/pagination.rs\<close>, the keyset condition of
  \<open>src/src/infra/repositories/keyset.rs\<close>, and the page assembly of \<open>src/src/application/admin/shared.rs\<close>
  with its copies in \<open>conversation.rs\<close> and \<open>runtime_admin.rs\<close>.

  A point in time is the number of nanoseconds since the epoch; the range of times the date library
  represents is the argument \<open>in_range\<close>, on microseconds.
\<close>

section \<open>Bytes\<close>

fun to_be :: "nat \<Rightarrow> nat \<Rightarrow> string" where
  "to_be 0 v = []"
| "to_be (Suc n) v = char_of (v div 256 ^ n mod 256) # to_be n v"

definition from_be :: "string \<Rightarrow> nat" where
  "from_be bs = foldl (\<lambda>acc c. acc * 256 + of_char c) 0 bs"

definition i64_bytes :: "int \<Rightarrow> string" where
  "i64_bytes n = to_be 8 (unat (word_of_int n :: 64 word))"

definition i64_of_bytes :: "string \<Rightarrow> int" where
  "i64_of_bytes bs = sint (of_nat (from_be bs) :: 64 word)"

definition uuid_bytes :: "uuid \<Rightarrow> string" where
  "uuid_bytes i = to_be 16 (unat i)"

definition uuid_of_bytes :: "string \<Rightarrow> uuid" where
  "uuid_of_bytes bs = of_nat (from_be bs)"

lemma length_to_be [simp]: "length (to_be n v) = n"
  by (induction n) auto

lemma from_be_foldl: "foldl (\<lambda>acc c. acc * 256 + of_char c) a (to_be n v) = a * 256 ^ n + v mod (256 ^ n :: nat)"
proof (induction n arbitrary: a)
  case (Suc n)
  have "v mod 256 ^ Suc n = 256 ^ n * (v div 256 ^ n mod 256) + v mod 256 ^ n"
    by (simp add: mod_mult2_eq mult.commute [of 256])
  with Suc show ?case by (simp add: of_char_of algebra_simps)
qed simp

lemma from_be_to_be: "v < 256 ^ n \<Longrightarrow> from_be (to_be n v) = v"
  by (simp add: from_be_def from_be_foldl)

lemma i64_roundtrip: "- (2 ^ 63) \<le> n \<Longrightarrow> n < 2 ^ 63 \<Longrightarrow> i64_of_bytes (i64_bytes n) = n"
proof -
  assume n: "- (2 ^ 63) \<le> n" "n < 2 ^ 63"
  have "unat (word_of_int n :: 64 word) < 256 ^ 8" using unsigned_less [of "word_of_int n :: 64 word", where ?'a = nat] by simp
  then have "i64_of_bytes (i64_bytes n) = sint (word_of_int n :: 64 word)"
    by (simp add: i64_of_bytes_def i64_bytes_def from_be_to_be)
  also have "\<dots> = n" using n by (simp add: sint_sbintrunc' signed_take_bit_int_eq_self)
  finally show ?thesis .
qed

lemma uuid_roundtrip: "uuid_of_bytes (uuid_bytes i) = i"
proof -
  have "unat i < 256 ^ 16" using unsigned_less [of i, where ?'a = nat] by simp
  then show ?thesis by (simp add: uuid_of_bytes_def uuid_bytes_def from_be_to_be)
qed

section \<open>Cursors\<close>

definition CURSOR_TAG_KEY :: string where "CURSOR_TAG_KEY = ''moira.pagination.cursor.v1''"
definition CURSOR_FORMAT_VERSION :: char where "CURSOR_FORMAT_VERSION = CHR 0x01"
definition KIND_LIST :: char where "KIND_LIST = CHR 0x01"
definition KIND_SEQ :: char where "KIND_SEQ = CHR 0x02"
definition HEADER_LEN :: nat where "HEADER_LEN = 2"
definition LIST_BODY_LEN :: nat where "LIST_BODY_LEN = 24"
definition SEQ_BODY_LEN :: nat where "SEQ_BODY_LEN = 8"
definition TAG_LEN :: nat where "TAG_LEN = 16"
definition SCOPE_SEPARATOR :: char where "SCOPE_SEPARATOR = CHR 0xFF"
definition MAX_ENCODED_LEN :: nat where "MAX_ENCODED_LEN = 128"

lemmas cursor_consts = CURSOR_FORMAT_VERSION_def KIND_LIST_def KIND_SEQ_def HEADER_LEN_def LIST_BODY_LEN_def
  SEQ_BODY_LEN_def TAG_LEN_def MAX_ENCODED_LEN_def

definition invalid_cursor :: app_error where
  "invalid_cursor = coded 400 ''invalid_cursor'' ''The pagination cursor is invalid.''"

type_synonym cursor_scope = string

record list_cursor =
  lc_ts :: int
  lc_id :: uuid

definition cursor_mac :: "crypto \<Rightarrow> string \<Rightarrow> cursor_scope \<Rightarrow> string" where
  "cursor_mac cr signed_bytes scope = cr_hmac cr CURSOR_TAG_KEY (signed_bytes @ [SCOPE_SEPARATOR] @ scope)"

definition cursor_finish :: "crypto \<Rightarrow> string \<Rightarrow> cursor_scope \<Rightarrow> string" where
  "cursor_finish cr signed_bytes scope = cr_encode cr (signed_bytes @ take TAG_LEN (cursor_mac cr signed_bytes scope))"

definition verified_body :: "crypto \<Rightarrow> string \<Rightarrow> char \<Rightarrow> nat \<Rightarrow> cursor_scope \<Rightarrow> app_error + string" where
  "verified_body cr raw kind body_len scope =
     (if raw = [] \<or> MAX_ENCODED_LEN < length raw then Err invalid_cursor
      else case cr_decode cr raw of
        None \<Rightarrow> Err invalid_cursor
      | Some bytes \<Rightarrow>
          if length bytes \<noteq> HEADER_LEN + body_len + TAG_LEN then Err invalid_cursor
          else if bytes ! 0 \<noteq> CURSOR_FORMAT_VERSION \<or> bytes ! 1 \<noteq> kind then Err invalid_cursor
          else
            let signed_bytes = take (HEADER_LEN + body_len) bytes;
                tag = drop (HEADER_LEN + body_len) bytes
            in if take (length tag) (cursor_mac cr signed_bytes scope) \<noteq> tag then Err invalid_cursor
               else Ok (drop HEADER_LEN signed_bytes))"

definition timestamp_micros :: "int \<Rightarrow> int" where
  "timestamp_micros ts = ts div 1000"

definition ListCursor_encode :: "crypto \<Rightarrow> list_cursor \<Rightarrow> cursor_scope \<Rightarrow> string" where
  "ListCursor_encode cr c scope =
     cursor_finish cr ([CURSOR_FORMAT_VERSION, KIND_LIST] @ i64_bytes (timestamp_micros (lc_ts c)) @ uuid_bytes (lc_id c)) scope"

definition ListCursor_decode :: "crypto \<Rightarrow> (int \<Rightarrow> bool) \<Rightarrow> string \<Rightarrow> cursor_scope \<Rightarrow> app_error + list_cursor" where
  "ListCursor_decode cr in_range raw scope =
     and_then (verified_body cr raw KIND_LIST LIST_BODY_LEN scope) (\<lambda>body.
       let micros = i64_of_bytes (take 8 body) in
       if \<not> in_range micros then Err invalid_cursor
       else Ok \<lparr>lc_ts = micros * 1000, lc_id = uuid_of_bytes (take 16 (drop 8 body))\<rparr>)"

definition decode_optional :: "(string \<Rightarrow> app_error + 'c) \<Rightarrow> string option \<Rightarrow> app_error + 'c option" where
  "decode_optional decode raw =
     (case raw of
        None \<Rightarrow> Ok None
      | Some r \<Rightarrow> if rust_trim r = [] then Ok None else map_sum id Some (decode (rust_trim r)))"

definition SeqCursor_encode :: "crypto \<Rightarrow> int \<Rightarrow> cursor_scope \<Rightarrow> string" where
  "SeqCursor_encode cr n scope = cursor_finish cr ([CURSOR_FORMAT_VERSION, KIND_SEQ] @ i64_bytes n) scope"

definition SeqCursor_decode :: "crypto \<Rightarrow> string \<Rightarrow> cursor_scope \<Rightarrow> app_error + int" where
  "SeqCursor_decode cr raw scope =
     and_then (verified_body cr raw KIND_SEQ SEQ_BODY_LEN scope) (\<lambda>body. Ok (i64_of_bytes body))"

text \<open>
  What is relied on of the libraries: HMAC-SHA256 has 32 bytes; base64 makes at most two
  characters of a byte, none of them blank.
\<close>

definition cursor_laws :: "crypto \<Rightarrow> bool" where
  "cursor_laws cr \<longleftrightarrow> crypto_laws cr \<and> (\<forall>k m. length (cr_hmac cr k m) = 32) \<and>
     (\<forall>bs. length (cr_encode cr bs) \<le> 2 * length bs \<and> rust_trim (cr_encode cr bs) = cr_encode cr bs)"

definition datetime_ok :: "(int \<Rightarrow> bool) \<Rightarrow> int \<Rightarrow> bool" where
  "datetime_ok in_range ts \<longleftrightarrow> in_range (timestamp_micros ts) \<and> - (2 ^ 63) \<le> timestamp_micros ts \<and> timestamp_micros ts < 2 ^ 63"

lemma encode_nonempty:
  assumes "cursor_laws cr" "bs \<noteq> []"
  shows "cr_encode cr bs \<noteq> []"
proof
  assume e: "cr_encode cr bs = []"
  have "length (cr_encode cr []) \<le> 2 * length ([] :: string)"
    and d: "cr_decode cr (cr_encode cr bs) = Some bs" "cr_decode cr (cr_encode cr []) = Some []"
    using assms(1) unfolding cursor_laws_def crypto_laws_def by blast+
  then have "cr_encode cr [] = []" by simp
  with d e assms(2) show False by simp
qed

lemma verified_finish:
  assumes "cursor_laws cr" "length body \<le> 46"
  shows "verified_body cr (cursor_finish cr ([CURSOR_FORMAT_VERSION, kind'] @ body) scope') kind body_len scope =
    (if length body = body_len \<and> kind' = kind \<and>
        take TAG_LEN (cursor_mac cr ([CURSOR_FORMAT_VERSION, kind'] @ body) scope) =
        take TAG_LEN (cursor_mac cr ([CURSOR_FORMAT_VERSION, kind'] @ body) scope')
     then Ok body else Err invalid_cursor)"
proof -
  let ?signed_bytes = "[CURSOR_FORMAT_VERSION, kind'] @ body"
  let ?tag = "take TAG_LEN (cursor_mac cr ?signed_bytes scope')"
  have tag: "length ?tag = TAG_LEN"
    using assms(1) by (simp add: cursor_laws_def cursor_mac_def TAG_LEN_def)
  have "length (cursor_finish cr ?signed_bytes scope') \<le> 2 * length (?signed_bytes @ ?tag)"
    using assms(1) unfolding cursor_finish_def cursor_laws_def by blast
  also have "\<dots> \<le> 128" using tag assms(2) by (simp add: TAG_LEN_def)
  finally have short: "length (cursor_finish cr ?signed_bytes scope') \<le> MAX_ENCODED_LEN" by (simp add: MAX_ENCODED_LEN_def)
  have dec: "cr_decode cr (cursor_finish cr ?signed_bytes scope') = Some (?signed_bytes @ ?tag)"
    using assms(1) unfolding cursor_finish_def cursor_laws_def crypto_laws_def by blast
  have ne: "cursor_finish cr ?signed_bytes scope' \<noteq> []"
    unfolding cursor_finish_def using assms(1) by (intro encode_nonempty) auto
  show ?thesis
  proof (cases "length body = body_len")
    case True
    have "take (HEADER_LEN + body_len) (?signed_bytes @ ?tag) = ?signed_bytes" "drop (HEADER_LEN + body_len) (?signed_bytes @ ?tag) = ?tag"
      using True by (simp_all add: HEADER_LEN_def)
    then show ?thesis
      using True short ne tag unfolding verified_body_def dec
      by (auto simp: Let_def HEADER_LEN_def CURSOR_FORMAT_VERSION_def)
  next
    case False
    then show ?thesis
      using short ne tag unfolding verified_body_def dec by (auto simp: HEADER_LEN_def)
  qed
qed

definition same_tag :: "crypto \<Rightarrow> string \<Rightarrow> cursor_scope \<Rightarrow> cursor_scope \<Rightarrow> bool" where
  "same_tag cr bytes scope scope' \<longleftrightarrow>
     take TAG_LEN (cursor_mac cr bytes scope) = take TAG_LEN (cursor_mac cr bytes scope')"

definition list_payload :: "list_cursor \<Rightarrow> string" where
  "list_payload c = [CURSOR_FORMAT_VERSION, KIND_LIST] @ i64_bytes (timestamp_micros (lc_ts c)) @ uuid_bytes (lc_id c)"

definition seq_payload :: "int \<Rightarrow> string" where
  "seq_payload n = [CURSOR_FORMAT_VERSION, KIND_SEQ] @ i64_bytes n"

definition truncated :: "list_cursor \<Rightarrow> list_cursor" where
  "truncated c = c\<lparr>lc_ts := timestamp_micros (lc_ts c) * 1000\<rparr>"

lemma list_cursor_decode_encode:
  assumes "cursor_laws cr" "datetime_ok in_range (lc_ts c)"
  shows "ListCursor_decode cr in_range (ListCursor_encode cr c scope') scope =
    (if same_tag cr (list_payload c) scope scope' then Ok (truncated c) else Err invalid_cursor)"
proof -
  let ?body = "i64_bytes (timestamp_micros (lc_ts c)) @ uuid_bytes (lc_id c)"
  have len: "length ?body = LIST_BODY_LEN" "length (i64_bytes (timestamp_micros (lc_ts c))) = 8" "length (uuid_bytes (lc_id c)) = 16"
    by (simp_all add: i64_bytes_def uuid_bytes_def LIST_BODY_LEN_def)
  have parts: "take 8 ?body = i64_bytes (timestamp_micros (lc_ts c))" "take 16 (drop 8 ?body) = uuid_bytes (lc_id c)"
    using len by simp_all
  have micros: "i64_of_bytes (i64_bytes (timestamp_micros (lc_ts c))) = timestamp_micros (lc_ts c)" "in_range (timestamp_micros (lc_ts c))"
    using assms(2) by (auto simp: datetime_ok_def intro: i64_roundtrip)
  have "verified_body cr (ListCursor_encode cr c scope') KIND_LIST LIST_BODY_LEN scope =
      (if same_tag cr (list_payload c) scope scope' then Ok ?body else Err invalid_cursor)"
    using verified_finish [OF assms(1), of ?body KIND_LIST scope' KIND_LIST LIST_BODY_LEN scope] len(1)
    by (simp add: ListCursor_encode_def same_tag_def list_payload_def LIST_BODY_LEN_def)
  moreover have "truncated c = \<lparr>lc_ts = timestamp_micros (lc_ts c) * 1000, lc_id = lc_id c\<rparr>"
    by (cases c) (simp add: truncated_def)
  ultimately show ?thesis
    using micros by (simp add: ListCursor_decode_def and_then_def parts uuid_roundtrip Let_def del: take_append drop_append)
qed

lemma seq_cursor_decode_encode:
  assumes "cursor_laws cr" "- (2 ^ 63) \<le> n" "n < 2 ^ 63"
  shows "SeqCursor_decode cr (SeqCursor_encode cr n scope') scope =
    (if same_tag cr ([CURSOR_FORMAT_VERSION, KIND_SEQ] @ i64_bytes n) scope scope' then Ok n else Err invalid_cursor)"
  using verified_finish [OF assms(1), of "i64_bytes n" KIND_SEQ scope' KIND_SEQ SEQ_BODY_LEN scope] i64_roundtrip [OF assms(2,3)]
  by (simp add: SeqCursor_decode_def SeqCursor_encode_def same_tag_def i64_bytes_def SEQ_BODY_LEN_def and_then_def)

lemma wrong_kind_refused:
  assumes "cursor_laws cr"
  shows "ListCursor_decode cr in_range (SeqCursor_encode cr n scope') scope = Err invalid_cursor"
    and "SeqCursor_decode cr (ListCursor_encode cr c scope') scope = Err invalid_cursor"
proof -
  have k: "KIND_SEQ \<noteq> KIND_LIST" by (simp add: KIND_SEQ_def KIND_LIST_def)
  then show "ListCursor_decode cr in_range (SeqCursor_encode cr n scope') scope = Err invalid_cursor"
    using verified_finish [OF assms, of "i64_bytes n" KIND_SEQ scope' KIND_LIST LIST_BODY_LEN scope]
    by (simp add: ListCursor_decode_def SeqCursor_encode_def i64_bytes_def and_then_def)
  show "SeqCursor_decode cr (ListCursor_encode cr c scope') scope = Err invalid_cursor"
    using k verified_finish [OF assms, of "i64_bytes (timestamp_micros (lc_ts c)) @ uuid_bytes (lc_id c)" KIND_LIST scope' KIND_SEQ SEQ_BODY_LEN scope]
    by (simp add: SeqCursor_decode_def ListCursor_encode_def i64_bytes_def uuid_bytes_def and_then_def)
qed

lemma verified_authentic:
  assumes "verified_body cr raw kind body_len scope = Ok body"
  shows "\<exists>tag. cr_decode cr raw = Some ([CURSOR_FORMAT_VERSION, kind] @ body @ tag) \<and> length body = body_len \<and>
    tag = take TAG_LEN (cursor_mac cr ([CURSOR_FORMAT_VERSION, kind] @ body) scope)"
proof -
  from assms obtain bytes where b: "cr_decode cr raw = Some bytes" "length bytes = HEADER_LEN + body_len + TAG_LEN"
      "bytes ! 0 = CURSOR_FORMAT_VERSION" "bytes ! 1 = kind" "body = drop HEADER_LEN (take (HEADER_LEN + body_len) bytes)"
      "take (length (drop (HEADER_LEN + body_len) bytes)) (cursor_mac cr (take (HEADER_LEN + body_len) bytes) scope) =
        drop (HEADER_LEN + body_len) bytes"
    by (auto simp: verified_body_def Let_def split: option.splits if_splits)
  obtain x y rest where bytes: "bytes = x # y # rest"
    using b(2) by (metis HEADER_LEN_def add_2_eq_Suc' add.commute add.left_commute length_Suc_conv)
  have head: "take (HEADER_LEN + body_len) bytes = [CURSOR_FORMAT_VERSION, kind] @ body"
    using b(3-5) by (simp add: bytes HEADER_LEN_def numeral_2_eq_2)
  have "bytes = ([CURSOR_FORMAT_VERSION, kind] @ body) @ drop (HEADER_LEN + body_len) bytes"
    unfolding head [symmetric] by simp
  moreover have "length (drop (HEADER_LEN + body_len) bytes) = TAG_LEN" "length body = body_len"
    using b(2,5) by simp_all
  ultimately show ?thesis using b(1,6) unfolding head by (metis append.assoc)
qed

text \<open>A string that carries a body under the header of a kind and the tag of the two for a scope.\<close>

definition authentic :: "crypto \<Rightarrow> char \<Rightarrow> cursor_scope \<Rightarrow> string \<Rightarrow> string \<Rightarrow> bool" where
  "authentic cr kind scope raw body \<longleftrightarrow>
     cr_decode cr raw = Some ([CURSOR_FORMAT_VERSION, kind] @ body @
       take TAG_LEN (cursor_mac cr ([CURSOR_FORMAT_VERSION, kind] @ body) scope))"

section \<open>Pages\<close>

record pagination =
  pg_next_cursor :: "string option"
  pg_has_more :: bool

record 'a list_response =
  rs_data :: "'a list"
  rs_pagination :: pagination

record page_request =
  pr_limit :: int
  pr_cursor :: "string option"

definition page_limit :: "int option \<Rightarrow> int" where
  "page_limit limit = (let n = (case limit of None \<Rightarrow> 50 | Some n \<Rightarrow> n) in max 1 (min n 200))"

definition i64_sat_add :: "int \<Rightarrow> int \<Rightarrow> int" where
  "i64_sat_add a b = max (- (2 ^ 63)) (min (a + b) (2 ^ 63 - 1))"

definition over_fetch_limit :: "int \<Rightarrow> int" where
  "over_fetch_limit limit = i64_sat_add limit 1"

definition ListResponse_new :: "'a list \<Rightarrow> 'a list_response" where
  "ListResponse_new data = \<lparr>rs_data = data, rs_pagination = \<lparr>pg_next_cursor = None, pg_has_more = False\<rparr>\<rparr>"

definition paginate :: "crypto \<Rightarrow> 'a list \<Rightarrow> page_request \<Rightarrow> cursor_scope \<Rightarrow> ('a \<Rightarrow> list_cursor) \<Rightarrow> 'a list_response" where
  "paginate cr rows page scope key =
     (let limit = nat (pr_limit page);
          has_more = (limit < length rows);
          rows = take limit rows;
          next_cursor = (if rows = [] then None else if has_more then Some (ListCursor_encode cr (key (last rows)) scope) else None)
      in (ListResponse_new rows)\<lparr>rs_pagination := \<lparr>pg_next_cursor = next_cursor, pg_has_more = has_more\<rparr>\<rparr>)"

definition conversation_paginate ::
    "('k \<Rightarrow> cursor_scope \<Rightarrow> string) \<Rightarrow> ('a \<times> 'k) list \<Rightarrow> int \<Rightarrow> cursor_scope \<Rightarrow> 'a list_response" where
  "conversation_paginate encode_for rows limit scope =
     (let limit = nat limit;
          has_more = (limit < length rows);
          rows = take limit rows;
          next_cursor = (if has_more then (if rows = [] then None else Some (encode_for (snd (last rows)) scope)) else None)
      in \<lparr>rs_data = map fst rows, rs_pagination = \<lparr>pg_next_cursor = next_cursor, pg_has_more = has_more\<rparr>\<rparr>)"

definition paginate_by_created_at ::
    "crypto \<Rightarrow> 'a list \<Rightarrow> int \<Rightarrow> cursor_scope \<Rightarrow> ('a \<Rightarrow> int \<times> uuid) \<Rightarrow> 'a list_response" where
  "paginate_by_created_at cr rows limit scope key =
     (let has_more = (limit < int (length rows));
          rows = (if has_more then take (nat (max limit 0)) rows else rows);
          next_cursor = (if has_more then (if rows = [] then None else
              (case key (last rows) of (ts, i) \<Rightarrow> Some (ListCursor_encode cr \<lparr>lc_ts = ts, lc_id = i\<rparr> scope))) else None)
      in \<lparr>rs_data = rows, rs_pagination = \<lparr>pg_next_cursor = next_cursor, pg_has_more = has_more\<rparr>\<rparr>)"

subsection \<open>The query\<close>

record keyset_tail =
  kt_condition :: "string option"
  kt_order_and_limit :: string

definition rsplit_dot :: "string \<Rightarrow> (string \<times> string) option" where
  "rsplit_dot s = map_option (\<lambda>(b, a). (rev a, rev b)) (split_once CHR ''.'' (rev s))"

definition id_column_for :: "string \<Rightarrow> string" where
  "id_column_for sort_column =
     (case rsplit_dot sort_column of Some (qualifier, _) \<Rightarrow> qualifier @ ''.id'' | None \<Rightarrow> ''id'')"

definition KeysetTail_new :: "string \<Rightarrow> list_cursor option \<Rightarrow> nat \<Rightarrow> keyset_tail" where
  "KeysetTail_new sort_column cursor first_param =
     (let id_column = id_column_for sort_column;
          (condition, limit_param) =
            (case cursor of
               Some _ \<Rightarrow> (Some (''('' @ sort_column @ '', '' @ id_column @ '') < ($'' @ show_nat first_param @
                   ''::timestamptz, $'' @ show_nat (first_param + 1) @ ''::uuid)''), first_param + 2)
             | None \<Rightarrow> (None, first_param))
      in \<lparr>kt_condition = condition,
          kt_order_and_limit = ''order by '' @ sort_column @ '' desc, '' @ id_column @ '' desc limit $'' @ show_nat limit_param\<rparr>)"

definition and_clause :: "keyset_tail \<Rightarrow> string" where
  "and_clause t = (case kt_condition t of Some c \<Rightarrow> ''and '' @ c | None \<Rightarrow> [])"

definition where_clause :: "keyset_tail \<Rightarrow> string" where
  "where_clause t = (case kt_condition t of Some c \<Rightarrow> ''where '' @ c | None \<Rightarrow> [])"

text \<open>
  What the database answers to a query with that tail, the cursor bound to its parameters: the
  rows below the cursor, newest first, no more than the limit. The key of a row is its creation
  time and identifier.
\<close>

definition lc_key :: "list_cursor \<Rightarrow> int \<times> uuid" where
  "lc_key c = (lc_ts c, lc_id c)"

definition desc_by :: "('a \<Rightarrow> list_cursor) \<Rightarrow> 'a list \<Rightarrow> 'a list" where
  "desc_by key rows = rev (sort_key (lc_key \<circ> key) rows)"

definition keyset_query :: "('a \<Rightarrow> list_cursor) \<Rightarrow> 'a list \<Rightarrow> list_cursor option \<Rightarrow> int \<Rightarrow> 'a list" where
  "keyset_query key table cursor limit =
     take (nat limit) (desc_by key
       (case cursor of None \<Rightarrow> table | Some c \<Rightarrow> filter (\<lambda>r. lc_key (key r) < lc_key c) table))"

definition list_page ::
    "crypto \<Rightarrow> (int \<Rightarrow> bool) \<Rightarrow> ('a \<Rightarrow> list_cursor) \<Rightarrow> cursor_scope \<Rightarrow> 'a list \<Rightarrow> page_request \<Rightarrow> app_error + 'a list_response" where
  "list_page cr in_range key scope table page =
     and_then (decode_optional (\<lambda>raw. ListCursor_decode cr in_range raw scope) (pr_cursor page)) (\<lambda>cursor.
       Ok (paginate cr (keyset_query key table cursor (over_fetch_limit (pr_limit page))) page scope key))"

text \<open>A client that follows the cursors from page to page.\<close>

fun walk ::
    "(string option \<Rightarrow> app_error + 'a list_response) \<Rightarrow> nat \<Rightarrow> string option \<Rightarrow> (app_error + 'a list list) option" where
  "walk get 0 cursor = None"
| "walk get (Suc n) cursor =
     (case get cursor of
        Err e \<Rightarrow> Some (Err e)
      | Ok resp \<Rightarrow>
          if pg_has_more (rs_pagination resp)
          then map_option (map_sum id (\<lambda>pages. rs_data resp # pages)) (walk get n (pg_next_cursor (rs_pagination resp)))
          else Some (Ok [rs_data resp]))"

definition key_ok :: "(int \<Rightarrow> bool) \<Rightarrow> list_cursor \<Rightarrow> bool" where
  "key_ok in_range c \<longleftrightarrow> datetime_ok in_range (lc_ts c) \<and> lc_ts c mod 1000 = 0"

lemma truncated_key: "key_ok in_range c \<Longrightarrow> truncated c = c"
  by (cases c) (auto simp: key_ok_def truncated_def timestamp_micros_def)

lemma decode_own_cursor:
  assumes "cursor_laws cr" "key_ok in_range c"
  shows "decode_optional (\<lambda>raw. ListCursor_decode cr in_range raw scope) (Some (ListCursor_encode cr c scope)) = Ok (Some c)"
proof -
  have "rust_trim (ListCursor_encode cr c scope) = ListCursor_encode cr c scope"
    using assms(1) by (simp add: ListCursor_encode_def cursor_finish_def cursor_laws_def)
  moreover have "ListCursor_encode cr c scope \<noteq> []"
    unfolding ListCursor_encode_def cursor_finish_def by (rule encode_nonempty [OF assms(1)]) simp
  moreover have "ListCursor_decode cr in_range (ListCursor_encode cr c scope) scope = Ok c"
    using list_cursor_decode_encode [OF assms(1), of in_range c scope scope] assms(2) truncated_key [OF assms(2)]
    by (simp add: same_tag_def key_ok_def)
  ultimately show ?thesis by (simp add: decode_optional_def)
qed

lemma desc_by_strict:
  assumes "distinct (map (lc_key \<circ> key) table)"
  shows "sorted_wrt (\<lambda>a b. lc_key (key b) < lc_key (key a)) (desc_by key table)"
proof -
  have "sorted (map (lc_key \<circ> key) (sort_key (lc_key \<circ> key) table))" by simp
  moreover have "distinct (map (lc_key \<circ> key) (sort_key (lc_key \<circ> key) table))"
    using assms by (simp add: distinct_map)
  ultimately have "sorted_wrt (<) (map (lc_key \<circ> key) (sort_key (lc_key \<circ> key) table))"
    by (simp add: strict_sorted_iff)
  then show ?thesis
    unfolding desc_by_def by (simp add: sorted_wrt_rev sorted_wrt_map)
qed

lemma filter_below:
  assumes "sorted_wrt (\<lambda>a b. f b < (f a :: 'k::linorder)) xs" "0 < n" "n \<le> length xs"
  shows "filter (\<lambda>x. f x < f (xs ! (n - 1))) xs = drop n xs"
proof -
  let ?x = "xs ! (n - 1)"
  have "\<not> f y < f ?x" if "y \<in> set (take n xs)" for y
  proof -
    from that obtain i where i: "i < n" "y = xs ! i" using assms(3) by (auto simp: in_set_conv_nth)
    show ?thesis
    proof (cases "i = n - 1")
      case False
      with i(1) have "i < n - 1" by simp
      moreover have "n - 1 < length xs" using assms(2,3) by simp
      ultimately have "f ?x < f (xs ! i)" by (rule sorted_wrt_nth_less [OF assms(1)])
      then show ?thesis unfolding i(2) by (simp add: not_less less_imp_le)
    qed (simp add: i)
  qed
  moreover have "f y < f ?x" if "y \<in> set (drop n xs)" for y
  proof -
    from that obtain j where "j < length xs - n" "y = xs ! (n + j)" by (auto simp: in_set_conv_nth)
    then have "n + j < length xs" "y = xs ! (n + j)" by simp_all
    with sorted_wrt_nth_less [OF assms(1), of "n - 1" "n + j"] assms(2) show ?thesis by auto
  qed
  ultimately have "filter (\<lambda>x. f x < f ?x) (take n xs @ drop n xs) = drop n xs"
    unfolding filter_append by (simp add: filter_empty_conv)
  then show ?thesis by simp
qed

lemma query_below:
  assumes "distinct (map (lc_key \<circ> key) table)" "0 < n" "n \<le> length table"
  shows "keyset_query key table (Some (key (desc_by key table ! (n - 1)))) limit = take (nat limit) (drop n (desc_by key table))"
proof -
  have "desc_by key (filter P table) = filter P (desc_by key table)" for P
    by (simp only: desc_by_def filter_sort rev_filter [symmetric])
  moreover have "n \<le> length (desc_by key table)" using assms(3) by (simp add: desc_by_def)
  ultimately show ?thesis
    using filter_below [OF desc_by_strict [OF assms(1)] assms(2)] by (simp add: keyset_query_def)
qed

lemma last_take: "0 < m \<Longrightarrow> m \<le> length xs \<Longrightarrow> last (take m xs) = xs ! (m - 1)"
  by (subst last_conv_nth) auto

text \<open>The page at a position of the list: its rows, and the cursor of the position after them.\<close>

lemma paginate_at:
  fixes key :: "'a \<Rightarrow> list_cursor"
  assumes "1 \<le> limit" "limit < 2 ^ 63 - 1"
  shows "paginate cr (take (nat (over_fetch_limit limit)) (drop n xs)) \<lparr>pr_limit = limit, pr_cursor = c\<rparr> scope key =
    \<lparr>rs_data = take (nat limit) (drop n xs), rs_pagination =
      (if n + nat limit < length xs
       then \<lparr>pg_next_cursor = Some (ListCursor_encode cr (key (xs ! (n + nat limit - 1))) scope), pg_has_more = True\<rparr>
       else \<lparr>pg_next_cursor = None, pg_has_more = False\<rparr>)\<rparr>"
proof -
  let ?m = "nat limit" and ?ys = "take (nat (over_fetch_limit limit)) (drop n xs)"
  have of: "nat (over_fetch_limit limit) = Suc ?m" using assms by (simp add: over_fetch_limit_def i64_sat_add_def)
  have more: "?m < length ?ys \<longleftrightarrow> n + ?m < length xs" using assms(1) by (auto simp: of)
  have data: "take ?m ?ys = take ?m (drop n xs)" by (simp add: of min_def)
  have "last (take ?m (drop n xs)) = xs ! (n + ?m - 1)" "take ?m (drop n xs) \<noteq> []" if "n + ?m < length xs"
  proof -
    from that assms(1) show "take ?m (drop n xs) \<noteq> []" by simp
    have "last (take ?m (drop n xs)) = drop n xs ! (?m - 1)" using that assms(1) by (intro last_take) auto
    also have "\<dots> = xs ! (n + ?m - 1)" using that assms(1) by simp
    finally show "last (take ?m (drop n xs)) = xs ! (n + ?m - 1)" .
  qed
  then show ?thesis
    unfolding paginate_def ListResponse_new_def Let_def page_request.select_convs more data by auto
qed

lemma walk_from:
  fixes key :: "'a \<Rightarrow> list_cursor" and scope :: cursor_scope
  assumes "cursor_laws cr" "\<forall>r \<in> set table. key_ok in_range (key r)" "distinct (map (lc_key \<circ> key) table)"
    and limit: "1 \<le> limit" "limit < 2 ^ 63 - 1"
  defines "xs \<equiv> desc_by key table"
  defines "get \<equiv> \<lambda>c. list_page cr in_range key scope table \<lparr>pr_limit = limit, pr_cursor = c\<rparr>"
  assumes "cursor = (if n = 0 then None else Some (ListCursor_encode cr (key (xs ! (n - 1))) scope))" "n \<le> length xs"
  shows "length xs - n < fuel \<Longrightarrow> \<exists>pages. walk get fuel cursor = Some (Ok pages) \<and> concat pages = drop n xs"
  using assms(8,9)
proof (induction fuel arbitrary: n cursor)
  case (Suc fuel)
  let ?m = "nat limit"
  have len: "length xs = length table" by (simp add: xs_def desc_by_def)
  have "get cursor = Ok (paginate cr (take (nat (over_fetch_limit limit)) (drop n xs)) \<lparr>pr_limit = limit, pr_cursor = cursor\<rparr> scope key)"
  proof (cases "n = 0")
    case True
    then show ?thesis
      using Suc.prems(2) by (simp add: get_def list_page_def decode_optional_def and_then_def keyset_query_def xs_def)
  next
    case False
    then have "xs ! (n - 1) \<in> set table"
      using Suc.prems(3) nth_mem [of "n - 1" xs] by (simp add: xs_def desc_by_def)
    then have "key_ok in_range (key (xs ! (n - 1)))" using assms(2) by blast
    from decode_own_cursor [OF assms(1) this] show ?thesis
      using False Suc.prems(2,3) query_below [OF assms(3), of n "over_fetch_limit limit"] len
      by (simp add: get_def list_page_def and_then_def xs_def)
  qed
  then have page: "get cursor = Ok \<lparr>rs_data = take ?m (drop n xs), rs_pagination =
      (if n + ?m < length xs
       then \<lparr>pg_next_cursor = Some (ListCursor_encode cr (key (xs ! (n + ?m - 1))) scope), pg_has_more = True\<rparr>
       else \<lparr>pg_next_cursor = None, pg_has_more = False\<rparr>)\<rparr>"
    unfolding paginate_at [OF limit] .
  show ?case
  proof (cases "n + ?m < length xs")
    case True
    have "1 \<le> ?m" using limit(1) by linarith
    then have less: "length xs - (n + ?m) < fuel" "n + ?m \<noteq> 0" using Suc.prems(1) True by linarith+
    from True Suc.IH [OF less(1), of "Some (ListCursor_encode cr (key (xs ! (n + ?m - 1))) scope)"] less(2) obtain pages where
      "walk get fuel (Some (ListCursor_encode cr (key (xs ! (n + ?m - 1))) scope)) = Some (Ok pages)" "concat pages = drop (n + ?m) xs"
      by auto
    moreover have "take ?m (drop n xs) @ drop (n + ?m) xs = drop n xs"
      by (metis append_take_drop_id drop_drop add.commute)
    ultimately show ?thesis using True page by simp
  next
    case False
    then show ?thesis using page by simp
  qed
qed simp

section \<open>Properties\<close>

text \<open>
  C17: A client that starts without a cursor and follows the cursors it is given sees every row of the
  table exactly once, newest first, whatever the page size, and is done after finitely many
  pages: one request per row and one more always suffice.
\<close>
theorem pages_enumerate_table:
  assumes "cursor_laws cr" "\<forall>r \<in> set table. key_ok in_range (key r)" "distinct (map (lc_key \<circ> key) table)"
    and "1 \<le> limit" "limit < 2 ^ 63 - 1"
  shows "\<exists>pages. walk (\<lambda>c. list_page cr in_range key scope table \<lparr>pr_limit = limit, pr_cursor = c\<rparr>) (Suc (length table)) None =
      Some (Ok pages) \<and> concat pages = desc_by key table"
  using walk_from [OF assms, of None 0 scope "Suc (length table)"] by (simp add: desc_by_def)

text \<open>
  C34: A cursor of either kind reads back as the position it was made from (a list position at microsecond precision)
  under the scope it was made for. Under another scope it is refused unless the truncated tags of the two scopes
  collide, and a cursor of the other kind is always refused. Whatever string is accepted, as either kind, decodes to
  a header of that kind, a body of its length and the tag of the two under the scope, and the position returned
  is the one in that body.
\<close>
theorem cursor_roundtrip:
  assumes "cursor_laws cr" "datetime_ok in_range (lc_ts c)" "- (2 ^ 63) \<le> n" "n < 2 ^ 63"
  shows "ListCursor_decode cr in_range (ListCursor_encode cr c scope) scope = Ok (truncated c) \<and>
    SeqCursor_decode cr (SeqCursor_encode cr n scope) scope = Ok n \<and>
    (\<not> same_tag cr (list_payload c) scope' scope \<longrightarrow>
      ListCursor_decode cr in_range (ListCursor_encode cr c scope) scope' = Err invalid_cursor) \<and>
    (\<not> same_tag cr (seq_payload n) scope' scope \<longrightarrow>
      SeqCursor_decode cr (SeqCursor_encode cr n scope) scope' = Err invalid_cursor) \<and>
    SeqCursor_decode cr (ListCursor_encode cr c scope) scope' = Err invalid_cursor \<and>
    ListCursor_decode cr in_range (SeqCursor_encode cr n scope) scope' = Err invalid_cursor \<and>
    (\<forall>raw d. ListCursor_decode cr in_range raw scope = Ok d \<longrightarrow>
      (\<exists>body. authentic cr KIND_LIST scope raw body \<and> length body = 24 \<and>
         lc_ts d = 1000 * i64_of_bytes (take 8 body) \<and> lc_id d = uuid_of_bytes (drop 8 body))) \<and>
    (\<forall>raw m. SeqCursor_decode cr raw scope = Ok m \<longrightarrow>
      (\<exists>body. authentic cr KIND_SEQ scope raw body \<and> length body = 8 \<and> m = i64_of_bytes body))"
proof (intro conjI allI impI)
  show "ListCursor_decode cr in_range (ListCursor_encode cr c scope) scope = Ok (truncated c)"
    using list_cursor_decode_encode [OF assms(1,2)] by (simp add: same_tag_def)
  show "SeqCursor_decode cr (SeqCursor_encode cr n scope) scope = Ok n"
    using seq_cursor_decode_encode [OF assms(1,3,4)] by (simp add: same_tag_def)
  show "ListCursor_decode cr in_range (ListCursor_encode cr c scope) scope' = Err invalid_cursor"
    if "\<not> same_tag cr (list_payload c) scope' scope"
    using list_cursor_decode_encode [OF assms(1,2)] that by simp
  show "SeqCursor_decode cr (SeqCursor_encode cr n scope) scope' = Err invalid_cursor"
    if "\<not> same_tag cr (seq_payload n) scope' scope"
    using seq_cursor_decode_encode [OF assms(1,3,4)] that by (simp add: seq_payload_def)
  show "\<exists>body. authentic cr KIND_LIST scope raw body \<and> length body = 24 \<and>
      lc_ts d = 1000 * i64_of_bytes (take 8 body) \<and> lc_id d = uuid_of_bytes (drop 8 body)"
    if "ListCursor_decode cr in_range raw scope = Ok d" for raw d
    using that verified_authentic [of cr raw KIND_LIST LIST_BODY_LEN scope]
    by (auto simp: ListCursor_decode_def and_then_Ok_iff Let_def authentic_def LIST_BODY_LEN_def split: if_splits)
  show "\<exists>body. authentic cr KIND_SEQ scope raw body \<and> length body = 8 \<and> m = i64_of_bytes body"
    if "SeqCursor_decode cr raw scope = Ok m" for raw m
    using that verified_authentic [of cr raw KIND_SEQ SEQ_BODY_LEN scope]
    by (auto simp: SeqCursor_decode_def and_then_Ok_iff authentic_def SEQ_BODY_LEN_def)
qed (rule wrong_kind_refused [OF assms(1)])+

text \<open>
  The copies of the page assembly for the runtime and conversation lists agree with the one of the admin API: on every
  row list and every limit that is not negative they return the same rows, the same flag and the same cursor.
\<close>
theorem paginate_copies_agree:
  assumes "0 \<le> limit"
  shows "paginate_by_created_at cr rows limit scope (\<lambda>r. lc_key (key r)) = paginate cr rows \<lparr>pr_limit = limit, pr_cursor = c\<rparr> scope key \<and>
    conversation_paginate (ListCursor_encode cr) (map (\<lambda>r. (r, key r)) rows) limit scope =
      paginate cr rows \<lparr>pr_limit = limit, pr_cursor = c\<rparr> scope key"
proof
  have key: "\<lparr>lc_ts = lc_ts k, lc_id = lc_id k\<rparr> = k" for k by (cases k) simp
  have "(limit < int (length rows)) = (nat limit < length rows)" using assms by linarith
  then show "paginate_by_created_at cr rows limit scope (\<lambda>r. lc_key (key r)) = paginate cr rows \<lparr>pr_limit = limit, pr_cursor = c\<rparr> scope key"
    using assms by (auto simp: paginate_by_created_at_def paginate_def ListResponse_new_def Let_def lc_key_def key)
  have "snd (last (map (\<lambda>r. (r, key r)) xs)) = key (last xs)" if "xs \<noteq> []" for xs
    using that by (simp add: last_map)
  moreover have "map fst (map (\<lambda>r. (r, key r)) xs) = xs" for xs by (simp add: comp_def)
  ultimately show "conversation_paginate (ListCursor_encode cr) (map (\<lambda>r. (r, key r)) rows) limit scope =
      paginate cr rows \<lparr>pr_limit = limit, pr_cursor = c\<rparr> scope key"
    unfolding conversation_paginate_def paginate_def ListResponse_new_def Let_def take_map
    by auto
qed

lemma plain_cursor_laws: "cursor_laws plain_crypto"
proof -
  have len: "length (concat (map nibbles bs)) = 2 * length bs" for bs
  proof (induction bs)
    case (Cons c bs)
    then show ?case by (cases c) simp
  qed simp
  have n: "set (nibbles c) \<inter> set (concat white_space) = {}" for c
    by (cases c) (simp add: white_space_def)
  have "set (concat (map nibbles bs)) \<inter> set (concat white_space) = {}" for bs
    using n by (simp add: disjoint_iff) blast
  then have "rust_trim (concat (map nibbles bs)) = concat (map nibbles bs)" for bs
    by (rule rust_trim_plain)
  moreover have "length (cr_hmac plain_crypto k m) = 32" for k m by (simp add: plain_crypto_def)
  ultimately show ?thesis
    using len plain_crypto_laws unfolding cursor_laws_def by (metis order_refl plain_crypto_def crypto.select_convs(3))
qed

definition sample_cursor :: "int \<Rightarrow> list_cursor" where
  "sample_cursor n = \<lparr>lc_ts = 1000 * n, lc_id = 7\<rparr>"

theorem cursor_roundtrip_witness:
  "ListCursor_decode plain_crypto (\<lambda>_. True) (ListCursor_encode plain_crypto (sample_cursor (-3)) ''admin.providers'') ''admin.providers'' =
     Ok (sample_cursor (-3)) \<and>
   SeqCursor_decode plain_crypto (SeqCursor_encode plain_crypto 41 ''runs'') ''runs'' = Ok 41 \<and>
   SeqCursor_decode plain_crypto (ListCursor_encode plain_crypto (sample_cursor (-3)) ''runs'') ''runs'' = Err invalid_cursor"
proof -
  have "datetime_ok (\<lambda>_. True) (lc_ts (sample_cursor (-3)))" by (simp add: datetime_ok_def sample_cursor_def timestamp_micros_def)
  from cursor_roundtrip [OF plain_cursor_laws this, of 41 "''admin.providers''"]
    cursor_roundtrip [OF plain_cursor_laws this, of 41 "''runs''"]
  show ?thesis by (simp add: truncated_def sample_cursor_def timestamp_micros_def)
qed

theorem pages_enumerate_table_witness:
  "\<exists>pages. walk (\<lambda>c. list_page plain_crypto (\<lambda>_. True) sample_cursor ''admin.providers'' [3, 1, 2] \<lparr>pr_limit = 2, pr_cursor = c\<rparr>) 4 None =
      Some (Ok pages) \<and> concat pages = [3, 2, 1]"
proof -
  have "desc_by sample_cursor [3, 1, 2] = [3, 2, 1]"
    by (simp add: desc_by_def lc_key_def sample_cursor_def less_eq_prod_def)
  moreover have "\<forall>r \<in> set [3, 1, 2]. key_ok (\<lambda>_. True) (sample_cursor r)"
    by (simp add: key_ok_def datetime_ok_def sample_cursor_def timestamp_micros_def)
  moreover have "distinct (map (lc_key \<circ> sample_cursor) [3, 1, 2])" by (simp add: lc_key_def sample_cursor_def)
  ultimately show ?thesis
    using pages_enumerate_table [OF plain_cursor_laws, of "[3, 1, 2]" "\<lambda>_. True" sample_cursor 2 "''admin.providers''"]
    by (simp add: eval_nat_numeral)
qed

theorem paginate_copies_agree_witness:
  "paginate_by_created_at plain_crypto [3, 2, 1] 2 ''s'' (\<lambda>r. lc_key (sample_cursor r)) =
     paginate plain_crypto [3, 2, 1] \<lparr>pr_limit = 2, pr_cursor = None\<rparr> ''s'' sample_cursor"
  using paginate_copies_agree [of 2 plain_crypto "[3, 2, 1]" "''s''" sample_cursor None] by simp

end
