(* ===== verification/Runner_Scrape.thy ===== *)
theory Runner_Scrape
  imports Chunking
begin

text \<open>
  Reading a terminal transcript, \<open>src/src/runner/scrape.rs\<close>: removing escape sequences, the targets
  of hyperlinks, and putting a value back together that the terminal wrapped over several lines.
  Texts are lists of Unicode scalar values; a slice at an offset that \<open>find\<close> returned is the rest
  of the list.
\<close>

definition ESC :: uchar where "ESC = 0x1B"
definition BEL :: uchar where "BEL = 0x07"

definition is_ascii_alphanumeric :: "uchar \<Rightarrow> bool" where
  "is_ascii_alphanumeric c \<longleftrightarrow> (0x30 \<le> c \<and> c \<le> 0x39) \<or> (0x41 \<le> c \<and> c \<le> 0x5A) \<or> (0x61 \<le> c \<and> c \<le> 0x7A)"

definition is_url_char :: "uchar \<Rightarrow> bool" where
  "is_url_char c \<longleftrightarrow> is_ascii_alphanumeric c \<or> c \<in> set (lit ''-._~:/?#[]@!$&'' @ [0x27] @ lit ''()*+,;=%'')"

definition is_control :: "uchar \<Rightarrow> bool" where
  "is_control c \<longleftrightarrow> c < 0x20 \<or> (0x7F \<le> c \<and> c \<le> 0x9F)"

section \<open>Escape sequences\<close>

fun skip_csi :: "utext \<Rightarrow> utext" where
  "skip_csi [] = []"
| "skip_csi (c # cs) = (if 0x40 \<le> c \<and> c \<le> 0x7E then cs else skip_csi cs)"

fun skip_string :: "utext \<Rightarrow> utext" where
  "skip_string [] = []"
| "skip_string (c # cs) =
     (if c = BEL then cs
      else if c = ESC \<and> cs \<noteq> [] \<and> hd cs = 0x5C then tl cs
      else skip_string cs)"

lemma length_skip_csi: "length (skip_csi cs) \<le> length cs"
  by (induction cs) auto

lemma length_skip_string: "length (skip_string cs) \<le> length cs"
  by (induction cs) auto

function strip_ansi :: "utext \<Rightarrow> utext" where
  "strip_ansi [] = []"
| "strip_ansi (c # cs) =
     (if c \<noteq> ESC then
        (if c = 0x0A \<or> c = 0x0D \<or> c = 0x09 \<or> \<not> is_control c then c # strip_ansi cs else strip_ansi cs)
      else case cs of
        [] \<Rightarrow> []
      | d # ds \<Rightarrow>
          if d = 0x5B then strip_ansi (skip_csi ds)
          else if d \<in> {0x5D, 0x50, 0x58, 0x5E, 0x5F} then strip_ansi (skip_string ds)
          else strip_ansi ds)"
  by pat_completeness auto
termination
  by (relation "measure length") (auto simp: less_Suc_eq_le le_SucI length_skip_csi length_skip_string)

section \<open>Searching\<close>

text \<open>\<open>str::find\<close>: the offset of the first occurrence.\<close>

fun find_sub :: "utext \<Rightarrow> utext \<Rightarrow> nat option" where
  "find_sub pat [] = (if pat = [] then Some 0 else None)"
| "find_sub pat (c # cs) =
     (if take (length pat) (c # cs) = pat then Some 0 else map_option Suc (find_sub pat cs))"

lemma find_sub_bound: "find_sub pat s = Some n \<Longrightarrow> n + length pat \<le> length s"
proof (induction s arbitrary: n)
  case (Cons c cs)
  then show ?case by (auto split: if_splits) (metis length_Cons length_take min_def le_Suc_eq nat_le_linear)
qed (auto split: if_splits)

lemma find_sub_match: "find_sub pat s = Some n \<Longrightarrow> take (length pat) (drop n s) = pat"
proof (induction s arbitrary: n)
  case (Cons c cs)
  then show ?case by (auto split: if_splits)
qed (auto split: if_splits)

fun split_on :: "(uchar \<Rightarrow> bool) \<Rightarrow> utext \<Rightarrow> utext list" where
  "split_on P [] = [[]]"
| "split_on P (c # cs) =
     (if P c then [] # split_on P cs
      else case split_on P cs of [] \<Rightarrow> [[c]] | l # ls \<Rightarrow> (c # l) # ls)"

definition OSC8_INTRODUCER :: utext where
  "OSC8_INTRODUCER = [ESC] @ lit '']8;''"

function osc8_targets :: "utext \<Rightarrow> utext list" where
  "osc8_targets raw =
     (case find_sub OSC8_INTRODUCER raw of
        None \<Rightarrow> []
      | Some off \<Rightarrow>
          let rest = drop (off + length OSC8_INTRODUCER) raw in
          case find_sub [0x3B] rest of
            None \<Rightarrow> []
          | Some separator \<Rightarrow>
              let after_params = drop (separator + 1) rest in
              case (find_sub [BEL] after_params, find_sub [ESC, 0x5C] after_params) of
                (None, None) \<Rightarrow> []
              | (bel, st) \<Rightarrow>
                  let stop = (case (bel, st) of (Some b, Some s) \<Rightarrow> min b s | (Some b, None) \<Rightarrow> b | (None, Some s) \<Rightarrow> s | (None, None) \<Rightarrow> 0);
                      target = take stop after_params;
                      targets = osc8_targets (drop stop after_params)
                  in if target \<noteq> [] \<and> list_all is_url_char target then target # targets else targets)"
  by auto
termination
  by (relation "measure length") (auto dest!: find_sub_bound simp: OSC8_INTRODUCER_def lit_def)

declare osc8_targets.simps [simp del]

section \<open>Values\<close>

text \<open>\<open>lines.iter().enumerate().find_map(..)\<close>: the lines from the first that contains the prefix on, and the offset in it.\<close>

fun find_line :: "utext \<Rightarrow> utext list \<Rightarrow> (utext \<times> utext list) option" where
  "find_line prefix [] = None"
| "find_line prefix (l # ls) =
     (case find_sub prefix l of Some off \<Rightarrow> Some (drop off l, ls) | None \<Rightarrow> find_line prefix ls)"

definition rejoin_wrapped :: "utext \<Rightarrow> utext \<Rightarrow> utext option" where
  "rejoin_wrapped stripped prefix =
     (let lines = filter (\<lambda>l. l \<noteq> []) (map trim (split_on (\<lambda>c. c = 0x0A \<or> c = 0x0D) stripped)) in
      case find_line prefix lines of
        None \<Rightarrow> None
      | Some (start, rest) \<Rightarrow>
          let joined = start @ concat (takeWhile (list_all is_url_char) rest);
              cut = takeWhile is_url_char joined
          in if bytes cut \<le> bytes prefix then None else Some cut)"

definition extract_authorization_url :: "utext \<Rightarrow> utext \<Rightarrow> utext option" where
  "extract_authorization_url transcript prefix =
     (case find (\<lambda>t. take (length prefix) t = prefix) (osc8_targets transcript) of
        Some target \<Rightarrow> Some target
      | None \<Rightarrow> rejoin_wrapped (strip_ansi transcript) prefix)"

definition extract_token :: "utext \<Rightarrow> utext \<Rightarrow> utext option" where
  "extract_token transcript prefix = rejoin_wrapped (strip_ansi transcript) prefix"

definition contains_failure_marker :: "utext \<Rightarrow> utext list \<Rightarrow> bool" where
  "contains_failure_marker transcript markers =
     (let stripped = strip_ansi transcript in
      list_ex (\<lambda>marker. marker \<noteq> [] \<and> find_sub marker stripped \<noteq> None) markers)"

text \<open>\<open>lower\<close> is \<open>char::to_lowercase\<close>.\<close>

definition normalise :: "(uchar \<Rightarrow> utext) \<Rightarrow> utext \<Rightarrow> utext" where
  "normalise lower text = concat (map lower (filter (\<lambda>c. \<not> is_whitespace c) text))"

definition contains_paste_prompt :: "(uchar \<Rightarrow> utext) \<Rightarrow> utext \<Rightarrow> utext \<Rightarrow> bool" where
  "contains_paste_prompt lower transcript marker =
     (if marker = [] then False
      else find_sub (normalise lower marker) (normalise lower (strip_ansi transcript)) \<noteq> None)"

section \<open>What is read\<close>

definition printable :: "uchar \<Rightarrow> bool" where
  "printable c \<longleftrightarrow> c = 0x0A \<or> c = 0x0D \<or> c = 0x09 \<or> \<not> is_control c"

lemma ESC_not_printable: "\<not> printable ESC"
  by (simp add: printable_def is_control_def ESC_def)

declare strip_ansi.simps(2) [simp del]

lemma strip_ansi_plain: "c \<noteq> ESC \<Longrightarrow> strip_ansi (c # cs) = (if printable c then c # strip_ansi cs else strip_ansi cs)"
  by (simp add: strip_ansi.simps(2) printable_def)

lemma strip_ansi_printable: "c \<in> set (strip_ansi s) \<Longrightarrow> printable c"
proof (induction s rule: strip_ansi.induct)
  case (2 b cs)
  show ?case
  proof (cases "b = ESC")
    case False
    with 2 show ?thesis by (auto simp: strip_ansi_plain printable_def split: if_splits)
  next
    case True
    then show ?thesis
    proof (cases cs)
      case (Cons d ds)
      with True 2(3-5) 2(6) show ?thesis
        by (simp add: strip_ansi.simps(2) split: if_splits)
    qed (use True 2(6) in \<open>simp add: strip_ansi.simps(2)\<close>)
  qed
qed simp

lemma strip_ansi_id: "\<forall>c \<in> set s. printable c \<Longrightarrow> strip_ansi s = s"
proof (induction s rule: strip_ansi.induct)
  case (2 c cs)
  then have "c \<noteq> ESC" using ESC_not_printable by auto
  then show ?case using 2 by (auto simp: strip_ansi_plain printable_def)
qed simp

lemma strip_ansi_idem: "strip_ansi (strip_ansi s) = strip_ansi s"
  by (rule strip_ansi_id) (auto dest: strip_ansi_printable)

lemma url_char_ascii: "is_url_char c \<Longrightarrow> c < 0x80 \<and> 0x20 < c"
  by (auto simp: is_url_char_def is_ascii_alphanumeric_def lit_def)

lemma bytes_ascii: "\<forall>c \<in> set s. c < 0x80 \<Longrightarrow> bytes s = length s"
  by (induction s) (auto simp: bytes_def utf8_width_def)

lemma length_le_bytes: "length s \<le> bytes s"
  by (induction s) (auto simp: bytes_def utf8_width_def)

lemma find_line_start: "find_line prefix ls = Some (start, rest) \<Longrightarrow> take (length prefix) start = prefix"
  by (induction ls) (auto split: option.splits dest: find_sub_match)

lemma takeWhile_prefix:
  assumes "take (length p) s = p" "length p < length (takeWhile P s)"
  shows "take (length p) (takeWhile P s) = p"
proof -
  have "take (length p) (takeWhile P s) = take (length p) s"
    using assms(2) by (metis append_eq_append_conv_if append_take_drop_id le_eq_less_or_eq takeWhile_dropWhile_id take_append diff_is_0_eq append_Nil2 take0)
  then show ?thesis using assms(1) by simp
qed

lemma rejoin_wrapped_shape:
  assumes "rejoin_wrapped s prefix = Some v"
  shows "take (length prefix) v = prefix \<and> length prefix < length v \<and> list_all is_url_char v"
proof -
  from assms obtain start rest where l: "find_line prefix (filter (\<lambda>l. l \<noteq> []) (map trim (split_on (\<lambda>c. c = 0x0A \<or> c = 0x0D) s))) = Some (start, rest)"
    and v: "v = takeWhile is_url_char (start @ concat (takeWhile (list_all is_url_char) rest))" "\<not> bytes v \<le> bytes prefix"
    by (auto simp: rejoin_wrapped_def Let_def split: option.splits if_splits)
  have url: "list_all is_url_char v" unfolding v(1) by (auto simp: list_all_iff dest: set_takeWhileD)
  then have "bytes v = length v" by (intro bytes_ascii) (auto simp: list_all_iff dest: url_char_ascii)
  then have len: "length prefix < length v" using v(2) length_le_bytes [of prefix] by simp
  have "take (length prefix) start = prefix" using find_line_start [OF l] .
  moreover from this have "length prefix \<le> length start" by (metis length_take min.cobounded1)
  ultimately have "take (length prefix) (start @ concat (takeWhile (list_all is_url_char) rest)) = prefix" by simp
  from takeWhile_prefix [OF this] len url show ?thesis unfolding v(1) by simp
qed

text \<open>The non-blank lines of a text.\<close>

definition text_lines :: "utext \<Rightarrow> utext list" where
  "text_lines s = filter (\<lambda>l. l \<noteq> []) (map trim (split_on (\<lambda>c. c = 0x0A \<or> c = 0x0D) s))"

lemma split_on_nonempty: "split_on P s \<noteq> []"
  by (induction s) (auto split: list.splits)

lemma split_on_append: "P c \<Longrightarrow> split_on P (a @ c # b) = split_on P a @ split_on P b"
proof (induction a)
  case (Cons d a)
  then show ?case using split_on_nonempty [of P a] by (cases "split_on P a") auto
qed simp

lemma split_on_single: "\<forall>c \<in> set s. \<not> P c \<Longrightarrow> split_on P s = [s]"
  by (induction s) auto

definition newline :: "uchar \<Rightarrow> bool" where
  "newline c \<longleftrightarrow> c = 0x0A \<or> c = 0x0D"

lemma text_lines_append: "newline c \<Longrightarrow> text_lines (a @ c # b) = text_lines a @ text_lines b"
  unfolding text_lines_def newline_def using split_on_append [of "\<lambda>c. c = 0x0A \<or> c = 0x0D" c a b] by simp

lemma text_lines_newlines: "list_all newline s \<Longrightarrow> text_lines (s @ b) = text_lines b"
proof (induction s)
  case (Cons c s)
  then show ?case using text_lines_append [of c "[]" "s @ b"] by (simp add: text_lines_def trim_def trim_end_def trim_start_def trim_end_matches_def)
qed simp

lemma url_not_space: "is_url_char c \<Longrightarrow> \<not> is_whitespace c"
  using url_char_ascii [of c] by (auto simp: is_whitespace_def)

lemma trim_url: "list_all is_url_char s \<Longrightarrow> trim s = s"
proof -
  assume s: "list_all is_url_char s"
  then have "\<forall>c \<in> set s. \<not> is_whitespace c" by (auto simp: list_all_iff dest: url_not_space)
  then have "\<And>t. set t = set s \<Longrightarrow> dropWhile is_whitespace t = t"
    by (metis dropWhile_eq_self_iff hd_in_set)
  then have "dropWhile is_whitespace s = s" "dropWhile is_whitespace (rev s) = rev s" by simp_all
  then show "trim s = s" by (simp add: trim_def trim_end_def trim_start_def trim_end_matches_def)
qed

lemma text_lines_url:
  assumes "list_all is_url_char s" "s \<noteq> []"
  shows "text_lines s = [s]"
proof -
  have "\<forall>c \<in> set s. 0x20 < c" using assms(1) url_char_ascii by (auto simp: list_all_iff)
  then have "\<forall>c \<in> set s. \<not> (c = 0x0A \<or> c = 0x0D)" by fastforce
  then show ?thesis using assms by (simp add: text_lines_def split_on_single trim_url)
qed

text \<open>A value as the terminal wraps it: every piece of it is followed by line breaks.\<close>

definition wrapped :: "(utext \<times> utext) list \<Rightarrow> utext" where
  "wrapped ps = concat (map (\<lambda>(p, brk). p @ brk) ps)"

definition wrapping :: "(utext \<times> utext) list \<Rightarrow> bool" where
  "wrapping ps \<longleftrightarrow> list_all (\<lambda>(p, brk). p \<noteq> [] \<and> list_all is_url_char p \<and> brk \<noteq> [] \<and> list_all newline brk) ps"

lemma text_lines_pieces:
  "wrapping ps \<Longrightarrow> text_lines (wrapped ps @ rest) = map fst ps @ text_lines rest"
proof (induction ps)
  case (Cons q ps)
  obtain p b brk where q: "q = (p, b # brk)" using Cons.prems by (cases q; cases "snd q") (auto simp: wrapping_def)
  have "text_lines (p @ b # brk @ wrapped ps @ rest) = p # text_lines (brk @ wrapped ps @ rest)"
    using Cons.prems by (simp add: q wrapping_def text_lines_append text_lines_url)
  also have "text_lines (brk @ wrapped ps @ rest) = text_lines (wrapped ps @ rest)"
    using Cons.prems by (intro text_lines_newlines) (simp add: q wrapping_def)
  finally show ?case using Cons by (simp add: q wrapping_def wrapped_def)
qed (simp add: wrapped_def)

lemma find_line_skip: "\<forall>l \<in> set ls. find_sub prefix l = None \<Longrightarrow> find_line prefix (ls @ ms) = find_line prefix ms"
  by (induction ls) auto

lemma rejoin_wrapped_pieces:
  assumes ps: "ps \<noteq> []" "wrapping ps" and brk: "newline c"
    and start: "take (length prefix) (fst (hd ps)) = prefix" "prefix \<noteq> concat (map fst ps)"
    and before: "\<forall>l \<in> set (text_lines before). find_sub prefix l = None"
    and after: "text_lines rest = [] \<or> \<not> list_all is_url_char (hd (text_lines rest))"
  shows "rejoin_wrapped (before @ c # wrapped ps @ rest) prefix = Some (concat (map fst ps))"
proof -
  define pieces where "pieces = map fst ps"
  have pieces: "pieces \<noteq> []" "\<forall>p \<in> set pieces. p \<noteq> [] \<and> list_all is_url_char p"
    using ps by (auto simp: pieces_def wrapping_def list_all_iff)
  have start: "take (length prefix) (hd pieces) = prefix" "prefix \<noteq> concat pieces"
    using start ps(1) by (simp_all add: pieces_def hd_map)
  obtain q qs where q: "pieces = q # qs" using pieces(1) by (cases pieces) auto
  have "text_lines (before @ c # wrapped ps @ rest) = text_lines before @ pieces @ text_lines rest"
    by (simp add: text_lines_append [OF brk] text_lines_pieces [OF ps(2)] pieces_def)
  moreover have "find_sub prefix q = Some 0" using start(1) q pieces(2) by (cases q) auto
  ultimately have line: "find_line prefix (text_lines (before @ c # wrapped ps @ rest)) = Some (q, qs @ text_lines rest)"
    using find_line_skip [OF before] by (simp add: q)
  have "takeWhile (list_all is_url_char) (text_lines rest) = []" using after by (cases "text_lines rest") auto
  then have joined: "q @ concat (takeWhile (list_all is_url_char) (qs @ text_lines rest)) = concat pieces"
    using pieces(2) by (simp add: q takeWhile_append2)
  have url: "\<forall>c \<in> set (concat pieces). is_url_char c" using pieces(2) by (auto simp: list_all_iff)
  have len: "length prefix \<le> length q" using start(1) by (metis length_take min.cobounded1 q list.sel(1))
  have asc: "bytes (concat pieces) = length (concat pieces)" "bytes prefix = length prefix"
  proof -
    show "bytes (concat pieces) = length (concat pieces)" using url by (intro bytes_ascii) (auto dest: url_char_ascii)
    have "set prefix \<subseteq> set (concat pieces)" using start(1) q by (metis set_take_subset list.sel(1) concat.simps(2) set_append sup.coboundedI1)
    then show "bytes prefix = length prefix" using url by (intro bytes_ascii) (auto dest: url_char_ascii)
  qed
  have "length prefix \<noteq> length (concat pieces)"
  proof
    assume e: "length prefix = length (concat pieces)"
    then have "qs = [] \<or> concat qs = []" using len q by auto
    then have "concat pieces = q" using q by auto
    then show False using start e q by simp
  qed
  then have "length prefix < length (concat pieces)" using len q by simp
  moreover have cut: "takeWhile is_url_char (concat pieces) = concat pieces" by (rule takeWhile_eq_all_conv [THEN iffD2, OF url])
  ultimately show ?thesis
    unfolding rejoin_wrapped_def text_lines_def [symmetric] Let_def line option.case prod.case joined cut asc
    by (simp del: length_concat add: pieces_def)
qed

text \<open>Whatever colour codes, cursor movements and hyperlinks a transcript carries, a token that the
  terminal broke over several lines (with any run of carriage returns and line feeds between the
  pieces) is read back whole: the pieces are put together again, exactly up to the end of the last
  one, provided no earlier line carries the prefix and the next non-blank line is not itself built
  from URL characters only.\<close>

theorem token_recovered:
  assumes "strip_ansi raw = before @ c # wrapped ps @ rest"
    and "ps \<noteq> []" "wrapping ps" "newline c"
    and "take (length prefix) (fst (hd ps)) = prefix" "prefix \<noteq> concat (map fst ps)"
    and "\<forall>l \<in> set (text_lines before). find_sub prefix l = None"
    and "text_lines rest = [] \<or> \<not> list_all is_url_char (hd (text_lines rest))"
  shows "extract_token raw prefix = Some (concat (map fst ps))"
  using assms by (simp add: extract_token_def rejoin_wrapped_pieces)

theorem token_recovered_witness:
  "extract_token ([ESC] @ lit ''[1mYour token:'' @ [0x0D, 0x0A] @ lit ''sk-ant-ab'' @ [ESC] @ lit ''[2G'' @ [0x0D, 0x0D, 0x0A]
      @ lit ''cd9'' @ [0x0A] @ lit ''Keep it safe'') (lit ''sk-ant-'')
     = Some (lit ''sk-ant-abcd9'')"
proof -
  let ?ps = "[(lit ''sk-ant-ab'', [0x0D, 0x0D, 0x0A]), (lit ''cd9'', [0x0A])]"
  let ?raw = "[ESC] @ lit ''[1mYour token:'' @ [0x0D, 0x0A] @ lit ''sk-ant-ab'' @ [ESC] @ lit ''[2G'' @ [0x0D, 0x0D, 0x0A]
      @ lit ''cd9'' @ [0x0A] @ lit ''Keep it safe''"
  have "strip_ansi ?raw = (lit ''Your token:'' @ [0x0D]) @ 0x0A # wrapped ?ps @ lit ''Keep it safe''"
    by (simp add: strip_ansi.simps(2) ESC_def lit_def wrapped_def is_control_def)
  from token_recovered [OF this, of "lit ''sk-ant-''"] show ?thesis
    by (simp add: wrapping_def newline_def lit_def is_url_char_def is_ascii_alphanumeric_def text_lines_def
        trim_def trim_end_def trim_start_def trim_end_matches_def is_whitespace_def)
qed

end
