(* ===== verification/Runner_Engine.thy ===== *)
theory Runner_Engine
  imports Runner_Scrape "HOL-Library.AList" "HOL-Library.List_Lexorder" "HOL-Library.Word"
begin

text \<open>
  The container engine of the runner, \<open>src/src/runner/engine.rs\<close>: its interface as a record of
  state-passing operations, the laws its clients rely on as the locale \<open>container_engine\<close>, and the
  in-memory implementation, on which the locale is interpreted. The Docker implementation talks to
  a daemon through a client library and is not modelled; the laws say what the service needs of it.
\<close>

section \<open>The interface\<close>

datatype EngineError = Unavailable utext | EngineNotFound | Conflict | EngineFailed utext

type_synonym label_map = "utext \<rightharpoonup> utext"

record ContainerSpec =
  cs_name :: utext
  cs_image :: utext
  cs_command :: "utext list"
  cs_labels :: label_map
  cs_memory_bytes :: int
  cs_nano_cpus :: int
  cs_pids_limit :: int

record ContainerRecord =
  cr_id :: utext
  cr_name :: utext
  cr_labels :: label_map
  cr_running :: bool

record 'e ContainerEngine =
  ping_of :: "'e \<Rightarrow> (EngineError + unit) \<times> 'e"
  create_of :: "ContainerSpec \<Rightarrow> 'e \<Rightarrow> (EngineError + utext) \<times> 'e"
  start_of :: "utext \<Rightarrow> 'e \<Rightarrow> (EngineError + unit) \<times> 'e"
  list_runners_of :: "'e \<Rightarrow> (EngineError + ContainerRecord list) \<times> 'e"
  inspect_of :: "utext \<Rightarrow> 'e \<Rightarrow> (EngineError + ContainerRecord) \<times> 'e"
  transcript_of :: "utext \<Rightarrow> 'e \<Rightarrow> (EngineError + utext) \<times> 'e"
  write_stdin_of :: "utext \<Rightarrow> utext \<Rightarrow> 'e \<Rightarrow> (EngineError + unit) \<times> 'e"
  rename_of :: "utext \<Rightarrow> utext \<Rightarrow> 'e \<Rightarrow> (EngineError + unit) \<times> 'e"
  remove_of :: "utext \<Rightarrow> 'e \<Rightarrow> (EngineError + unit) \<times> 'e"

definition LABEL_MARKER :: utext where "LABEL_MARKER = lit ''moira.runner''"
definition LABEL_MARKER_VALUE :: utext where "LABEL_MARKER_VALUE = lit ''1''"

text \<open>What a client sees of an engine: the name and the labels of each container. A failed call may
  have had its effect (the answer was lost). A container is addressed by its id; what else a text
  may resolve to is the engine's choice.\<close>

locale container_engine =
  fixes E :: "'e ContainerEngine"
    and inv :: "'e \<Rightarrow> bool"
    and view :: "'e \<Rightarrow> utext \<rightharpoonup> utext \<times> label_map"
  assumes create_law: "inv e \<Longrightarrow> create_of E spec e = (made, e') \<Longrightarrow> inv e' \<and>
      ((\<exists>x. made = Inl x) \<and> view e' = view e
       \<or> (\<exists>c. (made = Inr c \<or> (\<exists>x. made = Inl x)) \<and> view e' = (view e)(c \<mapsto> (cs_name spec, cs_labels spec))))"
    and ping_law: "inv e \<Longrightarrow> ping_of E e = (r, e') \<Longrightarrow> inv e' \<and> view e' = view e"
    and start_law: "inv e \<Longrightarrow> start_of E c e = (r, e') \<Longrightarrow> inv e' \<and> view e' = view e"
    and list_law: "inv e \<Longrightarrow> list_runners_of E e = (l, e') \<Longrightarrow> inv e' \<and> view e' = view e"
    and list_sound: "inv e \<Longrightarrow> list_runners_of E e = (Inr records, e') \<Longrightarrow> record \<in> set records \<Longrightarrow>
      view e (cr_id record) = Some (cr_name record, cr_labels record)"
    and list_complete: "inv e \<Longrightarrow> list_runners_of E e = (Inr records, e') \<Longrightarrow> view e c = Some (n, labels) \<Longrightarrow>
      labels LABEL_MARKER = Some LABEL_MARKER_VALUE \<Longrightarrow> \<exists>record \<in> set records. cr_id record = c"
    and transcript_law: "inv e \<Longrightarrow> transcript_of E c e = (t, e') \<Longrightarrow> inv e' \<and> view e' = view e"
    and write_stdin_law: "inv e \<Longrightarrow> write_stdin_of E c input e = (r, e') \<Longrightarrow> inv e' \<and> view e' = view e"
    and rename_law: "inv e \<Longrightarrow> rename_of E c n e = (r, e') \<Longrightarrow> inv e' \<and>
      ((\<exists>x. r = Inl x) \<and> view e' = view e
       \<or> (\<exists>t m labels. view e t = Some (m, labels) \<and> (view e c \<noteq> None \<longrightarrow> t = c) \<and> view e' = (view e)(t \<mapsto> (n, labels))))"
    and remove_law: "inv e \<Longrightarrow> remove_of E c e = (r, e') \<Longrightarrow> inv e' \<and>
      (view e' = view e \<or> (\<exists>t. view e' = (view e)(t := None)))"

section \<open>The in-memory engine\<close>

record FakeContainer =
  fc_id :: utext
  fc_name :: utext
  fc_spec :: ContainerSpec
  fc_running :: bool
  fc_transcript :: utext
  fc_stdin :: utext

record FakeState =
  containers :: "(utext \<times> FakeContainer) list"
  next_id :: "64 word"
  ping_fails :: bool
  engine_down :: bool

definition in_memory_new :: FakeState where
  "in_memory_new = \<lparr>containers = [], next_id = 0, ping_fails = False, engine_down = False\<rparr>"

definition resolve :: "FakeState \<Rightarrow> utext \<Rightarrow> utext option" where
  "resolve s c =
     (if map_of (containers s) c \<noteq> None then Some c
      else map_option fc_id (find (\<lambda>f. fc_name f = c) (map snd (containers s))))"

definition update_container :: "utext \<Rightarrow> (FakeContainer \<Rightarrow> FakeContainer) \<Rightarrow> FakeState \<Rightarrow> FakeState" where
  "update_container key f s = s\<lparr>containers := map (\<lambda>(k, c). (k, if k = key then f c else c)) (containers s)\<rparr>"

definition set_ping_fails :: "bool \<Rightarrow> FakeState \<Rightarrow> FakeState" where
  "set_ping_fails fails s = s\<lparr>ping_fails := fails\<rparr>"

definition set_engine_down :: "bool \<Rightarrow> FakeState \<Rightarrow> FakeState" where
  "set_engine_down down s = s\<lparr>engine_down := down\<rparr>"

definition set_transcript :: "utext \<Rightarrow> utext \<Rightarrow> FakeState \<Rightarrow> FakeState" where
  "set_transcript c t s = (case resolve s c of Some key \<Rightarrow> update_container key (fc_transcript_update (\<lambda>_. t)) s | None \<Rightarrow> s)"

definition set_running :: "utext \<Rightarrow> bool \<Rightarrow> FakeState \<Rightarrow> FakeState" where
  "set_running c running s = (case resolve s c of Some key \<Rightarrow> update_container key (fc_running_update (\<lambda>_. running)) s | None \<Rightarrow> s)"

definition stdin_writes :: "utext \<Rightarrow> FakeState \<Rightarrow> utext" where
  "stdin_writes c s =
     (case Option.bind (resolve s c) (\<lambda>key. map_option fc_stdin (map_of (containers s) key)) of Some input \<Rightarrow> input | None \<Rightarrow> [])"

definition container_names :: "FakeState \<Rightarrow> utext list" where
  "container_names s = sort (map (fc_name \<circ> snd) (containers s))"

definition created_specs :: "FakeState \<Rightarrow> ContainerSpec list" where
  "created_specs s = map fc_spec (sort_key fc_id (map snd (containers s)))"

definition record_of :: "FakeContainer \<Rightarrow> ContainerRecord" where
  "record_of c = \<lparr>cr_id = fc_id c, cr_name = fc_name c, cr_labels = cs_labels (fc_spec c), cr_running = fc_running c\<rparr>"

definition require_up :: "FakeState \<Rightarrow> EngineError + unit" where
  "require_up s = (if engine_down s then Inl (Unavailable (lit ''in-memory engine is marked down'')) else Inr ())"

definition mem_ping :: "FakeState \<Rightarrow> (EngineError + unit) \<times> FakeState" where
  "mem_ping s = (if ping_fails s \<or> engine_down s then (Inl (Unavailable (lit ''in-memory engine is down'')), s) else (Inr (), s))"

text \<open>\<open>{:012}\<close>: decimal digits, padded with zeros to twelve.\<close>

fun decimal_digits :: "nat \<Rightarrow> utext" where
  "decimal_digits n = (if n < 10 then [0x30 + n] else decimal_digits (n div 10) @ [0x30 + n mod 10])"

declare decimal_digits.simps [simp del]

definition fake_id :: "64 word \<Rightarrow> utext" where
  "fake_id n = (let d = decimal_digits (unat n) in lit ''fake-'' @ replicate (12 - length d) 0x30 @ d)"

definition mem_create :: "ContainerSpec \<Rightarrow> FakeState \<Rightarrow> (EngineError + utext) \<times> FakeState" where
  "mem_create spec s =
     (case require_up s of
        Inl e \<Rightarrow> (Inl e, s)
      | Inr _ \<Rightarrow>
          if \<exists>c \<in> set (map snd (containers s)). fc_name c = cs_name spec then (Inl Conflict, s)
          else
            let n = next_id s + 1; key = fake_id n in
            (Inr key, s\<lparr>next_id := n,
               containers := AList.update key
                 \<lparr>fc_id = key, fc_name = cs_name spec, fc_spec = spec, fc_running = False, fc_transcript = [], fc_stdin = []\<rparr>
                 (containers s)\<rparr>))"

text \<open>The operations that look a container up by its key: \<open>require_up\<close>, \<open>resolve\<close>, then the work.\<close>

definition with_container :: "FakeState \<Rightarrow> utext \<Rightarrow> (utext \<Rightarrow> FakeContainer \<Rightarrow> (EngineError + 'a) \<times> FakeState) \<Rightarrow> (EngineError + 'a) \<times> FakeState" where
  "with_container s c work =
     (case require_up s of
        Inl e \<Rightarrow> (Inl e, s)
      | Inr _ \<Rightarrow>
          (case resolve s c of
             None \<Rightarrow> (Inl EngineNotFound, s)
           | Some key \<Rightarrow>
               (case map_of (containers s) key of None \<Rightarrow> (Inl EngineNotFound, s) | Some f \<Rightarrow> work key f)))"

definition mem_start :: "utext \<Rightarrow> FakeState \<Rightarrow> (EngineError + unit) \<times> FakeState" where
  "mem_start c s = with_container s c (\<lambda>key _. (Inr (), update_container key (fc_running_update (\<lambda>_. True)) s))"

definition mem_list_runners :: "FakeState \<Rightarrow> (EngineError + ContainerRecord list) \<times> FakeState" where
  "mem_list_runners s =
     (case require_up s of
        Inl e \<Rightarrow> (Inl e, s)
      | Inr _ \<Rightarrow>
          (Inr (sort_key cr_id
             (map record_of (filter (\<lambda>c. cs_labels (fc_spec c) LABEL_MARKER = Some LABEL_MARKER_VALUE) (map snd (containers s))))), s))"

definition mem_inspect :: "utext \<Rightarrow> FakeState \<Rightarrow> (EngineError + ContainerRecord) \<times> FakeState" where
  "mem_inspect c s = with_container s c (\<lambda>_ f. (Inr (record_of f), s))"

definition mem_transcript :: "utext \<Rightarrow> FakeState \<Rightarrow> (EngineError + utext) \<times> FakeState" where
  "mem_transcript c s = with_container s c (\<lambda>_ f. (Inr (fc_transcript f), s))"

definition mem_write_stdin :: "utext \<Rightarrow> utext \<Rightarrow> FakeState \<Rightarrow> (EngineError + unit) \<times> FakeState" where
  "mem_write_stdin c input s =
     with_container s c (\<lambda>key _. (Inr (), update_container key (fc_stdin_update (\<lambda>old. old @ input)) s))"

definition mem_rename :: "utext \<Rightarrow> utext \<Rightarrow> FakeState \<Rightarrow> (EngineError + unit) \<times> FakeState" where
  "mem_rename c new_name s =
     with_container s c (\<lambda>key _.
       if \<exists>f \<in> set (map snd (containers s)). fc_id f \<noteq> key \<and> fc_name f = new_name then (Inl Conflict, s)
       else (Inr (), update_container key (fc_name_update (\<lambda>_. new_name)) s))"

definition mem_remove :: "utext \<Rightarrow> FakeState \<Rightarrow> (EngineError + unit) \<times> FakeState" where
  "mem_remove c s =
     (case require_up s of
        Inl e \<Rightarrow> (Inl e, s)
      | Inr _ \<Rightarrow>
          (case resolve s c of
             Some key \<Rightarrow> (Inr (), s\<lparr>containers := AList.delete key (containers s)\<rparr>)
           | None \<Rightarrow> (Inr (), s)))"

definition in_memory_engine :: "FakeState ContainerEngine" where
  "in_memory_engine =
     \<lparr>ping_of = mem_ping, create_of = mem_create, start_of = mem_start, list_runners_of = mem_list_runners,
      inspect_of = mem_inspect, transcript_of = mem_transcript, write_stdin_of = mem_write_stdin,
      rename_of = mem_rename, remove_of = mem_remove\<rparr>"

section \<open>The in-memory engine keeps the laws\<close>

definition mem_view :: "FakeState \<Rightarrow> utext \<rightharpoonup> utext \<times> label_map" where
  "mem_view s c = map_option (\<lambda>f. (fc_name f, cs_labels (fc_spec f))) (map_of (containers s) c)"

definition mem_inv :: "FakeState \<Rightarrow> bool" where
  "mem_inv s \<longleftrightarrow> distinct (map fst (containers s)) \<and> list_all (\<lambda>(k, f). fc_id f = k) (containers s)"

lemma update_container_inv:
  assumes "mem_inv s" "\<And>f. fc_id (g f) = fc_id f"
  shows "mem_inv (update_container key g s)"
proof -
  have "fst \<circ> (\<lambda>(k, c). (k, if k = key then g c else c)) = fst" by auto
  then show ?thesis using assms by (auto simp: mem_inv_def update_container_def list_all_iff)
qed

lemma map_of_update_container:
  "map_of (containers (update_container key g s)) c = map_option (\<lambda>f. if c = key then g f else f) (map_of (containers s) c)"
proof -
  have "map_of (map (\<lambda>(k, v). (k, if k = key then g v else v)) xs) c = map_option (\<lambda>f. if c = key then g f else f) (map_of xs c)"
    for xs by (induction xs) auto
  then show ?thesis by (simp add: update_container_def)
qed

lemma update_container_view:
  assumes "\<And>f. fc_name (g f) = fc_name f" "\<And>f. fc_spec (g f) = fc_spec f"
  shows "mem_view (update_container key g s) = mem_view s"
  using assms by (auto simp: mem_view_def fun_eq_iff map_of_update_container option.map_comp comp_def intro: map_option_cong)

lemma with_container_cases:
  assumes "with_container s c work = (r, s')"
  obtains x where "r = Inl x" "s' = s"
    | key f where "resolve s c = Some key" "map_of (containers s) key = Some f" "work key f = (r, s')"
  using assms by (auto simp: with_container_def split: sum.splits option.splits)

lemma mem_inv_new [simp]: "mem_inv in_memory_new"
  by (simp add: mem_inv_def in_memory_new_def)

lemma mem_set_keeps:
  assumes "mem_inv s"
  shows "mem_inv (set_transcript c t s)" "mem_view (set_transcript c t s) = mem_view s"
    and "mem_inv (set_running c b s)" "mem_view (set_running c b s) = mem_view s"
    and "mem_inv (set_ping_fails b s)" "mem_view (set_ping_fails b s) = mem_view s"
    and "mem_inv (set_engine_down b s)" "mem_view (set_engine_down b s) = mem_view s"
  using assms
  by (simp_all add: set_transcript_def set_running_def set_ping_fails_def set_engine_down_def update_container_inv
      update_container_view split: option.split) (simp_all add: mem_inv_def mem_view_def fun_eq_iff)

lemma mem_create_law:
  assumes "mem_inv s" "mem_create spec s = (made, s')"
  shows "mem_inv s' \<and> ((\<exists>x. made = Inl x) \<and> mem_view s' = mem_view s
    \<or> (\<exists>c. (made = Inr c \<or> (\<exists>x. made = Inl x)) \<and> mem_view s' = (mem_view s)(c \<mapsto> (cs_name spec, cs_labels spec))))"
proof -
  have "distinct (map fst (AList.update k f (containers s)))" for k f
    using assms(1) by (simp add: mem_inv_def distinct_update)
  moreover have "fc_id v = k'" if "(k', v) \<in> set (AList.update k f (containers s))" "fc_id f = k" for k f k' v
    using that calculation [of k f] assms(1) map_of_SomeD
    by (fastforce simp: mem_inv_def list_all_iff update_conv' dest!: map_of_is_SomeI split: if_splits)
  ultimately have "mem_inv (s\<lparr>next_id := n, containers := AList.update k f (containers s)\<rparr>)" if "fc_id f = k" for n k f
    using that by (auto simp: mem_inv_def list_all_iff)
  then show ?thesis
    using assms by (auto simp: mem_create_def Let_def mem_view_def fun_eq_iff update_conv split: sum.splits if_splits)
qed

lemma mem_rename_law:
  assumes "mem_inv s" "mem_rename c n s = (r, s')"
  shows "mem_inv s' \<and> ((\<exists>x. r = Inl x) \<and> mem_view s' = mem_view s
    \<or> (\<exists>t m labels. mem_view s t = Some (m, labels) \<and> (mem_view s c \<noteq> None \<longrightarrow> t = c) \<and> mem_view s' = (mem_view s)(t \<mapsto> (n, labels))))"
  using assms(2) unfolding mem_rename_def
proof (cases rule: with_container_cases)
  case (2 key f)
  then have t: "mem_view s c \<noteq> None \<longrightarrow> key = c" by (auto simp: mem_view_def resolve_def split: if_splits)
  show ?thesis
  proof (cases "\<exists>f \<in> set (map snd (containers s)). fc_id f \<noteq> key \<and> fc_name f = n")
    case False
    then have s': "s' = update_container key (fc_name_update (\<lambda>_. n)) s" using 2(3) by (simp only: if_False prod.inject)
    have "mem_view s' = (mem_view s)(key \<mapsto> (n, cs_labels (fc_spec f)))"
      using 2(2) by (auto simp: s' mem_view_def map_of_update_container fun_eq_iff option.map_comp comp_def)
    moreover have "mem_view s key = Some (fc_name f, cs_labels (fc_spec f))" using 2(2) by (simp add: mem_view_def)
    ultimately show ?thesis using assms(1) t by (simp add: s' update_container_inv) blast
  qed (use 2 assms(1) in auto)
qed (use assms(1) in auto)

lemma mem_list_sound:
  assumes "mem_inv s" "mem_list_runners s = (Inr records, s')" "record \<in> set records"
  shows "mem_view s (cr_id record) = Some (cr_name record, cr_labels record)"
proof -
  from assms obtain k f where "(k, f) \<in> set (containers s)" "record = record_of f"
    by (auto simp: mem_list_runners_def split: sum.splits)
  with assms(1) show ?thesis by (auto simp: mem_view_def mem_inv_def record_of_def list_all_iff)
qed

lemma mem_list_complete:
  assumes "mem_inv s" "mem_list_runners s = (Inr records, s')" "mem_view s c = Some (n, labels)"
    and "labels LABEL_MARKER = Some LABEL_MARKER_VALUE"
  shows "\<exists>record \<in> set records. cr_id record = c"
proof -
  from assms(3) obtain f where f: "map_of (containers s) c = Some f" "cs_labels (fc_spec f) = labels"
    by (auto simp: mem_view_def)
  then have "(c, f) \<in> set (containers s)" by (auto dest: map_of_SomeD)
  moreover from this have "fc_id f = c" using assms(1) by (auto simp: mem_inv_def list_all_iff)
  ultimately show ?thesis using assms f
    by (auto simp: mem_list_runners_def mem_inv_def list_all_iff record_of_def split: sum.splits intro!: bexI [of _ "(c, f)"])
qed

lemma mem_remove_law:
  assumes "mem_inv s" "mem_remove c s = (r, s')"
  shows "mem_inv s' \<and> (mem_view s' = mem_view s \<or> (\<exists>t. mem_view s' = (mem_view s)(t := None)))"
proof -
  have "mem_view (s\<lparr>containers := AList.delete key (containers s)\<rparr>) = (mem_view s)(key := None)" for key
    by (auto simp: mem_view_def fun_eq_iff delete_conv)
  moreover have "mem_inv (s\<lparr>containers := AList.delete key (containers s)\<rparr>)" for key
    using assms(1) by (auto simp: mem_inv_def list_all_iff AList.delete_eq distinct_map_filter)
  ultimately show ?thesis using assms by (auto simp: mem_remove_def split: sum.splits option.splits)
qed

lemma mem_passive_laws:
  assumes "mem_inv s"
  shows "mem_ping s = (r, s') \<Longrightarrow> mem_inv s' \<and> mem_view s' = mem_view s"
    and "mem_start c s = (r, s') \<Longrightarrow> mem_inv s' \<and> mem_view s' = mem_view s"
    and "mem_list_runners s = (l, s') \<Longrightarrow> mem_inv s' \<and> mem_view s' = mem_view s"
    and "mem_transcript c s = (t, s') \<Longrightarrow> mem_inv s' \<and> mem_view s' = mem_view s"
    and "mem_write_stdin c input s = (r, s') \<Longrightarrow> mem_inv s' \<and> mem_view s' = mem_view s"
  using assms
  by (auto simp: mem_ping_def mem_start_def mem_transcript_def mem_write_stdin_def mem_list_runners_def update_container_inv
      update_container_view split: sum.splits if_splits elim!: with_container_cases)

lemmas mem_laws = mem_create_law mem_passive_laws mem_list_sound mem_list_complete mem_rename_law mem_remove_law

lemma in_memory_engine_sel [simp]:
  "ping_of in_memory_engine = mem_ping" "create_of in_memory_engine = mem_create" "start_of in_memory_engine = mem_start"
  "list_runners_of in_memory_engine = mem_list_runners" "transcript_of in_memory_engine = mem_transcript"
  "write_stdin_of in_memory_engine = mem_write_stdin" "rename_of in_memory_engine = mem_rename"
  "remove_of in_memory_engine = mem_remove"
  by (simp_all add: in_memory_engine_def)

interpretation mem: container_engine in_memory_engine mem_inv mem_view
  by unfold_locales (unfold in_memory_engine_sel, (erule mem_laws; assumption)+)

end
