(* ===== verification/Runner_Config.thy ===== *)
theory Runner_Config
  imports Runner_Engine Ssrf
begin

text \<open>
  The settings of the runner and its control token, \<open>src/src/runner/config.rs\<close> and
  \<open>src/src/runner/token.rs\<close>. A \<open>ConfigError\<close> has one constructor for each message of the code.
  The parser of socket addresses and that of JSON arrays are parameters (\<open>config_lib\<close>); the
  source of the settings is the function the code is given.
\<close>

section \<open>Texts\<close>

text \<open>The bytes of a character in UTF-8.\<close>

definition utf8_char :: "uchar \<Rightarrow> nat list" where
  "utf8_char c =
     (if c < 0x80 then [c]
      else if c < 0x800 then [0xC0 + c div 0x40, 0x80 + c mod 0x40]
      else if c < 0x10000 then [0xE0 + c div 0x1000, 0x80 + c div 0x40 mod 0x40, 0x80 + c mod 0x40]
      else [0xF0 + c div 0x40000, 0x80 + c div 0x1000 mod 0x40, 0x80 + c div 0x40 mod 0x40, 0x80 + c mod 0x40])"

definition utf8 :: "utext \<Rightarrow> nat list" where
  "utf8 s = concat (map utf8_char s)"

lemma length_utf8: "length (utf8 s) = bytes s"
  by (induction s) (auto simp: utf8_def bytes_def utf8_char_def utf8_width_def)

definition text_ascii_lowercase :: "utext \<Rightarrow> utext" where
  "text_ascii_lowercase s = map (\<lambda>c. if 0x41 \<le> c \<and> c \<le> 0x5A then c + 0x20 else c) s"

definition text_words :: "utext \<Rightarrow> utext list" where
  "text_words s = filter (\<lambda>w. w \<noteq> []) (split_on is_whitespace s)"

definition rsplit_once :: "uchar \<Rightarrow> utext \<Rightarrow> (utext \<times> utext) option" where
  "rsplit_once c s =
     (if c \<in> set s then Some (rev (tl (dropWhile (\<lambda>x. x \<noteq> c) (rev s))), rev (takeWhile (\<lambda>x. x \<noteq> c) (rev s))) else None)"

text \<open>\<open>str::parse\<close> of integers: an optional sign, then digits, in range.\<close>

definition digit_value :: "uchar \<Rightarrow> nat option" where
  "digit_value c = (if 0x30 \<le> c \<and> c \<le> 0x39 then Some (c - 0x30) else None)"

fun digits_value :: "utext \<Rightarrow> nat \<Rightarrow> nat option" where
  "digits_value [] acc = Some acc"
| "digits_value (c # cs) acc = Option.bind (digit_value c) (\<lambda>d. digits_value cs (acc * 10 + d))"

definition parse_nat :: "utext \<Rightarrow> nat option" where
  "parse_nat s = (if s = [] then None else digits_value s 0)"

definition parse_u64 :: "utext \<Rightarrow> nat option" where
  "parse_u64 s =
     Option.bind (parse_nat (if s \<noteq> [] \<and> hd s = 0x2B then tl s else s)) (\<lambda>n. if n < 2 ^ 64 then Some n else None)"

definition parse_i64 :: "utext \<Rightarrow> int option" where
  "parse_i64 s =
     (if s \<noteq> [] \<and> hd s = 0x2D then Option.bind (parse_nat (tl s)) (\<lambda>n. if n \<le> 2 ^ 63 then Some (- int n) else None)
      else Option.bind (parse_nat (if s \<noteq> [] \<and> hd s = 0x2B then tl s else s)) (\<lambda>n. if n < 2 ^ 63 then Some (int n) else None))"

section \<open>The control token\<close>

definition matches :: "utext \<Rightarrow> utext \<Rightarrow> bool" where
  "matches token candidate =
     (let expected = utf8 token; presented = utf8 candidate in
      if length expected \<noteq> length presented then False else list_all2 (=) expected presented)"

fun distinct_loop :: "nat list \<Rightarrow> nat set \<Rightarrow> nat \<Rightarrow> nat" where
  "distinct_loop [] seen count = count"
| "distinct_loop (b # bs) seen count =
     (if b \<notin> seen then distinct_loop bs (insert b seen) (count + 1) else distinct_loop bs seen count)"

definition distinct_bytes :: "utext \<Rightarrow> nat" where
  "distinct_bytes token = distinct_loop (utf8 token) {} 0"

definition PLACEHOLDERS :: "utext list" where
  "PLACEHOLDERS = map lit [''changeme'', ''change-me'', ''placeholder'', ''secret'', ''password'', ''token'', ''moira'', ''test'', ''example'']"

definition is_well_known_placeholder :: "utext \<Rightarrow> bool" where
  "is_well_known_placeholder token =
     (let lowered = text_ascii_lowercase token in list_ex (\<lambda>candidate. find_sub candidate lowered \<noteq> None) PLACEHOLDERS)"

section \<open>The settings\<close>

definition MIN_CONTROL_TOKEN_BYTES :: nat where "MIN_CONTROL_TOKEN_BYTES = 32"
definition MIN_CONTROL_TOKEN_DISTINCT_BYTES :: nat where "MIN_CONTROL_TOKEN_DISTINCT_BYTES = 8"

datatype ConfigError =
    BindNotASocketAddress | BindNotLoopback
  | ControlTokenRequired | ControlTokenEmpty | ControlTokenShort | ControlTokenFewBytes | ControlTokenPlaceholder
  | ImageRequired | ImageEmpty | ImageWhitespace | ImageEmptyName | ImageNotPinned | ImageDigestNotHex | ImageDigestUppercase | ImageTagged
  | CommandNotJson | CommandEmpty
  | NotABoolean utext | NotAnInteger utext
  | MemoryNotPositive | CpusNotPositive | PidsNotPositive
  | TtlZero | DefaultTtlExceedsMax | ReapIntervalZero
  | UrlPrefixEmpty | TokenPrefixEmpty | PastePromptEmpty

record RunnerConfig =
  rc_bind :: "ip_addr \<times> 16 word"
  rc_control_token :: utext
  rc_allow_insecure_bind :: bool
  rc_docker_host :: "utext option"
  rc_image :: utext
  rc_command :: "utext list"
  rc_memory_bytes :: int
  rc_nano_cpus :: int
  rc_pids_limit :: int
  rc_default_ttl :: duration
  rc_max_ttl :: duration
  rc_reap_interval :: duration
  rc_authorization_url_prefix :: utext
  rc_paste_prompt_marker :: utext
  rc_token_prefix :: utext
  rc_failure_markers :: "utext list"

record config_lib =
  parse_socket_addr :: "utext \<Rightarrow> (ip_addr \<times> 16 word) option"
  parse_json_strings :: "utext \<Rightarrow> utext list option"

definition is_loopback :: "ip_addr \<Rightarrow> bool" where
  "is_loopback ip = (case ip of V4 a \<Rightarrow> ipv4_is_loopback a | V6 a \<Rightarrow> ipv6_is_loopback a)"

definition is_ascii_hexdigit :: "uchar \<Rightarrow> bool" where
  "is_ascii_hexdigit c \<longleftrightarrow> (0x30 \<le> c \<and> c \<le> 0x39) \<or> (0x41 \<le> c \<and> c \<le> 0x46) \<or> (0x61 \<le> c \<and> c \<le> 0x66)"

definition is_ascii_uppercase :: "uchar \<Rightarrow> bool" where
  "is_ascii_uppercase c \<longleftrightarrow> 0x41 \<le> c \<and> c \<le> 0x5A"

definition strip_prefix_text :: "utext \<Rightarrow> utext \<Rightarrow> utext option" where
  "strip_prefix_text pre s = (if take (length pre) s = pre then Some (drop (length pre) s) else None)"

definition validate_digest :: "utext option \<Rightarrow> utext \<Rightarrow> ConfigError + unit" where
  "validate_digest name digest =
     (case strip_prefix_text (lit ''sha256:'') digest of
        None \<Rightarrow> Err ImageNotPinned
      | Some hex \<Rightarrow>
          if bytes hex \<noteq> 64 \<or> \<not> list_all is_ascii_hexdigit hex then Err ImageDigestNotHex
          else if list_ex is_ascii_uppercase hex then Err ImageDigestUppercase
          else case name of
              Some n \<Rightarrow>
                let last_segment = rev (takeWhile (\<lambda>c. c \<noteq> 0x2F) (rev n)) in
                if 0x3A \<in> set last_segment then Err ImageTagged else Ok ()
            | None \<Rightarrow> Ok ())"

definition validate_image_reference :: "utext \<Rightarrow> ConfigError + unit" where
  "validate_image_reference img =
     (if img = [] then Err ImageEmpty
      else if list_ex is_whitespace img then Err ImageWhitespace
      else case rsplit_once 0x40 img of
          Some (name, digest) \<Rightarrow> if name = [] then Err ImageEmptyName else validate_digest (Some name) digest
        | None \<Rightarrow> validate_digest None img)"

definition parse_command :: "config_lib \<Rightarrow> utext \<Rightarrow> ConfigError + utext list" where
  "parse_command lib raw =
     (let trimmed = trim raw in
      and_then
        (if trimmed \<noteq> [] \<and> hd trimmed = 0x5B
         then (case parse_json_strings lib trimmed of None \<Rightarrow> Err CommandNotJson | Some parsed \<Rightarrow> Ok parsed)
         else Ok (text_words trimmed))
        (\<lambda>parsed. if parsed = [] then Err CommandEmpty else Ok parsed))"

definition read_bool :: "(utext \<Rightarrow> utext option) \<Rightarrow> utext \<Rightarrow> bool \<Rightarrow> ConfigError + bool" where
  "read_bool read suffix dflt =
     (case read suffix of
        None \<Rightarrow> Ok dflt
      | Some raw \<Rightarrow>
          let t = text_ascii_lowercase (trim raw) in
          if t \<in> set (map lit [''1'', ''true'', ''yes'', ''on'']) then Ok True
          else if t \<in> set (map lit [''0'', ''false'', ''no'', ''off'', '''']) then Ok False
          else Err (NotABoolean suffix))"

definition read_i64 :: "(utext \<Rightarrow> utext option) \<Rightarrow> utext \<Rightarrow> int \<Rightarrow> ConfigError + int" where
  "read_i64 read suffix dflt =
     (case read suffix of
        None \<Rightarrow> Ok dflt
      | Some raw \<Rightarrow> (case parse_i64 (trim raw) of None \<Rightarrow> Err (NotAnInteger suffix) | Some n \<Rightarrow> Ok n))"

definition read_u64 :: "(utext \<Rightarrow> utext option) \<Rightarrow> utext \<Rightarrow> nat \<Rightarrow> ConfigError + nat" where
  "read_u64 read suffix dflt =
     (case read suffix of
        None \<Rightarrow> Ok dflt
      | Some raw \<Rightarrow> (case parse_u64 (trim raw) of None \<Rightarrow> Err (NotAnInteger suffix) | Some n \<Rightarrow> Ok n))"

definition guard :: "bool \<Rightarrow> ConfigError \<Rightarrow> ConfigError + unit" where
  "guard refused e = (if refused then Err e else Ok ())"

definition validate :: "RunnerConfig \<Rightarrow> ConfigError + unit" where
  "validate c =
     and_then (validate_image_reference (rc_image c)) (\<lambda>_.
     and_then (guard (\<not> is_loopback (fst (rc_bind c)) \<and> \<not> rc_allow_insecure_bind c) BindNotLoopback) (\<lambda>_.
     and_then (guard (bytes (rc_control_token c) = 0) ControlTokenEmpty) (\<lambda>_.
     and_then (guard (bytes (rc_control_token c) < MIN_CONTROL_TOKEN_BYTES) ControlTokenShort) (\<lambda>_.
     and_then (guard (distinct_bytes (rc_control_token c) < MIN_CONTROL_TOKEN_DISTINCT_BYTES) ControlTokenFewBytes) (\<lambda>_.
     and_then (guard (is_well_known_placeholder (rc_control_token c)) ControlTokenPlaceholder) (\<lambda>_.
     and_then (guard (rc_command c = []) CommandEmpty) (\<lambda>_.
     and_then (guard (rc_memory_bytes c \<le> 0) MemoryNotPositive) (\<lambda>_.
     and_then (guard (rc_nano_cpus c \<le> 0) CpusNotPositive) (\<lambda>_.
     and_then (guard (rc_pids_limit c \<le> 0) PidsNotPositive) (\<lambda>_.
     and_then (guard (rc_default_ttl c = 0 \<or> rc_max_ttl c = 0) TtlZero) (\<lambda>_.
     and_then (guard (rc_default_ttl c > rc_max_ttl c) DefaultTtlExceedsMax) (\<lambda>_.
     and_then (guard (rc_reap_interval c = 0) ReapIntervalZero) (\<lambda>_.
     and_then (guard (rc_authorization_url_prefix c = []) UrlPrefixEmpty) (\<lambda>_.
     and_then (guard (rc_token_prefix c = []) TokenPrefixEmpty) (\<lambda>_.
     guard (rc_paste_prompt_marker c = []) PastePromptEmpty)))))))))))))))"

definition from_source :: "config_lib \<Rightarrow> (utext \<Rightarrow> utext option) \<Rightarrow> ConfigError + RunnerConfig" where
  "from_source lib source =
     (let read = (\<lambda>suffix. source (lit ''MOIRA_RUNNER__'' @ suffix));
          text_or = (\<lambda>suffix dflt. trim (case read suffix of Some raw \<Rightarrow> raw | None \<Rightarrow> dflt))
      in
      and_then (case parse_socket_addr lib (text_or (lit ''BIND'') (lit ''127.0.0.1:8090'')) of
                  Some b \<Rightarrow> Ok b | None \<Rightarrow> Err BindNotASocketAddress) (\<lambda>bind.
      and_then (read_bool read (lit ''ALLOW_INSECURE_BIND'') False) (\<lambda>allow_insecure_bind.
      and_then (case read (lit ''CONTROL_TOKEN'') of Some raw \<Rightarrow> Ok (trim raw) | None \<Rightarrow> Err ControlTokenRequired) (\<lambda>control_token.
      let docker_host = (case map_option trim (read (lit ''DOCKER_HOST'')) of Some h \<Rightarrow> if h \<noteq> [] then Some h else None | None \<Rightarrow> None) in
      and_then (case read (lit ''IMAGE'') of Some raw \<Rightarrow> Ok (trim raw) | None \<Rightarrow> Err ImageRequired) (\<lambda>img.
      and_then (case read (lit ''COMMAND'') of Some raw \<Rightarrow> parse_command lib raw | None \<Rightarrow> Ok [lit ''claude'', lit ''setup-token'']) (\<lambda>command.
      and_then (read_i64 read (lit ''MEMORY_BYTES'') (1024 * 1024 * 1024)) (\<lambda>memory_bytes.
      and_then (read_i64 read (lit ''NANO_CPUS'') 1000000000) (\<lambda>nano_cpus.
      and_then (read_i64 read (lit ''PIDS_LIMIT'') 256) (\<lambda>pids_limit.
      and_then (read_u64 read (lit ''DEFAULT_TTL_SECONDS'') 900) (\<lambda>default_ttl.
      and_then (read_u64 read (lit ''MAX_TTL_SECONDS'') 3600) (\<lambda>max_ttl.
      and_then (read_u64 read (lit ''REAP_INTERVAL_SECONDS'') 30) (\<lambda>reap_interval.
      let config = \<lparr>
        rc_bind = bind,
        rc_control_token = control_token,
        rc_allow_insecure_bind = allow_insecure_bind,
        rc_docker_host = docker_host,
        rc_image = img,
        rc_command = command,
        rc_memory_bytes = memory_bytes,
        rc_nano_cpus = nano_cpus,
        rc_pids_limit = pids_limit,
        rc_default_ttl = from_secs default_ttl,
        rc_max_ttl = from_secs max_ttl,
        rc_reap_interval = from_secs reap_interval,
        rc_authorization_url_prefix = text_or (lit ''AUTHORIZATION_URL_PREFIX'') (lit ''https://claude.com/cai/oauth/authorize''),
        rc_paste_prompt_marker = text_or (lit ''PASTE_PROMPT_MARKER'') (lit ''Paste code here''),
        rc_token_prefix = text_or (lit ''TOKEN_PREFIX'') (lit ''sk-ant-''),
        rc_failure_markers = (case read (lit ''FAILURE_MARKERS'') of
            Some raw \<Rightarrow> filter (\<lambda>m. m \<noteq> []) (map trim (split_on (\<lambda>c. c = 0x0A) raw))
          | None \<Rightarrow> [lit ''OAuth error''])\<rparr>
      in and_then (validate config) (\<lambda>_. Ok config)))))))))))))"

section \<open>What an accepted configuration guarantees\<close>

lemma guard_Ok [simp]: "guard b e = Ok u \<longleftrightarrow> \<not> b"
  by (simp add: guard_def)

lemma distinct_loop_card: "finite seen \<Longrightarrow> distinct_loop bs seen count = count + card (set bs - seen)"
proof (induction bs arbitrary: seen count)
  case (Cons b bs)
  then show ?case
  proof (cases "b \<in> seen")
    case False
    have "set (b # bs) - seen = insert b (set bs - insert b seen)" using False by auto
    then show ?thesis using Cons False by simp
  next
    case True
    then have "set (b # bs) - seen = set bs - seen" by auto
    then show ?thesis using Cons True by simp
  qed
qed simp

lemma distinct_bytes_card: "distinct_bytes t = card (set (utf8 t))"
  by (simp add: distinct_bytes_def distinct_loop_card)

text \<open>An image reference whose content is fixed: the digest, and a name before it that carries no tag.\<close>

definition pinned_digest :: "utext \<Rightarrow> bool" where
  "pinned_digest d \<longleftrightarrow> (\<exists>hex. d = lit ''sha256:'' @ hex \<and> length hex = 64 \<and> (\<forall>c \<in> set hex. is_ascii_hexdigit c \<and> \<not> is_ascii_uppercase c))"

definition content_pinned :: "utext \<Rightarrow> bool" where
  "content_pinned img \<longleftrightarrow> pinned_digest img \<or> (\<exists>name d. name \<noteq> [] \<and> img = name @ 0x40 # d \<and> pinned_digest d)"

lemma hex_bytes: "list_all is_ascii_hexdigit s \<Longrightarrow> bytes s = length s"
  by (rule bytes_ascii) (auto simp: list_all_iff is_ascii_hexdigit_def)

lemma validate_digest_Ok:
  assumes "validate_digest name d = Ok u"
  shows "pinned_digest d"
proof -
  from assms obtain hex where h: "strip_prefix_text (lit ''sha256:'') d = Some hex"
    "bytes hex = 64" "list_all is_ascii_hexdigit hex" "\<not> list_ex is_ascii_uppercase hex"
    by (auto simp: validate_digest_def split: option.splits if_splits)
  then have "d = lit ''sha256:'' @ hex" unfolding strip_prefix_text_def by (metis append_take_drop_id option.distinct(1) option.inject)
  then show ?thesis using h hex_bytes [OF h(3)] by (auto simp: pinned_digest_def list_all_iff list_ex_iff)
qed

lemma rsplit_once_Some: "rsplit_once c s = Some (a, b) \<Longrightarrow> s = a @ c # b"
proof -
  assume "rsplit_once c s = Some (a, b)"
  then have "c \<in> set (rev s)" and a: "a = rev (tl (dropWhile (\<lambda>x. x \<noteq> c) (rev s)))" "b = rev (takeWhile (\<lambda>x. x \<noteq> c) (rev s))"
    by (auto simp: rsplit_once_def split: if_splits)
  then obtain xs ys where x: "rev s = xs @ c # ys" "c \<notin> set xs" by (metis split_list_first)
  from x(2) have "dropWhile (\<lambda>x. x \<noteq> c) xs = []" "takeWhile (\<lambda>x. x \<noteq> c) xs = xs"
    by (auto simp: dropWhile_eq_Nil_conv takeWhile_eq_all_conv)
  then have "a = rev ys" "b = rev xs" using x by (auto simp: a dropWhile_append takeWhile_append)
  then show ?thesis using x(1) by (metis append.assoc append_Cons append_Nil rev.simps(2) rev_append rev_rev_ident)
qed

lemma validate_image_reference_Ok: "validate_image_reference img = Ok u \<Longrightarrow> content_pinned img"
  unfolding validate_image_reference_def content_pinned_def
  by (auto split: if_splits option.splits prod.splits dest!: validate_digest_Ok rsplit_once_Some)

lemma from_source_validated: "from_source lib source = Ok c \<Longrightarrow> validate c = Ok ()"
  by (auto simp: from_source_def Let_def and_then_Ok_iff)

text \<open>A runner that starts is one whose settings are safe to run with: the image is fixed by a digest, the
  address is a loopback one unless the operator opted out, the control token has at least 32 bytes of
  which 8 are different and contains no placeholder word, containers are limited, a runner lives a
  positive and bounded time, and no marker is empty.\<close>

theorem accepted_config_guards:
  assumes "from_source lib source = Ok c"
  shows "content_pinned (rc_image c)
    \<and> (is_loopback (fst (rc_bind c)) \<or> rc_allow_insecure_bind c)
    \<and> 32 \<le> length (utf8 (rc_control_token c)) \<and> 8 \<le> card (set (utf8 (rc_control_token c)))
    \<and> \<not> is_well_known_placeholder (rc_control_token c)
    \<and> rc_command c \<noteq> [] \<and> 0 < rc_memory_bytes c \<and> 0 < rc_nano_cpus c \<and> 0 < rc_pids_limit c
    \<and> 0 < rc_default_ttl c \<and> rc_default_ttl c \<le> rc_max_ttl c \<and> 0 < rc_reap_interval c
    \<and> rc_authorization_url_prefix c \<noteq> [] \<and> rc_token_prefix c \<noteq> [] \<and> rc_paste_prompt_marker c \<noteq> []"
  using from_source_validated [OF assms]
  by (auto simp: validate_def and_then_Ok_iff length_utf8 distinct_bytes_card MIN_CONTROL_TOKEN_BYTES_def
      MIN_CONTROL_TOKEN_DISTINCT_BYTES_def not_less dest!: validate_image_reference_Ok)

definition plain_config_lib :: config_lib where
  "plain_config_lib = \<lparr>parse_socket_addr = (\<lambda>_. Some (V4 (Ipv4Addr 127 0 0 1), 8090)), parse_json_strings = (\<lambda>_. None)\<rparr>"

definition demo_key :: utext where "demo_key = lit ''0123456789abcdef0123456789abcdef''"
definition demo_image :: utext where "demo_image = lit ''sha256:'' @ replicate 64 0x30"

definition demo_source :: "utext \<Rightarrow> utext option" where
  "demo_source = [lit ''MOIRA_RUNNER__CONTROL_TOKEN'' \<mapsto> demo_key, lit ''MOIRA_RUNNER__IMAGE'' \<mapsto> demo_image]"

lemma trim_plain: "s = [] \<or> \<not> is_whitespace (hd s) \<and> \<not> is_whitespace (last s) \<Longrightarrow> trim s = s"
proof -
  assume "s = [] \<or> \<not> is_whitespace (hd s) \<and> \<not> is_whitespace (last s)"
  then have "dropWhile is_whitespace s = s" "dropWhile is_whitespace (rev s) = rev s"
    by (auto simp: dropWhile_eq_self_iff hd_rev)
  then show "trim s = s" by (simp add: trim_def trim_end_def trim_start_def trim_end_matches_def)
qed

lemma demo_image_ok: "trim demo_image = demo_image" "validate_image_reference demo_image = Ok ()"
proof -
  show "trim demo_image = demo_image" by (rule trim_plain) (simp add: demo_image_def lit_def is_whitespace_def)
  have "rsplit_once 0x40 demo_image = None" by (simp add: rsplit_once_def demo_image_def lit_def)
  moreover have "validate_digest None demo_image = Ok ()"
    by (simp add: validate_digest_def demo_image_def strip_prefix_text_def list_all_iff list_ex_iff is_ascii_hexdigit_def
        is_ascii_uppercase_def bytes_def utf8_width_def sum_list_replicate)
  ultimately show "validate_image_reference demo_image = Ok ()"
    by (simp add: validate_image_reference_def) (simp add: demo_image_def lit_def is_whitespace_def list_ex_iff)
qed

lemma demo_key_ok: "demo_key \<noteq> []" "trim demo_key = demo_key" "bytes demo_key = 32" "distinct_bytes demo_key = 16" "\<not> is_well_known_placeholder demo_key"
proof -
  show "demo_key \<noteq> []" by (simp add: demo_key_def lit_def)
  show "trim demo_key = demo_key" by (rule trim_plain) (simp add: demo_key_def lit_def is_whitespace_def)
  show "bytes demo_key = 32" "distinct_bytes demo_key = 16"
    by (simp_all add: demo_key_def lit_def bytes_def utf8_width_def distinct_bytes_def utf8_def utf8_char_def)
  show "\<not> is_well_known_placeholder demo_key"
    by (simp add: demo_key_def is_well_known_placeholder_def PLACEHOLDERS_def lit_def text_ascii_lowercase_def)
qed

lemma demo_source_eq:
  "demo_source (lit ''MOIRA_RUNNER__'' @ lit s) =
     (if s = ''CONTROL_TOKEN'' then Some demo_key else if s = ''IMAGE'' then Some demo_image else None)"
proof -
  have "inj (of_char :: char \<Rightarrow> nat)" by (simp add: inj_def)
  then have "lit s = lit t \<longleftrightarrow> s = t" for t by (simp add: lit_def inj_map_eq_map)
  moreover have "lit ''MOIRA_RUNNER__CONTROL_TOKEN'' = lit ''MOIRA_RUNNER__'' @ lit ''CONTROL_TOKEN''"
    "lit ''MOIRA_RUNNER__IMAGE'' = lit ''MOIRA_RUNNER__'' @ lit ''IMAGE''" by (simp_all add: lit_def)
  ultimately show ?thesis unfolding demo_source_def by auto
qed

theorem accepted_config_guards_witness:
  "case from_source plain_config_lib demo_source of
     Ok c \<Rightarrow> content_pinned (rc_image c) \<and> 32 \<le> length (utf8 (rc_control_token c)) \<and> rc_default_ttl c \<le> rc_max_ttl c
   | Err e \<Rightarrow> False"
proof -
  have t: "trim (lit ''https://claude.com/cai/oauth/authorize'') \<noteq> []" "trim (lit ''sk-ant-'') \<noteq> []" "trim (lit ''Paste code here'') \<noteq> []"
    by (simp_all add: trim_plain lit_def is_whitespace_def)
  have "is_ok (from_source plain_config_lib demo_source)"
    using t
    by (simp add: from_source_def demo_source_eq plain_config_lib_def read_bool_def read_i64_def read_u64_def demo_key_ok demo_image_ok
        validate_def guard_def is_loopback_def MIN_CONTROL_TOKEN_BYTES_def MIN_CONTROL_TOKEN_DISTINCT_BYTES_def from_secs_def)
  then obtain c where "from_source plain_config_lib demo_source = Ok c" by (auto simp: is_ok_iff)
  with accepted_config_guards [OF this] show ?thesis by simp
qed

end
