(* ===== verification/Runner_Service.thy ===== *)
theory Runner_Service
  imports Runner_Config
begin

text \<open>
  The runner service, \<open>src/src/runner/state.rs\<close> and \<open>src/src/runner/service.rs\<close>. A runner is a
  container; everything the service knows of it is read back from the container's labels, its name
  and its terminal transcript, so that a restart loses nothing but the set of runners whose code was
  submitted. Handing the token out renames the container, and the name is the durable record that it
  was handed out.

  Every handler is a \<open>proc\<close>: the calls it awaits, in order, each with the continuation of its answer.
  Requests interleave at these calls, may be dropped at any of them, and the process may be restarted.

  Texts of ids and times and the time arithmetic belong to the \<open>uuid\<close> and \<open>chrono\<close> packages and are
  parameters (\<open>runner_lib\<close>), as is \<open>char::to_lowercase\<close>.
\<close>

type_synonym nanos = int

record runner_lib =
  uuid_text :: "uuid \<Rightarrow> utext"
  parse_uuid :: "utext \<Rightarrow> uuid option"
  rfc3339 :: "nanos \<Rightarrow> utext"
  parse_rfc3339 :: "utext \<Rightarrow> nanos option"
  from_std :: "nat \<Rightarrow> utext + nat"
  checked_add :: "nanos \<Rightarrow> nat \<Rightarrow> nanos option"
  to_lowercase :: "uchar \<Rightarrow> utext"

section \<open>The state of a runner\<close>

definition LABEL_ID :: utext where "LABEL_ID = lit ''moira.runner.id''"
definition LABEL_EXPIRES_AT :: utext where "LABEL_EXPIRES_AT = lit ''moira.runner.expires_at''"
definition NAME_PREFIX :: utext where "NAME_PREFIX = lit ''moira-runner''"
definition CONSUMED_SUFFIX :: utext where "CONSUMED_SUFFIX = lit ''-consumed''"

datatype RunnerState = Provisioning | AwaitingAuthorization | Exchanging | Ready | FailedState | Expired

fun as_str :: "RunnerState \<Rightarrow> string" where
  "as_str Provisioning = ''provisioning''"
| "as_str AwaitingAuthorization = ''awaiting_authorization''"
| "as_str Exchanging = ''exchanging''"
| "as_str Ready = ''ready''"
| "as_str FailedState = ''failed''"
| "as_str Expired = ''expired''"

definition ERROR_OAUTH_EXCHANGE_FAILED :: utext where "ERROR_OAUTH_EXCHANGE_FAILED = lit ''oauth_exchange_failed''"
definition ERROR_RUNNER_EXITED :: utext where "ERROR_RUNNER_EXITED = lit ''runner_exited''"

record RunnerView =
  rv_id :: uuid
  rv_container_id :: utext
  rv_container_name :: utext
  rv_state :: RunnerState
  rv_authorization_url :: "utext option"
  rv_expires_at :: nanos
  rv_error_code :: "utext option"
  rv_token_consumed :: bool

definition runner_labels :: "runner_lib \<Rightarrow> uuid \<Rightarrow> nanos \<Rightarrow> label_map" where
  "runner_labels lib uid expires_at =
     [LABEL_MARKER \<mapsto> LABEL_MARKER_VALUE, LABEL_ID \<mapsto> uuid_text lib uid, LABEL_EXPIRES_AT \<mapsto> rfc3339 lib expires_at]"

definition container_name :: "runner_lib \<Rightarrow> utext \<Rightarrow> uuid \<Rightarrow> utext" where
  "container_name lib label uid = NAME_PREFIX @ lit ''-'' @ label @ lit ''-'' @ uuid_text lib uid"

definition ends_with :: "utext \<Rightarrow> utext \<Rightarrow> bool" where
  "ends_with s suf \<longleftrightarrow> drop (length s - length suf) s = suf"

definition consumed_name :: "utext \<Rightarrow> utext" where
  "consumed_name current = (if ends_with current CONSUMED_SUFFIX then current else current @ CONSUMED_SUFFIX)"

definition is_consumed :: "utext \<Rightarrow> bool" where
  "is_consumed name = ends_with name CONSUMED_SUFFIX"

record RunnerIdentity =
  ri_id :: uuid
  ri_container_id :: utext
  ri_container_name :: utext
  ri_expires_at :: nanos
  ri_running :: bool
  ri_consumed :: bool

definition from_record :: "runner_lib \<Rightarrow> ContainerRecord \<Rightarrow> RunnerIdentity option" where
  "from_record lib record =
     (if cr_labels record LABEL_MARKER \<noteq> Some LABEL_MARKER_VALUE then None
      else
        Option.bind (Option.bind (cr_labels record LABEL_ID) (parse_uuid lib)) (\<lambda>id.
        Option.bind (Option.bind (cr_labels record LABEL_EXPIRES_AT) (parse_rfc3339 lib)) (\<lambda>expires_at.
        Some \<lparr>ri_id = id, ri_container_id = cr_id record, ri_container_name = cr_name record,
          ri_expires_at = expires_at, ri_running = cr_running record, ri_consumed = is_consumed (cr_name record)\<rparr>)))"

definition derive_state ::
    "runner_lib \<Rightarrow> RunnerIdentity \<Rightarrow> utext \<Rightarrow> RunnerConfig \<Rightarrow> nanos \<Rightarrow> bool \<Rightarrow> RunnerState \<times> utext option \<times> utext option" where
  "derive_state lib identity transcript config now code_submitted =
     (let url = extract_authorization_url transcript (rc_authorization_url_prefix config);
          has_token = extract_token transcript (rc_token_prefix config) \<noteq> None
      in if now \<ge> ri_expires_at identity then (Expired, url, None)
         else if has_token then (Ready, url, None)
         else if contains_failure_marker transcript (rc_failure_markers config)
           then (FailedState, url, Some ERROR_OAUTH_EXCHANGE_FAILED)
         else if \<not> ri_running identity then (FailedState, url, Some ERROR_RUNNER_EXITED)
         else if code_submitted then (Exchanging, url, None)
         else if url \<noteq> None \<and> contains_paste_prompt (to_lowercase lib) transcript (rc_paste_prompt_marker config)
           then (AwaitingAuthorization, url, None)
         else (Provisioning, url, None))"

section \<open>The service\<close>

definition MAX_AUTHORIZATION_CODE_BYTES :: nat where "MAX_AUTHORIZATION_CODE_BYTES = 4096"
definition MAX_LABEL_LENGTH :: nat where "MAX_LABEL_LENGTH = 64"

datatype ServiceError =
    NotFound
  | WrongState RunnerState
  | TokenAlreadyRetrieved
  | Invalid utext
  | DockerUnavailable utext
  | ServiceFailed utext

fun from_engine_error :: "EngineError \<Rightarrow> ServiceError" where
  "from_engine_error (Unavailable reason) = DockerUnavailable reason"
| "from_engine_error EngineNotFound = NotFound"
| "from_engine_error Conflict = ServiceFailed (lit ''container name already in use'')"
| "from_engine_error (EngineFailed reason) = ServiceFailed reason"

text \<open>The calls of a handler. \<open>NewUuidNow\<close> is \<open>Uuid::now_v7()\<close> followed by \<open>Utc::now()\<close>;
  \<open>LockGate\<close> waits for \<open>token_gate\<close>, which the handler holds until it ends.\<close>

datatype 'a proc =
    Done 'a
  | NewUuidNow "uuid \<Rightarrow> nanos \<Rightarrow> 'a proc"
  | Now "nanos \<Rightarrow> 'a proc"
  | Ping "EngineError + unit \<Rightarrow> 'a proc"
  | Create ContainerSpec "EngineError + utext \<Rightarrow> 'a proc"
  | Start utext "EngineError + unit \<Rightarrow> 'a proc"
  | ListRunners "EngineError + ContainerRecord list \<Rightarrow> 'a proc"
  | Transcript utext "EngineError + utext \<Rightarrow> 'a proc"
  | WriteStdin utext utext "EngineError + unit \<Rightarrow> 'a proc"
  | Rename utext utext "EngineError + unit \<Rightarrow> 'a proc"
  | Remove utext "EngineError + unit \<Rightarrow> 'a proc"
  | CodeSubmitted uuid "bool \<Rightarrow> 'a proc"
  | MarkExchanging uuid "'a proc"
  | ClearExchanging uuid "'a proc"
  | LockGate "'a proc"

datatype outcome = Viewed RunnerView | Token utext | Deleted | Reaped nat | DockerReachable bool | Panicked

type_synonym handler = "(ServiceError + outcome) proc"

definition is_ascii_lowercase :: "uchar \<Rightarrow> bool" where
  "is_ascii_lowercase c \<longleftrightarrow> 0x61 \<le> c \<and> c \<le> 0x7A"

definition is_ascii_digit :: "uchar \<Rightarrow> bool" where
  "is_ascii_digit c \<longleftrightarrow> 0x30 \<le> c \<and> c \<le> 0x39"

text \<open>A byte that is not ASCII comes from a character that is not ASCII, so \<open>bytes().all\<close> is a test of the characters.\<close>

definition validate_label :: "utext \<Rightarrow> ServiceError + unit" where
  "validate_label label =
     (if label = [] then Inl (Invalid (lit ''label must not be empty''))
      else if bytes label > MAX_LABEL_LENGTH then Inl (Invalid (lit ''label must be at most 64 characters''))
      else if \<not> list_all (\<lambda>b. is_ascii_lowercase b \<or> is_ascii_digit b \<or> b = 0x2D) label
        then Inl (Invalid (lit ''label must match [a-z0-9-]''))
      else if \<not> (is_ascii_lowercase (hd label) \<or> is_ascii_digit (hd label))
        then Inl (Invalid (lit ''label must start with a lowercase letter or a digit''))
      else Inr ())"

definition validate_authorization_code :: "utext \<Rightarrow> ServiceError + unit" where
  "validate_authorization_code code =
     (if code = [] then Inl (Invalid (lit ''code must not be empty''))
      else if bytes code > MAX_AUTHORIZATION_CODE_BYTES then Inl (Invalid (lit ''code must be at most 4096 bytes''))
      else if list_ex is_control code then Inl (Invalid (lit ''code must not contain control characters''))
      else Inr ())"

definition resolve_ttl :: "RunnerConfig \<Rightarrow> 64 word option \<Rightarrow> ServiceError + nat" where
  "resolve_ttl config ttl_seconds =
     (if ttl_seconds = Some 0 then Inl (Invalid (lit ''ttl_seconds must be greater than zero''))
      else
        let ttl = (case ttl_seconds of None \<Rightarrow> rc_default_ttl config | Some seconds \<Rightarrow> from_secs (unat seconds)) in
        if ttl > rc_max_ttl config
        then Inl (Invalid (lit ''ttl_seconds must not exceed '' @ decimal_digits (rc_max_ttl config div 1000000000)))
        else Inr ttl)"

subsection \<open>The handlers\<close>

definition list_then :: "runner_lib \<Rightarrow> (ServiceError + RunnerIdentity list \<Rightarrow> 'a proc) \<Rightarrow> 'a proc" where
  "list_then lib k =
     ListRunners (\<lambda>r. k (case r of Inl e \<Rightarrow> Inl (from_engine_error e) | Inr records \<Rightarrow> Inr (List.map_filter (from_record lib) records)))"

definition find_identity :: "uuid \<Rightarrow> ServiceError + RunnerIdentity list \<Rightarrow> ServiceError + RunnerIdentity" where
  "find_identity uid r =
     (case r of
        Inl e \<Rightarrow> Inl e
      | Inr identities \<Rightarrow> (case find (\<lambda>i. ri_id i = uid) identities of Some i \<Rightarrow> Inr i | None \<Rightarrow> Inl NotFound))"

definition find_then :: "runner_lib \<Rightarrow> uuid \<Rightarrow> (ServiceError + RunnerIdentity \<Rightarrow> 'a proc) \<Rightarrow> 'a proc" where
  "find_then lib uid k = list_then lib (\<lambda>r. k (find_identity uid r))"

definition view_of :: "runner_lib \<Rightarrow> RunnerConfig \<Rightarrow> RunnerIdentity \<Rightarrow> (ServiceError + RunnerView \<Rightarrow> 'a proc) \<Rightarrow> 'a proc" where
  "view_of lib config identity k =
     Transcript (ri_container_id identity) (\<lambda>r. case r of
       Inl e \<Rightarrow> k (Inl (from_engine_error e))
     | Inr transcript \<Rightarrow>
         CodeSubmitted (ri_id identity) (\<lambda>code_submitted.
         Now (\<lambda>now.
           let (state, authorization_url, error_code) = derive_state lib identity transcript config now code_submitted in
           k (Inr \<lparr>rv_id = ri_id identity, rv_container_id = ri_container_id identity,
               rv_container_name = ri_container_name identity, rv_state = state, rv_authorization_url = authorization_url,
               rv_expires_at = ri_expires_at identity, rv_error_code = error_code, rv_token_consumed = ri_consumed identity\<rparr>))))"

definition docker_reachable :: handler where
  "docker_reachable = Ping (\<lambda>r. Done (Inr (DockerReachable (is_ok r))))"

definition create :: "runner_lib \<Rightarrow> RunnerConfig \<Rightarrow> utext \<Rightarrow> 64 word option \<Rightarrow> handler" where
  "create lib config label ttl_seconds =
     (case and_then (validate_label label) (\<lambda>_. resolve_ttl config ttl_seconds) of
        Inl e \<Rightarrow> Done (Inl e)
      | Inr ttl \<Rightarrow>
          NewUuidNow (\<lambda>uid now.
            case from_std lib ttl of
              Inl error \<Rightarrow> Done (Inl (Invalid (lit ''ttl_seconds is out of range: '' @ error)))
            | Inr span \<Rightarrow>
                (case checked_add lib now span of
                   None \<Rightarrow> Done (Inr Panicked)
                 | Some expires_at \<Rightarrow>
                     let name = container_name lib label uid;
                         spec = \<lparr>cs_name = name, cs_image = rc_image config, cs_command = rc_command config,
                           cs_labels = runner_labels lib uid expires_at, cs_memory_bytes = rc_memory_bytes config,
                           cs_nano_cpus = rc_nano_cpus config, cs_pids_limit = rc_pids_limit config\<rparr>
                     in Create spec (\<lambda>r. case r of
                          Inl e \<Rightarrow> Done (Inl (from_engine_error e))
                        | Inr container_id \<Rightarrow>
                            Start container_id (\<lambda>r. case r of
                              Inl error \<Rightarrow> Remove container_id (\<lambda>_. Done (Inl (from_engine_error error)))
                            | Inr _ \<Rightarrow>
                                Done (Inr (Viewed
                                  \<lparr>rv_id = uid, rv_container_id = container_id, rv_container_name = name,
                                   rv_state = Provisioning, rv_authorization_url = None, rv_expires_at = expires_at,
                                   rv_error_code = None, rv_token_consumed = False\<rparr>)))))))"

definition view :: "runner_lib \<Rightarrow> RunnerConfig \<Rightarrow> uuid \<Rightarrow> handler" where
  "view lib config uid =
     find_then lib uid (\<lambda>r. case r of
       Inl e \<Rightarrow> Done (Inl e)
     | Inr identity \<Rightarrow>
         view_of lib config identity (\<lambda>r. Done (case r of Inl e \<Rightarrow> Inl e | Inr v \<Rightarrow> Inr (Viewed v))))"

definition submit_code :: "runner_lib \<Rightarrow> RunnerConfig \<Rightarrow> uuid \<Rightarrow> utext \<Rightarrow> handler" where
  "submit_code lib config uid code =
     (case validate_authorization_code code of
        Inl e \<Rightarrow> Done (Inl e)
      | Inr _ \<Rightarrow>
          find_then lib uid (\<lambda>r. case r of
            Inl e \<Rightarrow> Done (Inl e)
          | Inr identity \<Rightarrow>
              view_of lib config identity (\<lambda>r. case r of
                Inl e \<Rightarrow> Done (Inl e)
              | Inr v \<Rightarrow>
                  if rv_state v \<noteq> AwaitingAuthorization then Done (Inl (WrongState (rv_state v)))
                  else
                    WriteStdin (ri_container_id identity) (code @ [0x0D]) (\<lambda>r. case r of
                      Inl e \<Rightarrow> Done (Inl (from_engine_error e))
                    | Inr _ \<Rightarrow> MarkExchanging uid (Done (Inr (Viewed (v\<lparr>rv_state := Exchanging\<rparr>))))))))"

text \<open>The part of \<open>take_token\<close> that runs once the identity is read back.\<close>

definition take_found :: "runner_lib \<Rightarrow> RunnerConfig \<Rightarrow> uuid \<Rightarrow> RunnerIdentity \<Rightarrow> handler" where
  "take_found lib config uid identity =
     (if ri_consumed identity then Done (Inl TokenAlreadyRetrieved)
      else
        view_of lib config identity (\<lambda>r. case r of
          Inl e \<Rightarrow> Done (Inl e)
        | Inr v \<Rightarrow>
            if rv_state v \<noteq> Ready then Done (Inl (WrongState (rv_state v)))
            else
              Transcript (ri_container_id identity) (\<lambda>r. case r of
                Inl e \<Rightarrow> Done (Inl (from_engine_error e))
              | Inr transcript \<Rightarrow>
                  (case extract_token transcript (rc_token_prefix config) of
                     None \<Rightarrow> Done (Inl (ServiceFailed (lit ''the runner reported ready but produced no token'')))
                   | Some token \<Rightarrow>
                       Rename (ri_container_id identity) (consumed_name (ri_container_name identity)) (\<lambda>r. case r of
                         Inl e \<Rightarrow> Done (Inl (from_engine_error e))
                       | Inr _ \<Rightarrow> ClearExchanging uid (Done (Inr (Token token))))))))"

definition take_locked :: "runner_lib \<Rightarrow> RunnerConfig \<Rightarrow> uuid \<Rightarrow> handler" where
  "take_locked lib config uid =
     find_then lib uid (\<lambda>r. case r of Inl e \<Rightarrow> Done (Inl e) | Inr identity \<Rightarrow> take_found lib config uid identity)"

definition take_token :: "runner_lib \<Rightarrow> RunnerConfig \<Rightarrow> uuid \<Rightarrow> handler" where
  "take_token lib config uid = LockGate (take_locked lib config uid)"

definition delete :: "runner_lib \<Rightarrow> uuid \<Rightarrow> handler" where
  "delete lib uid =
     find_then lib uid (\<lambda>r. case r of
       Inr identity \<Rightarrow>
         Remove (ri_container_id identity) (\<lambda>r. case r of
           Inl e \<Rightarrow> Done (Inl (from_engine_error e))
         | Inr _ \<Rightarrow> ClearExchanging uid (Done (Inr Deleted)))
     | Inl NotFound \<Rightarrow> Done (Inr Deleted)
     | Inl other \<Rightarrow> Done (Inl other))"

fun reap_loop :: "nanos \<Rightarrow> RunnerIdentity list \<Rightarrow> nat \<Rightarrow> handler" where
  "reap_loop now [] reaped = Done (Inr (Reaped reaped))"
| "reap_loop now (identity # identities) reaped =
     (if ri_expires_at identity > now then reap_loop now identities reaped
      else
        Remove (ri_container_id identity) (\<lambda>r. case r of
          Inr _ \<Rightarrow> ClearExchanging (ri_id identity) (reap_loop now identities (reaped + 1))
        | Inl _ \<Rightarrow> reap_loop now identities reaped))"

definition reap :: "runner_lib \<Rightarrow> nanos \<Rightarrow> handler" where
  "reap lib now =
     list_then lib (\<lambda>r. case r of Inl e \<Rightarrow> Done (Inl e) | Inr identities \<Rightarrow> reap_loop now identities 0)"

section \<open>The running process\<close>

datatype request =
    CreateRunner utext "64 word option"
  | GetRunner uuid
  | SubmitCode uuid utext
  | TakeToken uuid
  | DeleteRunner uuid
  | Reap nanos
  | Healthz

fun handle :: "runner_lib \<Rightarrow> RunnerConfig \<Rightarrow> request \<Rightarrow> handler" where
  "handle lib config (CreateRunner label ttl) = create lib config label ttl"
| "handle lib config (GetRunner uid) = view lib config uid"
| "handle lib config (SubmitCode uid code) = submit_code lib config uid code"
| "handle lib config (TakeToken uid) = take_token lib config uid"
| "handle lib config (DeleteRunner uid) = delete lib uid"
| "handle lib config (Reap now) = reap lib now"
| "handle lib config Healthz = docker_reachable"

text \<open>The state of the process. \<open>issued\<close> and \<open>created\<close> record the ids that were generated and those a
  container was asked for, \<open>answers\<close> the answers sent; no handler reads them.\<close>

record 'e service_state =
  engine :: 'e
  exchanging :: "uuid set"
  token_gate :: "nat option"
  inflight :: "nat \<rightharpoonup> request \<times> handler"
  issued :: "uuid set"
  created :: "uuid set"
  answers :: "(request \<times> (ServiceError + outcome)) list"

definition label_owner :: "runner_lib \<Rightarrow> label_map \<Rightarrow> uuid option" where
  "label_owner lib labels = Option.bind (labels LABEL_ID) (parse_uuid lib)"

definition on_engine :: "('e \<Rightarrow> 'r \<times> 'e) \<Rightarrow> ('r \<Rightarrow> handler) \<Rightarrow> 'e service_state \<Rightarrow> handler \<times> 'e service_state" where
  "on_engine f k s = (case f (engine s) of (r, e) \<Rightarrow> (k r, s\<lparr>engine := e\<rparr>))"

text \<open>One call of the handler of request \<open>pid\<close>; \<open>u\<close> and \<open>t\<close> are what the generator and the clock answer.\<close>

fun exec :: "'e ContainerEngine \<Rightarrow> runner_lib \<Rightarrow> nat \<Rightarrow> uuid \<Rightarrow> nanos \<Rightarrow> handler \<Rightarrow> 'e service_state \<Rightarrow> (handler \<times> 'e service_state) option" where
  "exec E lib pid u t (Done r) s = None"
| "exec E lib pid u t (NewUuidNow k) s = (if u \<in> issued s then None else Some (k u t, s\<lparr>issued := insert u (issued s)\<rparr>))"
| "exec E lib pid u t (Now k) s = Some (k t, s)"
| "exec E lib pid u t (Ping k) s = Some (on_engine (ping_of E) k s)"
| "exec E lib pid u t (Create spec k) s =
     Some (on_engine (create_of E spec) k (s\<lparr>created := created s \<union> set_option (label_owner lib (cs_labels spec))\<rparr>))"
| "exec E lib pid u t (Start c k) s = Some (on_engine (start_of E c) k s)"
| "exec E lib pid u t (ListRunners k) s = Some (on_engine (list_runners_of E) k s)"
| "exec E lib pid u t (Transcript c k) s = Some (on_engine (transcript_of E c) k s)"
| "exec E lib pid u t (WriteStdin c input k) s = Some (on_engine (write_stdin_of E c input) k s)"
| "exec E lib pid u t (Rename c n k) s = Some (on_engine (rename_of E c n) k s)"
| "exec E lib pid u t (Remove c k) s = Some (on_engine (remove_of E c) k s)"
| "exec E lib pid u t (CodeSubmitted uid k) s = Some (k (uid \<in> exchanging s), s)"
| "exec E lib pid u t (MarkExchanging uid p) s = Some (p, s\<lparr>exchanging := insert uid (exchanging s)\<rparr>)"
| "exec E lib pid u t (ClearExchanging uid p) s = Some (p, s\<lparr>exchanging := exchanging s - {uid}\<rparr>)"
| "exec E lib pid u t (LockGate p) s = (if token_gate s = None then Some (p, s\<lparr>token_gate := Some pid\<rparr>) else None)"

definition release :: "nat \<Rightarrow> 'e service_state \<Rightarrow> 'e service_state" where
  "release pid s = s\<lparr>inflight := (inflight s)(pid := None), token_gate := (if token_gate s = Some pid then None else token_gate s)\<rparr>"

text \<open>Steps of the process: a request arrives, a handler makes a call, a handler answers, a request is
  dropped, the engine changes by itself (a container exits, writes to its terminal, is removed, or
  one that is no runner comes or goes), the process restarts.\<close>

inductive service_step ::
    "'e ContainerEngine \<Rightarrow> ('e \<Rightarrow> bool) \<Rightarrow> ('e \<Rightarrow> utext \<rightharpoonup> utext \<times> label_map) \<Rightarrow> runner_lib \<Rightarrow> RunnerConfig \<Rightarrow>
     'e service_state \<Rightarrow> 'e service_state \<Rightarrow> bool"
  for E einv eview lib config where
  arrive: "inflight s pid = None \<Longrightarrow>
    service_step E einv eview lib config s (s\<lparr>inflight := (inflight s)(pid \<mapsto> (rq, handle lib config rq))\<rparr>)"
| call: "inflight s pid = Some (rq, p) \<Longrightarrow> exec E lib pid u t p s = Some (p', s') \<Longrightarrow>
    service_step E einv eview lib config s (s'\<lparr>inflight := (inflight s')(pid \<mapsto> (rq, p'))\<rparr>)"
| answer: "inflight s pid = Some (rq, Done r) \<Longrightarrow>
    service_step E einv eview lib config s (release pid (s\<lparr>answers := answers s @ [(rq, r)]\<rparr>))"
| drop_request: "inflight s pid = Some (rq, p) \<Longrightarrow> service_step E einv eview lib config s (release pid s)"
| outside: "einv e \<Longrightarrow>
    (\<And>c n labels. eview e c = Some (n, labels) \<Longrightarrow> label_owner lib labels \<noteq> None \<Longrightarrow> eview (engine s) c = Some (n, labels)) \<Longrightarrow>
    service_step E einv eview lib config s (s\<lparr>engine := e\<rparr>)"
| restart: "service_step E einv eview lib config s (s\<lparr>exchanging := {}, token_gate := None, inflight := Map.empty\<rparr>)"

definition runners_of :: "('e \<Rightarrow> utext \<rightharpoonup> utext \<times> label_map) \<Rightarrow> runner_lib \<Rightarrow> 'e \<Rightarrow> uuid \<Rightarrow> utext set" where
  "runners_of eview lib e u = {c. \<exists>n labels. eview e c = Some (n, labels) \<and> label_owner lib labels = Some u}"

text \<open>A process that starts: no request is in flight, and the containers that are there already have ids of
  their own, which the generator does not produce again.\<close>

definition started :: "('e \<Rightarrow> bool) \<Rightarrow> ('e \<Rightarrow> utext \<rightharpoonup> utext \<times> label_map) \<Rightarrow> runner_lib \<Rightarrow> 'e service_state \<Rightarrow> bool" where
  "started einv eview lib s \<longleftrightarrow>
     einv (engine s) \<and> token_gate s = None \<and> inflight s = Map.empty \<and> answers s = [] \<and> created s \<subseteq> issued s
     \<and> (\<forall>u. runners_of eview lib (engine s) u \<noteq> {} \<longrightarrow> u \<in> created s)
     \<and> (\<forall>u c c'. c \<in> runners_of eview lib (engine s) u \<longrightarrow> c' \<in> runners_of eview lib (engine s) u \<longrightarrow> c = c')"

definition handed_out :: "uuid \<Rightarrow> request \<times> (ServiceError + outcome) \<Rightarrow> bool" where
  "handed_out u a = (case a of (TakeToken u', Inr (Token _)) \<Rightarrow> u' = u | _ \<Rightarrow> False)"

section \<open>A token is handed out at most once\<close>

text \<open>The id a handler is about to create a container for.\<close>

fun pending :: "runner_lib \<Rightarrow> handler \<Rightarrow> uuid option" where
  "pending lib (Create spec k) = label_owner lib (cs_labels spec)"
| "pending lib _ = None"

text \<open>A handler that never renames, never takes the gate, answers no token, and creates a container only
  for the id it was just given.\<close>

primrec quiet :: "runner_lib \<Rightarrow> handler \<Rightarrow> bool" where
  "quiet lib (Done r) \<longleftrightarrow> (\<forall>t. r \<noteq> Inr (Token t))"
| "quiet lib (NewUuidNow k) \<longleftrightarrow> (\<forall>u t. quiet lib (k u t) \<and> (pending lib (k u t) = None \<or> pending lib (k u t) = Some u))"
| "quiet lib (Now k) \<longleftrightarrow> (\<forall>t. quiet lib (k t) \<and> pending lib (k t) = None)"
| "quiet lib (Ping k) \<longleftrightarrow> (\<forall>r. quiet lib (k r) \<and> pending lib (k r) = None)"
| "quiet lib (Create spec k) \<longleftrightarrow> (\<forall>r. quiet lib (k r) \<and> pending lib (k r) = None)"
| "quiet lib (Start c k) \<longleftrightarrow> (\<forall>r. quiet lib (k r) \<and> pending lib (k r) = None)"
| "quiet lib (ListRunners k) \<longleftrightarrow> (\<forall>r. quiet lib (k r) \<and> pending lib (k r) = None)"
| "quiet lib (Transcript c k) \<longleftrightarrow> (\<forall>r. quiet lib (k r) \<and> pending lib (k r) = None)"
| "quiet lib (WriteStdin c i k) \<longleftrightarrow> (\<forall>r. quiet lib (k r) \<and> pending lib (k r) = None)"
| "quiet lib (Rename c n k) \<longleftrightarrow> False"
| "quiet lib (Remove c k) \<longleftrightarrow> (\<forall>r. quiet lib (k r) \<and> pending lib (k r) = None)"
| "quiet lib (CodeSubmitted u k) \<longleftrightarrow> (\<forall>b. quiet lib (k b) \<and> pending lib (k b) = None)"
| "quiet lib (MarkExchanging u p) \<longleftrightarrow> quiet lib p \<and> pending lib p = None"
| "quiet lib (ClearExchanging u p) \<longleftrightarrow> quiet lib p \<and> pending lib p = None"
| "quiet lib (LockGate p) \<longleftrightarrow> False"

text \<open>The end of a handler that has renamed its container, and the part of \<open>take_token\<close> before that:
  it only reads, and its one rename marks container \<open>c\<close> as consumed.\<close>

primrec harmless :: "handler \<Rightarrow> bool" where
  "harmless (Done r) \<longleftrightarrow> True"
| "harmless (NewUuidNow k) \<longleftrightarrow> False"
| "harmless (Now k) \<longleftrightarrow> False"
| "harmless (Ping k) \<longleftrightarrow> False"
| "harmless (Create spec k) \<longleftrightarrow> False"
| "harmless (Start c k) \<longleftrightarrow> False"
| "harmless (ListRunners k) \<longleftrightarrow> False"
| "harmless (Transcript c k) \<longleftrightarrow> False"
| "harmless (WriteStdin c i k) \<longleftrightarrow> False"
| "harmless (Rename c n k) \<longleftrightarrow> False"
| "harmless (Remove c k) \<longleftrightarrow> False"
| "harmless (CodeSubmitted u k) \<longleftrightarrow> False"
| "harmless (MarkExchanging u p) \<longleftrightarrow> False"
| "harmless (ClearExchanging u p) \<longleftrightarrow> harmless p"
| "harmless (LockGate p) \<longleftrightarrow> False"

primrec asks :: "utext \<Rightarrow> handler \<Rightarrow> bool" where
  "asks c (Done r) \<longleftrightarrow> (\<exists>e. r = Inl e)"
| "asks c (NewUuidNow k) \<longleftrightarrow> False"
| "asks c (Now k) \<longleftrightarrow> (\<forall>t. asks c (k t))"
| "asks c (Ping k) \<longleftrightarrow> False"
| "asks c (Create spec k) \<longleftrightarrow> False"
| "asks c (Start c' k) \<longleftrightarrow> False"
| "asks c (ListRunners k) \<longleftrightarrow> False"
| "asks c (Transcript c' k) \<longleftrightarrow> (\<forall>r. asks c (k r))"
| "asks c (WriteStdin c' i k) \<longleftrightarrow> False"
| "asks c (Rename c' n k) \<longleftrightarrow> c' = c \<and> is_consumed n \<and> (\<forall>e. asks c (k (Inl e))) \<and> harmless (k (Inr ()))"
| "asks c (Remove c' k) \<longleftrightarrow> False"
| "asks c (CodeSubmitted u k) \<longleftrightarrow> (\<forall>b. asks c (k b))"
| "asks c (MarkExchanging u p) \<longleftrightarrow> False"
| "asks c (ClearExchanging u p) \<longleftrightarrow> False"
| "asks c (LockGate p) \<longleftrightarrow> False"

lemma is_consumed_consumed_name: "is_consumed (consumed_name n)"
  by (simp add: is_consumed_def consumed_name_def ends_with_def)

lemma quiet_view_of:
  assumes "\<And>r. quiet lib (k r) \<and> pending lib (k r) = None"
  shows "quiet lib (view_of lib config identity k)"
  using assms by (auto simp: view_of_def split: sum.split prod.split)

lemma pending_reads [simp]:
  "pending lib (view_of lib config identity k) = None" "pending lib (find_then lib uid k') = None"
  by (simp_all add: view_of_def find_then_def list_then_def)

lemma quiet_find_then:
  assumes "\<And>r. quiet lib (k r) \<and> pending lib (k r) = None"
  shows "quiet lib (find_then lib uid k)"
  using assms by (simp add: find_then_def list_then_def)

lemma reap_loop_quiet: "quiet lib (reap_loop now ids n) \<and> pending lib (reap_loop now ids n) = None"
  by (induction now ids n rule: reap_loop.induct) (auto split: sum.split)

lemma label_owner_runner_labels:
  assumes "\<And>u. parse_uuid lib (uuid_text lib u) = Some u"
  shows "label_owner lib (runner_labels lib uid t) = Some uid"
  by (simp add: label_owner_def runner_labels_def assms LABEL_ID_def LABEL_EXPIRES_AT_def LABEL_MARKER_def lit_def)

lemma handle_quiet:
  assumes "\<And>u. parse_uuid lib (uuid_text lib u) = Some u" "\<And>uid. rq \<noteq> TakeToken uid"
  shows "quiet lib (handle lib config rq) \<and> pending lib (handle lib config rq) = None"
proof (cases rq)
  case (CreateRunner label ttl)
  then show ?thesis
    by (auto simp: create_def Let_def label_owner_runner_labels [OF assms(1)] split: sum.split option.split)
next
  case (SubmitCode uid code)
  then show ?thesis by (auto simp: submit_code_def intro!: quiet_find_then quiet_view_of split: sum.split)
next
  case (DeleteRunner uid)
  then show ?thesis by (auto simp: delete_def intro!: quiet_find_then split: sum.split ServiceError.split)
next
  case (GetRunner uid)
  then show ?thesis by (auto simp: view_def intro!: quiet_find_then quiet_view_of split: sum.split)
next
  case (Reap now)
  then show ?thesis by (auto simp: reap_def list_then_def reap_loop_quiet split: sum.split)
qed (use assms(2) in \<open>auto simp: docker_reachable_def\<close>)

lemma take_found_asks: "\<not> ri_consumed identity \<Longrightarrow> asks (ri_container_id identity) (take_found lib config uid identity)"
  by (auto simp: take_found_def view_of_def is_consumed_consumed_name split: sum.split prod.split option.split)

text \<open>The exact answers of \<open>find\<close>.\<close>

lemma from_record_Some:
  "from_record lib record = Some i \<Longrightarrow>
     label_owner lib (cr_labels record) = Some (ri_id i) \<and> ri_container_id i = cr_id record
     \<and> ri_container_name i = cr_name record \<and> ri_consumed i = is_consumed (cr_name record)"
  by (auto simp: from_record_def label_owner_def split: if_splits bind_splits)

lemma find_identity_Ok:
  assumes "find_identity uid (case r of Inl e \<Rightarrow> Inl (from_engine_error e) | Inr records \<Rightarrow> Inr (List.map_filter (from_record lib) records)) = Inr i"
  obtains records cr where "r = Inr records" "cr \<in> set records" "from_record lib cr = Some i" "ri_id i = uid"
  using assms
  by (auto simp: find_identity_def List.map_filter_def find_Some_iff split: sum.splits option.splits dest!: nth_mem)

definition all_consumed :: "('e \<Rightarrow> utext \<rightharpoonup> utext \<times> label_map) \<Rightarrow> runner_lib \<Rightarrow> 'e \<Rightarrow> uuid \<Rightarrow> bool" where
  "all_consumed eview lib e u \<longleftrightarrow> (\<forall>c n labels. eview e c = Some (n, labels) \<longrightarrow> label_owner lib labels = Some u \<longrightarrow> is_consumed n)"

abbreviation handed :: "'e service_state \<Rightarrow> uuid \<Rightarrow> bool" where
  "handed s u \<equiv> list_ex (handed_out u) (answers s)"

text \<open>What holds of the containers and the history in every reachable state.\<close>

definition history_ok :: "('e \<Rightarrow> bool) \<Rightarrow> ('e \<Rightarrow> utext \<rightharpoonup> utext \<times> label_map) \<Rightarrow> runner_lib \<Rightarrow> 'e service_state \<Rightarrow> bool" where
  "history_ok einv eview lib s \<longleftrightarrow>
     einv (engine s) \<and> created s \<subseteq> issued s
     \<and> (\<forall>u. runners_of eview lib (engine s) u \<noteq> {} \<longrightarrow> u \<in> created s)
     \<and> (\<forall>u c c'. c \<in> runners_of eview lib (engine s) u \<longrightarrow> c' \<in> runners_of eview lib (engine s) u \<longrightarrow> c = c')
     \<and> (\<forall>u. handed s u \<longrightarrow> u \<in> created s \<and> all_consumed eview lib (engine s) u)
     \<and> (\<forall>u. length (filter (handed_out u) (answers s)) \<le> 1)"

lemma history_ok_unique:
  "history_ok einv eview lib s \<Longrightarrow> c \<in> runners_of eview lib (engine s) u \<Longrightarrow> c' \<in> runners_of eview lib (engine s) u \<Longrightarrow> c = c'"
  unfolding history_ok_def by blast

text \<open>What holds of a request in flight.\<close>

definition request_ok ::
    "('e \<Rightarrow> utext \<rightharpoonup> utext \<times> label_map) \<Rightarrow> runner_lib \<Rightarrow> RunnerConfig \<Rightarrow> 'e service_state \<Rightarrow> nat \<Rightarrow> request \<Rightarrow> handler \<Rightarrow> bool" where
  "request_ok eview lib config s pid rq p \<longleftrightarrow>
     (case rq of
        TakeToken u \<Rightarrow>
          p = take_token lib config u
          \<or> token_gate s = Some pid \<and>
            (p = take_locked lib config u
             \<or> (\<exists>e. p = Done (Inl e))
             \<or> (\<exists>c. asks c p \<and> runners_of eview lib (engine s) u \<subseteq> {c} \<and> u \<in> created s \<and> \<not> handed s u)
             \<or> harmless p \<and> all_consumed eview lib (engine s) u \<and> u \<in> created s \<and> \<not> handed s u)
      | _ \<Rightarrow> quiet lib p)"

definition service_inv ::
    "('e \<Rightarrow> bool) \<Rightarrow> ('e \<Rightarrow> utext \<rightharpoonup> utext \<times> label_map) \<Rightarrow> runner_lib \<Rightarrow> RunnerConfig \<Rightarrow> 'e service_state \<Rightarrow> bool" where
  "service_inv einv eview lib config s \<longleftrightarrow>
     history_ok einv eview lib s
     \<and> (\<forall>pid rq p. inflight s pid = Some (rq, p) \<longrightarrow>
          request_ok eview lib config s pid rq p \<and> (\<forall>u. pending lib p = Some u \<longrightarrow> u \<in> issued s - created s))
     \<and> (\<forall>pid rq p pid' rq' p' u. inflight s pid = Some (rq, p) \<longrightarrow> inflight s pid' = Some (rq', p') \<longrightarrow>
          pending lib p = Some u \<longrightarrow> pending lib p' = Some u \<longrightarrow> pid = pid')"

lemma inflight_irrelevant [simp]:
  "request_ok eview lib config (s\<lparr>inflight := f\<rparr>) pid rq p = request_ok eview lib config s pid rq p"
  "history_ok einv eview lib (s\<lparr>inflight := f\<rparr>) = history_ok einv eview lib s"
  by (cases rq; simp add: request_ok_def) (simp add: history_ok_def)

text \<open>A change of the engine that adds no runner and only renames runners to consumed names.\<close>

definition fades :: "('e \<Rightarrow> utext \<rightharpoonup> utext \<times> label_map) \<Rightarrow> runner_lib \<Rightarrow> 'e \<Rightarrow> 'e \<Rightarrow> bool" where
  "fades eview lib e e' \<longleftrightarrow>
     (\<forall>c n labels. eview e' c = Some (n, labels) \<longrightarrow> label_owner lib labels \<noteq> None \<longrightarrow>
        (\<exists>m. eview e c = Some (m, labels) \<and> (m = n \<or> is_consumed n)))"

lemma fades_refl: "eview e' = eview e \<Longrightarrow> fades eview lib e e'"
  by (auto simp: fades_def)

lemma fades_runners: "fades eview lib e e' \<Longrightarrow> runners_of eview lib e' u \<subseteq> runners_of eview lib e u"
  by (fastforce simp: fades_def runners_of_def)

lemma fades_consumed: "fades eview lib e e' \<Longrightarrow> all_consumed eview lib e u \<Longrightarrow> all_consumed eview lib e' u"
  by (fastforce simp: fades_def all_consumed_def)

lemma history_ok_fades:
  assumes "history_ok einv eview lib s" "fades eview lib (engine s) e'" "einv e'"
  shows "history_ok einv eview lib (s\<lparr>engine := e'\<rparr>)"
  using assms fades_runners [OF assms(2)] fades_consumed [OF assms(2)] unfolding history_ok_def
  by (simp add: subset_eq) blast

text \<open>What the other requests need of a step.\<close>

definition later :: "('e \<Rightarrow> utext \<rightharpoonup> utext \<times> label_map) \<Rightarrow> runner_lib \<Rightarrow> 'e service_state \<Rightarrow> 'e service_state \<Rightarrow> bool" where
  "later eview lib s s' \<longleftrightarrow>
     created s \<subseteq> created s' \<and> issued s \<subseteq> issued s'
     \<and> (\<forall>u \<in> created s. runners_of eview lib (engine s') u \<subseteq> runners_of eview lib (engine s) u
          \<and> (all_consumed eview lib (engine s) u \<longrightarrow> all_consumed eview lib (engine s') u))"

lemma later_fades: "fades eview lib (engine s) e' \<Longrightarrow> later eview lib s (s\<lparr>engine := e'\<rparr>)"
  by (auto simp: later_def dest: fades_runners fades_consumed)

lemma later_same: "engine s' = engine s \<Longrightarrow> created s' = created s \<Longrightarrow> issued s \<subseteq> issued s' \<Longrightarrow> later eview lib s s'"
  by (auto simp: later_def)

lemma request_ok_later:
  assumes "request_ok eview lib config s pid rq p" "later eview lib s s'" "answers s' = answers s"
    and "token_gate s = Some pid \<Longrightarrow> token_gate s' = Some pid"
  shows "request_ok eview lib config s' pid rq p"
proof (cases rq)
  case (TakeToken u)
  have runners: "runners_of eview lib (engine s') u \<subseteq> {c}" "u \<in> created s'"
    if "u \<in> created s" "runners_of eview lib (engine s) u \<subseteq> {c}" for c
    using that assms(2) unfolding later_def by blast+
  have "all_consumed eview lib (engine s') u" "u \<in> created s'" if "u \<in> created s" "all_consumed eview lib (engine s) u"
    using that assms(2) by (auto simp: later_def)
  with runners show ?thesis using assms(1,3,4) by (simp add: request_ok_def TakeToken) metis
qed (use assms(1) in \<open>simp_all add: request_ok_def\<close>)

locale runner_service = container_engine E einv eview
  for E :: "'e ContainerEngine" and einv eview +
  fixes lib :: runner_lib and config :: RunnerConfig
  assumes uuid_law: "parse_uuid lib (uuid_text lib u) = Some u"
begin

lemma engine_fades:
  assumes "einv e"
  shows "ping_of E e = (r, e') \<Longrightarrow> einv e' \<and> fades eview lib e e'"
    and "start_of E c e = (r, e') \<Longrightarrow> einv e' \<and> fades eview lib e e'"
    and "list_runners_of E e = (l, e') \<Longrightarrow> einv e' \<and> fades eview lib e e'"
    and "transcript_of E c e = (w, e') \<Longrightarrow> einv e' \<and> fades eview lib e e'"
    and "write_stdin_of E c i e = (r, e') \<Longrightarrow> einv e' \<and> fades eview lib e e'"
    and "remove_of E c e = (r, e') \<Longrightarrow> einv e' \<and> fades eview lib e e'"
    and "is_consumed n \<Longrightarrow> rename_of E c n e = (r, e') \<Longrightarrow> einv e' \<and> fades eview lib e e'"
  using ping_law [OF assms] start_law [OF assms] list_law [OF assms] transcript_law [OF assms] write_stdin_law [OF assms]
proof -
  show "einv e' \<and> fades eview lib e e'" if "remove_of E c e = (r, e')"
    using remove_law [OF assms that] by (auto simp: fades_def split: if_splits)
  show "einv e' \<and> fades eview lib e e'" if "is_consumed n" "rename_of E c n e = (r, e')"
    using rename_law [OF assms that(2)] that(1) by (auto simp: fades_def split: if_splits)
qed (simp_all add: fades_refl)

lemma create_history:
  assumes h: "history_ok einv eview lib s" and c: "create_of E spec (engine s) = (r, e')"
    and fresh: "\<And>v. label_owner lib (cs_labels spec) = Some v \<Longrightarrow> v \<in> issued s - created s"
  defines "s' \<equiv> s\<lparr>created := created s \<union> set_option (label_owner lib (cs_labels spec)), engine := e'\<rparr>"
  shows "history_ok einv eview lib s' \<and> later eview lib s s'"
proof -
  have e: "einv e'" and cases: "fades eview lib (engine s) e' \<or>
      (\<exists>c v. label_owner lib (cs_labels spec) = Some v \<and> eview e' = (eview (engine s))(c \<mapsto> (cs_name spec, cs_labels spec)))"
    using h create_law [OF _ c] by (auto simp: history_ok_def fades_def split: if_splits)
  have s': "engine s' = e'" "issued s' = issued s" "answers s' = answers s"
    "created s' = created s \<union> set_option (label_owner lib (cs_labels spec))" by (simp_all add: s'_def)
  from cases show ?thesis
  proof
    assume f: "fades eview lib (engine s) e'"
    then show ?thesis
      using h e fresh history_ok_fades [OF h f e] later_fades [OF f] unfolding history_ok_def later_def s'
      by (auto simp: subset_eq)
  next
    assume "\<exists>c v. label_owner lib (cs_labels spec) = Some v \<and> eview e' = (eview (engine s))(c \<mapsto> (cs_name spec, cs_labels spec))"
    then obtain c v where v: "label_owner lib (cs_labels spec) = Some v" and w: "eview e' = (eview (engine s))(c \<mapsto> (cs_name spec, cs_labels spec))" by blast
    have old: "runners_of eview lib e' u \<subseteq> runners_of eview lib (engine s) u" if "u \<noteq> v" for u
      using that v by (auto simp: runners_of_def w split: if_splits)
    have new: "v \<notin> created s" "v \<in> issued s" using fresh [OF v] by auto
    then have "runners_of eview lib (engine s) v = {}" using h by (auto simp: history_ok_def)
    then have one: "runners_of eview lib e' v = {c}" using v by (auto simp: runners_of_def w split: if_splits)
    have consumed: "all_consumed eview lib e' u" if "u \<noteq> v" "all_consumed eview lib (engine s) u" for u
      using that v by (auto simp: all_consumed_def w split: if_splits)
    have "later eview lib s s'" unfolding later_def s' v using old consumed new by (metis Un_upper1 order_refl)
    moreover have "history_ok einv eview lib s'" unfolding history_ok_def s' v
    proof (intro conjI allI impI)
      show "einv e'" by (rule e)
      show "created s \<union> set_option (Some v) \<subseteq> issued s" using h new by (simp add: history_ok_def)
      show "u \<in> created s \<union> set_option (Some v)" if "runners_of eview lib e' u \<noteq> {}" for u
        using that old [of u] h by (cases "u = v") (auto simp: history_ok_def)
      show "x = y" if "x \<in> runners_of eview lib e' u" "y \<in> runners_of eview lib e' u" for u x y
        using that old [of u] one history_ok_unique [OF h, of x u y] by (cases "u = v") auto
      show "u \<in> created s \<union> set_option (Some v)" if "list_ex (handed_out u) (answers s)" for u
        using that h by (simp add: history_ok_def)
      show "all_consumed eview lib e' u" if "list_ex (handed_out u) (answers s)" for u
        using that h new consumed [of u] by (cases "u = v") (auto simp: history_ok_def)
    qed (use h in \<open>simp add: history_ok_def\<close>)
    ultimately show ?thesis by blast
  qed
qed

end

text \<open>The calls, one request at a time.\<close>

lemma exec_frame:
  "exec E lib pid u t p s = Some (p', s') \<Longrightarrow> answers s' = answers s \<and> inflight s' = inflight s"
  by (cases p) (auto simp: on_engine_def split: prod.splits if_splits)

lemma exec_quiet:
  "exec E lib pid u t p s = Some (p', s') \<Longrightarrow> quiet lib p \<Longrightarrow>
     quiet lib p' \<and> (\<forall>v. pending lib p' = Some v \<longrightarrow> v \<in> issued s' - issued s) \<and> token_gate s' = token_gate s"
proof (cases p)
  case (NewUuidNow k)
  assume "exec E lib pid u t p s = Some (p', s')" "quiet lib p"
  then have "u \<notin> issued s" "p' = k u t" "s' = s\<lparr>issued := insert u (issued s)\<rparr>"
    "quiet lib (k u t)" "pending lib (k u t) = None \<or> pending lib (k u t) = Some u"
    by (auto simp: NewUuidNow split: if_splits)
  then show ?thesis by auto
qed (auto simp: on_engine_def split: prod.splits)

context runner_service
begin

lemma exec_history:
  assumes h: "history_ok einv eview lib s" and x: "exec E lib pid u t p s = Some (p', s')"
    and fresh: "\<And>v. pending lib p = Some v \<Longrightarrow> v \<in> issued s - created s"
    and renames: "\<And>c n k. p = Rename c n k \<Longrightarrow> is_consumed n"
  shows "history_ok einv eview lib s' \<and> later eview lib s s'"
proof -
  have e: "einv (engine s)" using h by (simp add: history_ok_def)
  have step: "history_ok einv eview lib s' \<and> later eview lib s s'"
    if "\<And>r e'. f (engine s) = (r, e') \<Longrightarrow> einv e' \<and> fades eview lib (engine s) e'"
      and "Some (on_engine f k s) = Some (p', s')" for f :: "'e \<Rightarrow> 'r \<times> 'e" and k
    using that h by (cases "f (engine s)") (auto simp: on_engine_def history_ok_fades later_fades)
  have frame: "history_ok einv eview lib s' \<and> later eview lib s s'"
    if "engine s' = engine s" "created s' = created s" "issued s \<subseteq> issued s'" "answers s' = answers s"
    using that h later_same [OF that(1,2,3)] by (auto simp: history_ok_def)
  show ?thesis
  proof (cases p)
    case (Create spec k)
    obtain r e' where c: "create_of E spec (engine s) = (r, e')" by (cases "create_of E spec (engine s)")
    have "s' = s\<lparr>created := created s \<union> set_option (label_owner lib (cs_labels spec)), engine := e'\<rparr>"
      using x by (simp add: Create on_engine_def c)
    then show ?thesis using create_history [OF h c] fresh by (simp add: Create)
  next
    case (Rename c n k)
    show ?thesis by (rule step [OF engine_fades(7) [OF e renames [OF Rename]]]) (use x in \<open>simp_all add: Rename\<close>)
  next
    case (Ping k)
    show ?thesis by (rule step [OF engine_fades(1) [OF e]]) (use x in \<open>simp_all add: Ping\<close>)
  next
    case (Start c k)
    show ?thesis by (rule step [OF engine_fades(2) [OF e]]) (use x in \<open>simp_all add: Start\<close>)
  next
    case (ListRunners k)
    show ?thesis by (rule step [OF engine_fades(3) [OF e]]) (use x in \<open>simp_all add: ListRunners\<close>)
  next
    case (Transcript c k)
    show ?thesis by (rule step [OF engine_fades(4) [OF e]]) (use x in \<open>simp_all add: Transcript\<close>)
  next
    case (WriteStdin c i k)
    show ?thesis by (rule step [OF engine_fades(5) [OF e]]) (use x in \<open>simp_all add: WriteStdin\<close>)
  next
    case (Remove c k)
    show ?thesis by (rule step [OF engine_fades(6) [OF e]]) (use x in \<open>simp_all add: Remove\<close>)
  qed (rule frame; use x in \<open>auto split: if_splits\<close>)+
qed

lemma exec_asks:
  assumes h: "history_ok einv eview lib s" and x: "exec E lib pid u t p s = Some (p', s')" and a: "asks c p"
    and only: "runners_of eview lib (engine s) v \<subseteq> {c}" 
  shows "asks c p' \<or> harmless p' \<and> all_consumed eview lib (engine s') v"
proof (cases p)
  case (Rename c' n k)
  obtain r e' where rn: "rename_of E c n (engine s) = (r, e')" by (cases "rename_of E c n (engine s)")
  have e: "einv (engine s)" using h by (simp add: history_ok_def)
  have p': "p' = k r" "s' = s\<lparr>engine := e'\<rparr>" using x a by (simp_all add: Rename on_engine_def rn)
  show ?thesis
  proof (cases r)
    case (Inr _)
    then obtain w m labels where w: "eview (engine s) w = Some (m, labels)" "eview (engine s) c \<noteq> None \<longrightarrow> w = c"
      "eview e' = (eview (engine s))(w \<mapsto> (n, labels))"
      using rename_law [OF e rn] by auto
    have "is_consumed n'" if "eview e' c2 = Some (n', l')" "label_owner lib l' = Some v" for c2 n' l'
    proof (cases "c2 = w")
      case False
      then have "c2 = c" using that only w(3) by (auto simp: runners_of_def)
      then have "w = c2" using False that w by auto
      then show ?thesis using False by simp
    qed (use that w a in \<open>auto simp: Rename\<close>)
    then show ?thesis using a Inr p' by (auto simp: Rename all_consumed_def)
  qed (use a p' in \<open>auto simp: Rename\<close>)
qed (use x a in \<open>auto simp: on_engine_def split: prod.splits\<close>)

lemma exec_locked:
  assumes h: "history_ok einv eview lib s" and x: "exec E lib pid u t (take_locked lib config v) s = Some (p', s')"
  shows "(\<exists>e. p' = Done (Inl e)) \<or> (\<exists>c. asks c p' \<and> runners_of eview lib (engine s') v \<subseteq> {c} \<and> v \<in> created s' \<and> \<not> handed s' v)"
proof -
  obtain r e' where l: "list_runners_of E (engine s) = (r, e')" by (cases "list_runners_of E (engine s)")
  have e: "einv (engine s)" using h by (simp add: history_ok_def)
  define found where "found = find_identity v (case r of Inl e \<Rightarrow> Inl (from_engine_error e) | Inr records \<Rightarrow> Inr (List.map_filter (from_record lib) records))"
  have s': "s' = s\<lparr>engine := e'\<rparr>" and p': "p' = (case found of Inl e \<Rightarrow> Done (Inl e) | Inr i \<Rightarrow> take_found lib config v i)"
    using x by (simp_all add: take_locked_def find_then_def list_then_def on_engine_def l found_def)
  show ?thesis
  proof (cases found)
    case (Inr i)
    then obtain records cr where r: "r = Inr records" "cr \<in> set records" "from_record lib cr = Some i" "ri_id i = v"
      unfolding found_def by (rule find_identity_Ok)
    have cr: "eview (engine s) (cr_id cr) = Some (cr_name cr, cr_labels cr)" using list_sound [OF e l [unfolded r(1)] r(2)] .
    have i: "label_owner lib (cr_labels cr) = Some v" "ri_container_id i = cr_id cr" "ri_consumed i = is_consumed (cr_name cr)"
      using from_record_Some [OF r(3)] r(4) by auto
    have mem: "cr_id cr \<in> runners_of eview lib (engine s) v" using cr i(1) by (simp add: runners_of_def)
    have same: "eview e' = eview (engine s)" using list_law [OF e l] by simp
    then have "runners_of eview lib (engine s') v = runners_of eview lib (engine s) v" by (simp add: s' runners_of_def)
    then have only: "runners_of eview lib (engine s') v \<subseteq> {ri_container_id i}"
      using history_ok_unique [OF h _ mem] by (auto simp: i(2))
    show ?thesis
    proof (cases "ri_consumed i")
      case False
      then have "\<not> handed s v" using cr i h by (auto simp: history_ok_def all_consumed_def)
      moreover have "v \<in> created s" using mem h by (auto simp: history_ok_def)
      ultimately show ?thesis using only take_found_asks [OF False] Inr p' by (auto simp: s')
    qed (simp add: p' Inr take_found_def)
  qed (simp add: p')
qed

end

lemma exec_created:
  "exec E lib pid u t p s = Some (p', s') \<Longrightarrow> created s' \<subseteq> created s \<union> set_option (pending lib p)"
  by (cases p) (auto simp: on_engine_def split: prod.splits if_splits)

lemma exec_gate:
  "exec E lib pid u t p s = Some (p', s') \<Longrightarrow> token_gate s = Some pid' \<Longrightarrow> token_gate s' = Some pid'"
  by (cases p) (auto simp: on_engine_def split: prod.splits if_splits)

lemma pending_quiet_parts:
  "asks c p \<Longrightarrow> pending lib p = None" "harmless p \<Longrightarrow> pending lib p = None"
  "pending lib (take_token lib config v) = None" "pending lib (take_locked lib config v) = None"
  by (cases p; simp add: take_token_def take_locked_def)+

lemma request_ok_take_pending:
  "request_ok eview lib config s pid (TakeToken v) p \<Longrightarrow> pending lib p = None"
  by (auto simp: request_ok_def pending_quiet_parts)

lemma quiet_request_ok: "(\<And>v. rq \<noteq> TakeToken v) \<Longrightarrow> request_ok eview lib config s pid rq p \<longleftrightarrow> quiet lib p"
  by (cases rq) (auto simp: request_ok_def)

lemma request_ok_renames:
  assumes "request_ok eview lib config s pid rq (Rename c n k)"
  shows "is_consumed n"
proof (cases "\<exists>v. rq = TakeToken v")
  case True
  with assms show ?thesis by (auto simp: request_ok_def take_token_def take_locked_def find_then_def list_then_def)
next
  case False
  then show ?thesis using assms quiet_request_ok [of rq eview lib config s pid "Rename c n k"] by auto
qed

context runner_service
begin

lemma exec_take:
  assumes h: "history_ok einv eview lib s" and ok: "request_ok eview lib config s pid (TakeToken v) p"
    and x: "exec E lib pid u t p s = Some (p', s')" and later: "later eview lib s s'"
  shows "request_ok eview lib config s' pid (TakeToken v) p'"
proof -
  have ans: "handed s' v \<longleftrightarrow> handed s v" using exec_frame [OF x] by simp
  from ok consider "p = take_token lib config v"
    | "token_gate s = Some pid" "p = take_locked lib config v"
    | e where "p = Done (Inl e)"
    | c where "token_gate s = Some pid" "asks c p" "runners_of eview lib (engine s) v \<subseteq> {c}" "v \<in> created s" "\<not> handed s v"
    | "token_gate s = Some pid" "harmless p" "all_consumed eview lib (engine s) v" "v \<in> created s" "\<not> handed s v"
    by (auto simp: request_ok_def)
  then show ?thesis
  proof cases
    case 1
    then show ?thesis using x by (auto simp: take_token_def request_ok_def split: if_splits)
  next
    case 2
    then show ?thesis using exec_locked [OF h x [unfolded 2(2)]] exec_gate [OF x 2(1)] by (auto simp: request_ok_def)
  next
    case (4 c)
    have "v \<in> created s'" "runners_of eview lib (engine s') v \<subseteq> {c}" using later 4(3,4) unfolding later_def by blast+
    then show ?thesis using exec_asks [OF h x 4(2,3)] exec_gate [OF x 4(1)] 4(5) ans by (auto simp: request_ok_def)
  next
    case 5
    have "harmless p'" using x 5(2) by (cases p) auto
    moreover have "v \<in> created s'" "all_consumed eview lib (engine s') v" using later 5(3,4) unfolding later_def by blast+
    ultimately show ?thesis using exec_gate [OF x 5(1)] 5(5) ans by (auto simp: request_ok_def)
  qed (use x in simp)
qed

lemma exec_request:
  assumes h: "history_ok einv eview lib s" and ok: "request_ok eview lib config s pid rq p"
    and x: "exec E lib pid u t p s = Some (p', s')" and later: "later eview lib s s'"
  shows "request_ok eview lib config s' pid rq p' \<and> (\<forall>v. pending lib p' = Some v \<longrightarrow> v \<in> issued s' - issued s)"
proof (cases "\<exists>v. rq = TakeToken v")
  case True
  then obtain v where "rq = TakeToken v" by blast
  then show ?thesis using exec_take [OF h _ x later] ok request_ok_take_pending by fastforce
next
  case False
  then show ?thesis using exec_quiet [OF x] ok quiet_request_ok by metis
qed

lemma call_inv:
  assumes inv: "service_inv einv eview lib config s" and p: "inflight s pid = Some (rq, p)"
    and x: "exec E lib pid u t p s = Some (p', s')"
  shows "service_inv einv eview lib config (s'\<lparr>inflight := (inflight s')(pid \<mapsto> (rq, p'))\<rparr>)" (is "service_inv _ _ _ _ ?s")
proof -
  have h: "history_ok einv eview lib s" and ok: "request_ok eview lib config s pid rq p"
    and fresh: "\<And>v. pending lib p = Some v \<Longrightarrow> v \<in> issued s - created s"
    using inv p unfolding service_inv_def by blast+
  have frame: "answers s' = answers s" "inflight s' = inflight s" using exec_frame [OF x] by auto
  have hist: "history_ok einv eview lib s'" and later: "later eview lib s s'"
    using exec_history [OF h x fresh] request_ok_renames ok by blast+
  have new: "request_ok eview lib config s' pid rq p'" "\<And>v. pending lib p' = Some v \<Longrightarrow> v \<in> issued s' - issued s"
    using exec_request [OF h ok x later] by blast+
  have iss: "created s \<subseteq> issued s" "issued s \<subseteq> issued s'" using h later by (auto simp: history_ok_def later_def)
  have cr: "created s' \<subseteq> created s \<union> set_option (pending lib p)" by (rule exec_created [OF x])
  have others: "request_ok eview lib config s' pid' rq' q \<and> (\<forall>v. pending lib q = Some v \<longrightarrow> v \<in> issued s - created s')"
    if "inflight s pid' = Some (rq', q)" "pid' \<noteq> pid" for pid' rq' q
  proof
    have "request_ok eview lib config s pid' rq' q" using inv that(1) unfolding service_inv_def by blast
    then show "request_ok eview lib config s' pid' rq' q" using later frame(1) exec_gate [OF x] by (rule request_ok_later)
    have "v \<in> issued s - created s" "pending lib p \<noteq> Some v" if v: "pending lib q = Some v" for v
      using inv \<open>inflight s pid' = _\<close> p \<open>pid' \<noteq> pid\<close> v unfolding service_inv_def by blast+
    then show "\<forall>v. pending lib q = Some v \<longrightarrow> v \<in> issued s - created s'" using cr by fastforce
  qed
  have self: "v \<in> issued s' - created s'" if "pending lib p' = Some v" for v
    using new(2) [OF that] cr fresh iss by fastforce
  have "history_ok einv eview lib ?s" using hist by simp
  moreover have "request_ok eview lib config ?s pid' rq' q \<and> (\<forall>v. pending lib q = Some v \<longrightarrow> v \<in> issued ?s - created ?s)"
    if "inflight ?s pid' = Some (rq', q)" for pid' rq' q
    using that new(1) self others iss(2) frame by (cases "pid' = pid") auto
  moreover have "pid1 = pid2" if "inflight ?s pid1 = Some (rq1, q1)" "inflight ?s pid2 = Some (rq2, q2)"
      "pending lib q1 = Some v" "pending lib q2 = Some v" for pid1 pid2 rq1 rq2 q1 q2 v
  proof -
    have apart: "v \<in> issued s" if "inflight s pid' = Some (rq', q)" "pid' \<noteq> pid" "pending lib q = Some v" for pid' rq' q
      using others [OF that(1,2)] that(3) by blast
    have "pid1 = pid2" if "inflight s pid1 = Some (rq1, q1)" "inflight s pid2 = Some (rq2, q2)"
      using inv that \<open>pending lib q1 = _\<close> \<open>pending lib q2 = _\<close> unfolding service_inv_def by blast
    then show ?thesis using that new(2) [of v] apart [of pid1 rq1 q1] apart [of pid2 rq2 q2] frame
      by (auto split: if_splits)
  qed
  ultimately show ?thesis unfolding service_inv_def by blast
qed

end

lemma release_simps [simp]:
  "engine (release pid s) = engine s" "created (release pid s) = created s" "issued (release pid s) = issued s"
  "answers (release pid s) = answers s"
  by (simp_all add: release_def)

lemma history_ok_cong:
  "engine s' = engine s \<Longrightarrow> created s' = created s \<Longrightarrow> issued s' = issued s \<Longrightarrow> answers s' = answers s \<Longrightarrow>
     history_ok einv eview lib s' = history_ok einv eview lib s"
  by (simp add: history_ok_def)

text \<open>Fewer requests in flight.\<close>

lemma service_inv_fewer:
  assumes "service_inv einv eview lib config s" "history_ok einv eview lib s'"
    and "inflight s' \<subseteq>\<^sub>m inflight s" "issued s' = issued s" "created s' = created s"
    and "\<And>pid rq p. inflight s' pid = Some (rq, p) \<Longrightarrow> request_ok eview lib config s pid rq p \<Longrightarrow> request_ok eview lib config s' pid rq p"
  shows "service_inv einv eview lib config s'"
proof -
  have old: "inflight s pid = Some x" if "inflight s' pid = Some x" for pid x
    using assms(3) that by (auto simp: map_le_def dom_def)
  show ?thesis using assms(1,2,4,5,6) old unfolding service_inv_def by (metis (no_types, lifting))
qed

lemma release_inv:
  assumes "service_inv einv eview lib config s"
  shows "service_inv einv eview lib config (release pid s)"
proof (rule service_inv_fewer [OF assms])
  show "history_ok einv eview lib (release pid s)" using assms by (simp add: service_inv_def cong: history_ok_cong)
  show "request_ok eview lib config (release pid s) pid' rq p"
    if "inflight (release pid s) pid' = Some (rq, p)" "request_ok eview lib config s pid' rq p" for pid' rq p
    by (rule request_ok_later [OF that(2) later_same]) (use that(1) in \<open>auto simp: release_def split: if_splits\<close>)
qed (auto simp: release_def map_le_def)

lemma answer_inv:
  assumes inv: "service_inv einv eview lib config s" and p: "inflight s pid = Some (rq, Done r)"
  shows "service_inv einv eview lib config (release pid (s\<lparr>answers := answers s @ [(rq, r)]\<rparr>))" (is "service_inv _ _ _ _ ?s")
proof -
  have h: "history_ok einv eview lib s" and ok: "request_ok eview lib config s pid rq (Done r)"
    using inv p unfolding service_inv_def by blast+
  have fresh: "\<not> handed s v \<and> all_consumed eview lib (engine s) v \<and> v \<in> created s \<and> token_gate s = Some pid"
    if "handed_out v (rq, r)" for v
    using that ok
    by (auto simp: handed_out_def request_ok_def take_token_def take_locked_def find_then_def list_then_def
        split: request.splits sum.splits outcome.splits)
  have "length (filter (handed_out v) (answers s)) = 0" if "\<not> handed s v" for v
    using that by (simp add: list_ex_iff filter_empty_conv)
  then have hist: "history_ok einv eview lib ?s" using h fresh unfolding history_ok_def by auto
  have "request_ok eview lib config ?s pid' rq' q"
    if q: "inflight ?s pid' = Some (rq', q)" "request_ok eview lib config s pid' rq' q" for pid' rq' q
  proof (cases "token_gate s = Some pid'")
    case True
    have "pid' \<noteq> pid" using q(1) by (auto simp: release_def)
    then have "\<not> handed_out v (rq, r)" for v using fresh [of v] True by auto
    then show ?thesis using q \<open>pid' \<noteq> pid\<close> True by (cases rq') (auto simp: request_ok_def release_def)
  next
    case False
    then show ?thesis using q by (cases rq') (auto simp: request_ok_def)
  qed
  then show ?thesis
    by (intro service_inv_fewer [OF inv hist]) (auto simp: release_def map_le_def)
qed

context runner_service
begin

lemma service_step_inv:
  assumes "service_step E einv eview lib config s s'" "service_inv einv eview lib config s"
  shows "service_inv einv eview lib config s'"
  using assms(1)
proof cases
  case (arrive pid rq)
  let ?s = "s\<lparr>inflight := (inflight s)(pid \<mapsto> (rq, handle lib config rq))\<rparr>"
  have "pending lib (handle lib config rq) = None \<and> request_ok eview lib config ?s pid rq (handle lib config rq)"
  proof (cases "\<exists>v. rq = TakeToken v")
    case False
    then show ?thesis using handle_quiet [OF uuid_law, of rq config] quiet_request_ok by metis
  qed (auto simp: request_ok_def pending_quiet_parts)
  then show ?thesis using assms(2) unfolding service_inv_def arrive(1) by (simp split: if_splits)
next
  case (call pid rq p u t p' s')
  then show ?thesis using call_inv [OF assms(2)] by simp
next
  case (outside e)
  have f: "fades eview lib (engine s) e" unfolding fades_def using outside(3) by blast
  have h: "history_ok einv eview lib s" using assms(2) by (simp add: service_inv_def)
  show ?thesis unfolding outside(1)
    by (rule service_inv_fewer [OF assms(2) history_ok_fades [OF h f outside(2)]])
      (auto intro: request_ok_later later_fades [OF f])
next
  case restart
  show ?thesis unfolding restart
    by (rule service_inv_fewer [OF assms(2)]) (use assms(2) in \<open>auto simp: service_inv_def cong: history_ok_cong\<close>)
qed (use assms(2) answer_inv release_inv in auto)

lemma token_at_most_once:
  assumes "started einv eview lib s0" "(service_step E einv eview lib config)\<^sup>*\<^sup>* s0 s"
  shows "length (filter (handed_out u) (answers s)) \<le> 1
    \<and> (list_ex (handed_out u) (answers s) \<longrightarrow> all_consumed eview lib (engine s) u)"
proof -
  have "service_inv einv eview lib config s0"
    using assms(1) by (simp add: started_def service_inv_def history_ok_def)
  with assms(2) have "service_inv einv eview lib config s"
    by (induction rule: rtranclp_induct) (auto intro: service_step_inv)
  then show ?thesis by (simp add: service_inv_def history_ok_def)
qed

end

section \<open>Runs of one request after the other\<close>

fun serve_calls ::
    "nat \<Rightarrow> 'e ContainerEngine \<Rightarrow> runner_lib \<Rightarrow> nat \<Rightarrow> uuid \<Rightarrow> nanos \<Rightarrow> handler \<Rightarrow> 'e service_state \<Rightarrow> handler \<times> 'e service_state" where
  "serve_calls 0 E lib pid u t p s = (p, s)"
| "serve_calls (Suc n) E lib pid u t p s =
     (case exec E lib pid u t p s of None \<Rightarrow> (p, s) | Some (p', s') \<Rightarrow> serve_calls n E lib pid u t p' s')"

text \<open>The request arrives, its handler runs for \<open>n\<close> calls, and it is answered if it is done by then.\<close>

definition serve ::
    "nat \<Rightarrow> 'e ContainerEngine \<Rightarrow> runner_lib \<Rightarrow> RunnerConfig \<Rightarrow> nat \<Rightarrow> uuid \<Rightarrow> nanos \<Rightarrow> request \<Rightarrow> 'e service_state \<Rightarrow> 'e service_state" where
  "serve n E lib config pid u t rq s =
     (case serve_calls n E lib pid u t (handle lib config rq) s of
        (Done r, s') \<Rightarrow> release pid (s'\<lparr>answers := answers s' @ [(rq, r)]\<rparr>)
      | (p', s') \<Rightarrow> s'\<lparr>inflight := (inflight s')(pid \<mapsto> (rq, p'))\<rparr>)"

lemma exec_inflight: "exec E lib pid u t p (s\<lparr>inflight := f\<rparr>) = map_option (\<lambda>(p', s'). (p', s'\<lparr>inflight := f\<rparr>)) (exec E lib pid u t p s)"
  by (cases p) (auto simp: on_engine_def split: prod.split)

lemma serve_calls_steps:
  assumes "serve_calls n E lib pid u t p s = (p', s')"
  shows "(service_step E einv eview lib config)\<^sup>*\<^sup>* (s\<lparr>inflight := (inflight s)(pid \<mapsto> (rq, p))\<rparr>) (s'\<lparr>inflight := (inflight s')(pid \<mapsto> (rq, p'))\<rparr>)"
  using assms
proof (induction n arbitrary: p s)
  case (Suc n)
  show ?case
  proof (cases "exec E lib pid u t p s")
    case (Some q)
    then obtain q1 s1 where q: "exec E lib pid u t p s = Some (q1, s1)" by (cases q) auto
    let ?s = "s\<lparr>inflight := (inflight s)(pid \<mapsto> (rq, p))\<rparr>"
    have "inflight s1 = inflight s" using exec_frame [OF q] by simp
    then have "service_step E einv eview lib config ?s (s1\<lparr>inflight := (inflight s1)(pid \<mapsto> (rq, q1))\<rparr>)"
      using call [of ?s pid rq p E lib u t q1 "s1\<lparr>inflight := (inflight s)(pid \<mapsto> (rq, p))\<rparr>" einv eview config]
      by (simp add: exec_inflight q)
    moreover have "serve_calls n E lib pid u t q1 s1 = (p', s')" using Suc.prems q by simp
    ultimately show ?thesis by (rule converse_rtranclp_into_rtranclp [OF _ Suc.IH])
  qed (use Suc.prems in auto)
qed auto

lemma serve_steps:
  assumes "inflight s pid = None"
  shows "(service_step E einv eview lib config)\<^sup>*\<^sup>* s (serve n E lib config pid u t rq s)"
proof -
  obtain p' s' where r: "serve_calls n E lib pid u t (handle lib config rq) s = (p', s')" by fastforce
  let ?m = "s'\<lparr>inflight := (inflight s')(pid \<mapsto> (rq, p'))\<rparr>"
  have run: "(service_step E einv eview lib config)\<^sup>*\<^sup>* s ?m"
    using converse_rtranclp_into_rtranclp [OF arrive [OF assms] serve_calls_steps [OF r]] .
  show ?thesis
  proof (cases p')
    case (Done a)
    have "service_step E einv eview lib config ?m (release pid (?m\<lparr>answers := answers ?m @ [(rq, a)]\<rparr>))"
      by (rule answer) (simp add: Done)
    moreover have "release pid (?m\<lparr>answers := answers ?m @ [(rq, a)]\<rparr>) = serve n E lib config pid u t rq s"
      by (simp add: serve_def r Done release_def)
    ultimately show ?thesis using run by (metis rtranclp.rtrancl_into_rtrancl)
  qed (use run in \<open>simp_all add: serve_def r\<close>)
qed

text \<open>C5: However requests interleave, however the engine fails (also when a failed call had its effect),
  whatever containers do meanwhile, whichever requests are dropped and however often the service restarts,
  the token of a runner is handed out at most once; and once it was, every container of that runner
  bears the name that says so. The engine keeps the laws of its interface, the generated ids are
  fresh and read back from their text.\<close>

theorem token_handed_out_once:
  assumes "container_engine E einv eview" "\<forall>u. parse_uuid lib (uuid_text lib u) = Some u"
    and "started einv eview lib s0" "(service_step E einv eview lib config)\<^sup>*\<^sup>* s0 s"
  shows "length (filter (handed_out u) (answers s)) \<le> 1
    \<and> (list_ex (handed_out u) (answers s) \<longrightarrow> all_consumed eview lib (engine s) u)"
  using runner_service.token_at_most_once [of E einv eview lib s0 config s u] assms
  by (simp add: runner_service_def runner_service_axioms_def)

text \<open>A run on the in-memory engine: a runner is created, its terminal shows a token, two clients ask for it.\<close>

definition plain_lib :: runner_lib where
  "plain_lib = \<lparr>uuid_text = (\<lambda>u. [unat u]), parse_uuid = (\<lambda>t. case t of [n] \<Rightarrow> Some (of_nat n) | _ \<Rightarrow> None),
     rfc3339 = (\<lambda>t. [nat t]), parse_rfc3339 = (\<lambda>t. case t of [n] \<Rightarrow> Some (int n) | _ \<Rightarrow> None),
     from_std = Inr, checked_add = (\<lambda>t d. Some (t + int d)), to_lowercase = (\<lambda>c. [c])\<rparr>"

definition plain_config :: RunnerConfig where
  "plain_config = \<lparr>rc_bind = (V4 (Ipv4Addr 127 0 0 1), 8090), rc_control_token = [], rc_allow_insecure_bind = False, rc_docker_host = None, rc_image = [], rc_command = [[]],
     rc_memory_bytes = 1, rc_nano_cpus = 1, rc_pids_limit = 1, rc_default_ttl = 10, rc_max_ttl = 10, rc_reap_interval = 1,
     rc_authorization_url_prefix = lit ''https'', rc_paste_prompt_marker = lit ''Paste'', rc_token_prefix = lit ''sk-'',
     rc_failure_markers = []\<rparr>"

definition demo_container :: "utext \<Rightarrow> FakeContainer" where
  "demo_container name = \<lparr>fc_id = [3], fc_name = name,
     fc_spec = \<lparr>cs_name = [2], cs_image = [], cs_command = [[]], cs_labels = runner_labels plain_lib 7 100,
       cs_memory_bytes = 1, cs_nano_cpus = 1, cs_pids_limit = 1\<rparr>,
     fc_running = True, fc_transcript = lit ''sk-1'', fc_stdin = []\<rparr>"

definition demo_service :: "utext \<Rightarrow> (request \<times> (ServiceError + outcome)) list \<Rightarrow> FakeState service_state" where
  "demo_service name as = \<lparr>engine = \<lparr>containers = [([3], demo_container name)], next_id = 1, ping_fails = False, engine_down = False\<rparr>,
     exchanging = {}, token_gate = None, inflight = Map.empty, issued = {7}, created = {7}, answers = as\<rparr>"

lemma labels_distinct [simp]:
  "LABEL_ID \<noteq> LABEL_MARKER" "LABEL_EXPIRES_AT \<noteq> LABEL_MARKER" "LABEL_ID \<noteq> LABEL_EXPIRES_AT"
  "LABEL_MARKER \<noteq> LABEL_ID" "LABEL_MARKER \<noteq> LABEL_EXPIRES_AT" "LABEL_EXPIRES_AT \<noteq> LABEL_ID"
  by (simp_all add: LABEL_ID_def LABEL_EXPIRES_AT_def LABEL_MARKER_def lit_def)

lemma runner_labels_apply [simp]:
  "runner_labels lib u t LABEL_MARKER = Some LABEL_MARKER_VALUE" "runner_labels lib u t LABEL_ID = Some (uuid_text lib u)"
  "runner_labels lib u t LABEL_EXPIRES_AT = Some (rfc3339 lib t)"
  by (simp_all add: runner_labels_def)

lemma serve_calls_numeral [simp]:
  "serve_calls (numeral n) E lib pid u t p s =
     (case exec E lib pid u t p s of None \<Rightarrow> (p, s) | Some (p', s') \<Rightarrow> serve_calls (pred_numeral n) E lib pid u t p' s')"
  by (simp add: numeral_eq_Suc)

lemma demo_token: "extract_token (lit ''sk-1'') (rc_token_prefix plain_config) = Some (lit ''sk-1'')"
  by (simp add: extract_token_def plain_config_def rejoin_wrapped_def lit_def strip_ansi.simps(2) ESC_def is_control_def trim_def
      trim_end_def trim_start_def trim_end_matches_def is_whitespace_def is_url_char_def is_ascii_alphanumeric_def bytes_def utf8_width_def)

lemma demo_identity: "from_record plain_lib (record_of (demo_container name)) =
   Some \<lparr>ri_id = 7, ri_container_id = [3], ri_container_name = name, ri_expires_at = 100, ri_running = True, ri_consumed = is_consumed name\<rparr>"
  by (simp add: from_record_def record_of_def demo_container_def plain_lib_def)

lemma not_consumed_2: "\<not> is_consumed [2]"
  by (simp add: is_consumed_def ends_with_def CONSUMED_SUFFIX_def lit_def)

lemma demo_container_sel [simp]:
  "fc_id (demo_container name) = [3]" "fc_name (demo_container name) = name" "fc_transcript (demo_container name) = lit ''sk-1''"
  "cs_labels (fc_spec (demo_container name)) = runner_labels plain_lib 7 100"
  "fc_name_update f (demo_container name) = demo_container (f name)"
  by (simp_all add: demo_container_def)

lemmas demo_simps = serve_def demo_service_def take_token_def take_locked_def find_then_def list_then_def on_engine_def
  mem_list_runners_def require_up_def demo_identity find_identity_def List.map_filter_def take_found_def view_of_def
  mem_transcript_def with_container_def resolve_def derive_state_def demo_token mem_rename_def update_container_def release_def Let_def

lemma demo_take:
  "serve 8 in_memory_engine plain_lib plain_config 0 0 5 (TakeToken 7) (demo_service [2] []) =
     demo_service (consumed_name [2]) [(TakeToken 7, Inr (Token (lit ''sk-1'')))]"
  by (simp add: demo_simps not_consumed_2)

lemma demo_take_again:
  "serve 8 in_memory_engine plain_lib plain_config 0 0 5 (TakeToken 7) (demo_service (consumed_name [2]) as) =
     demo_service (consumed_name [2]) (as @ [(TakeToken 7, Inl TokenAlreadyRetrieved)])"
  by (simp add: demo_simps is_consumed_consumed_name)

lemma demo_started: "started mem_inv mem_view plain_lib (demo_service [2] [])"
  by (auto simp: started_def demo_service_def mem_inv_def runners_of_def mem_view_def label_owner_def plain_lib_def split: if_splits)

theorem token_handed_out_once_witness:
  "length (filter (handed_out 7) [(TakeToken 7, Inr (Token (lit ''sk-1''))), (TakeToken 7, Inl TokenAlreadyRetrieved)]) = 1"
proof -
  let ?run = "service_step in_memory_engine mem_inv mem_view plain_lib plain_config"
  let ?as = "[(TakeToken 7, Inr (Token (lit ''sk-1''))), (TakeToken 7, Inl TokenAlreadyRetrieved)]"
  have "?run\<^sup>*\<^sup>* (demo_service [2] []) (demo_service (consumed_name [2]) [(TakeToken 7, Inr (Token (lit ''sk-1'')))])"
    using serve_steps [of "demo_service [2] []" 0 in_memory_engine mem_inv mem_view plain_lib plain_config 8 0 5 "TakeToken 7"]
    by (simp add: demo_take del: serve_calls_numeral) (simp add: demo_service_def)
  moreover have "?run\<^sup>*\<^sup>* (demo_service (consumed_name [2]) [(TakeToken 7, Inr (Token (lit ''sk-1'')))]) (demo_service (consumed_name [2]) ?as)"
    using serve_steps [of "demo_service (consumed_name [2]) [(TakeToken 7, Inr (Token (lit ''sk-1'')))]" 0 in_memory_engine mem_inv mem_view
        plain_lib plain_config 8 0 5 "TakeToken 7"]
    by (simp add: demo_take_again) (simp add: demo_service_def)
  ultimately have "?run\<^sup>*\<^sup>* (demo_service [2] []) (demo_service (consumed_name [2]) ?as)" by (rule rtranclp_trans)
  from token_handed_out_once [OF mem.container_engine_axioms _ demo_started this, of 7]
  show ?thesis by (simp add: demo_service_def plain_lib_def handed_out_def)
qed

section \<open>Reaping\<close>

lemma mem_remove_key:
  "map_of (containers e) c \<noteq> None \<Longrightarrow> \<not> engine_down e \<Longrightarrow>
     mem_remove c e = (Inr (), e\<lparr>containers := filter (\<lambda>(k, _). c \<noteq> k) (containers e)\<rparr>)"
  by (simp add: mem_remove_def require_up_def resolve_def AList.delete_eq)

abbreviation expired :: "nanos \<Rightarrow> RunnerIdentity \<Rightarrow> bool" where
  "expired now i \<equiv> ri_expires_at i \<le> now"

lemma reap_loop_run:
  assumes "distinct (map ri_container_id ids)" "\<forall>i \<in> set ids. map_of (containers (engine s)) (ri_container_id i) \<noteq> None"
    and "\<not> engine_down (engine s)" "2 * length ids \<le> n"
  shows "serve_calls n in_memory_engine lib pid u t (reap_loop now ids k) s =
    (Done (Inr (Reaped (k + length (filter (expired now) ids)))),
     s\<lparr>engine := (engine s)\<lparr>containers := filter (\<lambda>(c, _). c \<notin> ri_container_id ` {i \<in> set ids. expired now i}) (containers (engine s))\<rparr>,
       exchanging := exchanging s - ri_id ` {i \<in> set ids. expired now i}\<rparr>)"
  using assms
proof (induction ids arbitrary: n k s)
  case Nil
  then show ?case by (cases n) auto
next
  case (Cons i ids)
  show ?case
  proof (cases "expired now i")
    case False
    have "{j \<in> set (i # ids). expired now j} = {j \<in> set ids. expired now j}" using False by auto
    then show ?thesis using Cons False by simp
  next
    case True
    obtain m where n: "n = Suc (Suc m)" "2 * length ids \<le> m" using Cons.prems(4) by (cases n; cases "n - 1") auto
    let ?e = "(engine s)\<lparr>containers := filter (\<lambda>(k, _). ri_container_id i \<noteq> k) (containers (engine s))\<rparr>"
    let ?s = "s\<lparr>engine := ?e, exchanging := exchanging s - {ri_id i}\<rparr>"
    have keep: "map_of (filter (\<lambda>(k, _). a \<noteq> k) xs) b = map_of xs b" if "b \<noteq> a" for a b :: utext and xs :: "(utext \<times> FakeContainer) list"
      using that by (induction xs) auto
    have left: "\<forall>j \<in> set ids. map_of (containers (engine ?s)) (ri_container_id j) \<noteq> None"
    proof
      fix j assume "j \<in> set ids"
      then have "ri_container_id j \<noteq> ri_container_id i" "map_of (containers (engine s)) (ri_container_id j) \<noteq> None"
        using Cons.prems(1,2) by (auto simp: image_iff)
      then show "map_of (containers (engine ?s)) (ri_container_id j) \<noteq> None" by (simp add: keep)
    qed
    have "serve_calls n in_memory_engine lib pid u t (reap_loop now (i # ids) k) s = serve_calls m in_memory_engine lib pid u t (reap_loop now ids (k + 1)) ?s"
      using True mem_remove_key [of "engine s" "ri_container_id i"] Cons.prems by (simp add: n on_engine_def)
    also have "\<dots> = (Done (Inr (Reaped (k + 1 + length (filter (expired now) ids)))),
       ?s\<lparr>engine := ?e\<lparr>containers := filter (\<lambda>(c, _). c \<notin> ri_container_id ` {i \<in> set ids. expired now i}) (containers ?e)\<rparr>,
         exchanging := exchanging ?s - ri_id ` {i \<in> set ids. expired now i}\<rparr>)"
      using Cons.IH [of ?s m "k + 1"] left Cons.prems n(2) by simp
    also have "\<dots> = (Done (Inr (Reaped (k + length (filter (expired now) (i # ids))))),
     s\<lparr>engine := (engine s)\<lparr>containers := filter (\<lambda>(c, _). c \<notin> ri_container_id ` {j \<in> set (i # ids). expired now j}) (containers (engine s))\<rparr>,
       exchanging := exchanging s - ri_id ` {j \<in> set (i # ids). expired now j}\<rparr>)"
    proof -
      have gone: "{j \<in> set (i # ids). expired now j} = insert i {j \<in> set ids. expired now j}" using True by auto
      have "filter (\<lambda>(c, _). c \<notin> ri_container_id ` {i \<in> set ids. expired now i}) (filter (\<lambda>(k, _). ri_container_id i \<noteq> k) cs)
        = filter (\<lambda>(c, _). c \<notin> ri_container_id ` {j \<in> set (i # ids). expired now j}) cs" for cs :: "(utext \<times> FakeContainer) list"
        unfolding gone filter_filter by (rule filter_cong) auto
      moreover have "exchanging s - {ri_id i} - ri_id ` {i \<in> set ids. expired now i} = exchanging s - ri_id ` {j \<in> set (i # ids). expired now j}"
        unfolding gone by auto
      ultimately show ?thesis using True by simp
    qed
    finally show ?thesis .
  qed
qed

text \<open>The runner of a container of the in-memory engine, if it is one.\<close>

definition runner_in :: "runner_lib \<Rightarrow> utext \<times> FakeContainer \<Rightarrow> RunnerIdentity option" where
  "runner_in lib kf = from_record lib (record_of (snd kf))"

definition overdue :: "runner_lib \<Rightarrow> nanos \<Rightarrow> utext \<times> FakeContainer \<Rightarrow> bool" where
  "overdue lib now kf = (case runner_in lib kf of Some i \<Rightarrow> ri_expires_at i \<le> now | None \<Rightarrow> False)"

definition listed :: "runner_lib \<Rightarrow> FakeState \<Rightarrow> RunnerIdentity list" where
  "listed lib e = List.map_filter (from_record lib) (sort_key cr_id
     (map record_of (filter (\<lambda>c. cs_labels (fc_spec c) LABEL_MARKER = Some LABEL_MARKER_VALUE) (map snd (containers e)))))"

lemma in_listed:
  "i \<in> set (listed lib e) \<longleftrightarrow> (\<exists>kf \<in> set (containers e). runner_in lib kf = Some i)"
  by (force simp: listed_def runner_in_def List.map_filter_def from_record_def record_of_def split: if_splits)

lemma listed_container_id: "mem_inv e \<Longrightarrow> kf \<in> set (containers e) \<Longrightarrow> runner_in lib kf = Some i \<Longrightarrow> ri_container_id i = fst kf"
  by (cases kf) (auto simp: mem_inv_def list_all_iff runner_in_def record_of_def dest!: from_record_Some)

lemma map_filter_length_le: "length (List.map_filter f xs) \<le> length xs"
  by (simp add: List.map_filter_def)

lemma length_filter_map_filter:
  "length (filter P (List.map_filter f xs)) = length (filter (\<lambda>x. case f x of Some y \<Rightarrow> P y | None \<Rightarrow> False) xs)"
  by (induction xs) (auto simp: List.map_filter_simps split: option.split)

lemma length_listed_expired: "length (filter (expired now) (listed lib e)) = length (filter (overdue lib now) (containers e))"
proof -
  have "length (filter (expired now) (listed lib e)) =
      length (filter (\<lambda>x. case from_record lib x of Some y \<Rightarrow> expired now y | None \<Rightarrow> False)
        (map record_of (filter (\<lambda>c. cs_labels (fc_spec c) LABEL_MARKER = Some LABEL_MARKER_VALUE) (map snd (containers e)))))"
    unfolding listed_def length_filter_map_filter filter_sort by simp
  also have "\<dots> = length (filter (overdue lib now) (containers e))"
  proof -
    have "length (filter (\<lambda>x. case from_record lib x of Some y \<Rightarrow> expired now y | None \<Rightarrow> False)
        (map record_of (filter (\<lambda>c. cs_labels (fc_spec c) LABEL_MARKER = Some LABEL_MARKER_VALUE) (map snd xs))))
      = length (filter (overdue lib now) xs)" for xs
      by (induction xs) (auto simp: overdue_def runner_in_def from_record_def record_of_def)
    then show ?thesis .
  qed
  finally show ?thesis .
qed

lemma listed_distinct:
  assumes "mem_inv e"
  shows "distinct (map ri_container_id (listed lib e))"
proof -
  have keys: "map ri_container_id (listed lib e) = map cr_id (filter (\<lambda>x. from_record lib x \<noteq> None) (sort_key cr_id
     (map record_of (filter (\<lambda>c. cs_labels (fc_spec c) LABEL_MARKER = Some LABEL_MARKER_VALUE) (map snd (containers e))))))"
    by (auto simp: listed_def List.map_filter_def dest: from_record_Some)
  have "map fc_id (map snd (containers e)) = map fst (containers e)" using assms by (auto simp: mem_inv_def list_all_iff)
  then have "distinct (map fc_id (map snd (containers e)))" using assms unfolding mem_inv_def by metis
  then have "distinct (map (\<lambda>f. cr_id (record_of f)) (map snd (containers e)))" by (simp add: record_of_def comp_def)
  from distinct_map_filter [OF this] have "distinct (map cr_id (map record_of (filter P (map snd (containers e)))))" for P
    by (simp add: comp_def)
  then have "distinct (map cr_id (sort_key cr_id (map record_of (filter P (map snd (containers e))))))" for P
    unfolding distinct_map [of cr_id] by simp
  then show ?thesis unfolding keys by (rule distinct_map_filter)
qed

lemma listed_present:
  assumes "mem_inv e" "i \<in> set (listed lib e)"
  shows "map_of (containers e) (ri_container_id i) \<noteq> None"
proof -
  obtain kf where kf: "kf \<in> set (containers e)" "runner_in lib kf = Some i" using assms(2) by (auto simp: in_listed)
  then show ?thesis using listed_container_id [OF assms(1) kf] by (simp add: map_of_eq_None_iff image_iff) blast
qed

lemma listed_length: "length (listed lib e) \<le> length (containers e)"
  using map_filter_length_le [of "from_record lib"] unfolding listed_def by (smt (verit) length_filter_le length_map length_sort le_trans)

lemma listed_overdue:
  assumes "mem_inv e" "kf \<in> set (containers e)"
  shows "fst kf \<in> ri_container_id ` {i \<in> set (listed lib e). expired now i} \<longleftrightarrow> overdue lib now kf"
proof
  assume "fst kf \<in> ri_container_id ` {i \<in> set (listed lib e). expired now i}"
  then obtain i kf' where i: "expired now i" "fst kf = ri_container_id i" "kf' \<in> set (containers e)" "runner_in lib kf' = Some i"
    by (auto simp: in_listed)
  then have "kf' = kf" 
    using listed_container_id [OF assms(1) i(3,4)] assms inj_onD [of fst "set (containers e)" kf' kf] by (simp add: mem_inv_def distinct_map)
  then show "overdue lib now kf" using i by (simp add: overdue_def)
next
  assume "overdue lib now kf"
  then obtain i where "runner_in lib kf = Some i" "expired now i" by (auto simp: overdue_def split: option.splits)
  then show "fst kf \<in> ri_container_id ` {i \<in> set (listed lib e). expired now i}"
    using assms listed_container_id [OF assms] by (auto simp: in_listed image_iff)
qed

text \<open>Reaping is exact. On an engine that answers, a pass at time \<open>now\<close> removes every runner whose
  expiry has come and no other container, forgets that their codes were submitted, and reports how
  many it removed; \<open>1 + 2 * length (containers e)\<close> calls are enough for it.\<close>

theorem reap_removes_overdue:
  assumes "mem_inv (engine s)" "\<not> engine_down (engine s)" "1 + 2 * length (containers (engine s)) \<le> n"
  shows "serve n in_memory_engine lib config pid u t (Reap now) s =
    release pid (s\<lparr>engine := (engine s)\<lparr>containers := filter (\<lambda>kf. \<not> overdue lib now kf) (containers (engine s))\<rparr>,
      exchanging := exchanging s - {v. \<exists>kf \<in> set (containers (engine s)). overdue lib now kf \<and> map_option ri_id (runner_in lib kf) = Some v},
      answers := answers s @ [(Reap now, Inr (Reaped (length (filter (overdue lib now) (containers (engine s))))))]\<rparr>)"
proof -
  let ?e = "engine s" and ?ids = "listed lib (engine s)"
  obtain m where n: "n = Suc m" "2 * length (containers ?e) \<le> m" using assms(3) by (cases n) auto
  then have len: "2 * length ?ids \<le> m" using listed_length [of lib ?e] by simp
  have pres: "\<forall>i \<in> set ?ids. map_of (containers ?e) (ri_container_id i) \<noteq> None" using listed_present [OF assms(1)] by blast
  have "serve_calls n in_memory_engine lib pid u t (reap lib now) s = serve_calls m in_memory_engine lib pid u t (reap_loop now ?ids 0) s"
    using assms(2) by (simp add: n reap_def list_then_def on_engine_def mem_list_runners_def require_up_def listed_def)
  also note reap_loop_run [OF listed_distinct [OF assms(1)] pres assms(2) len]
  also have "filter (\<lambda>(c, _). c \<notin> ri_container_id ` {i \<in> set ?ids. expired now i}) (containers ?e) = filter (\<lambda>kf. \<not> overdue lib now kf) (containers ?e)"
    by (rule filter_cong [OF refl]) (use listed_overdue [OF assms(1)] in \<open>simp add: case_prod_beta\<close>)
  also have "ri_id ` {i \<in> set ?ids. expired now i} = {v. \<exists>kf \<in> set (containers ?e). overdue lib now kf \<and> map_option ri_id (runner_in lib kf) = Some v}"
    by (auto simp: in_listed overdue_def image_iff split: option.splits)
  finally show ?thesis by (simp add: serve_def length_listed_expired)
qed

theorem reap_removes_overdue_witness:
  "serve 3 in_memory_engine plain_lib plain_config 0 0 0 (Reap 100) (demo_service [2] []) =
     release 0 ((demo_service [2] [(Reap 100, Inr (Reaped 1))])\<lparr>engine :=
       \<lparr>containers = [], next_id = 1, ping_fails = False, engine_down = False\<rparr>\<rparr>)"
proof -
  have "overdue plain_lib 100 ([3], demo_container [2])" by (simp add: overdue_def runner_in_def demo_identity)
  then show ?thesis
    using reap_removes_overdue [of "demo_service [2] []" 3 plain_lib plain_config 0 0 0 100]
    by (simp add: demo_service_def mem_inv_def del: serve_calls_numeral)
qed

end
