(* ===== verification/Runner_Http.thy ===== *)
theory Runner_Http
  imports Runner_Service
begin

text \<open>
  The HTTP surface of the runner, \<open>src/src/runner/http.rs\<close>: the bearer token every route but the health
  check requires, and the status and code each answer of the service becomes. The JSON extractor and
  the router belong to \<open>axum\<close>: a request is one whose path and body were read already, and the id
  of its path is still a text.
\<close>

record RunnerError =
  re_status :: nat
  re_code :: string
  re_message :: utext

definition unauthorized :: RunnerError where
  "unauthorized = \<lparr>re_status = 401, re_code = ''unauthorized'', re_message = lit ''a valid bearer token is required''\<rparr>"

definition invalid :: "utext \<Rightarrow> RunnerError" where
  "invalid message = \<lparr>re_status = 400, re_code = ''invalid_request'', re_message = message\<rparr>"

fun from_service_error :: "ServiceError \<Rightarrow> RunnerError" where
  "from_service_error NotFound = \<lparr>re_status = 404, re_code = ''runner_not_found'', re_message = lit ''no runner with that id''\<rparr>"
| "from_service_error (WrongState current) =
     \<lparr>re_status = 409, re_code = ''runner_wrong_state'', re_message = lit ''runner is '' @ lit (as_str current)\<rparr>"
| "from_service_error TokenAlreadyRetrieved =
     \<lparr>re_status = 410, re_code = ''token_already_retrieved'', re_message = lit (''this runner'' @ [char_of (0x27 :: nat)] @ ''s token has already been retrieved'')\<rparr>"
| "from_service_error (Invalid message) = invalid message"
| "from_service_error (DockerUnavailable reason) =
     \<lparr>re_status = 503, re_code = ''docker_unavailable'', re_message = lit ''the container engine is unavailable''\<rparr>"
| "from_service_error (ServiceFailed reason) =
     \<lparr>re_status = 500, re_code = ''runner_failed'', re_message = lit ''the runner could not complete the operation''\<rparr>"

text \<open>A header is its bytes; \<open>HeaderValue::to_str\<close> answers only for visible ASCII and tabs.\<close>

definition header_to_str :: "nat list \<Rightarrow> utext option" where
  "header_to_str value = (if list_all (\<lambda>b. (0x20 \<le> b \<and> b < 0x7F) \<or> b = 0x09) value then Some value else None)"

definition text_split_once :: "uchar \<Rightarrow> utext \<Rightarrow> (utext \<times> utext) option" where
  "text_split_once c s = (if c \<in> set s then Some (takeWhile (\<lambda>x. x \<noteq> c) s, tl (dropWhile (\<lambda>x. x \<noteq> c) s)) else None)"

definition presented_token :: "nat list option \<Rightarrow> utext option" where
  "presented_token header =
     Option.bind header (\<lambda>value.
     Option.bind (header_to_str value) (\<lambda>text.
     Option.bind (text_split_once 0x20 text) (\<lambda>(scheme, token).
       if text_ascii_lowercase scheme = lit ''bearer'' \<and> trim token \<noteq> [] then Some (trim token) else None)))"

definition require_control_token :: "RunnerConfig \<Rightarrow> nat list option \<Rightarrow> RunnerError + unit" where
  "require_control_token config header =
     (case presented_token header of
        None \<Rightarrow> Err unauthorized
      | Some presented \<Rightarrow> if \<not> matches (rc_control_token config) presented then Err unauthorized else Ok ())"

datatype http_request =
    PostRunners utext "64 word option"
  | GetRunnerPath utext
  | PostCode utext utext
  | GetToken utext
  | DeletePath utext
  | GetHealthz

definition parse_id :: "runner_lib \<Rightarrow> utext \<Rightarrow> RunnerError + uuid" where
  "parse_id lib raw = (case parse_uuid lib raw of Some u \<Rightarrow> Ok u | None \<Rightarrow> Err (invalid (lit ''id must be a UUID'')))"

fun routed :: "runner_lib \<Rightarrow> http_request \<Rightarrow> RunnerError + request" where
  "routed lib (PostRunners label ttl) = Ok (CreateRunner label ttl)"
| "routed lib (GetRunnerPath raw) = and_then (parse_id lib raw) (\<lambda>u. Ok (GetRunner u))"
| "routed lib (PostCode raw code) = and_then (parse_id lib raw) (\<lambda>u. Ok (SubmitCode u code))"
| "routed lib (GetToken raw) = and_then (parse_id lib raw) (\<lambda>u. Ok (TakeToken u))"
| "routed lib (DeletePath raw) = and_then (parse_id lib raw) (\<lambda>u. Ok (DeleteRunner u))"
| "routed lib GetHealthz = Ok Healthz"

text \<open>The router: the layer of the control token is around every route but the health check.\<close>

definition router :: "runner_lib \<Rightarrow> RunnerConfig \<Rightarrow> nat list option \<Rightarrow> http_request \<Rightarrow> RunnerError + request" where
  "router lib config header rq =
     (case rq of
        GetHealthz \<Rightarrow> routed lib rq
      | _ \<Rightarrow> and_then (require_control_token config header) (\<lambda>_. routed lib rq))"

fun success_status :: "http_request \<Rightarrow> nat" where
  "success_status (PostRunners _ _) = 201"
| "success_status (GetRunnerPath _) = 200"
| "success_status (PostCode _ _) = 202"
| "success_status (GetToken _) = 200"
| "success_status (DeletePath _) = 204"
| "success_status GetHealthz = 200"

definition response_status :: "http_request \<Rightarrow> ServiceError + outcome \<Rightarrow> nat" where
  "response_status rq answer = (case answer of Ok _ \<Rightarrow> success_status rq | Err e \<Rightarrow> re_status (from_service_error e))"

section \<open>Only the control token opens a route\<close>

lemma utf8_ascii: "\<forall>b \<in> set s. b < 0x80 \<Longrightarrow> utf8 s = s"
  by (induction s) (auto simp: utf8_def utf8_char_def)

lemma utf8_eq_ascii: "utf8 t = s \<Longrightarrow> \<forall>b \<in> set s. b < 0x80 \<Longrightarrow> t = s"
proof (induction t arbitrary: s)
  case (Cons c t)
  have "c < 0x80" using Cons.prems by (auto simp: utf8_def utf8_char_def split: if_splits)
  then have "utf8 (c # t) = c # utf8 t" by (simp add: utf8_def utf8_char_def)
  then show ?case using Cons.prems Cons.IH [OF refl] by auto
qed (simp add: utf8_def)

lemma matches_iff: "matches t c \<longleftrightarrow> utf8 t = utf8 c"
  by (auto simp: matches_def Let_def list.rel_eq)

lemma set_trim: "set (trim s) \<subseteq> set s"
proof -
  have "set (dropWhile P s) \<subseteq> set s" for P and s :: utext using set_dropWhileD by fastforce
  then show ?thesis by (simp add: trim_def trim_end_def trim_start_def trim_end_matches_def) (metis set_rev subset_trans)
qed

lemma text_split_once_Some: "text_split_once c s = Some (a, b) \<longleftrightarrow> s = a @ c # b \<and> c \<notin> set a"
proof
  assume "text_split_once c s = Some (a, b)"
  then have c: "c \<in> set s" and ab: "a = takeWhile (\<lambda>x. x \<noteq> c) s" "b = tl (dropWhile (\<lambda>x. x \<noteq> c) s)"
    by (auto simp: text_split_once_def split: if_splits)
  obtain xs ys where s: "s = xs @ c # ys" "c \<notin> set xs" using c by (metis split_list_first)
  then show "s = a @ c # b \<and> c \<notin> set a"
    by (auto simp: ab takeWhile_append dropWhile_append dropWhile_eq_Nil_conv takeWhile_eq_all_conv dest: set_takeWhileD)
next
  assume s: "s = a @ c # b \<and> c \<notin> set a"
  then have "takeWhile (\<lambda>x. x \<noteq> c) a = a" "dropWhile (\<lambda>x. x \<noteq> c) a = []"
    by (auto simp: dropWhile_eq_Nil_conv takeWhile_eq_all_conv)
  then show "text_split_once c s = Some (a, b)" using s by (auto simp: text_split_once_def takeWhile_append dropWhile_append)
qed

definition printable_header :: "nat list \<Rightarrow> bool" where
  "printable_header = list_all (\<lambda>b. (0x20 \<le> b \<and> b < 0x7F) \<or> b = 0x09)"

lemma matches_printable:
  assumes "printable_header token"
  shows "matches key (trim token) \<longleftrightarrow> trim token = key"
proof -
  have "\<forall>b \<in> set (trim token). b < 0x80"
    using assms set_trim [of token] by (fastforce simp: printable_header_def list_all_iff)
  then show ?thesis using utf8_eq_ascii [of key "trim token"] utf8_ascii [of "trim token"] by (auto simp: matches_iff)
qed

lemma presented_token_Some:
  "presented_token header = Some presented \<longleftrightarrow>
     (\<exists>scheme token. header = Some (scheme @ 0x20 # token) \<and> 0x20 \<notin> set scheme \<and> printable_header (scheme @ token)
        \<and> text_ascii_lowercase scheme = lit ''bearer'' \<and> presented = trim token \<and> presented \<noteq> [])"
proof
  assume "presented_token header = Some presented"
  then obtain raw scheme token where "header = Some raw" "header_to_str raw = Some raw" "text_split_once 0x20 raw = Some (scheme, token)"
    "text_ascii_lowercase scheme = lit ''bearer''" "presented = trim token" "presented \<noteq> []"
    by (auto simp: presented_token_def header_to_str_def bind_eq_Some_conv split: if_splits)
  then show "\<exists>scheme token. header = Some (scheme @ 0x20 # token) \<and> 0x20 \<notin> set scheme \<and> printable_header (scheme @ token)
        \<and> text_ascii_lowercase scheme = lit ''bearer'' \<and> presented = trim token \<and> presented \<noteq> []"
    by (auto simp: text_split_once_Some header_to_str_def printable_header_def split: if_splits)
next
  assume "\<exists>scheme token. header = Some (scheme @ 0x20 # token) \<and> 0x20 \<notin> set scheme \<and> printable_header (scheme @ token)
        \<and> text_ascii_lowercase scheme = lit ''bearer'' \<and> presented = trim token \<and> presented \<noteq> []"
  then obtain scheme token where h: "header = Some (scheme @ 0x20 # token)" "0x20 \<notin> set scheme" "printable_header (scheme @ token)"
        "text_ascii_lowercase scheme = lit ''bearer''" "presented = trim token" "presented \<noteq> []" by blast
  have "text_split_once 0x20 (scheme @ 0x20 # token) = Some (scheme, token)" using h(2) by (simp add: text_split_once_Some)
  then show "presented_token header = Some presented"
    using h by (simp add: presented_token_def header_to_str_def printable_header_def)
qed

lemma require_control_token_iff:
  assumes "rc_control_token config \<noteq> []"
  shows "require_control_token config header = Ok () \<longleftrightarrow>
      (\<exists>scheme token. header = Some (scheme @ 0x20 # token) \<and> 0x20 \<notin> set scheme \<and> printable_header (scheme @ token)
          \<and> text_ascii_lowercase scheme = lit ''bearer'' \<and> trim token = rc_control_token config)"
proof -
  have "require_control_token config header = Ok () \<longleftrightarrow>
      (\<exists>presented. presented_token header = Some presented \<and> matches (rc_control_token config) presented)"
    by (auto simp: require_control_token_def split: option.splits)
  also have "\<dots> \<longleftrightarrow> (\<exists>scheme token. header = Some (scheme @ 0x20 # token) \<and> 0x20 \<notin> set scheme \<and> printable_header (scheme @ token)
          \<and> text_ascii_lowercase scheme = lit ''bearer'' \<and> trim token = rc_control_token config)"
  proof -
    have "matches (rc_control_token config) (trim token) \<longleftrightarrow> trim token = rc_control_token config"
      if "printable_header (scheme @ token)" for scheme token
      using that by (intro matches_printable) (simp add: printable_header_def)
    then show ?thesis unfolding presented_token_Some using assms by (intro iffI; elim exE conjE; force)
  qed
  finally show ?thesis .
qed

lemma require_control_token_Err: "require_control_token config header = Ok () \<or> require_control_token config header = Err unauthorized"
  by (simp add: require_control_token_def split: option.split)

text \<open>C35: The runner does nothing for a request it is not authorised for: a route other than the health check is
  reached exactly when the authorization header is printable ASCII of the form \<open><scheme> <token>\<close>, the
  scheme is \<open>bearer\<close> in any case, and the token, trimmed, is the configured control token; otherwise
  the answer is 401 with one and the same body.\<close>

theorem control_token_required:
  assumes "rq \<noteq> GetHealthz" "rc_control_token config \<noteq> []"
  shows "router lib config header rq =
    (if \<exists>scheme token. header = Some (scheme @ 0x20 # token) \<and> 0x20 \<notin> set scheme \<and> printable_header (scheme @ token)
          \<and> text_ascii_lowercase scheme = lit ''bearer'' \<and> trim token = rc_control_token config
     then routed lib rq else Err unauthorized)"
  using require_control_token_iff [OF assms(2), of header] require_control_token_Err [of config header] assms(1)
  by (cases rq) (auto simp: router_def)

theorem control_token_required_witness:
  "router plain_lib (plain_config\<lparr>rc_control_token := demo_key\<rparr>) (Some (lit ''Bearer'' @ 0x20 # demo_key)) (GetToken [7]) = Ok (TakeToken 7)"
proof -
  have "printable_header (lit ''Bearer'' @ demo_key)" by (simp add: printable_header_def demo_key_def lit_def)
  moreover have "0x20 \<notin> set (lit ''Bearer'')" "text_ascii_lowercase (lit ''Bearer'') = lit ''bearer''"
    by (simp_all add: lit_def text_ascii_lowercase_def)
  ultimately show ?thesis
    using control_token_required [of "GetToken [7]" "plain_config\<lparr>rc_control_token := demo_key\<rparr>" plain_lib "Some (lit ''Bearer'' @ 0x20 # demo_key)"] demo_key_ok
    by (simp add: parse_id_def plain_lib_def) blast
qed

end
