(* ===== verification/Content_Envelope.thy ===== *)
theory Content_Envelope
  imports Pagination
begin

text \<open>
  Sealed content, \<open>src/src/security/content_envelope.rs\<close>: the 42-byte header, the identity a value is
  bound to, sealing and opening. A byte is a \<open>char\<close>, as in the cursors. AES-256-GCM and the texts of ids
  belong to packages and are parameters (\<open>aead\<close>, \<open>id_text\<close>); the nonce of a seal is an argument.
  The SQL function that names the key of a stored envelope is modelled from its migration.
\<close>

section \<open>The cipher\<close>

record aead =
  ae_encrypt :: "string \<Rightarrow> string \<Rightarrow> string \<Rightarrow> string \<Rightarrow> string option"
  ae_decrypt :: "string \<Rightarrow> string \<Rightarrow> string \<Rightarrow> string \<Rightarrow> string option"

text \<open>Arguments are key, nonce, associated data and text. Relied on: what was encrypted decrypts under the
  same key, nonce and associated data, and carries a tag of sixteen bytes; a text that decrypts is the
  encryption of what it decrypts to (so that, in particular, nothing decrypts that was not encrypted
  with these associated data).\<close>

locale aead_laws =
  fixes ae :: aead
  assumes encrypt_decrypt: "ae_encrypt ae k n a m = Some c \<Longrightarrow> ae_decrypt ae k n a c = Some m"
    and encrypt_length: "ae_encrypt ae k n a m = Some c \<Longrightarrow> length c = length m + 16"
    and decrypt_sound: "ae_decrypt ae k n a c = Some m \<Longrightarrow> ae_encrypt ae k n a m = Some c"

section \<open>Profiles and identities\<close>

definition ENVELOPE_MAGIC :: string where "ENVELOPE_MAGIC = ''MOE1''"
definition FORMAT_VERSION_V1 :: char where "FORMAT_VERSION_V1 = CHR 0x01"
definition ALGORITHM_AES_256_GCM :: char where "ALGORITHM_AES_256_GCM = CHR 0x01"
definition KEY_MODE_WRAPPED_DEK :: char where "KEY_MODE_WRAPPED_DEK = CHR 0x01"
definition ENVELOPE_HEADER_LEN :: nat where "ENVELOPE_HEADER_LEN = 42"
definition ENVELOPE_NONCE_LEN :: nat where "ENVELOPE_NONCE_LEN = 12"
definition ENVELOPE_TAG_LEN :: nat where "ENVELOPE_TAG_LEN = 16"
definition MIN_ENVELOPE_LEN :: nat where "MIN_ENVELOPE_LEN = ENVELOPE_HEADER_LEN + ENVELOPE_TAG_LEN"
definition AAD_SEPARATOR :: char where "AAD_SEPARATOR = CHR 0x00"
definition IDENTITY_PREFIX :: string where "IDENTITY_PREFIX = ''moira/content/v1''"

datatype aad_profile =
    ConversationMessageContent | ConversationSummaryText | MemoryRecordContent | RagDocumentVersionContent | RagChunkText

fun profile_id :: "aad_profile \<Rightarrow> nat" where
  "profile_id ConversationMessageContent = 1"
| "profile_id ConversationSummaryText = 2"
| "profile_id MemoryRecordContent = 3"
| "profile_id RagDocumentVersionContent = 4"
| "profile_id RagChunkText = 5"

definition profile_ALL :: "aad_profile list" where
  "profile_ALL = [ConversationMessageContent, ConversationSummaryText, MemoryRecordContent, RagDocumentVersionContent, RagChunkText]"

definition profile_from_id :: "nat \<Rightarrow> aad_profile option" where
  "profile_from_id n = find (\<lambda>p. profile_id p = n) profile_ALL"

fun profile_label :: "aad_profile \<Rightarrow> string" where
  "profile_label ConversationMessageContent = ''conversation_message_content''"
| "profile_label ConversationSummaryText = ''conversation_summary_text''"
| "profile_label MemoryRecordContent = ''memory_record_content''"
| "profile_label RagDocumentVersionContent = ''rag_document_version_content''"
| "profile_label RagChunkText = ''rag_chunk_text''"

fun profile_table :: "aad_profile \<Rightarrow> string" where
  "profile_table ConversationMessageContent = ''conversation_messages''"
| "profile_table ConversationSummaryText = ''conversation_summaries''"
| "profile_table MemoryRecordContent = ''memory_records''"
| "profile_table RagDocumentVersionContent = ''rag_document_versions''"
| "profile_table RagChunkText = ''rag_chunks''"

fun profile_column :: "aad_profile \<Rightarrow> string" where
  "profile_column ConversationMessageContent = ''content_encrypted''"
| "profile_column ConversationSummaryText = ''summary_text_encrypted''"
| "profile_column MemoryRecordContent = ''content_encrypted''"
| "profile_column RagDocumentVersionContent = ''content_encrypted''"
| "profile_column RagChunkText = ''chunk_text_encrypted''"

datatype content_identity =
    ConversationMessage uuid uuid int
  | ConversationSummary uuid uuid int
  | MemoryRecord uuid uuid string
  | RagDocumentVersion uuid uuid int
  | RagChunk uuid uuid int

fun identity_profile :: "content_identity \<Rightarrow> aad_profile" where
  "identity_profile (ConversationMessage _ _ _) = ConversationMessageContent"
| "identity_profile (ConversationSummary _ _ _) = ConversationSummaryText"
| "identity_profile (MemoryRecord _ _ _) = MemoryRecordContent"
| "identity_profile (RagDocumentVersion _ _ _) = RagDocumentVersionContent"
| "identity_profile (RagChunk _ _ _) = RagChunkText"

fun nat_text :: "nat \<Rightarrow> string" where
  "nat_text n = (if n < 10 then [char_of (48 + n)] else nat_text (n div 10) @ [char_of (48 + n mod 10)])"

declare nat_text.simps [simp del]

text \<open>\<open>Display\<close> of a signed integer.\<close>

definition int_text :: "int \<Rightarrow> string" where
  "int_text i = (if i < 0 then ''-'' @ nat_text (nat (- i)) else nat_text (nat i))"

definition identity_head :: "aad_profile \<Rightarrow> string" where
  "identity_head p = IDENTITY_PREFIX @ '';table='' @ profile_table p @ '';column='' @ profile_column p"

fun identity_string :: "(uuid \<Rightarrow> string) \<Rightarrow> content_identity \<Rightarrow> string" where
  "identity_string id_text (ConversationMessage message_id conversation_id sequence_number) =
     identity_head ConversationMessageContent @ '';message_id='' @ id_text message_id @ '';conversation_id='' @ id_text conversation_id
       @ '';sequence_number='' @ int_text sequence_number"
| "identity_string id_text (ConversationSummary summary_id conversation_id covers_through_sequence) =
     identity_head ConversationSummaryText @ '';summary_id='' @ id_text summary_id @ '';conversation_id='' @ id_text conversation_id
       @ '';covers_through_sequence='' @ int_text covers_through_sequence"
| "identity_string id_text (MemoryRecord memory_id application_id memory_scope) =
     identity_head MemoryRecordContent @ '';memory_id='' @ id_text memory_id @ '';application_id='' @ id_text application_id
       @ '';memory_scope='' @ memory_scope"
| "identity_string id_text (RagDocumentVersion version_id document_id version_number) =
     identity_head RagDocumentVersionContent @ '';version_id='' @ id_text version_id @ '';document_id='' @ id_text document_id
       @ '';version_number='' @ int_text version_number"
| "identity_string id_text (RagChunk chunk_id document_version_id chunk_index) =
     identity_head RagChunkText @ '';chunk_id='' @ id_text chunk_id @ '';document_version_id='' @ id_text document_version_id
       @ '';chunk_index='' @ int_text chunk_index"

section \<open>The header\<close>

datatype content_envelope_error =
    TooShort nat
  | BadMagic string
  | UnsupportedFormatVersion char
  | UnsupportedAlgorithm char
  | UnsupportedKeyMode char
  | ReservedNotZero char
  | UnknownAadProfile nat
  | BodyLengthMismatch nat nat
  | ProfileMismatch aad_profile aad_profile
  | DataKeyMismatch uuid uuid
  | PlaintextTooLarge nat
  | DecryptFailed
  | EncryptFailed

record envelope_header =
  eh_format_version :: char
  eh_algorithm_id :: char
  eh_key_mode :: char
  eh_data_key_id :: uuid
  eh_nonce :: string
  eh_aad_profile :: aad_profile
  eh_body_len :: "32 word"

definition header_parse :: "string \<Rightarrow> content_envelope_error + envelope_header" where
  "header_parse env =
     (if length env < MIN_ENVELOPE_LEN then Err (TooShort (length env))
      else if take 4 env \<noteq> ENVELOPE_MAGIC then Err (BadMagic (take 4 env))
      else if env ! 4 \<noteq> FORMAT_VERSION_V1 then Err (UnsupportedFormatVersion (env ! 4))
      else if env ! 5 \<noteq> ALGORITHM_AES_256_GCM then Err (UnsupportedAlgorithm (env ! 5))
      else if env ! 6 \<noteq> KEY_MODE_WRAPPED_DEK then Err (UnsupportedKeyMode (env ! 6))
      else if env ! 7 \<noteq> CHR 0x00 then Err (ReservedNotZero (env ! 7))
      else
        let data_key_id = uuid_of_bytes (take 16 (drop 8 env));
            nonce = take ENVELOPE_NONCE_LEN (drop 24 env);
            pid = from_be (take 2 (drop 36 env))
        in case profile_from_id pid of
             None \<Rightarrow> Err (UnknownAadProfile pid)
           | Some profile \<Rightarrow>
               let body_len = of_nat (from_be (take 4 (drop 38 env))) :: 32 word;
                   actual = length env - ENVELOPE_HEADER_LEN
               in if unat body_len \<noteq> actual then Err (BodyLengthMismatch (unat body_len) actual)
                  else Ok \<lparr>eh_format_version = env ! 4, eh_algorithm_id = env ! 5, eh_key_mode = env ! 6, eh_data_key_id = data_key_id,
                    eh_nonce = nonce, eh_aad_profile = profile, eh_body_len = body_len\<rparr>)"

definition header_to_bytes :: "envelope_header \<Rightarrow> string" where
  "header_to_bytes h =
     ENVELOPE_MAGIC @ [eh_format_version h, eh_algorithm_id h, eh_key_mode h, CHR 0x00] @ uuid_bytes (eh_data_key_id h)
       @ eh_nonce h @ to_be 2 (profile_id (eh_aad_profile h)) @ to_be 4 (unat (eh_body_len h))"

definition envelope_aad :: "(uuid \<Rightarrow> string) \<Rightarrow> string \<Rightarrow> content_identity \<Rightarrow> string" where
  "envelope_aad id_text header_bytes identity = header_bytes @ [AAD_SEPARATOR] @ identity_string id_text identity"

section \<open>Sealing and opening\<close>

record content_cipher =
  cc_data_key_id :: uuid
  cc_key :: string

definition seal_with_nonce ::
    "aead \<Rightarrow> (uuid \<Rightarrow> string) \<Rightarrow> content_cipher \<Rightarrow> content_identity \<Rightarrow> string \<Rightarrow> string \<Rightarrow> content_envelope_error + string" where
  "seal_with_nonce ae id_text cipher identity plaintext nonce =
     (if length plaintext + ENVELOPE_TAG_LEN \<ge> 2 ^ 32 then Err (PlaintextTooLarge (length plaintext))
      else
        let header = \<lparr>eh_format_version = FORMAT_VERSION_V1, eh_algorithm_id = ALGORITHM_AES_256_GCM,
              eh_key_mode = KEY_MODE_WRAPPED_DEK, eh_data_key_id = cc_data_key_id cipher, eh_nonce = nonce,
              eh_aad_profile = identity_profile identity, eh_body_len = of_nat (length plaintext + ENVELOPE_TAG_LEN)\<rparr>;
            header_bytes = header_to_bytes header;
            aad = envelope_aad id_text header_bytes identity
        in case ae_encrypt ae (cc_key cipher) nonce aad plaintext of
             None \<Rightarrow> Err EncryptFailed
           | Some body \<Rightarrow> Ok (header_bytes @ body))"

definition open_envelope ::
    "aead \<Rightarrow> (uuid \<Rightarrow> string) \<Rightarrow> content_cipher \<Rightarrow> string \<Rightarrow> content_identity \<Rightarrow> content_envelope_error + string" where
  "open_envelope ae id_text cipher env identity =
     (case header_parse env of
        Err e \<Rightarrow> Err e
      | Ok header \<Rightarrow>
          if eh_aad_profile header \<noteq> identity_profile identity
          then Err (ProfileMismatch (eh_aad_profile header) (identity_profile identity))
          else if eh_data_key_id header \<noteq> cc_data_key_id cipher
          then Err (DataKeyMismatch (eh_data_key_id header) (cc_data_key_id cipher))
          else
            let aad = envelope_aad id_text (take ENVELOPE_HEADER_LEN env) identity in
            case ae_decrypt ae (cc_key cipher) (eh_nonce header) aad (drop ENVELOPE_HEADER_LEN env) of
              None \<Rightarrow> Err DecryptFailed
            | Some plaintext \<Rightarrow> Ok plaintext)"

definition envelope_data_key_id :: "string \<Rightarrow> uuid option" where
  "envelope_data_key_id env = (case header_parse env of Ok h \<Rightarrow> Some (eh_data_key_id h) | Err _ \<Rightarrow> None)"

text \<open>The SQL function \<open>content_envelope_data_key_id\<close> of migration 0027.\<close>

definition sql_envelope_data_key_id :: "string \<Rightarrow> uuid option" where
  "sql_envelope_data_key_id env =
     (if length env < 58 then None
      else if take 4 env \<noteq> ''MOE1'' then None
      else if of_char (env ! 4) \<noteq> (1 :: nat) then None
      else Some (uuid_of_bytes (take 16 (drop 8 env))))"

section \<open>Headers read back\<close>

lemmas envelope_consts = ENVELOPE_MAGIC_def FORMAT_VERSION_V1_def ALGORITHM_AES_256_GCM_def KEY_MODE_WRAPPED_DEK_def
  ENVELOPE_HEADER_LEN_def ENVELOPE_NONCE_LEN_def ENVELOPE_TAG_LEN_def MIN_ENVELOPE_LEN_def

lemma from_be_acc: "foldl (\<lambda>acc c. acc * 256 + of_char c) a bs = a * 256 ^ length bs + from_be bs"
proof (induction bs arbitrary: a)
  case (Cons c bs)
  show ?case using Cons [of "a * 256 + of_char c"] Cons [of "of_char c"] by (simp add: from_be_def algebra_simps)
qed (simp add: from_be_def)

lemma from_be_Cons: "from_be (c # bs) = of_char c * 256 ^ length bs + from_be bs"
  by (simp add: from_be_def) (simp add: from_be_acc)

lemma of_char_less_256: "(of_char c :: nat) < 256"
  by simp

lemma from_be_less: "from_be bs < 256 ^ length bs"
proof (induction bs)
  case (Cons c bs)
  have "from_be (c # bs) < of_char c * 256 ^ length bs + 256 ^ length bs" using Cons by (simp only: from_be_Cons add_strict_left_mono)
  also have "\<dots> = (of_char c + 1) * 256 ^ length bs" by (simp add: algebra_simps)
  also have "\<dots> \<le> 256 * 256 ^ length bs" by (rule mult_le_mono1) (use of_char_less_256 [of c] in linarith)
  finally show ?case by simp
qed (simp add: from_be_def)

lemma to_be_from_be: "length bs = n \<Longrightarrow> to_be n (from_be bs) = bs"
proof (induction bs arbitrary: n)
  case (Cons c bs)
  have low: "to_be k (v + 256 ^ m * d) = to_be k v" if "k \<le> m" for k m v d
    using that
  proof (induction k)
    case (Suc k)
    have "256 ^ m = (256 :: nat) ^ k * 256 * 256 ^ (m - Suc k)" using Suc.prems
      by (metis le_add_diff_inverse power_Suc2 power_add)
    then have "(v + 256 ^ m * d) div 256 ^ k = v div 256 ^ k + 256 * (256 ^ (m - Suc k) * d)"
      using div_mult_self2 [of "256 ^ k" v "256 * (256 ^ (m - Suc k) * d)"] by (simp add: mult.assoc)
    then show ?case using Suc by simp
  qed simp
  obtain k where n: "n = Suc k" "length bs = k" using Cons.prems by auto
  have "from_be (c # bs) = from_be bs + 256 ^ k * of_char c" by (simp add: from_be_Cons n mult.commute)
  moreover have "(from_be bs + 256 ^ k * of_char c) div 256 ^ k mod 256 = of_char c"
    using from_be_less [of bs] by (simp add: n)
  ultimately show ?case using Cons.IH [OF n(2)] low [of k k "from_be bs"] by (simp add: n)
qed simp

lemma uuid_bytes_of_bytes: "length bs = 16 \<Longrightarrow> uuid_bytes (uuid_of_bytes bs) = bs"
proof -
  assume l: "length bs = 16"
  have "from_be bs < 2 ^ 128" using from_be_less [of bs] by (simp add: l)
  then have "unat (of_nat (from_be bs) :: uuid) = from_be bs" by (simp add: unat_of_nat)
  then show ?thesis using to_be_from_be [OF l] by (simp add: uuid_bytes_def uuid_of_bytes_def)
qed

lemma length_uuid_bytes [simp]: "length (uuid_bytes u) = 16"
  by (simp add: uuid_bytes_def)

lemma profile_from_id [simp]: "profile_from_id (profile_id p) = Some p"
  by (cases p) (simp_all add: profile_from_id_def profile_ALL_def)

lemma profile_from_id_Some: "profile_from_id n = Some p \<Longrightarrow> profile_id p = n"
  by (auto simp: profile_from_id_def find_Some_iff)

lemma profile_id_less: "profile_id p < 256 ^ 2"
  by (cases p) simp_all

text \<open>Headers as \<open>seal\<close> writes them.\<close>

definition canonical_header :: "envelope_header \<Rightarrow> bool" where
  "canonical_header h \<longleftrightarrow> eh_format_version h = FORMAT_VERSION_V1 \<and> eh_algorithm_id h = ALGORITHM_AES_256_GCM
     \<and> eh_key_mode h = KEY_MODE_WRAPPED_DEK \<and> length (eh_nonce h) = ENVELOPE_NONCE_LEN"

lemma length_header_to_bytes: "canonical_header h \<Longrightarrow> length (header_to_bytes h) = ENVELOPE_HEADER_LEN"
  by (simp add: canonical_header_def header_to_bytes_def envelope_consts)

lemma header_parse_to_bytes:
  assumes "canonical_header h" "unat (eh_body_len h) = length body" "16 \<le> length body"
  shows "header_parse (header_to_bytes h @ body) = Ok h"
proof -
  have "unat (eh_body_len h) < 256 ^ 4" using unsigned_less [of "eh_body_len h", where ?'a = nat] by simp
  then have "of_nat (from_be (to_be 4 (unat (eh_body_len h)))) = eh_body_len h" by (simp add: from_be_to_be)
  moreover have "from_be (to_be 2 (profile_id p)) = profile_id p" for p by (rule from_be_to_be [OF profile_id_less])
  moreover have "length ENVELOPE_MAGIC = 4" by (simp add: ENVELOPE_MAGIC_def)
  moreover have "h = \<lparr>eh_format_version = FORMAT_VERSION_V1, eh_algorithm_id = ALGORITHM_AES_256_GCM, eh_key_mode = KEY_MODE_WRAPPED_DEK,
      eh_data_key_id = eh_data_key_id h, eh_nonce = eh_nonce h, eh_aad_profile = eh_aad_profile h, eh_body_len = eh_body_len h\<rparr>"
    using assms(1) by (simp add: canonical_header_def)
  ultimately show ?thesis
    using assms
    by (simp add: header_parse_def header_to_bytes_def canonical_header_def ENVELOPE_HEADER_LEN_def ENVELOPE_NONCE_LEN_def
        ENVELOPE_TAG_LEN_def MIN_ENVELOPE_LEN_def uuid_roundtrip nth_append nth_Cons' Let_def)
qed

lemma header_parse_Ok:
  assumes "header_parse env = Ok h"
  shows "canonical_header h" "env = header_to_bytes h @ drop ENVELOPE_HEADER_LEN env"
    and "unat (eh_body_len h) = length env - ENVELOPE_HEADER_LEN" "16 \<le> length env - ENVELOPE_HEADER_LEN"
proof -
  define key nonce pid len where "key = take 16 (drop 8 env)" and "nonce = take 12 (drop 24 env)"
    and "pid = take 2 (drop 36 env)" and "len = take 4 (drop 38 env)"
  obtain profile where l: "58 \<le> length env" "take 4 env = ENVELOPE_MAGIC" "env ! 4 = FORMAT_VERSION_V1"
      "env ! 5 = ALGORITHM_AES_256_GCM" "env ! 6 = KEY_MODE_WRAPPED_DEK" "env ! 7 = CHR 0x00"
      "profile_from_id (from_be pid) = Some profile" "unat (of_nat (from_be len) :: 32 word) = length env - 42"
    and h: "h = \<lparr>eh_format_version = env ! 4, eh_algorithm_id = env ! 5, eh_key_mode = env ! 6, eh_data_key_id = uuid_of_bytes key,
      eh_nonce = nonce, eh_aad_profile = profile, eh_body_len = of_nat (from_be len)\<rparr>"
    using assms by (auto simp: header_parse_def Let_def envelope_consts key_def nonce_def pid_def len_def not_less split: if_splits option.splits)
  have len: "length key = 16" "length nonce = 12" "length pid = 2" "length len = 4"
    using l(1) by (simp_all add: key_def nonce_def pid_def len_def)
  show "canonical_header h" "unat (eh_body_len h) = length env - ENVELOPE_HEADER_LEN" "16 \<le> length env - ENVELOPE_HEADER_LEN"
    using l len by (simp_all add: h canonical_header_def envelope_consts)
  have "from_be len < 2 ^ 32" using from_be_less [of len] by (simp add: len)
  then have "to_be 4 (unat (eh_body_len h)) = len" using to_be_from_be [OF len(4)] by (simp add: h unat_of_nat)
  moreover have "to_be 2 (profile_id profile) = pid" using profile_from_id_Some [OF l(7)] to_be_from_be [OF len(3)] by simp
  ultimately have bytes: "header_to_bytes h = take 4 env @ [env ! 4, env ! 5, env ! 6, env ! 7] @ key @ nonce @ pid @ len"
    using uuid_bytes_of_bytes [OF len(1)] l(2,6) by (simp add: header_to_bytes_def h)
  have "env = take 4 env @ drop 4 env" by simp
  also have "drop 4 env = [env ! 4, env ! 5, env ! 6, env ! 7] @ drop 8 env" using l(1) by (simp add: Cons_nth_drop_Suc numeral_eq_Suc)
  also have "drop 8 env = key @ drop 24 env" using append_take_drop_id [of 16 "drop 8 env"] by (simp add: key_def)
  also have "drop 24 env = nonce @ drop 36 env" using append_take_drop_id [of 12 "drop 24 env"] by (simp add: nonce_def)
  also have "drop 36 env = pid @ drop 38 env" using append_take_drop_id [of 2 "drop 36 env"] by (simp add: pid_def)
  also have "drop 38 env = len @ drop 42 env" using append_take_drop_id [of 4 "drop 38 env"] by (simp add: len_def)
  finally show "env = header_to_bytes h @ drop ENVELOPE_HEADER_LEN env" by (simp add: bytes ENVELOPE_HEADER_LEN_def)
qed

section \<open>Opening is the inverse of sealing\<close>

definition sealed_header :: "content_cipher \<Rightarrow> content_identity \<Rightarrow> string \<Rightarrow> string \<Rightarrow> envelope_header" where
  "sealed_header cipher identity plaintext nonce =
     \<lparr>eh_format_version = FORMAT_VERSION_V1, eh_algorithm_id = ALGORITHM_AES_256_GCM,
      eh_key_mode = KEY_MODE_WRAPPED_DEK, eh_data_key_id = cc_data_key_id cipher, eh_nonce = nonce,
      eh_aad_profile = identity_profile identity, eh_body_len = of_nat (length plaintext + ENVELOPE_TAG_LEN)\<rparr>"

lemma seal_Ok_iff:
  "seal_with_nonce ae id_text cipher identity plaintext nonce = Ok env \<longleftrightarrow>
     length plaintext + ENVELOPE_TAG_LEN < 2 ^ 32 \<and>
     (\<exists>body. ae_encrypt ae (cc_key cipher) nonce (envelope_aad id_text (header_to_bytes (sealed_header cipher identity plaintext nonce)) identity) plaintext = Some body
        \<and> env = header_to_bytes (sealed_header cipher identity plaintext nonce) @ body)"
  by (auto simp: seal_with_nonce_def sealed_header_def Let_def not_le split: option.splits)

lemma canonical_sealed_header [simp]: "length nonce = ENVELOPE_NONCE_LEN \<Longrightarrow> canonical_header (sealed_header cipher identity plaintext nonce)"
  by (simp add: canonical_header_def sealed_header_def)

lemma unat_small: "n < 2 ^ 32 \<Longrightarrow> unat (of_nat n :: 32 word) = n"
  by (simp add: unat_of_nat)

context aead_laws
begin

lemma seal_parses:
  assumes "seal_with_nonce ae id_text cipher identity plaintext nonce = Ok env" "length nonce = ENVELOPE_NONCE_LEN"
  shows "header_parse env = Ok (sealed_header cipher identity plaintext nonce)"
proof -
  from assms(1) obtain body where b: "length plaintext + ENVELOPE_TAG_LEN < 2 ^ 32" "env = header_to_bytes (sealed_header cipher identity plaintext nonce) @ body"
    "length body = length plaintext + 16"
    by (auto simp: seal_Ok_iff dest: encrypt_length)
  then have "unat (eh_body_len (sealed_header cipher identity plaintext nonce)) = length body"
    using unat_small [OF b(1)] by (simp add: sealed_header_def del: of_nat_add) (simp add: ENVELOPE_TAG_LEN_def)
  then show ?thesis using header_parse_to_bytes [OF canonical_sealed_header [OF assms(2)]] b by simp
qed

lemma open_seal:
  assumes "seal_with_nonce ae id_text cipher identity plaintext nonce = Ok env" "length nonce = ENVELOPE_NONCE_LEN"
  shows "open_envelope ae id_text cipher env identity = Ok plaintext"
proof -
  from assms(1) obtain body where b: "env = header_to_bytes (sealed_header cipher identity plaintext nonce) @ body"
    "ae_encrypt ae (cc_key cipher) nonce (envelope_aad id_text (header_to_bytes (sealed_header cipher identity plaintext nonce)) identity) plaintext = Some body"
    by (auto simp: seal_Ok_iff)
  have len: "length (header_to_bytes (sealed_header cipher identity plaintext nonce)) = ENVELOPE_HEADER_LEN"
    using assms(2) by (simp add: length_header_to_bytes)
  show ?thesis
    unfolding open_envelope_def seal_parses [OF assms]
    using encrypt_decrypt [OF b(2)] len by (simp add: b(1)) (simp add: sealed_header_def)
qed

lemma seal_open:
  assumes "open_envelope ae id_text cipher env identity = Ok plaintext"
  shows "\<exists>nonce. length nonce = ENVELOPE_NONCE_LEN \<and> seal_with_nonce ae id_text cipher identity plaintext nonce = Ok env"
proof -
  from assms obtain h where h: "header_parse env = Ok h" "eh_aad_profile h = identity_profile identity" "eh_data_key_id h = cc_data_key_id cipher"
    and d: "ae_decrypt ae (cc_key cipher) (eh_nonce h) (envelope_aad id_text (take ENVELOPE_HEADER_LEN env) identity) (drop ENVELOPE_HEADER_LEN env) = Some plaintext"
    by (auto simp: open_envelope_def Let_def split: sum.splits if_splits option.splits)
  note p = header_parse_Ok [OF h(1)]
  have len: "length (drop ENVELOPE_HEADER_LEN env) = length plaintext + 16" using encrypt_length [OF decrypt_sound [OF d]] .
  then have body: "eh_body_len h = of_nat (length plaintext + ENVELOPE_TAG_LEN)"
  proof -
    have "unat (eh_body_len h) = length plaintext + ENVELOPE_TAG_LEN" using p(3) len by (simp add: ENVELOPE_TAG_LEN_def)
    moreover have "of_nat (unat (eh_body_len h)) = eh_body_len h" by simp
    ultimately show ?thesis by metis
  qed
  then have hd: "h = sealed_header cipher identity plaintext (eh_nonce h)"
    using p(1) h by (simp add: sealed_header_def canonical_header_def)
  have "length plaintext + ENVELOPE_TAG_LEN < 2 ^ 32"
    using p(3) len unsigned_less [of "eh_body_len h", where ?'a = nat] by (simp add: ENVELOPE_TAG_LEN_def)
  moreover have "take ENVELOPE_HEADER_LEN env = header_to_bytes h"
    using p(2) length_header_to_bytes [OF p(1)] by (metis append_eq_conv_conj)
  ultimately have "seal_with_nonce ae id_text cipher identity plaintext (eh_nonce h) = Ok env"
    using decrypt_sound [OF d] p(2) hd by (simp add: seal_Ok_iff)
  then show ?thesis using p(1) by (auto simp: canonical_header_def)
qed

lemma seal_names_key:
  assumes "seal_with_nonce ae id_text cipher identity plaintext nonce = Ok env" "length nonce = ENVELOPE_NONCE_LEN"
  shows "envelope_data_key_id env = Some (cc_data_key_id cipher)" "sql_envelope_data_key_id env = Some (cc_data_key_id cipher)"
proof -
  note p = seal_parses [OF assms]
  then show "envelope_data_key_id env = Some (cc_data_key_id cipher)" by (simp add: envelope_data_key_id_def sealed_header_def)
  have "58 \<le> length env" "take 4 env = ''MOE1''" "env ! 4 = CHR 0x01" "uuid_of_bytes (take 16 (drop 8 env)) = cc_data_key_id cipher"
    using p by (auto simp: header_parse_def Let_def envelope_consts sealed_header_def not_less split: if_splits option.splits)
  then show "sql_envelope_data_key_id env = Some (cc_data_key_id cipher)" by (simp add: sql_envelope_data_key_id_def)
qed

end

text \<open>C31: Opening is exactly the inverse of sealing: a stored value opens under a cipher and an identity, to a
  plaintext, if and only if it is what sealing that plaintext for that identity under that cipher
  produces for some nonce. In particular what was sealed opens again, and bytes that were altered,
  truncated, sealed under another key id or for another kind of row are refused unless they are
  themselves such a sealing.\<close>

theorem envelope_opens_exactly:
  assumes "aead_laws ae"
  shows "open_envelope ae id_text cipher env identity = Ok plaintext \<longleftrightarrow>
    (\<exists>nonce. length nonce = ENVELOPE_NONCE_LEN \<and> seal_with_nonce ae id_text cipher identity plaintext nonce = Ok env)"
  using aead_laws.open_seal [OF assms] aead_laws.seal_open [OF assms] by metis

text \<open>A toy cipher with the laws: the tag is made of the lengths, and the text is not hidden.\<close>

definition plain_aead :: aead where
  "plain_aead = \<lparr>ae_encrypt = (\<lambda>k n a m. Some (m @ take 16 (k @ a @ replicate 16 CHR 0x00))),
     ae_decrypt = (\<lambda>k n a c. if 16 \<le> length c \<and> drop (length c - 16) c = take 16 (k @ a @ replicate 16 CHR 0x00)
       then Some (take (length c - 16) c) else None)\<rparr>"

interpretation plain: aead_laws plain_aead
proof unfold_locales
  show "ae_decrypt plain_aead k n a c = Some m \<Longrightarrow> ae_encrypt plain_aead k n a m = Some c" for k n a c m
    by (auto simp: plain_aead_def split: if_splits) (metis append_take_drop_id)
qed (auto simp: plain_aead_def)

definition plain_id :: "uuid \<Rightarrow> string" where
  "plain_id u = replicate 20 CHR ''0'' @ uuid_bytes u"

theorem envelope_opens_exactly_witness:
  "\<exists>env. open_envelope plain_aead plain_id \<lparr>cc_data_key_id = 3, cc_key = ''k''\<rparr> env (RagChunk 1 2 0) = Ok ''text''"
proof -
  have "\<exists>env. seal_with_nonce plain_aead plain_id \<lparr>cc_data_key_id = 3, cc_key = ''k''\<rparr> (RagChunk 1 2 0) ''text'' (replicate 12 CHR ''n'') = Ok env"
    by (simp add: seal_Ok_iff plain_aead_def ENVELOPE_TAG_LEN_def)
  then show ?thesis
    using envelope_opens_exactly [OF plain.aead_laws_axioms] by (metis ENVELOPE_NONCE_LEN_def length_replicate)
qed

section \<open>Associated data name one row\<close>

lemma nat_text_inj: "nat_text n = nat_text m \<Longrightarrow> n = m"
proof (induction n arbitrary: m rule: nat_text.induct)
  case (1 n)
  have nonempty: "nat_text k \<noteq> []" for k by (subst nat_text.simps) simp
  have digit: "(char_of (48 + a) = (char_of (48 + b) :: char)) \<longleftrightarrow> a = b" if "a < 10" "b < 10" for a b :: nat
    using that by (simp add: char_of_eq_iff take_bit_nat_eq_self)
  show ?case
  proof (cases "n < 10"; cases "m < 10")
    assume "n < 10" "m < 10"
    then show ?thesis using 1(2) digit by (simp add: nat_text.simps)
  next
    assume "n < 10" "\<not> m < 10"
    then show ?thesis using 1(2) nonempty [of "m div 10"] by (simp add: nat_text.simps [of n] nat_text.simps [of m])
  next
    assume "\<not> n < 10" "m < 10"
    then show ?thesis using 1(2) nonempty [of "n div 10"] by (simp add: nat_text.simps [of n] nat_text.simps [of m])
  next
    assume big: "\<not> n < 10" "\<not> m < 10"
    then have "nat_text (n div 10) = nat_text (m div 10)" "n mod 10 = m mod 10"
      using 1(2) digit [of "n mod 10" "m mod 10"] by (simp_all add: nat_text.simps [of n] nat_text.simps [of m])
    then show ?thesis using 1(1) [OF big(1)] by (metis div_mult_mod_eq)
  qed
qed

lemma hd_nat_text: "nat_text n \<noteq> [] \<and> hd (nat_text n) \<noteq> CHR ''-''"
proof (induction n rule: nat_text.induct)
  case (1 n)
  show ?case
  proof (cases "n < 10")
    case True
    then have "char_of (48 + n) \<noteq> CHR ''-''" by (simp add: char_of_eq_iff take_bit_nat_eq_self)
    then show ?thesis using True by (simp add: nat_text.simps)
  next
    case False
    then show ?thesis using 1 by (simp add: nat_text.simps [of n])
  qed
qed

lemma int_text_inj: "int_text i = int_text j \<Longrightarrow> i = j"
  using hd_nat_text [of "nat i"] hd_nat_text [of "nat j"]
  by (auto simp: int_text_def split: if_splits dest: nat_text_inj) (metis list.sel(1))+

lemma append_same_length: "a @ b = c @ d \<Longrightarrow> length a = length c \<Longrightarrow> a = c \<and> b = d"
  by simp

lemma identity_string_inj:
  assumes id: "inj id_text" "\<And>u. length (id_text u) = 36" and eq: "identity_string id_text i = identity_string id_text j"
  shows "i = j"
proof -
  have ids: "id_text u = id_text v \<longleftrightarrow> u = v" for u v using id(1) by (auto dest: injD)
  show ?thesis
    using eq
    by (cases i; cases j)
      (auto simp: identity_head_def ids dest!: append_same_length [of "id_text _" _ "id_text _"] int_text_inj simp: id(2))
qed

text \<open>C32: The associated data of a seal determine its header and the row it belongs to: two seals with the same
  associated data have the same 42 header bytes and the same identity, whatever ids, numbers and scope
  texts occur in it, so a value copied to another row, table or column is presented with other
  associated data.\<close>

theorem envelope_aad_binds:
  assumes "inj id_text" "\<forall>u. length (id_text u) = 36"
    and "length h = ENVELOPE_HEADER_LEN" "length h' = ENVELOPE_HEADER_LEN"
  shows "envelope_aad id_text h i = envelope_aad id_text h' j \<longleftrightarrow> h = h' \<and> i = j"
  using assms identity_string_inj [of id_text i j] by (auto simp: envelope_aad_def)

theorem envelope_aad_binds_witness:
  "envelope_aad plain_id (replicate 42 CHR ''h'') (RagChunk 1 2 3) \<noteq> envelope_aad plain_id (replicate 42 CHR ''h'') (RagChunk 1 2 4)"
proof -
  have "inj plain_id" unfolding inj_def plain_id_def by (metis same_append_eq uuid_roundtrip)
  moreover have "\<forall>u. length (plain_id u) = 36" by (simp add: plain_id_def)
  ultimately show ?thesis
    using envelope_aad_binds [of plain_id "replicate 42 CHR ''h''" "replicate 42 CHR ''h''" "RagChunk 1 2 3" "RagChunk 1 2 4"]
    by (simp add: ENVELOPE_HEADER_LEN_def)
qed

end
