(* ===== verification/Key_Custody.thy ===== *)
theory Key_Custody
  imports Content_Envelope
begin

text \<open>
  Custody of the master keys, \<open>src/src/security/key_custody.rs\<close>: the interface the keyring calls, as a
  record of operations with its laws, and the environment backend that implements it. A key and a wrapped
  key are byte strings; nonces and probe keys, which the code draws at random, are arguments.
\<close>

section \<open>The interface\<close>

definition WRAP_ALGORITHM_AES_256_GCM :: string where "WRAP_ALGORITHM_AES_256_GCM = ''AES-256-GCM''"
definition CUSTODY_BACKEND_ENVIRONMENT :: string where "CUSTODY_BACKEND_ENVIRONMENT = ''environment''"
definition ENVIRONMENT_WRAP_FORMAT_V1 :: char where "ENVIRONMENT_WRAP_FORMAT_V1 = CHR 0x01"
definition WRAP_NONCE_LENGTH :: nat where "WRAP_NONCE_LENGTH = 12"
definition WRAPPED_DEK_LENGTH :: nat where "WRAPPED_DEK_LENGTH = 48"
definition ENVIRONMENT_WRAP_BLOB_LENGTH :: nat where "ENVIRONMENT_WRAP_BLOB_LENGTH = 1 + WRAP_NONCE_LENGTH + WRAPPED_DEK_LENGTH"
definition MASTER_KEY_ID_MAX_LENGTH :: nat where "MASTER_KEY_ID_MAX_LENGTH = 128"

record wrapped_key =
  wk_master_key_id :: string
  wk_wrap_algorithm :: string
  wk_nonce :: string
  wk_wrapped :: string

datatype key_custody_error = UnknownMasterKey string | CustodyUnavailable string | UnwrapFailed

record custody =
  cu_backend_name :: string
  cu_active_master_key_id :: string
  cu_can_unwrap :: "string \<Rightarrow> bool"
  cu_wrap_algorithm :: string
  cu_master_key_ids :: "string list"
  cu_wrap_under :: "string \<Rightarrow> string \<Rightarrow> string \<Rightarrow> string \<Rightarrow> key_custody_error + wrapped_key"
  cu_unwrap :: "wrapped_key \<Rightarrow> string \<Rightarrow> key_custody_error + string"

definition cu_wrap :: "custody \<Rightarrow> string \<Rightarrow> string \<Rightarrow> string \<Rightarrow> key_custody_error + wrapped_key" where
  "cu_wrap cu dek aad nonce = cu_wrap_under cu (cu_active_master_key_id cu) dek aad nonce"

text \<open>What the keyring needs: a wrapped key of 32 bytes is under the named master key with the backend's
  algorithm, and unwraps to the same key with the same associated data.\<close>

locale custody_laws =
  fixes cu :: custody
  assumes wrap_unwrap: "cu_wrap_under cu m dek aad nonce = Ok w \<Longrightarrow> length dek = 32 \<Longrightarrow> length nonce = WRAP_NONCE_LENGTH \<Longrightarrow>
      cu_unwrap cu w aad = Ok dek"
    and wrap_names: "cu_wrap_under cu m dek aad nonce = Ok w \<Longrightarrow> wk_master_key_id w = m \<and> wk_wrap_algorithm w = cu_wrap_algorithm cu"
    and unwrap_holds: "cu_unwrap cu w aad = Ok dek \<Longrightarrow> cu_can_unwrap cu (wk_master_key_id w) \<and> length dek = 32"
begin

lemma cu_wrap_Ok:
  assumes "cu_wrap cu dek aad nonce = Ok w" "length dek = 32" "length nonce = WRAP_NONCE_LENGTH"
  shows "cu_unwrap cu w aad = Ok dek" "wk_master_key_id w = cu_active_master_key_id cu" "wk_wrap_algorithm w = cu_wrap_algorithm cu"
  using assms wrap_unwrap wrap_names unfolding cu_wrap_def by metis+

end

definition wrapped_data_key_aad :: "(uuid \<Rightarrow> string) \<Rightarrow> uuid \<Rightarrow> string \<Rightarrow> string \<Rightarrow> string" where
  "wrapped_data_key_aad id_text data_key_id master_key_id wrap_algorithm =
     ''moira/data-key/v1;data_key_id='' @ id_text data_key_id @ '';master_key_id='' @ master_key_id
       @ '';wrap_algorithm='' @ wrap_algorithm"

definition is_master_key_char :: "char \<Rightarrow> bool" where
  "is_master_key_char c \<longleftrightarrow>
     (48 \<le> (of_char c :: nat) \<and> of_char c \<le> (57 :: nat)) \<or> (65 \<le> (of_char c :: nat) \<and> of_char c \<le> (90 :: nat))
     \<or> (97 \<le> (of_char c :: nat) \<and> of_char c \<le> (122 :: nat)) \<or> c \<in> {CHR ''.'', CHR ''_'', CHR ''-''}"

definition is_valid_master_key_id :: "string \<Rightarrow> bool" where
  "is_valid_master_key_id s \<longleftrightarrow> s \<noteq> [] \<and> length s \<le> MASTER_KEY_ID_MAX_LENGTH \<and> list_all is_master_key_char s"

section \<open>The environment backend\<close>

record environment_custody =
  ec_keys :: "(string \<times> string) list"
  ec_active_master_key_id :: string

definition EnvironmentMasterKeyCustody_new :: "(string \<times> string) list \<Rightarrow> string \<Rightarrow> key_custody_error + environment_custody" where
  "EnvironmentMasterKeyCustody_new keys active =
     (if map_of keys active = None then Err (UnknownMasterKey active)
      else Ok \<lparr>ec_keys = keys, ec_active_master_key_id = active\<rparr>)"

definition encode_wrapped :: "wrapped_key \<Rightarrow> key_custody_error + string" where
  "encode_wrapped w =
     (if wk_wrap_algorithm w \<noteq> WRAP_ALGORITHM_AES_256_GCM \<or> length (wk_nonce w) \<noteq> WRAP_NONCE_LENGTH
         \<or> length (wk_wrapped w) \<noteq> WRAPPED_DEK_LENGTH then Err UnwrapFailed
      else Ok (ENVIRONMENT_WRAP_FORMAT_V1 # wk_nonce w @ wk_wrapped w))"

definition decode_wrapped :: "string \<Rightarrow> string \<Rightarrow> key_custody_error + wrapped_key" where
  "decode_wrapped master_key_id blob =
     (if length blob \<noteq> ENVIRONMENT_WRAP_BLOB_LENGTH \<or> blob ! 0 \<noteq> ENVIRONMENT_WRAP_FORMAT_V1 then Err UnwrapFailed
      else Ok \<lparr>wk_master_key_id = master_key_id, wk_wrap_algorithm = WRAP_ALGORITHM_AES_256_GCM,
        wk_nonce = take WRAP_NONCE_LENGTH (drop 1 blob), wk_wrapped = drop (1 + WRAP_NONCE_LENGTH) blob\<rparr>)"

definition custody_cipher :: "environment_custody \<Rightarrow> string \<Rightarrow> key_custody_error + string" where
  "custody_cipher ec master_key_id =
     (case map_of (ec_keys ec) master_key_id of None \<Rightarrow> Err (UnknownMasterKey master_key_id) | Some key \<Rightarrow> Ok key)"

definition env_wrap_under ::
    "aead \<Rightarrow> environment_custody \<Rightarrow> string \<Rightarrow> string \<Rightarrow> string \<Rightarrow> string \<Rightarrow> key_custody_error + wrapped_key" where
  "env_wrap_under ae ec master_key_id dek aad nonce =
     and_then (custody_cipher ec master_key_id) (\<lambda>key.
       case ae_encrypt ae key nonce aad dek of
         None \<Rightarrow> Err (CustodyUnavailable CUSTODY_BACKEND_ENVIRONMENT)
       | Some wrapped \<Rightarrow> Ok \<lparr>wk_master_key_id = master_key_id, wk_wrap_algorithm = WRAP_ALGORITHM_AES_256_GCM,
           wk_nonce = nonce, wk_wrapped = wrapped\<rparr>)"

definition env_unwrap :: "aead \<Rightarrow> environment_custody \<Rightarrow> wrapped_key \<Rightarrow> string \<Rightarrow> key_custody_error + string" where
  "env_unwrap ae ec w aad =
     and_then (custody_cipher ec (wk_master_key_id w)) (\<lambda>key.
       if wk_wrap_algorithm w \<noteq> WRAP_ALGORITHM_AES_256_GCM \<or> length (wk_nonce w) \<noteq> WRAP_NONCE_LENGTH then Err UnwrapFailed
       else case ae_decrypt ae key (wk_nonce w) aad (wk_wrapped w) of
           None \<Rightarrow> Err UnwrapFailed
         | Some plaintext \<Rightarrow> if length plaintext \<noteq> 32 then Err UnwrapFailed else Ok plaintext)"

definition environment_of :: "aead \<Rightarrow> environment_custody \<Rightarrow> custody" where
  "environment_of ae ec =
     \<lparr>cu_backend_name = CUSTODY_BACKEND_ENVIRONMENT,
      cu_active_master_key_id = ec_active_master_key_id ec,
      cu_can_unwrap = (\<lambda>m. map_of (ec_keys ec) m \<noteq> None),
      cu_wrap_algorithm = WRAP_ALGORITHM_AES_256_GCM,
      cu_master_key_ids = sort (map fst (ec_keys ec)),
      cu_wrap_under = env_wrap_under ae ec,
      cu_unwrap = env_unwrap ae ec\<rparr>"

definition preflight :: "aead \<Rightarrow> (uuid \<Rightarrow> string) \<Rightarrow> environment_custody \<Rightarrow> uuid \<Rightarrow> string \<Rightarrow> string \<Rightarrow> key_custody_error + unit" where
  "preflight ae id_text ec uid probe nonce =
     (let aad = wrapped_data_key_aad id_text uid (ec_active_master_key_id ec) WRAP_ALGORITHM_AES_256_GCM in
      and_then (env_wrap_under ae ec (ec_active_master_key_id ec) probe aad nonce) (\<lambda>w.
      and_then (env_unwrap ae ec w aad) (\<lambda>unwrapped.
        if unwrapped \<noteq> probe then Err UnwrapFailed else Ok ())))"

section \<open>The backend keeps the laws\<close>

lemma env_custody_laws:
  assumes "aead_laws ae"
  shows "custody_laws (environment_of ae ec)"
proof unfold_locales
  show "cu_wrap_under (environment_of ae ec) m dek aad nonce = Ok w \<Longrightarrow> length dek = 32 \<Longrightarrow> length nonce = WRAP_NONCE_LENGTH \<Longrightarrow>
      cu_unwrap (environment_of ae ec) w aad = Ok dek" for m dek aad nonce w
    using aead_laws.encrypt_decrypt [OF assms]
    by (auto simp: environment_of_def env_wrap_under_def env_unwrap_def custody_cipher_def and_then_Ok_iff split: option.splits)
  show "cu_wrap_under (environment_of ae ec) m dek aad nonce = Ok w \<Longrightarrow>
      wk_master_key_id w = m \<and> wk_wrap_algorithm w = cu_wrap_algorithm (environment_of ae ec)" for m dek aad nonce w
    by (auto simp: environment_of_def env_wrap_under_def and_then_Ok_iff split: option.splits)
  show "cu_unwrap (environment_of ae ec) w aad = Ok dek \<Longrightarrow>
      cu_can_unwrap (environment_of ae ec) (wk_master_key_id w) \<and> length dek = 32" for w aad dek
    by (auto simp: environment_of_def env_unwrap_def custody_cipher_def and_then_Ok_iff split: option.splits if_splits)
qed

interpretation plain_env: custody_laws "environment_of plain_aead ec" for ec
  by (rule env_custody_laws [OF plain.aead_laws_axioms])

lemma decode_encode_wrapped:
  assumes "encode_wrapped w = Ok blob"
  shows "decode_wrapped (wk_master_key_id w) blob = Ok w" "length blob = ENVIRONMENT_WRAP_BLOB_LENGTH"
  using assms
  by (auto simp: encode_wrapped_def decode_wrapped_def ENVIRONMENT_WRAP_BLOB_LENGTH_def WRAP_NONCE_LENGTH_def WRAPPED_DEK_LENGTH_def
      split: if_splits)

lemma preflight_passes:
  assumes "aead_laws ae" "length probe = 32" "length nonce = WRAP_NONCE_LENGTH"
    and "env_wrap_under ae ec (ec_active_master_key_id ec) probe
      (wrapped_data_key_aad id_text uid (ec_active_master_key_id ec) WRAP_ALGORITHM_AES_256_GCM) nonce = Ok w"
  shows "preflight ae id_text ec uid probe nonce = Ok ()"
  using custody_laws.wrap_unwrap [OF env_custody_laws [OF assms(1)], of ec] assms(2-)
  by (simp add: preflight_def Let_def environment_of_def)

end
