(* ===== verification/Keyring.thy ===== *)
theory Keyring
  imports Key_Custody
begin

text \<open>
  The content keyring, \<open>src/src/security/data_keys.rs\<close>: data keys and their states, the snapshot a replica
  reads, loading it from the table \<open>content_data_keys\<close>, bootstrap, and the refresh on a miss. The
  table is a list of rows; a database call that fails rolls its transaction back and is no step of the
  model. Random ids, keys and nonces and readings of the clock are arguments.
\<close>

section \<open>Data keys\<close>

definition KEY_CHECK_VALUE_LABEL :: string where "KEY_CHECK_VALUE_LABEL = ''moira/content-kcv/v1''"
definition KEY_CHECK_VALUE_LEN :: nat where "KEY_CHECK_VALUE_LEN = 8"
definition PURPOSE_CONTENT :: string where "PURPOSE_CONTENT = ''content''"
definition PURPOSE_MEMORY_DEDUPE :: string where "PURPOSE_MEMORY_DEDUPE = ''memory_dedupe''"
definition MEMORY_DEDUPE_HASH_PREFIX :: string where "MEMORY_DEDUPE_HASH_PREFIX = ''d1:''"

definition key_check_value :: "crypto \<Rightarrow> string \<Rightarrow> string" where
  "key_check_value cr data_key = take KEY_CHECK_VALUE_LEN (cr_hmac cr data_key KEY_CHECK_VALUE_LABEL)"

definition hex_digit :: "nat \<Rightarrow> char" where
  "hex_digit n = (if n < 10 then char_of (48 + n) else char_of (87 + n))"

definition format_key_check_value :: "string \<Rightarrow> string" where
  "format_key_check_value v = concat (map (\<lambda>b. [hex_digit (of_char b div 16), hex_digit (of_char b mod 16)]) v)"

datatype data_key_purpose = PurposeContent | PurposeMemoryDedupe

fun purpose_str :: "data_key_purpose \<Rightarrow> string" where
  "purpose_str PurposeContent = PURPOSE_CONTENT"
| "purpose_str PurposeMemoryDedupe = PURPOSE_MEMORY_DEDUPE"

definition purpose_from_db :: "string \<Rightarrow> data_key_purpose option" where
  "purpose_from_db v = find (\<lambda>p. purpose_str p = v) [PurposeContent, PurposeMemoryDedupe]"

datatype data_key_state = KeyPending | KeyActive | KeyRetiring | KeyRetired | KeyAbandoned

definition state_ALL :: "data_key_state list" where
  "state_ALL = [KeyPending, KeyActive, KeyRetiring, KeyRetired, KeyAbandoned]"

fun state_str :: "data_key_state \<Rightarrow> string" where
  "state_str KeyPending = ''pending''"
| "state_str KeyActive = ''active''"
| "state_str KeyRetiring = ''retiring''"
| "state_str KeyRetired = ''retired''"
| "state_str KeyAbandoned = ''abandoned''"

definition state_from_db :: "string \<Rightarrow> data_key_state option" where
  "state_from_db v = find (\<lambda>s. state_str s = v) state_ALL"

definition is_unwrapped_at_load :: "data_key_state \<Rightarrow> bool" where
  "is_unwrapped_at_load s \<longleftrightarrow> s \<in> {KeyPending, KeyActive, KeyRetiring}"

definition is_carried_in_snapshot :: "data_key_state \<Rightarrow> bool" where
  "is_carried_in_snapshot s \<longleftrightarrow> s \<noteq> KeyRetired"

definition is_writable :: "data_key_state \<Rightarrow> bool" where
  "is_writable s \<longleftrightarrow> s = KeyActive"

record memory_dedupe_hasher =
  mh_data_key_id :: uuid
  mh_key :: string

definition dedupe_hash :: "crypto \<Rightarrow> memory_dedupe_hasher \<Rightarrow> string \<Rightarrow> string" where
  "dedupe_hash cr h content = MEMORY_DEDUPE_HASH_PREFIX @ cr_encode cr (cr_hmac cr (mh_key h) content)"

datatype opened_key = OpenedContent content_cipher | OpenedMemoryDedupe memory_dedupe_hasher

record key_entry =
  ke_id :: uuid
  ke_key_version :: int
  ke_purpose :: data_key_purpose
  ke_state :: data_key_state
  ke_custody_backend :: string
  ke_master_key_id :: string
  ke_key_check_value :: string
  ke_created_at :: int
  ke_opened :: "opened_key option"

datatype keyring_error =
    KeyringDatabase
  | UnopenableDataKey uuid string string "string list" key_custody_error
  | KeyCheckValueMismatch uuid string string string
  | NoActiveKey string nat
  | UnreadableRow uuid string
  | UnknownDataKey uuid
  | AbandonedDataKey uuid
  | WrongPurposeDataKey uuid string string
  | CustodyFailed key_custody_error

definition entry_cipher :: "key_entry \<Rightarrow> keyring_error + content_cipher" where
  "entry_cipher e =
     (case ke_opened e of
        None \<Rightarrow> Err (AbandonedDataKey (ke_id e))
      | Some (OpenedContent cipher) \<Rightarrow> Ok cipher
      | Some (OpenedMemoryDedupe _) \<Rightarrow> Err (WrongPurposeDataKey (ke_id e) (purpose_str (ke_purpose e)) PURPOSE_CONTENT))"

definition entry_memory_dedupe_hasher :: "key_entry \<Rightarrow> memory_dedupe_hasher option" where
  "entry_memory_dedupe_hasher e = (case ke_opened e of Some (OpenedMemoryDedupe h) \<Rightarrow> Some h | _ \<Rightarrow> None)"

section \<open>Snapshots\<close>

record keyring_snapshot =
  ks_active_content :: content_cipher
  ks_active_memory_dedupe :: "memory_dedupe_hasher option"
  ks_by_id :: "(uuid, key_entry) hmap"
  ks_generation :: nat
  ks_loaded_at :: nat

definition state_counts :: "keyring_snapshot \<Rightarrow> (string \<times> nat) list" where
  "state_counts ks =
     map (\<lambda>st. (state_str st, length (filter (\<lambda>e. ke_state e = st) (map snd (ks_by_id ks))))) (filter is_carried_in_snapshot state_ALL)"

definition snapshot_entries :: "keyring_snapshot \<Rightarrow> key_entry list" where
  "snapshot_entries ks = sort_key ke_key_version (map snd (ks_by_id ks))"

definition snapshot_resolve :: "keyring_snapshot \<Rightarrow> uuid \<Rightarrow> (keyring_error + content_cipher) option" where
  "snapshot_resolve ks uid = map_option entry_cipher (map_of (ks_by_id ks) uid)"

section \<open>The table\<close>

record keyring_row =
  kr_id :: uuid
  kr_key_version :: int
  kr_purpose :: string
  kr_state :: string
  kr_custody_backend :: string
  kr_master_key_id :: string
  kr_wrap_algorithm :: string
  kr_wrap_nonce :: string
  kr_wrapped_key :: string
  kr_key_check_value :: string
  kr_created_at :: int
  kr_abandon_reason :: "string option"

definition fetch_rows :: "keyring_row list \<Rightarrow> keyring_row list" where
  "fetch_rows t = sort_key kr_key_version (filter (\<lambda>r. kr_state r \<noteq> ''retired'') t)"

definition row_wrapped :: "keyring_row \<Rightarrow> wrapped_key" where
  "row_wrapped r = \<lparr>wk_master_key_id = kr_master_key_id r, wk_wrap_algorithm = kr_wrap_algorithm r,
     wk_nonce = kr_wrap_nonce r, wk_wrapped = kr_wrapped_key r\<rparr>"

definition row_aad :: "(uuid \<Rightarrow> string) \<Rightarrow> keyring_row \<Rightarrow> string" where
  "row_aad id_text r = wrapped_data_key_aad id_text (kr_id r) (kr_master_key_id r) (kr_wrap_algorithm r)"

text \<open>The data key of a row, unwrapped and compared with the stored check value.\<close>

definition open_row :: "crypto \<Rightarrow> (uuid \<Rightarrow> string) \<Rightarrow> custody \<Rightarrow> keyring_row \<Rightarrow> keyring_error + string" where
  "open_row cr id_text cu r =
     (case cu_unwrap cu (row_wrapped r) (row_aad id_text r) of
        Err source \<Rightarrow> Err (UnopenableDataKey (kr_id r) (kr_master_key_id r) (cu_backend_name cu) (cu_master_key_ids cu) source)
      | Ok data_key \<Rightarrow>
          let computed = key_check_value cr data_key in
          if computed \<noteq> kr_key_check_value r
          then Err (KeyCheckValueMismatch (kr_id r) (kr_master_key_id r) (format_key_check_value (kr_key_check_value r))
            (format_key_check_value computed))
          else Ok data_key)"

record assembly =
  as_by_id :: "(uuid, key_entry) hmap"
  as_content :: "content_cipher option"
  as_dedupe :: "memory_dedupe_hasher option"

definition opened_as :: "data_key_purpose \<Rightarrow> uuid \<Rightarrow> string \<Rightarrow> opened_key" where
  "opened_as purpose uid data_key =
     (case purpose of
        PurposeContent \<Rightarrow> OpenedContent \<lparr>cc_data_key_id = uid, cc_key = data_key\<rparr>
      | PurposeMemoryDedupe \<Rightarrow> OpenedMemoryDedupe \<lparr>mh_data_key_id = uid, mh_key = data_key\<rparr>)"

definition insert_entry :: "keyring_row \<Rightarrow> data_key_purpose \<Rightarrow> data_key_state \<Rightarrow> opened_key option \<Rightarrow> assembly \<Rightarrow> assembly" where
  "insert_entry r purpose st opened a =
     (let a = (if is_writable st then
                 (case opened of
                    Some (OpenedContent cipher) \<Rightarrow> a\<lparr>as_content := Some cipher\<rparr>
                  | Some (OpenedMemoryDedupe hasher) \<Rightarrow> a\<lparr>as_dedupe := Some hasher\<rparr>
                  | None \<Rightarrow> a)
               else a)
      in a\<lparr>as_by_id := AList.update (kr_id r)
           \<lparr>ke_id = kr_id r, ke_key_version = kr_key_version r, ke_purpose = purpose, ke_state = st,
            ke_custody_backend = kr_custody_backend r, ke_master_key_id = kr_master_key_id r,
            ke_key_check_value = kr_key_check_value r, ke_created_at = kr_created_at r, ke_opened = opened\<rparr> (as_by_id a)\<rparr>)"

definition assemble_row :: "crypto \<Rightarrow> (uuid \<Rightarrow> string) \<Rightarrow> custody \<Rightarrow> keyring_row \<Rightarrow> assembly \<Rightarrow> keyring_error + assembly" where
  "assemble_row cr id_text cu r a =
     (case purpose_from_db (kr_purpose r) of
        None \<Rightarrow> Err (UnreadableRow (kr_id r) ''unknown purpose'')
      | Some purpose \<Rightarrow>
          (case state_from_db (kr_state r) of
             None \<Rightarrow> Err (UnreadableRow (kr_id r) ''unknown state'')
           | Some st \<Rightarrow>
               if \<not> is_carried_in_snapshot st then Ok a
               else if length (kr_key_check_value r) \<noteq> KEY_CHECK_VALUE_LEN then Err (UnreadableRow (kr_id r) ''key check value'')
               else if is_unwrapped_at_load st then
                 and_then (open_row cr id_text cu r) (\<lambda>data_key.
                   Ok (insert_entry r purpose st (Some (opened_as purpose (kr_id r) data_key)) a))
               else Ok (insert_entry r purpose st None a)))"

fun assemble_rows :: "crypto \<Rightarrow> (uuid \<Rightarrow> string) \<Rightarrow> custody \<Rightarrow> keyring_row list \<Rightarrow> assembly \<Rightarrow> keyring_error + assembly" where
  "assemble_rows cr id_text cu [] a = Ok a"
| "assemble_rows cr id_text cu (r # rs) a = and_then (assemble_row cr id_text cu r a) (assemble_rows cr id_text cu rs)"

definition assemble :: "crypto \<Rightarrow> (uuid \<Rightarrow> string) \<Rightarrow> custody \<Rightarrow> keyring_row list \<Rightarrow> nat \<Rightarrow> nat \<Rightarrow> keyring_error + keyring_snapshot" where
  "assemble cr id_text cu rows generation now =
     and_then (assemble_rows cr id_text cu rows \<lparr>as_by_id = [], as_content = None, as_dedupe = None\<rparr>) (\<lambda>a.
       case as_content a of
         None \<Rightarrow> Err (NoActiveKey PURPOSE_CONTENT (length (as_by_id a)))
       | Some cipher \<Rightarrow> Ok \<lparr>ks_active_content = cipher, ks_active_memory_dedupe = as_dedupe a, ks_by_id = as_by_id a,
           ks_generation = generation, ks_loaded_at = now\<rparr>)"

section \<open>Minting\<close>

definition max_version :: "keyring_row list \<Rightarrow> int" where
  "max_version t = (if t = [] then 0 else Max (kr_key_version ` set t))"

text \<open>A new row as the three places that mint one write it.\<close>

definition mint_row ::
    "crypto \<Rightarrow> (uuid \<Rightarrow> string) \<Rightarrow> custody \<Rightarrow> int \<Rightarrow> string \<Rightarrow> string \<Rightarrow> uuid \<Rightarrow> string \<Rightarrow> string \<Rightarrow> int \<Rightarrow> keyring_error + keyring_row" where
  "mint_row cr id_text cu version purpose st uid data_key nonce now =
     (let aad = wrapped_data_key_aad id_text uid (cu_active_master_key_id cu) WRAP_ALGORITHM_AES_256_GCM in
      case cu_wrap cu data_key aad nonce of
        Err e \<Rightarrow> Err (CustodyFailed e)
      | Ok w \<Rightarrow>
          if wk_wrap_algorithm w \<noteq> WRAP_ALGORITHM_AES_256_GCM then Err (UnreadableRow uid ''wrap algorithm'')
          else Ok \<lparr>kr_id = uid, kr_key_version = version, kr_purpose = purpose, kr_state = st, kr_custody_backend = cu_backend_name cu,
            kr_master_key_id = wk_master_key_id w, kr_wrap_algorithm = wk_wrap_algorithm w, kr_wrap_nonce = wk_nonce w,
            kr_wrapped_key = wk_wrapped w, kr_key_check_value = key_check_value cr data_key, kr_created_at = now, kr_abandon_reason = None\<rparr>)"

definition bootstrap_if_empty ::
    "crypto \<Rightarrow> (uuid \<Rightarrow> string) \<Rightarrow> custody \<Rightarrow> keyring_row list \<Rightarrow> uuid \<Rightarrow> string \<Rightarrow> string \<Rightarrow> int \<Rightarrow> keyring_error + (bool \<times> keyring_row list)" where
  "bootstrap_if_empty cr id_text cu t uid data_key nonce now =
     (if t \<noteq> [] then Ok (False, t)
      else and_then (mint_row cr id_text cu 1 PURPOSE_CONTENT ''active'' uid data_key nonce now) (\<lambda>r. Ok (True, t @ [r])))"

definition ensure_memory_dedupe_key ::
    "crypto \<Rightarrow> (uuid \<Rightarrow> string) \<Rightarrow> custody \<Rightarrow> keyring_row list \<Rightarrow> uuid \<Rightarrow> string \<Rightarrow> string \<Rightarrow> int \<Rightarrow> keyring_error + (bool \<times> keyring_row list)" where
  "ensure_memory_dedupe_key cr id_text cu t uid data_key nonce now =
     (if filter (\<lambda>r. kr_purpose r = PURPOSE_MEMORY_DEDUPE) t \<noteq> [] then Ok (False, t)
      else and_then (mint_row cr id_text cu (max_version t + 1) PURPOSE_MEMORY_DEDUPE ''active'' uid data_key nonce now) (\<lambda>r. Ok (True, t @ [r])))"

record mint_input =
  mi_id :: uuid
  mi_data_key :: string
  mi_nonce :: string

definition load_inner ::
    "crypto \<Rightarrow> (uuid \<Rightarrow> string) \<Rightarrow> custody \<Rightarrow> keyring_row list \<Rightarrow> mint_input \<Rightarrow> mint_input \<Rightarrow> int \<Rightarrow> nat \<Rightarrow>
     keyring_error + (keyring_snapshot \<times> keyring_row list)" where
  "load_inner cr id_text cu t first dedupe now clock =
     and_then
       (if fetch_rows t = []
        then map_sum (\<lambda>e. e) snd (bootstrap_if_empty cr id_text cu t (mi_id first) (mi_data_key first) (mi_nonce first) now)
        else Ok t) (\<lambda>t1.
     and_then (assemble cr id_text cu (fetch_rows t1) 0 clock) (\<lambda>snapshot.
       if ks_active_memory_dedupe snapshot \<noteq> None then Ok (snapshot, t1)
       else
         and_then (ensure_memory_dedupe_key cr id_text cu t1 (mi_id dedupe) (mi_data_key dedupe) (mi_nonce dedupe) now) (\<lambda>(minted, t2).
           if minted then and_then (assemble cr id_text cu (fetch_rows t2) 0 clock) (\<lambda>snapshot. Ok (snapshot, t2))
           else Ok (snapshot, t2))))"

section \<open>The keyring of a running replica\<close>

text \<open>Readings of the clock for the floor between refreshes are milliseconds since the keyring was made; the
  semaphore \<open>refresh_gate\<close> lets one refresh run at a time, so a refresh is one step. \<open>db\<close> is what the
  query of \<open>fetch_rows\<close> finds: no table when the database fails.\<close>

definition NEVER :: nat where "NEVER = 2 ^ 64 - 1"

record content_keyring =
  ck_snapshot :: keyring_snapshot
  ck_min_refresh :: nat
  ck_database_loads :: nat
  ck_single_flight_collapses :: nat
  ck_floor_throttles :: nat
  ck_gate_arrivals :: nat
  ck_generation :: nat
  ck_last_on_demand_ms :: nat

definition keyring_of :: "nat \<Rightarrow> keyring_snapshot \<Rightarrow> nat \<Rightarrow> content_keyring" where
  "keyring_of min_refresh_seconds snapshot loads =
     \<lparr>ck_snapshot = snapshot, ck_min_refresh = max min_refresh_seconds 1 * 1000, ck_database_loads = loads,
      ck_single_flight_collapses = 0, ck_floor_throttles = 0, ck_gate_arrivals = 0, ck_generation = 0,
      ck_last_on_demand_ms = NEVER\<rparr>"

definition refresh ::
    "crypto \<Rightarrow> (uuid \<Rightarrow> string) \<Rightarrow> custody \<Rightarrow> keyring_row list option \<Rightarrow> nat \<Rightarrow> content_keyring \<Rightarrow>
     (keyring_error + keyring_snapshot) \<times> content_keyring" where
  "refresh cr id_text cu db clock k =
     (let generation = ck_generation k + 1;
          k = k\<lparr>ck_generation := generation, ck_database_loads := ck_database_loads k + 1\<rparr>
      in case db of
           None \<Rightarrow> (Err KeyringDatabase, k)
         | Some t \<Rightarrow>
             (case assemble cr id_text cu (fetch_rows t) generation clock of
                Err e \<Rightarrow> (Err e, k)
              | Ok snapshot \<Rightarrow> (Ok snapshot, k\<lparr>ck_snapshot := snapshot\<rparr>)))"

definition refresh_or_serve_on ::
    "crypto \<Rightarrow> (uuid \<Rightarrow> string) \<Rightarrow> custody \<Rightarrow> keyring_row list option \<Rightarrow> nat \<Rightarrow> content_keyring \<Rightarrow> keyring_snapshot \<times> content_keyring" where
  "refresh_or_serve_on cr id_text cu db clock k =
     (case refresh cr id_text cu db clock k of
        (Ok snapshot, k) \<Rightarrow> (snapshot, k)
      | (Err _, k) \<Rightarrow> (ck_snapshot k, k))"

definition refresh_for_miss ::
    "crypto \<Rightarrow> (uuid \<Rightarrow> string) \<Rightarrow> custody \<Rightarrow> keyring_row list option \<Rightarrow> nat \<Rightarrow> nat \<Rightarrow> nat \<Rightarrow> content_keyring \<Rightarrow>
     keyring_snapshot \<times> content_keyring" where
  "refresh_for_miss cr id_text cu db clock now_ms observed k =
     (let k = k\<lparr>ck_gate_arrivals := ck_gate_arrivals k + 1\<rparr>; current = ck_snapshot k in
      if ks_generation current \<noteq> observed
      then (current, k\<lparr>ck_single_flight_collapses := ck_single_flight_collapses k + 1\<rparr>)
      else
        let now_ms = min now_ms NEVER; last = ck_last_on_demand_ms k in
        if last \<noteq> NEVER \<and> now_ms - last < ck_min_refresh k
        then (current, k\<lparr>ck_floor_throttles := ck_floor_throttles k + 1\<rparr>)
        else refresh_or_serve_on cr id_text cu db clock (k\<lparr>ck_last_on_demand_ms := now_ms\<rparr>))"

text \<open>\<open>k0\<close> is the keyring when the snapshot is read, \<open>k\<close> the keyring when the gate is passed.\<close>

definition cipher_for ::
    "crypto \<Rightarrow> (uuid \<Rightarrow> string) \<Rightarrow> custody \<Rightarrow> keyring_row list option \<Rightarrow> nat \<Rightarrow> nat \<Rightarrow> uuid \<Rightarrow> content_keyring \<Rightarrow> content_keyring \<Rightarrow>
     (keyring_error + content_cipher) \<times> content_keyring" where
  "cipher_for cr id_text cu db clock now_ms uid k0 k =
     (case snapshot_resolve (ck_snapshot k0) uid of
        Some resolved \<Rightarrow> (resolved, k)
      | None \<Rightarrow>
          let (refreshed, k) = refresh_for_miss cr id_text cu db clock now_ms (ks_generation (ck_snapshot k0)) k
          in (case snapshot_resolve refreshed uid of Some resolved \<Rightarrow> resolved | None \<Rightarrow> Err (UnknownDataKey uid), k))"

section \<open>What a loaded snapshot resolves\<close>

text \<open>A row that a load can use: its texts are known ones, and its data key opens when the load unwraps it.\<close>

definition row_loads :: "crypto \<Rightarrow> (uuid \<Rightarrow> string) \<Rightarrow> custody \<Rightarrow> keyring_row \<Rightarrow> bool" where
  "row_loads cr id_text cu r \<longleftrightarrow>
     purpose_from_db (kr_purpose r) \<noteq> None \<and>
     (\<exists>st. state_from_db (kr_state r) = Some st \<and> (is_unwrapped_at_load st \<longrightarrow> is_ok (open_row cr id_text cu r)))
     \<and> length (kr_key_check_value r) = KEY_CHECK_VALUE_LEN"

text \<open>A row whose data key serves as a content key, and the key.\<close>

definition content_key_row :: "crypto \<Rightarrow> (uuid \<Rightarrow> string) \<Rightarrow> custody \<Rightarrow> keyring_row \<Rightarrow> string \<Rightarrow> bool" where
  "content_key_row cr id_text cu r data_key \<longleftrightarrow>
     kr_purpose r = PURPOSE_CONTENT \<and> kr_state r \<in> {''pending'', ''active'', ''retiring''} \<and> open_row cr id_text cu r = Ok data_key"

lemmas key_state_defs = is_unwrapped_at_load_def is_carried_in_snapshot_def is_writable_def

lemma state_from_db_iff: "state_from_db v = Some st \<longleftrightarrow> v = state_str st"
  by (cases st) (auto simp: state_from_db_def state_ALL_def)

lemma purpose_from_db_iff: "purpose_from_db v = Some p \<longleftrightarrow> v = purpose_str p"
  by (cases p) (auto simp: purpose_from_db_def PURPOSE_CONTENT_def PURPOSE_MEMORY_DEDUPE_def)

lemma from_db_str [simp]: "state_from_db (state_str st) = Some st" "purpose_from_db (purpose_str p) = Some p"
  by (simp_all add: state_from_db_iff purpose_from_db_iff)

lemma state_str_eq [simp]: "state_str s = state_str t \<longleftrightarrow> s = t" "purpose_str p = purpose_str q \<longleftrightarrow> p = q"
  by (metis from_db_str(1) option.inject, metis from_db_str(2) option.inject)

lemma state_texts: "''pending'' = state_str KeyPending" "''active'' = state_str KeyActive" "''retiring'' = state_str KeyRetiring"
  "''retired'' = state_str KeyRetired" "''abandoned'' = state_str KeyAbandoned" "PURPOSE_CONTENT = purpose_str PurposeContent"
  "PURPOSE_MEMORY_DEDUPE = purpose_str PurposeMemoryDedupe"
  by simp_all

lemma content_key_row_alt:
  "content_key_row cr id_text cu r dk \<longleftrightarrow> purpose_from_db (kr_purpose r) = Some PurposeContent
     \<and> (\<exists>st. state_from_db (kr_state r) = Some st \<and> is_unwrapped_at_load st) \<and> open_row cr id_text cu r = Ok dk"
  by (simp add: content_key_row_def purpose_from_db_iff state_from_db_iff is_unwrapped_at_load_def conj_disj_distribL ex_disj_distrib)

lemma assemble_row_content:
  assumes "content_key_row cr id_text cu r dk" "length (kr_key_check_value r) = KEY_CHECK_VALUE_LEN"
  shows "\<exists>st. assemble_row cr id_text cu r a =
    Ok (insert_entry r PurposeContent st (Some (OpenedContent \<lparr>cc_data_key_id = kr_id r, cc_key = dk\<rparr>)) a) \<and> state_from_db (kr_state r) = Some st"
  using assms by (auto simp: content_key_row_alt assemble_row_def opened_as_def is_carried_in_snapshot_def is_unwrapped_at_load_def)

lemma insert_entry_get [simp]:
  "map_of (as_by_id (insert_entry r p st op a)) uid =
   (if uid = kr_id r then Some \<lparr>ke_id = kr_id r, ke_key_version = kr_key_version r, ke_purpose = p, ke_state = st,
      ke_custody_backend = kr_custody_backend r, ke_master_key_id = kr_master_key_id r, ke_key_check_value = kr_key_check_value r,
      ke_created_at = kr_created_at r, ke_opened = op\<rparr> else map_of (as_by_id a) uid)"
  by (simp add: insert_entry_def Let_def update_conv split: option.split opened_key.split)

lemma assemble_row_Ok:
  assumes "assemble_row cr id_text cu r a = Ok a'"
  shows "a' = a \<or> (\<exists>p st op. a' = insert_entry r p st op a)"
  using assms by (auto simp: assemble_row_def and_then_Ok_iff split: option.splits if_splits)

lemma assemble_rows_other:
  assumes "assemble_rows cr id_text cu rows a = Ok a'" "uid \<notin> kr_id ` set rows"
  shows "map_of (as_by_id a') uid = map_of (as_by_id a) uid"
  using assms
proof (induction rows arbitrary: a)
  case (Cons r rs)
  then obtain b where b: "assemble_row cr id_text cu r a = Ok b" "assemble_rows cr id_text cu rs b = Ok a'" by (auto simp: and_then_Ok_iff)
  moreover have "map_of (as_by_id b) uid = map_of (as_by_id a) uid" using assemble_row_Ok [OF b(1)] Cons.prems(2) by auto
  ultimately show ?case using Cons by simp
qed simp

lemma assemble_rows_entry:
  assumes "assemble_rows cr id_text cu rows a = Ok a'" "distinct (map kr_id rows)" "r \<in> set rows"
    and "content_key_row cr id_text cu r dk" "length (kr_key_check_value r) = KEY_CHECK_VALUE_LEN"
  shows "\<exists>e. map_of (as_by_id a') (kr_id r) = Some e \<and> ke_opened e = Some (OpenedContent \<lparr>cc_data_key_id = kr_id r, cc_key = dk\<rparr>)"
  using assms(1-3)
proof (induction rows arbitrary: a)
  case (Cons r' rs)
  then obtain b where b: "assemble_row cr id_text cu r' a = Ok b" "assemble_rows cr id_text cu rs b = Ok a'" by (auto simp: and_then_Ok_iff)
  show ?case
  proof (cases "r = r'")
    case True
    then have "kr_id r \<notin> kr_id ` set rs" using Cons.prems(2) by auto
    then show ?thesis using assemble_rows_other [OF b(2)] b(1) assemble_row_content [OF assms(4,5), of a] True by auto
  qed (use Cons b in auto)
qed simp

lemma assemble_rows_total:
  assumes "\<forall>r\<in>set rows. row_loads cr id_text cu r"
  shows "\<exists>a'. assemble_rows cr id_text cu rows a = Ok a'"
  using assms
proof (induction rows arbitrary: a)
  case (Cons r rs)
  have "\<exists>b. assemble_row cr id_text cu r a = Ok b"
    using Cons.prems by (fastforce simp: row_loads_def assemble_row_def is_ok_iff)
  then show ?case using Cons by (auto simp: and_then_Ok_iff)
qed simp

lemma insert_entry_content:
  "as_content (insert_entry r p st op a) =
   (case op of Some (OpenedContent c) \<Rightarrow> if is_writable st then Some c else as_content a | _ \<Rightarrow> as_content a)"
  by (auto simp: insert_entry_def Let_def split: option.split opened_key.split)

lemma assemble_rows_keeps_content:
  assumes "assemble_rows cr id_text cu rows a = Ok a'" "as_content a \<noteq> None"
  shows "as_content a' \<noteq> None"
  using assms
proof (induction rows arbitrary: a)
  case (Cons r rs)
  then obtain b where b: "assemble_row cr id_text cu r a = Ok b" "assemble_rows cr id_text cu rs b = Ok a'" by (auto simp: and_then_Ok_iff)
  have "as_content b \<noteq> None" using assemble_row_Ok [OF b(1)] Cons.prems(2)
    by (auto simp: insert_entry_content split: option.splits opened_key.splits)
  then show ?case using Cons.IH b(2) by blast
qed simp

lemma assemble_rows_active:
  assumes "assemble_rows cr id_text cu rows a = Ok a'" "r \<in> set rows" "kr_state r = ''active''"
    and "content_key_row cr id_text cu r dk" "length (kr_key_check_value r) = KEY_CHECK_VALUE_LEN"
  shows "as_content a' \<noteq> None"
  using assms(1,2)
proof (induction rows arbitrary: a)
  case (Cons r' rs)
  then obtain b where b: "assemble_row cr id_text cu r' a = Ok b" "assemble_rows cr id_text cu rs b = Ok a'" by (auto simp: and_then_Ok_iff)
  show ?case
  proof (cases "r = r'")
    case True
    then have "as_content b \<noteq> None" using assemble_row_content [OF assms(4,5), of a] b(1) assms(3)
      by (auto simp: insert_entry_content is_writable_def state_from_db_iff state_texts simp del: state_str.simps)
    then show ?thesis using assemble_rows_keeps_content b(2) by blast
  qed (use Cons b in auto)
qed simp

text \<open>The active cipher of a snapshot is the key of an active content row.\<close>

lemma assemble_row_active_from:
  assumes "assemble_row cr id_text cu r a = Ok b" "as_content b = Some c" "as_content a \<noteq> Some c"
  shows "kr_state r = ''active'' \<and> kr_id r = cc_data_key_id c \<and> content_key_row cr id_text cu r (cc_key c)"
proof (cases "purpose_from_db (kr_purpose r)")
  case (Some p)
  then show ?thesis
    using assms
    by (cases p) (auto simp: assemble_row_def and_then_Ok_iff insert_entry_content opened_as_def content_key_row_alt state_from_db_iff key_state_defs
          split: option.splits if_splits)
qed (use assms in \<open>simp add: assemble_row_def\<close>)

lemma assemble_rows_active_from:
  assumes "assemble_rows cr id_text cu rows a = Ok a'" "as_content a' = Some c" "as_content a \<noteq> Some c"
  shows "\<exists>r\<in>set rows. kr_state r = ''active'' \<and> kr_id r = cc_data_key_id c \<and> content_key_row cr id_text cu r (cc_key c)"
  using assms
proof (induction rows arbitrary: a)
  case (Cons r rs)
  then obtain b where b: "assemble_row cr id_text cu r a = Ok b" "assemble_rows cr id_text cu rs b = Ok a'" by (auto simp: and_then_Ok_iff)
  show ?case
  proof (cases "as_content b = Some c")
    case True
    then show ?thesis using assemble_row_active_from [OF b(1) True Cons.prems(3)] by simp
  qed (use Cons b in auto)
qed simp

lemma assemble_Ok_iff:
  "assemble cr id_text cu rows g now = Ok s \<longleftrightarrow>
   (\<exists>a c. assemble_rows cr id_text cu rows \<lparr>as_by_id = [], as_content = None, as_dedupe = None\<rparr> = Ok a \<and> as_content a = Some c
     \<and> s = \<lparr>ks_active_content = c, ks_active_memory_dedupe = as_dedupe a, ks_by_id = as_by_id a, ks_generation = g, ks_loaded_at = now\<rparr>)"
  by (auto simp: assemble_def and_then_Ok_iff split: option.splits)

lemma set_fetch_rows [simp]: "set (fetch_rows t) = {r \<in> set t. kr_state r \<noteq> ''retired''}"
  by (simp add: fetch_rows_def)

lemma distinct_fetch_rows: "distinct (map kr_id t) \<Longrightarrow> distinct (map kr_id (fetch_rows t))"
  unfolding fetch_rows_def by (simp add: distinct_map inj_on_def)

lemma snapshot_active_row:
  assumes "assemble cr id_text cu (fetch_rows t) g now = Ok s"
  shows "\<exists>r\<in>set t. kr_state r = ''active'' \<and> kr_id r = cc_data_key_id (ks_active_content s)
    \<and> content_key_row cr id_text cu r (cc_key (ks_active_content s))"
  using assms assemble_rows_active_from by (fastforce simp: assemble_Ok_iff)

lemma snapshot_resolves:
  assumes "assemble cr id_text cu (fetch_rows t) g now = Ok s" "distinct (map kr_id t)" "r \<in> set t"
    and "content_key_row cr id_text cu r dk" "length (kr_key_check_value r) = KEY_CHECK_VALUE_LEN"
  shows "snapshot_resolve s (kr_id r) = Some (Ok \<lparr>cc_data_key_id = kr_id r, cc_key = dk\<rparr>)"
proof -
  have "r \<in> set (fetch_rows t)" using assms(3,4) by (auto simp: content_key_row_def)
  then show ?thesis
    using assms(1) assemble_rows_entry [OF _ distinct_fetch_rows [OF assms(2)] _ assms(4,5)]
    by (fastforce simp: assemble_Ok_iff snapshot_resolve_def entry_cipher_def)
qed

text \<open>A table whose rows load and that has an active content key gives a snapshot.\<close>

lemma table_loads:
  assumes "\<forall>r\<in>set t. row_loads cr id_text cu r" "r \<in> set t" "kr_state r = ''active''" "kr_purpose r = PURPOSE_CONTENT"
  shows "\<exists>s. assemble cr id_text cu (fetch_rows t) g now = Ok s"
proof -
  obtain a where a: "assemble_rows cr id_text cu (fetch_rows t) \<lparr>as_by_id = [], as_content = None, as_dedupe = None\<rparr> = Ok a"
    using assemble_rows_total [of "fetch_rows t" cr id_text cu] assms(1) by auto
  have "row_loads cr id_text cu r" using assms(1,2) by simp
  then obtain dk where "content_key_row cr id_text cu r dk" "length (kr_key_check_value r) = KEY_CHECK_VALUE_LEN"
    using assms(3,4) by (auto simp: row_loads_def content_key_row_alt state_from_db_iff purpose_from_db_iff state_texts is_unwrapped_at_load_def is_ok_iff
        simp del: state_str.simps purpose_str.simps)
  then have "as_content a \<noteq> None" using assemble_rows_active [OF a] assms(2,3) by auto
  then show ?thesis using a by (auto simp: assemble_Ok_iff)
qed

section \<open>Minted rows\<close>

context custody_laws
begin

lemma mint_row_Ok:
  assumes "mint_row cr id_text cu version purpose st uid data_key nonce now = Ok r" "length data_key = 32" "length nonce = WRAP_NONCE_LENGTH"
  shows "open_row cr id_text cu r = Ok data_key" "kr_id r = uid" "kr_purpose r = purpose" "kr_state r = st" "kr_key_version r = version"
    "kr_key_check_value r = key_check_value cr data_key"
proof -
  from assms(1) obtain w where w: "cu_wrap cu data_key (wrapped_data_key_aad id_text uid (cu_active_master_key_id cu) WRAP_ALGORITHM_AES_256_GCM) nonce = Ok w"
    "wk_wrap_algorithm w = WRAP_ALGORITHM_AES_256_GCM"
    and r: "kr_id r = uid" "kr_purpose r = purpose" "kr_state r = st" "kr_key_version r = version" "kr_key_check_value r = key_check_value cr data_key"
      "row_wrapped r = w" "kr_master_key_id r = wk_master_key_id w" "kr_wrap_algorithm r = wk_wrap_algorithm w"
    by (auto simp: mint_row_def Let_def row_wrapped_def split: sum.splits if_splits)
  note c = cu_wrap_Ok [OF w(1) assms(2,3)]
  show "open_row cr id_text cu r = Ok data_key" using c w(2) r by (simp add: open_row_def row_aad_def Let_def)
  show "kr_id r = uid" "kr_purpose r = purpose" "kr_state r = st" "kr_key_version r = version"
    "kr_key_check_value r = key_check_value cr data_key" by (fact r)+
qed

lemma mint_row_loads:
  assumes "mint_row cr id_text cu version (purpose_str p) (state_str st) uid data_key nonce now = Ok r"
    and "length data_key = 32" "length nonce = WRAP_NONCE_LENGTH" "length (cr_hmac cr data_key KEY_CHECK_VALUE_LABEL) = 32"
  shows "row_loads cr id_text cu r"
  using mint_row_Ok [OF assms(1-3)] assms(4) by (simp add: row_loads_def key_check_value_def KEY_CHECK_VALUE_LEN_def is_ok_iff)

end

definition plain_cu :: custody where
  "plain_cu = environment_of plain_aead \<lparr>ec_keys = [(''m'', ''k'')], ec_active_master_key_id = ''m''\<rparr>"

interpretation plain_cu: custody_laws plain_cu
  unfolding plain_cu_def by (rule plain_env.custody_laws_axioms)

lemma plain_mints: "\<exists>r. mint_row plain_crypto plain_id plain_cu v p st uid dk nonce now = Ok r"
  by (simp add: mint_row_def Let_def plain_cu_def cu_wrap_def environment_of_def env_wrap_under_def custody_cipher_def plain_aead_def)

lemma plain_hmac_length [simp]: "length (cr_hmac plain_crypto k m) = 32"
  by (simp add: plain_crypto_def)

section \<open>Misses and refreshes\<close>

text \<open>What happens to a keyring: a read that missed passes the gate, or the background task ticks.\<close>

datatype keyring_event =
    MissEvent nat nat "keyring_row list option" nat
  | TickEvent "keyring_row list option" nat

fun keyring_event_step :: "crypto \<Rightarrow> (uuid \<Rightarrow> string) \<Rightarrow> custody \<Rightarrow> keyring_event \<Rightarrow> content_keyring \<Rightarrow> content_keyring" where
  "keyring_event_step cr id_text cu (MissEvent observed now_ms db clock) k = snd (refresh_for_miss cr id_text cu db clock now_ms observed k)"
| "keyring_event_step cr id_text cu (TickEvent db clock) k = snd (refresh_or_serve_on cr id_text cu db clock k)"

fun miss_times :: "keyring_event list \<Rightarrow> nat list" where
  "miss_times [] = []"
| "miss_times (MissEvent _ now_ms _ _ # es) = now_ms # miss_times es"
| "miss_times (TickEvent _ _ # es) = miss_times es"

fun tick_count :: "keyring_event list \<Rightarrow> nat" where
  "tick_count [] = 0"
| "tick_count (MissEvent _ _ _ _ # es) = tick_count es"
| "tick_count (TickEvent _ _ # es) = Suc (tick_count es)"

lemma refresh_or_serve_on_counts [simp]:
  "ck_database_loads (snd (refresh_or_serve_on cr id_text cu db clock k)) = Suc (ck_database_loads k)"
  "ck_last_on_demand_ms (snd (refresh_or_serve_on cr id_text cu db clock k)) = ck_last_on_demand_ms k"
  "ck_min_refresh (snd (refresh_or_serve_on cr id_text cu db clock k)) = ck_min_refresh k"
  by (simp_all add: refresh_or_serve_on_def refresh_def Let_def split: option.split sum.split)

lemma refresh_for_miss_cases:
  assumes "now < NEVER" and k': "k' = snd (refresh_for_miss cr id_text cu db clock now observed k)"
  shows "ck_min_refresh k' = ck_min_refresh k
    \<and> (ck_database_loads k' = ck_database_loads k \<and> ck_last_on_demand_ms k' = ck_last_on_demand_ms k
       \<or> ck_database_loads k' = Suc (ck_database_loads k) \<and> ck_last_on_demand_ms k' = now
         \<and> (ck_last_on_demand_ms k = NEVER \<or> ck_min_refresh k \<le> now - ck_last_on_demand_ms k))"
  using assms(1) by (auto simp: k' refresh_for_miss_def Let_def min_def)

lemma div_gap: "0 < m \<Longrightarrow> l \<le> n \<Longrightarrow> n \<le> T \<Longrightarrow> m \<le> n - l \<Longrightarrow> Suc ((T - n) div m) \<le> (T - l) div (m :: nat)"
proof -
  assume a: "0 < m" "l \<le> n" "n \<le> T" "m \<le> n - l"
  then have "(T - n + m) div m \<le> (T - l) div m" by (intro div_le_mono) linarith
  then show ?thesis using a(1) by (simp only: div_add_self2)
qed

lemma events_load_bound:
  assumes "sorted (miss_times es)" "\<forall>t\<in>set (miss_times es). lo \<le> t \<and> t \<le> T" "T < NEVER" "lo \<le> T" "0 < ck_min_refresh k"
    and "ck_last_on_demand_ms k = NEVER \<or> ck_last_on_demand_ms k \<le> lo"
  shows "ck_database_loads (fold (keyring_event_step cr id_text cu) es k) \<le> ck_database_loads k + tick_count es
    + (if ck_last_on_demand_ms k = NEVER then Suc ((T - lo) div ck_min_refresh k) else (T - ck_last_on_demand_ms k) div ck_min_refresh k)"
  using assms
proof (induction es arbitrary: k lo rule: miss_times.induct)
  case (2 observed now db clock es)
  define k' where "k' = keyring_event_step cr id_text cu (MissEvent observed now db clock) k"
  have now: "lo \<le> now" "now \<le> T" "now < NEVER" using 2 by auto
  note c = refresh_for_miss_cases [OF now(3) k'_def [unfolded keyring_event_step.simps]]
  have "ck_last_on_demand_ms k' = NEVER \<or> ck_last_on_demand_ms k' \<le> now" using c 2(7) now by auto
  then have IH: "ck_database_loads (fold (keyring_event_step cr id_text cu) es k') \<le> ck_database_loads k' + tick_count es
    + (if ck_last_on_demand_ms k' = NEVER then Suc ((T - now) div ck_min_refresh k') else (T - ck_last_on_demand_ms k') div ck_min_refresh k')"
    using 2 now c by simp
  have mono: "(T - now) div ck_min_refresh k \<le> (T - lo) div ck_min_refresh k" using now by (simp add: div_le_mono)
  have fold: "fold (keyring_event_step cr id_text cu) (MissEvent observed now db clock # es) k = fold (keyring_event_step cr id_text cu) es k'"
    "tick_count (MissEvent observed now db clock # es) = tick_count es" by (simp_all add: k'_def)
  have gap: "ck_last_on_demand_ms k \<noteq> NEVER \<Longrightarrow> ck_min_refresh k \<le> now - ck_last_on_demand_ms k \<Longrightarrow>
      Suc ((T - now) div ck_min_refresh k) \<le> (T - ck_last_on_demand_ms k) div ck_min_refresh k"
    using div_gap [OF 2(6) _ now(2)] 2(7) now(1) by simp
  show ?case
    unfolding fold using c IH mono gap now(3) by (auto split: if_splits)
next
  case (3 db clock es)
  then show ?case using 3(1) [of lo "snd (refresh_or_serve_on cr id_text cu db clock k)"] by (auto split: if_splits)
qed simp

text \<open>C33: Reads of unknown key ids cannot be made to load the database: over any events of a keyring, in which
  misses arrive at the gate at the times \<open>miss_times\<close> between \<open>lo\<close> and \<open>hi\<close> milliseconds in any number, with
  any generation observed, the table is read once per tick of the background task and at most once more
  than the number of whole floors (\<open>min_refresh_seconds\<close>, at least a second) between \<open>lo\<close> and \<open>hi\<close>,
  whether the reads succeed or fail.\<close>

theorem miss_loads_bounded:
  assumes "sorted (miss_times es)" "\<forall>t\<in>set (miss_times es). lo \<le> t \<and> t \<le> hi" "lo \<le> hi" "hi < NEVER"
  shows "ck_database_loads (fold (keyring_event_step cr id_text cu) es (keyring_of floor_seconds snapshot loads))
    \<le> loads + tick_count es + 1 + (hi - lo) div (max floor_seconds 1 * 1000)"
  using events_load_bound [OF assms(1,2,4,3), of "keyring_of floor_seconds snapshot loads" cr id_text cu] by (simp add: keyring_of_def)

theorem miss_loads_bounded_witness:
  "ck_database_loads (fold (keyring_event_step plain_crypto plain_id plain_cu)
     [MissEvent 0 100 None 0, MissEvent 0 2000 None 0, TickEvent None 0, MissEvent 0 4000 None 0]
     (keyring_of 5 \<lparr>ks_active_content = \<lparr>cc_data_key_id = 1, cc_key = []\<rparr>, ks_active_memory_dedupe = None, ks_by_id = [],
       ks_generation = 0, ks_loaded_at = 0\<rparr> 1)) \<le> 3"
  using miss_loads_bounded [where lo = 100 and hi = 4000 and floor_seconds = 5 and loads = 1 and cr = plain_crypto and id_text = plain_id
      and cu = plain_cu and es = "[MissEvent 0 100 None 0, MissEvent 0 2000 None 0, TickEvent None 0, MissEvent 0 4000 None 0]"
      and snapshot = "\<lparr>ks_active_content = \<lparr>cc_data_key_id = 1, cc_key = []\<rparr>, ks_active_memory_dedupe = None, ks_by_id = [],
       ks_generation = 0, ks_loaded_at = 0\<rparr>"]
  by (simp add: NEVER_def del: fold_simps)

text \<open>A replica learns of a key it does not know by reading with it: when a key id is not in the snapshot,
  no other refresh happened meanwhile and the floor has passed, and the table in the database loads and
  has the id as a content key that is pending, active or retiring, then \<open>cipher_for\<close> answers with the
  cipher of that key under its own data key, and the new snapshot is the replica's.\<close>

theorem miss_finds_key:
  assumes "snapshot_resolve (ck_snapshot k) uid = None" "now < NEVER"
    and "ck_last_on_demand_ms k = NEVER \<or> ck_min_refresh k \<le> now - ck_last_on_demand_ms k"
    and "distinct (map kr_id t)" "\<forall>r\<in>set t. row_loads cr id_text cu r" "\<exists>r\<in>set t. kr_state r = ''active'' \<and> kr_purpose r = PURPOSE_CONTENT"
    and "r \<in> set t" "kr_id r = uid" "content_key_row cr id_text cu r dk"
  shows "fst (cipher_for cr id_text cu (Some t) clock now uid k k) = Ok \<lparr>cc_data_key_id = uid, cc_key = dk\<rparr>
    \<and> snapshot_resolve (ck_snapshot (snd (cipher_for cr id_text cu (Some t) clock now uid k k))) uid = Some (Ok \<lparr>cc_data_key_id = uid, cc_key = dk\<rparr>)"
proof -
  obtain s where s: "assemble cr id_text cu (fetch_rows t) (Suc (ck_generation k)) clock = Ok s"
    using table_loads [OF assms(5)] assms(6) by blast
  have "length (kr_key_check_value r) = KEY_CHECK_VALUE_LEN" using assms(5,7) by (auto simp: row_loads_def)
  from snapshot_resolves [OF s assms(4,7,9) this] have "snapshot_resolve s uid = Some (Ok \<lparr>cc_data_key_id = uid, cc_key = dk\<rparr>)"
    by (simp add: assms(8))
  moreover have "refresh_for_miss cr id_text cu (Some t) clock now (ks_generation (ck_snapshot k)) k =
      (s, k\<lparr>ck_gate_arrivals := ck_gate_arrivals k + 1, ck_last_on_demand_ms := now, ck_generation := Suc (ck_generation k),
        ck_database_loads := Suc (ck_database_loads k), ck_snapshot := s\<rparr>)"
    using assms(2,3) s by (auto simp: refresh_for_miss_def refresh_or_serve_on_def refresh_def Let_def min_def)
  ultimately show ?thesis by (simp add: cipher_for_def assms(1))
qed

theorem miss_finds_key_witness:
  "\<exists>k t dk. fst (cipher_for plain_crypto plain_id plain_cu (Some t) 0 0 2 k k) = Ok \<lparr>cc_data_key_id = 2, cc_key = dk\<rparr>"
proof -
  define dk where "dk = replicate 32 CHR ''d''"
  define nonce where "nonce = replicate 12 CHR ''n''"
  have len: "length dk = 32" "length nonce = WRAP_NONCE_LENGTH" by (simp_all add: dk_def nonce_def WRAP_NONCE_LENGTH_def)
  obtain r1 where r1: "mint_row plain_crypto plain_id plain_cu 1 (purpose_str PurposeContent) (state_str KeyActive) 1 dk nonce 0 = Ok r1"
    using plain_mints by blast
  obtain r2 where r2: "mint_row plain_crypto plain_id plain_cu 2 (purpose_str PurposeContent) (state_str KeyPending) 2 dk nonce 0 = Ok r2"
    using plain_mints by blast
  note o1 = plain_cu.mint_row_Ok [OF r1 len] plain_cu.mint_row_loads [OF r1 len plain_hmac_length]
  note o2 = plain_cu.mint_row_Ok [OF r2 len] plain_cu.mint_row_loads [OF r2 len plain_hmac_length]
  define k where "k = keyring_of 5 \<lparr>ks_active_content = \<lparr>cc_data_key_id = 1, cc_key = dk\<rparr>, ks_active_memory_dedupe = None, ks_by_id = [],
       ks_generation = 0, ks_loaded_at = 0\<rparr> 1"
  have "fst (cipher_for plain_crypto plain_id plain_cu (Some [r1, r2]) 0 0 2 k k) = Ok \<lparr>cc_data_key_id = 2, cc_key = dk\<rparr>"
    using miss_finds_key [of k 2 0 "[r1, r2]" plain_crypto plain_id plain_cu r2 dk 0] o1 o2
    by (simp add: k_def keyring_of_def snapshot_resolve_def NEVER_def content_key_row_def)
  then show ?thesis by blast
qed

end
