(* ===== verification/Content_Access.thy ===== *)
theory Content_Access
  imports Keyring
begin

text \<open>
  Sealing and opening stored content, \<open>src/src/security/content_access.rs\<close>: what a write seals under, what
  a read opens with, the memory content address, and the errors both answer with. Metrics and log lines
  are left out.
\<close>

section \<open>Errors\<close>

definition content_key_unavailable :: app_error where
  "content_key_unavailable = coded 503 ''content_key_unavailable''
     ''content encryption is configured but no usable content key is available''"

definition content_decryption_failed :: app_error where
  "content_decryption_failed = coded 500 ''content_decryption_failed'' ''the stored content could not be decrypted''"

definition content_key_abandoned :: app_error where
  "content_key_abandoned = coded 500 ''content_key_abandoned''
     ''the key that protects this content was abandoned and the content cannot be read''"

definition envelope_refused :: "content_envelope_error \<Rightarrow> app_error" where
  "envelope_refused e =
     (if e = DecryptFailed then content_decryption_failed
      else coded 500 ''content_envelope_unsupported'' ''the stored content is not in a format this build can read'')"

definition seal_failed :: "content_envelope_error \<Rightarrow> app_error" where
  "seal_failed e = coded 500 ''content_envelope_unsupported'' ''the content could not be sealed for storage''"

fun envelope_error_discriminant :: "content_envelope_error \<Rightarrow> string" where
  "envelope_error_discriminant (TooShort _) = ''too_short''"
| "envelope_error_discriminant (BadMagic _) = ''bad_magic''"
| "envelope_error_discriminant (UnsupportedFormatVersion _) = ''unsupported_format_version''"
| "envelope_error_discriminant (UnsupportedAlgorithm _) = ''unsupported_algorithm''"
| "envelope_error_discriminant (UnsupportedKeyMode _) = ''unsupported_key_mode''"
| "envelope_error_discriminant (ReservedNotZero _) = ''reserved_not_zero''"
| "envelope_error_discriminant (UnknownAadProfile _) = ''unknown_aad_profile''"
| "envelope_error_discriminant (BodyLengthMismatch _ _) = ''body_length_mismatch''"
| "envelope_error_discriminant (ProfileMismatch _ _) = ''profile_mismatch''"
| "envelope_error_discriminant (DataKeyMismatch _ _) = ''data_key_mismatch''"
| "envelope_error_discriminant (PlaintextTooLarge _) = ''plaintext_too_large''"
| "envelope_error_discriminant EncryptFailed = ''aead_seal_failed''"
| "envelope_error_discriminant DecryptFailed = ''aead_open_failed''"

section \<open>Sealing\<close>

datatype unsealable_reason =
    KeyringNotLoaded
  | ActiveKeyNotWritable uuid string
  | ActiveKeyAbsentFromSnapshot uuid

definition resolve_active_cipher :: "keyring_snapshot option \<Rightarrow> unsealable_reason + content_cipher" where
  "resolve_active_cipher keyring =
     (case keyring of
        None \<Rightarrow> Err KeyringNotLoaded
      | Some snapshot \<Rightarrow>
          let cipher = ks_active_content snapshot; data_key_id = cc_data_key_id cipher in
          (case map_of (ks_by_id snapshot) data_key_id of
             Some entry \<Rightarrow> if is_writable (ke_state entry) then Ok cipher else Err (ActiveKeyNotWritable data_key_id (state_str (ke_state entry)))
           | None \<Rightarrow> Err (ActiveKeyAbsentFromSnapshot data_key_id)))"

definition can_seal :: "keyring_snapshot option \<Rightarrow> bool" where
  "can_seal keyring = is_ok (resolve_active_cipher keyring)"

definition active_cipher :: "keyring_snapshot option \<Rightarrow> app_error + content_cipher" where
  "active_cipher keyring = (case resolve_active_cipher keyring of Err _ \<Rightarrow> Err content_key_unavailable | Ok c \<Rightarrow> Ok c)"

definition seal_content ::
    "aead \<Rightarrow> (uuid \<Rightarrow> string) \<Rightarrow> keyring_snapshot option \<Rightarrow> content_identity \<Rightarrow> string \<Rightarrow> string \<Rightarrow> app_error + string" where
  "seal_content ae id_text keyring identity plaintext nonce =
     and_then (active_cipher keyring) (\<lambda>cipher.
       case seal_with_nonce ae id_text cipher identity plaintext nonce of
         Err e \<Rightarrow> Err (seal_failed e)
       | Ok sealed \<Rightarrow> Ok sealed)"

definition memory_content_hash :: "crypto \<Rightarrow> keyring_snapshot option \<Rightarrow> string \<Rightarrow> app_error + string" where
  "memory_content_hash cr keyring content =
     (case Option.bind keyring ks_active_memory_dedupe of
        None \<Rightarrow> Err content_key_unavailable
      | Some hasher \<Rightarrow> Ok (dedupe_hash cr hasher content))"

section \<open>Opening\<close>

text \<open>\<open>String::from_utf8\<close>: well-formed UTF-8, without overlong forms, surrogates and code points above
  \<open>10FFFF\<close>.\<close>

definition in_range :: "nat \<Rightarrow> nat \<Rightarrow> char \<Rightarrow> bool" where
  "in_range lo hi c \<longleftrightarrow> lo \<le> of_char c \<and> of_char c \<le> hi"

abbreviation cont :: "char \<Rightarrow> bool" where
  "cont \<equiv> in_range 0x80 0xBF"

definition utf8_one :: "string \<Rightarrow> string option" where
  "utf8_one s =
     (case s of
        [] \<Rightarrow> None
      | a # t \<Rightarrow>
          if in_range 0 0x7F a then Some t
          else (case t of
             [] \<Rightarrow> None
           | b # t \<Rightarrow>
               if in_range 0xC2 0xDF a \<and> cont b then Some t
               else (case t of
                  [] \<Rightarrow> None
                | c # t \<Rightarrow>
                    if cont c \<and> (in_range 0xE0 0xE0 a \<and> in_range 0xA0 0xBF b \<or> in_range 0xE1 0xEC a \<and> cont b
                         \<or> in_range 0xED 0xED a \<and> in_range 0x80 0x9F b \<or> in_range 0xEE 0xEF a \<and> cont b) then Some t
                    else (case t of
                       [] \<Rightarrow> None
                     | d # t \<Rightarrow>
                         if cont c \<and> cont d \<and> (in_range 0xF0 0xF0 a \<and> in_range 0x90 0xBF b \<or> in_range 0xF1 0xF3 a \<and> cont b
                              \<or> in_range 0xF4 0xF4 a \<and> in_range 0x80 0x8F b) then Some t
                         else None))))"

lemma utf8_one_shorter: "utf8_one s = Some t \<Longrightarrow> length t < length s"
  by (auto simp: utf8_one_def split: list.splits if_splits)

function utf8_valid :: "string \<Rightarrow> bool" where
  "utf8_valid s = (s = [] \<or> (case utf8_one s of None \<Rightarrow> False | Some t \<Rightarrow> utf8_valid t))"
  by auto
termination
  by (relation "measure length") (auto dest: utf8_one_shorter)

declare utf8_valid.simps [simp del]

definition open_with_snapshot ::
    "aead \<Rightarrow> (uuid \<Rightarrow> string) \<Rightarrow> keyring_snapshot \<Rightarrow> string \<Rightarrow> content_identity \<Rightarrow> app_error + string" where
  "open_with_snapshot ae id_text snapshot env identity =
     (case header_parse env of
        Err e \<Rightarrow> Err (envelope_refused e)
      | Ok header \<Rightarrow>
          (case map_of (ks_by_id snapshot) (eh_data_key_id header) of
             None \<Rightarrow> Err content_key_unavailable
           | Some entry \<Rightarrow>
               (case entry_cipher entry of
                  Err (WrongPurposeDataKey _ _ _) \<Rightarrow> Err content_decryption_failed
                | Err _ \<Rightarrow> Err content_key_abandoned
                | Ok cipher \<Rightarrow>
                    (case open_envelope ae id_text cipher env identity of
                       Err e \<Rightarrow> Err (envelope_refused e)
                     | Ok plaintext \<Rightarrow> if utf8_valid plaintext then Ok plaintext else Err content_decryption_failed))))"

definition open_content ::
    "aead \<Rightarrow> (uuid \<Rightarrow> string) \<Rightarrow> keyring_snapshot option \<Rightarrow> string \<Rightarrow> content_identity \<Rightarrow> app_error + string" where
  "open_content ae id_text keyring env identity =
     (case keyring of
        None \<Rightarrow> Err content_key_unavailable
      | Some snapshot \<Rightarrow> open_with_snapshot ae id_text snapshot env identity)"

section \<open>What a snapshot opens\<close>

lemma open_with_snapshot_Ok_iff:
  "open_with_snapshot ae id_text s env identity = Ok p \<longleftrightarrow>
   (\<exists>h c. header_parse env = Ok h \<and> snapshot_resolve s (eh_data_key_id h) = Some (Ok c)
      \<and> open_envelope ae id_text c env identity = Ok p \<and> utf8_valid p)"
  by (auto simp: open_with_snapshot_def snapshot_resolve_def split: sum.splits option.splits keyring_error.splits if_splits)

lemma open_envelope_names_key:
  "open_envelope ae id_text c env identity = Ok p \<Longrightarrow> \<exists>h. header_parse env = Ok h \<and> eh_data_key_id h = cc_data_key_id c"
  by (auto simp: open_envelope_def split: sum.splits if_splits)

lemma open_with_snapshot_resolved:
  assumes "snapshot_resolve s (cc_data_key_id c) = Some (Ok c)" "open_envelope ae id_text c env identity = Ok p" "utf8_valid p"
  shows "open_with_snapshot ae id_text s env identity = Ok p"
  using assms open_envelope_names_key [OF assms(2)] unfolding open_with_snapshot_Ok_iff by metis

text \<open>The content key of a loaded table that a write seals under.\<close>

lemma assemble_rows_active_entry:
  assumes "assemble_rows cr id_text cu rows a = Ok a'" "distinct (map kr_id rows)" "r \<in> set rows" "kr_state r = ''active''"
    and "content_key_row cr id_text cu r dk" "length (kr_key_check_value r) = KEY_CHECK_VALUE_LEN"
  shows "\<exists>e. map_of (as_by_id a') (kr_id r) = Some e \<and> ke_state e = KeyActive"
  using assms(1-3)
proof (induction rows arbitrary: a)
  case (Cons r' rs)
  then obtain b where b: "assemble_row cr id_text cu r' a = Ok b" "assemble_rows cr id_text cu rs b = Ok a'" by (auto simp: and_then_Ok_iff)
  show ?case
  proof (cases "r = r'")
    case True
    then have "kr_id r \<notin> kr_id ` set rs" using Cons.prems(2) by auto
    moreover have "state_from_db (kr_state r) = Some KeyActive" using assms(4) by (simp add: state_from_db_iff)
    ultimately show ?thesis using assemble_rows_other [OF b(2)] b(1) assemble_row_content [OF assms(5,6), of a] True by auto
  qed (use Cons b in auto)
qed simp

lemma loaded_seals:
  assumes "assemble cr id_text cu (fetch_rows t) g now = Ok s" "distinct (map kr_id t)" "\<forall>r\<in>set t. length (kr_key_check_value r) = KEY_CHECK_VALUE_LEN"
  shows "resolve_active_cipher (Some s) = Ok (ks_active_content s)"
proof -
  obtain r where r: "r \<in> set t" "kr_state r = ''active''" "kr_id r = cc_data_key_id (ks_active_content s)"
    "content_key_row cr id_text cu r (cc_key (ks_active_content s))"
    using snapshot_active_row [OF assms(1)] by blast
  then have "r \<in> set (fetch_rows t)" by simp
  then show ?thesis
    using assms(1,3) assemble_rows_active_entry [OF _ distinct_fetch_rows [OF assms(2)] _ r(2,4)] r(1,3)
    by (fastforce simp: assemble_Ok_iff resolve_active_cipher_def Let_def is_writable_def)
qed

end
