(* ===== verification/Keyring_Admin.thy ===== *)
theory Keyring_Admin
  imports Content_Access
begin

text \<open>
  The rotation commands of the keyring, \<open>src/src/security/keyring_admin.rs\<close>: usage counts, \<open>add\<close>, \<open>promote\<close>,
  \<open>rewrap\<close>, \<open>retire\<close>, \<open>abandon\<close> and \<open>reseal\<close>, over the key table and the sealed columns. A transaction is one
  step; the five sealed columns are one list of rows, each an identity with an envelope. An identity
  names its table (the profile) and its row; the identity columns of a row are written once, with it.
\<close>

section \<open>Rows and errors\<close>

type_synonym sealed_row = "content_identity \<times> string"

datatype keyring_admin_error =
    AdminCustody key_custody_error
  | AdminKeyring keyring_error
  | UnknownKey uuid
  | NotPending uuid string
  | SourceMasterKeyNotHeld uuid string string "string list"
  | TargetMasterKeyNotHeld string string "string list"
  | StillReferenced uuid nat string
  | StillActive uuid string
  | AbandonNotConfirmed uuid
  | AbandonReasonMissing uuid
  | NotAbandonable uuid string
  | NotResealable uuid string
  | ResealSourceIsTarget uuid
  | UnreadableEnvelope string string uuid content_envelope_error

fun from_keyring_error :: "keyring_error \<Rightarrow> keyring_admin_error" where
  "from_keyring_error (CustodyFailed e) = AdminCustody e"
| "from_keyring_error e = AdminKeyring e"

definition states_unwrapped_at_load :: "string list" where
  "states_unwrapped_at_load = map state_str (filter is_unwrapped_at_load state_ALL)"

definition row_state :: "keyring_row \<Rightarrow> keyring_admin_error + data_key_state" where
  "row_state r = (case state_from_db (kr_state r) of Some s \<Rightarrow> Ok s | None \<Rightarrow> Err (AdminKeyring (UnreadableRow (kr_id r) ''unknown state'')))"

definition row_purpose :: "keyring_row \<Rightarrow> keyring_admin_error + data_key_purpose" where
  "row_purpose r = (case purpose_from_db (kr_purpose r) of Some p \<Rightarrow> Ok p | None \<Rightarrow> Err (AdminKeyring (UnreadableRow (kr_id r) ''unknown purpose'')))"

definition row_for_update :: "keyring_row list \<Rightarrow> uuid \<Rightarrow> keyring_admin_error + keyring_row" where
  "row_for_update keys uid = (case find (\<lambda>r. kr_id r = uid) keys of None \<Rightarrow> Err (UnknownKey uid) | Some r \<Rightarrow> Ok r)"

section \<open>Usage\<close>

definition profile_key :: "aad_profile \<Rightarrow> string" where
  "profile_key p = profile_table p @ ''.'' @ profile_column p"

definition usage_in :: "sealed_row list \<Rightarrow> uuid \<Rightarrow> (string \<times> nat) list" where
  "usage_in rows uid =
     sort_key fst (map (\<lambda>p. (profile_key p,
       length (filter (\<lambda>(i, e). identity_profile i = p \<and> sql_envelope_data_key_id e = Some uid) rows))) profile_ALL)"

definition usage_total :: "(string \<times> nat) list \<Rightarrow> nat" where
  "usage_total per_column = sum_list (map snd per_column)"

fun join :: "string \<Rightarrow> string list \<Rightarrow> string" where
  "join sep [] = []"
| "join sep [x] = x"
| "join sep (x # y # ys) = x @ sep @ join sep (y # ys)"

definition usage_detail :: "(string \<times> nat) list \<Rightarrow> string" where
  "usage_detail per_column = join '', '' (map (\<lambda>(column, count). column @ ''='' @ nat_text count) (filter (\<lambda>(_, count). 0 < count) per_column))"

record key_status =
  ky_row :: keyring_row
  ky_key_check_value :: string
  ky_master_key_held :: bool
  ky_usage :: "(string \<times> nat) list"

fun status_keys :: "custody \<Rightarrow> sealed_row list \<Rightarrow> keyring_row list \<Rightarrow> keyring_admin_error + key_status list" where
  "status_keys cu rows [] = Ok []"
| "status_keys cu rows (row # keys) =
     and_then (row_state row) (\<lambda>_.
     and_then (row_purpose row) (\<lambda>_.
     and_then (status_keys cu rows keys) (\<lambda>rest.
       Ok (\<lparr>ky_row = row, ky_key_check_value = format_key_check_value (kr_key_check_value row),
         ky_master_key_held = cu_can_unwrap cu (kr_master_key_id row), ky_usage = usage_in rows (kr_id row)\<rparr> # rest))))"

definition keyring_status :: "custody \<Rightarrow> sealed_row list \<Rightarrow> keyring_row list \<Rightarrow> keyring_admin_error + key_status list" where
  "keyring_status cu rows keys = status_keys cu rows (sort_key kr_key_version keys)"

section \<open>Adding and promoting\<close>

definition add_key ::
    "crypto \<Rightarrow> (uuid \<Rightarrow> string) \<Rightarrow> custody \<Rightarrow> data_key_purpose \<Rightarrow> mint_input \<Rightarrow> int \<Rightarrow> keyring_row list \<Rightarrow>
     keyring_admin_error + (keyring_row \<times> keyring_row list)" where
  "add_key cr id_text cu purpose mi now keys =
     (case mint_row cr id_text cu (max_version keys + 1) (purpose_str purpose) ''pending'' (mi_id mi) (mi_data_key mi) (mi_nonce mi) now of
        Err e \<Rightarrow> Err (from_keyring_error e)
      | Ok r \<Rightarrow> Ok (r, keys @ [r]))"

record promotion =
  pr_promoted :: uuid
  pr_purpose :: data_key_purpose
  pr_demoted :: "uuid option"

definition promote :: "uuid \<Rightarrow> keyring_row list \<Rightarrow> keyring_admin_error + (promotion \<times> keyring_row list)" where
  "promote uid keys =
     and_then (row_for_update keys uid) (\<lambda>row.
     and_then (row_state row) (\<lambda>st.
     and_then (row_purpose row) (\<lambda>purpose.
       if st \<noteq> KeyPending then Err (NotPending uid (state_str st))
       else
         let hit = (\<lambda>r. kr_purpose r = purpose_str purpose \<and> kr_state r = ''active'' \<and> kr_id r \<noteq> uid);
             demoted = map_option kr_id (find hit keys);
             keys = map (\<lambda>r. if hit r then r\<lparr>kr_state := ''retiring''\<rparr> else r) keys;
             keys = map (\<lambda>r. if kr_id r = uid \<and> kr_state r = ''pending'' then r\<lparr>kr_state := ''active''\<rparr> else r) keys
         in Ok (\<lparr>pr_promoted = uid, pr_purpose = purpose, pr_demoted = demoted\<rparr>, keys))))"

section \<open>Rewrapping\<close>

record rewrap_report =
  rr_rewrapped :: "uuid list"
  rr_left_alone :: "(uuid \<times> string) list"

text \<open>The first loop of \<open>rewrap_with\<close>: the rows left alone and the rows to rewrap.\<close>

fun rewrap_plan :: "custody \<Rightarrow> keyring_row list \<Rightarrow> keyring_admin_error + ((uuid \<times> string) list \<times> keyring_row list)" where
  "rewrap_plan cu [] = Ok ([], [])"
| "rewrap_plan cu (row # rows) =
     and_then (row_state row) (\<lambda>st.
       if state_str st \<notin> set states_unwrapped_at_load
       then and_then (rewrap_plan cu rows) (\<lambda>(left, todo). Ok ((kr_id row, state_str st) # left, todo))
       else if \<not> cu_can_unwrap cu (kr_master_key_id row)
       then Err (SourceMasterKeyNotHeld (kr_id row) (kr_master_key_id row) (cu_backend_name cu) (cu_master_key_ids cu))
       else and_then (rewrap_plan cu rows) (\<lambda>(left, todo). Ok (left, row # todo)))"

text \<open>One row of the second loop: the new wrapping.\<close>

definition rewrap_row ::
    "crypto \<Rightarrow> (uuid \<Rightarrow> string) \<Rightarrow> custody \<Rightarrow> custody \<Rightarrow> string \<Rightarrow> (uuid \<Rightarrow> string) \<Rightarrow> keyring_row \<Rightarrow> keyring_admin_error + wrapped_key" where
  "rewrap_row cr id_text cu target target_master_key_id nonces row =
     (case open_row cr id_text cu row of
        Err e \<Rightarrow> Err (AdminKeyring e)
      | Ok data_key \<Rightarrow>
          let algorithm = cu_wrap_algorithm target;
              aad = wrapped_data_key_aad id_text (kr_id row) target_master_key_id algorithm
          in case cu_wrap_under target target_master_key_id data_key aad (nonces (kr_id row)) of
               Err e \<Rightarrow> Err (AdminCustody e)
             | Ok w \<Rightarrow>
                 if wk_master_key_id w \<noteq> target_master_key_id
                 then Err (TargetMasterKeyNotHeld target_master_key_id (cu_backend_name target) (cu_master_key_ids target))
                 else if wk_wrap_algorithm w \<noteq> algorithm then Err (AdminKeyring (UnreadableRow (kr_id row) ''wrap algorithm''))
                 else Ok w)"

definition store_wrapped :: "custody \<Rightarrow> uuid \<Rightarrow> wrapped_key \<Rightarrow> keyring_row list \<Rightarrow> keyring_row list" where
  "store_wrapped target uid w keys =
     map (\<lambda>r. if kr_id r = uid then r\<lparr>kr_master_key_id := wk_master_key_id w, kr_custody_backend := cu_backend_name target,
       kr_wrap_algorithm := wk_wrap_algorithm w, kr_wrap_nonce := wk_nonce w, kr_wrapped_key := wk_wrapped w\<rparr> else r) keys"

fun rewrap_rows ::
    "crypto \<Rightarrow> (uuid \<Rightarrow> string) \<Rightarrow> custody \<Rightarrow> custody \<Rightarrow> string \<Rightarrow> (uuid \<Rightarrow> string) \<Rightarrow> keyring_row list \<Rightarrow> keyring_row list \<Rightarrow>
     keyring_admin_error + keyring_row list" where
  "rewrap_rows cr id_text cu target tm nonces [] keys = Ok keys"
| "rewrap_rows cr id_text cu target tm nonces (row # rows) keys =
     and_then (rewrap_row cr id_text cu target tm nonces row) (\<lambda>w.
       rewrap_rows cr id_text cu target tm nonces rows (store_wrapped target (kr_id row) w keys))"

definition rewrap_with ::
    "crypto \<Rightarrow> (uuid \<Rightarrow> string) \<Rightarrow> custody \<Rightarrow> custody \<Rightarrow> string \<Rightarrow> (uuid \<Rightarrow> string) \<Rightarrow> keyring_row list \<Rightarrow>
     keyring_admin_error + (rewrap_report \<times> keyring_row list)" where
  "rewrap_with cr id_text cu target tm nonces keys =
     (if \<not> cu_can_unwrap target tm then Err (TargetMasterKeyNotHeld tm (cu_backend_name target) (cu_master_key_ids target))
      else
        and_then (rewrap_plan cu (sort_key kr_key_version keys)) (\<lambda>(left, todo).
        and_then (rewrap_rows cr id_text cu target tm nonces todo keys) (\<lambda>keys.
          Ok (\<lparr>rr_rewrapped = map kr_id todo, rr_left_alone = left\<rparr>, keys))))"

definition rewrap ::
    "crypto \<Rightarrow> (uuid \<Rightarrow> string) \<Rightarrow> custody \<Rightarrow> string \<Rightarrow> (uuid \<Rightarrow> string) \<Rightarrow> keyring_row list \<Rightarrow>
     keyring_admin_error + (rewrap_report \<times> keyring_row list)" where
  "rewrap cr id_text cu tm nonces keys = rewrap_with cr id_text cu cu tm nonces keys"

section \<open>Retiring and abandoning\<close>

definition retire :: "uuid \<Rightarrow> sealed_row list \<Rightarrow> keyring_row list \<Rightarrow> keyring_admin_error + keyring_row list" where
  "retire uid rows keys =
     and_then (row_for_update keys uid) (\<lambda>row.
     and_then (row_state row) (\<lambda>st.
     and_then (row_purpose row) (\<lambda>purpose.
       if st = KeyActive then Err (StillActive uid (purpose_str purpose))
       else
         let usage = usage_in rows uid in
         if 0 < usage_total usage then Err (StillReferenced uid (usage_total usage) (usage_detail usage))
         else Ok (map (\<lambda>r. if kr_id r = uid then r\<lparr>kr_state := ''retired''\<rparr> else r) keys))))"

record abandonment =
  ab_id :: uuid
  ab_reason :: string
  ab_active_content_key_remaining :: "uuid option"

definition abandon :: "uuid \<Rightarrow> bool \<Rightarrow> string \<Rightarrow> keyring_row list \<Rightarrow> keyring_admin_error + (abandonment \<times> keyring_row list)" where
  "abandon uid confirmed reason keys =
     (if \<not> confirmed then Err (AbandonNotConfirmed uid)
      else
        let reason = rust_trim reason in
        if reason = [] then Err (AbandonReasonMissing uid)
        else
          and_then (row_for_update keys uid) (\<lambda>row.
          and_then (row_state row) (\<lambda>st.
          and_then (row_purpose row) (\<lambda>purpose.
            if st = KeyAbandoned \<or> st = KeyRetired then Err (NotAbandonable uid (state_str st))
            else
              let keys = map (\<lambda>r. if kr_id r = uid then r\<lparr>kr_state := ''abandoned'', kr_abandon_reason := Some reason\<rparr> else r) keys;
                  remaining = map_option kr_id (find (\<lambda>r. kr_purpose r = purpose_str purpose \<and> kr_state r = ''active'') keys)
              in Ok (\<lparr>ab_id = uid, ab_reason = reason, ab_active_content_key_remaining = remaining\<rparr>, keys)))))"

section \<open>Resealing\<close>

definition admin_cipher_for ::
    "crypto \<Rightarrow> (uuid \<Rightarrow> string) \<Rightarrow> custody \<Rightarrow> keyring_row list \<Rightarrow> uuid \<Rightarrow> keyring_admin_error + content_cipher" where
  "admin_cipher_for cr id_text cu keys uid =
     and_then (row_for_update keys uid) (\<lambda>row.
     and_then (row_state row) (\<lambda>st.
       if \<not> is_unwrapped_at_load st then Err (NotResealable uid (state_str st))
       else case open_row cr id_text cu row of
           Err e \<Rightarrow> Err (AdminKeyring e)
         | Ok data_key \<Rightarrow> Ok \<lparr>cc_data_key_id = kr_id row, cc_key = data_key\<rparr>))"

fun identity_row_id :: "content_identity \<Rightarrow> uuid" where
  "identity_row_id (ConversationMessage message_id _ _) = message_id"
| "identity_row_id (ConversationSummary summary_id _ _) = summary_id"
| "identity_row_id (MemoryRecord memory_id _ _) = memory_id"
| "identity_row_id (RagDocumentVersion version_id _ _) = version_id"
| "identity_row_id (RagChunk chunk_id _ _) = chunk_id"

definition select_sealed_batch :: "aad_profile \<Rightarrow> uuid \<Rightarrow> nat \<Rightarrow> sealed_row list \<Rightarrow> sealed_row list" where
  "select_sealed_batch profile uid batch rows =
     take batch (sort_key (\<lambda>(i, _). uint (identity_row_id i))
       (filter (\<lambda>(i, e). identity_profile i = profile \<and> sql_envelope_data_key_id e = Some uid) rows))"

record reseal_report =
  rp_resealed :: nat
  rp_skipped :: nat
  rp_batches :: nat

text \<open>One selected row: opened under the source, sealed under the destination, and written back if the row still
  has the envelope that was selected. Answers the number of rows the update changed.\<close>

definition reseal_row ::
    "aead \<Rightarrow> (uuid \<Rightarrow> string) \<Rightarrow> content_cipher \<Rightarrow> content_cipher \<Rightarrow> string \<Rightarrow> sealed_row \<Rightarrow> sealed_row list \<Rightarrow>
     keyring_admin_error + (nat \<times> sealed_row list)" where
  "reseal_row ae id_text source destination nonce row rows =
     (case row of (identity, env) \<Rightarrow>
        let p = identity_profile identity in
        (case open_envelope ae id_text source env identity of
           Err e \<Rightarrow> Err (UnreadableEnvelope (profile_table p) (profile_column p) (identity_row_id identity) e)
         | Ok plaintext \<Rightarrow>
             (case seal_with_nonce ae id_text destination identity plaintext nonce of
                Err e \<Rightarrow> Err (UnreadableEnvelope (profile_table p) (profile_column p) (identity_row_id identity) e)
              | Ok resealed \<Rightarrow>
                  Ok (length (filter (\<lambda>r. r = (identity, env)) rows),
                      map (\<lambda>r. if r = (identity, env) then (identity, resealed) else r) rows))))"

fun reseal_batch ::
    "aead \<Rightarrow> (uuid \<Rightarrow> string) \<Rightarrow> content_cipher \<Rightarrow> content_cipher \<Rightarrow> (nat \<Rightarrow> string) \<Rightarrow> sealed_row list \<Rightarrow>
     reseal_report \<times> sealed_row list \<Rightarrow> keyring_admin_error + (reseal_report \<times> sealed_row list)" where
  "reseal_batch ae id_text source destination nonces [] s = Ok s"
| "reseal_batch ae id_text source destination nonces (row # batch) (report, rows) =
     and_then (reseal_row ae id_text source destination (nonces (rp_resealed report + rp_skipped report)) row rows) (\<lambda>(updated, rows).
       reseal_batch ae id_text source destination nonces batch
         (if updated = 0 then report\<lparr>rp_skipped := rp_skipped report + 1\<rparr> else report\<lparr>rp_resealed := rp_resealed report + 1\<rparr>, rows))"

fun reseal_profiles ::
    "aead \<Rightarrow> (uuid \<Rightarrow> string) \<Rightarrow> content_cipher \<Rightarrow> content_cipher \<Rightarrow> (nat \<Rightarrow> string) \<Rightarrow> uuid \<Rightarrow> nat \<Rightarrow> aad_profile list \<Rightarrow>
     reseal_report \<times> sealed_row list \<Rightarrow> keyring_admin_error + (reseal_report \<times> sealed_row list)" where
  "reseal_profiles ae id_text source destination nonces from batch [] s = Ok s"
| "reseal_profiles ae id_text source destination nonces from batch (p # ps) (report, rows) =
     and_then (reseal_batch ae id_text source destination nonces (select_sealed_batch p from batch rows) (report, rows))
       (reseal_profiles ae id_text source destination nonces from batch ps)"

text \<open>The loop over passes; without fuel left there is no answer. The rows of a pass that failed are those
  written before the failure, which the error does not carry.\<close>

fun reseal_passes ::
    "nat \<Rightarrow> aead \<Rightarrow> (uuid \<Rightarrow> string) \<Rightarrow> content_cipher \<Rightarrow> content_cipher \<Rightarrow> (nat \<Rightarrow> string) \<Rightarrow> uuid \<Rightarrow> nat \<Rightarrow> nat option \<Rightarrow>
     reseal_report \<times> sealed_row list \<Rightarrow> (keyring_admin_error + (reseal_report \<times> sealed_row list)) option" where
  "reseal_passes 0 ae id_text source destination nonces from batch max_batches s = None"
| "reseal_passes (Suc fuel) ae id_text source destination nonces from batch max_batches (report, rows) =
     (case reseal_profiles ae id_text source destination nonces from batch profile_ALL (report, rows) of
        Err e \<Rightarrow> Some (Err e)
      | Ok (report', rows') \<Rightarrow>
          let moved_this_pass = rp_resealed report' - rp_resealed report;
              report' = report'\<lparr>rp_batches := rp_batches report' + 1\<rparr>
          in if moved_this_pass = 0 then Some (Ok (report', rows'))
             else if (case max_batches of None \<Rightarrow> False | Some m \<Rightarrow> m \<le> rp_batches report') then Some (Ok (report', rows'))
             else reseal_passes fuel ae id_text source destination nonces from batch max_batches (report', rows'))"

record reseal_options =
  ro_batch :: nat
  ro_max_batches :: "nat option"

definition reseal ::
    "nat \<Rightarrow> crypto \<Rightarrow> aead \<Rightarrow> (uuid \<Rightarrow> string) \<Rightarrow> custody \<Rightarrow> (nat \<Rightarrow> string) \<Rightarrow> uuid \<Rightarrow> uuid \<Rightarrow> reseal_options \<Rightarrow>
     keyring_row list \<Rightarrow> sealed_row list \<Rightarrow> (keyring_admin_error + (reseal_report \<times> sealed_row list)) option" where
  "reseal fuel cr ae id_text cu nonces from to options keys rows =
     (if from = to then Some (Err (ResealSourceIsTarget from))
      else case and_then (admin_cipher_for cr id_text cu keys from) (\<lambda>source.
             map_sum (\<lambda>e. e) (\<lambda>destination. (source, destination)) (admin_cipher_for cr id_text cu keys to)) of
          Err e \<Rightarrow> Some (Err e)
        | Ok (source, destination) \<Rightarrow>
            reseal_passes fuel ae id_text source destination nonces from (max (ro_batch options) 1) (ro_max_batches options)
              (\<lparr>rp_resealed = 0, rp_skipped = 0, rp_batches = 0\<rparr>, rows))"

section \<open>The keyring and the stored content of a cluster\<close>

text \<open>What the code relies on: the laws of the cipher and of custody, and an HMAC-SHA-256 of 32 bytes.\<close>

locale keyring_crypto = aead_laws ae + custody_laws cu for ae :: aead and cu :: custody +
  fixes cr :: crypto
  assumes hmac_length: "length (cr_hmac cr k m) = 32"

interpretation plain_ring: keyring_crypto plain_aead plain_cu plain_crypto
  by unfold_locales simp

text \<open>The tables, the snapshot of each replica, and (for the statements only) the text last written to each row.\<close>

record keyring_world =
  kw_keys :: "keyring_row list"
  kw_rows :: "sealed_row list"
  kw_replicas :: "keyring_snapshot list"
  kw_written :: "content_identity \<Rightarrow> string option"

text \<open>Steps of a cluster. Commands of the operator do not overlap; writes and refreshes of the replicas come
  between them in any order, and a reseal is the writes of its rows, each with what it selected at some
  earlier time and with the ciphers of the two keys, which it reads once at its start and which no replica changes meanwhile. Two rules of operation are guards: a key is retired only after every replica has stopped
  sealing under it, and a reseal goes onto a content key.\<close>

inductive keyring_step :: "aead \<Rightarrow> crypto \<Rightarrow> (uuid \<Rightarrow> string) \<Rightarrow> custody \<Rightarrow> keyring_world \<Rightarrow> keyring_world \<Rightarrow> bool"
  for ae cr id_text cu where
  Boot: "assemble cr id_text cu (fetch_rows (kw_keys w)) g now = Ok s \<Longrightarrow>
    keyring_step ae cr id_text cu w (w\<lparr>kw_replicas := s # kw_replicas w\<rparr>)"
| Refresh: "i < length (kw_replicas w) \<Longrightarrow> assemble cr id_text cu (fetch_rows (kw_keys w)) g now = Ok s \<Longrightarrow>
    keyring_step ae cr id_text cu w (w\<lparr>kw_replicas := (kw_replicas w)[i := s]\<rparr>)"
| Write: "s \<in> set (kw_replicas w) \<Longrightarrow> length nonce = ENVELOPE_NONCE_LEN \<Longrightarrow> utf8_valid body \<Longrightarrow>
    seal_content ae id_text (Some s) identity body nonce = Ok env \<Longrightarrow>
    keyring_step ae cr id_text cu w
      (w\<lparr>kw_rows := (identity, env) # filter (\<lambda>r. fst r \<noteq> identity) (kw_rows w), kw_written := (kw_written w)(identity \<mapsto> body)\<rparr>)"
| Delete: "keyring_step ae cr id_text cu w (w\<lparr>kw_rows := filter (\<lambda>r. fst r \<noteq> identity) (kw_rows w)\<rparr>)"
| EnsureDedupe: "length data_key = 32 \<Longrightarrow> length nonce = WRAP_NONCE_LENGTH \<Longrightarrow> uid \<notin> kr_id ` set (kw_keys w) \<Longrightarrow>
    ensure_memory_dedupe_key cr id_text cu (kw_keys w) uid data_key nonce now = Ok (minted, keys) \<Longrightarrow>
    keyring_step ae cr id_text cu w (w\<lparr>kw_keys := keys\<rparr>)"
| Add: "length (mi_data_key mi) = 32 \<Longrightarrow> length (mi_nonce mi) = WRAP_NONCE_LENGTH \<Longrightarrow> mi_id mi \<notin> kr_id ` set (kw_keys w) \<Longrightarrow>
    add_key cr id_text cu purpose mi now (kw_keys w) = Ok (r, keys) \<Longrightarrow>
    keyring_step ae cr id_text cu w (w\<lparr>kw_keys := keys\<rparr>)"
| Promote: "promote uid (kw_keys w) = Ok (p, keys) \<Longrightarrow> keyring_step ae cr id_text cu w (w\<lparr>kw_keys := keys\<rparr>)"
| Rewrap: "(\<And>u. length (nonces u) = WRAP_NONCE_LENGTH) \<Longrightarrow> rewrap cr id_text cu tm nonces (kw_keys w) = Ok (report, keys) \<Longrightarrow>
    keyring_step ae cr id_text cu w (w\<lparr>kw_keys := keys\<rparr>)"
| Retire: "(\<And>s. s \<in> set (kw_replicas w) \<Longrightarrow> cc_data_key_id (ks_active_content s) \<noteq> uid) \<Longrightarrow>
    retire uid (kw_rows w) (kw_keys w) = Ok keys \<Longrightarrow>
    keyring_step ae cr id_text cu w (w\<lparr>kw_keys := keys\<rparr>)"
| Reseal: "admin_cipher_for cr id_text cu (kw_keys w) from = Ok source \<Longrightarrow> admin_cipher_for cr id_text cu (kw_keys w) to = Ok destination \<Longrightarrow>
    (\<And>r. r \<in> set (kw_keys w) \<Longrightarrow> kr_id r = to \<Longrightarrow> kr_purpose r = PURPOSE_CONTENT) \<Longrightarrow> length nonce = ENVELOPE_NONCE_LEN \<Longrightarrow>
    reseal_row ae id_text source destination nonce row (kw_rows w) = Ok (n, rows) \<Longrightarrow>
    keyring_step ae cr id_text cu w (w\<lparr>kw_rows := rows\<rparr>)"

inductive keyring_reachable :: "aead \<Rightarrow> crypto \<Rightarrow> (uuid \<Rightarrow> string) \<Rightarrow> custody \<Rightarrow> keyring_world \<Rightarrow> bool"
  for ae cr id_text cu where
  Bootstrap: "length data_key = 32 \<Longrightarrow> length nonce = WRAP_NONCE_LENGTH \<Longrightarrow>
    bootstrap_if_empty cr id_text cu [] uid data_key nonce now = Ok (True, keys) \<Longrightarrow>
    keyring_reachable ae cr id_text cu \<lparr>kw_keys = keys, kw_rows = [], kw_replicas = [], kw_written = Map.empty\<rparr>"
| Then: "keyring_reachable ae cr id_text cu w \<Longrightarrow> keyring_step ae cr id_text cu w w' \<Longrightarrow> keyring_reachable ae cr id_text cu w'"

definition active_for :: "string \<Rightarrow> keyring_row \<Rightarrow> bool" where
  "active_for purpose r \<longleftrightarrow> kr_state r = ''active'' \<and> kr_purpose r = purpose"

definition keys_ok :: "crypto \<Rightarrow> (uuid \<Rightarrow> string) \<Rightarrow> custody \<Rightarrow> keyring_row list \<Rightarrow> bool" where
  "keys_ok cr id_text cu keys \<longleftrightarrow>
     distinct (map kr_id keys) \<and> (\<forall>r\<in>set keys. row_loads cr id_text cu r)
     \<and> (\<exists>r\<in>set keys. active_for PURPOSE_CONTENT r)
     \<and> (\<forall>purpose. length (filter (active_for purpose) keys) \<le> 1)"

definition row_readable :: "aead \<Rightarrow> crypto \<Rightarrow> (uuid \<Rightarrow> string) \<Rightarrow> custody \<Rightarrow> keyring_row list \<Rightarrow> sealed_row \<Rightarrow> string \<Rightarrow> bool" where
  "row_readable ae cr id_text cu keys row body \<longleftrightarrow> utf8_valid body \<and>
     (\<exists>r\<in>set keys. \<exists>dk. content_key_row cr id_text cu r dk
        \<and> open_envelope ae id_text \<lparr>cc_data_key_id = kr_id r, cc_key = dk\<rparr> (snd row) (fst row) = Ok body)"

definition writer_ok :: "crypto \<Rightarrow> (uuid \<Rightarrow> string) \<Rightarrow> custody \<Rightarrow> keyring_row list \<Rightarrow> keyring_snapshot \<Rightarrow> bool" where
  "writer_ok cr id_text cu keys s \<longleftrightarrow>
     (\<exists>r\<in>set keys. kr_id r = cc_data_key_id (ks_active_content s) \<and> content_key_row cr id_text cu r (cc_key (ks_active_content s)))"

definition world_ok :: "aead \<Rightarrow> crypto \<Rightarrow> (uuid \<Rightarrow> string) \<Rightarrow> custody \<Rightarrow> keyring_world \<Rightarrow> bool" where
  "world_ok ae cr id_text cu w \<longleftrightarrow>
     keys_ok cr id_text cu (kw_keys w)
     \<and> (\<forall>row\<in>set (kw_rows w). \<exists>body. kw_written w (fst row) = Some body \<and> row_readable ae cr id_text cu (kw_keys w) row body)
     \<and> (\<forall>s\<in>set (kw_replicas w). writer_ok cr id_text cu (kw_keys w) s)"

section \<open>Commands keep content keys\<close>

text \<open>A change of the key table that keeps every content key but \<open>except\<close>.\<close>

definition keeps_keys :: "crypto \<Rightarrow> (uuid \<Rightarrow> string) \<Rightarrow> custody \<Rightarrow> uuid set \<Rightarrow> keyring_row list \<Rightarrow> keyring_row list \<Rightarrow> bool" where
  "keeps_keys cr id_text cu except keys keys' \<longleftrightarrow>
     (\<forall>r\<in>set keys. \<forall>dk. content_key_row cr id_text cu r dk \<longrightarrow> kr_id r \<notin> except \<longrightarrow>
        (\<exists>r'\<in>set keys'. kr_id r' = kr_id r \<and> content_key_row cr id_text cu r' dk))"

lemma keeps_readable:
  assumes "keeps_keys cr id_text cu except keys keys'" "row_readable ae cr id_text cu keys row body"
    and "\<And>u h. header_parse (snd row) = Ok h \<Longrightarrow> eh_data_key_id h \<notin> except"
  shows "row_readable ae cr id_text cu keys' row body"
  using assms unfolding row_readable_def keeps_keys_def by (metis content_cipher.select_convs(1) open_envelope_names_key)

lemma keeps_writer:
  assumes "keeps_keys cr id_text cu except keys keys'" "writer_ok cr id_text cu keys s" "cc_data_key_id (ks_active_content s) \<notin> except"
  shows "writer_ok cr id_text cu keys' s"
  using assms unfolding writer_ok_def keeps_keys_def by metis

lemma keeps_world:
  assumes "world_ok ae cr id_text cu w" "keys_ok cr id_text cu keys'" "keeps_keys cr id_text cu except (kw_keys w) keys'"
    and "\<And>row h. row \<in> set (kw_rows w) \<Longrightarrow> header_parse (snd row) = Ok h \<Longrightarrow> eh_data_key_id h \<notin> except"
    and "\<And>s. s \<in> set (kw_replicas w) \<Longrightarrow> cc_data_key_id (ks_active_content s) \<notin> except"
  shows "world_ok ae cr id_text cu (w\<lparr>kw_keys := keys'\<rparr>)"
  using assms(1,2) keeps_readable [OF assms(3)] keeps_writer [OF assms(3)] assms(4,5) unfolding world_ok_def by simp metis

lemma keeps_append: "keeps_keys cr id_text cu {} keys (keys @ rs)"
  by (auto simp: keeps_keys_def)

lemma open_row_Ok_iff:
  "open_row cr id_text cu r = Ok dk \<longleftrightarrow> cu_unwrap cu (row_wrapped r) (row_aad id_text r) = Ok dk \<and> key_check_value cr dk = kr_key_check_value r"
  by (auto simp: open_row_def Let_def split: sum.splits if_splits)

lemma open_row_state [simp]: "open_row cr id_text cu (r\<lparr>kr_state := st\<rparr>) = open_row cr id_text cu r"
  by (simp add: open_row_def row_wrapped_def row_aad_def Let_def split: sum.split)

lemma keys_ok_append:
  assumes "keys_ok cr id_text cu keys" "row_loads cr id_text cu r" "kr_id r \<notin> kr_id ` set keys"
    and "kr_state r = ''active'' \<Longrightarrow> \<forall>r'\<in>set keys. kr_purpose r' \<noteq> kr_purpose r"
  shows "keys_ok cr id_text cu (keys @ [r])"
proof -
  have "filter (active_for purpose) keys = []" if "active_for purpose r" for purpose
    using assms(4) that by (auto simp: active_for_def filter_empty_conv)
  then have "length (filter (active_for purpose) (keys @ [r])) \<le> 1" for purpose
    using assms(1) by (cases "active_for purpose r") (simp_all add: keys_ok_def)
  then show ?thesis using assms(1-3) unfolding keys_ok_def by (simp only: set_append Un_iff) auto
qed

context keyring_crypto
begin

lemma add_key_ok:
  assumes "keys_ok cr id_text cu keys" "length (mi_data_key mi) = 32" "length (mi_nonce mi) = WRAP_NONCE_LENGTH" "mi_id mi \<notin> kr_id ` set keys"
    and "add_key cr id_text cu purpose mi now keys = Ok (r, keys')"
  shows "keys_ok cr id_text cu keys' \<and> keeps_keys cr id_text cu {} keys keys'"
proof -
  have r: "mint_row cr id_text cu (max_version keys + 1) (purpose_str purpose) (state_str KeyPending) (mi_id mi) (mi_data_key mi) (mi_nonce mi) now = Ok r"
    and k: "keys' = keys @ [r]"
    using assms(5) by (auto simp: add_key_def split: sum.splits)
  note m = mint_row_Ok [OF r assms(2,3)] mint_row_loads [OF r assms(2,3) hmac_length]
  show ?thesis using keys_ok_append [OF assms(1) m(7)] assms(4) m keeps_append by (simp add: k)
qed

lemma ensure_dedupe_ok:
  assumes "keys_ok cr id_text cu keys" "length data_key = 32" "length nonce = WRAP_NONCE_LENGTH" "uid \<notin> kr_id ` set keys"
    and "ensure_memory_dedupe_key cr id_text cu keys uid data_key nonce now = Ok (minted, keys')"
  shows "keys_ok cr id_text cu keys' \<and> keeps_keys cr id_text cu {} keys keys'"
proof (cases "filter (\<lambda>r. kr_purpose r = PURPOSE_MEMORY_DEDUPE) keys = []")
  case True
  then obtain r where r: "mint_row cr id_text cu (max_version keys + 1) (purpose_str PurposeMemoryDedupe) (state_str KeyActive) uid data_key nonce now = Ok r"
    and k: "keys' = keys @ [r]"
    using assms(5) by (auto simp: ensure_memory_dedupe_key_def and_then_Ok_iff)
  note m = mint_row_Ok [OF r assms(2,3)] mint_row_loads [OF r assms(2,3) hmac_length]
  show ?thesis using keys_ok_append [OF assms(1) m(7)] assms(4) m keeps_append True by (auto simp: k filter_empty_conv)
next
  case False
  then have "keys' = keys" using assms(5) by (simp add: ensure_memory_dedupe_key_def)
  then show ?thesis using assms(1) keeps_append [of _ _ _ _ "[]"] by simp
qed

end

lemma row_for_update_Ok:
  "row_for_update keys uid = Ok row \<Longrightarrow> row \<in> set keys \<and> kr_id row = uid"
  by (auto simp: row_for_update_def find_Some_iff split: option.splits)

lemma row_state_Ok [simp]: "row_state r = Ok st \<longleftrightarrow> state_from_db (kr_state r) = Some st"
  by (simp add: row_state_def split: option.split)

lemma row_purpose_Ok [simp]: "row_purpose r = Ok p \<longleftrightarrow> purpose_from_db (kr_purpose r) = Some p"
  by (simp add: row_purpose_def split: option.split)

lemma kr_id_eq: "distinct (map kr_id keys) \<Longrightarrow> r \<in> set keys \<Longrightarrow> r' \<in> set keys \<Longrightarrow> kr_id r = kr_id r' \<Longrightarrow> r = r'"
  by (metis distinct_map inj_onD)

lemma distinct_mapI: "distinct (map f xs) \<Longrightarrow> distinct xs"
  by (simp add: distinct_map)

lemma distinct_filter_one: "distinct xs \<Longrightarrow> length (filter (\<lambda>x. x = y) xs) \<le> 1"
  by (induction xs) (auto simp: filter_empty_conv)

text \<open>A promotion changes states only, and only between states that are loaded.\<close>

lemma promote_Ok:
  assumes "promote uid keys = Ok (p, keys')"
  shows "\<exists>row purpose. row \<in> set keys \<and> kr_id row = uid \<and> kr_state row = ''pending'' \<and> kr_purpose row = purpose_str purpose
    \<and> keys' = map (\<lambda>r. if kr_id r = uid then (if kr_state r = ''pending'' then r\<lparr>kr_state := ''active''\<rparr> else r)
        else if kr_purpose r = purpose_str purpose \<and> kr_state r = ''active'' then r\<lparr>kr_state := ''retiring''\<rparr> else r) keys"
  using assms
  by (fastforce simp: promote_def Let_def and_then_Ok_iff state_from_db_iff purpose_from_db_iff split: if_splits dest: row_for_update_Ok)

lemma row_loads_state:
  assumes "row_loads cr id_text cu r" "is_unwrapped_at_load st'" "state_from_db (kr_state r) = Some st" "is_unwrapped_at_load st"
  shows "row_loads cr id_text cu (r\<lparr>kr_state := state_str st'\<rparr>)"
  using assms by (simp add: row_loads_def)

lemma promote_ok:
  assumes ok: "keys_ok cr id_text cu keys" and "promote uid keys = Ok (p, keys')"
  shows "keys_ok cr id_text cu keys' \<and> keeps_keys cr id_text cu {} keys keys'"
proof -
  obtain row purpose where row: "row \<in> set keys" "kr_id row = uid" "kr_state row = ''pending''" "kr_purpose row = purpose_str purpose"
    and k: "keys' = map (\<lambda>r. if kr_id r = uid then (if kr_state r = ''pending'' then r\<lparr>kr_state := ''active''\<rparr> else r)
        else if kr_purpose r = purpose_str purpose \<and> kr_state r = ''active'' then r\<lparr>kr_state := ''retiring''\<rparr> else r) keys"
    using promote_Ok [OF assms(2)] by blast
  define f where "f = (\<lambda>r :: keyring_row. if kr_id r = uid then (if kr_state r = ''pending'' then r\<lparr>kr_state := ''active''\<rparr> else r)
        else if kr_purpose r = purpose_str purpose \<and> kr_state r = ''active'' then r\<lparr>kr_state := ''retiring''\<rparr> else r)"
  have same [simp]: "kr_id (f r) = kr_id r" "kr_purpose (f r) = kr_purpose r" for r by (simp_all add: f_def)
  have dist: "distinct (map kr_id keys)" using ok by (simp add: keys_ok_def)
  then have only: "r = row" if "r \<in> set keys" "kr_id r = uid" for r using kr_id_eq row(1,2) that by metis
  have loads: "row_loads cr id_text cu (f r)" if "r \<in> set keys" for r
  proof -
    have l: "row_loads cr id_text cu r" using ok that by (simp add: keys_ok_def)
    show ?thesis
      using l row_loads_state [OF l, of KeyActive KeyPending] row_loads_state [OF l, of KeyRetiring KeyActive]
      by (auto simp: f_def state_from_db_iff is_unwrapped_at_load_def)
  qed
  have keeps: "content_key_row cr id_text cu (f r) dk" if "content_key_row cr id_text cu r dk" for r dk
    using that by (auto simp: f_def content_key_row_def)
  have act: "kr_state (f r) = ''active'' \<longleftrightarrow> r = row \<or> kr_state r = ''active'' \<and> kr_purpose r \<noteq> purpose_str purpose" if "r \<in> set keys" for r
    using only [OF that] row by (auto simp: f_def)
  have some: "\<exists>r\<in>set keys. active_for PURPOSE_CONTENT (f r)"
  proof (cases purpose)
    case PurposeContent
    then show ?thesis using act [OF row(1)] row(1,4) by (auto simp: active_for_def)
  next
    case PurposeMemoryDedupe
    obtain r where "r \<in> set keys" "kr_state r = ''active''" "kr_purpose r = PURPOSE_CONTENT" using ok by (auto simp: keys_ok_def active_for_def)
    moreover from this have "active_for PURPOSE_CONTENT (f r)"
      using act [of r] PurposeMemoryDedupe unfolding active_for_def by (simp add: PURPOSE_CONTENT_def PURPOSE_MEMORY_DEDUPE_def)
    ultimately show ?thesis by blast
  qed
  have one: "length (filter (active_for q) (map f keys)) \<le> 1" for q
  proof (cases "q = purpose_str purpose")
    case True
    then have "filter (active_for q \<circ> f) keys = filter (\<lambda>r. r = row) keys" using act row(4) by (intro filter_cong) (auto simp: active_for_def)
    moreover have "length (filter (\<lambda>r. r = row) keys) \<le> 1" by (rule distinct_filter_one [OF distinct_mapI [OF dist]])
    ultimately show ?thesis by (simp add: filter_map)
  next
    case False
    then have "filter (active_for q \<circ> f) keys = filter (active_for q) keys"
      using act row(3,4) by (intro filter_cong) (auto simp: active_for_def)
    then show ?thesis using ok by (simp add: filter_map keys_ok_def)
  qed
  have ids: "map kr_id (map f keys) = map kr_id keys" by simp
  have "keys_ok cr id_text cu (map f keys)"
    unfolding keys_ok_def ids using dist loads some one by (simp del: map_map)
  moreover have "keeps_keys cr id_text cu {} keys (map f keys)" using keeps by (auto simp: keeps_keys_def)
  ultimately show ?thesis unfolding k f_def [symmetric] by blast
qed

text \<open>Retiring a key keeps every other.\<close>

lemma retire_Ok:
  assumes "retire uid rows keys = Ok keys'"
  shows "\<exists>row\<in>set keys. kr_id row = uid \<and> kr_state row \<noteq> ''active''" "usage_total (usage_in rows uid) = 0"
    "keys' = map (\<lambda>r. if kr_id r = uid then r\<lparr>kr_state := ''retired''\<rparr> else r) keys"
proof -
  from assms obtain row st where "row_for_update keys uid = Ok row" "kr_state row = state_str st" "st \<noteq> KeyActive"
    and "usage_total (usage_in rows uid) = 0" "keys' = map (\<lambda>r. if kr_id r = uid then r\<lparr>kr_state := ''retired''\<rparr> else r) keys"
    by (auto simp: retire_def Let_def and_then_Ok_iff state_from_db_iff split: if_splits)
  moreover from this have "kr_state row \<noteq> ''active''" by (cases st) simp_all
  ultimately show "\<exists>row\<in>set keys. kr_id row = uid \<and> kr_state row \<noteq> ''active''" "usage_total (usage_in rows uid) = 0"
    "keys' = map (\<lambda>r. if kr_id r = uid then r\<lparr>kr_state := ''retired''\<rparr> else r) keys"
    using row_for_update_Ok by blast+
qed

lemma row_loads_retired: "row_loads cr id_text cu r \<Longrightarrow> row_loads cr id_text cu (r\<lparr>kr_state := ''retired''\<rparr>)"
  using from_db_str(1) [of KeyRetired] by (auto simp: row_loads_def is_unwrapped_at_load_def)

lemma retire_ok:
  assumes ok: "keys_ok cr id_text cu keys" and "retire uid rows keys = Ok keys'"
  shows "keys_ok cr id_text cu keys' \<and> keeps_keys cr id_text cu {uid} keys keys'"
proof -
  define f where "f = (\<lambda>r :: keyring_row. if kr_id r = uid then r\<lparr>kr_state := ''retired''\<rparr> else r)"
  have same [simp]: "kr_id (f r) = kr_id r" "kr_purpose (f r) = kr_purpose r" for r by (simp_all add: f_def)
  obtain row where row: "row \<in> set keys" "kr_id row = uid" "kr_state row \<noteq> ''active''" and k: "keys' = map f keys"
    using retire_Ok [OF assms(2)] unfolding f_def by blast
  have act: "kr_state (f r) = ''active'' \<longleftrightarrow> kr_state r = ''active''" if "r \<in> set keys" for r
    using kr_id_eq [of keys r row] that row ok by (auto simp: f_def keys_ok_def)
  have "\<forall>r\<in>set keys. row_loads cr id_text cu (f r)" using ok row_loads_retired by (auto simp: keys_ok_def f_def)
  moreover have ids: "map kr_id (map f keys) = map kr_id keys" by simp
  moreover have "filter (active_for q \<circ> f) keys = filter (active_for q) keys" for q
    using act by (intro filter_cong) (auto simp: active_for_def)
  moreover have "\<exists>r\<in>set keys. active_for PURPOSE_CONTENT (f r)"
    using ok act by (auto simp: keys_ok_def active_for_def)
  ultimately have "keys_ok cr id_text cu (map f keys)"
    using ok unfolding keys_ok_def ids by (simp add: filter_map del: map_map)
  then show ?thesis by (auto simp: k keeps_keys_def f_def)
qed

text \<open>The counts are of every envelope whose header names the key.\<close>

lemma usage_total_eq: "usage_total (usage_in rows uid) = length (filter (\<lambda>(i, e). sql_envelope_data_key_id e = Some uid) rows)"
proof -
  have sorted: "sum_list (map snd (sort_key f xs)) = sum_list (map snd xs)" for f :: "string \<times> nat \<Rightarrow> string" and xs
    by (metis mset_map mset_sort sum_mset_sum_list)
  have cols: "sum_list (map (\<lambda>p. length (filter (\<lambda>(i, e). identity_profile i = p \<and> sql_envelope_data_key_id e = Some uid) rows)) profile_ALL)
      = length (filter (\<lambda>(i, e). sql_envelope_data_key_id e = Some uid) rows)"
  proof (induction rows)
    case (Cons row rows)
    obtain i e where "row = (i, e)" by (cases row)
    then show ?case using Cons by (cases "identity_profile i") (auto simp: profile_ALL_def)
  qed (simp add: profile_ALL_def)
  show ?thesis unfolding usage_total_def usage_in_def sorted using cols by (simp add: comp_def)
qed

lemma parsed_sql_id: "header_parse env = Ok h \<Longrightarrow> sql_envelope_data_key_id env = Some (eh_data_key_id h)"
  by (auto simp: header_parse_def sql_envelope_data_key_id_def Let_def envelope_consts not_less split: if_splits option.splits)

lemma unused_not_named:
  assumes "usage_total (usage_in rows uid) = 0" "row \<in> set rows" "header_parse (snd row) = Ok h"
  shows "eh_data_key_id h \<noteq> uid"
  using assms parsed_sql_id [OF assms(3)] by (auto simp: usage_total_eq filter_empty_conv)

section \<open>Rewrapping keeps every data key\<close>

text \<open>Two rows that differ in the wrapping only, the second holding the data key of the first.\<close>

definition same_key :: "crypto \<Rightarrow> (uuid \<Rightarrow> string) \<Rightarrow> custody \<Rightarrow> keyring_row \<Rightarrow> keyring_row \<Rightarrow> bool" where
  "same_key cr id_text cu r r' \<longleftrightarrow> kr_id r' = kr_id r \<and> kr_purpose r' = kr_purpose r \<and> kr_state r' = kr_state r
     \<and> kr_key_version r' = kr_key_version r \<and> kr_key_check_value r' = kr_key_check_value r
     \<and> (\<forall>dk. open_row cr id_text cu r = Ok dk \<longrightarrow> open_row cr id_text cu r' = Ok dk)"

lemma same_key_content: "same_key cr id_text cu r r' \<Longrightarrow> content_key_row cr id_text cu r dk \<Longrightarrow> content_key_row cr id_text cu r' dk"
  by (simp add: same_key_def content_key_row_def)

lemma same_key_loads: "same_key cr id_text cu r r' \<Longrightarrow> row_loads cr id_text cu r \<Longrightarrow> row_loads cr id_text cu r'"
  by (auto simp: same_key_def row_loads_def is_ok_iff)

lemma same_keys_ok:
  assumes "keys_ok cr id_text cu keys" "list_all2 (same_key cr id_text cu) keys keys'"
  shows "keys_ok cr id_text cu keys' \<and> keeps_keys cr id_text cu {} keys keys'"
proof -
  have ids: "map kr_id keys' = map kr_id keys" using assms(2) by (induction rule: list_all2_induct) (simp_all add: same_key_def)
  have count: "length (filter (active_for q) keys') = length (filter (active_for q) keys)" for q
    using assms(2) by (induction rule: list_all2_induct) (simp_all add: same_key_def active_for_def)
  have bwd: "\<exists>r\<in>set keys. same_key cr id_text cu r r'" if "r' \<in> set keys'" for r'
    using assms(2) that by (metis in_set_conv_nth list_all2_conv_all_nth)
  have fwd: "\<exists>r'\<in>set keys'. same_key cr id_text cu r r'" if "r \<in> set keys" for r
    using assms(2) that by (metis in_set_conv_nth list_all2_conv_all_nth)
  have "\<exists>r\<in>set keys'. active_for PURPOSE_CONTENT r"
    using assms(1) fwd unfolding keys_ok_def active_for_def same_key_def by metis
  moreover have "\<forall>r\<in>set keys'. row_loads cr id_text cu r" using assms(1) bwd same_key_loads unfolding keys_ok_def by blast
  ultimately have "keys_ok cr id_text cu keys'" using assms(1) by (simp add: keys_ok_def ids count)
  moreover have "keeps_keys cr id_text cu {} keys keys'"
    unfolding keeps_keys_def using fwd same_key_content by (metis same_key_def)
  ultimately show ?thesis by blast
qed

context keyring_crypto
begin

lemma rewrap_row_same:
  assumes "rewrap_row cr id_text cu cu tm nonces row = Ok w" "length (nonces (kr_id row)) = WRAP_NONCE_LENGTH"
    and "kr_id r = kr_id row" "kr_key_check_value r = kr_key_check_value row"
  shows "\<exists>dk. open_row cr id_text cu row = Ok dk \<and>
    open_row cr id_text cu (r\<lparr>kr_master_key_id := wk_master_key_id w, kr_custody_backend := cu_backend_name cu,
       kr_wrap_algorithm := wk_wrap_algorithm w, kr_wrap_nonce := wk_nonce w, kr_wrapped_key := wk_wrapped w\<rparr>) = Ok dk"
proof -
  from assms(1) obtain dk where dk: "open_row cr id_text cu row = Ok dk"
    and w: "cu_wrap_under cu tm dk (wrapped_data_key_aad id_text (kr_id row) tm (cu_wrap_algorithm cu)) (nonces (kr_id row)) = Ok w"
      "wk_master_key_id w = tm" "wk_wrap_algorithm w = cu_wrap_algorithm cu"
    by (auto simp: rewrap_row_def Let_def split: sum.splits if_splits)
  have chk: "key_check_value cr dk = kr_key_check_value row" and un: "cu_unwrap cu (row_wrapped row) (row_aad id_text row) = Ok dk"
    using dk by (auto simp: open_row_def Let_def split: sum.splits if_splits)
  have "cu_unwrap cu w (wrapped_data_key_aad id_text (kr_id row) tm (cu_wrap_algorithm cu)) = Ok dk"
    using wrap_unwrap [OF w(1)] unwrap_holds [OF un] assms(2) by blast
  moreover have "row_wrapped (r\<lparr>kr_master_key_id := wk_master_key_id w, kr_custody_backend := cu_backend_name cu,
       kr_wrap_algorithm := wk_wrap_algorithm w, kr_wrap_nonce := wk_nonce w, kr_wrapped_key := wk_wrapped w\<rparr>) = w"
    by (simp add: row_wrapped_def)
  ultimately show ?thesis using dk w(2,3) chk assms(3,4) by (simp add: open_row_Ok_iff row_aad_def)
qed

lemma store_wrapped_same:
  assumes "list_all2 (same_key cr id_text cu) orig keys" "distinct (map kr_id orig)" "row \<in> set orig"
    and "rewrap_row cr id_text cu cu tm nonces row = Ok w" "length (nonces (kr_id row)) = WRAP_NONCE_LENGTH"
  shows "list_all2 (same_key cr id_text cu) orig (store_wrapped cu (kr_id row) w keys)"
proof -
  have "same_key cr id_text cu r (if kr_id r' = kr_id row then r'\<lparr>kr_master_key_id := wk_master_key_id w, kr_custody_backend := cu_backend_name cu,
       kr_wrap_algorithm := wk_wrap_algorithm w, kr_wrap_nonce := wk_nonce w, kr_wrapped_key := wk_wrapped w\<rparr> else r')"
    if o: "r \<in> set orig" and sk: "same_key cr id_text cu r r'" for r r'
  proof (cases "kr_id r' = kr_id row")
    case True
    have "kr_id r = kr_id row" using sk True unfolding same_key_def by metis
    then have "r = row" by (rule kr_id_eq [OF assms(2) o assms(3)])
    then obtain dk where dk: "open_row cr id_text cu r = Ok dk" "open_row cr id_text cu (r'\<lparr>kr_master_key_id := wk_master_key_id w,
        kr_custody_backend := cu_backend_name cu, kr_wrap_algorithm := wk_wrap_algorithm w, kr_wrap_nonce := wk_nonce w, kr_wrapped_key := wk_wrapped w\<rparr>) = Ok dk"
      using rewrap_row_same [OF assms(4,5) True] sk unfolding same_key_def by metis
    then show ?thesis using sk True unfolding same_key_def by simp
  qed (use sk in simp)
  then show ?thesis unfolding store_wrapped_def list_all2_map2 by (intro list.rel_mono_strong [OF assms(1)]) blast
qed

lemma rewrap_rows_same:
  assumes "list_all2 (same_key cr id_text cu) orig keys" "distinct (map kr_id orig)" "set todo \<subseteq> set orig"
    and "\<And>u. length (nonces u) = WRAP_NONCE_LENGTH" "rewrap_rows cr id_text cu cu tm nonces todo keys = Ok keys'"
  shows "list_all2 (same_key cr id_text cu) orig keys'"
  using assms(1,3,5)
proof (induction todo arbitrary: keys)
  case (Cons row todo)
  then obtain w where w: "rewrap_row cr id_text cu cu tm nonces row = Ok w"
    "rewrap_rows cr id_text cu cu tm nonces todo (store_wrapped cu (kr_id row) w keys) = Ok keys'" by (auto simp: and_then_Ok_iff)
  show ?case using Cons.IH [OF store_wrapped_same [OF Cons.prems(1) assms(2) _ w(1) assms(4)] _ w(2)] Cons.prems(2) by simp
qed simp

lemma rewrap_plan_subset: "rewrap_plan cu keys = Ok (left, todo) \<Longrightarrow> set todo \<subseteq> set keys"
proof (induction keys arbitrary: left todo)
  case (Cons row keys)
  then show ?case by (fastforce simp: and_then_Ok_iff split: if_splits)
qed simp

lemma rewrap_ok:
  assumes "keys_ok cr id_text cu keys" "\<And>u. length (nonces u) = WRAP_NONCE_LENGTH" "rewrap cr id_text cu tm nonces keys = Ok (report, keys')"
  shows "keys_ok cr id_text cu keys' \<and> keeps_keys cr id_text cu {} keys keys'"
proof -
  from assms(3) obtain left todo where "rewrap_plan cu (sort_key kr_key_version keys) = Ok (left, todo)"
    "rewrap_rows cr id_text cu cu tm nonces todo keys = Ok keys'"
    by (auto simp: rewrap_def rewrap_with_def and_then_Ok_iff split: if_splits)
  moreover have "list_all2 (same_key cr id_text cu) keys keys" by (simp add: list_all2_refl same_key_def)
  moreover have "distinct (map kr_id keys)" using assms(1) by (simp add: keys_ok_def)
  ultimately have "list_all2 (same_key cr id_text cu) keys keys'"
    using rewrap_rows_same [where orig = keys] rewrap_plan_subset assms(2) by (metis set_sort)
  then show ?thesis by (rule same_keys_ok [OF assms(1)])
qed

end

section \<open>Resealing keeps every body\<close>

lemma admin_cipher_for_Ok:
  assumes "admin_cipher_for cr id_text cu keys uid = Ok c"
  shows "\<exists>row\<in>set keys. kr_id row = uid \<and> cc_data_key_id c = uid \<and> open_row cr id_text cu row = Ok (cc_key c)
    \<and> (kr_purpose row = PURPOSE_CONTENT \<longrightarrow> content_key_row cr id_text cu row (cc_key c))"
proof -
  from assms obtain row st where row: "row_for_update keys uid = Ok row" "state_from_db (kr_state row) = Some st" "is_unwrapped_at_load st"
    "open_row cr id_text cu row = Ok (cc_key c)" "cc_data_key_id c = kr_id row"
    by (auto simp: admin_cipher_for_def and_then_Ok_iff split: if_splits sum.splits)
  moreover have "kr_purpose row = PURPOSE_CONTENT \<Longrightarrow> content_key_row cr id_text cu row (cc_key c)"
    using row(2-4) unfolding content_key_row_alt by (simp add: purpose_from_db_iff)
  ultimately show ?thesis using row_for_update_Ok [OF row(1)] by auto
qed

lemma reseal_row_Ok:
  assumes "reseal_row ae id_text source destination nonce row rows = Ok (n, rows')"
  shows "\<exists>body env. open_envelope ae id_text source (snd row) (fst row) = Ok body
    \<and> seal_with_nonce ae id_text destination (fst row) body nonce = Ok env
    \<and> rows' = map (\<lambda>r. if r = row then (fst row, env) else r) rows \<and> n = length (filter (\<lambda>r. r = row) rows)"
  using assms by (cases row) (auto simp: reseal_row_def Let_def split: sum.splits)

lemma source_reads_text:
  assumes "distinct (map kr_id keys)" "row_readable ae cr id_text cu keys row body" "admin_cipher_for cr id_text cu keys from = Ok source"
    and "open_envelope ae id_text source (snd row) (fst row) = Ok p"
  shows "p = body"
proof -
  obtain r dk where r: "r \<in> set keys" "content_key_row cr id_text cu r dk"
    "open_envelope ae id_text \<lparr>cc_data_key_id = kr_id r, cc_key = dk\<rparr> (snd row) (fst row) = Ok body"
    using assms(2) by (auto simp: row_readable_def)
  obtain r' where r': "r' \<in> set keys" "kr_id r' = cc_data_key_id source" "open_row cr id_text cu r' = Ok (cc_key source)"
    using admin_cipher_for_Ok [OF assms(3)] by auto
  have "kr_id r = cc_data_key_id source" using open_envelope_names_key [OF r(3)] open_envelope_names_key [OF assms(4)] by auto
  then have "r = r'" using kr_id_eq [OF assms(1) r(1) r'(1)] r'(2) by simp
  then have "dk = cc_key source" using r(2) r'(3) by (simp add: content_key_row_def)
  then have c: "\<lparr>cc_data_key_id = kr_id r, cc_key = dk\<rparr> = source" using \<open>kr_id r = cc_data_key_id source\<close> by simp
  then show ?thesis using r(3) [unfolded c] assms(4) by simp
qed

context keyring_crypto
begin

lemma sealed_readable:
  assumes "r \<in> set keys" "kr_id r = cc_data_key_id c" "content_key_row cr id_text cu r (cc_key c)" "utf8_valid body"
    and "seal_with_nonce ae id_text c identity body nonce = Ok env" "length nonce = ENVELOPE_NONCE_LEN"
  shows "row_readable ae cr id_text cu keys (identity, env) body"
proof -
  have "\<lparr>cc_data_key_id = kr_id r, cc_key = cc_key c\<rparr> = c" using assms(2) by simp
  then show ?thesis using open_seal [OF assms(5,6)] assms(1,3,4) unfolding row_readable_def by fastforce
qed

lemma reseal_row_keeps:
  assumes "keys_ok cr id_text cu keys" "admin_cipher_for cr id_text cu keys from = Ok source" "admin_cipher_for cr id_text cu keys to = Ok destination"
    and content: "\<And>r. r \<in> set keys \<Longrightarrow> kr_id r = to \<Longrightarrow> kr_purpose r = PURPOSE_CONTENT" and "length nonce = ENVELOPE_NONCE_LEN"
    and "reseal_row ae id_text source destination nonce row rows = Ok (n, rows')"
    and ok: "\<And>r. r \<in> set rows \<Longrightarrow> \<exists>body. written (fst r) = Some body \<and> row_readable ae cr id_text cu keys r body" and "r' \<in> set rows'"
  shows "\<exists>body. written (fst r') = Some body \<and> row_readable ae cr id_text cu keys r' body"
proof -
  obtain body env where t: "open_envelope ae id_text source (snd row) (fst row) = Ok body"
    "seal_with_nonce ae id_text destination (fst row) body nonce = Ok env" "rows' = map (\<lambda>r. if r = row then (fst row, env) else r) rows"
    using reseal_row_Ok [OF assms(6)] by blast
  show ?thesis
  proof (cases "r' \<in> set rows")
    case False
    then have r': "row \<in> set rows" "r' = (fst row, env)" using assms(8) t(3) by (auto split: if_splits)
    obtain old where old: "written (fst row) = Some old" "row_readable ae cr id_text cu keys row old" using ok [OF r'(1)] by blast
    have "body = old" using source_reads_text [OF _ old(2) assms(2) t(1)] assms(1) by (simp add: keys_ok_def)
    moreover obtain k where "k \<in> set keys" "kr_id k = cc_data_key_id destination" "content_key_row cr id_text cu k (cc_key destination)"
      using admin_cipher_for_Ok [OF assms(3)] content by metis
    moreover have "utf8_valid old" using old(2) by (simp add: row_readable_def)
    ultimately show ?thesis using sealed_readable [OF _ _ _ _ t(2) assms(5)] old(1) r'(2) by auto
  qed (rule ok)
qed

lemma step_keeps_world:
  assumes "keyring_step ae cr id_text cu w w'" "world_ok ae cr id_text cu w"
  shows "world_ok ae cr id_text cu w'"
proof -
  have ok: "keys_ok cr id_text cu (kw_keys w)" using assms(2) by (simp add: world_ok_def)
  have keep: "world_ok ae cr id_text cu (w\<lparr>kw_keys := keys\<rparr>)"
    if "keys_ok cr id_text cu keys \<and> keeps_keys cr id_text cu {} (kw_keys w) keys" for keys
    using keeps_world [OF assms(2)] that by blast
  have load: "writer_ok cr id_text cu (kw_keys w) s" if "assemble cr id_text cu (fetch_rows (kw_keys w)) g now = Ok s" for g now s
    using snapshot_active_row [OF that] by (auto simp: writer_ok_def)
  from assms(1) show ?thesis
  proof cases
    case (Boot g now s)
    then show ?thesis using assms(2) load by (simp add: world_ok_def)
  next
    case (Refresh i g now s)
    then show ?thesis using assms(2) load by (auto simp: world_ok_def dest: set_update_subset_insert [THEN subsetD])
  next
    case (Write s nonce body identity env)
    have c: "seal_with_nonce ae id_text (ks_active_content s) identity body nonce = Ok env"
      using Write(5) by (auto simp: seal_content_def active_cipher_def resolve_active_cipher_def Let_def and_then_Ok_iff
          split: sum.splits option.splits if_splits)
    have "writer_ok cr id_text cu (kw_keys w) s" using assms(2) Write(2) by (simp add: world_ok_def)
    then have "row_readable ae cr id_text cu (kw_keys w) (identity, env) body"
      using sealed_readable [OF _ _ _ Write(4) c Write(3)] by (auto simp: writer_ok_def)
    then show ?thesis using assms(2) by (auto simp: Write(1) world_ok_def)
  next
    case (Delete identity)
    then show ?thesis using assms(2) by (auto simp: world_ok_def)
  next
    case (EnsureDedupe data_key nonce uid now minted keys)
    then show ?thesis using keep ensure_dedupe_ok [OF ok] by blast
  next
    case (Add mi purpose now r keys)
    then show ?thesis using keep add_key_ok [OF ok] by blast
  next
    case (Promote uid p keys)
    then show ?thesis using keep promote_ok [OF ok] by blast
  next
    case (Rewrap nonces tm report keys)
    then show ?thesis using keep rewrap_ok [OF ok] by blast
  next
    case (Retire uid keys)
    show ?thesis unfolding Retire(1)
      using retire_ok [OF ok Retire(3)] Retire(2) unused_not_named [OF retire_Ok(2) [OF Retire(3)]]
      by (intro keeps_world [OF assms(2), where except = "{uid}"]) auto
  next
    case (Reseal "from" source to destination nonce row n rows)
    have rows: "\<exists>body. kw_written w (fst r) = Some body \<and> row_readable ae cr id_text cu (kw_keys w) r body" if "r \<in> set (kw_rows w)" for r
      using assms(2) that by (simp add: world_ok_def)
    show ?thesis using assms(2) reseal_row_keeps [OF ok Reseal(2,3,4,5,6) rows] by (simp add: Reseal(1) world_ok_def)
  qed
qed

lemma bootstrap_world:
  assumes "length data_key = 32" "length nonce = WRAP_NONCE_LENGTH" "bootstrap_if_empty cr id_text cu [] uid data_key nonce now = Ok (True, keys)"
  shows "keys_ok cr id_text cu keys"
proof -
  obtain r where r: "mint_row cr id_text cu 1 (purpose_str PurposeContent) (state_str KeyActive) uid data_key nonce now = Ok r" "keys = [r]"
    using assms(3) by (auto simp: bootstrap_if_empty_def and_then_Ok_iff)
  show ?thesis using mint_row_Ok [OF r(1) assms(1,2)] mint_row_loads [OF r(1) assms(1,2) hmac_length] r(2)
    by (simp add: keys_ok_def active_for_def)
qed

lemma reachable_ok: "keyring_reachable ae cr id_text cu w \<Longrightarrow> world_ok ae cr id_text cu w"
proof (induction rule: keyring_reachable.induct)
  case (Bootstrap data_key nonce uid now keys)
  then show ?case using bootstrap_world by (simp add: world_ok_def)
qed (rule step_keeps_world)

end

text \<open>C6: Rotation loses no content. In every state that a cluster can reach from the first start by starts and
  refreshes of replicas, writes and deletions of content by replicas with any stale snapshot, and the
  commands \<open>add\<close>, \<open>promote\<close>, \<open>rewrap\<close>, \<open>retire\<close> and \<open>reseal\<close> (each reseal write with whatever it selected
  earlier), where a key is retired only after every replica has stopped sealing under it and content is
  resealed onto content keys: the key table loads, has exactly one active content key, and a replica that
  loads it opens every stored row to the body last written there.\<close>

theorem rotation_keeps_content:
  assumes "keyring_crypto ae cu cr" "keyring_reachable ae cr id_text cu w"
  shows "length (filter (active_for PURPOSE_CONTENT) (kw_keys w)) = 1 \<and>
    (\<exists>s. assemble cr id_text cu (fetch_rows (kw_keys w)) g now = Ok s \<and>
      (\<forall>(identity, env) \<in> set (kw_rows w). \<exists>body. kw_written w identity = Some body \<and> open_content ae id_text (Some s) env identity = Ok body))"
proof -
  have ok: "world_ok ae cr id_text cu w" by (rule keyring_crypto.reachable_ok [OF assms])
  then have keys: "distinct (map kr_id (kw_keys w))" "\<forall>r\<in>set (kw_keys w). row_loads cr id_text cu r"
    and act: "\<exists>r\<in>set (kw_keys w). active_for PURPOSE_CONTENT r" and one: "length (filter (active_for PURPOSE_CONTENT) (kw_keys w)) \<le> 1"
    by (simp_all add: world_ok_def keys_ok_def)
  obtain s where s: "assemble cr id_text cu (fetch_rows (kw_keys w)) g now = Ok s"
    using table_loads [OF keys(2)] act unfolding active_for_def by blast
  have "\<exists>body. kw_written w identity = Some body \<and> open_content ae id_text (Some s) env identity = Ok body"
    if row: "(identity, env) \<in> set (kw_rows w)" for identity env
  proof -
    obtain body where t: "kw_written w identity = Some body" "row_readable ae cr id_text cu (kw_keys w) (identity, env) body"
      using ok row unfolding world_ok_def by (metis fst_conv)
    then obtain r dk where r: "utf8_valid body" "r \<in> set (kw_keys w)" "content_key_row cr id_text cu r dk"
      "open_envelope ae id_text \<lparr>cc_data_key_id = kr_id r, cc_key = dk\<rparr> env identity = Ok body"
      by (auto simp: row_readable_def)
    have "length (kr_key_check_value r) = KEY_CHECK_VALUE_LEN" using keys(2) r(2) by (simp add: row_loads_def)
    from snapshot_resolves [OF s keys(1) r(2,3) this] show ?thesis
      using open_with_snapshot_resolved [OF _ r(4,1)] t(1) by (simp add: open_content_def)
  qed
  moreover have "length (filter (active_for PURPOSE_CONTENT) (kw_keys w)) = 1"
    using one act by (cases "filter (active_for PURPOSE_CONTENT) (kw_keys w)") (auto simp: filter_empty_conv)
  ultimately show ?thesis using s by blast
qed

theorem rotation_keeps_content_witness:
  "\<exists>w. kw_rows w \<noteq> [] \<and> keyring_reachable plain_aead plain_crypto plain_id plain_cu w \<and>
    (\<exists>s. assemble plain_crypto plain_id plain_cu (fetch_rows (kw_keys w)) 0 0 = Ok s)"
proof -
  define dk where "dk = replicate 32 CHR ''d''"
  define nonce where "nonce = replicate 12 CHR ''n''"
  have len: "length dk = 32" "length nonce = WRAP_NONCE_LENGTH" "length nonce = ENVELOPE_NONCE_LEN"
    by (simp_all add: dk_def nonce_def WRAP_NONCE_LENGTH_def ENVELOPE_NONCE_LEN_def)
  obtain r where "mint_row plain_crypto plain_id plain_cu 1 PURPOSE_CONTENT ''active'' 1 dk nonce 0 = Ok r"
    using plain_mints by blast
  then have "bootstrap_if_empty plain_crypto plain_id plain_cu [] 1 dk nonce 0 = Ok (True, [r])" by (simp add: bootstrap_if_empty_def)
  note first = keyring_reachable.Bootstrap [OF len(1,2) this, where ae = plain_aead]
  then obtain s where s: "assemble plain_crypto plain_id plain_cu (fetch_rows [r]) 0 0 = Ok s"
    using rotation_keeps_content [OF plain_ring.keyring_crypto_axioms first] by auto
  define w where "w = \<lparr>kw_keys = [r], kw_rows = [], kw_replicas = [s], kw_written = Map.empty\<rparr>"
  have w: "keyring_reachable plain_aead plain_crypto plain_id plain_cu w"
    using keyring_reachable.Then [OF first keyring_step.Boot [of plain_crypto plain_id plain_cu _ 0 0 s]] s by (simp add: w_def)
  have ok: "keys_ok plain_crypto plain_id plain_cu [r]" using plain_ring.reachable_ok [OF w] by (simp add: w_def world_ok_def)
  then have "resolve_active_cipher (Some s) = Ok (ks_active_content s)"
    by (intro loaded_seals [OF s]) (simp_all add: keys_ok_def row_loads_def)
  then obtain env where "seal_content plain_aead plain_id (Some s) (RagChunk 1 2 0) ''hi'' nonce = Ok env"
    by (simp add: seal_content_def active_cipher_def seal_with_nonce_def plain_aead_def Let_def ENVELOPE_TAG_LEN_def)
  moreover have "utf8_valid ''hi''" by (simp add: utf8_valid.simps [of "''hi''"] utf8_valid.simps [of "''i''"] utf8_valid.simps [of "[]"] utf8_one_def in_range_def)
  ultimately have "keyring_step plain_aead plain_crypto plain_id plain_cu w
      (w\<lparr>kw_rows := [(RagChunk 1 2 0, env)], kw_written := [RagChunk 1 2 0 \<mapsto> ''hi'']\<rparr>)"
    using keyring_step.Write [of s w nonce "''hi''" plain_aead plain_id "RagChunk 1 2 0" env] len(3) by (simp add: w_def)
  then have reach: "keyring_reachable plain_aead plain_crypto plain_id plain_cu
      (w\<lparr>kw_rows := [(RagChunk 1 2 0, env)], kw_written := [RagChunk 1 2 0 \<mapsto> ''hi'']\<rparr>)" by (rule keyring_reachable.Then [OF w])
  show ?thesis
    using rotation_keeps_content [OF plain_ring.keyring_crypto_axioms reach] reach
    by (intro exI [of _ "w\<lparr>kw_rows := [(RagChunk 1 2 0, env)], kw_written := [RagChunk 1 2 0 \<mapsto> ''hi'']\<rparr>"]) auto
qed

section \<open>The two rules of operation are needed\<close>

lemma entry_of_row:
  assumes "assemble_rows cr id_text cu rows a = Ok a'" "distinct (map kr_id rows)" "r \<in> set rows"
    and "purpose_from_db (kr_purpose r) = Some p" "state_from_db (kr_state r) = Some st" "is_unwrapped_at_load st" "open_row cr id_text cu r = Ok dk"
  shows "\<exists>e. map_of (as_by_id a') (kr_id r) = Some e \<and> ke_opened e = Some (opened_as p (kr_id r) dk)"
  using assms(1-3)
proof (induction rows arbitrary: a)
  case (Cons r' rs)
  then obtain b where b: "assemble_row cr id_text cu r' a = Ok b" "assemble_rows cr id_text cu rs b = Ok a'" by (auto simp: and_then_Ok_iff)
  show ?case
  proof (cases "r = r'")
    case True
    then have "kr_id r \<notin> kr_id ` set rs" using Cons.prems(2) by auto
    moreover have "b = insert_entry r p st (Some (opened_as p (kr_id r) dk)) a"
      using b(1) assms(4-7) True by (auto simp: assemble_row_def is_carried_in_snapshot_def is_unwrapped_at_load_def split: if_splits)
    ultimately show ?thesis using assemble_rows_other [OF b(2)] by simp
  qed (use Cons b in auto)
qed simp

text \<open>A write by a replica that still seals under a retired key is lost. After \<open>retire\<close> of a key succeeded,
  what a replica whose snapshot has that key as the active one (it has not refreshed since the key was
  demoted) stores next cannot be opened by any replica that loads the keyring: it answers
  \<open>content_key_unavailable\<close>.\<close>

lemma retired_key_write_unreadable:
  assumes "keyring_crypto ae cu cr" "retire uid rows keys = Ok keys'"
    and "cc_data_key_id (ks_active_content stale) = uid" "seal_content ae id_text (Some stale) identity body nonce = Ok env"
    and "length nonce = ENVELOPE_NONCE_LEN" "assemble cr id_text cu (fetch_rows keys') g now = Ok s"
  shows "open_content ae id_text (Some s) env identity = Err content_key_unavailable"
proof -
  have ring: "aead_laws ae" using assms(1) by (simp add: keyring_crypto_def)
  have "seal_with_nonce ae id_text (ks_active_content stale) identity body nonce = Ok env"
    using assms(4) by (auto simp: seal_content_def active_cipher_def resolve_active_cipher_def Let_def and_then_Ok_iff
        split: sum.splits option.splits if_splits)
  from aead_laws.seal_parses [OF ring this assms(5)] have h: "header_parse env = Ok (sealed_header (ks_active_content stale) identity body nonce)" .
  have "kr_state r = ''retired''" if r: "r \<in> set keys'" "kr_id r = uid" for r
  proof -
    obtain x where x: "r = (if kr_id x = uid then x\<lparr>kr_state := ''retired''\<rparr> else x)"
      using r(1) unfolding retire_Ok(3) [OF assms(2)] set_map by blast
    show ?thesis using r(2) unfolding x by (cases "kr_id x = uid") simp_all
  qed
  then have gone: "uid \<notin> kr_id ` set (fetch_rows keys')" unfolding set_fetch_rows by blast
  obtain a where "assemble_rows cr id_text cu (fetch_rows keys') \<lparr>as_by_id = [], as_content = None, as_dedupe = None\<rparr> = Ok a" "ks_by_id s = as_by_id a"
    using assms(6) unfolding assemble_Ok_iff by auto
  then have "map_of (ks_by_id s) uid = None" using assemble_rows_other [OF _ gone] by simp
  then show ?thesis using h assms(3) by (simp add: open_content_def open_with_snapshot_def sealed_header_def)
qed

text \<open>Content resealed onto a key of the other purpose is not readable. \<open>reseal\<close> accepts a \<open>memory_dedupe\<close> key as
  its destination; a row that it moved onto such a key answers \<open>content_decryption_failed\<close> at every replica
  that loads the keyring.\<close>

lemma reseal_onto_dedupe_key_unreadable:
  assumes "keyring_crypto ae cu cr" "distinct (map kr_id keys)" "admin_cipher_for cr id_text cu keys to = Ok destination"
    and "k \<in> set keys" "kr_id k = to" "kr_purpose k = PURPOSE_MEMORY_DEDUPE" "length nonce = ENVELOPE_NONCE_LEN"
    and "reseal_row ae id_text source destination nonce row rows = Ok (n, rows')" "row \<in> set rows"
    and "assemble cr id_text cu (fetch_rows keys) g now = Ok s"
  shows "\<exists>env. (fst row, env) \<in> set rows' \<and> open_content ae id_text (Some s) env (fst row) = Err content_decryption_failed"
proof -
  have laws: "aead_laws ae" using assms(1) by (simp add: keyring_crypto_def)
  obtain body env where t: "seal_with_nonce ae id_text destination (fst row) body nonce = Ok env" "rows' = map (\<lambda>r. if r = row then (fst row, env) else r) rows"
    using reseal_row_Ok [OF assms(8)] by blast
  have h: "header_parse env = Ok (sealed_header destination (fst row) body nonce)" by (rule aead_laws.seal_parses [OF laws t(1) assms(7)])
  obtain r st where r: "row_for_update keys to = Ok r" "state_from_db (kr_state r) = Some st" "is_unwrapped_at_load st"
    "open_row cr id_text cu r = Ok (cc_key destination)" "cc_data_key_id destination = kr_id r"
    using assms(3) by (auto simp: admin_cipher_for_def and_then_Ok_iff split: if_splits sum.splits)
  have "r = k" using row_for_update_Ok [OF r(1)] assms(4,5) kr_id_eq [OF assms(2)] by metis
  then have p: "purpose_from_db (kr_purpose r) = Some PurposeMemoryDedupe" "r \<in> set (fetch_rows keys)"
    using assms(4,6) r(2,3) by (auto simp: purpose_from_db_iff state_from_db_iff is_unwrapped_at_load_def)
  obtain a where a: "assemble_rows cr id_text cu (fetch_rows keys) \<lparr>as_by_id = [], as_content = None, as_dedupe = None\<rparr> = Ok a" "ks_by_id s = as_by_id a"
    using assms(10) unfolding assemble_Ok_iff by auto
  obtain e where "map_of (ks_by_id s) (kr_id r) = Some e" "ke_opened e = Some (opened_as PurposeMemoryDedupe (kr_id r) (cc_key destination))"
    using entry_of_row [OF a(1) distinct_fetch_rows [OF assms(2)] p(2,1) r(2-4)] a(2) by auto
  then have "open_content ae id_text (Some s) env (fst row) = Err content_decryption_failed"
    using h r(5) by (simp add: open_content_def open_with_snapshot_def sealed_header_def entry_cipher_def opened_as_def)
  then show ?thesis using t(2) assms(9) by auto
qed

section \<open>A reseal ends with nothing left\<close>

text \<open>The rows sealed under a key.\<close>

definition rows_under :: "uuid \<Rightarrow> sealed_row list \<Rightarrow> sealed_row list" where
  "rows_under uid rows = filter (\<lambda>(i, e). sql_envelope_data_key_id e = Some uid) rows"

text \<open>The rows all open under the texts, and are one per identity.\<close>

definition rows_ok :: "aead \<Rightarrow> crypto \<Rightarrow> (uuid \<Rightarrow> string) \<Rightarrow> custody \<Rightarrow> keyring_row list \<Rightarrow> (content_identity \<Rightarrow> string option) \<Rightarrow> sealed_row list \<Rightarrow> bool" where
  "rows_ok ae cr id_text cu keys written rows \<longleftrightarrow> distinct (map fst rows)
     \<and> (\<forall>row\<in>set rows. \<exists>body. written (fst row) = Some body \<and> row_readable ae cr id_text cu keys row body)"

lemma selected_rows:
  assumes "distinct (map fst rows)"
  shows "distinct (select_sealed_batch p uid b rows)" "set (select_sealed_batch p uid b rows) \<subseteq> set (rows_under uid rows)"
  using distinct_mapI [OF assms] by (auto simp: select_sealed_batch_def rows_under_def dest: in_set_takeD)

lemma sort_key_Nil [simp]: "sort_key f xs = [] \<longleftrightarrow> xs = []"
  by (metis set_empty set_sort)

lemma nothing_selected:
  assumes "\<forall>p\<in>set profile_ALL. select_sealed_batch p uid b rows = []" "0 < b"
  shows "rows_under uid rows = []"
proof -
  have "\<forall>(i, e)\<in>set rows. \<not> (identity_profile i = p \<and> sql_envelope_data_key_id e = Some uid)" if "p \<in> set profile_ALL" for p
    using assms that by (auto simp: select_sealed_batch_def filter_empty_conv)
  moreover have "identity_profile i \<in> set profile_ALL" for i by (cases i) (simp_all add: profile_ALL_def)
  ultimately show ?thesis unfolding rows_under_def filter_empty_conv by fastforce
qed

text \<open>A reseal from one openable key to another content key, with a cipher that does not refuse texts below the
  limit of the format.\<close>

locale reseal_run = keyring_crypto ae cu cr for ae cu cr +
  fixes id_text :: "uuid \<Rightarrow> string" and keys :: "keyring_row list" and "from" to :: uuid and source destination :: content_cipher
    and nonces :: "nat \<Rightarrow> string" and written :: "content_identity \<Rightarrow> string option"
  assumes keys: "keys_ok cr id_text cu keys" and source: "admin_cipher_for cr id_text cu keys from = Ok source"
    and destination: "admin_cipher_for cr id_text cu keys to = Ok destination"
    and content: "r \<in> set keys \<Longrightarrow> kr_id r = to \<Longrightarrow> kr_purpose r = PURPOSE_CONTENT"
    and differ: "from \<noteq> to" and nonces: "length (nonces n) = ENVELOPE_NONCE_LEN"
    and encrypts: "length m < 2 ^ 32 \<Longrightarrow> ae_encrypt ae k n' a m \<noteq> None"
begin

lemma source_opens:
  assumes "row_readable ae cr id_text cu keys row body" "sql_envelope_data_key_id (snd row) = Some from"
  shows "open_envelope ae id_text source (snd row) (fst row) = Ok body"
proof -
  obtain r dk where r: "r \<in> set keys" "content_key_row cr id_text cu r dk"
    "open_envelope ae id_text \<lparr>cc_data_key_id = kr_id r, cc_key = dk\<rparr> (snd row) (fst row) = Ok body"
    using assms(1) by (auto simp: row_readable_def)
  obtain h where h: "header_parse (snd row) = Ok h" "eh_data_key_id h = kr_id r" using open_envelope_names_key [OF r(3)] by auto
  then have id: "kr_id r = from" using parsed_sql_id [OF h(1)] assms(2) by simp
  obtain r' where r': "r' \<in> set keys" "kr_id r' = from" "cc_data_key_id source = from" "open_row cr id_text cu r' = Ok (cc_key source)"
    using admin_cipher_for_Ok [OF source] by auto
  have "r = r'" using kr_id_eq [OF _ r(1) r'(1)] keys id r'(2) by (simp add: keys_ok_def)
  then have "\<lparr>cc_data_key_id = kr_id r, cc_key = dk\<rparr> = source" using r(2) r'(3,4) id by (simp add: content_key_row_def)
  then show ?thesis using r(3) by simp
qed

lemma reseal_row_moves:
  assumes ok: "rows_ok ae cr id_text cu keys written rows" and row: "row \<in> set (rows_under from rows)"
  shows "\<exists>env. reseal_row ae id_text source destination (nonces n) row rows = Ok (1, map (\<lambda>r. if r = row then (fst row, env) else r) rows)
    \<and> sql_envelope_data_key_id env = Some to"
proof -
  have in_rows: "row \<in> set rows" "sql_envelope_data_key_id (snd row) = Some from" using row by (auto simp: rows_under_def)
  then obtain body where "row_readable ae cr id_text cu keys row body" using ok by (auto simp: rows_ok_def)
  then have op: "open_envelope ae id_text source (snd row) (fst row) = Ok body" using source_opens in_rows(2) by blast
  then have len: "length body + ENVELOPE_TAG_LEN < 2 ^ 32" using seal_open [OF op] by (auto simp: seal_Ok_iff)
  then obtain env where env: "seal_with_nonce ae id_text destination (fst row) body (nonces n) = Ok env"
    using encrypts [of body] unfolding seal_Ok_iff by fastforce
  have "sql_envelope_data_key_id env = Some to"
    using seal_names_key(2) [OF env nonces] admin_cipher_for_Ok [OF destination] by auto
  moreover have "length (filter (\<lambda>r. r = row) rows) = 1"
    using distinct_filter_one [of rows row] distinct_mapI [of fst rows] ok in_rows(1)
    by (cases "filter (\<lambda>r. r = row) rows") (auto simp: rows_ok_def filter_empty_conv)
  ultimately show ?thesis using op env by (cases row) (auto simp: reseal_row_def Let_def)
qed

lemma reseal_row_rows:
  assumes ok: "rows_ok ae cr id_text cu keys written rows" and row: "row \<in> set (rows_under from rows)"
    and moved: "reseal_row ae id_text source destination (nonces n) row rows = Ok (1, rows')"
    and rows': "rows' = map (\<lambda>r. if r = row then (fst row, env) else r) rows" and env: "sql_envelope_data_key_id env = Some to"
  shows "rows_ok ae cr id_text cu keys written rows'" "map fst rows' = map fst rows" "rows_under from rows' = filter (\<lambda>r. r \<noteq> row) (rows_under from rows)"
proof -
  show fsts: "map fst rows' = map fst rows" by (simp add: rows')
  have "\<exists>body. written (fst r) = Some body \<and> row_readable ae cr id_text cu keys r body" if "r \<in> set rows" for r
    using ok that by (simp add: rows_ok_def)
  from reseal_row_keeps [OF keys source destination content nonces moved this]
  show "rows_ok ae cr id_text cu keys written rows'" using ok fsts by (simp add: rows_ok_def)
  have "rows_under from (map (\<lambda>r. if r = row then (fst row, env) else r) rs) = filter (\<lambda>r. r \<noteq> row) (rows_under from rs)" for rs
    using env differ by (induction rs) (auto simp: rows_under_def)
  then show "rows_under from rows' = filter (\<lambda>r. r \<noteq> row) (rows_under from rows)" by (simp add: rows')
qed

lemma reseal_batch_moves:
  assumes "rows_ok ae cr id_text cu keys written rows" "distinct batch" "set batch \<subseteq> set (rows_under from rows)"
  shows "\<exists>report' rows'. reseal_batch ae id_text source destination nonces batch (report, rows) = Ok (report', rows')
    \<and> rows_ok ae cr id_text cu keys written rows' \<and> map fst rows' = map fst rows
    \<and> rp_resealed report' = rp_resealed report + length batch \<and> rp_skipped report' = rp_skipped report \<and> rp_batches report' = rp_batches report
    \<and> rows_under from rows' = filter (\<lambda>r. r \<notin> set batch) (rows_under from rows)"
  using assms
proof (induction batch arbitrary: report rows)
  case (Cons row batch)
  have row: "row \<in> set (rows_under from rows)" using Cons.prems(3) by simp
  obtain env where env: "reseal_row ae id_text source destination (nonces (rp_resealed report + rp_skipped report)) row rows
      = Ok (1, map (\<lambda>r. if r = row then (fst row, env) else r) rows)" "sql_envelope_data_key_id env = Some to"
    using reseal_row_moves [OF Cons.prems(1) row] by blast
  define rows1 where "rows1 = map (\<lambda>r. if r = row then (fst row, env) else r) rows"
  note step = reseal_row_rows [OF Cons.prems(1) row env(1) refl env(2), folded rows1_def]
  have sub: "set batch \<subseteq> set (rows_under from rows1)" using Cons.prems(2,3) by (auto simp: step(3))
  have "filter (\<lambda>r. r \<notin> set batch) (rows_under from rows1) = filter (\<lambda>r. r \<notin> set (row # batch)) (rows_under from rows)"
    unfolding step(3) filter_filter by (intro filter_cong) auto
  then show ?case
    using Cons.IH [OF step(1) _ sub, of "report\<lparr>rp_resealed := rp_resealed report + 1\<rparr>"] Cons.prems(2) step(2) env(1)
    by (auto simp: rows1_def [symmetric])
qed simp

lemma reseal_profiles_moves:
  assumes "rows_ok ae cr id_text cu keys written rows"
  shows "\<exists>report' rows'. reseal_profiles ae id_text source destination nonces from b ps (report, rows) = Ok (report', rows')
    \<and> rows_ok ae cr id_text cu keys written rows' \<and> map fst rows' = map fst rows
    \<and> rp_resealed report' + length (rows_under from rows') = rp_resealed report + length (rows_under from rows)
    \<and> rp_resealed report \<le> rp_resealed report'
    \<and> (rp_resealed report' = rp_resealed report \<longrightarrow> (\<forall>p\<in>set ps. select_sealed_batch p from b rows = []))"
  using assms
proof (induction ps arbitrary: report rows)
  case (Cons p ps)
  define batch where "batch = select_sealed_batch p from b rows"
  have sel: "distinct batch" "set batch \<subseteq> set (rows_under from rows)"
    unfolding batch_def using selected_rows Cons.prems by (simp_all add: rows_ok_def)
  obtain report1 rows1 where b: "reseal_batch ae id_text source destination nonces batch (report, rows) = Ok (report1, rows1)"
    "rows_ok ae cr id_text cu keys written rows1" "map fst rows1 = map fst rows" "rp_resealed report1 = rp_resealed report + length batch"
    "rows_under from rows1 = filter (\<lambda>r. r \<notin> set batch) (rows_under from rows)"
    using reseal_batch_moves [OF Cons.prems sel] by blast
  have dist: "distinct (rows_under from rows)"
    using Cons.prems distinct_mapI [of fst rows] by (simp add: rows_ok_def rows_under_def)
  have "length (filter (\<lambda>r. r \<in> set batch) (rows_under from rows)) = length batch"
    using dist sel by (metis Int_absorb2 distinct_card distinct_filter inf_commute set_filter Collect_conj_eq Collect_mem_eq)
  then have count: "length batch + length (rows_under from rows1) = length (rows_under from rows)"
    using sum_length_filter_compl [of "\<lambda>r. r \<in> set batch" "rows_under from rows"] by (simp add: b(5))
  have same: "reseal_batch ae id_text source destination nonces [] (report, rows) = Ok (report, rows)" by simp
  obtain report2 rows2 where c: "reseal_profiles ae id_text source destination nonces from b ps (report1, rows1) = Ok (report2, rows2)"
    "rows_ok ae cr id_text cu keys written rows2" "map fst rows2 = map fst rows1"
    "rp_resealed report2 + length (rows_under from rows2) = rp_resealed report1 + length (rows_under from rows1)"
    "rp_resealed report1 \<le> rp_resealed report2"
    "rp_resealed report2 = rp_resealed report1 \<longrightarrow> (\<forall>p\<in>set ps. select_sealed_batch p from b rows1 = [])"
    using Cons.IH [OF b(2)] by blast
  have "rows1 = rows" if "batch = []" using b(1) that by simp
  then have "rp_resealed report2 = rp_resealed report \<longrightarrow> (\<forall>q\<in>set (p # ps). select_sealed_batch q from b rows = [])"
    using b(4) c(5,6) by (auto simp: batch_def)
  then show ?case using b(1-4) c count by (simp add: batch_def)
qed simp

lemma reseal_passes_end:
  assumes "rows_ok ae cr id_text cu keys written rows" "length (rows_under from rows) < fuel" "0 < b"
  shows "\<exists>report' rows'. reseal_passes fuel ae id_text source destination nonces from b None (report, rows) = Some (Ok (report', rows'))
    \<and> rows_ok ae cr id_text cu keys written rows' \<and> map fst rows' = map fst rows \<and> rows_under from rows' = []
    \<and> rp_resealed report' = rp_resealed report + length (rows_under from rows)"
  using assms(1,2)
proof (induction fuel arbitrary: report rows)
  case (Suc fuel)
  obtain report1 rows1 where p: "reseal_profiles ae id_text source destination nonces from b profile_ALL (report, rows) = Ok (report1, rows1)"
    "rows_ok ae cr id_text cu keys written rows1" "map fst rows1 = map fst rows"
    "rp_resealed report1 + length (rows_under from rows1) = rp_resealed report + length (rows_under from rows)"
    "rp_resealed report \<le> rp_resealed report1"
    "rp_resealed report1 = rp_resealed report \<longrightarrow> (\<forall>p\<in>set profile_ALL. select_sealed_batch p from b rows = [])"
    using reseal_profiles_moves [OF Suc.prems(1)] by blast
  show ?case
  proof (cases "rp_resealed report1 = rp_resealed report")
    case True
    then have "rows_under from rows = []" using nothing_selected p(6) assms(3) by blast
    then show ?thesis using p True by (simp add: Let_def)
  next
    case False
    then have less: "length (rows_under from rows1) < fuel" using p(4,5) Suc.prems(2) by linarith
    from Suc.IH [OF p(2) this, of "report1\<lparr>rp_batches := rp_batches report1 + 1\<rparr>"] obtain report2 rows2 where
      q: "reseal_passes fuel ae id_text source destination nonces from b None (report1\<lparr>rp_batches := rp_batches report1 + 1\<rparr>, rows1) = Some (Ok (report2, rows2))"
      "rows_ok ae cr id_text cu keys written rows2" "map fst rows2 = map fst rows1" "rows_under from rows2 = []"
      "rp_resealed report2 = rp_resealed report1 + length (rows_under from rows1)" by auto
    have "reseal_passes (Suc fuel) ae id_text source destination nonces from b None (report, rows) = Some (Ok (report2, rows2))"
      using p(1,5) False q(1) by (simp add: Let_def)
    then show ?thesis using q p(3,4) by simp
  qed
qed simp

end

definition plain_keys :: "keyring_row list" where
  "plain_keys = concat (map (\<lambda>(version, uid, st).
     case mint_row plain_crypto plain_id plain_cu version PURPOSE_CONTENT st uid (replicate 32 CHR ''d'') (replicate 12 CHR ''n'') 0 of
       Ok r \<Rightarrow> [r] | Err _ \<Rightarrow> []) [(1, 1, ''retiring''), (2, 2, ''active'')])"

lemma plain_keys_rows:
  "\<exists>r1 r2. plain_keys = [r1, r2] \<and> keys_ok plain_crypto plain_id plain_cu [r1, r2] \<and> kr_id r1 = 1 \<and> kr_id r2 = 2
    \<and> content_key_row plain_crypto plain_id plain_cu r1 (replicate 32 CHR ''d'') \<and> content_key_row plain_crypto plain_id plain_cu r2 (replicate 32 CHR ''d'')"
proof -
  define dk where "dk = replicate 32 CHR ''d''"
  define nonce where "nonce = replicate 12 CHR ''n''"
  have len: "length dk = 32" "length nonce = WRAP_NONCE_LENGTH" by (simp_all add: dk_def nonce_def WRAP_NONCE_LENGTH_def)
  obtain r1 where r1: "mint_row plain_crypto plain_id plain_cu 1 (purpose_str PurposeContent) (state_str KeyRetiring) 1 dk nonce 0 = Ok r1"
    using plain_mints by blast
  obtain r2 where r2: "mint_row plain_crypto plain_id plain_cu 2 (purpose_str PurposeContent) (state_str KeyActive) 2 dk nonce 0 = Ok r2"
    using plain_mints by blast
  note o1 = plain_cu.mint_row_Ok [OF r1 len] plain_cu.mint_row_loads [OF r1 len plain_hmac_length]
  note o2 = plain_cu.mint_row_Ok [OF r2 len] plain_cu.mint_row_loads [OF r2 len plain_hmac_length]
  have "plain_keys = [r1, r2]" using r1 r2 by (simp add: plain_keys_def dk_def nonce_def)
  moreover have "keys_ok plain_crypto plain_id plain_cu [r1, r2]" using o1 o2 by (simp add: keys_ok_def active_for_def)
  moreover have "content_key_row plain_crypto plain_id plain_cu r1 (replicate 32 CHR ''d'')"
    "content_key_row plain_crypto plain_id plain_cu r2 (replicate 32 CHR ''d'')" using o1 o2 by (simp_all add: content_key_row_def dk_def)
  ultimately show ?thesis using o1(2) o2(2) by metis
qed

interpretation plain_reseal: reseal_run plain_aead plain_cu plain_crypto plain_id plain_keys 1 2
    "\<lparr>cc_data_key_id = 1, cc_key = replicate 32 CHR ''d''\<rparr>" "\<lparr>cc_data_key_id = 2, cc_key = replicate 32 CHR ''d''\<rparr>"
    "\<lambda>_. replicate 12 CHR ''n''" written for written
proof -
  obtain r1 r2 where k: "plain_keys = [r1, r2]" "keys_ok plain_crypto plain_id plain_cu [r1, r2]" "kr_id r1 = 1" "kr_id r2 = 2"
    "content_key_row plain_crypto plain_id plain_cu r1 (replicate 32 CHR ''d'')" "content_key_row plain_crypto plain_id plain_cu r2 (replicate 32 CHR ''d'')"
    using plain_keys_rows by blast
  show "reseal_run plain_aead plain_cu plain_crypto plain_id plain_keys 1 2
    \<lparr>cc_data_key_id = 1, cc_key = replicate 32 CHR ''d''\<rparr> \<lparr>cc_data_key_id = 2, cc_key = replicate 32 CHR ''d''\<rparr> (\<lambda>_. replicate 12 CHR ''n'')"
    unfolding k(1)
    using k(2-)
    by unfold_locales
      (auto simp: admin_cipher_for_def row_for_update_def content_key_row_alt purpose_from_db_iff row_state_def plain_aead_def ENVELOPE_NONCE_LEN_def)
qed

text \<open>C30: A reseal finishes its job. Given a key table that loads, two different keys that open, the target a content
  key, and rows (one per identity) that all open to their texts, \<open>reseal\<close> without a limit on batches returns
  after at most one pass more than there are rows under the source; then no row is under the source any
  more, the number of rows resealed is the number that were, the rows are the same and each opens to its
  text as before, and \<open>retire\<close> of the source is accepted unless it is the active key.\<close>

theorem reseal_completes:
  assumes "keyring_crypto ae cu cr" "keys_ok cr id_text cu keys" "from \<noteq> to"
    and "admin_cipher_for cr id_text cu keys from = Ok source" "admin_cipher_for cr id_text cu keys to = Ok destination"
    and "\<forall>r\<in>set keys. kr_id r = to \<longrightarrow> kr_purpose r = PURPOSE_CONTENT" "\<forall>n. length (nonces n) = ENVELOPE_NONCE_LEN"
    and "\<forall>k n a m. length m < 2 ^ 32 \<longrightarrow> ae_encrypt ae k n a m \<noteq> None"
    and "rows_ok ae cr id_text cu keys written rows" "length (rows_under from rows) < fuel"
  shows "\<exists>report rows'. reseal fuel cr ae id_text cu nonces from to \<lparr>ro_batch = batch, ro_max_batches = None\<rparr> keys rows = Some (Ok (report, rows'))
    \<and> rp_resealed report = length (rows_under from rows) \<and> rows_under from rows' = []
    \<and> map fst rows' = map fst rows \<and> rows_ok ae cr id_text cu keys written rows'
    \<and> (active_for PURPOSE_CONTENT (the (find (\<lambda>r. kr_id r = from) keys)) \<or> active_for PURPOSE_MEMORY_DEDUPE (the (find (\<lambda>r. kr_id r = from) keys))
       \<or> is_ok (retire from rows' keys))"
proof -
  have run: "reseal_run ae cu cr id_text keys from to source destination nonces"
    using assms unfolding reseal_run_def reseal_run_axioms_def by blast
  obtain report rows' where r: "reseal_passes fuel ae id_text source destination nonces from (max batch 1) None
      (\<lparr>rp_resealed = 0, rp_skipped = 0, rp_batches = 0\<rparr>, rows) = Some (Ok (report, rows'))"
    "rows_ok ae cr id_text cu keys written rows'" "map fst rows' = map fst rows" "rows_under from rows' = []" "rp_resealed report = length (rows_under from rows)"
    using reseal_run.reseal_passes_end [OF run assms(9,10), of "max batch 1" "\<lparr>rp_resealed = 0, rp_skipped = 0, rp_batches = 0\<rparr>"]
    by (auto simp: less_max_iff_disj)
  have reseal: "reseal fuel cr ae id_text cu nonces from to \<lparr>ro_batch = batch, ro_max_batches = None\<rparr> keys rows = Some (Ok (report, rows'))"
    using r(1) assms(3-5) by (simp add: reseal_def)
  have usage: "usage_total (usage_in rows' from) = 0" using r(4) by (simp add: usage_total_eq rows_under_def)
  obtain k st where k: "row_for_update keys from = Ok k" "state_from_db (kr_state k) = Some st"
    using assms(4) by (auto simp: admin_cipher_for_def and_then_Ok_iff)
  have "row_loads cr id_text cu k" using row_for_update_Ok [OF k(1)] assms(2) by (simp add: keys_ok_def)
  then obtain p where p: "purpose_from_db (kr_purpose k) = Some p" by (auto simp: row_loads_def)
  have find: "find (\<lambda>r. kr_id r = from) keys = Some k" using k(1) by (simp add: row_for_update_def split: option.splits)
  have "is_ok (retire from rows' keys)" if "st \<noteq> KeyActive"
    using k p usage that by (simp add: retire_def row_state_def row_purpose_def)
  moreover have "active_for (purpose_str p) k" if "st = KeyActive" using k(2) p that by (simp add: active_for_def state_from_db_iff purpose_from_db_iff)
  ultimately have "active_for PURPOSE_CONTENT k \<or> active_for PURPOSE_MEMORY_DEDUPE k \<or> is_ok (retire from rows' keys)"
    by (cases p) auto
  then show ?thesis using reseal r find by auto
qed

theorem reseal_completes_witness:
  "\<exists>env report rows'. rows_under 1 [(RagChunk 7 2 0, env)] \<noteq> [] \<and>
    reseal 2 plain_crypto plain_aead plain_id plain_cu (\<lambda>_. replicate 12 CHR ''n'') 1 2 \<lparr>ro_batch = 0, ro_max_batches = None\<rparr>
      plain_keys [(RagChunk 7 2 0, env)] = Some (Ok (report, rows')) \<and> rows_under 1 rows' = []"
proof -
  define c where "c = \<lparr>cc_data_key_id = 1, cc_key = replicate 32 CHR ''d''\<rparr>"
  obtain env where env: "seal_with_nonce plain_aead plain_id c (RagChunk 7 2 0) [] (replicate 12 CHR ''n'') = Ok env"
    by (simp add: seal_with_nonce_def plain_aead_def Let_def ENVELOPE_TAG_LEN_def)
  have n: "length (replicate 12 CHR ''n'') = ENVELOPE_NONCE_LEN" by (simp add: ENVELOPE_NONCE_LEN_def)
  have under: "rows_under 1 [(RagChunk 7 2 0, env)] = [(RagChunk 7 2 0, env)]"
    using plain.seal_names_key(2) [OF env n] by (simp add: rows_under_def c_def)
  obtain r1 r2 where k: "plain_keys = [r1, r2]" "kr_id r1 = 1" "content_key_row plain_crypto plain_id plain_cu r1 (replicate 32 CHR ''d'')"
    using plain_keys_rows by blast
  have "r1 \<in> set plain_keys" unfolding k(1) by simp
  then have "row_readable plain_aead plain_crypto plain_id plain_cu plain_keys (RagChunk 7 2 0, env) []"
    using plain_ring.sealed_readable [OF _ _ _ _ env n, of r1 plain_keys] k(2,3) by (simp add: c_def utf8_valid.simps)
  then have rows: "rows_ok plain_aead plain_crypto plain_id plain_cu plain_keys (\<lambda>_. Some []) [(RagChunk 7 2 0, env)]" by (simp add: rows_ok_def)
  have pre: "\<forall>r\<in>set plain_keys. kr_id r = 2 \<longrightarrow> kr_purpose r = PURPOSE_CONTENT" "\<forall>n. length (replicate 12 CHR ''n'') = ENVELOPE_NONCE_LEN"
    "\<forall>k n a m. length m < 2 ^ 32 \<longrightarrow> ae_encrypt plain_aead k n a m \<noteq> None"
    using plain_reseal.content n plain_reseal.encrypts by blast+
  have fuel: "length (rows_under 1 [(RagChunk 7 2 0, env)]) < 2" unfolding under by simp
  from reseal_completes [OF plain_ring.keyring_crypto_axioms plain_reseal.keys plain_reseal.differ plain_reseal.source plain_reseal.destination pre rows fuel, of 0]
  obtain report rows' where "reseal 2 plain_crypto plain_aead plain_id plain_cu (\<lambda>_. replicate 12 CHR ''n'') 1 2 \<lparr>ro_batch = 0, ro_max_batches = None\<rparr>
      plain_keys [(RagChunk 7 2 0, env)] = Some (Ok (report, rows'))" "rows_under 1 rows' = []" by blast
  moreover have "rows_under 1 [(RagChunk 7 2 0, env)] \<noteq> []" unfolding under by simp
  ultimately show ?thesis by blast
qed

end
