(* ===== verification/Authentication.thy ===== *)
theory Authentication
  imports Authz Ssrf Idempotency
begin

text \<open>
  Authentication of requests, \<open>src/src/security/auth.rs\<close> and \<open>src/src/security/api_keys.rs\<close>: API keys
  and their hashes, the cache of key sets, trusted JWT issuers, the actor a request is given on the admin and
  on the public plane, and the grants of admin identities. Argon2, the JWT library, the UUID and JSON
  parsers and the texts of their errors are parameters. A database call that fails ends the request with its
  error and is left out; metrics and log lines are left out too.
\<close>

section \<open>API keys\<close>

definition KEY_NAMESPACES :: "string list" where
  "KEY_NAMESPACES = [''moira_sys'', ''moira_cons'', ''moira_inv'']"

definition is_registered_key_namespace :: "string \<Rightarrow> bool" where
  "is_registered_key_namespace namespace \<longleftrightarrow> namespace \<in> set KEY_NAMESPACES"

definition MIN_RANDOM_PREFIX_CHARS :: nat where "MIN_RANDOM_PREFIX_CHARS = 8"

definition MIN_API_KEY_PREFIX_LENGTH :: nat where
  "MIN_API_KEY_PREFIX_LENGTH = foldl (\<lambda>longest n. max longest (length n)) 0 KEY_NAMESPACES + 1 + MIN_RANDOM_PREFIX_CHARS"

definition HISTORICAL_MINTED_M_COST_KIB :: nat where "HISTORICAL_MINTED_M_COST_KIB = 19456"

text \<open>Argon2: the default memory cost, the hash of a password under a salt, the memory cost of an encoded hash
  (or the text of the error), and the check of a password.\<close>

record argon2 =
  ar_default_m_cost :: nat
  ar_hash :: "string \<Rightarrow> string \<Rightarrow> string + string"
  ar_m_cost :: "string \<Rightarrow> string + nat"
  ar_verify :: "string \<Rightarrow> string \<Rightarrow> bool"

definition MAX_VERIFY_M_COST_KIB :: "argon2 \<Rightarrow> nat" where
  "MAX_VERIFY_M_COST_KIB ar =
     (if HISTORICAL_MINTED_M_COST_KIB < ar_default_m_cost ar then ar_default_m_cost ar else HISTORICAL_MINTED_M_COST_KIB)"

definition MAX_DERIVED_VERIFICATION_CONCURRENCY :: nat where "MAX_DERIVED_VERIFICATION_CONCURRENCY = 8"
definition MAX_VERIFICATION_CONCURRENCY :: nat where "MAX_VERIFICATION_CONCURRENCY = 64"
definition DEFAULT_VERIFICATION_QUEUE_TIMEOUT_MS :: nat where "DEFAULT_VERIFICATION_QUEUE_TIMEOUT_MS = 250"

definition clamp :: "nat \<Rightarrow> nat \<Rightarrow> nat \<Rightarrow> nat" where
  "clamp lo hi n = max lo (min hi n)"

definition default_verification_concurrency :: "nat option \<Rightarrow> nat" where
  "default_verification_concurrency parallelism =
     clamp 1 MAX_DERIVED_VERIFICATION_CONCURRENCY (case parallelism of Some n \<Rightarrow> n | None \<Rightarrow> 1)"

record api_key_hasher =
  ah_pepper :: string
  ah_pepper_version :: string
  ah_prefix_length :: nat
  ah_verification_concurrency :: nat
  ah_queue_timeout :: nat

definition ApiKeyHasher_new :: "nat option \<Rightarrow> string \<Rightarrow> string \<Rightarrow> nat \<Rightarrow> api_key_hasher" where
  "ApiKeyHasher_new parallelism pepper version prefix_length =
     \<lparr>ah_pepper = pepper, ah_pepper_version = version, ah_prefix_length = max prefix_length MIN_API_KEY_PREFIX_LENGTH,
      ah_verification_concurrency = default_verification_concurrency parallelism,
      ah_queue_timeout = DEFAULT_VERIFICATION_QUEUE_TIMEOUT_MS\<rparr>"

definition with_verification_gate :: "nat \<Rightarrow> nat \<Rightarrow> api_key_hasher \<Rightarrow> api_key_hasher" where
  "with_verification_gate concurrency queue_timeout h =
     h\<lparr>ah_verification_concurrency := clamp 1 MAX_VERIFICATION_CONCURRENCY concurrency, ah_queue_timeout := max queue_timeout 1\<rparr>"

definition peppered :: "crypto \<Rightarrow> api_key_hasher \<Rightarrow> string \<Rightarrow> string" where
  "peppered cr h raw_key = raw_key @ '':'' @ cr_encode cr (ah_pepper h)"

text \<open>Keys that are not ASCII have fewer characters than bytes; \<open>prefix_chars\<close> counts a byte that continues a
  character to the one before it.\<close>

fun prefix_chars :: "nat \<Rightarrow> string \<Rightarrow> string" where
  "prefix_chars n [] = []"
| "prefix_chars n (c # cs) =
     (if 0x80 \<le> (of_char c :: nat) \<and> (of_char c :: nat) < 0xC0 then c # prefix_chars n cs
      else if n = 0 then [] else c # prefix_chars (n - 1) cs)"

definition key_prefix :: "api_key_hasher \<Rightarrow> string \<Rightarrow> string" where
  "key_prefix h raw_key = prefix_chars (ah_prefix_length h) raw_key"

text \<open>What the gate and the blocking task answered.\<close>

datatype gate_answer = GateAcquired | GateClosed | GateTimeout | GateTaskFailed string

definition verification_overloaded :: app_error where
  "verification_overloaded = coded 503 ''auth_verification_overloaded'' ''credential hashing is at capacity on this instance; retry shortly''"

definition acquire_argon2_permit :: "gate_answer \<Rightarrow> app_error + unit" where
  "acquire_argon2_permit g =
     (case g of
        GateClosed \<Rightarrow> Err (Internal ''the api key verification gate is closed'')
      | GateTimeout \<Rightarrow> Err verification_overloaded
      | _ \<Rightarrow> Ok ())"

definition hasher_hash_key :: "crypto \<Rightarrow> argon2 \<Rightarrow> api_key_hasher \<Rightarrow> gate_answer \<Rightarrow> string \<Rightarrow> string \<Rightarrow> app_error + string" where
  "hasher_hash_key cr ar h g salt raw_key =
     and_then (acquire_argon2_permit g) (\<lambda>_.
       case g of
         GateTaskFailed err \<Rightarrow> Err (Internal (''hash api key task: '' @ err))
       | _ \<Rightarrow> (case ar_hash ar (peppered cr h raw_key) salt of
                 Err err \<Rightarrow> Err (Internal (''hash api key: '' @ err))
               | Ok encoded \<Rightarrow> Ok encoded))"

definition stored_m_cost_kib :: "argon2 \<Rightarrow> string \<Rightarrow> app_error + nat" where
  "stored_m_cost_kib ar encoded = (case ar_m_cost ar encoded of Err err \<Rightarrow> Err (Internal err) | Ok m \<Rightarrow> Ok m)"

definition hasher_verify_key :: "crypto \<Rightarrow> argon2 \<Rightarrow> api_key_hasher \<Rightarrow> gate_answer \<Rightarrow> string \<Rightarrow> string \<Rightarrow> app_error + bool" where
  "hasher_verify_key cr ar h g raw_key encoded =
     and_then (stored_m_cost_kib ar encoded) (\<lambda>m.
       if MAX_VERIFY_M_COST_KIB ar < m then Err (Internal ''stored api key hash requests too much Argon2 memory'')
       else and_then (acquire_argon2_permit g) (\<lambda>_.
         case g of
           GateTaskFailed err \<Rightarrow> Err (Internal (''verify api key task: '' @ err))
         | _ \<Rightarrow> Ok (ar_verify ar (peppered cr h raw_key) encoded)))"

record generated_api_key =
  gk_raw_key :: string
  gk_key_prefix :: string
  gk_key_hash :: string
  gk_fingerprint :: string
  gk_pepper_version :: string

definition generate_key :: "crypto \<Rightarrow> argon2 \<Rightarrow> api_key_hasher \<Rightarrow> gate_answer \<Rightarrow> string \<Rightarrow> string \<Rightarrow> string \<Rightarrow> app_error + generated_api_key" where
  "generate_key cr ar h g salt namespace random_bytes =
     (let raw_key = namespace @ ''_'' @ cr_encode cr random_bytes in
      and_then (hasher_hash_key cr ar h g salt raw_key) (\<lambda>key_hash.
        Ok \<lparr>gk_raw_key = raw_key, gk_key_prefix = key_prefix h raw_key, gk_key_hash = key_hash,
          gk_fingerprint = secret_fingerprint cr raw_key, gk_pepper_version = ah_pepper_version h\<rparr>))"

section \<open>Key tables\<close>

record api_key_row =
  ak_id :: uuid
  ak_application_id :: "uuid option"
  ak_key_prefix :: string
  ak_key_hash :: string
  ak_scopes :: "string list"
  ak_status :: string
  ak_expires_at :: "int option"
  ak_deleted :: bool
  ak_last_used_at :: "int option"

definition key_live :: "int \<Rightarrow> api_key_row \<Rightarrow> bool" where
  "key_live now r \<longleftrightarrow> \<not> ak_deleted r \<and> ak_status r = ''active'' \<and> (case ak_expires_at r of None \<Rightarrow> True | Some t \<Rightarrow> now < t)"

datatype key_table = SystemApiKeys | ConsumerApiKeys

definition key_actor :: "(uuid \<Rightarrow> string) \<Rightarrow> key_table \<Rightarrow> api_key_row \<Rightarrow> actor" where
  "key_actor id_text table r =
     default_actor\<lparr>actor_type := (case table of SystemApiKeys \<Rightarrow> SystemKey | ConsumerApiKeys \<Rightarrow> ConsumerKey),
       actor_subject := Some (id_text (ak_id r)),
       actor_internal_application_id := (case table of SystemApiKeys \<Rightarrow> None | ConsumerApiKeys \<Rightarrow> ak_application_id r),
       actor_api_key_id := Some (ak_id r), actor_scopes := ak_scopes r\<rparr>"

fun verify_rows ::
    "crypto \<Rightarrow> argon2 \<Rightarrow> api_key_hasher \<Rightarrow> (uuid \<Rightarrow> gate_answer) \<Rightarrow> string \<Rightarrow> api_key_row list \<Rightarrow> app_error + api_key_row" where
  "verify_rows cr ar h gates raw_key [] = Err (Unauthorized ''invalid api key'')"
| "verify_rows cr ar h gates raw_key (r # rs) =
     and_then (hasher_verify_key cr ar h (gates (ak_id r)) raw_key (ak_key_hash r)) (\<lambda>ok.
       if ok then Ok r else verify_rows cr ar h gates raw_key rs)"

text \<open>The actor of a key, and the table with \<open>last_used_at\<close> set.\<close>

definition verify_api_key ::
    "crypto \<Rightarrow> argon2 \<Rightarrow> (uuid \<Rightarrow> string) \<Rightarrow> api_key_hasher \<Rightarrow> (uuid \<Rightarrow> gate_answer) \<Rightarrow> int \<Rightarrow> key_table \<Rightarrow> string \<Rightarrow> api_key_row list \<Rightarrow>
     app_error + (actor \<times> api_key_row list)" where
  "verify_api_key cr ar id_text h gates now table raw_key rows =
     and_then (verify_rows cr ar h gates raw_key (filter (\<lambda>r. ak_key_prefix r = key_prefix h raw_key \<and> key_live now r) rows)) (\<lambda>r.
       Ok (key_actor id_text table r, map (\<lambda>r'. if ak_id r' = ak_id r then r'\<lparr>ak_last_used_at := Some now\<rparr> else r') rows))"

section \<open>The cache of key sets\<close>

datatype jwt_algorithm = HS256 | HS384 | HS512 | ES256 | ES384 | RS256 | RS384 | RS512 | PS256 | PS384 | PS512 | EdDSA

datatype key_algorithm = SignatureAlgorithm jwt_algorithm | OtherKeyAlgorithm

record jwk =
  jk_kid :: "string option"
  jk_algorithm :: "key_algorithm option"
  jk_material :: string

type_synonym jwk_set = "jwk list"

definition jwks_find :: "jwk_set \<Rightarrow> string \<Rightarrow> jwk option" where
  "jwks_find jwks kid = find (\<lambda>k. jk_kid k = Some kid) jwks"

text \<open>Instants are seconds.\<close>

definition JWKS_CACHE_TTL :: nat where "JWKS_CACHE_TTL = 300"

record cached_jwks =
  cj_jwks :: jwk_set
  cj_expires_at :: nat
  cj_stored_at :: nat

type_synonym jwks_cache = "(string, cached_jwks) hmap"

datatype jwks_outcome = LiveKeys jwk_set | StaleKeys jwk_set jwks_fetch_error

definition cache_fresh :: "nat \<Rightarrow> string \<Rightarrow> jwks_cache \<Rightarrow> jwk_set option" where
  "cache_fresh now url c = Option.bind (map_of c url) (\<lambda>e. if now < cj_expires_at e then Some (cj_jwks e) else None)"

definition cache_retained :: "nat \<Rightarrow> nat \<Rightarrow> string \<Rightarrow> jwks_cache \<Rightarrow> jwk_set option \<times> jwks_cache" where
  "cache_retained max_stale now url c =
     (case map_of c url of
        None \<Rightarrow> (None, c)
      | Some e \<Rightarrow> if now - cj_stored_at e \<le> max_stale then (Some (cj_jwks e), c) else (None, hm_remove url c))"

definition cache_store :: "nat \<Rightarrow> string \<Rightarrow> jwk_set \<Rightarrow> jwks_cache \<Rightarrow> jwks_cache" where
  "cache_store now url jwks c = hm_insert url \<lparr>cj_jwks = jwks, cj_expires_at = now + JWKS_CACHE_TTL, cj_stored_at = now\<rparr> c"

text \<open>The part of \<open>load\<close> under the lock of the URL: \<open>t1\<close> is the second look at the cache, \<open>t2\<close> the end of the fetch.\<close>

definition cache_load_locked :: "nat \<Rightarrow> nat \<Rightarrow> nat \<Rightarrow> (jwks_fetch_error + jwk_set) \<Rightarrow> string \<Rightarrow> jwks_cache \<Rightarrow> (jwks_fetch_error + jwks_outcome) \<times> jwks_cache" where
  "cache_load_locked max_stale t1 t2 fetched url c =
     (case cache_fresh t1 url c of
        Some jwks \<Rightarrow> (Ok (LiveKeys jwks), c)
      | None \<Rightarrow>
          (case fetched of
             Ok jwks \<Rightarrow> (Ok (LiveKeys jwks), cache_store t2 url jwks c)
           | Err failure \<Rightarrow>
               (case cache_retained max_stale t2 url c of
                  (Some jwks, c) \<Rightarrow> (Ok (StaleKeys jwks failure), c)
                | (None, c) \<Rightarrow> (Err failure, c))))"

definition cache_load ::
    "nat \<Rightarrow> nat \<Rightarrow> nat \<Rightarrow> nat \<Rightarrow> (jwks_fetch_error + jwk_set) \<Rightarrow> string \<Rightarrow> jwks_cache \<Rightarrow> jwks_cache \<Rightarrow>
     (jwks_fetch_error + jwks_outcome) \<times> jwks_cache" where
  "cache_load max_stale t0 t1 t2 fetched url c0 c =
     (case cache_fresh t0 url c0 of
        Some jwks \<Rightarrow> (Ok (LiveKeys jwks), c)
      | None \<Rightarrow> cache_load_locked max_stale t1 t2 fetched url c)"

definition cache_refresh :: "nat \<Rightarrow> (jwks_fetch_error + jwk_set) \<Rightarrow> string \<Rightarrow> jwks_cache \<Rightarrow> (jwks_fetch_error + jwk_set) \<times> jwks_cache" where
  "cache_refresh t fetched url c =
     (case fetched of Err failure \<Rightarrow> (Err failure, c) | Ok jwks \<Rightarrow> (Ok jwks, cache_store t url jwks c))"

text \<open>The keys a token is checked with; the audit entry of a refused fetch is left out.\<close>

definition resolve_jwks :: "(jwks_fetch_error + jwks_outcome) \<Rightarrow> app_error + jwk_set" where
  "resolve_jwks loaded =
     (case loaded of
        Ok (LiveKeys jwks) \<Rightarrow> Ok jwks
      | Ok (StaleKeys jwks _) \<Rightarrow> Ok jwks
      | Err failure \<Rightarrow> Err (into_unauthorized failure))"

section \<open>Headers and claims\<close>

text \<open>A header has a value as text, or one that is not visible ASCII.\<close>

datatype header_value = HeaderText string | HeaderOpaque

type_synonym header_map = "string \<Rightarrow> header_value option"

definition header_string :: "header_map \<Rightarrow> string \<Rightarrow> string option" where
  "header_string headers name = (case headers name of Some (HeaderText v) \<Rightarrow> Some v | _ \<Rightarrow> None)"

definition strip_prefix :: "string \<Rightarrow> string \<Rightarrow> string option" where
  "strip_prefix p s = (if take (length p) s = p then Some (drop (length p) s) else None)"

definition optional_bearer_token :: "header_map \<Rightarrow> app_error + string option" where
  "optional_bearer_token headers =
     (case headers ''authorization'' of
        None \<Rightarrow> Ok None
      | Some HeaderOpaque \<Rightarrow> Err (Unauthorized ''invalid Authorization header'')
      | Some (HeaderText v) \<Rightarrow>
          (case strip_prefix ''Bearer '' v of
             Some token \<Rightarrow> Ok (Some token)
           | None \<Rightarrow> Err (Unauthorized ''Authorization must use Bearer token'')))"

definition bearer_token :: "header_map \<Rightarrow> app_error + string" where
  "bearer_token headers =
     and_then (optional_bearer_token headers) (\<lambda>t.
       case t of Some token \<Rightarrow> Ok token | None \<Rightarrow> Err (Unauthorized ''missing Authorization header''))"

definition claim_get :: "json \<Rightarrow> string \<Rightarrow> json option" where
  "claim_get claims name = (case claims of JObject members \<Rightarrow> map_of members name | _ \<Rightarrow> None)"

definition claim_string :: "json \<Rightarrow> string \<Rightarrow> string option" where
  "claim_string claims name = (case claim_get claims name of Some (JString v) \<Rightarrow> if v = [] then None else Some v | _ \<Rightarrow> None)"

fun take_word :: "string \<Rightarrow> string \<times> string" where
  "take_word [] = ([], [])"
| "take_word (c # cs) =
     (if strip_one white_space (c # cs) \<noteq> None then ([], c # cs) else (let (w, rest) = take_word cs in (c # w, rest)))"

lemma take_word_split: "take_word s = (w, rest) \<Longrightarrow> s = w @ rest"
  by (induction s arbitrary: w) (auto split: if_splits prod.splits)

lemma take_word_shorter: "strip_one white_space s = None \<Longrightarrow> s \<noteq> [] \<Longrightarrow> length (snd (take_word s)) < length s"
  using take_word_split by (cases s) (fastforce split: prod.splits)+

function str_split_whitespace :: "string \<Rightarrow> string list" where
  "str_split_whitespace s =
     (let t = strip_start white_space s in if t = [] then [] else fst (take_word t) # str_split_whitespace (snd (take_word t)))"
  by auto
termination
proof (relation "measure length")
  fix s t assume t: "t = strip_start white_space s" "t \<noteq> []"
  then have "length (snd (take_word t)) < length t" using take_word_shorter strip_start_stripped by blast
  moreover have "length t \<le> length s" using strip_start_suffix [of s white_space] t(1) by (metis le_add2 length_append)
  ultimately show "(snd (take_word t), s) \<in> measure length" by simp
qed simp

declare str_split_whitespace.simps [simp del]

definition claim_strings :: "json \<Rightarrow> string \<Rightarrow> string list" where
  "claim_strings claims name =
     (case claim_get claims name of
        Some (JString v) \<Rightarrow> filter (\<lambda>w. w \<noteq> []) (str_split_whitespace v)
      | Some (JArray vs) \<Rightarrow> filter (\<lambda>w. w \<noteq> []) (concat (map (\<lambda>v. case v of JString w \<Rightarrow> [w] | _ \<Rightarrow> []) vs))
      | _ \<Rightarrow> [])"

definition application_id_claim :: "json \<Rightarrow> string \<Rightarrow> app_error + string option" where
  "application_id_claim claims name =
     (case claim_get claims name of
        None \<Rightarrow> Ok None
      | Some JNull \<Rightarrow> Ok None
      | Some (JString v) \<Rightarrow>
          if v \<noteq> [] then Ok (Some v) else Err (Unauthorized ''trusted JWT application identifier must be a non-empty UUID string'')
      | Some _ \<Rightarrow> Err (Unauthorized ''trusted JWT application identifier must be a non-empty UUID string''))"

section \<open>Tokens\<close>

record jwt_validation =
  va_algorithms :: "jwt_algorithm list"
  va_leeway :: nat
  va_issuers :: "string list option"
  va_audiences :: "string list option"
  va_validate_aud :: bool
  va_required :: "string list"

record static_claims =
  sc_sub :: "string option"
  sc_tenant_id :: "string option"
  sc_application_id :: "string option"
  sc_roles :: "string list option"
  sc_scope :: "string option"
  sc_scp :: "string list option"

text \<open>The JWT library and the parsers: the header of a token (algorithm and key id), the key of a JWK, the claims of
  a token that passes the checks, the same for claims of a fixed shape, UUIDs, JSON, and the text of the base64 decoder's
  error on a string it refuses.\<close>

record jwt_lib =
  jl_decode_header :: "string \<Rightarrow> string + (jwt_algorithm \<times> string option)"
  jl_from_jwk :: "jwk \<Rightarrow> string + string"
  jl_decode :: "string \<Rightarrow> string \<Rightarrow> jwt_validation \<Rightarrow> string + json"
  jl_decode_static :: "string \<Rightarrow> string \<Rightarrow> jwt_validation \<Rightarrow> string + static_claims"
  jl_parse_uuid :: "string \<Rightarrow> uuid option"
  jl_parse_json :: "string \<Rightarrow> string + json"
  jl_base64_error :: "string \<Rightarrow> string"

fun algorithm_name :: "jwt_algorithm \<Rightarrow> string" where
  "algorithm_name HS256 = ''HS256''"
| "algorithm_name HS384 = ''HS384''"
| "algorithm_name HS512 = ''HS512''"
| "algorithm_name ES256 = ''ES256''"
| "algorithm_name ES384 = ''ES384''"
| "algorithm_name RS256 = ''RS256''"
| "algorithm_name RS384 = ''RS384''"
| "algorithm_name RS512 = ''RS512''"
| "algorithm_name PS256 = ''PS256''"
| "algorithm_name PS384 = ''PS384''"
| "algorithm_name PS512 = ''PS512''"
| "algorithm_name EdDSA = ''EdDSA''"

definition algorithm_from_name :: "string \<Rightarrow> app_error + jwt_algorithm" where
  "algorithm_from_name name =
     (case find (\<lambda>a. algorithm_name a = name) [RS256, RS384, RS512, PS256, PS384, PS512, ES256, ES384, EdDSA] of
        Some a \<Rightarrow> Ok a
      | None \<Rightarrow> Err (Unauthorized ''JWT algorithm is not supported''))"

definition algorithm_from_jwk :: "key_algorithm option \<Rightarrow> jwt_algorithm" where
  "algorithm_from_jwk a =
     (case a of
        Some (SignatureAlgorithm s) \<Rightarrow> if s \<in> {HS256, HS384, HS512} then RS256 else s
      | _ \<Rightarrow> RS256)"

definition base_validation :: "jwt_algorithm \<Rightarrow> jwt_validation" where
  "base_validation a =
     \<lparr>va_algorithms = [a], va_leeway = 60, va_issuers = None, va_audiences = None, va_validate_aud = True, va_required = [''exp'']\<rparr>"

record trusted_issuer =
  ti_id :: uuid
  ti_issuer :: string
  ti_jwks_url :: string
  ti_expected_audiences :: "string list"
  ti_allowed_algorithms :: "string list"
  ti_subject_claim :: string
  ti_user_id_claim :: "string option"
  ti_tenant_id_claim :: "string option"
  ti_application_id_claim :: "string option"
  ti_roles_claim :: "string option"
  ti_scopes_claim :: "string option"
  ti_delegated_user_claim :: "string option"
  ti_delegated_tenant_claim :: "string option"
  ti_clock_skew_seconds :: int
  ti_allow_delegation :: bool
  ti_status :: string
  ti_deleted :: bool

definition load_issuer :: "trusted_issuer list \<Rightarrow> string \<Rightarrow> app_error + trusted_issuer" where
  "load_issuer issuers iss =
     (case find (\<lambda>t. ti_issuer t = iss \<and> ti_status t = ''active'' \<and> \<not> ti_deleted t) issuers of
        None \<Rightarrow> Err (Unauthorized ''unknown or disabled JWT issuer'')
      | Some t \<Rightarrow> Ok t)"

definition trusted_jwt_validation :: "trusted_issuer \<Rightarrow> jwt_algorithm \<Rightarrow> app_error + jwt_validation" where
  "trusted_jwt_validation t a =
     (if algorithm_name a \<notin> set (ti_allowed_algorithms t) then Err (Unauthorized ''JWT algorithm is not allowed for issuer'')
      else
        let v = (base_validation a)\<lparr>va_leeway := nat (max (ti_clock_skew_seconds t) 0), va_issuers := Some [ti_issuer t]\<rparr> in
        if ti_expected_audiences t = [] then Ok (v\<lparr>va_validate_aud := False\<rparr>)
        else Ok (v\<lparr>va_audiences := Some (ti_expected_audiences t), va_required := [''exp'', ''aud'']\<rparr>))"

fun split_dot :: "string \<Rightarrow> string list" where
  "split_dot [] = [[]]"
| "split_dot (c # cs) =
     (if c = CHR ''.'' then [] # split_dot cs else (case split_dot cs of [] \<Rightarrow> [[c]] | w # ws \<Rightarrow> (c # w) # ws))"

definition unverified_claims :: "crypto \<Rightarrow> jwt_lib \<Rightarrow> string \<Rightarrow> app_error + json" where
  "unverified_claims cr jl token =
     (case split_dot token of
        _ # payload # _ \<Rightarrow>
          (case cr_decode cr payload of
             None \<Rightarrow> Err (Unauthorized (''invalid JWT payload: '' @ jl_base64_error jl payload))
           | Some bytes \<Rightarrow> (case jl_parse_json jl bytes of Err err \<Rightarrow> Err (Unauthorized (''invalid JWT claims: '' @ err)) | Ok v \<Rightarrow> Ok v))
      | _ \<Rightarrow> Err (Unauthorized ''JWT payload segment is missing''))"

definition parse_application_id :: "jwt_lib \<Rightarrow> string option \<Rightarrow> app_error + uuid option" where
  "parse_application_id jl v =
     (case v of
        None \<Rightarrow> Ok None
      | Some s \<Rightarrow> (case jl_parse_uuid jl s of
                    None \<Rightarrow> Err (Unauthorized ''trusted JWT application identifier must be a valid UUID'')
                  | Some u \<Rightarrow> Ok (Some u)))"

section \<open>Actors\<close>

definition or_else :: "'a option \<Rightarrow> 'a option \<Rightarrow> 'a option" where
  "or_else a b = (case a of None \<Rightarrow> b | Some x \<Rightarrow> Some x)"

definition actor_from_trusted_claims :: "jwt_lib \<Rightarrow> trusted_issuer \<Rightarrow> json \<Rightarrow> app_error + actor" where
  "actor_from_trusted_claims jl t claims =
     (let scopes = claim_strings claims (case ti_scopes_claim t of Some c \<Rightarrow> c | None \<Rightarrow> ''scope'');
          scopes = scopes @ (if ti_scopes_claim t \<noteq> Some ''scp'' then claim_strings claims ''scp'' else []);
          scopes = remdups_adj (sort scopes)
      in case claim_string claims (ti_subject_claim t) of
           None \<Rightarrow> Err (Unauthorized (''trusted JWT subject claim '' @ [CHR 0x27] @ ti_subject_claim t @ [CHR 0x27] @ '' is required''))
         | Some subject \<Rightarrow>
             let external_user_id = or_else (Option.bind (ti_user_id_claim t) (claim_string claims)) (Some subject);
                 external_tenant_id = Option.bind (ti_tenant_id_claim t) (claim_string claims)
             in
             and_then (case ti_application_id_claim t of Some c \<Rightarrow> application_id_claim claims c | None \<Rightarrow> Ok None) (\<lambda>application_id.
             and_then (parse_application_id jl application_id) (\<lambda>internal_application_id.
               let delegated_user = Option.bind (ti_delegated_user_claim t) (claim_string claims);
                   delegated_tenant = Option.bind (ti_delegated_tenant_claim t) (claim_string claims)
               in
               if (delegated_user \<noteq> None \<or> delegated_tenant \<noteq> None) \<and> (\<not> ti_allow_delegation t \<or> ''moira:identity:delegate'' \<notin> set scopes)
               then Err (Forbidden ''delegated identity requires issuer delegation and moira:identity:delegate'')
               else
                 Ok \<lparr>actor_type = TrustedJwt, actor_subject = Some subject,
                   actor_tenant_id = or_else delegated_tenant external_tenant_id, actor_application_id = application_id,
                   actor_external_user_id = or_else delegated_user external_user_id,
                   actor_external_tenant_id = or_else delegated_tenant external_tenant_id,
                   actor_internal_application_id = internal_application_id, actor_delegated_subject = delegated_user,
                   actor_roles = (case ti_roles_claim t of Some c \<Rightarrow> claim_strings claims c | None \<Rightarrow> []), actor_scopes = scopes,
                   actor_trusted_jwt_issuer_id = Some (ti_id t), actor_api_key_id = None\<rparr>)))"

definition actor_from_static_claims :: "jwt_lib \<Rightarrow> static_claims \<Rightarrow> app_error + actor" where
  "actor_from_static_claims jl c =
     (let scopes = (case sc_scope c of Some v \<Rightarrow> str_split_whitespace v | None \<Rightarrow> []) @ (case sc_scp c of Some vs \<Rightarrow> vs | None \<Rightarrow> []) in
      case sc_sub c of
        None \<Rightarrow> Err (Unauthorized ''trusted JWT subject claim is required'')
      | Some subject \<Rightarrow>
          and_then (parse_application_id jl (sc_application_id c)) (\<lambda>internal_application_id.
            Ok (default_actor\<lparr>actor_type := TrustedJwt, actor_subject := Some subject, actor_tenant_id := sc_tenant_id c,
              actor_application_id := sc_application_id c, actor_external_user_id := Some subject, actor_external_tenant_id := sc_tenant_id c,
              actor_internal_application_id := internal_application_id,
              actor_roles := (case sc_roles c of Some rs \<Rightarrow> rs | None \<Rightarrow> []), actor_scopes := scopes\<rparr>)))"

definition actor_from_trusted_headers :: "jwt_lib \<Rightarrow> header_map \<Rightarrow> app_error + actor" where
  "actor_from_trusted_headers jl headers =
     (let subject = header_string headers ''x-moira-user-id'';
          tenant_id = header_string headers ''x-moira-tenant-id'';
          application_id = header_string headers ''x-moira-application-id''
      in and_then (parse_application_id jl application_id) (\<lambda>internal_application_id.
           Ok (default_actor\<lparr>actor_type := TrustedJwt, actor_subject := subject, actor_tenant_id := tenant_id,
             actor_application_id := application_id, actor_external_user_id := subject, actor_external_tenant_id := tenant_id,
             actor_internal_application_id := internal_application_id\<rparr>)))"

definition combine_consumer_and_jwt :: "(uuid \<Rightarrow> string) \<Rightarrow> actor \<Rightarrow> actor \<Rightarrow> app_error + actor" where
  "combine_consumer_and_jwt id_text consumer jwt =
     (case actor_internal_application_id consumer of
        None \<Rightarrow> Err (Unauthorized ''consumer key is not application-bound'')
      | Some application_id \<Rightarrow>
          if (case actor_internal_application_id jwt of Some j \<Rightarrow> j \<noteq> application_id | None \<Rightarrow> False)
          then Err (Unauthorized ''consumer key application conflicts with JWT application'')
          else
            let scopes = remdups_adj (sort (filter (\<lambda>s. s \<in> set (actor_scopes jwt)) (filter (\<lambda>s. s \<noteq> ''moira:admin'') (actor_scopes consumer))))
            in Ok \<lparr>actor_type = ConsumerKey, actor_subject = actor_subject jwt, actor_tenant_id = actor_tenant_id jwt,
                 actor_application_id = Some (id_text application_id),
                 actor_external_user_id = or_else (actor_external_user_id jwt) (actor_subject jwt),
                 actor_external_tenant_id = or_else (actor_external_tenant_id jwt) (actor_tenant_id jwt),
                 actor_internal_application_id = Some application_id, actor_delegated_subject = actor_delegated_subject jwt,
                 actor_roles = actor_roles jwt, actor_scopes = scopes,
                 actor_trusted_jwt_issuer_id = actor_trusted_jwt_issuer_id jwt, actor_api_key_id = actor_api_key_id consumer\<rparr>)"

section \<open>Requests\<close>

record identity_grant =
  ig_issuer :: string
  ig_subject :: string
  ig_granted_scopes :: "string list"
  ig_status :: string
  ig_deleted :: bool

record auth_db =
  ad_system_keys :: "api_key_row list"
  ad_consumer_keys :: "api_key_row list"
  ad_issuers :: "trusted_issuer list"
  ad_grants :: "identity_grant list"

record jwt_auth_settings =
  ja_enabled :: bool
  ja_jwks_url :: "string option"
  ja_issuer :: "string option"
  ja_audience :: "string option"
  ja_required_scope :: "string option"
  ja_leeway_seconds :: nat

record caller_auth_settings =
  ca_enabled :: bool
  ca_jwks_url :: "string option"
  ca_issuer :: "string option"
  ca_audience :: "string option"
  ca_leeway_seconds :: nat
  ca_dev_trust_headers :: bool

text \<open>The service with its libraries; \<open>ev_loaded\<close> is what the cache answers for a URL, \<open>ev_gates\<close> what the gate answers for the
  check of a row.\<close>

record auth_env =
  ev_crypto :: crypto
  ev_argon2 :: argon2
  ev_id_text :: "uuid \<Rightarrow> string"
  ev_jwt :: jwt_lib
  ev_hasher :: api_key_hasher
  ev_admin_settings :: jwt_auth_settings
  ev_caller_settings :: caller_auth_settings
  ev_gates :: "uuid \<Rightarrow> gate_answer"
  ev_now :: int
  ev_loaded :: "string \<Rightarrow> jwks_fetch_error + jwks_outcome"

text \<open>The end of \<open>authenticate_trusted_jwt_with_issuer\<close>, once the keys of the issuer are there.\<close>

definition decode_with_keys :: "auth_env \<Rightarrow> string \<Rightarrow> trusted_issuer \<Rightarrow> jwt_validation \<Rightarrow> string \<Rightarrow> jwk_set \<Rightarrow> app_error + (actor \<times> string)" where
  "decode_with_keys ev token t v key_id jwks =
     (case jwks_find jwks key_id of
        None \<Rightarrow> Err (Unauthorized ''no matching JWKS key'')
      | Some jwk \<Rightarrow>
          (case jl_from_jwk (ev_jwt ev) jwk of
             Err err \<Rightarrow> Err (Unauthorized (''invalid jwk: '' @ err))
           | Ok key \<Rightarrow>
               (case jl_decode (ev_jwt ev) token key v of
                  Err err \<Rightarrow> Err (Unauthorized err)
                | Ok claims \<Rightarrow> and_then (actor_from_trusted_claims (ev_jwt ev) t claims) (\<lambda>a. Ok (a, ti_issuer t)))))"

definition authenticate_trusted_jwt_with_issuer :: "auth_env \<Rightarrow> trusted_issuer list \<Rightarrow> string \<Rightarrow> app_error + (actor \<times> string)" where
  "authenticate_trusted_jwt_with_issuer ev issuers token =
     (let jl = ev_jwt ev in
      case jl_decode_header jl token of
        Err err \<Rightarrow> Err (Unauthorized err)
      | Ok (alg, None) \<Rightarrow> Err (Unauthorized ''JWT kid header is required'')
      | Ok (alg, Some key_id) \<Rightarrow>
          and_then (unverified_claims (ev_crypto ev) jl token) (\<lambda>unverified.
          case claim_string unverified ''iss'' of
            None \<Rightarrow> Err (Unauthorized ''JWT iss claim is required'')
          | Some iss \<Rightarrow>
              and_then (load_issuer issuers iss) (\<lambda>t.
              and_then (algorithm_from_name (algorithm_name alg)) (\<lambda>alg.
              and_then (trusted_jwt_validation t alg) (\<lambda>v.
              and_then (resolve_jwks (ev_loaded ev (ti_jwks_url t))) (decode_with_keys ev token t v key_id))))))"

definition find_active_grant :: "identity_grant list \<Rightarrow> string \<Rightarrow> string \<Rightarrow> identity_grant option" where
  "find_active_grant grants iss subject =
     find (\<lambda>g. ig_issuer g = iss \<and> ig_subject g = subject \<and> \<not> ig_deleted g \<and> ig_status g = ''active'') grants"

definition union_granted_scopes :: "actor \<Rightarrow> string list \<Rightarrow> actor" where
  "union_granted_scopes a granted = a\<lparr>actor_scopes := remdups_adj (sort (actor_scopes a @ granted))\<rparr>"

definition apply_admin_identity_grant :: "identity_grant list \<Rightarrow> string \<Rightarrow> actor \<Rightarrow> actor" where
  "apply_admin_identity_grant grants iss a =
     (case actor_subject a of
        None \<Rightarrow> a
      | Some subject \<Rightarrow>
          (case find_active_grant grants iss subject of
             None \<Rightarrow> a
           | Some g \<Rightarrow> union_granted_scopes a (ig_granted_scopes g)))"

definition authenticate_key :: "auth_env \<Rightarrow> key_table \<Rightarrow> string \<Rightarrow> auth_db \<Rightarrow> (app_error + actor) \<times> auth_db" where
  "authenticate_key ev table raw_key db =
     (case verify_api_key (ev_crypto ev) (ev_argon2 ev) (ev_id_text ev) (ev_hasher ev) (ev_gates ev) (ev_now ev) table raw_key
             (case table of SystemApiKeys \<Rightarrow> ad_system_keys db | ConsumerApiKeys \<Rightarrow> ad_consumer_keys db) of
        Err e \<Rightarrow> (Err e, db)
      | Ok (a, rows) \<Rightarrow>
          (Ok a, case table of SystemApiKeys \<Rightarrow> db\<lparr>ad_system_keys := rows\<rparr> | ConsumerApiKeys \<Rightarrow> db\<lparr>ad_consumer_keys := rows\<rparr>))"

definition dev_admin :: actor where
  "dev_admin = default_actor\<lparr>actor_type := DevAdmin, actor_subject := Some ''dev-admin'', actor_scopes := [''moira:admin'', ''moira.admin'']\<rparr>"

definition authenticate_admin_with_issuer :: "auth_env \<Rightarrow> header_map \<Rightarrow> auth_db \<Rightarrow> (app_error + (actor \<times> string option)) \<times> auth_db" where
  "authenticate_admin_with_issuer ev headers db =
     (case optional_bearer_token headers of
        Err e \<Rightarrow> (Err e, db)
      | Ok token \<Rightarrow>
          let system_key = header_string headers ''x-moira-system-key'';
              consumer_key = header_string headers ''x-consumer-key'';
              supplied = of_bool (token \<noteq> None) + of_bool (system_key \<noteq> None) + of_bool (consumer_key \<noteq> None)
          in
          if 1 < (supplied :: nat) then (Err (Unauthorized ''conflicting authentication credentials''), db)
          else (case token of
             Some token \<Rightarrow>
               (case authenticate_trusted_jwt_with_issuer ev (ad_issuers db) token of
                  Err e \<Rightarrow> (Err e, db)
                | Ok (a, iss) \<Rightarrow> (Ok (apply_admin_identity_grant (ad_grants db) iss a, Some iss), db))
           | None \<Rightarrow>
               (case system_key of
                  Some raw_key \<Rightarrow> (case authenticate_key ev SystemApiKeys raw_key db of (r, db) \<Rightarrow> (map_sum (\<lambda>e. e) (\<lambda>a. (a, None)) r, db))
                | None \<Rightarrow>
                    (case consumer_key of
                       Some raw_key \<Rightarrow> (case authenticate_key ev ConsumerApiKeys raw_key db of (r, db) \<Rightarrow> (map_sum (\<lambda>e. e) (\<lambda>a. (a, None)) r, db))
                     | None \<Rightarrow>
                         if \<not> ja_enabled (ev_admin_settings ev) then (Ok (dev_admin, None), db)
                         else (Err (Unauthorized ''missing bearer token or api key''), db)))))"

definition authenticate_admin :: "auth_env \<Rightarrow> header_map \<Rightarrow> auth_db \<Rightarrow> (app_error + actor) \<times> auth_db" where
  "authenticate_admin ev headers db = (case authenticate_admin_with_issuer ev headers db of (r, db) \<Rightarrow> (map_sum (\<lambda>e. e) fst r, db))"

record trusted_jwt_identity =
  tj_issuer :: string
  tj_subject :: string

definition invitee_token_required :: app_error where
  "invitee_token_required = Unauthorized (''redeeming an invitation requires the invitee'' @ [CHR 0x27] @ ''s own bearer token'')"

definition verify_trusted_jwt_identity :: "auth_env \<Rightarrow> header_map \<Rightarrow> auth_db \<Rightarrow> app_error + trusted_jwt_identity" where
  "verify_trusted_jwt_identity ev headers db =
     (if header_string headers ''x-moira-system-key'' \<noteq> None \<or> header_string headers ''x-consumer-key'' \<noteq> None
      then Err invitee_token_required
      else and_then (optional_bearer_token headers) (\<lambda>token.
        case token of
          None \<Rightarrow> Err invitee_token_required
        | Some token \<Rightarrow>
            and_then (authenticate_trusted_jwt_with_issuer ev (ad_issuers db) token) (\<lambda>(a, iss).
              case actor_subject a of
                None \<Rightarrow> Err (Unauthorized ''trusted JWT subject claim is required'')
              | Some subject \<Rightarrow> Ok \<lparr>tj_issuer = iss, tj_subject = subject\<rparr>)))"

definition authenticate_trusted_jwt :: "auth_env \<Rightarrow> trusted_issuer list \<Rightarrow> string \<Rightarrow> app_error + actor" where
  "authenticate_trusted_jwt ev issuers token = map_sum (\<lambda>e. e) fst (authenticate_trusted_jwt_with_issuer ev issuers token)"

definition authenticate_caller :: "auth_env \<Rightarrow> header_map \<Rightarrow> auth_db \<Rightarrow> (app_error + actor) \<times> auth_db" where
  "authenticate_caller ev headers db =
     (case optional_bearer_token headers of
        Err e \<Rightarrow> (Err e, db)
      | Ok token \<Rightarrow>
          let consumer_key = header_string headers ''x-consumer-key'';
              system_key = header_string headers ''x-moira-system-key''
          in
          if system_key \<noteq> None \<and> (consumer_key \<noteq> None \<or> token \<noteq> None)
          then (Err (Unauthorized ''system key cannot be combined with public caller credentials''), db)
          else (case (system_key, consumer_key, token) of
             (Some raw_key, _, _) \<Rightarrow> authenticate_key ev SystemApiKeys raw_key db
           | (None, Some raw_key, Some token) \<Rightarrow>
               (case authenticate_key ev ConsumerApiKeys raw_key db of
                  (Err e, db) \<Rightarrow> (Err e, db)
                | (Ok consumer, db) \<Rightarrow>
                    (and_then (authenticate_trusted_jwt ev (ad_issuers db) token) (combine_consumer_and_jwt (ev_id_text ev) consumer), db))
           | (None, Some raw_key, None) \<Rightarrow> authenticate_key ev ConsumerApiKeys raw_key db
           | (None, None, Some token) \<Rightarrow> (authenticate_trusted_jwt ev (ad_issuers db) token, db)
           | (None, None, None) \<Rightarrow>
               let fallback = (if \<not> ca_enabled (ev_caller_settings ev) then Ok default_actor
                               else Err (Unauthorized ''missing bearer token or consumer key''))
               in
               if ca_dev_trust_headers (ev_caller_settings ev) then
                 (case actor_from_trusted_headers (ev_jwt ev) headers of
                    Err e \<Rightarrow> (Err e, db)
                  | Ok a \<Rightarrow>
                      if actor_subject a \<noteq> None \<or> actor_tenant_id a \<noteq> None \<or> actor_application_id a \<noteq> None then (Ok a, db)
                      else (fallback, db))
               else (fallback, db)))"

definition verify_system_key_only :: "auth_env \<Rightarrow> string \<Rightarrow> auth_db \<Rightarrow> (app_error + actor) \<times> auth_db" where
  "verify_system_key_only ev raw_key db = authenticate_key ev SystemApiKeys raw_key db"

section \<open>Static issuers\<close>

definition validate_static_jwt ::
    "jwt_lib \<Rightarrow> (string \<Rightarrow> jwks_fetch_error + jwks_outcome) \<Rightarrow> string \<Rightarrow> string option \<Rightarrow> string option \<Rightarrow> string option \<Rightarrow> nat \<Rightarrow> app_error + actor" where
  "validate_static_jwt jl loaded token jwks_url iss audience leeway_seconds =
     (case jwks_url of
        None \<Rightarrow> Err (ConfigError ''jwks_url is required'')
      | Some url \<Rightarrow>
          (case jl_decode_header jl token of
             Err err \<Rightarrow> Err (Unauthorized err)
           | Ok (_, None) \<Rightarrow> Err (Unauthorized ''JWT kid header is required'')
           | Ok (_, Some key_id) \<Rightarrow>
               and_then (resolve_jwks (loaded url)) (\<lambda>jwks.
               case jwks_find jwks key_id of
                 None \<Rightarrow> Err (Unauthorized ''no matching JWKS key'')
               | Some jwk \<Rightarrow>
                   (case jl_from_jwk jl jwk of
                      Err err \<Rightarrow> Err (Unauthorized (''invalid jwk: '' @ err))
                    | Ok key \<Rightarrow>
                        let v = (base_validation (algorithm_from_jwk (jk_algorithm jwk)))\<lparr>va_leeway := leeway_seconds\<rparr>;
                            v = (case iss of Some i \<Rightarrow> v\<lparr>va_issuers := Some [i]\<rparr> | None \<Rightarrow> v);
                            v = (case audience of Some a \<Rightarrow> v\<lparr>va_audiences := Some [a]\<rparr> | None \<Rightarrow> v\<lparr>va_validate_aud := False\<rparr>)
                        in (case jl_decode_static jl token key v of
                              Err err \<Rightarrow> Err (Unauthorized err)
                            | Ok claims \<Rightarrow> actor_from_static_claims jl claims)))))"

definition admin_require :: "auth_env \<Rightarrow> header_map \<Rightarrow> app_error + actor" where
  "admin_require ev headers =
     (let st = ev_admin_settings ev in
      if \<not> ja_enabled st then Ok (dev_admin\<lparr>actor_scopes := [''moira.admin'', ''moira:admin'']\<rparr>)
      else
        and_then (bearer_token headers) (\<lambda>token.
        and_then (validate_static_jwt (ev_jwt ev) (ev_loaded ev) token (ja_jwks_url st) (ja_issuer st) (ja_audience st) (ja_leeway_seconds st)) (\<lambda>a.
          case ja_required_scope st of
            Some required \<Rightarrow>
              if required \<notin> set (actor_scopes a) then Err (Forbidden (''missing required admin scope '' @ required)) else Ok a
          | None \<Rightarrow> Ok a)))"

definition caller_identify :: "auth_env \<Rightarrow> header_map \<Rightarrow> app_error + actor" where
  "caller_identify ev headers =
     (let st = ev_caller_settings ev;
          rest = (if \<not> ca_enabled st then Ok default_actor
                  else and_then (bearer_token headers) (\<lambda>token.
                    validate_static_jwt (ev_jwt ev) (ev_loaded ev) token (ca_jwks_url st) (ca_issuer st) (ca_audience st) (ca_leeway_seconds st)))
      in
      if ca_dev_trust_headers st then
        and_then (actor_from_trusted_headers (ev_jwt ev) headers) (\<lambda>a.
          if actor_subject a \<noteq> None \<or> actor_tenant_id a \<noteq> None \<or> actor_application_id a \<noteq> None then Ok a else rest)
      else rest)"

section \<open>What stands behind an actor\<close>

text \<open>A live row of a key table whose hash the presented key verifies.\<close>

definition key_backed :: "auth_env \<Rightarrow> api_key_row list \<Rightarrow> string \<Rightarrow> api_key_row \<Rightarrow> bool" where
  "key_backed ev rows raw_key r \<longleftrightarrow>
     r \<in> set rows \<and> key_live (ev_now ev) r \<and> ak_key_prefix r = key_prefix (ev_hasher ev) raw_key
     \<and> ar_verify (ev_argon2 ev) (peppered (ev_crypto ev) (ev_hasher ev) raw_key) (ak_key_hash r)"

text \<open>A token that the library accepted with a key of an active issuer, under that issuer's algorithms, name and
  audiences, and with an expiry.\<close>

definition jwt_backed :: "auth_env \<Rightarrow> trusted_issuer list \<Rightarrow> string \<Rightarrow> trusted_issuer \<Rightarrow> json \<Rightarrow> bool" where
  "jwt_backed ev issuers token t claims \<longleftrightarrow>
     t \<in> set issuers \<and> ti_status t = ''active'' \<and> \<not> ti_deleted t \<and>
     (\<exists>alg kid jwks jwk key v.
        jl_decode_header (ev_jwt ev) token = Ok (alg, Some kid) \<and> alg \<notin> {HS256, HS384, HS512} \<and> algorithm_name alg \<in> set (ti_allowed_algorithms t)
        \<and> resolve_jwks (ev_loaded ev (ti_jwks_url t)) = Ok jwks \<and> jwk \<in> set jwks \<and> jk_kid jwk = Some kid
        \<and> jl_from_jwk (ev_jwt ev) jwk = Ok key \<and> jl_decode (ev_jwt ev) token key v = Ok claims
        \<and> va_algorithms v = [alg] \<and> va_issuers v = Some [ti_issuer t] \<and> ''exp'' \<in> set (va_required v)
        \<and> (ti_expected_audiences t \<noteq> [] \<longrightarrow>
             va_validate_aud v \<and> va_audiences v = Some (ti_expected_audiences t) \<and> ''aud'' \<in> set (va_required v)))"

lemma map_sum_Ok_iff [simp]: "map_sum f g x = Ok y \<longleftrightarrow> (\<exists>a. x = Ok a \<and> y = g a)"
  by (cases x) auto

lemma algorithm_from_name_Ok: "algorithm_from_name (algorithm_name a) = Ok b \<longleftrightarrow> b = a \<and> a \<notin> {HS256, HS384, HS512}"
  by (cases a) (auto simp: algorithm_from_name_def)

lemma trusted_jwt_validation_Ok:
  assumes "trusted_jwt_validation t a = Ok v"
  shows "algorithm_name a \<in> set (ti_allowed_algorithms t)" "va_algorithms v = [a]" "va_issuers v = Some [ti_issuer t]" "''exp'' \<in> set (va_required v)"
    "ti_expected_audiences t \<noteq> [] \<longrightarrow> va_validate_aud v \<and> va_audiences v = Some (ti_expected_audiences t) \<and> ''aud'' \<in> set (va_required v)"
  using assms by (auto simp: trusted_jwt_validation_def base_validation_def Let_def split: if_splits)

lemma trusted_jwt_backed:
  assumes "authenticate_trusted_jwt_with_issuer ev issuers token = Ok (a, iss)"
  shows "\<exists>t claims. jwt_backed ev issuers token t claims \<and> actor_from_trusted_claims (ev_jwt ev) t claims = Ok a \<and> iss = ti_issuer t"
proof -
  from assms obtain alg kid iss' t v jwks where
    h: "jl_decode_header (ev_jwt ev) token = Ok (alg, Some kid)" and t: "load_issuer issuers iss' = Ok t"
    and a: "algorithm_from_name (algorithm_name alg) = Ok alg" and v: "trusted_jwt_validation t alg = Ok v"
    and k: "resolve_jwks (ev_loaded ev (ti_jwks_url t)) = Ok jwks" and w: "decode_with_keys ev token t v kid jwks = Ok (a, iss)"
    by (auto simp: authenticate_trusted_jwt_with_issuer_def Let_def and_then_Ok_iff algorithm_from_name_Ok split: sum.splits option.splits)
  from w obtain jwk key claims where k2: "jwks_find jwks kid = Some jwk" "jl_from_jwk (ev_jwt ev) jwk = Ok key"
    and d: "jl_decode (ev_jwt ev) token key v = Ok claims" "actor_from_trusted_claims (ev_jwt ev) t claims = Ok a" "iss = ti_issuer t"
    by (auto simp: decode_with_keys_def and_then_Ok_iff split: sum.splits option.splits)
  have "t \<in> set issuers" "ti_status t = ''active''" "\<not> ti_deleted t"
    using t by (auto simp: load_issuer_def find_Some_iff split: option.splits)
  moreover have "jwk \<in> set jwks" "jk_kid jwk = Some kid" using k2(1) by (auto simp: jwks_find_def find_Some_iff)
  ultimately have "jwt_backed ev issuers token t claims"
    unfolding jwt_backed_def using h a trusted_jwt_validation_Ok [OF v] k k2(2) d(1) algorithm_from_name_Ok by blast
  then show ?thesis using d by blast
qed

lemma verify_rows_Ok:
  "verify_rows cr ar h gates raw_key rows = Ok r \<Longrightarrow> r \<in> set rows \<and> ar_verify ar (peppered cr h raw_key) (ak_key_hash r)"
proof (induction rows)
  case (Cons x rows)
  then show ?case
    by (auto simp: and_then_Ok_iff hasher_verify_key_def split: if_splits gate_answer.splits)
qed simp

lemma authenticate_key_Ok:
  assumes "authenticate_key ev table raw_key db = (Ok a, db')"
  shows "\<exists>r. key_backed ev (case table of SystemApiKeys \<Rightarrow> ad_system_keys db | ConsumerApiKeys \<Rightarrow> ad_consumer_keys db) raw_key r
    \<and> a = key_actor (ev_id_text ev) table r"
  using assms
  by (auto simp: authenticate_key_def verify_api_key_def key_backed_def and_then_Ok_iff split: sum.splits dest!: verify_rows_Ok)

lemma actor_types [simp]:
  "actor_from_trusted_claims jl t claims = Ok a \<Longrightarrow> actor_type a = TrustedJwt"
  "actor_type (apply_admin_identity_grant grants iss a) = actor_type a"
  "actor_type (key_actor id_text table r) = (case table of SystemApiKeys \<Rightarrow> SystemKey | ConsumerApiKeys \<Rightarrow> ConsumerKey)"
  "actor_type dev_admin = DevAdmin" "actor_type default_actor = Anonymous"
  by (auto simp: actor_from_trusted_claims_def apply_admin_identity_grant_def union_granted_scopes_def key_actor_def dev_admin_def
      default_actor_def Let_def and_then_Ok_iff split: option.splits if_splits)

text \<open>C7: Behind every actor of the admin plane stands exactly one credential. An authenticated request carries a
  bearer token alone, accepted by the JWT library with a key of an active trusted issuer under the
  issuer's allowed (never symmetric) algorithm, name, audiences and with an expiry, and the actor is made
  of its claims and the grant of its subject; or one API key alone, matching a live row whose hash it
  verifies, and the actor is that row's; or no credential at all, and then admin authentication is switched
  off.\<close>

theorem admin_actor_backed:
  assumes "authenticate_admin_with_issuer ev headers db = (Ok (a, iss), db')"
  shows "case actor_type a of
      TrustedJwt \<Rightarrow> \<exists>token t claims a0. optional_bearer_token headers = Ok (Some token) \<and> jwt_backed ev (ad_issuers db) token t claims
        \<and> actor_from_trusted_claims (ev_jwt ev) t claims = Ok a0 \<and> a = apply_admin_identity_grant (ad_grants db) (ti_issuer t) a0 \<and> iss = Some (ti_issuer t)
        \<and> header_string headers ''x-moira-system-key'' = None \<and> header_string headers ''x-consumer-key'' = None
    | SystemKey \<Rightarrow> \<exists>raw_key r. header_string headers ''x-moira-system-key'' = Some raw_key \<and> key_backed ev (ad_system_keys db) raw_key r
        \<and> a = key_actor (ev_id_text ev) SystemApiKeys r \<and> optional_bearer_token headers = Ok None \<and> header_string headers ''x-consumer-key'' = None
    | ConsumerKey \<Rightarrow> \<exists>raw_key r. header_string headers ''x-consumer-key'' = Some raw_key \<and> key_backed ev (ad_consumer_keys db) raw_key r
        \<and> a = key_actor (ev_id_text ev) ConsumerApiKeys r \<and> optional_bearer_token headers = Ok None \<and> header_string headers ''x-moira-system-key'' = None
    | DevAdmin \<Rightarrow> \<not> ja_enabled (ev_admin_settings ev) \<and> optional_bearer_token headers = Ok None
        \<and> header_string headers ''x-moira-system-key'' = None \<and> header_string headers ''x-consumer-key'' = None
    | Anonymous \<Rightarrow> False"
proof -
  obtain token where tok: "optional_bearer_token headers = Ok token"
    using assms by (auto simp: authenticate_admin_with_issuer_def split: sum.splits)
  show ?thesis
  proof (cases token)
    case (Some tk)
    have "\<exists>a0 i. authenticate_trusted_jwt_with_issuer ev (ad_issuers db) tk = Ok (a0, i) \<and> a = apply_admin_identity_grant (ad_grants db) i a0 \<and> iss = Some i"
      and "header_string headers ''x-moira-system-key'' = None" "header_string headers ''x-consumer-key'' = None"
      using assms tok Some by (auto simp: authenticate_admin_with_issuer_def Let_def split: sum.splits if_splits)
    then show ?thesis using trusted_jwt_backed [of ev "ad_issuers db" tk] tok Some by (fastforce dest: actor_types(1))
  next
    case None
    show ?thesis
    proof (cases "header_string headers ''x-moira-system-key''")
      case (Some raw_key)
      then have "authenticate_key ev SystemApiKeys raw_key db = (Ok a, db')" "header_string headers ''x-consumer-key'' = None"
        using assms tok None by (auto simp: authenticate_admin_with_issuer_def Let_def split: sum.splits if_splits prod.splits)
      then show ?thesis using authenticate_key_Ok [of ev SystemApiKeys raw_key db a db'] Some tok None by auto
    next
      case no_system: None
      show ?thesis
      proof (cases "header_string headers ''x-consumer-key''")
        case (Some raw_key)
        then have "authenticate_key ev ConsumerApiKeys raw_key db = (Ok a, db')"
          using assms tok None no_system by (auto simp: authenticate_admin_with_issuer_def Let_def split: sum.splits if_splits prod.splits)
        then show ?thesis using authenticate_key_Ok [of ev ConsumerApiKeys raw_key db a db'] Some no_system tok None by auto
      next
        case no_consumer: None
        then show ?thesis using assms tok None no_system
          by (auto simp: authenticate_admin_with_issuer_def Let_def split: if_splits)
      qed
    qed
  qed
qed

text \<open>A service whose library accepts every token, with one issuer, one grant and one consumer key.\<close>

definition demo_claims :: json where
  "demo_claims = JObject [(''iss'', JString ''i''), (''sub'', JString ''ann''), (''scope'', JString ''a'')]"

definition demo_jwt :: jwt_lib where
  "demo_jwt = \<lparr>jl_decode_header = (\<lambda>_. Ok (RS256, Some ''k'')), jl_from_jwk = (\<lambda>j. Ok (jk_material j)), jl_decode = (\<lambda>_ _ _. Ok demo_claims),
     jl_decode_static = (\<lambda>_ _ _. Err ''unused''), jl_parse_uuid = (\<lambda>_. None), jl_parse_json = (\<lambda>_. Ok demo_claims),
     jl_base64_error = (\<lambda>_. ''invalid symbol'')\<rparr>"

definition demo_argon2 :: argon2 where
  "demo_argon2 = \<lparr>ar_default_m_cost = 19456, ar_hash = (\<lambda>p salt. Ok (salt @ p)), ar_m_cost = (\<lambda>_. Ok 19456),
     ar_verify = (\<lambda>p e. drop (length e - length p) e = p)\<rparr>"

definition demo_env :: auth_env where
  "demo_env = \<lparr>ev_crypto = plain_crypto, ev_argon2 = demo_argon2, ev_id_text = (\<lambda>_. ''id''), ev_jwt = demo_jwt,
     ev_hasher = ApiKeyHasher_new (Some 4) [] ''v1'' 8,
     ev_admin_settings = \<lparr>ja_enabled = True, ja_jwks_url = None, ja_issuer = None, ja_audience = None, ja_required_scope = None, ja_leeway_seconds = 0\<rparr>,
     ev_caller_settings = \<lparr>ca_enabled = True, ca_jwks_url = None, ca_issuer = None, ca_audience = None, ca_leeway_seconds = 0, ca_dev_trust_headers = False\<rparr>,
     ev_gates = (\<lambda>_. GateAcquired), ev_now = 0,
     ev_loaded = (\<lambda>_. Ok (LiveKeys [\<lparr>jk_kid = Some ''k'', jk_algorithm = None, jk_material = ''m''\<rparr>]))\<rparr>"

definition demo_issuer :: trusted_issuer where
  "demo_issuer = \<lparr>ti_id = 7, ti_issuer = ''i'', ti_jwks_url = ''u'', ti_expected_audiences = [''moira''], ti_allowed_algorithms = [''RS256''],
     ti_subject_claim = ''sub'', ti_user_id_claim = None, ti_tenant_id_claim = None, ti_application_id_claim = None, ti_roles_claim = None,
     ti_scopes_claim = None, ti_delegated_user_claim = None, ti_delegated_tenant_claim = None, ti_clock_skew_seconds = 0,
     ti_allow_delegation = False, ti_status = ''active'', ti_deleted = False\<rparr>"

definition demo_db :: auth_db where
  "demo_db = \<lparr>ad_system_keys = [], ad_consumer_keys = [], ad_issuers = [demo_issuer],
     ad_grants = [\<lparr>ig_issuer = ''i'', ig_subject = ''ann'', ig_granted_scopes = [''b''], ig_status = ''active'', ig_deleted = False\<rparr>]\<rparr>"

definition demo_headers :: header_map where
  "demo_headers = (\<lambda>name. if name = ''authorization'' then Some (HeaderText ''Bearer .6162'') else None)"

definition demo_actor :: actor where
  "demo_actor = default_actor\<lparr>actor_type := TrustedJwt, actor_subject := Some ''ann'', actor_external_user_id := Some ''ann'',
     actor_scopes := [''a''], actor_trusted_jwt_issuer_id := Some 7\<rparr>"

lemma demo_authenticated:
  "authenticate_trusted_jwt_with_issuer demo_env (ad_issuers demo_db) ''.6162'' = Ok (demo_actor, ''i'')"
  by code_simp

lemma demo_header_values:
  "optional_bearer_token demo_headers = Ok (Some ''.6162'')" "header_string demo_headers ''x-moira-system-key'' = None"
  "header_string demo_headers ''x-consumer-key'' = None"
  by (code_simp)+

lemma demo_grant: "apply_admin_identity_grant (ad_grants demo_db) ''i'' demo_actor = demo_actor\<lparr>actor_scopes := [''a'', ''b'']\<rparr>"
  by code_simp

theorem admin_actor_backed_witness:
  "\<exists>t claims a0. jwt_backed demo_env (ad_issuers demo_db) ''.6162'' t claims \<and> actor_from_trusted_claims demo_jwt t claims = Ok a0
     \<and> demo_actor\<lparr>actor_scopes := [''a'', ''b'']\<rparr> = apply_admin_identity_grant (ad_grants demo_db) (ti_issuer t) a0"
proof -
  have "authenticate_admin_with_issuer demo_env demo_headers demo_db = (Ok (demo_actor\<lparr>actor_scopes := [''a'', ''b'']\<rparr>, Some ''i''), demo_db)"
    by (simp add: authenticate_admin_with_issuer_def demo_header_values demo_authenticated demo_grant)
  from admin_actor_backed [OF this] show ?thesis
    by (auto simp: demo_actor_def demo_header_values demo_env_def)
qed

section \<open>Grants stay on the admin plane\<close>

lemma authenticate_key_grants [simp]:
  "authenticate_key ev table raw_key (db\<lparr>ad_grants := g\<rparr>) =
   (fst (authenticate_key ev table raw_key db), (snd (authenticate_key ev table raw_key db))\<lparr>ad_grants := g\<rparr>)"
  by (cases table) (auto simp: authenticate_key_def split: sum.split)

lemma authenticate_key_issuers: "authenticate_key ev table raw_key db = (r, db') \<Longrightarrow> ad_issuers db' = ad_issuers db"
  by (cases table) (auto simp: authenticate_key_def split: sum.splits)

lemma apply_admin_identity_grant_scopes:
  "a\<lparr>actor_scopes := actor_scopes (apply_admin_identity_grant grants iss a)\<rparr> = apply_admin_identity_grant grants iss a"
  "set (actor_scopes (apply_admin_identity_grant grants iss a)) = set (actor_scopes a) \<union>
     (case actor_subject a of None \<Rightarrow> {} | Some subject \<Rightarrow>
        (case find_active_grant grants iss subject of None \<Rightarrow> {} | Some grant \<Rightarrow> set (ig_granted_scopes grant)))"
  by (auto simp: apply_admin_identity_grant_def union_granted_scopes_def split: option.split)

text \<open>C21: A grant of admin scopes to an identity changes nothing on the public plane and nothing but the scopes on the
  admin plane. Whatever grants the table \<open>admin_identities\<close> holds, a public request is answered with the same actor
  or the same error; and for a request whose only credential is a bearer token, the admin plane answers with
  the actor of the public plane, its scopes extended by those of the active grant of its issuer and
  subject and by no others.\<close>

theorem grants_admin_plane_only:
  "fst (authenticate_caller ev headers (db\<lparr>ad_grants := g\<rparr>)) = fst (authenticate_caller ev headers db) \<and>
   ((\<exists>token. optional_bearer_token headers = Ok (Some token)) \<and> header_string headers ''x-moira-system-key'' = None
      \<and> header_string headers ''x-consumer-key'' = None \<longrightarrow>
    (case (fst (authenticate_caller ev headers db), fst (authenticate_admin_with_issuer ev headers db)) of
       (Err e, Err e') \<Rightarrow> e = e'
     | (Ok a, Ok (a', iss)) \<Rightarrow> (\<exists>i. iss = Some i \<and> a' = a\<lparr>actor_scopes := actor_scopes a'\<rparr> \<and> set (actor_scopes a') = set (actor_scopes a) \<union>
           (case actor_subject a of None \<Rightarrow> {} | Some subject \<Rightarrow>
              (case find_active_grant (ad_grants db) i subject of None \<Rightarrow> {} | Some grant \<Rightarrow> set (ig_granted_scopes grant))))
     | _ \<Rightarrow> False))"
proof (intro conjI impI)
  show "fst (authenticate_caller ev headers (db\<lparr>ad_grants := g\<rparr>)) = fst (authenticate_caller ev headers db)"
    by (auto simp: authenticate_caller_def Let_def split: sum.split option.split prod.split dest: authenticate_key_issuers)
next
  assume "(\<exists>token. optional_bearer_token headers = Ok (Some token)) \<and> header_string headers ''x-moira-system-key'' = None
      \<and> header_string headers ''x-consumer-key'' = None"
  then obtain token where h: "optional_bearer_token headers = Ok (Some token)" "header_string headers ''x-moira-system-key'' = None"
    "header_string headers ''x-consumer-key'' = None" by blast
  then show "case (fst (authenticate_caller ev headers db), fst (authenticate_admin_with_issuer ev headers db)) of
       (Err e, Err e') \<Rightarrow> e = e'
     | (Ok a, Ok (a', iss)) \<Rightarrow> (\<exists>i. iss = Some i \<and> a' = a\<lparr>actor_scopes := actor_scopes a'\<rparr> \<and> set (actor_scopes a') = set (actor_scopes a) \<union>
           (case actor_subject a of None \<Rightarrow> {} | Some subject \<Rightarrow>
              (case find_active_grant (ad_grants db) i subject of None \<Rightarrow> {} | Some grant \<Rightarrow> set (ig_granted_scopes grant))))
     | _ \<Rightarrow> False"
    by (cases "authenticate_trusted_jwt_with_issuer ev (ad_issuers db) token")
      (simp_all add: authenticate_caller_def authenticate_admin_with_issuer_def authenticate_trusted_jwt_def
        apply_admin_identity_grant_scopes split: prod.split)
qed

theorem grants_admin_plane_only_witness:
  "\<exists>a. fst (authenticate_admin_with_issuer demo_env demo_headers demo_db) = Ok (a, Some ''i'') \<and> set (actor_scopes a) = {''a'', ''b''}
     \<and> fst (authenticate_caller demo_env demo_headers demo_db) = Ok demo_actor"
proof -
  have c: "fst (authenticate_caller demo_env demo_headers demo_db) = Ok demo_actor"
    by (simp add: authenticate_caller_def authenticate_trusted_jwt_def demo_header_values demo_authenticated)
  have n: "fst (authenticate_admin_with_issuer demo_env demo_headers demo_db) = Ok (demo_actor\<lparr>actor_scopes := [''a'', ''b'']\<rparr>, Some ''i'')"
    by (simp add: authenticate_admin_with_issuer_def demo_header_values demo_authenticated demo_grant)
  show ?thesis
    using grants_admin_plane_only [where ev = demo_env and headers = demo_headers and db = demo_db and g = "[]"] demo_header_values c n by auto
qed

section \<open>A consumer key with a token\<close>

lemma trusted_claims_issuer: "actor_from_trusted_claims jl t claims = Ok a \<Longrightarrow> actor_trusted_jwt_issuer_id a = Some (ti_id t)"
  unfolding actor_from_trusted_claims_def Let_def
  by (cases "claim_string claims (ti_subject_claim t)") (auto simp: and_then_Ok_iff split: if_split_asm)

text \<open>A claim under the name an issuer configures for it, and whether a token may speak for somebody else.\<close>

definition claimed :: "json \<Rightarrow> string option \<Rightarrow> string option" where
  "claimed claims name = Option.bind name (claim_string claims)"

definition may_delegate :: "trusted_issuer \<Rightarrow> actor \<Rightarrow> bool" where
  "may_delegate t jwt \<longleftrightarrow> ti_allow_delegation t \<and> ''moira:identity:delegate'' \<in> set (actor_scopes jwt)"

lemma trusted_claims_identity:
  assumes "actor_from_trusted_claims jl t claims = Ok jwt"
  shows "actor_subject jwt = claim_string claims (ti_subject_claim t)" "actor_subject jwt \<noteq> None"
    and "actor_delegated_subject jwt = claimed claims (ti_delegated_user_claim t)"
    and "actor_external_user_id jwt =
      or_else (claimed claims (ti_delegated_user_claim t)) (or_else (claimed claims (ti_user_id_claim t)) (actor_subject jwt))"
    and "actor_tenant_id jwt = or_else (claimed claims (ti_delegated_tenant_claim t)) (claimed claims (ti_tenant_id_claim t))"
    and "actor_external_tenant_id jwt = actor_tenant_id jwt"
    and "claimed claims (ti_delegated_user_claim t) \<noteq> None \<or> claimed claims (ti_delegated_tenant_claim t) \<noteq> None \<Longrightarrow> may_delegate t jwt"
  using assms unfolding actor_from_trusted_claims_def Let_def claimed_def may_delegate_def
  by (cases "claim_string claims (ti_subject_claim t)"; auto simp: and_then_Ok_iff split: if_split_asm)+

lemma or_else_same [simp]: "or_else x x = x"
  by (simp add: or_else_def split: option.splits)

lemma or_else_Some: "y \<noteq> None \<Longrightarrow> or_else (or_else x (or_else z y)) y = or_else x (or_else z y)"
  by (auto simp: or_else_def split: option.splits)

text \<open>C23: A consumer key presented together with a token never widens either. The actor is bound to the key's
  application, with which the application of the token does not conflict; its scopes are those that both
  the key and the token have, without the admin scope; its key id is the key's and its issuer, subject and roles are
  the token's. The user and the tenant it acts for are the token's own claims, unless the token names a delegated user
  or a delegated tenant, and it may name either only if the issuer allows delegation and the token carries the delegation
  scope.\<close>

theorem combined_actor_narrows:
  assumes "combine_consumer_and_jwt id_text consumer jwt = Ok a" "actor_from_trusted_claims jl t claims = Ok jwt"
  shows "actor_type a = ConsumerKey \<and> actor_internal_application_id a = actor_internal_application_id consumer
    \<and> actor_internal_application_id consumer \<noteq> None \<and> actor_internal_application_id jwt \<in> {None, actor_internal_application_id consumer}
    \<and> set (actor_scopes a) = set (actor_scopes consumer) \<inter> set (actor_scopes jwt) - {''moira:admin''}
    \<and> actor_trusted_jwt_issuer_id a = Some (ti_id t) \<and> actor_api_key_id a = actor_api_key_id consumer
    \<and> actor_subject a = claim_string claims (ti_subject_claim t) \<and> actor_subject a \<noteq> None \<and> actor_roles a = actor_roles jwt
    \<and> actor_delegated_subject a = claimed claims (ti_delegated_user_claim t)
    \<and> actor_external_user_id a =
        or_else (claimed claims (ti_delegated_user_claim t)) (or_else (claimed claims (ti_user_id_claim t)) (actor_subject a))
    \<and> actor_tenant_id a = or_else (claimed claims (ti_delegated_tenant_claim t)) (claimed claims (ti_tenant_id_claim t))
    \<and> actor_external_tenant_id a = actor_tenant_id a
    \<and> (claimed claims (ti_delegated_user_claim t) \<noteq> None \<or> claimed claims (ti_delegated_tenant_claim t) \<noteq> None \<longrightarrow> may_delegate t jwt)"
proof -
  obtain application_id where k: "actor_internal_application_id consumer = Some application_id"
    "actor_internal_application_id jwt \<in> {None, Some application_id}"
    using assms(1) by (auto simp: combine_consumer_and_jwt_def split: option.splits if_splits)
  have "\<not> (case actor_internal_application_id jwt of Some j \<Rightarrow> j \<noteq> application_id | None \<Rightarrow> False)" using k(2) by auto
  then have a: "a = \<lparr>actor_type = ConsumerKey, actor_subject = actor_subject jwt, actor_tenant_id = actor_tenant_id jwt,
     actor_application_id = Some (id_text application_id),
     actor_external_user_id = or_else (actor_external_user_id jwt) (actor_subject jwt),
     actor_external_tenant_id = or_else (actor_external_tenant_id jwt) (actor_tenant_id jwt),
     actor_internal_application_id = Some application_id, actor_delegated_subject = actor_delegated_subject jwt,
     actor_roles = actor_roles jwt,
     actor_scopes = remdups_adj (sort (filter (\<lambda>s. s \<in> set (actor_scopes jwt)) (filter (\<lambda>s. s \<noteq> ''moira:admin'') (actor_scopes consumer)))),
     actor_trusted_jwt_issuer_id = actor_trusted_jwt_issuer_id jwt, actor_api_key_id = actor_api_key_id consumer\<rparr>"
    using assms(1) k(1) by (simp add: combine_consumer_and_jwt_def Let_def del: if_not_P if_P)
  note ids = trusted_claims_identity [OF assms(2)]
  have "set (filter (\<lambda>s. s \<in> set (actor_scopes jwt)) (filter (\<lambda>s. s \<noteq> ''moira:admin'') (actor_scopes consumer))) =
      set (actor_scopes consumer) \<inter> set (actor_scopes jwt) - {''moira:admin''}" by auto
  moreover have "actor_external_user_id a = actor_external_user_id jwt"
    using or_else_Some [OF ids(2)] by (simp add: a ids(4))
  ultimately show ?thesis
    using k trusted_claims_issuer [OF assms(2)] ids by (simp add: a)
qed

definition demo_row :: api_key_row where
  "demo_row = \<lparr>ak_id = 1, ak_application_id = Some 3, ak_key_prefix = ''moira_cons_AF'', ak_key_hash = ''s'' @ ''moira_cons_AF:'',
     ak_scopes = [''a'', ''b'', ''moira:admin''], ak_status = ''active'', ak_expires_at = None, ak_deleted = False, ak_last_used_at = None\<rparr>"

definition demo_delegating_issuer :: trusted_issuer where
  "demo_delegating_issuer = demo_issuer\<lparr>ti_delegated_tenant_claim := Some ''on_behalf_of'', ti_allow_delegation := True\<rparr>"

definition demo_delegating_claims :: json where
  "demo_delegating_claims = JObject [(''sub'', JString ''ann''), (''scope'', JString ''a moira:identity:delegate''),
     (''on_behalf_of'', JString ''t1'')]"

definition demo_delegating_actor :: actor where
  "demo_delegating_actor = demo_actor\<lparr>actor_scopes := [''a'', ''moira:identity:delegate''], actor_tenant_id := Some ''t1'',
     actor_external_tenant_id := Some ''t1''\<rparr>"

theorem combined_actor_narrows_witness:
  "\<exists>a. combine_consumer_and_jwt (\<lambda>_. ''id'') (key_actor (\<lambda>_. ''id'') ConsumerApiKeys demo_row) demo_delegating_actor = Ok a
     \<and> actor_internal_application_id a = Some 3 \<and> set (actor_scopes a) = {''a''} \<and> actor_trusted_jwt_issuer_id a = Some 7
     \<and> actor_tenant_id a = Some ''t1'' \<and> may_delegate demo_delegating_issuer demo_delegating_actor"
proof -
  have j: "actor_from_trusted_claims demo_jwt demo_delegating_issuer demo_delegating_claims = Ok demo_delegating_actor" by code_simp
  have c: "claimed demo_delegating_claims (ti_delegated_tenant_claim demo_delegating_issuer) = Some ''t1''" by code_simp
  obtain a where a: "combine_consumer_and_jwt (\<lambda>_. ''id'') (key_actor (\<lambda>_. ''id'') ConsumerApiKeys demo_row) demo_delegating_actor = Ok a"
    by (simp add: combine_consumer_and_jwt_def key_actor_def demo_row_def demo_actor_def default_actor_def demo_delegating_actor_def)
  have "actor_internal_application_id (key_actor (\<lambda>_. ''id'') ConsumerApiKeys demo_row) = Some 3"
    "set (actor_scopes (key_actor (\<lambda>_. ''id'') ConsumerApiKeys demo_row)) = {''a'', ''b'', ''moira:admin''}"
    "set (actor_scopes demo_delegating_actor) = {''a'', ''moira:identity:delegate''}" "ti_id demo_delegating_issuer = 7"
    by (simp_all add: key_actor_def demo_row_def demo_delegating_actor_def demo_delegating_issuer_def demo_issuer_def default_actor_def)
  with a c combined_actor_narrows [OF a j] show ?thesis by (auto simp: or_else_def)
qed

section \<open>Minted keys\<close>

text \<open>What Argon2 documents: a hash verifies the password it was made of, and records the default cost it was made with.\<close>

definition argon2_laws :: "argon2 \<Rightarrow> bool" where
  "argon2_laws ar \<longleftrightarrow> (\<forall>p salt e. ar_hash ar p salt = Ok e \<longrightarrow> ar_verify ar p e \<and> ar_m_cost ar e = Ok (ar_default_m_cost ar))"

lemma demo_argon2_laws: "argon2_laws demo_argon2"
  by (simp add: argon2_laws_def demo_argon2_def)

lemma generated_key_verifies:
  assumes "argon2_laws ar" "generate_key cr ar h g salt namespace random_bytes = Ok k"
  shows "hasher_verify_key cr ar h GateAcquired (gk_raw_key k) (gk_key_hash k) = Ok True" "gk_key_prefix k = key_prefix h (gk_raw_key k)"
  using assms
  by (auto simp: argon2_laws_def generate_key_def Let_def and_then_Ok_iff hasher_hash_key_def hasher_verify_key_def stored_m_cost_kib_def
      MAX_VERIFY_M_COST_KIB_def acquire_argon2_permit_def split: sum.splits gate_answer.splits)

lemma verify_rows_skip:
  "(\<And>r. r \<in> set pre \<Longrightarrow> hasher_verify_key cr ar h (gates (ak_id r)) raw_key (ak_key_hash r) = Ok False) \<Longrightarrow>
   verify_rows cr ar h gates raw_key (pre @ rows) = verify_rows cr ar h gates raw_key rows"
  by (induction pre) (auto simp: and_then_def)

text \<open>A minted key authenticates, and as itself. Once the row of a key that \<open>generate\<close> made is in the table, presenting the
  raw key gives the actor of that row as long as the row is live and the gate lets the check run, wherever in the
  table it stands: rows that share its prefix are tried and passed over. If the gate is full when its row is
  reached the answer is the overload error with status 503, never a refusal of the key.\<close>

theorem minted_key_authenticates:
  assumes "argon2_laws ar" "generate_key cr ar h g salt namespace random_bytes = Ok k"
    and "ak_key_prefix r = gk_key_prefix k" "ak_key_hash r = gk_key_hash k" "key_live now r"
    and "\<And>r'. r' \<in> set pre \<Longrightarrow> ak_key_prefix r' = gk_key_prefix k \<Longrightarrow> key_live now r' \<Longrightarrow>
      hasher_verify_key cr ar h (gates (ak_id r')) (gk_raw_key k) (ak_key_hash r') = Ok False"
  shows "(gates (ak_id r) = GateAcquired \<longrightarrow>
      (\<exists>rows. verify_api_key cr ar id_text h gates now table (gk_raw_key k) (pre @ r # post) = Ok (key_actor id_text table r, rows)
        \<and> map ak_id rows = map ak_id (pre @ r # post) \<and> r\<lparr>ak_last_used_at := Some now\<rparr> \<in> set rows)) \<and>
    (gates (ak_id r) = GateTimeout \<longrightarrow>
      verify_api_key cr ar id_text h gates now table (gk_raw_key k) (pre @ r # post) = Err verification_overloaded)"
proof -
  let ?P = "\<lambda>r'. ak_key_prefix r' = key_prefix h (gk_raw_key k) \<and> key_live now r'"
  have "verify_rows cr ar h gates (gk_raw_key k) (filter ?P (pre @ r # post)) = verify_rows cr ar h gates (gk_raw_key k) (r # filter ?P post)"
    using verify_rows_skip [of "filter ?P pre"] assms(3-6) generated_key_verifies(2) [OF assms(1,2)] by simp
  moreover have v: "hasher_verify_key cr ar h GateAcquired (gk_raw_key k) (ak_key_hash r) = Ok True"
    using generated_key_verifies(1) [OF assms(1,2)] assms(4) by simp
  moreover have "hasher_verify_key cr ar h GateTimeout (gk_raw_key k) (ak_key_hash r) = Err verification_overloaded"
    using v by (auto simp: hasher_verify_key_def and_then_Ok_iff acquire_argon2_permit_def and_then_def split: sum.splits if_splits)
  ultimately show ?thesis
    by (auto simp: verify_api_key_def and_then_def simp del: filter_append)
qed

theorem minted_key_authenticates_witness:
  "\<exists>k rows. generate_key plain_crypto demo_argon2 (ev_hasher demo_env) GateAcquired ''s'' ''moira_cons'' ''a'' = Ok k
     \<and> verify_api_key plain_crypto demo_argon2 (\<lambda>_. ''id'') (ev_hasher demo_env) (\<lambda>_. GateAcquired) 0 ConsumerApiKeys (gk_raw_key k) [demo_row]
       = Ok (key_actor (\<lambda>_. ''id'') ConsumerApiKeys demo_row, rows)"
proof -
  have k: "generate_key plain_crypto demo_argon2 (ev_hasher demo_env) GateAcquired ''s'' ''moira_cons'' ''a'' =
    Ok \<lparr>gk_raw_key = ''moira_cons_AF'', gk_key_prefix = ''moira_cons_AF'', gk_key_hash = ''smoira_cons_AF:'', gk_fingerprint = secret_fingerprint plain_crypto ''moira_cons_AF'',
      gk_pepper_version = ''v1''\<rparr>" by code_simp
  have r: "ak_key_prefix demo_row = ''moira_cons_AF''" "ak_key_hash demo_row = ''smoira_cons_AF:''" "key_live 0 demo_row"
    by (simp_all add: demo_row_def key_live_def)
  have "\<exists>rows. verify_api_key plain_crypto demo_argon2 (\<lambda>_. ''id'') (ev_hasher demo_env) (\<lambda>_. GateAcquired) 0 ConsumerApiKeys ''moira_cons_AF'' [demo_row]
       = Ok (key_actor (\<lambda>_. ''id'') ConsumerApiKeys demo_row, rows)"
    using minted_key_authenticates [OF demo_argon2_laws k, of demo_row 0 "[]" "\<lambda>_. GateAcquired" "\<lambda>_. ''id''" ConsumerApiKeys "[]"] r by auto
  then show ?thesis using k by simp
qed

section \<open>The age of the keys a token is checked with\<close>

text \<open>The calls that change the cache, each under the lock of its URL, and with the cache the successful fetches, the
  last one first.\<close>

datatype jwks_call =
    LoadCall string nat nat "jwks_fetch_error + jwk_set"
  | RefreshCall string nat "jwks_fetch_error + jwk_set"

definition fetch_logged :: "string \<Rightarrow> nat \<Rightarrow> (jwks_fetch_error + jwk_set) \<Rightarrow> (string \<times> jwk_set \<times> nat) list \<Rightarrow> (string \<times> jwk_set \<times> nat) list" where
  "fetch_logged url t fetched hist = (case fetched of Ok jwks \<Rightarrow> (url, jwks, t) # hist | Err _ \<Rightarrow> hist)"

fun jwks_step :: "nat \<Rightarrow> jwks_cache \<times> (string \<times> jwk_set \<times> nat) list \<Rightarrow> jwks_call \<Rightarrow> jwks_cache \<times> (string \<times> jwk_set \<times> nat) list" where
  "jwks_step max_stale (c, hist) (LoadCall url t1 t2 fetched) =
     (snd (cache_load_locked max_stale t1 t2 fetched url c), if cache_fresh t1 url c = None then fetch_logged url t2 fetched hist else hist)"
| "jwks_step max_stale (c, hist) (RefreshCall url t fetched) = (snd (cache_refresh t fetched url c), fetch_logged url t fetched hist)"

definition jwks_run :: "nat \<Rightarrow> jwks_call list \<Rightarrow> jwks_cache \<times> (string \<times> jwk_set \<times> nat) list" where
  "jwks_run max_stale calls = foldl (jwks_step max_stale) ([], []) calls"

text \<open>The entry of a URL is that of its last successful fetch.\<close>

definition jwks_inv :: "jwks_cache \<times> (string \<times> jwk_set \<times> nat) list \<Rightarrow> bool" where
  "jwks_inv w \<longleftrightarrow> (\<forall>url e. map_of (fst w) url = Some e \<longrightarrow>
     map_of (snd w) url = Some (cj_jwks e, cj_stored_at e) \<and> cj_expires_at e = cj_stored_at e + JWKS_CACHE_TTL)"

lemma jwks_inv_store: "jwks_inv (c, hist) \<Longrightarrow> jwks_inv (cache_store t url jwks c, (url, jwks, t) # hist)"
  by (auto simp: jwks_inv_def cache_store_def)

lemma jwks_inv_retained: "jwks_inv (c, hist) \<Longrightarrow> jwks_inv (snd (cache_retained max_stale t url c), hist)"
  by (auto simp: jwks_inv_def cache_retained_def split: option.splits)

lemma jwks_inv_step: "jwks_inv w \<Longrightarrow> jwks_inv (jwks_step max_stale w call)"
proof (induction max_stale w call rule: jwks_step.induct)
  case (1 max_stale c hist url t1 t2 fetched)
  then show ?case using jwks_inv_retained [of c hist max_stale t2 url]
    by (auto simp: cache_load_locked_def fetch_logged_def jwks_inv_store split: option.split sum.split prod.split)
next
  case (2 max_stale c hist url t fetched)
  then show ?case by (auto simp: cache_refresh_def fetch_logged_def jwks_inv_store split: sum.split)
qed

lemma jwks_inv_run: "jwks_inv (jwks_run max_stale calls)"
  by (induction calls rule: rev_induct) (auto simp: jwks_run_def jwks_inv_step, simp add: jwks_inv_def)

text \<open>C24: A token is never checked with keys older than the cache promises. Whatever loads and forced refreshes of any URLs
  came before, and whatever ran between the first look at the cache and the lock, a load that answers with
  live keys answers with those it has just fetched, or with those of the last successful fetch of that very URL,
  less than 300 seconds old when looked at; stale keys are served only when its own fetch failed, and they are those
  of the last successful fetch of the URL, at most \<open>max_stale_seconds\<close> old.\<close>

theorem jwks_served_recent:
  assumes "jwks_run max_stale calls = (c0, hist0)" and "jwks_run max_stale (calls @ later) = (c, hist)"
    and "cache_load max_stale t0 t1 t2 fetched url c0 c = (Ok outcome, c')"
  shows "case outcome of
      LiveKeys jwks \<Rightarrow> fetched = Ok jwks \<or> (\<exists>s. map_of hist0 url = Some (jwks, s) \<and> t0 < s + 300)
        \<or> (\<exists>s. map_of hist url = Some (jwks, s) \<and> t1 < s + 300)
    | StaleKeys jwks failure \<Rightarrow> fetched = Err failure \<and> (\<exists>s. map_of hist url = Some (jwks, s) \<and> s + 300 \<le> t1 \<and> t2 \<le> s + max_stale)"
proof -
  have "jwks_inv (c0, hist0)" "jwks_inv (c, hist)" using jwks_inv_run assms(1,2) by metis+
  then have fresh: "cache_fresh t0 url c0 = Some jwks \<Longrightarrow> \<exists>s. map_of hist0 url = Some (jwks, s) \<and> t0 < s + 300"
    "cache_fresh t1 url c = Some jwks \<Longrightarrow> \<exists>s. map_of hist url = Some (jwks, s) \<and> t1 < s + 300"
    and stale: "cache_fresh t1 url c = None \<Longrightarrow> cache_retained max_stale t2 url c = (Some jwks, c') \<Longrightarrow>
      \<exists>s. map_of hist url = Some (jwks, s) \<and> s + 300 \<le> t1 \<and> t2 \<le> s + max_stale" for jwks c'
    by (auto simp: jwks_inv_def cache_fresh_def cache_retained_def JWKS_CACHE_TTL_def bind_eq_Some_conv split: if_splits option.splits)
  show ?thesis
    using assms(3) fresh stale
    by (auto simp: cache_load_def cache_load_locked_def split: option.splits sum.splits prod.splits)
qed

theorem jwks_served_recent_witness:
  "case StaleKeys [] (JwksFetchError_new JwksTimeout []) of StaleKeys jwks failure \<Rightarrow>
     (\<exists>s. map_of (snd (jwks_run 600 [LoadCall ''u'' 0 1 (Ok [])])) ''u'' = Some (jwks, s) \<and> s + 300 \<le> 400 \<and> 401 \<le> s + 600) | _ \<Rightarrow> False"
  using jwks_served_recent [of 600 "[LoadCall ''u'' 0 1 (Ok [])]" _ _ "[]" _ _ 400 400 401 "Err (JwksFetchError_new JwksTimeout [])" "''u''" "StaleKeys [] (JwksFetchError_new JwksTimeout [])"]
  by (auto simp: jwks_run_def cache_load_def cache_load_locked_def cache_fresh_def cache_retained_def cache_store_def fetch_logged_def hm_insert_def
      JWKS_CACHE_TTL_def)

end
