(* ===== verification/Identity.thy ===== *)
theory Identity
  imports Authentication Admin_Command
begin

text \<open>
  Admin identities and invitations: \<open>src/src/application/identity.rs\<close> over
  \<open>src/src/infra/repositories/identity.rs\<close> and the admission policy of
  \<open>src/src/infra/repositories/auth_settings.rs\<close>. Grants, invitations and the setup state are tables; an operation
  first reads them, then runs as an idempotent command (\<open>Admin_Command\<close>) on whatever they are by then. The
  advisory lock on ownership serialises the commands that write grants. The texts of UUIDs and times in
  responses and audit entries, the JSON conversions of the responses and Argon2 are parameters; failing
  database calls inside a mutation roll it back and are left out, as are metrics.
\<close>

section \<open>Tables\<close>

datatype admin_identity_status = GrantActive | GrantRevoked

text \<open>A row of \<open>admin_identities\<close>; its status is text.\<close>

record grant_row =
  gr_id :: uuid
  gr_trusted_jwt_issuer_id :: uuid
  gr_issuer :: string
  gr_subject :: string
  gr_email :: "string option"
  gr_email_verified :: bool
  gr_granted_scopes :: "string list"
  gr_granted_by_actor_type :: string
  gr_granted_by_subject :: "string option"
  gr_is_primary :: bool
  gr_status :: string
  gr_created_at :: int
  gr_revoked_at :: "int option"
  gr_deleted :: bool
  gr_version :: int

record admin_identity_grant =
  ai_id :: uuid
  ai_trusted_jwt_issuer_id :: uuid
  ai_issuer :: string
  ai_subject :: string
  ai_email :: "string option"
  ai_email_verified :: bool
  ai_granted_scopes :: "string list"
  ai_is_primary :: bool
  ai_status :: admin_identity_status
  ai_created_at :: int
  ai_version :: int

record admin_identity_grant_insert =
  gi_id :: uuid
  gi_trusted_jwt_issuer_id :: uuid
  gi_issuer :: string
  gi_subject :: string
  gi_email :: string
  gi_email_verified :: bool
  gi_granted_scopes :: "string list"
  gi_granted_by_actor_type :: string
  gi_granted_by_subject :: "string option"

datatype admin_invite_constraint = EmailConstraint | DomainConstraint

datatype admin_invite_status = InvitePending | InviteConsumed | InviteRevoked

text \<open>A row of \<open>admin_invites\<close>.\<close>

record invite_row =
  iv_id :: uuid
  iv_token_prefix :: string
  iv_token_hash :: string
  iv_fingerprint :: string
  iv_pepper_version :: string
  iv_email_constraint :: "string option"
  iv_domain_constraint :: "string option"
  iv_created_by_issuer :: "string option"
  iv_created_by_subject :: "string option"
  iv_created_by_actor_type :: string
  iv_status :: string
  iv_expires_at :: int
  iv_consumed_at :: "int option"
  iv_consumed_issuer :: "string option"
  iv_consumed_subject :: "string option"
  iv_consumed_admin_identity_id :: "uuid option"
  iv_revoked_at :: "int option"
  iv_created_at :: int
  iv_deleted :: bool
  iv_version :: int

record admin_invite_row =
  ai_invite_id :: uuid
  ai_constraint :: admin_invite_constraint
  ai_value :: string
  ai_invite_status :: admin_invite_status
  ai_expires_at :: int
  ai_created_by_subject :: "string option"
  ai_consumed_at :: "int option"
  ai_consumed_subject :: "string option"
  ai_invite_created_at :: int
  ai_invite_version :: int

definition invite_is_expired :: "admin_invite_row \<Rightarrow> int \<Rightarrow> bool" where
  "invite_is_expired r now \<longleftrightarrow> ai_expires_at r \<le> now"

record admin_invite_candidate =
  ac_record :: admin_invite_row
  ac_token_hash :: string

record admin_invite_insert =
  ii_id :: uuid
  ii_token_prefix :: string
  ii_token_hash :: string
  ii_fingerprint :: string
  ii_pepper_version :: string
  ii_constraint :: admin_invite_constraint
  ii_value :: string
  ii_created_by_issuer :: "string option"
  ii_created_by_subject :: "string option"
  ii_created_by_actor_type :: string
  ii_expires_at :: int

record auth_provider_row =
  ap_id :: uuid
  ap_issuer :: "string option"
  ap_trusted_jwt_issuer_id :: "uuid option"
  ap_allowed_email_domains :: "string list"
  ap_enabled :: bool
  ap_status :: string
  ap_deleted :: bool

record governing_auth_policy =
  gp_id :: uuid
  gp_allowed_email_domains :: "string list"

record request_context =
  cx_request_id :: string
  cx_source_ip :: "string option"
  cx_user_agent :: "string option"
  cx_idempotency_key :: "string option"

record audit_log_insert =
  al_request_id :: "string option"
  al_actor_type :: "string option"
  al_actor_subject :: "string option"
  al_delegated_subject :: "string option"
  al_external_user_id :: "string option"
  al_external_tenant_id :: "string option"
  al_application_id :: "uuid option"
  al_resource_type :: string
  al_resource_id :: "string option"
  al_action :: string
  al_source_ip :: "string option"
  al_user_agent :: "string option"
  al_metadata :: json

record identity_db =
  id_grants :: "grant_row list"
  id_invites :: "invite_row list"
  id_setup_claimed :: bool
  id_setup_claimed_by :: "uuid option"
  id_setup_claimed_at :: "int option"
  id_audit :: "audit_log_insert list"
  id_issuers :: "trusted_issuer list"
  id_providers :: "auth_provider_row list"

section \<open>Errors\<close>

definition version_conflict :: app_error where
  "version_conflict = conflict ''resource_version_conflict'' ''resource version does not match If-Match''"

definition grant_not_found :: "(uuid \<Rightarrow> string) \<Rightarrow> uuid \<Rightarrow> app_error" where
  "grant_not_found id_text i = coded 404 ''admin_identity_not_found'' (''admin identity '' @ id_text i @ '' was not found'')"

definition already_revoked :: "(uuid \<Rightarrow> string) \<Rightarrow> uuid \<Rightarrow> app_error" where
  "already_revoked id_text i = conflict ''admin_identity_already_revoked'' (''admin identity '' @ id_text i @ '' has already been revoked'')"

definition invite_not_found :: app_error where
  "invite_not_found = coded 404 ''invite_not_found'' ''no invitation matches this token''"

definition already_consumed :: app_error where
  "already_consumed = conflict ''invite_already_consumed'' ''this invitation has already been redeemed''"

definition invite_revoked :: app_error where
  "invite_revoked = coded 403 ''invite_revoked'' ''this invitation has been revoked''"

definition invite_expired :: app_error where
  "invite_expired = coded 403 ''invite_expired'' ''this invitation has expired''"

definition already_claimed :: app_error where
  "already_claimed = conflict ''admin_identity_already_claimed'' ''this identity has already been granted admin access''"

definition last_primary :: app_error where
  "last_primary = conflict ''admin_identity_last_primary'' ''this is the last admin identity that can manage other admins''"

definition not_primary :: app_error where
  "not_primary = coded 403 ''admin_identity_not_primary'' ''only a primary admin identity may manage other admin identities''"

definition domain_not_allowed :: app_error where
  "domain_not_allowed = coded 403 ''admin_claim_domain_not_allowed'' ''this email domain is not allowed to claim an admin identity''"

definition duplicate_enabled_provider_for_issuer :: app_error where
  "duplicate_enabled_provider_for_issuer =
     conflict ''duplicate_enabled_provider_for_issuer'' ''more than one enabled auth provider is bound to this trusted JWT issuer''"

section \<open>The repository\<close>

definition admin_identity_status_from_db :: "string \<Rightarrow> app_error + admin_identity_status" where
  "admin_identity_status_from_db value =
     (if value = ''active'' then Ok GrantActive
      else if value = ''revoked'' then Ok GrantRevoked
      else Err (Internal (''unknown admin identity status '' @ value)))"

definition grant_from_row :: "grant_row \<Rightarrow> app_error + admin_identity_grant" where
  "grant_from_row r =
     and_then (admin_identity_status_from_db (gr_status r)) (\<lambda>status.
       Ok \<lparr>ai_id = gr_id r, ai_trusted_jwt_issuer_id = gr_trusted_jwt_issuer_id r, ai_issuer = gr_issuer r, ai_subject = gr_subject r,
         ai_email = gr_email r, ai_email_verified = gr_email_verified r, ai_granted_scopes = gr_granted_scopes r,
         ai_is_primary = gr_is_primary r, ai_status = status, ai_created_at = gr_created_at r, ai_version = gr_version r\<rparr>)"

definition invite_status_from_db :: "string \<Rightarrow> app_error + admin_invite_status" where
  "invite_status_from_db value =
     (if value = ''pending'' then Ok InvitePending
      else if value = ''consumed'' then Ok InviteConsumed
      else if value = ''revoked'' then Ok InviteRevoked
      else Err (Internal (''unknown admin invite status '' @ value)))"

definition invite_from_row :: "invite_row \<Rightarrow> app_error + admin_invite_row" where
  "invite_from_row r =
     and_then (case (iv_email_constraint r, iv_domain_constraint r) of
         (Some email, None) \<Rightarrow> Ok (EmailConstraint, email)
       | (None, Some domain) \<Rightarrow> Ok (DomainConstraint, domain)
       | _ \<Rightarrow> Err (Internal ''admin_invites row carries neither exactly one constraint'')) (\<lambda>(c, value).
     and_then (invite_status_from_db (iv_status r)) (\<lambda>status.
       Ok \<lparr>ai_invite_id = iv_id r, ai_constraint = c, ai_value = value, ai_invite_status = status, ai_expires_at = iv_expires_at r,
         ai_created_by_subject = iv_created_by_subject r, ai_consumed_at = iv_consumed_at r, ai_consumed_subject = iv_consumed_subject r,
         ai_invite_created_at = iv_created_at r, ai_invite_version = iv_version r\<rparr>))"

definition grant_live :: "grant_row \<Rightarrow> bool" where
  "grant_live r \<longleftrightarrow> \<not> gr_deleted r \<and> gr_status r = ''active''"

definition live_primary :: "grant_row \<Rightarrow> bool" where
  "live_primary r \<longleftrightarrow> grant_live r \<and> gr_is_primary r"

definition identity_find_active_grant :: "string \<Rightarrow> string \<Rightarrow> identity_db \<Rightarrow> app_error + admin_identity_grant option" where
  "identity_find_active_grant iss subject db =
     (case find (\<lambda>r. gr_issuer r = iss \<and> gr_subject r = subject \<and> grant_live r) (id_grants db) of
        None \<Rightarrow> Ok None
      | Some r \<Rightarrow> and_then (grant_from_row r) (\<lambda>g. Ok (Some g)))"

definition resolve_active_issuer :: "string \<Rightarrow> identity_db \<Rightarrow> app_error + uuid" where
  "resolve_active_issuer iss db =
     (case find (\<lambda>t. ti_issuer t = iss \<and> ti_status t = ''active'' \<and> \<not> ti_deleted t) (id_issuers db) of
        None \<Rightarrow> Err (coded 400 ''unregistered_trusted_issuer'' ''the target issuer is not a registered, active trusted JWT issuer'')
      | Some t \<Rightarrow> Ok (ti_id t))"

text \<open>The unique indexes refuse a second undeleted row of an issuer and subject and a second row of an id.\<close>

definition insert_grant :: "int \<Rightarrow> admin_identity_grant_insert \<Rightarrow> identity_db \<Rightarrow> app_error + (admin_identity_grant \<times> identity_db)" where
  "insert_grant now i db =
     (if \<exists>r \<in> set (id_grants db). gr_id r = gi_id i \<or> (gr_issuer r = gi_issuer i \<and> gr_subject r = gi_subject i \<and> \<not> gr_deleted r)
      then Err already_claimed
      else
        let r = \<lparr>gr_id = gi_id i, gr_trusted_jwt_issuer_id = gi_trusted_jwt_issuer_id i, gr_issuer = gi_issuer i, gr_subject = gi_subject i,
                 gr_email = Some (gi_email i), gr_email_verified = gi_email_verified i, gr_granted_scopes = gi_granted_scopes i,
                 gr_granted_by_actor_type = gi_granted_by_actor_type i, gr_granted_by_subject = gi_granted_by_subject i,
                 gr_is_primary = (\<not> list_ex live_primary (id_grants db)), gr_status = ''active'', gr_created_at = now,
                 gr_revoked_at = None, gr_deleted = False, gr_version = 1\<rparr>
        in and_then (grant_from_row r) (\<lambda>g. Ok (g, db\<lparr>id_grants := id_grants db @ [r]\<rparr>)))"

definition mark_setup_claimed :: "int \<Rightarrow> uuid \<Rightarrow> identity_db \<Rightarrow> identity_db" where
  "mark_setup_claimed now i db =
     (if id_setup_claimed db then db
      else db\<lparr>id_setup_claimed := True, id_setup_claimed_by := Some i, id_setup_claimed_at := Some now\<rparr>)"

definition lock_grant :: "(uuid \<Rightarrow> string) \<Rightarrow> uuid \<Rightarrow> identity_db \<Rightarrow> app_error + admin_identity_grant" where
  "lock_grant id_text i db =
     (case find (\<lambda>r. gr_id r = i \<and> \<not> gr_deleted r) (id_grants db) of
        None \<Rightarrow> Err (grant_not_found id_text i)
      | Some r \<Rightarrow> grant_from_row r)"

definition require_another_active_primary :: "uuid \<Rightarrow> identity_db \<Rightarrow> app_error + unit" where
  "require_another_active_primary excluding db =
     (if list_ex (\<lambda>r. live_primary r \<and> gr_id r \<noteq> excluding) (id_grants db) then Ok () else Err last_primary)"

text \<open>\<open>update_grants\<close> is an \<open>update\<close> with the trigger that bumps the version of every row it writes.\<close>

definition update_grants :: "(grant_row \<Rightarrow> bool) \<Rightarrow> (grant_row \<Rightarrow> grant_row) \<Rightarrow> identity_db \<Rightarrow> identity_db" where
  "update_grants hit f db =
     db\<lparr>id_grants := map (\<lambda>r. if hit r then (f r)\<lparr>gr_version := gr_version r + 1\<rparr> else r) (id_grants db)\<rparr>"

definition demote_active_primaries_other_than :: "uuid \<Rightarrow> identity_db \<Rightarrow> identity_db" where
  "demote_active_primaries_other_than excluding db =
     update_grants (\<lambda>r. live_primary r \<and> gr_id r \<noteq> excluding) (\<lambda>r. r\<lparr>gr_is_primary := False\<rparr>) db"

definition returning_grant :: "app_error \<Rightarrow> (grant_row \<Rightarrow> bool) \<Rightarrow> (grant_row \<Rightarrow> grant_row) \<Rightarrow> identity_db \<Rightarrow> app_error + (admin_identity_grant \<times> identity_db)" where
  "returning_grant missing hit f db =
     (case find hit (id_grants db) of
        None \<Rightarrow> Err missing
      | Some r \<Rightarrow> and_then (grant_from_row ((f r)\<lparr>gr_version := gr_version r + 1\<rparr>)) (\<lambda>g. Ok (g, update_grants hit f db)))"

definition set_primary :: "(uuid \<Rightarrow> string) \<Rightarrow> uuid \<Rightarrow> int \<Rightarrow> bool \<Rightarrow> identity_db \<Rightarrow> app_error + (admin_identity_grant \<times> identity_db)" where
  "set_primary id_text i expected_version is_primary db =
     and_then (lock_grant id_text i db) (\<lambda>current.
       if ai_status current \<noteq> GrantActive then Err (already_revoked id_text i)
       else if ai_version current \<noteq> expected_version then Err version_conflict
       else
         and_then (if ai_is_primary current \<and> \<not> is_primary then require_another_active_primary i db else Ok ()) (\<lambda>_.
           let db = (if is_primary \<and> \<not> ai_is_primary current then demote_active_primaries_other_than i db else db)
           in returning_grant version_conflict (\<lambda>r. gr_id r = i \<and> \<not> gr_deleted r \<and> gr_version r = expected_version)
                (\<lambda>r. r\<lparr>gr_is_primary := is_primary\<rparr>) db))"

definition revoke_grant :: "(uuid \<Rightarrow> string) \<Rightarrow> int \<Rightarrow> uuid \<Rightarrow> identity_db \<Rightarrow> app_error + (admin_identity_grant \<times> identity_db)" where
  "revoke_grant id_text now i db =
     and_then (lock_grant id_text i db) (\<lambda>current.
       if ai_status current \<noteq> GrantActive then Err (already_revoked id_text i)
       else
         and_then (if ai_is_primary current then require_another_active_primary i db else Ok ()) (\<lambda>_.
           returning_grant (already_revoked id_text i) (\<lambda>r. gr_id r = i \<and> grant_live r)
             (\<lambda>r. r\<lparr>gr_status := ''revoked'', gr_revoked_at := Some now, gr_is_primary := False\<rparr>) db))"

definition insert_invite :: "int \<Rightarrow> admin_invite_insert \<Rightarrow> identity_db \<Rightarrow> app_error + (admin_invite_row \<times> identity_db)" where
  "insert_invite now i db =
     (if \<exists>r \<in> set (id_invites db). iv_id r = ii_id i \<or> (iv_token_prefix r = ii_token_prefix i \<and> \<not> iv_deleted r) then Err Sqlx
      else
        let (email_constraint, domain_constraint) =
              (case ii_constraint i of EmailConstraint \<Rightarrow> (Some (ii_value i), None) | DomainConstraint \<Rightarrow> (None, Some (ii_value i)));
            r = \<lparr>iv_id = ii_id i, iv_token_prefix = ii_token_prefix i, iv_token_hash = ii_token_hash i, iv_fingerprint = ii_fingerprint i,
                 iv_pepper_version = ii_pepper_version i, iv_email_constraint = email_constraint, iv_domain_constraint = domain_constraint,
                 iv_created_by_issuer = ii_created_by_issuer i, iv_created_by_subject = ii_created_by_subject i,
                 iv_created_by_actor_type = ii_created_by_actor_type i, iv_status = ''pending'', iv_expires_at = ii_expires_at i,
                 iv_consumed_at = None, iv_consumed_issuer = None, iv_consumed_subject = None, iv_consumed_admin_identity_id = None,
                 iv_revoked_at = None, iv_created_at = now, iv_deleted = False, iv_version = 1\<rparr>
        in and_then (invite_from_row r) (\<lambda>row. Ok (row, db\<lparr>id_invites := id_invites db @ [r]\<rparr>)))"

definition find_invite_by_prefix :: "string \<Rightarrow> identity_db \<Rightarrow> app_error + admin_invite_candidate option" where
  "find_invite_by_prefix prefix db =
     (case find (\<lambda>r. iv_token_prefix r = prefix \<and> \<not> iv_deleted r) (id_invites db) of
        None \<Rightarrow> Ok None
      | Some r \<Rightarrow> and_then (invite_from_row r) (\<lambda>row. Ok (Some \<lparr>ac_record = row, ac_token_hash = iv_token_hash r\<rparr>)))"

definition identity_get_invite :: "uuid \<Rightarrow> identity_db \<Rightarrow> app_error + admin_invite_row" where
  "identity_get_invite i db =
     (case find (\<lambda>r. iv_id r = i \<and> \<not> iv_deleted r) (id_invites db) of None \<Rightarrow> Err invite_not_found | Some r \<Rightarrow> invite_from_row r)"

definition returning_invite :: "app_error \<Rightarrow> uuid \<Rightarrow> (invite_row \<Rightarrow> invite_row) \<Rightarrow> identity_db \<Rightarrow> app_error + (admin_invite_row \<times> identity_db)" where
  "returning_invite missing i f db =
     (let hit = (\<lambda>r. iv_id r = i \<and> \<not> iv_deleted r \<and> iv_status r = ''pending'') in
      case find hit (id_invites db) of
        None \<Rightarrow> Err missing
      | Some r \<Rightarrow>
          and_then (invite_from_row ((f r)\<lparr>iv_version := iv_version r + 1\<rparr>)) (\<lambda>row.
            Ok (row, db\<lparr>id_invites := map (\<lambda>r. if hit r then (f r)\<lparr>iv_version := iv_version r + 1\<rparr> else r) (id_invites db)\<rparr>)))"

definition identity_revoke_invite :: "int \<Rightarrow> uuid \<Rightarrow> identity_db \<Rightarrow> app_error + (admin_invite_row \<times> identity_db)" where
  "identity_revoke_invite now i db =
     returning_invite
       (case find (\<lambda>r. iv_id r = i \<and> \<not> iv_deleted r) (id_invites db) of
          Some r \<Rightarrow> if iv_status r = ''consumed'' then already_consumed else if iv_status r = ''revoked'' then invite_revoked else invite_not_found
        | None \<Rightarrow> invite_not_found)
       i (\<lambda>r. r\<lparr>iv_status := ''revoked'', iv_revoked_at := Some now\<rparr>) db"

definition consume_invite ::
    "int \<Rightarrow> int \<Rightarrow> uuid \<Rightarrow> string \<Rightarrow> string \<Rightarrow> uuid \<Rightarrow> identity_db \<Rightarrow> app_error + (admin_invite_row \<times> identity_db)" where
  "consume_invite app_now now i consumed_issuer consumed_subject admin_identity_id db =
     and_then (identity_get_invite i db) (\<lambda>locked.
       case ai_invite_status locked of
         InviteConsumed \<Rightarrow> Err already_consumed
       | InviteRevoked \<Rightarrow> Err invite_revoked
       | InvitePending \<Rightarrow>
           if invite_is_expired locked app_now then Err invite_expired
           else returning_invite already_consumed i
             (\<lambda>r. r\<lparr>iv_status := ''consumed'', iv_consumed_at := Some now, iv_consumed_issuer := Some consumed_issuer,
                    iv_consumed_subject := Some consumed_subject, iv_consumed_admin_identity_id := Some admin_identity_id\<rparr>) db)"

definition single_policy :: "auth_provider_row list \<Rightarrow> app_error + governing_auth_policy option" where
  "single_policy rows =
     (case rows of
        [] \<Rightarrow> Ok None
      | [r] \<Rightarrow> Ok (Some \<lparr>gp_id = ap_id r, gp_allowed_email_domains = ap_allowed_email_domains r\<rparr>)
      | _ \<Rightarrow> Err duplicate_enabled_provider_for_issuer)"

definition provider_enabled :: "auth_provider_row \<Rightarrow> bool" where
  "provider_enabled r \<longleftrightarrow> \<not> ap_deleted r \<and> ap_status r = ''active'' \<and> ap_enabled r"

definition admission_policy :: "string \<Rightarrow> uuid \<Rightarrow> identity_db \<Rightarrow> app_error + governing_auth_policy option" where
  "admission_policy iss trusted_jwt_issuer_id db =
     and_then (single_policy (filter (\<lambda>r. provider_enabled r \<and> ap_trusted_jwt_issuer_id r = Some trusted_jwt_issuer_id) (id_providers db))) (\<lambda>bound.
       case bound of
         Some policy \<Rightarrow> Ok (Some policy)
       | None \<Rightarrow> single_policy (filter (\<lambda>r. provider_enabled r \<and> ap_issuer r = Some iss \<and> ap_trusted_jwt_issuer_id r = None) (id_providers db)))"

section \<open>The service\<close>

text \<open>The libraries, clocks and random values of one call: \<open>ie_now\<close> is the clock of the process, \<open>ie_db_now\<close> that of the
  database.\<close>

record identity_env =
  ie_crypto :: crypto
  ie_argon2 :: argon2
  ie_hasher :: api_key_hasher
  ie_gate :: gate_answer
  ie_id_text :: "uuid \<Rightarrow> string"
  ie_time :: "int \<Rightarrow> json"
  ie_actor_bytes :: "actor \<Rightarrow> string"
  ie_new_id :: uuid
  ie_salt :: string
  ie_random :: string
  ie_now :: int
  ie_db_now :: int
  ie_runner :: admin_command_runner
  ie_admin :: admin_env

definition require_non_empty :: "string \<Rightarrow> string \<Rightarrow> app_error + unit" where
  "require_non_empty label v = (if rust_trim v = [] then Err (BadRequest (label @ '' must not be empty'')) else Ok ())"

fun actor_type_debug :: "actor_type \<Rightarrow> string" where
  "actor_type_debug Anonymous = ''Anonymous''"
| "actor_type_debug DevAdmin = ''DevAdmin''"
| "actor_type_debug TrustedJwt = ''TrustedJwt''"
| "actor_type_debug ConsumerKey = ''ConsumerKey''"
| "actor_type_debug SystemKey = ''SystemKey''"

definition success_audit :: "actor \<Rightarrow> request_context \<Rightarrow> string \<Rightarrow> string \<Rightarrow> string option \<Rightarrow> json \<Rightarrow> audit_log_insert" where
  "success_audit a ctx action resource_type resource_id metadata =
     \<lparr>al_request_id = Some (cx_request_id ctx), al_actor_type = Some (to_ascii_lowercase (actor_type_debug (actor_type a))),
      al_actor_subject = actor_subject a, al_delegated_subject = actor_delegated_subject a, al_external_user_id = actor_external_user_id a,
      al_external_tenant_id = actor_external_tenant_id a, al_application_id = actor_internal_application_id a,
      al_resource_type = resource_type, al_resource_id = resource_id, al_action = action, al_source_ip = cx_source_ip ctx,
      al_user_agent = cx_user_agent ctx, al_metadata = metadata\<rparr>"

definition insert_audit :: "audit_log_insert \<Rightarrow> identity_db \<Rightarrow> identity_db" where
  "insert_audit entry db = db\<lparr>id_audit := id_audit db @ [entry]\<rparr>"

definition command_spec :: "identity_env \<Rightarrow> request_context \<Rightarrow> actor \<Rightarrow> string \<Rightarrow> json \<Rightarrow> json \<Rightarrow> app_error + admin_command_spec" where
  "command_spec ev ctx a operation path request =
     and_then (AdminCommandSpec_new operation (Ok path) (Ok request)) (\<lambda>spec.
       Ok (with_idempotency (map_option (\<lambda>key. \<lparr>ci_key = key, ci_actor_identity = ie_actor_bytes ev a\<rparr>) (cx_idempotency_key ctx)) spec))"

text \<open>An operation of the repository as the mutation of a command: the audit entry follows it, and the response is
  made of what it returned.\<close>

definition audited_mutation ::
    "(identity_db \<Rightarrow> app_error + ('x \<times> identity_db)) \<Rightarrow> ('x \<Rightarrow> audit_log_insert) \<Rightarrow> ('x \<Rightarrow> app_error + 'r admin_command_mutation)
      \<Rightarrow> ('r, identity_db) admin_mutation" where
  "audited_mutation repository_call entry response db =
     (case repository_call db of
        Err e \<Rightarrow> (Err e, db)
      | Ok (x, db) \<Rightarrow> (response x, insert_audit (entry x) db))"

definition run_command :: "'r serde \<Rightarrow> identity_env \<Rightarrow> admin_command_spec \<Rightarrow> ('r, identity_db) admin_mutation \<Rightarrow> identity_db admin_state
      \<Rightarrow> (app_error + ('r \<times> bool)) \<times> identity_db admin_state" where
  "run_command sd ev spec mutation st =
     (case execute sd (ie_crypto ev) (ie_runner ev) (ie_admin ev) spec mutation st of
        (r, st) \<Rightarrow> (map_sum (\<lambda>e. e) (\<lambda>outcome. (ao_response outcome, ao_replayed outcome)) r, st))"

section \<open>Policies\<close>

definition rsplit_at :: "string \<Rightarrow> (string \<times> string) option" where
  "rsplit_at s = map_option (\<lambda>(b, a). (rev a, rev b)) (split_once CHR 0x40 (rev s))"

definition email_domain :: "string \<Rightarrow> string option" where
  "email_domain email =
     (case rsplit_at (rust_trim email) of
        None \<Rightarrow> None
      | Some (local_part, domain) \<Rightarrow>
          if rust_trim local_part = [] \<or> rust_trim domain = [] then None else Some (to_ascii_lowercase (rust_trim domain)))"

definition evaluate_claim_policy :: "string \<Rightarrow> bool \<Rightarrow> governing_auth_policy option \<Rightarrow> app_error + unit" where
  "evaluate_claim_policy email email_verified policy =
     (case policy of
        None \<Rightarrow> Err domain_not_allowed
      | Some policy \<Rightarrow>
          if \<not> email_verified then Err (coded 403 ''admin_claim_email_not_verified'' ''the email address for this identity is not verified'')
          else (case email_domain email of
             None \<Rightarrow> Err (coded 400 ''admin_claim_email_required'' ''a usable email address is required to claim an admin identity'')
           | Some domain \<Rightarrow>
               if list_ex (\<lambda>candidate. to_ascii_lowercase (rust_trim candidate) = domain) (gp_allowed_email_domains policy) then Ok ()
               else Err domain_not_allowed))"

definition evaluate_invite_constraint :: "admin_invite_row \<Rightarrow> string \<Rightarrow> app_error + unit" where
  "evaluate_invite_constraint invite email =
     (let email_lower = to_ascii_lowercase (rust_trim email) in
      case email_domain email of
        None \<Rightarrow> Err (coded 400 ''admin_claim_email_required'' ''a usable email address is required to redeem an invitation'')
      | Some domain \<Rightarrow>
          (case ai_constraint invite of
             EmailConstraint \<Rightarrow>
               if email_lower = to_ascii_lowercase (rust_trim (ai_value invite)) then Ok ()
               else Err (coded 403 ''invite_email_mismatch'' ''this invitation was issued for a different email address'')
           | DomainConstraint \<Rightarrow>
               if domain = to_ascii_lowercase (rust_trim (ai_value invite)) then Ok ()
               else Err (coded 403 ''invite_domain_mismatch'' ''this invitation was issued for a different email domain'')))"

definition normalize_invite_constraint :: "admin_invite_constraint \<Rightarrow> string \<Rightarrow> app_error + string" where
  "normalize_invite_constraint c v =
     and_then (require_non_empty ''value'' v) (\<lambda>_.
       let normalized = to_ascii_lowercase (rust_trim v) in
       (case c of
          EmailConstraint \<Rightarrow>
            if email_domain normalized = None
            then Err (unprocessable ''invalid_request'' ''an email-constrained invitation requires a usable email address'')
            else Ok normalized
        | DomainConstraint \<Rightarrow>
            if CHR 0x40 \<in> set normalized \<or> CHR ''.'' \<notin> set normalized
            then Err (unprocessable ''invalid_request'' ''a domain-constrained invitation requires a bare domain, not an address'')
            else Ok normalized))"

definition MAX_INVITE_EXPIRY_SECONDS :: nat where "MAX_INVITE_EXPIRY_SECONDS = 72 * 60 * 60"
definition MIN_INVITE_EXPIRY_SECONDS :: nat where "MIN_INVITE_EXPIRY_SECONDS = 60"

text \<open>A lifetime in nanoseconds, the unit of the clocks.\<close>

definition validated_invite_lifetime :: "32 word \<Rightarrow> app_error + int" where
  "validated_invite_lifetime seconds =
     (if MAX_INVITE_EXPIRY_SECONDS < unat seconds
      then Err (unprocessable ''admin_invite_expiry_too_long''
             (''an invitation may not last longer than '' @ show_nat MAX_INVITE_EXPIRY_SECONDS @ '' seconds''))
      else if unat seconds < MIN_INVITE_EXPIRY_SECONDS
      then Err (unprocessable ''invalid_request'' (''an invitation must last at least '' @ show_nat MIN_INVITE_EXPIRY_SECONDS @ '' seconds''))
      else Ok (uint seconds * 1000000000))"

definition require_redeemable :: "int \<Rightarrow> admin_invite_row \<Rightarrow> app_error + unit" where
  "require_redeemable now invite =
     (case ai_invite_status invite of
        InviteConsumed \<Rightarrow> Err already_consumed
      | InviteRevoked \<Rightarrow> Err invite_revoked
      | InvitePending \<Rightarrow> if invite_is_expired invite now then Err invite_expired else Ok ())"

definition invite_creator_actor_type :: "actor \<Rightarrow> app_error + string" where
  "invite_creator_actor_type a =
     (case actor_type a of
        SystemKey \<Rightarrow> Ok ''system_key''
      | TrustedJwt \<Rightarrow> Ok ''trusted_jwt''
      | DevAdmin \<Rightarrow> Ok ''dev_admin''
      | _ \<Rightarrow> Err (Forbidden ''this credential type may not create admin invitations''))"

definition redeem_actor :: "trusted_jwt_identity \<Rightarrow> uuid \<Rightarrow> actor" where
  "redeem_actor identity trusted_jwt_issuer_id =
     default_actor\<lparr>actor_type := TrustedJwt, actor_subject := Some (tj_subject identity), actor_external_user_id := Some (tj_subject identity),
       actor_trusted_jwt_issuer_id := Some trusted_jwt_issuer_id, actor_scopes := []\<rparr>"

section \<open>Operations\<close>

definition ADMIN_INVITE_NAMESPACE :: string where "ADMIN_INVITE_NAMESPACE = ''moira_inv''"
definition ADMIN_INVITE_ACTOR_TYPE :: string where "ADMIN_INVITE_ACTOR_TYPE = ''admin_invite''"

definition constraint_label :: "admin_invite_constraint \<Rightarrow> string" where
  "constraint_label c = (case c of EmailConstraint \<Rightarrow> ''email'' | DomainConstraint \<Rightarrow> ''domain'')"

definition opt_json :: "string option \<Rightarrow> json" where
  "opt_json v = (case v of None \<Rightarrow> JNull | Some s \<Rightarrow> JString s)"

record claim_request =
  cq_issuer :: string
  cq_subject :: string
  cq_email :: string
  cq_email_verified :: bool
  cq_scopes :: "string list"
  cq_setup_token :: "string option"

definition claim_request_json :: "claim_request \<Rightarrow> json" where
  "claim_request_json q =
     JObject [(''issuer'', JString (cq_issuer q)), (''subject'', JString (cq_subject q)), (''email'', JString (cq_email q)),
       (''email_verified'', JBool (cq_email_verified q)), (''scopes'', JArray (map JString (cq_scopes q))), (''setup_token'', opt_json (cq_setup_token q))]"

definition grant_metadata :: "admin_identity_grant \<Rightarrow> (string \<times> json) list" where
  "grant_metadata g =
     [(''issuer'', JString (ai_issuer g)), (''subject'', JString (ai_subject g)), (''email'', opt_json (ai_email g)),
      (''granted_scopes'', JArray (map JString (ai_granted_scopes g)))]"

text \<open>The record a response carries; \<open>notice\<close> names its catalogue text.\<close>

record admin_identity_record =
  ar_grant :: admin_identity_grant
  ar_email :: string
  ar_notice :: string

definition record_from_grant_with_notice :: "string \<Rightarrow> admin_identity_grant \<Rightarrow> admin_identity_record" where
  "record_from_grant_with_notice notice g =
     \<lparr>ar_grant = g, ar_email = (case ai_email g of Some e \<Rightarrow> e | None \<Rightarrow> []), ar_notice = notice\<rparr>"

definition grant_response ::
    "admin_identity_record serde \<Rightarrow> identity_env \<Rightarrow> string \<Rightarrow> 16 word \<Rightarrow> admin_identity_grant \<Rightarrow> app_error + admin_identity_record admin_command_mutation" where
  "grant_response sd ev notice status g =
     AdminCommandMutation_new sd (record_from_grant_with_notice notice g) status (Some (ie_id_text ev (ai_id g)))"

definition claim_checks :: "identity_env \<Rightarrow> actor \<Rightarrow> claim_request \<Rightarrow> identity_db \<Rightarrow> app_error + admin_identity_grant_insert" where
  "claim_checks ev a q db =
     (if cq_setup_token q \<noteq> None
      then Err (coded 400 ''setup_token_not_supported'' ''the one-time setup token path is not available on this deployment'')
      else if actor_type a \<noteq> SystemKey then Err (Unauthorized ''claiming an admin identity requires a system key'')
      else
        and_then (require a ''moira:admin'') (\<lambda>_.
        and_then (require_non_empty ''issuer'' (cq_issuer q)) (\<lambda>_.
        and_then (require_non_empty ''subject'' (cq_subject q)) (\<lambda>_.
        and_then (normalize_scopes (cq_scopes q)) (\<lambda>granted_scopes.
        and_then (resolve_active_issuer (cq_issuer q) db) (\<lambda>trusted_jwt_issuer_id.
        and_then (admission_policy (cq_issuer q) trusted_jwt_issuer_id db) (\<lambda>policy.
        and_then (evaluate_claim_policy (cq_email q) (cq_email_verified q) policy) (\<lambda>_.
          Ok \<lparr>gi_id = ie_new_id ev, gi_trusted_jwt_issuer_id = trusted_jwt_issuer_id, gi_issuer = cq_issuer q, gi_subject = cq_subject q,
            gi_email = rust_trim (cq_email q), gi_email_verified = cq_email_verified q, gi_granted_scopes = granted_scopes,
            gi_granted_by_actor_type = ''system_key'', gi_granted_by_subject = actor_subject a\<rparr>))))))))"

definition claim_grant :: "int \<Rightarrow> admin_identity_grant_insert \<Rightarrow> identity_db \<Rightarrow> app_error + (admin_identity_grant \<times> identity_db)" where
  "claim_grant now i db = and_then (insert_grant now i db) (\<lambda>(g, db). Ok (g, mark_setup_claimed now (ai_id g) db))"

definition claim ::
    "admin_identity_record serde \<Rightarrow> identity_env \<Rightarrow> request_context \<Rightarrow> actor \<Rightarrow> claim_request \<Rightarrow> identity_db \<Rightarrow> identity_db admin_state
      \<Rightarrow> (app_error + (admin_identity_record \<times> bool)) \<times> identity_db admin_state" where
  "claim sd ev ctx a q db st =
     (case and_then (claim_checks ev a q db) (\<lambda>i. and_then
             (command_spec ev ctx a ''admin_identity.claim'' (JObject [(''issuer'', JString (cq_issuer q)), (''subject'', JString (cq_subject q))])
               (claim_request_json q)) (\<lambda>spec. Ok (i, spec))) of
        Err e \<Rightarrow> (Err e, st)
      | Ok (i, spec) \<Rightarrow>
          run_command sd ev spec
            (audited_mutation (claim_grant (ie_db_now ev) i)
              (\<lambda>g. success_audit a ctx ''admin_identity.claim'' ''admin_identity'' (Some (ie_id_text ev (ai_id g)))
                 (JObject (grant_metadata g @ [(''granted_by_actor_type'', JString (gi_granted_by_actor_type i))])))
              (grant_response sd ev ''moira.notice.admin_identity_claimed'' 201)) st)"

record admin_invite_record =
  ir_invite :: admin_invite_row
  ir_expired :: bool

definition invite_record :: "int \<Rightarrow> admin_invite_row \<Rightarrow> admin_invite_record" where
  "invite_record now r = \<lparr>ir_invite = r, ir_expired = invite_is_expired r now\<rparr>"

record invite_create_request =
  vq_constraint :: admin_invite_constraint
  vq_value :: string
  vq_expires_in_seconds :: "32 word"

record invite_secret_response =
  vs_resource :: admin_invite_record
  vs_secret :: "string option"
  vs_secret_retrievable :: bool
  vs_notice :: string

definition invite_response ::
    "invite_secret_response serde \<Rightarrow> identity_env \<Rightarrow> string \<Rightarrow> admin_invite_row \<Rightarrow> app_error + invite_secret_response admin_command_mutation" where
  "invite_response sd ev secret row =
     (let resource = invite_record (ie_now ev) row; notice = ''moira.notice.admin_invite_created'' in
      with_replay_response
        \<lparr>vs_resource = resource, vs_secret = Some secret, vs_secret_retrievable = True, vs_notice = notice\<rparr>
        (sd_to_value sd \<lparr>vs_resource = resource, vs_secret = None, vs_secret_retrievable = False, vs_notice = notice\<rparr>)
        201 (Some (ie_id_text ev (ai_invite_id row))))"

definition create_invite_checks ::
    "identity_env \<Rightarrow> actor \<Rightarrow> string option \<Rightarrow> invite_create_request \<Rightarrow> app_error + (admin_invite_insert \<times> string)" where
  "create_invite_checks ev a iss q =
     and_then (require a ''moira:admins:invite'') (\<lambda>_.
     and_then (normalize_invite_constraint (vq_constraint q) (vq_value q)) (\<lambda>v.
     and_then (validated_invite_lifetime (vq_expires_in_seconds q)) (\<lambda>lifetime.
     and_then (generate_key (ie_crypto ev) (ie_argon2 ev) (ie_hasher ev) (ie_gate ev) (ie_salt ev) ADMIN_INVITE_NAMESPACE (ie_random ev)) (\<lambda>generated.
     and_then (invite_creator_actor_type a) (\<lambda>creator.
       Ok (\<lparr>ii_id = ie_new_id ev, ii_token_prefix = gk_key_prefix generated, ii_token_hash = gk_key_hash generated,
            ii_fingerprint = gk_fingerprint generated, ii_pepper_version = gk_pepper_version generated, ii_constraint = vq_constraint q,
            ii_value = v, ii_created_by_issuer = iss, ii_created_by_subject = actor_subject a, ii_created_by_actor_type = creator,
            ii_expires_at = ie_now ev + lifetime\<rparr>, gk_raw_key generated))))))"

definition create_invite ::
    "invite_secret_response serde \<Rightarrow> identity_env \<Rightarrow> request_context \<Rightarrow> actor \<Rightarrow> string option \<Rightarrow> invite_create_request \<Rightarrow> identity_db admin_state
      \<Rightarrow> (app_error + (invite_secret_response \<times> bool)) \<times> identity_db admin_state" where
  "create_invite sd ev ctx a iss q st =
     (case and_then (create_invite_checks ev a iss q) (\<lambda>x. and_then
             (command_spec ev ctx a ''admin_invite.create'' (JObject [(''constraint'', JString (constraint_label (vq_constraint q)))])
               (JObject [(''constraint'', JString (constraint_label (vq_constraint q))), (''value'', JString (vq_value q)),
                 (''expires_in_seconds'', JNumber (uint (vq_expires_in_seconds q)))])) (\<lambda>spec. Ok (x, spec))) of
        Err e \<Rightarrow> (Err e, st)
      | Ok ((i, secret), spec) \<Rightarrow>
          run_command sd ev spec
            (audited_mutation (insert_invite (ie_db_now ev) i)
              (\<lambda>row. success_audit a ctx ''admin_invite.create'' ''admin_invite'' (Some (ie_id_text ev (ai_invite_id row)))
                 (JObject [(''constraint'', JString (constraint_label (ai_constraint row))), (''value'', JString (ai_value row)),
                   (''expires_at'', ie_time ev (ai_expires_at row)), (''created_by_actor_type'', JString (ii_created_by_actor_type i))]))
              (invite_response sd ev secret)) st)"

definition get_invite :: "identity_env \<Rightarrow> actor \<Rightarrow> uuid \<Rightarrow> identity_db \<Rightarrow> app_error + admin_invite_record" where
  "get_invite ev a i db =
     and_then (require a ''moira:admins:read'') (\<lambda>_. map_sum (\<lambda>e. e) (invite_record (ie_now ev)) (identity_get_invite i db))"

definition revoke_invite ::
    "admin_invite_record serde \<Rightarrow> identity_env \<Rightarrow> request_context \<Rightarrow> actor \<Rightarrow> uuid \<Rightarrow> identity_db admin_state
      \<Rightarrow> (app_error + (admin_invite_record \<times> bool)) \<times> identity_db admin_state" where
  "revoke_invite sd ev ctx a i st =
     (case and_then (require a ''moira:admins:invite'') (\<lambda>_.
             command_spec ev ctx a ''admin_invite.revoke'' (JObject [(''invite_id'', JString (ie_id_text ev i))]) (JObject [])) of
        Err e \<Rightarrow> (Err e, st)
      | Ok spec \<Rightarrow>
          run_command sd ev spec
            (audited_mutation (identity_revoke_invite (ie_db_now ev) i)
              (\<lambda>row. success_audit a ctx ''admin_invite.revoke'' ''admin_invite'' (Some (ie_id_text ev (ai_invite_id row)))
                 (JObject [(''value'', JString (ai_value row))]))
              (\<lambda>row. AdminCommandMutation_new sd (invite_record (ie_now ev) row) 200 (Some (ie_id_text ev (ai_invite_id row))))) st)"

definition resolve_invite :: "identity_env \<Rightarrow> string \<Rightarrow> identity_db \<Rightarrow> app_error + admin_invite_row" where
  "resolve_invite ev token db =
     (let token = rust_trim token in
      if token = [] then Err invite_not_found
      else
        and_then (find_invite_by_prefix (key_prefix (ie_hasher ev) token) db) (\<lambda>found.
          case found of
            None \<Rightarrow> Err invite_not_found
          | Some candidate \<Rightarrow>
              and_then (hasher_verify_key (ie_crypto ev) (ie_argon2 ev) (ie_hasher ev) (ie_gate ev) token (ac_token_hash candidate)) (\<lambda>ok.
                if ok then Ok (ac_record candidate) else Err invite_not_found)))"

record invite_preview_response =
  vp_constraint :: admin_invite_constraint
  vp_value :: string
  vp_expires_at :: int

definition preview_invite :: "identity_env \<Rightarrow> string \<Rightarrow> identity_db \<Rightarrow> app_error + invite_preview_response" where
  "preview_invite ev token db =
     and_then (resolve_invite ev token db) (\<lambda>invite.
     and_then (require_redeemable (ie_now ev) invite) (\<lambda>_.
       Ok \<lparr>vp_constraint = ai_constraint invite, vp_value = ai_value invite, vp_expires_at = ai_expires_at invite\<rparr>))"

record invite_redeem_request =
  rq_token :: string
  rq_email :: string
  rq_email_verified :: bool

definition redeem_checks ::
    "identity_env \<Rightarrow> trusted_jwt_identity \<Rightarrow> invite_redeem_request \<Rightarrow> identity_db \<Rightarrow> app_error + (admin_invite_row \<times> admin_identity_grant_insert)" where
  "redeem_checks ev identity q db =
     and_then (resolve_invite ev (rq_token q) db) (\<lambda>invite.
     and_then (require_redeemable (ie_now ev) invite) (\<lambda>_.
       let email = rust_trim (rq_email q) in
       and_then (evaluate_invite_constraint invite email) (\<lambda>_.
       and_then (resolve_active_issuer (tj_issuer identity) db) (\<lambda>trusted_jwt_issuer_id.
       and_then (admission_policy (tj_issuer identity) trusted_jwt_issuer_id db) (\<lambda>policy.
       and_then (evaluate_claim_policy email (rq_email_verified q) policy) (\<lambda>_.
         Ok (invite, \<lparr>gi_id = ie_new_id ev, gi_trusted_jwt_issuer_id = trusted_jwt_issuer_id, gi_issuer = tj_issuer identity,
           gi_subject = tj_subject identity, gi_email = email, gi_email_verified = rq_email_verified q,
           gi_granted_scopes = [''moira:admin''], gi_granted_by_actor_type = ADMIN_INVITE_ACTOR_TYPE,
           gi_granted_by_subject = ai_created_by_subject invite\<rparr>)))))))"

definition redeem_grant ::
    "int \<Rightarrow> int \<Rightarrow> uuid \<Rightarrow> admin_identity_grant_insert \<Rightarrow> identity_db \<Rightarrow> app_error + (admin_identity_grant \<times> identity_db)" where
  "redeem_grant app_now now invite_id i db =
     and_then (insert_grant now i db) (\<lambda>(g, db).
     and_then (consume_invite app_now now invite_id (gi_issuer i) (gi_subject i) (ai_id g) db) (\<lambda>(_, db).
       Ok (g, mark_setup_claimed now (ai_id g) db)))"

text \<open>\<open>app_now\<close> is the clock when the invitation is consumed, after the checks.\<close>

definition redeem_invite ::
    "admin_identity_record serde \<Rightarrow> identity_env \<Rightarrow> int \<Rightarrow> request_context \<Rightarrow> trusted_jwt_identity \<Rightarrow> invite_redeem_request \<Rightarrow> identity_db
      \<Rightarrow> identity_db admin_state \<Rightarrow> (app_error + (admin_identity_record \<times> bool)) \<times> identity_db admin_state" where
  "redeem_invite sd ev app_now ctx identity q db st =
     (case and_then (redeem_checks ev identity q db) (\<lambda>(invite, i). and_then
             (command_spec ev ctx (redeem_actor identity (gi_trusted_jwt_issuer_id i)) ''admin_invite.redeem''
               (JObject [(''issuer'', JString (tj_issuer identity)), (''subject'', JString (tj_subject identity))])
               (JObject [(''invite_id'', JString (ie_id_text ev (ai_invite_id invite))), (''email'', JString (rust_trim (rq_email q))),
                 (''email_verified'', JBool (rq_email_verified q))])) (\<lambda>spec. Ok (invite, i, spec))) of
        Err e \<Rightarrow> (Err e, st)
      | Ok (invite, i, spec) \<Rightarrow>
          run_command sd ev spec
            (audited_mutation (redeem_grant app_now (ie_db_now ev) (ai_invite_id invite) i)
              (\<lambda>g. success_audit (redeem_actor identity (gi_trusted_jwt_issuer_id i)) ctx ''admin_invite.redeem'' ''admin_identity''
                 (Some (ie_id_text ev (ai_id g)))
                 (JObject (grant_metadata g @ [(''admin_invite_id'', JString (ie_id_text ev (ai_invite_id invite)))])))
              (grant_response sd ev ''moira.notice.admin_invite_redeemed'' 201)) st)"

definition require_primary_actor :: "actor \<Rightarrow> string option \<Rightarrow> identity_db \<Rightarrow> app_error + unit" where
  "require_primary_actor a iss db =
     (case actor_type a of
        SystemKey \<Rightarrow> Ok ()
      | DevAdmin \<Rightarrow> Ok ()
      | TrustedJwt \<Rightarrow>
          (case (iss, actor_subject a) of
             (Some i, Some subject) \<Rightarrow>
               and_then (identity_find_active_grant i subject db) (\<lambda>g.
                 if (case g of Some g \<Rightarrow> ai_is_primary g | None \<Rightarrow> False) then Ok () else Err not_primary)
           | _ \<Rightarrow> Err not_primary)
      | _ \<Rightarrow> Err not_primary)"

definition set_identity_primary ::
    "admin_identity_record serde \<Rightarrow> identity_env \<Rightarrow> request_context \<Rightarrow> actor \<Rightarrow> string option \<Rightarrow> uuid \<Rightarrow> int \<Rightarrow> bool \<Rightarrow> identity_db
      \<Rightarrow> identity_db admin_state \<Rightarrow> (app_error + (admin_identity_record \<times> bool)) \<times> identity_db admin_state" where
  "set_identity_primary sd ev ctx a iss i expected_version is_primary db st =
     (case and_then (require_primary_actor a iss db) (\<lambda>_. and_then
             (command_spec ev ctx a ''admin_identity.set_primary'' (JObject [(''admin_identity_id'', JString (ie_id_text ev i))])
               (JObject [(''is_primary'', JBool is_primary)])) (\<lambda>spec. Ok (with_expected_version (Some expected_version) spec))) of
        Err e \<Rightarrow> (Err e, st)
      | Ok spec \<Rightarrow>
          run_command sd ev spec
            (audited_mutation (set_primary (ie_id_text ev) i expected_version is_primary)
              (\<lambda>g. success_audit a ctx ''admin_identity.set_primary'' ''admin_identity'' (Some (ie_id_text ev (ai_id g)))
                 (JObject [(''issuer'', JString (ai_issuer g)), (''subject'', JString (ai_subject g)), (''is_primary'', JBool (ai_is_primary g))]))
              (grant_response sd ev ''moira.notice.admin_identity_claimed'' 200)) st)"

definition revoke_identity ::
    "admin_identity_record serde \<Rightarrow> identity_env \<Rightarrow> request_context \<Rightarrow> actor \<Rightarrow> string option \<Rightarrow> uuid \<Rightarrow> identity_db
      \<Rightarrow> identity_db admin_state \<Rightarrow> (app_error + (admin_identity_record \<times> bool)) \<times> identity_db admin_state" where
  "revoke_identity sd ev ctx a iss i db st =
     (case and_then (require_primary_actor a iss db) (\<lambda>_.
             command_spec ev ctx a ''admin_identity.revoke'' (JObject [(''admin_identity_id'', JString (ie_id_text ev i))]) (JObject [])) of
        Err e \<Rightarrow> (Err e, st)
      | Ok spec \<Rightarrow>
          run_command sd ev spec
            (audited_mutation (revoke_grant (ie_id_text ev) (ie_db_now ev) i)
              (\<lambda>g. success_audit a ctx ''admin_identity.revoke'' ''admin_identity'' (Some (ie_id_text ev (ai_id g)))
                 (JObject [(''issuer'', JString (ai_issuer g)), (''subject'', JString (ai_subject g))]))
              (grant_response sd ev ''moira.notice.admin_identity_revoked'' 200)) st)"

section \<open>One owner\<close>

text \<open>
  What holds of the grants: ids and identities are unique, nothing is deleted, and a table that is not empty has exactly
  one live primary.
\<close>

definition grants_ok :: "grant_row list \<Rightarrow> bool" where
  "grants_ok gs \<longleftrightarrow> distinct (map gr_id gs) \<and> distinct (map (\<lambda>r. (gr_issuer r, gr_subject r)) gs)
     \<and> (\<forall>r \<in> set gs. \<not> gr_deleted r \<and> (gr_status r = ''active'' \<or> gr_status r = ''revoked''))
     \<and> (gs \<noteq> [] \<longrightarrow> (\<exists>!r. r \<in> set gs \<and> live_primary r))"

text \<open>Rows keep their identity, and a revoked row stays revoked.\<close>

definition same_grant :: "grant_row \<Rightarrow> grant_row \<Rightarrow> bool" where
  "same_grant r r' \<longleftrightarrow> gr_id r' = gr_id r \<and> gr_issuer r' = gr_issuer r \<and> gr_subject r' = gr_subject r \<and> gr_email r' = gr_email r
     \<and> gr_email_verified r' = gr_email_verified r \<and> gr_granted_by_actor_type r' = gr_granted_by_actor_type r
     \<and> gr_deleted r' = gr_deleted r \<and> (gr_status r = ''revoked'' \<longrightarrow> gr_status r' = ''revoked'')"

lemma same_grant_refl [simp]: "same_grant r r"
  by (simp add: same_grant_def)

lemma same_grant_trans: "same_grant a b \<Longrightarrow> same_grant b c \<Longrightarrow> same_grant a c"
  by (simp add: same_grant_def)

lemma grants_ok_map:
  assumes "grants_ok gs" and same: "\<And>r. r \<in> set gs \<Longrightarrow> same_grant r (F r) \<and> (gr_status (F r) = ''active'' \<or> gr_status (F r) = ''revoked'')"
    and owner: "\<exists>r \<in> set gs. live_primary (F r) \<and> (\<forall>r' \<in> set gs. live_primary (F r') \<longrightarrow> r' = r)"
  shows "grants_ok (map F gs)"
proof -
  have ids: "map gr_id (map F gs) = map gr_id gs" "map (\<lambda>r. (gr_issuer r, gr_subject r)) (map F gs) = map (\<lambda>r. (gr_issuer r, gr_subject r)) gs"
    using same by (auto simp: same_grant_def)
  have one: "\<exists>!r. r \<in> set (map F gs) \<and> live_primary r" using owner by auto
  have rows: "\<forall>r \<in> set (map F gs). \<not> gr_deleted r \<and> (gr_status r = ''active'' \<or> gr_status r = ''revoked'')"
    using assms(1) same by (simp add: grants_ok_def same_grant_def)
  have "distinct (map gr_id gs)" "distinct (map (\<lambda>r. (gr_issuer r, gr_subject r)) gs)" using assms(1) by (simp_all add: grants_ok_def)
  then show ?thesis unfolding grants_ok_def ids using one rows by blast
qed

lemma live_primary_update [simp]: "live_primary (r\<lparr>gr_version := v\<rparr>) = live_primary r"
  "live_primary (r\<lparr>gr_is_primary := p\<rparr>) \<longleftrightarrow> grant_live r \<and> p" "grant_live (r\<lparr>gr_is_primary := p\<rparr>) = grant_live r"
  "grant_live (r\<lparr>gr_version := v\<rparr>) = grant_live r"
  by (simp_all add: live_primary_def grant_live_def)

lemma grant_from_row_Ok: "grant_from_row r = Ok g \<Longrightarrow>
    ai_id g = gr_id r \<and> ai_issuer g = gr_issuer r \<and> ai_subject g = gr_subject r \<and> ai_is_primary g = gr_is_primary r \<and> ai_version g = gr_version r
    \<and> (ai_status g = GrantActive \<longleftrightarrow> gr_status r = ''active'')"
  by (auto simp: grant_from_row_def admin_identity_status_from_db_def and_then_Ok_iff split: if_splits)

lemma ids_unique: "distinct (map f xs) \<Longrightarrow> x \<in> set xs \<Longrightarrow> y \<in> set xs \<Longrightarrow> f x = f y \<Longrightarrow> x = y"
  by (auto simp: distinct_map inj_on_def)

lemma find_SomeD: "find P xs = Some x \<Longrightarrow> x \<in> set xs \<and> P x"
  by (auto simp: find_Some_iff)

text \<open>The row a locked grant was read from.\<close>

lemma lock_grant_Ok:
  assumes "lock_grant id_text i db = Ok g"
  obtains r where "r \<in> set (id_grants db)" "gr_id r = i" "\<not> gr_deleted r" "grant_from_row r = Ok g"
  using assms by (auto simp: lock_grant_def split: option.splits dest!: find_SomeD)

lemma returning_grant_Ok:
  assumes "returning_grant missing hit f db = Ok (g, db')"
  obtains r where "r \<in> set (id_grants db)" "hit r" "db' = update_grants hit f db" "grant_from_row ((f r)\<lparr>gr_version := gr_version r + 1\<rparr>) = Ok g"
  using assms by (auto simp: returning_grant_def and_then_Ok_iff split: option.splits dest!: find_SomeD)

definition grants_follow :: "identity_db \<Rightarrow> identity_db \<Rightarrow> bool" where
  "grants_follow db db' \<longleftrightarrow> (\<forall>r \<in> set (id_grants db). \<exists>r' \<in> set (id_grants db'). same_grant r r')"

lemma grants_follow_refl [simp]: "id_grants db' = id_grants db \<Longrightarrow> grants_follow db db'"
  by (auto simp: grants_follow_def intro: same_grant_refl)

lemma grants_follow_trans: "grants_follow a b \<Longrightarrow> grants_follow b c \<Longrightarrow> grants_follow a c"
  unfolding grants_follow_def by (meson same_grant_trans)

lemma grants_follow_update:
  assumes "\<And>r. r \<in> set (id_grants db) \<Longrightarrow> hit r \<Longrightarrow> same_grant r (f r)"
  shows "grants_follow db (update_grants hit f db)"
proof -
  have "same_grant r (if hit r then (f r)\<lparr>gr_version := gr_version r + 1\<rparr> else r)" if "r \<in> set (id_grants db)" for r
    using assms [OF that] by (simp add: same_grant_def)
  then show ?thesis unfolding grants_follow_def update_grants_def by (simp del: if_image_distrib split del: if_split) blast
qed

lemma grants_follow_all2: "list_all2 same_grant (id_grants db) (id_grants db') \<Longrightarrow> grants_follow db db'"
  unfolding grants_follow_def by (metis in_set_conv_nth list_all2_conv_all_nth)

lemma insert_grant_ok:
  assumes "insert_grant now i db = Ok (g, db')" "grants_ok (id_grants db)"
  shows "grants_ok (id_grants db')" "grants_follow db db'" "id_invites db' = id_invites db"
    and "\<exists>r. id_grants db' = id_grants db @ [r] \<and> gr_id r = gi_id i \<and> gr_issuer r = gi_issuer i \<and> gr_subject r = gi_subject i
      \<and> gr_email r = Some (gi_email i) \<and> gr_email_verified r = gi_email_verified i \<and> gr_granted_by_actor_type r = gi_granted_by_actor_type i
      \<and> gr_status r = ''active'' \<and> ai_id g = gi_id i \<and> gi_id i \<notin> gr_id ` set (id_grants db) \<and> gr_granted_scopes r = gi_granted_scopes i"
proof -
  define r where "r = \<lparr>gr_id = gi_id i, gr_trusted_jwt_issuer_id = gi_trusted_jwt_issuer_id i, gr_issuer = gi_issuer i, gr_subject = gi_subject i,
       gr_email = Some (gi_email i), gr_email_verified = gi_email_verified i, gr_granted_scopes = gi_granted_scopes i,
       gr_granted_by_actor_type = gi_granted_by_actor_type i, gr_granted_by_subject = gi_granted_by_subject i,
       gr_is_primary = (\<not> list_ex live_primary (id_grants db)), gr_status = ''active'', gr_created_at = now,
       gr_revoked_at = None, gr_deleted = False, gr_version = 1\<rparr>"
  have new: "\<forall>x \<in> set (id_grants db). gr_id x \<noteq> gi_id i \<and> \<not> (gr_issuer x = gi_issuer i \<and> gr_subject x = gi_subject i)"
    and db': "db' = db\<lparr>id_grants := id_grants db @ [r]\<rparr>" and g: "grant_from_row r = Ok g"
    using assms by (auto simp: insert_grant_def r_def Let_def and_then_Ok_iff grants_ok_def split: if_splits)
  have "\<exists>!x. x \<in> set (id_grants db @ [r]) \<and> live_primary x"
  proof (cases "id_grants db = []")
    case True
    then have "live_primary r" by (simp add: r_def live_primary_def grant_live_def)
    then show ?thesis unfolding True by (intro ex1I [of _ r]) auto
  next
    case False
    then have "\<exists>!x. x \<in> set (id_grants db) \<and> live_primary x" using assms(2) by (simp add: grants_ok_def)
    moreover from this have "\<not> live_primary r" unfolding live_primary_def [of r] by (auto simp: r_def list_ex_iff)
    ultimately show ?thesis by (metis (no_types, lifting) Un_iff empty_iff empty_set insert_iff list.set(2) set_append)
  qed
  moreover have "\<not> gr_deleted r" "gr_status r = ''active''" by (simp_all add: r_def)
  moreover have "gr_id r = gi_id i" "gr_issuer r = gi_issuer i" "gr_subject r = gi_subject i" by (simp_all add: r_def)
  moreover have "distinct (map gr_id (id_grants db @ [r]))" "distinct (map (\<lambda>r. (gr_issuer r, gr_subject r)) (id_grants db @ [r]))"
    using assms(2) new by (auto simp: grants_ok_def r_def)
  ultimately show "grants_ok (id_grants db')" using assms(2) unfolding db' grants_ok_def by simp
  show "grants_follow db db'" by (auto simp: grants_follow_def db' intro: same_grant_refl)
  show "id_invites db' = id_invites db" by (simp add: db')
  have "ai_id g = gi_id i" using grant_from_row_Ok [OF g] by (simp add: r_def)
  then show "\<exists>r. id_grants db' = id_grants db @ [r] \<and> gr_id r = gi_id i \<and> gr_issuer r = gi_issuer i \<and> gr_subject r = gi_subject i
      \<and> gr_email r = Some (gi_email i) \<and> gr_email_verified r = gi_email_verified i \<and> gr_granted_by_actor_type r = gi_granted_by_actor_type i
      \<and> gr_status r = ''active'' \<and> ai_id g = gi_id i \<and> gi_id i \<notin> gr_id ` set (id_grants db) \<and> gr_granted_scopes r = gi_granted_scopes i"
    using new by (intro exI [of _ r]) (auto simp: db' r_def)
qed

lemma owner_unique: "grants_ok gs \<Longrightarrow> r \<in> set gs \<Longrightarrow> live_primary r \<Longrightarrow> r' \<in> set gs \<Longrightarrow> live_primary r' \<Longrightarrow> r' = r"
  by (auto simp: grants_ok_def)

lemma owner_exists: "grants_ok gs \<Longrightarrow> r \<in> set gs \<Longrightarrow> \<exists>o' \<in> set gs. live_primary o' \<and> (\<forall>r' \<in> set gs. live_primary r' \<longrightarrow> r' = o')"
  by (auto simp: grants_ok_def)

lemma no_other_primary:
  assumes "grants_ok (id_grants db)" "r \<in> set (id_grants db)" "live_primary r"
  shows "require_another_active_primary (gr_id r) db = Err last_primary"
  using owner_unique [OF assms] by (auto simp: require_another_active_primary_def list_ex_iff)

lemma set_primary_ok:
  assumes "set_primary id_text i v is_primary db = Ok (g, db')" "grants_ok (id_grants db)"
  shows "grants_ok (id_grants db') \<and> list_all2 same_grant (id_grants db) (id_grants db') \<and> id_invites db' = id_invites db"
proof -
  from assms(1) obtain current where lock: "lock_grant id_text i db = Ok current" and active: "ai_status current = GrantActive"
    and ver: "ai_version current = v"
    and other: "(if ai_is_primary current \<and> \<not> is_primary then require_another_active_primary i db else Ok ()) = Ok ()"
    and ret: "returning_grant version_conflict (\<lambda>r. gr_id r = i \<and> \<not> gr_deleted r \<and> gr_version r = v) (\<lambda>r. r\<lparr>gr_is_primary := is_primary\<rparr>)
       (if is_primary \<and> \<not> ai_is_primary current then demote_active_primaries_other_than i db else db) = Ok (g, db')"
    by (auto simp: set_primary_def Let_def and_then_Ok_iff split: if_splits)
  obtain r0 where r0: "r0 \<in> set (id_grants db)" "gr_id r0 = i" "\<not> gr_deleted r0" "grant_from_row r0 = Ok current"
    using lock_grant_Ok [OF lock] .
  have cur: "grant_live r0" "gr_version r0 = v" "ai_is_primary current = gr_is_primary r0" "live_primary r0 = gr_is_primary r0"
    using grant_from_row_Ok [OF r0(4)] active ver r0(3) by (auto simp: grant_live_def live_primary_def)
  have same_id: "r = r0" if "r \<in> set (id_grants db)" "gr_id r = i" for r
    using ids_unique [of gr_id "id_grants db" r r0] assms(2) r0(1,2) that by (simp add: grants_ok_def)
  have keep: "\<not> (gr_is_primary r0 \<and> \<not> is_primary)"
    using other no_other_primary [OF assms(2) r0(1)] r0(2) cur(3,4) by (auto split: if_splits)
  define D where "D = (\<lambda>r. if is_primary \<and> \<not> gr_is_primary r0 \<and> live_primary r \<and> gr_id r \<noteq> i then r\<lparr>gr_is_primary := False, gr_version := gr_version r + 1\<rparr> else r)"
  define G where "G = (\<lambda>r. if gr_id r = i \<and> gr_version r = v then r\<lparr>gr_is_primary := is_primary, gr_version := gr_version r + 1\<rparr> else D r)"
  have ok: "\<not> gr_deleted r \<and> (gr_status r = ''active'' \<or> gr_status r = ''revoked'')" if "r \<in> set (id_grants db)" for r
    using assms(2) that by (auto simp: grants_ok_def)
  let ?d = "if is_primary \<and> \<not> ai_is_primary current then demote_active_primaries_other_than i db else db"
  have d: "id_grants ?d = map D (id_grants db)" "id_invites ?d = id_invites db"
    by (auto simp: D_def demote_active_primaries_other_than_def update_grants_def cur(3) intro!: map_idI [symmetric])
  have upd: "db' = update_grants (\<lambda>r. gr_id r = i \<and> \<not> gr_deleted r \<and> gr_version r = v) (\<lambda>r. r\<lparr>gr_is_primary := is_primary\<rparr>) ?d"
    using returning_grant_Ok [OF ret] by blast
  have "id_grants db' = map G (id_grants db)" "id_invites db' = id_invites db"
    unfolding upd update_grants_def d using ok by (auto simp: d G_def D_def)
  moreover have same: "same_grant r (G r) \<and> gr_status (G r) = gr_status r" for r
    by (simp add: G_def D_def same_grant_def)
  moreover have "\<exists>r \<in> set (id_grants db). live_primary (G r) \<and> (\<forall>r' \<in> set (id_grants db). live_primary (G r') \<longrightarrow> r' = r)"
  proof (cases "is_primary \<and> \<not> gr_is_primary r0")
    case True
    then have "live_primary (G r) \<longleftrightarrow> r = r0" if "r \<in> set (id_grants db)" for r
      using same_id [OF that] cur(1,2) r0(2) by (auto simp: G_def D_def)
    then show ?thesis using r0(1) by blast
  next
    case False
    then have "live_primary (G r) = live_primary r" if "r \<in> set (id_grants db)" for r
      using same_id [OF that] cur keep r0(2) by (auto simp: G_def D_def)
    then show ?thesis using owner_exists [OF assms(2) r0(1)] by simp
  qed
  ultimately show ?thesis
    using grants_ok_map [OF assms(2), of G] ok by (auto simp: list_all2_map2 list.rel_refl)
qed

lemma revoke_grant_ok:
  assumes "revoke_grant id_text now i db = Ok (g, db')" "grants_ok (id_grants db)"
  shows "grants_ok (id_grants db') \<and> list_all2 same_grant (id_grants db) (id_grants db') \<and> id_invites db' = id_invites db
    \<and> (\<exists>r \<in> set (id_grants db'). gr_id r = i \<and> gr_issuer r = ai_issuer g \<and> gr_subject r = ai_subject g \<and> gr_status r = ''revoked'')"
proof -
  from assms(1) obtain current where lock: "lock_grant id_text i db = Ok current" and active: "ai_status current = GrantActive"
    and other: "(if ai_is_primary current then require_another_active_primary i db else Ok ()) = Ok ()"
    and ret: "returning_grant (already_revoked id_text i) (\<lambda>r. gr_id r = i \<and> grant_live r)
       (\<lambda>r. r\<lparr>gr_status := ''revoked'', gr_revoked_at := Some now, gr_is_primary := False\<rparr>) db = Ok (g, db')"
    by (auto simp: revoke_grant_def and_then_Ok_iff split: if_splits)
  obtain r0 where r0: "r0 \<in> set (id_grants db)" "gr_id r0 = i" "\<not> gr_deleted r0" "grant_from_row r0 = Ok current"
    using lock_grant_Ok [OF lock] .
  have cur: "grant_live r0" "ai_is_primary current = gr_is_primary r0" "live_primary r0 = gr_is_primary r0"
    using grant_from_row_Ok [OF r0(4)] active r0(3) by (auto simp: grant_live_def live_primary_def)
  have same_id: "r = r0" if "r \<in> set (id_grants db)" "gr_id r = i" for r
    using ids_unique [of gr_id "id_grants db" r r0] assms(2) r0(1,2) that by (simp add: grants_ok_def)
  have np: "\<not> live_primary r0"
    using other no_other_primary [OF assms(2) r0(1)] r0(2) cur(2,3) by (auto split: if_splits)
  define G where "G = (\<lambda>r. if gr_id r = i \<and> grant_live r
    then r\<lparr>gr_status := ''revoked'', gr_revoked_at := Some now, gr_is_primary := False, gr_version := gr_version r + 1\<rparr> else r)"
  have ok: "\<not> gr_deleted r \<and> (gr_status r = ''active'' \<or> gr_status r = ''revoked'')" if "r \<in> set (id_grants db)" for r
    using assms(2) that by (auto simp: grants_ok_def)
  obtain r1 where r1: "r1 \<in> set (id_grants db)" "gr_id r1 = i \<and> grant_live r1"
    and upd: "db' = update_grants (\<lambda>r. gr_id r = i \<and> grant_live r) (\<lambda>r. r\<lparr>gr_status := ''revoked'', gr_revoked_at := Some now, gr_is_primary := False\<rparr>) db"
    and g: "grant_from_row (r1\<lparr>gr_status := ''revoked'', gr_revoked_at := Some now, gr_is_primary := False, gr_version := gr_version r1 + 1\<rparr>) = Ok g"
    using returning_grant_Ok [OF ret] .
  have db': "id_grants db' = map G (id_grants db)" "id_invites db' = id_invites db"
    unfolding upd update_grants_def G_def by simp_all
  have same: "same_grant r (G r) \<and> (gr_status (G r) = gr_status r \<or> gr_status (G r) = ''revoked'')" for r
    by (simp add: G_def same_grant_def)
  have "live_primary (G r) = live_primary r" if "r \<in> set (id_grants db)" for r
    using same_id [OF that] np by (auto simp: G_def live_primary_def)
  then have "\<exists>r \<in> set (id_grants db). live_primary (G r) \<and> (\<forall>r' \<in> set (id_grants db). live_primary (G r') \<longrightarrow> r' = r)"
    using owner_exists [OF assms(2) r0(1)] by simp
  moreover have "G r0 \<in> set (id_grants db')" "gr_status (G r0) = ''revoked''" "gr_id (G r0) = i" "gr_issuer (G r0) = gr_issuer r0" "gr_subject (G r0) = gr_subject r0"
    using r0 cur(1) db'(1) by (auto simp: G_def)
  moreover have "ai_issuer g = gr_issuer r0" "ai_subject g = gr_subject r0"
    using grant_from_row_Ok [OF g] same_id r1 by auto
  moreover have "list_all2 same_grant (id_grants db) (id_grants db')" unfolding db' by (simp add: list_all2_map2 list.rel_refl same)
  moreover have "same_grant r (G r) \<and> (gr_status (G r) = ''active'' \<or> gr_status (G r) = ''revoked'')" if "r \<in> set (id_grants db)" for r
    using same [of r] ok [OF that] by metis
  ultimately show ?thesis using grants_ok_map [OF assms(2), of G] db' by metis
qed

section \<open>Invitations are used once\<close>

text \<open>A row that is not pending never changes again, and no row changes what it was issued for.\<close>

definition same_invite :: "invite_row \<Rightarrow> invite_row \<Rightarrow> bool" where
  "same_invite iv iv' \<longleftrightarrow> iv_id iv' = iv_id iv \<and> iv_email_constraint iv' = iv_email_constraint iv \<and> iv_domain_constraint iv' = iv_domain_constraint iv
     \<and> iv_expires_at iv' = iv_expires_at iv \<and> iv_deleted iv' = iv_deleted iv \<and> (iv_status iv \<noteq> ''pending'' \<longrightarrow> iv' = iv)"

lemma same_invite_refl [simp]: "same_invite iv iv"
  by (simp add: same_invite_def)

lemma same_invite_trans: "same_invite a b \<Longrightarrow> same_invite b c \<Longrightarrow> same_invite a c"
  by (auto simp: same_invite_def)

definition invites_follow :: "identity_db \<Rightarrow> identity_db \<Rightarrow> bool" where
  "invites_follow db db' \<longleftrightarrow> (\<forall>iv \<in> set (id_invites db). \<exists>iv' \<in> set (id_invites db'). same_invite iv iv')"

lemma invites_follow_refl [simp]: "id_invites db' = id_invites db \<Longrightarrow> invites_follow db db'"
  by (auto simp: invites_follow_def intro: same_invite_refl)

lemma invites_follow_trans: "invites_follow a b \<Longrightarrow> invites_follow b c \<Longrightarrow> invites_follow a c"
  unfolding invites_follow_def by (meson same_invite_trans)

definition invites_ok :: "invite_row list \<Rightarrow> bool" where
  "invites_ok ivs \<longleftrightarrow> distinct (map iv_id ivs)
     \<and> (\<forall>iv \<in> set ivs. \<not> iv_deleted iv \<and> (iv_email_constraint iv = None) \<noteq> (iv_domain_constraint iv = None))"

lemma invites_ok_map:
  assumes "invites_ok ivs" "\<And>iv. same_invite iv (F iv)"
  shows "invites_ok (map F ivs)"
proof -
  have "map iv_id (map F ivs) = map iv_id ivs" using assms(2) by (simp add: same_invite_def)
  moreover have "\<forall>iv \<in> set (map F ivs). \<not> iv_deleted iv \<and> (iv_email_constraint iv = None) \<noteq> (iv_domain_constraint iv = None)"
    using assms by (simp add: invites_ok_def same_invite_def)
  ultimately show ?thesis using assms(1) unfolding invites_ok_def by metis
qed

lemma insert_invite_ok:
  assumes "insert_invite now i db = Ok (row, db')" "invites_ok (id_invites db)"
  shows "invites_ok (id_invites db') \<and> invites_follow db db' \<and> id_grants db' = id_grants db
    \<and> (\<exists>iv. id_invites db' = id_invites db @ [iv] \<and> iv_status iv = ''pending'')"
proof -
  obtain iv where iv: "db' = db\<lparr>id_invites := id_invites db @ [iv]\<rparr>" "iv_id iv = ii_id i" "iv_status iv = ''pending''" "\<not> iv_deleted iv"
    "(iv_email_constraint iv = None) \<noteq> (iv_domain_constraint iv = None)" and new: "ii_id i \<notin> iv_id ` set (id_invites db)"
    using assms(1) by (cases "ii_constraint i") (force simp: insert_invite_def Let_def and_then_Ok_iff split: if_splits)+
  then have "invites_ok (id_invites db')" using assms(2) by (simp add: invites_ok_def)
  then show ?thesis using iv by (auto simp: invites_follow_def intro: same_invite_refl)
qed

text \<open>An update of a pending invitation.\<close>

lemma returning_invite_Ok:
  assumes "returning_invite missing i f db = Ok (row, db')"
    and "\<And>iv. iv_status iv = ''pending'' \<Longrightarrow> same_invite iv ((f iv)\<lparr>iv_version := iv_version iv + 1\<rparr>)" "invites_ok (id_invites db)"
  shows "\<exists>F. db' = db\<lparr>id_invites := map F (id_invites db)\<rparr> \<and> (\<forall>iv. same_invite iv (F iv)) \<and>
    (\<exists>iv \<in> set (id_invites db). iv_id iv = i \<and> iv_status iv = ''pending'' \<and> F iv = (f iv)\<lparr>iv_version := iv_version iv + 1\<rparr>
      \<and> (\<forall>iv' \<in> set (id_invites db). iv' \<noteq> iv \<longrightarrow> F iv' = iv'))"
proof -
  let ?F = "\<lambda>iv. if iv_id iv = i \<and> \<not> iv_deleted iv \<and> iv_status iv = ''pending'' then (f iv)\<lparr>iv_version := iv_version iv + 1\<rparr> else iv"
  obtain iv where find: "find (\<lambda>r. iv_id r = i \<and> \<not> iv_deleted r \<and> iv_status r = ''pending'') (id_invites db) = Some iv"
    using assms(1) unfolding returning_invite_def Let_def by (cases "find (\<lambda>r. iv_id r = i \<and> \<not> iv_deleted r \<and> iv_status r = ''pending'') (id_invites db)") simp_all
  then have iv: "iv \<in> set (id_invites db)" "iv_id iv = i" "\<not> iv_deleted iv" "iv_status iv = ''pending''" using find_SomeD [OF find] by blast+
  have db': "db' = db\<lparr>id_invites := map ?F (id_invites db)\<rparr>"
    using assms(1) unfolding returning_invite_def Let_def find by (simp add: and_then_Ok_iff)
  have "iv' = iv" if "iv' \<in> set (id_invites db)" "iv_id iv' = i" for iv'
    using ids_unique [of iv_id "id_invites db" iv' iv] assms(3) iv(1,2) that by (simp add: invites_ok_def)
  moreover have "same_invite iv' (?F iv')" for iv' using assms(2) [of iv'] by simp
  ultimately have "(\<forall>iv. same_invite iv (?F iv)) \<and> (\<forall>iv' \<in> set (id_invites db). iv' \<noteq> iv \<longrightarrow> ?F iv' = iv')" by (metis (no_types, lifting))
  moreover have "?F iv = (f iv)\<lparr>iv_version := iv_version iv + 1\<rparr>" using iv by simp
  ultimately show ?thesis using iv(1,2,4) db' by blast
qed

lemma identity_revoke_invite_ok:
  assumes "identity_revoke_invite now i db = Ok (row, db')" "invites_ok (id_invites db)"
  shows "\<exists>F. db' = db\<lparr>id_invites := map F (id_invites db)\<rparr> \<and> (\<forall>iv. same_invite iv (F iv)) \<and>
    (\<exists>iv \<in> set (id_invites db). iv_id iv = i \<and> iv_status iv = ''pending'' \<and> iv_status (F iv) = ''revoked''
      \<and> (\<forall>iv' \<in> set (id_invites db). iv' \<noteq> iv \<longrightarrow> F iv' = iv'))"
proof -
  have "same_invite iv ((iv\<lparr>iv_status := ''revoked'', iv_revoked_at := Some now\<rparr>)\<lparr>iv_version := iv_version iv + 1\<rparr>)" if "iv_status iv = ''pending''" for iv
    using that by (simp add: same_invite_def)
  from returning_invite_Ok [OF assms(1) [unfolded identity_revoke_invite_def] this assms(2)]
  obtain F iv where "db' = db\<lparr>id_invites := map F (id_invites db)\<rparr>" "\<forall>iv. same_invite iv (F iv)" "iv \<in> set (id_invites db)" "iv_id iv = i" "iv_status iv = ''pending''"
    "F iv = (iv\<lparr>iv_status := ''revoked'', iv_revoked_at := Some now\<rparr>)\<lparr>iv_version := iv_version iv + 1\<rparr>" "\<forall>iv' \<in> set (id_invites db). iv' \<noteq> iv \<longrightarrow> F iv' = iv'"
    by blast
  moreover from this(6) have "iv_status (F iv) = ''revoked''" by simp
  ultimately show ?thesis by blast
qed

text \<open>What an invitation admits, and the grant it was redeemed for.\<close>

definition invite_admits :: "invite_row \<Rightarrow> string \<Rightarrow> bool" where
  "invite_admits iv email \<longleftrightarrow> (\<exists>row. invite_from_row iv = Ok row \<and> evaluate_invite_constraint row email = Ok ())"

definition redeemed_for :: "invite_row \<Rightarrow> grant_row \<Rightarrow> bool" where
  "redeemed_for iv g \<longleftrightarrow> iv_status iv = ''consumed'' \<and> iv_consumed_admin_identity_id iv = Some (gr_id g)
     \<and> iv_consumed_issuer iv = Some (gr_issuer g) \<and> iv_consumed_subject iv = Some (gr_subject g)
     \<and> gr_email_verified g \<and> (\<exists>email. gr_email g = Some email \<and> invite_admits iv email)"

definition by_invite :: "grant_row \<Rightarrow> bool" where
  "by_invite g \<longleftrightarrow> gr_granted_by_actor_type g = ADMIN_INVITE_ACTOR_TYPE"

definition matched :: "grant_row list \<Rightarrow> invite_row list \<Rightarrow> bool" where
  "matched gs ivs \<longleftrightarrow> (\<forall>g \<in> set gs. by_invite g \<longrightarrow> (\<exists>iv \<in> set ivs. redeemed_for iv g))
     \<and> (\<forall>iv \<in> set ivs. iv_status iv = ''consumed'' \<longrightarrow> (\<exists>g \<in> set gs. by_invite g \<and> redeemed_for iv g))
     \<and> (\<forall>iv \<in> set ivs. \<forall>iv' \<in> set ivs. iv_status iv = ''consumed'' \<and> iv_status iv' = ''consumed''
          \<and> iv_consumed_admin_identity_id iv = iv_consumed_admin_identity_id iv' \<longrightarrow> iv = iv')"

definition identity_inv :: "identity_db \<Rightarrow> bool" where
  "identity_inv db \<longleftrightarrow> grants_ok (id_grants db) \<and> invites_ok (id_invites db) \<and> matched (id_grants db) (id_invites db)"

lemma same_grant_redeemed: "same_grant g g' \<Longrightarrow> redeemed_for iv g' = redeemed_for iv g \<and> by_invite g' = by_invite g"
  by (simp add: same_grant_def redeemed_for_def by_invite_def)

lemma matched_grants_changed:
  assumes "matched gs ivs" "list_all2 same_grant gs gs'"
  shows "matched gs' ivs"
proof -
  have fwd: "\<exists>g' \<in> set gs'. same_grant g g'" if "g \<in> set gs" for g using assms(2) that by (metis in_set_conv_nth list_all2_conv_all_nth)
  have bwd: "\<exists>g \<in> set gs. same_grant g g'" if "g' \<in> set gs'" for g' using assms(2) that by (metis in_set_conv_nth list_all2_conv_all_nth)
  have "\<forall>g \<in> set gs'. by_invite g \<longrightarrow> (\<exists>iv \<in> set ivs. redeemed_for iv g)"
    using assms(1) bwd same_grant_redeemed unfolding matched_def by metis
  moreover have "\<forall>iv \<in> set ivs. iv_status iv = ''consumed'' \<longrightarrow> (\<exists>g \<in> set gs'. by_invite g \<and> redeemed_for iv g)"
    using assms(1) fwd same_grant_redeemed unfolding matched_def by metis
  ultimately show ?thesis using assms(1) unfolding matched_def by blast
qed

text \<open>A grant by another credential, and an invitation that is not consumed, leave the pairs as they were.\<close>

lemma matched_other_grant: "matched gs ivs \<Longrightarrow> \<not> by_invite g \<Longrightarrow> matched (gs @ [g]) ivs"
  unfolding matched_def by auto

lemma matched_other_invite: "matched gs ivs \<Longrightarrow> iv_status iv \<noteq> ''consumed'' \<Longrightarrow> matched gs (ivs @ [iv])"
  unfolding matched_def by auto

lemma consume_invite_ok:
  assumes "consume_invite app_now now i iss subject gid db = Ok (row, db')" "invites_ok (id_invites db)"
  shows "\<exists>F iv. db' = db\<lparr>id_invites := map F (id_invites db)\<rparr> \<and> (\<forall>iv. same_invite iv (F iv)) \<and> iv \<in> set (id_invites db) \<and> iv_id iv = i
    \<and> iv_status iv = ''pending'' \<and> app_now < iv_expires_at iv
    \<and> iv_status (F iv) = ''consumed'' \<and> iv_consumed_issuer (F iv) = Some iss \<and> iv_consumed_subject (F iv) = Some subject
    \<and> iv_consumed_admin_identity_id (F iv) = Some gid \<and> (\<forall>iv' \<in> set (id_invites db). iv' \<noteq> iv \<longrightarrow> F iv' = iv')"
proof -
  let ?f = "\<lambda>r. r\<lparr>iv_status := ''consumed'', iv_consumed_at := Some now, iv_consumed_issuer := Some iss,
      iv_consumed_subject := Some subject, iv_consumed_admin_identity_id := Some gid\<rparr>"
  from assms(1) obtain locked where l: "identity_get_invite i db = Ok locked" "\<not> invite_is_expired locked app_now"
    and ret: "returning_invite already_consumed i ?f db = Ok (row, db')"
    by (auto simp: consume_invite_def and_then_Ok_iff split: admin_invite_status.splits if_splits) (metis admin_invite_status.exhaust)+
  have same: "same_invite iv ((?f iv)\<lparr>iv_version := iv_version iv + 1\<rparr>)" if "iv_status iv = ''pending''" for iv
    using that by (simp add: same_invite_def)
  obtain F iv where F: "db' = db\<lparr>id_invites := map F (id_invites db)\<rparr>" "\<forall>iv. same_invite iv (F iv)" "iv \<in> set (id_invites db)" "iv_id iv = i"
      "iv_status iv = ''pending''" "F iv = (?f iv)\<lparr>iv_version := iv_version iv + 1\<rparr>" "\<forall>iv' \<in> set (id_invites db). iv' \<noteq> iv \<longrightarrow> F iv' = iv'"
    using returning_invite_Ok [OF ret same assms(2)] by blast
  obtain iv2 where "iv2 \<in> set (id_invites db)" "iv_id iv2 = i" "invite_from_row iv2 = Ok locked"
    using l(1) by (auto simp: identity_get_invite_def split: option.splits dest!: find_SomeD)
  moreover from this(1,2) have "iv2 = iv"
    using ids_unique [of iv_id "id_invites db" iv2 iv] assms(2) F(3,4) by (simp add: invites_ok_def)
  ultimately have "ai_expires_at locked = iv_expires_at iv" by (auto simp: invite_from_row_def and_then_Ok_iff)
  then have "app_now < iv_expires_at iv" using l(2) by (simp add: invite_is_expired_def)
  moreover have "iv_status (F iv) = ''consumed''" "iv_consumed_issuer (F iv) = Some iss" "iv_consumed_subject (F iv) = Some subject"
    "iv_consumed_admin_identity_id (F iv) = Some gid" by (simp_all add: F(6))
  ultimately show ?thesis using F(1-5,7) by blast
qed

text \<open>Rows with the same constraint admit the same addresses.\<close>

lemma invite_from_row_Ok:
  assumes "invite_from_row iv = Ok row"
  shows "ai_invite_id row = iv_id iv"
    "(ai_constraint row, ai_value row) = (case iv_email_constraint iv of Some e \<Rightarrow> (EmailConstraint, e) | None \<Rightarrow> (DomainConstraint, the (iv_domain_constraint iv)))"
  using assms by (auto simp: invite_from_row_def and_then_Ok_iff split: option.splits)

lemma evaluate_same_constraint:
  "ai_constraint row = ai_constraint row' \<Longrightarrow> ai_value row = ai_value row' \<Longrightarrow> evaluate_invite_constraint row = evaluate_invite_constraint row'"
  by (rule ext) (simp add: evaluate_invite_constraint_def split: option.split)

lemma invite_from_row_total:
  "(iv_email_constraint iv = None) \<noteq> (iv_domain_constraint iv = None) \<Longrightarrow> iv_status iv = ''consumed'' \<Longrightarrow> \<exists>row. invite_from_row iv = Ok row"
  by (auto simp: invite_from_row_def invite_status_from_db_def and_then_def)

lemma invite_admits_same:
  assumes "invite_from_row iv = Ok row" "evaluate_invite_constraint row email = Ok ()" "same_invite iv iv'" "iv_status iv' = ''consumed''"
  shows "invite_admits iv' email"
proof -
  have "(iv_email_constraint iv' = None) \<noteq> (iv_domain_constraint iv' = None)"
    using assms(1,3) by (auto simp: invite_from_row_def and_then_Ok_iff same_invite_def split: option.splits)
  then obtain row' where row': "invite_from_row iv' = Ok row'" using invite_from_row_total assms(4) by blast
  have "(ai_constraint row', ai_value row') = (ai_constraint row, ai_value row)"
    using invite_from_row_Ok(2) [OF assms(1)] invite_from_row_Ok(2) [OF row'] assms(3) by (simp add: same_invite_def split: option.split)
  then have "evaluate_invite_constraint row' email = Ok ()"
    using evaluate_same_constraint [of row' row] assms(2) by simp
  then show ?thesis using row' by (auto simp: invite_admits_def)
qed

lemma matched_invites_changed:
  assumes "matched gs ivs" "\<And>iv. same_invite iv (F iv)" "\<And>iv. iv \<in> set ivs \<Longrightarrow> iv_status (F iv) = ''consumed'' \<Longrightarrow> F iv = iv"
  shows "matched gs (map F ivs)"
proof -
  have keep: "F iv = iv" if "iv_status iv = ''consumed''" for iv using assms(2) [of iv] that by (simp add: same_invite_def)
  have "\<exists>iv \<in> set (map F ivs). redeemed_for iv g" if "g \<in> set gs" "by_invite g" for g
  proof -
    obtain iv where iv: "iv \<in> set ivs" "redeemed_for iv g" using assms(1) \<open>g \<in> set gs\<close> \<open>by_invite g\<close> unfolding matched_def by blast
    then have "F iv = iv" using keep by (simp add: redeemed_for_def)
    then show ?thesis using iv by (metis image_eqI list.set_map)
  qed
  moreover have "iv \<in> set ivs" if "iv \<in> set (map F ivs)" "iv_status iv = ''consumed''" for iv
    using that assms(3) by (metis imageE list.set_map)
  ultimately show ?thesis using assms(1) unfolding matched_def by blast
qed

text \<open>A redemption adds a grant and consumes the invitation for it.\<close>

lemma matched_redeemed:
  assumes m: "matched gs ivs" and fresh: "gr_id g \<notin> gr_id ` set gs" and F: "\<And>iv. same_invite iv (F iv)"
    and iv: "iv \<in> set ivs" "iv_status iv = ''pending''" "\<And>iv'. iv' \<in> set ivs \<Longrightarrow> iv' \<noteq> iv \<Longrightarrow> F iv' = iv'"
    and new: "redeemed_for (F iv) g" "by_invite g"
  shows "matched (gs @ [g]) (map F ivs)"
proof -
  have keep: "F iv' = iv'" if "iv_status iv' = ''consumed''" for iv' using F [of iv'] that by (simp add: same_invite_def)
  have old: "iv' \<in> set ivs \<or> iv' = F iv" if "iv' \<in> set (map F ivs)" for iv'
    using that iv(3) by (metis imageE list.set_map)
  have linked: "\<exists>g' \<in> set gs. iv_consumed_admin_identity_id iv' = Some (gr_id g')" if "iv' \<in> set ivs" "iv_status iv' = ''consumed''" for iv'
    using m that unfolding matched_def redeemed_for_def by blast
  have other: "iv_consumed_admin_identity_id iv' \<noteq> Some (gr_id g)" if "iv' \<in> set ivs" "iv_status iv' = ''consumed''" for iv'
    using linked [OF that] fresh by force
  have gid: "iv_consumed_admin_identity_id (F iv) = Some (gr_id g)" using new(1) by (simp add: redeemed_for_def)
  have "\<exists>iv' \<in> set (map F ivs). redeemed_for iv' g'" if "g' \<in> set gs" "by_invite g'" for g'
  proof -
    obtain iv' where iv': "iv' \<in> set ivs" "redeemed_for iv' g'" using m \<open>g' \<in> set gs\<close> \<open>by_invite g'\<close> unfolding matched_def by blast
    then have "F iv' = iv'" using keep by (simp add: redeemed_for_def)
    then show ?thesis using iv' by (metis image_eqI list.set_map)
  qed
  then have one: "\<forall>g' \<in> set (gs @ [g]). by_invite g' \<longrightarrow> (\<exists>iv' \<in> set (map F ivs). redeemed_for iv' g')"
    using new(1) iv(1) by auto
  have two: "\<forall>iv' \<in> set (map F ivs). iv_status iv' = ''consumed'' \<longrightarrow> (\<exists>g' \<in> set (gs @ [g]). by_invite g' \<and> redeemed_for iv' g')"
  proof (intro ballI impI)
    fix iv' assume "iv' \<in> set (map F ivs)" "iv_status iv' = ''consumed''"
    then consider "iv' \<in> set ivs" | "iv' = F iv" using old by blast
    then show "\<exists>g' \<in> set (gs @ [g]). by_invite g' \<and> redeemed_for iv' g'"
    proof cases
      case 1
      then show ?thesis using m \<open>iv_status iv' = ''consumed''\<close> unfolding matched_def by (metis Un_iff set_append)
    qed (use new in auto)
  qed
  have three: "iv1 = iv2" if "iv1 \<in> set (map F ivs)" "iv2 \<in> set (map F ivs)" "iv_status iv1 = ''consumed''" "iv_status iv2 = ''consumed''"
      "iv_consumed_admin_identity_id iv1 = iv_consumed_admin_identity_id iv2" for iv1 iv2
  proof (cases "iv1 = F iv \<or> iv2 = F iv")
    case True
    then show ?thesis using old that other gid by metis
  next
    case False
    then have "iv1 \<in> set ivs" "iv2 \<in> set ivs" using old that(1,2) by blast+
    then show ?thesis using m that(3-5) unfolding matched_def by blast
  qed
  show ?thesis unfolding matched_def using one two three by blast
qed

section \<open>Runs\<close>

text \<open>
  A run of identity commands. The first argument lists the database after every step, the latest first: a command decides
  on any of those, and its transaction then works on the last. Issuers, providers and the ledger of other commands
  change freely in between.
\<close>

inductive identity_run :: "identity_db list \<Rightarrow> identity_db admin_state \<Rightarrow> bool" where
  run_start: "id_grants db = [] \<Longrightarrow> id_invites db = [] \<Longrightarrow> identity_run [db] (ledger, db)"
| run_claim: "identity_run hist st \<Longrightarrow> db \<in> set hist \<Longrightarrow> claim sd ev ctx a q db st = (answer, st') \<Longrightarrow> identity_run (snd st' # hist) st'"
| run_create: "identity_run hist st \<Longrightarrow> create_invite sd' ev ctx a iss q' st = (answer', st') \<Longrightarrow> identity_run (snd st' # hist) st'"
| run_revoke_invite: "identity_run hist st \<Longrightarrow> revoke_invite sd'' ev ctx a i st = (answer'', st') \<Longrightarrow> identity_run (snd st' # hist) st'"
| run_redeem: "identity_run hist st \<Longrightarrow> db \<in> set hist \<Longrightarrow> redeem_invite sd ev app_now ctx identity rq db st = (answer, st') \<Longrightarrow> identity_run (snd st' # hist) st'"
| run_set_primary: "identity_run hist st \<Longrightarrow> db \<in> set hist \<Longrightarrow> set_identity_primary sd ev ctx a iss i v p db st = (answer, st') \<Longrightarrow> identity_run (snd st' # hist) st'"
| run_revoke: "identity_run hist st \<Longrightarrow> db \<in> set hist \<Longrightarrow> revoke_identity sd ev ctx a iss i db st = (answer, st') \<Longrightarrow> identity_run (snd st' # hist) st'"
| run_other: "identity_run hist st \<Longrightarrow> db' = (snd st)\<lparr>id_issuers := issuers, id_providers := providers\<rparr> \<Longrightarrow> identity_run (db' # hist) (ledger, db')"

text \<open>What a command leaves of the tables: what was there, or what its call of the repository made of it.\<close>

lemma run_command_effect:
  assumes "run_command sd ev spec (audited_mutation f entry response) st = (answer, st')"
  shows "snd st' = snd st \<or> (\<exists>x db'. f (snd st) = Ok (x, db') \<and> id_grants (snd st') = id_grants db' \<and> id_invites (snd st') = id_invites db')"
proof -
  obtain a where "execute sd (ie_crypto ev) (ie_runner ev) (ie_admin ev) spec (audited_mutation f entry response) st = (a, st')"
    using assms by (auto simp: run_command_def split: prod.splits)
  from execute_effect [OF this] consider "snd st' = snd st" | result where "audited_mutation f entry response (snd st) = (Ok result, snd st')"
    unfolding command_effect_def by blast
  then show ?thesis
  proof cases
    case (2 result)
    then obtain x db' where "f (snd st) = Ok (x, db')" "snd st' = insert_audit (entry x) db'"
      by (auto simp: audited_mutation_def split: sum.splits)
    then show ?thesis by (simp add: insert_audit_def)
  qed simp
qed

lemma claim_effect:
  assumes "claim sd ev ctx a q db st = (answer, st')"
  shows "snd st' = snd st \<or> (\<exists>i g db'. claim_checks ev a q db = Ok i \<and> claim_grant (ie_db_now ev) i (snd st) = Ok (g, db')
    \<and> id_grants (snd st') = id_grants db' \<and> id_invites (snd st') = id_invites db')"
  using assms by (auto simp: claim_def and_then_Ok_iff split: sum.splits dest!: run_command_effect)

lemma create_invite_effect:
  assumes "create_invite sd ev ctx a iss q st = (answer, st')"
  shows "snd st' = snd st \<or> (\<exists>i row db'. insert_invite (ie_db_now ev) i (snd st) = Ok (row, db')
    \<and> id_grants (snd st') = id_grants db' \<and> id_invites (snd st') = id_invites db')"
  using assms by (auto simp: create_invite_def and_then_Ok_iff split: sum.splits dest!: run_command_effect)

lemma revoke_invite_effect:
  assumes "revoke_invite sd ev ctx a i st = (answer, st')"
  shows "snd st' = snd st \<or> (\<exists>row db'. identity_revoke_invite (ie_db_now ev) i (snd st) = Ok (row, db')
    \<and> id_grants (snd st') = id_grants db' \<and> id_invites (snd st') = id_invites db')"
  using assms by (auto simp: revoke_invite_def and_then_Ok_iff split: sum.splits dest!: run_command_effect)

lemma redeem_invite_effect:
  assumes "redeem_invite sd ev app_now ctx identity q db st = (answer, st')"
  shows "snd st' = snd st \<or> (\<exists>invite i g db'. redeem_checks ev identity q db = Ok (invite, i)
    \<and> redeem_grant app_now (ie_db_now ev) (ai_invite_id invite) i (snd st) = Ok (g, db')
    \<and> id_grants (snd st') = id_grants db' \<and> id_invites (snd st') = id_invites db')"
  using assms by (auto simp: redeem_invite_def and_then_Ok_iff split: sum.splits dest!: run_command_effect)

lemma set_identity_primary_effect:
  assumes "set_identity_primary sd ev ctx a iss i v p db st = (answer, st')"
  shows "snd st' = snd st \<or> (\<exists>g db'. require_primary_actor a iss db = Ok () \<and> set_primary (ie_id_text ev) i v p (snd st) = Ok (g, db')
    \<and> id_grants (snd st') = id_grants db' \<and> id_invites (snd st') = id_invites db')"
  using assms by (auto simp: set_identity_primary_def and_then_Ok_iff split: sum.splits dest!: run_command_effect)

lemma revoke_identity_effect:
  assumes "revoke_identity sd ev ctx a iss i db st = (answer, st')"
  shows "snd st' = snd st \<or> (\<exists>g db'. require_primary_actor a iss db = Ok () \<and> revoke_grant (ie_id_text ev) (ie_db_now ev) i (snd st) = Ok (g, db')
    \<and> id_grants (snd st') = id_grants db' \<and> id_invites (snd st') = id_invites db')"
  using assms by (auto simp: revoke_identity_def and_then_Ok_iff split: sum.splits dest!: run_command_effect)

text \<open>One step of the tables: the invariant stays, and rows only change as \<open>same_grant\<close> and \<open>same_invite\<close> allow.\<close>

definition tables_step :: "identity_db \<Rightarrow> identity_db \<Rightarrow> bool" where
  "tables_step db db' \<longleftrightarrow> identity_inv db' \<and> grants_follow db db' \<and> invites_follow db db'"

lemma tables_step_same: "identity_inv db \<Longrightarrow> id_grants db' = id_grants db \<Longrightarrow> id_invites db' = id_invites db \<Longrightarrow> tables_step db db'"
  by (simp add: tables_step_def identity_inv_def)

lemma tables_step_cong:
  "tables_step db db' \<Longrightarrow> id_grants db'' = id_grants db' \<Longrightarrow> id_invites db'' = id_invites db' \<Longrightarrow> tables_step db db''"
  by (simp add: tables_step_def identity_inv_def grants_follow_def invites_follow_def)

lemma mark_setup_claimed_tables [simp]:
  "id_grants (mark_setup_claimed now i db) = id_grants db" "id_invites (mark_setup_claimed now i db) = id_invites db"
  by (simp_all add: mark_setup_claimed_def)

lemma claim_checks_Ok:
  assumes "claim_checks ev a q db = Ok i"
  shows "gi_granted_by_actor_type i \<noteq> ADMIN_INVITE_ACTOR_TYPE"
  using assms by (auto simp: claim_checks_def and_then_Ok_iff ADMIN_INVITE_ACTOR_TYPE_def split: if_splits)

lemma claim_grant_step:
  assumes "claim_grant now i db = Ok (g, db')" "identity_inv db" "gi_granted_by_actor_type i \<noteq> ADMIN_INVITE_ACTOR_TYPE"
  shows "tables_step db db'"
proof -
  obtain db1 where ins: "insert_grant now i db = Ok (g, db1)" and db': "db' = mark_setup_claimed now (ai_id g) db1"
    using assms(1) by (auto simp: claim_grant_def and_then_Ok_iff)
  have ok: "grants_ok (id_grants db)" using assms(2) by (simp add: identity_inv_def)
  obtain r where r: "id_grants db1 = id_grants db @ [r]" "gr_granted_by_actor_type r = gi_granted_by_actor_type i"
    using insert_grant_ok(4) [OF ins ok] by blast
  then have "matched (id_grants db1) (id_invites db)"
    using matched_other_grant assms(2,3) by (simp add: identity_inv_def by_invite_def)
  then have "tables_step db db1"
    using insert_grant_ok(1-3) [OF ins ok] assms(2) by (simp add: tables_step_def identity_inv_def)
  then show ?thesis by (rule tables_step_cong) (simp_all add: db')
qed

lemma insert_invite_step:
  assumes "insert_invite now i db = Ok (row, db')" "identity_inv db"
  shows "tables_step db db'"
proof -
  have ok: "invites_ok (id_invites db)" using assms(2) by (simp add: identity_inv_def)
  obtain iv where "id_invites db' = id_invites db @ [iv]" "iv_status iv = ''pending''"
    using insert_invite_ok [OF assms(1) ok] by blast
  then have "matched (id_grants db) (id_invites db')" using matched_other_invite assms(2) by (simp add: identity_inv_def)
  then show ?thesis using insert_invite_ok [OF assms(1) ok] assms(2) by (simp add: tables_step_def identity_inv_def)
qed

lemma invites_follow_map: "id_invites db' = map F (id_invites db) \<Longrightarrow> \<forall>iv. same_invite iv (F iv) \<Longrightarrow> invites_follow db db'"
  by (auto simp: invites_follow_def)

lemma revoke_invite_step:
  assumes "identity_revoke_invite now i db = Ok (row, db')" "identity_inv db"
  shows "tables_step db db'"
proof -
  have ok: "invites_ok (id_invites db)" using assms(2) by (simp add: identity_inv_def)
  obtain F iv where F: "db' = db\<lparr>id_invites := map F (id_invites db)\<rparr>" "\<forall>iv. same_invite iv (F iv)" "iv_status (F iv) = ''revoked''"
    "\<forall>iv' \<in> set (id_invites db). iv' \<noteq> iv \<longrightarrow> F iv' = iv'"
    using identity_revoke_invite_ok [OF assms(1) ok] by blast
  have "F iv' = iv'" if "iv' \<in> set (id_invites db)" "iv_status (F iv') = ''consumed''" for iv'
    using F(3,4) that by (cases "iv' = iv") auto
  then have "matched (id_grants db) (map F (id_invites db))"
    using matched_invites_changed [of "id_grants db" "id_invites db" F] F(2) assms(2) by (simp add: identity_inv_def)
  then show ?thesis
    using F(1,2) assms(2) invites_ok_map [OF ok, of F] invites_follow_map [of db' F db] by (simp add: tables_step_def identity_inv_def)
qed

lemma resolve_invite_Ok:
  assumes "resolve_invite ev token db = Ok invite"
  shows "\<exists>iv \<in> set (id_invites db). invite_from_row iv = Ok invite"
  using assms
  by (auto simp: resolve_invite_def find_invite_by_prefix_def Let_def and_then_Ok_iff split: if_splits option.splits dest!: find_SomeD)

lemma evaluate_claim_policy_Ok:
  assumes "evaluate_claim_policy email verified policy = Ok ()"
  shows "\<exists>p domain. policy = Some p \<and> verified \<and> email_domain email = Some domain
    \<and> domain \<in> (\<lambda>candidate. to_ascii_lowercase (rust_trim candidate)) ` set (gp_allowed_email_domains p)"
  using assms by (auto simp: evaluate_claim_policy_def list_ex_iff split: option.splits if_splits)

lemma redeem_checks_Ok:
  assumes "redeem_checks ev identity q db = Ok (invite, i)"
  shows "\<exists>iv \<in> set (id_invites db). invite_from_row iv = Ok invite" "evaluate_invite_constraint invite (gi_email i) = Ok ()"
    "gi_email_verified i" "gi_granted_by_actor_type i = ADMIN_INVITE_ACTOR_TYPE"
  using assms resolve_invite_Ok evaluate_claim_policy_Ok
  by (auto simp: redeem_checks_def Let_def and_then_Ok_iff) blast

lemma redeem_grant_step:
  assumes "redeem_checks ev identity q db0 = Ok (invite, i)" "redeem_grant app_now now (ai_invite_id invite) i db = Ok (g, db')"
    and inv: "identity_inv db" and follow: "invites_follow db0 db"
  shows "tables_step db db'"
proof -
  obtain db1 db2 row where ins: "insert_grant now i db = Ok (g, db1)"
    and con: "consume_invite app_now now (ai_invite_id invite) (gi_issuer i) (gi_subject i) (ai_id g) db1 = Ok (row, db2)"
    and db': "db' = mark_setup_claimed now (ai_id g) db2"
    using assms(2) by (auto simp: redeem_grant_def and_then_Ok_iff)
  note ok = inv [unfolded identity_inv_def]
  note ig = insert_grant_ok [OF ins conjunct1 [OF ok]]
  obtain r where r: "id_grants db1 = id_grants db @ [r]" "gr_id r = ai_id g" "gr_issuer r = gi_issuer i" "gr_subject r = gi_subject i"
    "gr_email r = Some (gi_email i)" "gr_email_verified r" "gr_granted_by_actor_type r = ADMIN_INVITE_ACTOR_TYPE" "gr_id r \<notin> gr_id ` set (id_grants db)"
    using ig(4) redeem_checks_Ok(3,4) [OF assms(1)] by auto
  have ivs: "invites_ok (id_invites db)" "matched (id_grants db) (id_invites db)" using ok by auto
  obtain F iv where F: "db2 = db1\<lparr>id_invites := map F (id_invites db)\<rparr>" "\<forall>iv. same_invite iv (F iv)" "iv \<in> set (id_invites db)"
      "iv_id iv = ai_invite_id invite" "iv_status iv = ''pending''" "iv_status (F iv) = ''consumed''" "iv_consumed_issuer (F iv) = Some (gi_issuer i)"
      "iv_consumed_subject (F iv) = Some (gi_subject i)" "iv_consumed_admin_identity_id (F iv) = Some (ai_id g)"
      "\<forall>iv' \<in> set (id_invites db). iv' \<noteq> iv \<longrightarrow> F iv' = iv'"
    using consume_invite_ok [OF con] ig(3) ivs(1) by metis
  obtain iv0 where iv0: "iv0 \<in> set (id_invites db0)" "invite_from_row iv0 = Ok invite" using redeem_checks_Ok(1) [OF assms(1)] by blast
  obtain iv1 where iv1: "iv1 \<in> set (id_invites db)" "same_invite iv0 iv1" using follow iv0(1) by (auto simp: invites_follow_def)
  have "iv_id iv1 = iv_id iv" using iv1(2) F(4) invite_from_row_Ok(1) [OF iv0(2)] by (simp add: same_invite_def)
  then have "iv1 = iv" using ids_unique [of iv_id "id_invites db" iv1 iv] ivs(1) iv1(1) F(3) by (simp add: invites_ok_def)
  then have "same_invite iv0 (F iv)" using iv1(2) F(2) same_invite_trans by blast
  then have "invite_admits (F iv) (gi_email i)" using invite_admits_same [OF iv0(2) redeem_checks_Ok(2) [OF assms(1)]] F(6) by blast
  then have "redeemed_for (F iv) r" using F(6-9) r(2-6) by (simp add: redeemed_for_def)
  then have "matched (id_grants db @ [r]) (map F (id_invites db))"
    using matched_redeemed [OF ivs(2) r(8), of F iv] F(2,3,5,10) r(7) by (simp add: by_invite_def)
  then have "tables_step db db2"
    using F(1,2) ig(1,2) r(1) invites_ok_map [OF ivs(1), of F] invites_follow_map [of db2 F db]
    by (simp add: tables_step_def identity_inv_def grants_follow_def)
  then show ?thesis by (rule tables_step_cong) (simp_all add: db')
qed

lemma grant_change_step:
  assumes "identity_inv db" "grants_ok (id_grants db')" "list_all2 same_grant (id_grants db) (id_grants db')" "id_invites db' = id_invites db"
  shows "tables_step db db'"
  using assms matched_grants_changed [of "id_grants db" "id_invites db" "id_grants db'"] grants_follow_all2 [of db db']
  by (simp add: tables_step_def identity_inv_def)

definition run_inv :: "identity_db list \<Rightarrow> identity_db \<Rightarrow> bool" where
  "run_inv hist db \<longleftrightarrow> identity_inv db \<and> (\<forall>db0 \<in> set hist. grants_follow db0 db \<and> invites_follow db0 db)"

lemma run_inv_step: "run_inv hist db \<Longrightarrow> tables_step db db' \<Longrightarrow> run_inv (db' # hist) db'"
  unfolding run_inv_def tables_step_def using grants_follow_trans invites_follow_trans by fastforce

lemma identity_run_inv: "identity_run hist st \<Longrightarrow> run_inv hist (snd st)"
proof (induction rule: identity_run.induct)
  case (run_start db ledger)
  then show ?case by (simp add: run_inv_def identity_inv_def grants_ok_def invites_ok_def matched_def)
next
  case (run_claim hist st db sd ev ctx a q answer st')
  then have inv: "identity_inv (snd st)" by (simp add: run_inv_def)
  have "tables_step (snd st) (snd st')"
    using claim_effect [OF run_claim(3)] tables_step_same [OF inv] claim_grant_step [OF _ inv claim_checks_Ok] tables_step_cong by metis
  then show ?case using run_inv_step run_claim(4) by blast
next
  case (run_create hist st sd' ev ctx a iss q' answer' st')
  then have inv: "identity_inv (snd st)" by (simp add: run_inv_def)
  have "tables_step (snd st) (snd st')"
    using create_invite_effect [OF run_create(2)] tables_step_same [OF inv] insert_invite_step [OF _ inv] tables_step_cong by metis
  then show ?case using run_inv_step run_create(3) by blast
next
  case (run_revoke_invite hist st sd'' ev ctx a i answer'' st')
  then have inv: "identity_inv (snd st)" by (simp add: run_inv_def)
  have "tables_step (snd st) (snd st')"
    using revoke_invite_effect [OF run_revoke_invite(2)] tables_step_same [OF inv] revoke_invite_step [OF _ inv] tables_step_cong by metis
  then show ?case using run_inv_step run_revoke_invite(3) by blast
next
  case (run_redeem hist st db sd ev app_now ctx identity rq answer st')
  then have inv: "identity_inv (snd st)" "invites_follow db (snd st)" by (simp_all add: run_inv_def)
  have "tables_step (snd st) (snd st')"
    using redeem_invite_effect [OF run_redeem(3)] tables_step_same [OF inv(1)] redeem_grant_step [OF _ _ inv] tables_step_cong by metis
  then show ?case using run_inv_step run_redeem(4) by blast
next
  case (run_set_primary hist st db sd ev ctx a iss i v p answer st')
  then have inv: "identity_inv (snd st)" by (simp add: run_inv_def)
  then have ok: "grants_ok (id_grants (snd st))" by (simp add: identity_inv_def)
  have "tables_step (snd st) (snd st')"
    using set_identity_primary_effect [OF run_set_primary(3)] tables_step_same [OF inv] grant_change_step [OF inv] set_primary_ok [OF _ ok] tables_step_cong
    by metis
  then show ?case using run_inv_step run_set_primary(4) by blast
next
  case (run_revoke hist st db sd ev ctx a iss i answer st')
  then have inv: "identity_inv (snd st)" by (simp add: run_inv_def)
  then have ok: "grants_ok (id_grants (snd st))" by (simp add: identity_inv_def)
  have "tables_step (snd st) (snd st')"
    using revoke_identity_effect [OF run_revoke(3)] tables_step_same [OF inv] grant_change_step [OF inv] revoke_grant_ok [OF _ ok] tables_step_cong
    by metis
  then show ?case using run_inv_step run_revoke(4) by blast
next
  case (run_other hist st db' issuers providers ledger)
  then have "tables_step (snd st) db'" using tables_step_same by (simp add: run_inv_def)
  then show ?case using run_inv_step run_other(3) by auto
qed

text \<open>C8: There is always exactly one owner. Whatever claims, redemptions, transfers of ownership and revocations run, in
  whatever order, on whatever earlier state they decided and with whatever failures of the ledger and the
  commit, from the first grant on exactly one grant is active and primary; no command can leave the deployment
  without an owner or with two.\<close>

theorem single_owner:
  assumes "identity_run hist st" "db \<in> set hist" "id_grants db \<noteq> []"
  shows "\<exists>!r. r \<in> set (id_grants (snd st)) \<and> live_primary r"
proof -
  have inv: "run_inv hist (snd st)" using identity_run_inv [OF assms(1)] .
  then have "id_grants (snd st) \<noteq> []" using assms(2,3) unfolding run_inv_def grants_follow_def by (metis empty_iff empty_set last_in_set)
  then show ?thesis using inv by (simp add: run_inv_def identity_inv_def grants_ok_def)
qed

text \<open>C9: An invitation is used at most once, for an address it was issued for. After any run of commands the consumed
  invitations and the grants made by redemption correspond one to one: each consumed invitation names its
  grant, its issuer and its subject, the grant's address is verified and meets the constraint of the invitation,
  and an invitation that was consumed or revoked at any time never changes again.\<close>

theorem invitation_single_use:
  assumes "identity_run hist st" "db \<in> set hist"
  shows "(\<exists>f. bij_betw f {iv \<in> set (id_invites (snd st)). iv_status iv = ''consumed''} {g \<in> set (id_grants (snd st)). by_invite g}
      \<and> (\<forall>iv \<in> set (id_invites (snd st)). iv_status iv = ''consumed'' \<longrightarrow> redeemed_for iv (f iv)))
    \<and> (\<forall>iv \<in> set (id_invites db). iv_status iv \<noteq> ''pending'' \<longrightarrow> iv \<in> set (id_invites (snd st)))"
proof -
  let ?C = "{iv \<in> set (id_invites (snd st)). iv_status iv = ''consumed''}" and ?G = "{g \<in> set (id_grants (snd st)). by_invite g}"
  have inv: "run_inv hist (snd st)" using identity_run_inv [OF assms(1)] .
  then have m: "matched (id_grants (snd st)) (id_invites (snd st))" and ids: "distinct (map gr_id (id_grants (snd st)))"
    by (simp_all add: run_inv_def identity_inv_def grants_ok_def)
  have "\<forall>iv \<in> ?C. \<exists>g. g \<in> ?G \<and> redeemed_for iv g" using m unfolding matched_def by blast
  then obtain f where "\<forall>iv \<in> ?C. f iv \<in> ?G \<and> redeemed_for iv (f iv)" unfolding bchoice_iff by (elim exE) rule
  then have f: "f iv \<in> ?G \<and> redeemed_for iv (f iv)" if "iv \<in> ?C" for iv using that by (rule bspec)
  have link: "iv_consumed_admin_identity_id iv = Some (gr_id (f iv))" if "iv \<in> ?C" for iv using f [OF that] by (simp add: redeemed_for_def)
  have "inj_on f ?C"
  proof (rule inj_onI)
    fix iv iv' assume iv: "iv \<in> ?C" "iv' \<in> ?C" "f iv = f iv'"
    then have "iv_consumed_admin_identity_id iv = iv_consumed_admin_identity_id iv'" using link by simp
    then show "iv = iv'" using m iv(1,2) unfolding matched_def by blast
  qed
  moreover have "g \<in> f ` ?C" if "g \<in> ?G" for g
  proof -
    obtain iv where iv: "iv \<in> ?C" "redeemed_for iv g" using m \<open>g \<in> ?G\<close> unfolding matched_def redeemed_for_def by blast
    then have "gr_id (f iv) = gr_id g" using f by (simp add: redeemed_for_def)
    then have "f iv = g" using ids_unique [OF ids, of "f iv" g] f [OF iv(1)] \<open>g \<in> ?G\<close> by simp
    then show ?thesis using iv(1) by blast
  qed
  ultimately have "bij_betw f ?C ?G" using f unfolding bij_betw_def by blast
  moreover have "\<forall>iv \<in> set (id_invites db). iv_status iv \<noteq> ''pending'' \<longrightarrow> iv \<in> set (id_invites (snd st))"
    using inv assms(2) unfolding run_inv_def invites_follow_def same_invite_def by metis
  ultimately show ?thesis using f by blast
qed

text \<open>The table as the authentication of a request reads it.\<close>

definition auth_grants :: "identity_db \<Rightarrow> identity_grant list" where
  "auth_grants db =
     map (\<lambda>r. \<lparr>ig_issuer = gr_issuer r, ig_subject = gr_subject r, ig_granted_scopes = gr_granted_scopes r, ig_status = gr_status r, ig_deleted = gr_deleted r\<rparr>)
       (id_grants db)"

lemma no_active_grant:
  assumes "grants_ok (id_grants db)" "r \<in> set (id_grants db)" "gr_status r = ''revoked''"
  shows "x \<in> set (id_grants db) \<Longrightarrow> \<not> (gr_issuer x = gr_issuer r \<and> gr_subject x = gr_subject r \<and> grant_live x)"
  using ids_unique [of "\<lambda>r. (gr_issuer r, gr_subject r)" "id_grants db" x r] assms by (auto simp: grants_ok_def grant_live_def)

text \<open>C22: A revoked admin stays out. Once the grant of an identity is revoked, no later command gives it one again: a request with
  its token is answered on the admin plane with the token's own actor and scopes, and it is refused as an owner.\<close>

theorem revoked_identity_stays_out:
  assumes "identity_run hist st" "db \<in> set hist" "r \<in> set (id_grants db)" "gr_status r = ''revoked''"
    and "optional_bearer_token headers = Ok (Some token)" "header_string headers ''x-moira-system-key'' = None" "header_string headers ''x-consumer-key'' = None"
    and "authenticate_trusted_jwt_with_issuer ev (ad_issuers adb) token = Ok (a, gr_issuer r)" "actor_subject a = Some (gr_subject r)"
    and "ad_grants adb = auth_grants (snd st)"
  shows "fst (authenticate_admin_with_issuer ev headers adb) = Ok (a, Some (gr_issuer r))
    \<and> require_primary_actor a (Some (gr_issuer r)) (snd st) = Err not_primary"
proof -
  have inv: "run_inv hist (snd st)" using identity_run_inv [OF assms(1)] .
  then have ok: "grants_ok (id_grants (snd st))" by (simp add: run_inv_def identity_inv_def)
  obtain r' where r': "r' \<in> set (id_grants (snd st))" "gr_status r' = ''revoked''" "gr_issuer r' = gr_issuer r" "gr_subject r' = gr_subject r"
    using inv assms(2,3,4) unfolding run_inv_def grants_follow_def same_grant_def by blast
  note none = no_active_grant [OF ok r'(1,2), unfolded r'(3,4)]
  have "find_active_grant (auth_grants (snd st)) (gr_issuer r) (gr_subject r) = None"
    using none by (auto simp: find_active_grant_def auth_grants_def find_None_iff grant_live_def)
  moreover have "identity_find_active_grant (gr_issuer r) (gr_subject r) (snd st) = Ok None"
    using none by (auto simp: identity_find_active_grant_def find_None_iff split: option.split dest!: find_SomeD)
  moreover obtain t claims where "actor_from_trusted_claims (ev_jwt ev) t claims = Ok a" using trusted_jwt_backed [OF assms(8)] by blast
  then have "actor_type a = TrustedJwt" by simp
  ultimately show ?thesis
    using assms(5-10) by (simp add: authenticate_admin_with_issuer_def apply_admin_identity_grant_def require_primary_actor_def and_then_def)
qed

section \<open>Examples\<close>

definition demo_serde :: "'r serde" where
  "demo_serde = \<lparr>sd_to_vec = (\<lambda>_. Ok []), sd_to_value = (\<lambda>_. Ok JNull), sd_from_value = (\<lambda>_. Err ''unused''),
     sd_replay_to_value = (\<lambda>_. Ok JNull), sd_replay_from_value = (\<lambda>_. Err ''unused'')\<rparr>"

definition demo_call :: "uuid \<Rightarrow> identity_env" where
  "demo_call i = \<lparr>ie_crypto = plain_crypto, ie_argon2 = demo_argon2, ie_hasher = ev_hasher demo_env, ie_gate = GateAcquired,
     ie_id_text = (\<lambda>_. ''id''), ie_time = (\<lambda>_. JNull), ie_actor_bytes = (\<lambda>_. []), ie_new_id = i, ie_salt = ''s'', ie_random = ''a'',
     ie_now = 0, ie_db_now = 0, ie_runner = sample_runner, ie_admin = sample_admin_env 1 0\<rparr>"

definition demo_ctx :: request_context where
  "demo_ctx = \<lparr>cx_request_id = ''r'', cx_source_ip = None, cx_user_agent = None, cx_idempotency_key = None\<rparr>"

definition demo_system :: actor where
  "demo_system = default_actor\<lparr>actor_type := SystemKey, actor_subject := Some ''key'', actor_scopes := [''moira:admin'']\<rparr>"

definition demo_tables :: identity_db where
  "demo_tables = \<lparr>id_grants = [], id_invites = [], id_setup_claimed = False, id_setup_claimed_by = None, id_setup_claimed_at = None,
     id_audit = [], id_issuers = [demo_issuer],
     id_providers = [\<lparr>ap_id = 9, ap_issuer = None, ap_trusted_jwt_issuer_id = Some 7, ap_allowed_email_domains = [''x.io''],
       ap_enabled = True, ap_status = ''active'', ap_deleted = False\<rparr>]\<rparr>"

definition demo_request :: "string \<Rightarrow> claim_request" where
  "demo_request subject = \<lparr>cq_issuer = ''i'', cq_subject = subject, cq_email = ''o@x.io'', cq_email_verified = True,
     cq_scopes = [''moira:admin''], cq_setup_token = None\<rparr>"

definition demo_claim :: "uuid \<Rightarrow> string \<Rightarrow> identity_db admin_state \<Rightarrow> identity_db admin_state" where
  "demo_claim i subject st = snd (claim demo_serde (demo_call i) demo_ctx demo_system (demo_request subject) (snd st) st)"

definition demo_two :: "identity_db admin_state" where
  "demo_two = demo_claim 2 ''ann'' (demo_claim 1 ''bob'' ([], demo_tables))"

definition demo_revoked :: "identity_db admin_state" where
  "demo_revoked = snd (revoke_identity demo_serde (demo_call 3) demo_ctx demo_system None 2 (snd demo_two) demo_two)"

lemma run_command_plain:
  assumes "cs_idempotency spec = None" "ae_fails (ie_admin ev) = (\<lambda>_. None)" "f (snd st) = Ok (x, db')" "response x = Ok result"
  shows "snd (run_command sd ev spec (audited_mutation f entry response) st) = (fst st, insert_audit (entry x) db')"
  using assms by (simp add: run_command_def execute_def run_mutation_def audited_mutation_def finish_success_def commit_def Let_def split: prod.split)

lemma demo_simps [simp]:
  "ae_fails (ie_admin (demo_call i)) = (\<lambda>_. None)" "cx_idempotency_key demo_ctx = None" "ie_new_id (demo_call i) = i" "ie_db_now (demo_call i) = 0"
  "ie_now (demo_call i) = 0" "actor_type demo_system = SystemKey" "actor_subject demo_system = Some ''key''"
  by (simp_all add: demo_call_def sample_admin_env_def demo_ctx_def demo_system_def)

lemma demo_response [simp]: "\<exists>result. grant_response demo_serde ev notice status g = Ok result"
  by (simp add: grant_response_def AdminCommandMutation_new_def demo_serde_def and_then_def map_err_def)

lemma demo_spec: "\<exists>spec. command_spec (demo_call i) demo_ctx a operation path request = Ok spec \<and> cs_idempotency spec = None"
  by (simp add: command_spec_def AdminCommandSpec_new_def with_idempotency_def and_then_def map_err_def)

definition demo_insert :: "uuid \<Rightarrow> string \<Rightarrow> admin_identity_grant_insert" where
  "demo_insert i subject = \<lparr>gi_id = i, gi_trusted_jwt_issuer_id = 7, gi_issuer = ''i'', gi_subject = subject, gi_email = ''o@x.io'',
     gi_email_verified = True, gi_granted_scopes = [''moira:admin''], gi_granted_by_actor_type = ''system_key'', gi_granted_by_subject = Some ''key''\<rparr>"

lemma demo_admission:
  "id_issuers db = id_issuers demo_tables \<Longrightarrow> resolve_active_issuer ''i'' db = Ok 7"
  "id_providers db = id_providers demo_tables \<Longrightarrow> admission_policy ''i'' 7 db = Ok (Some \<lparr>gp_id = 9, gp_allowed_email_domains = [''x.io'']\<rparr>)"
  by (simp_all add: resolve_active_issuer_def admission_policy_def demo_tables_def demo_issuer_def provider_enabled_def single_policy_def and_then_def)

lemma demo_address: "rust_trim ''o@x.io'' = ''o@x.io''"
  "evaluate_claim_policy ''o@x.io'' True (Some \<lparr>gp_id = 9, gp_allowed_email_domains = [''x.io'']\<rparr>) = Ok ()"
  by code_simp+

lemma demo_allowed: "require demo_system ''moira:admin'' = Ok ()" "normalize_scopes [''moira:admin''] = Ok [''moira:admin'']" "rust_trim ''i'' = ''i''"
  by code_simp+

lemma demo_checks:
  assumes "id_issuers db = id_issuers demo_tables" "id_providers db = id_providers demo_tables" "rust_trim subject \<noteq> []"
  shows "claim_checks (demo_call i) demo_system (demo_request subject) db = Ok (demo_insert i subject)"
  using assms
  by (simp add: claim_checks_def demo_request_def demo_allowed demo_admission demo_address require_non_empty_def demo_insert_def and_then_def)

lemma demo_claim_result:
  assumes "id_issuers (snd st) = id_issuers demo_tables" "id_providers (snd st) = id_providers demo_tables" "rust_trim subject \<noteq> []"
    and "claim_grant 0 (demo_insert i subject) (snd st) = Ok (g, db')"
  shows "id_grants (snd (demo_claim i subject st)) = id_grants db' \<and> id_issuers (snd (demo_claim i subject st)) = id_issuers db'
    \<and> id_providers (snd (demo_claim i subject st)) = id_providers db'"
proof -
  let ?path = "JObject [(''issuer'', JString (cq_issuer (demo_request subject))), (''subject'', JString (cq_subject (demo_request subject)))]"
  obtain spec where spec: "command_spec (demo_call i) demo_ctx demo_system ''admin_identity.claim'' ?path (claim_request_json (demo_request subject)) = Ok spec"
    "cs_idempotency spec = None" using demo_spec by blast
  obtain result where "grant_response demo_serde (demo_call i) ''moira.notice.admin_identity_claimed'' 201 g = Ok result"
    using demo_response by blast
  from run_command_plain [where f = "claim_grant 0 (demo_insert i subject)"
      and response = "grant_response demo_serde (demo_call i) ''moira.notice.admin_identity_claimed'' 201" and ev = "demo_call i", OF spec(2) _ assms(4) this] show ?thesis
    by (simp add: demo_claim_def claim_def demo_checks [OF assms(1-3)] spec(1) and_then_def insert_audit_def)
qed

definition demo_grant :: "uuid \<Rightarrow> string \<Rightarrow> bool \<Rightarrow> grant_row" where
  "demo_grant i subject p = \<lparr>gr_id = i, gr_trusted_jwt_issuer_id = 7, gr_issuer = ''i'', gr_subject = subject, gr_email = Some ''o@x.io'',
     gr_email_verified = True, gr_granted_scopes = [''moira:admin''], gr_granted_by_actor_type = ''system_key'',
     gr_granted_by_subject = Some ''key'', gr_is_primary = p, gr_status = ''active'', gr_created_at = 0, gr_revoked_at = None,
     gr_deleted = False, gr_version = 1\<rparr>"

lemma demo_claim_grant:
  assumes "\<forall>r \<in> set (id_grants db). gr_id r \<noteq> i \<and> gr_subject r \<noteq> subject"
  shows "\<exists>g db'. claim_grant 0 (demo_insert i subject) db = Ok (g, db') \<and> id_issuers db' = id_issuers db \<and> id_providers db' = id_providers db
    \<and> id_grants db' = id_grants db @ [demo_grant i subject (\<not> list_ex live_primary (id_grants db))]"
proof -
  have none: "\<not> (\<exists>r \<in> set (id_grants db). gr_id r = gi_id (demo_insert i subject) \<or>
      (gr_issuer r = gi_issuer (demo_insert i subject) \<and> gr_subject r = gi_subject (demo_insert i subject) \<and> \<not> gr_deleted r))"
    using assms by (auto simp: demo_insert_def)
  show ?thesis
    unfolding claim_grant_def insert_grant_def if_not_P [OF none] Let_def
    by (simp add: demo_insert_def demo_grant_def grant_from_row_def admin_identity_status_from_db_def mark_setup_claimed_def and_then_def)
qed

lemma demo_claimed:
  assumes "id_issuers (snd st) = id_issuers demo_tables" "id_providers (snd st) = id_providers demo_tables" "rust_trim subject \<noteq> []"
    "\<forall>r \<in> set (id_grants (snd st)). gr_id r \<noteq> i \<and> gr_subject r \<noteq> subject"
  shows "id_grants (snd (demo_claim i subject st)) = id_grants (snd st) @ [demo_grant i subject (\<not> list_ex live_primary (id_grants (snd st)))]"
    "id_issuers (snd (demo_claim i subject st)) = id_issuers demo_tables" "id_providers (snd (demo_claim i subject st)) = id_providers demo_tables"
  using demo_claim_grant [OF assms(4)] demo_claim_result [OF assms(1-3)] assms(1,2) by metis+

lemma demo_two_grants: "id_grants (snd demo_two) = [demo_grant 1 ''bob'' True, demo_grant 2 ''ann'' False]"
proof -
  have trim: "rust_trim ''bob'' \<noteq> []" "rust_trim ''ann'' \<noteq> []" by code_simp+
  have one: "id_grants (snd (demo_claim 1 ''bob'' ([], demo_tables))) = [demo_grant 1 ''bob'' True]"
    "id_issuers (snd (demo_claim 1 ''bob'' ([], demo_tables))) = id_issuers demo_tables"
    "id_providers (snd (demo_claim 1 ''bob'' ([], demo_tables))) = id_providers demo_tables"
    using demo_claimed [of "([], demo_tables)" "''bob''" 1] trim by (simp_all add: demo_tables_def)
  have "live_primary (demo_grant 1 ''bob'' True)" by (simp add: demo_grant_def live_primary_def grant_live_def)
  then show ?thesis
    unfolding demo_two_def using demo_claimed(1) [OF one(2,3) trim(2), of 2] one(1) by (simp add: demo_grant_def)
qed

lemma demo_start_run: "identity_run [demo_tables] ([], demo_tables)"
  by (rule run_start) (simp_all add: demo_tables_def)

lemma demo_claim_run: "identity_run hist st \<Longrightarrow> snd st \<in> set hist \<Longrightarrow> identity_run (snd (demo_claim i subject st) # hist) (demo_claim i subject st)"
  unfolding demo_claim_def by (rule run_claim [OF _ _ surjective_pairing])

lemma demo_two_run: "\<exists>hist. identity_run (snd demo_two # hist) demo_two"
  unfolding demo_two_def using demo_claim_run demo_start_run by (metis list.set_intros(1) snd_conv)

theorem single_owner_witness: "\<exists>!r. r \<in> set (id_grants (snd demo_two)) \<and> live_primary r"
proof -
  obtain hist where "identity_run (snd demo_two # hist) demo_two" using demo_two_run ..
  then show ?thesis by (rule single_owner [where db = "snd demo_two"]) (simp_all add: demo_two_grants)
qed

theorem revoked_identity_stays_out_witness:
  "gr_status (id_grants (snd demo_revoked) ! 1) = ''revoked'' \<and>
   fst (authenticate_admin_with_issuer demo_env demo_headers (demo_db\<lparr>ad_grants := auth_grants (snd demo_revoked)\<rparr>)) = Ok (demo_actor, Some ''i'')"
proof -
  obtain hist where "identity_run (snd demo_two # hist) demo_two" using demo_two_run ..
  then have run: "identity_run (snd demo_revoked # snd demo_two # hist) demo_revoked"
    unfolding demo_revoked_def by (rule run_revoke [OF _ _ surjective_pairing]) simp
  let ?r = "(demo_grant 2 ''ann'' False)\<lparr>gr_status := ''revoked'', gr_revoked_at := Some 0, gr_is_primary := False, gr_version := 2\<rparr>"
  obtain g db' where rev: "revoke_grant (ie_id_text (demo_call 3)) 0 2 (snd demo_two) = Ok (g, db')" "id_grants db' = [demo_grant 1 ''bob'' True, ?r]"
    by (simp add: revoke_grant_def lock_grant_def returning_grant_def update_grants_def demo_two_grants demo_grant_def grant_from_row_def
        admin_identity_status_from_db_def grant_live_def and_then_def)
  obtain spec where spec: "command_spec (demo_call 3) demo_ctx demo_system ''admin_identity.revoke''
      (JObject [(''admin_identity_id'', JString (ie_id_text (demo_call 3) 2))]) (JObject []) = Ok spec" "cs_idempotency spec = None"
    using demo_spec by blast
  obtain result where "grant_response demo_serde (demo_call 3) ''moira.notice.admin_identity_revoked'' 200 g = Ok result"
    using demo_response by blast
  from run_command_plain [where f = "revoke_grant (ie_id_text (demo_call 3)) 0 2"
      and response = "grant_response demo_serde (demo_call 3) ''moira.notice.admin_identity_revoked'' 200" and ev = "demo_call 3", OF spec(2) _ rev(1) this]
  have grants: "id_grants (snd demo_revoked) = [demo_grant 1 ''bob'' True, ?r]"
    by (simp add: demo_revoked_def revoke_identity_def require_primary_actor_def spec(1) and_then_def insert_audit_def rev(2))
  have r: "?r \<in> set (id_grants (snd demo_revoked))" "gr_status ?r = ''revoked''" by (simp_all add: grants)
  have "actor_subject demo_actor = Some ''ann''" by (simp add: demo_actor_def)
  with revoked_identity_stays_out [OF run _ r demo_header_values, of demo_env "demo_db\<lparr>ad_grants := auth_grants (snd demo_revoked)\<rparr>" demo_actor]
  show ?thesis using demo_authenticated by (simp add: demo_grant_def grants)
qed

definition demo_invite_request :: invite_create_request where
  "demo_invite_request = \<lparr>vq_constraint = DomainConstraint, vq_value = ''x.io'', vq_expires_in_seconds = 60\<rparr>"

definition demo_invited :: "identity_db admin_state" where
  "demo_invited = snd (create_invite demo_serde (demo_call 1) demo_ctx demo_system None demo_invite_request ([], demo_tables))"

definition demo_redeemed :: "identity_db admin_state" where
  "demo_redeemed = snd (redeem_invite demo_serde (demo_call 2) 1 demo_ctx \<lparr>tj_issuer = ''i'', tj_subject = ''ann''\<rparr>
     \<lparr>rq_token = ''moira_inv_AF'', rq_email = ''o@x.io'', rq_email_verified = True\<rparr> (snd demo_invited) demo_invited)"

definition demo_invite :: invite_row where
  "demo_invite = \<lparr>iv_id = 1, iv_token_prefix = ''moira_inv_AF'', iv_token_hash = ''smoira_inv_AF:'',
     iv_fingerprint = secret_fingerprint plain_crypto ''moira_inv_AF'', iv_pepper_version = ''v1'', iv_email_constraint = None,
     iv_domain_constraint = Some ''x.io'', iv_created_by_issuer = None, iv_created_by_subject = Some ''key'', iv_created_by_actor_type = ''system_key'',
     iv_status = ''pending'', iv_expires_at = 60000000000, iv_consumed_at = None, iv_consumed_issuer = None, iv_consumed_subject = None,
     iv_consumed_admin_identity_id = None, iv_revoked_at = None, iv_created_at = 0, iv_deleted = False, iv_version = 1\<rparr>"

lemma demo_key: "generate_key plain_crypto demo_argon2 (ev_hasher demo_env) GateAcquired ''s'' ''moira_inv'' ''a'' =
    Ok \<lparr>gk_raw_key = ''moira_inv_AF'', gk_key_prefix = ''moira_inv_AF'', gk_key_hash = ''smoira_inv_AF:'',
      gk_fingerprint = secret_fingerprint plain_crypto ''moira_inv_AF'', gk_pepper_version = ''v1''\<rparr>"
  by code_simp

lemma demo_invite_checks:
  "require demo_system ''moira:admins:invite'' = Ok ()" "normalize_invite_constraint DomainConstraint ''x.io'' = Ok ''x.io''"
  by code_simp+

lemma demo_lifetime: "validated_invite_lifetime 60 = Ok 60000000000"
  by (simp add: validated_invite_lifetime_def MAX_INVITE_EXPIRY_SECONDS_def MIN_INVITE_EXPIRY_SECONDS_def)

lemma demo_invited_tables: "id_invites (snd demo_invited) = [demo_invite]" "id_grants (snd demo_invited) = []"
  "id_issuers (snd demo_invited) = id_issuers demo_tables" "id_providers (snd demo_invited) = id_providers demo_tables"
proof -
  let ?i = "\<lparr>ii_id = 1, ii_token_prefix = ''moira_inv_AF'', ii_token_hash = ''smoira_inv_AF:'', ii_fingerprint = secret_fingerprint plain_crypto ''moira_inv_AF'',
     ii_pepper_version = ''v1'', ii_constraint = DomainConstraint, ii_value = ''x.io'', ii_created_by_issuer = None, ii_created_by_subject = Some ''key'',
     ii_created_by_actor_type = ''system_key'', ii_expires_at = 60000000000\<rparr>"
  have lib: "ie_crypto (demo_call 1) = plain_crypto" "ie_argon2 (demo_call 1) = demo_argon2" "ie_hasher (demo_call 1) = ev_hasher demo_env"
    "ie_gate (demo_call 1) = GateAcquired" "ie_salt (demo_call 1) = ''s''" "ie_random (demo_call 1) = ''a''" by (simp_all add: demo_call_def)
  have checks: "create_invite_checks (demo_call 1) demo_system None demo_invite_request = Ok (?i, ''moira_inv_AF'')"
    by (simp add: create_invite_checks_def demo_invite_request_def demo_invite_checks demo_lifetime lib ADMIN_INVITE_NAMESPACE_def demo_key invite_creator_actor_type_def and_then_def)
  obtain row where ins: "insert_invite 0 ?i demo_tables = Ok (row, demo_tables\<lparr>id_invites := [demo_invite]\<rparr>)"
    by (simp add: insert_invite_def demo_tables_def invite_from_row_def invite_status_from_db_def demo_invite_def and_then_def Let_def)
  obtain spec where spec: "command_spec (demo_call 1) demo_ctx demo_system ''admin_invite.create''
      (JObject [(''constraint'', JString (constraint_label (vq_constraint demo_invite_request)))])
      (JObject [(''constraint'', JString (constraint_label (vq_constraint demo_invite_request))), (''value'', JString (vq_value demo_invite_request)),
        (''expires_in_seconds'', JNumber (uint (vq_expires_in_seconds demo_invite_request)))]) = Ok spec" "cs_idempotency spec = None"
    using demo_spec by blast
  obtain result where "invite_response demo_serde (demo_call 1) ''moira_inv_AF'' row = Ok result"
    by (simp add: invite_response_def with_replay_response_def demo_serde_def Let_def and_then_def map_err_def)
  from run_command_plain [where f = "insert_invite 0 ?i" and response = "invite_response demo_serde (demo_call 1) ''moira_inv_AF''" and ev = "demo_call 1"
      and st = "([], demo_tables)", OF spec(2) _ _ this] ins
  have "\<exists>e. snd demo_invited = insert_audit e (demo_tables\<lparr>id_invites := [demo_invite]\<rparr>)"
    by (simp add: demo_invited_def create_invite_def checks spec(1) and_then_def) blast
  then show "id_invites (snd demo_invited) = [demo_invite]" "id_grants (snd demo_invited) = []"
    "id_issuers (snd demo_invited) = id_issuers demo_tables" "id_providers (snd demo_invited) = id_providers demo_tables"
    by (auto simp: insert_audit_def demo_tables_def)
qed

definition demo_invite_record :: admin_invite_row where
  "demo_invite_record = \<lparr>ai_invite_id = 1, ai_constraint = DomainConstraint, ai_value = ''x.io'', ai_invite_status = InvitePending,
     ai_expires_at = 60000000000, ai_created_by_subject = Some ''key'', ai_consumed_at = None, ai_consumed_subject = None,
     ai_invite_created_at = 0, ai_invite_version = 1\<rparr>"

lemma demo_invite_decodes: "invite_from_row demo_invite = Ok demo_invite_record"
  by (simp add: demo_invite_def demo_invite_record_def invite_from_row_def invite_status_from_db_def and_then_def)

lemma demo_invite_token: "rust_trim ''moira_inv_AF'' = ''moira_inv_AF''" "key_prefix (ev_hasher demo_env) ''moira_inv_AF'' = ''moira_inv_AF''"
  "hasher_verify_key plain_crypto demo_argon2 (ev_hasher demo_env) GateAcquired ''moira_inv_AF'' ''smoira_inv_AF:'' = Ok True"
proof -
  show "rust_trim ''moira_inv_AF'' = ''moira_inv_AF''" "key_prefix (ev_hasher demo_env) ''moira_inv_AF'' = ''moira_inv_AF''" by code_simp+
  have "argon2_laws demo_argon2" by (rule demo_argon2_laws)
  from generated_key_verifies(1) [OF this demo_key] show "hasher_verify_key plain_crypto demo_argon2 (ev_hasher demo_env) GateAcquired ''moira_inv_AF'' ''smoira_inv_AF:'' = Ok True"
    by simp
qed

lemma demo_constraint: "evaluate_invite_constraint demo_invite_record ''o@x.io'' = Ok ()"
  by code_simp

definition demo_redeem_insert :: admin_identity_grant_insert where
  "demo_redeem_insert = (demo_insert 2 ''ann'')\<lparr>gi_granted_by_actor_type := ADMIN_INVITE_ACTOR_TYPE\<rparr>"

lemma demo_redeem_checks:
  "redeem_checks (demo_call 2) \<lparr>tj_issuer = ''i'', tj_subject = ''ann''\<rparr>
     \<lparr>rq_token = ''moira_inv_AF'', rq_email = ''o@x.io'', rq_email_verified = True\<rparr> (snd demo_invited) = Ok (demo_invite_record, demo_redeem_insert)"
proof -
  have lib: "ie_crypto (demo_call 2) = plain_crypto" "ie_argon2 (demo_call 2) = demo_argon2" "ie_hasher (demo_call 2) = ev_hasher demo_env"
    "ie_gate (demo_call 2) = GateAcquired" by (simp_all add: demo_call_def)
  have row: "iv_token_prefix demo_invite = ''moira_inv_AF''" "\<not> iv_deleted demo_invite" "iv_token_hash demo_invite = ''smoira_inv_AF:''"
    by (simp_all add: demo_invite_def)
  have "resolve_invite (demo_call 2) ''moira_inv_AF'' (snd demo_invited) = Ok demo_invite_record"
    by (simp add: resolve_invite_def demo_invite_token lib find_invite_by_prefix_def demo_invited_tables row demo_invite_decodes and_then_def)
  moreover have "require_redeemable 0 demo_invite_record = Ok ()"
    by (simp add: require_redeemable_def demo_invite_record_def invite_is_expired_def)
  moreover have "ai_created_by_subject demo_invite_record = Some ''key''" by (simp add: demo_invite_record_def)
  ultimately show ?thesis
    by (simp add: redeem_checks_def demo_address demo_constraint demo_admission demo_invited_tables demo_redeem_insert_def demo_insert_def and_then_def)
qed

lemma demo_redeem_grant:
  "\<exists>g db'. redeem_grant 1 0 1 demo_redeem_insert (snd demo_invited) = Ok (g, db') \<and> map iv_status (id_invites db') = [''consumed'']"
proof -
  let ?g = "(demo_grant 2 ''ann'' True)\<lparr>gr_granted_by_actor_type := ADMIN_INVITE_ACTOR_TYPE\<rparr>"
  let ?db = "(snd demo_invited)\<lparr>id_grants := [?g]\<rparr>"
  obtain g where ins: "insert_grant 0 demo_redeem_insert (snd demo_invited) = Ok (g, ?db)"
    by (simp add: insert_grant_def demo_invited_tables demo_redeem_insert_def demo_insert_def demo_grant_def grant_from_row_def
        admin_identity_status_from_db_def and_then_def)
  have get: "identity_get_invite 1 ?db = Ok demo_invite_record"
    by (simp add: identity_get_invite_def demo_invited_tables demo_invite_decodes) (simp add: demo_invite_def)
  have "ai_invite_status demo_invite_record = InvitePending" "\<not> invite_is_expired demo_invite_record 1"
    by (simp_all add: demo_invite_record_def invite_is_expired_def)
  then have "\<exists>row db2. consume_invite 1 0 1 ''i'' ''ann'' (ai_id g) ?db = Ok (row, db2) \<and> map iv_status (id_invites db2) = [''consumed'']"
    by (simp add: consume_invite_def get returning_invite_def demo_invited_tables demo_invite_def invite_from_row_def invite_status_from_db_def and_then_def)
  moreover have "gi_issuer demo_redeem_insert = ''i''" "gi_subject demo_redeem_insert = ''ann''" by (simp_all add: demo_redeem_insert_def demo_insert_def)
  ultimately show ?thesis by (auto simp: redeem_grant_def ins and_then_def)
qed

lemma demo_redeemed_invites: "map iv_status (id_invites (snd demo_redeemed)) = [''consumed'']"
proof -
  obtain g db' where g: "redeem_grant 1 0 1 demo_redeem_insert (snd demo_invited) = Ok (g, db')" "map iv_status (id_invites db') = [''consumed'']"
    using demo_redeem_grant by (elim exE conjE)
  let ?a = "redeem_actor \<lparr>tj_issuer = ''i'', tj_subject = ''ann''\<rparr> (gi_trusted_jwt_issuer_id demo_redeem_insert)"
  obtain spec where spec: "command_spec (demo_call 2) demo_ctx ?a ''admin_invite.redeem'' (JObject [(''issuer'', JString ''i''), (''subject'', JString ''ann'')])
      (JObject [(''invite_id'', JString (ie_id_text (demo_call 2) 1)), (''email'', JString ''o@x.io''), (''email_verified'', JBool True)]) = Ok spec"
    "cs_idempotency spec = None" using demo_spec by blast
  obtain result where "grant_response demo_serde (demo_call 2) ''moira.notice.admin_invite_redeemed'' 201 g = Ok result"
    using demo_response by blast
  from run_command_plain [where f = "redeem_grant 1 0 1 demo_redeem_insert"
      and response = "grant_response demo_serde (demo_call 2) ''moira.notice.admin_invite_redeemed'' 201" and ev = "demo_call 2", OF spec(2) _ g(1) this]
  show ?thesis
    by (simp add: demo_redeemed_def redeem_invite_def demo_redeem_checks demo_address demo_invite_record_def spec(1) and_then_def insert_audit_def g(2))
qed

theorem invitation_single_use_witness:
  "map iv_status (id_invites (snd demo_redeemed)) = [''consumed''] \<and>
   (\<exists>f. bij_betw f {iv \<in> set (id_invites (snd demo_redeemed)). iv_status iv = ''consumed''} {g \<in> set (id_grants (snd demo_redeemed)). by_invite g})"
proof -
  have inv: "identity_run (snd demo_invited # [demo_tables]) demo_invited"
    unfolding demo_invited_def by (rule run_create [OF demo_start_run surjective_pairing])
  have "identity_run (snd demo_redeemed # snd demo_invited # [demo_tables]) demo_redeemed"
    unfolding demo_redeemed_def by (rule run_redeem [OF inv _ surjective_pairing]) simp
  from invitation_single_use [OF this, of demo_tables] show ?thesis using demo_redeemed_invites by auto
qed

end
