(* ===== verification/Spec2Isabelle.thy ===== *)
theory Spec2Isabelle
  imports Circuit_Breaker Rate_Limit Runtime_Cache Authz Worker_Queue Execution_Loop Ssrf Context_Planner Cluster
    Leader_Election Admin_Command Pagination Runner_Http Keyring_Admin Identity
begin

text \<open>
  Moira is a gateway in front of language model providers, written in Rust (\<open>src/src/\<close>). A request
  is authenticated and authorized (\<open>security/\<close>), its execution policy, route and candidate models are
  chosen, and a loop of attempts calls providers with retries and fallbacks (\<open>application/execution.rs\<close>)
  under limits shared by the process and, through Redis, by all replicas (\<open>orchestration/controls.rs\<close>).
  Conversations add retrieved context (\<open>orchestration/chunking.rs\<close>, \<open>application/context_planner.rs\<close>), an
  admin API keeps the configuration in PostgreSQL (\<open>application/admin_command.rs\<close>,
  \<open>infra/repositories/\<close>), and background workers share a job table (\<open>infra/workers/\<close>). Content is stored
  encrypted under a keyring (\<open>security/content_envelope.rs\<close>, \<open>security/data_keys.rs\<close>). A second program, the
  runner (\<open>runner/\<close>), starts containers for logins and hands each login's token out once.

  \<^bold>\<open>Modelling.\<close> Structs are records, enums datatypes, \<open>Result\<close> is the sum type with \<open>Err\<close> and \<open>Ok\<close>.
  Shared mutable state is passed explicitly; a section under one lock, one SQL statement or one
  transaction is one step. Time, random identifiers, what the network does and what code outside
  the repository answers (database driver, HTTP client, hash functions, JSON library, URL parser) are
  arguments; where a theorem relies on documented behaviour of such code it is a named
  hypothesis (\<open>semaphore_laws\<close>, \<open>redis_laws\<close>, \<open>crypto_laws\<close>, \<open>cursor_laws\<close>, \<open>serde_laws\<close>, \<open>argon2_laws\<close>, and the locales of the
  encryption and runner theories) with a concrete instance in the witnesses. A panic is \<open>None\<close> where slicing or indexing could cause one. Strings are lists of
  bytes, except in the document theories, where they are lists of Unicode scalar values.

  \<^bold>\<open>Shared theories.\<close>
  \<^item> \<open>Moira_Prelude\<close>: results, machine integers, hash maps as association lists, \<open>str::trim\<close>, and the
    locale \<open>bounded_table\<close> of tables with a bounded number of entries.
  \<^item> \<open>App_Error\<close>: \<open>error.rs\<close>. \<open>Runtime_Types\<close>, \<open>Execution_Failure\<close>: the failure classes of
    \<open>domain/runtime.rs\<close> and their disposition for breaker, retry and fallback.

  \<^bold>\<open>Execution.\<close>
  \<^item> \<open>Execution_Policy\<close>: command validation, policy merging, route and candidate selection.
    The policy never exceeds the platform limits, candidates are eligible, and the two scope checks
    agree exactly on the actors they should.
  \<^item> \<open>Execution_Events\<close>: the event collector and the streaming of one attempt. Output is final.
  \<^item> \<open>Execution_Loop\<close>: the loop over candidates and retries. It terminates within the attempt
    budget, gives all capacity back, never starts an attempt after output was sent, and its outcome
    is consistent with the attempts recorded.
  \<^item> \<open>Circuit_Breaker\<close>, \<open>Limiter_Registry\<close>, \<open>Concurrency\<close>, \<open>Rate_Limit\<close>, \<open>Runtime_Cache\<close>:
    \<open>orchestration/controls.rs\<close> and the Redis scripts of \<open>infra/redis.rs\<close>. The breaker trips exactly at its
    threshold, blames only provider failures and recovers; limiters admit exactly their limit; an
    acquisition is all or nothing and undone by dropping it; windows admit exactly their limit, in
    memory and in Redis; cluster permits are exact in every interleaving in which time passes, keys expire and processes die,
    as long as executions are shorter than the time to live; the cache is bounded and never stale.

  \<^bold>\<open>Security.\<close>
  \<^item> \<open>Authz\<close>: \<open>security/authz.rs\<close>. Decisions on every branch; granting cannot escalate.
  \<^item> \<open>Ssrf\<close>: \<open>security/ssrf.rs\<close>. The denied addresses as an explicit list of blocks and every
    embedding of a denied IPv4 address in IPv6; a key set is fetched only from allowed addresses.
  \<^item> \<open>Authentication\<close>: \<open>security/auth.rs\<close>, \<open>security/api_keys.rs\<close>. Behind every actor of the admin plane stands exactly one
    accepted credential; grants change nothing on the public plane; a consumer key with a token narrows both
    and delegation, of a user or a tenant, needs permission; tokens are checked with keys no older than the cache promises; a minted key authenticates as itself.
  \<^item> \<open>Identity\<close>: \<open>application/identity.rs\<close>, \<open>infra/repositories/identity.rs\<close>. Claims, invitations and ownership as a run of commands,
    each deciding on an earlier state than its transaction finds: always exactly one owner, invitations are used once and for
    the address they were issued for, a revoked identity stays out of the admin plane of \<open>Authentication\<close>.
  \<^item> \<open>Idempotency\<close>, \<open>Admin_Command\<close>: \<open>security/idempotency.rs\<close>, \<open>application/admin_command.rs\<close> and the
    ledger in \<open>infra/repositories/admin.rs\<close>. A command takes effect at most once per key and
    retention period, whatever fails, as long as the pepper is not rotated; a repeated one gets the stored answer.

  \<^bold>\<open>Encrypted content.\<close>
  \<^item> \<open>Content_Envelope\<close>: \<open>security/content_envelope.rs\<close>. An envelope opens exactly what was sealed, and only for the row, column and
    key it was sealed for.
  \<^item> \<open>Key_Custody\<close>, \<open>Keyring\<close>: \<open>security/key_custody.rs\<close>, \<open>security/data_keys.rs\<close>. The keyring snapshot and its refresh; misses
    reload it at most once per floor of time.
  \<^item> \<open>Content_Access\<close>, \<open>Keyring_Admin\<close>: \<open>security/content_access.rs\<close>, \<open>security/keyring_admin.rs\<close>. Rotation, resealing and retirement
    keep every row readable; a reseal completes.

  \<^bold>\<open>Runner.\<close>
  \<^item> \<open>Runner_Scrape\<close>, \<open>Runner_Engine\<close>, \<open>Runner_Config\<close>, \<open>Runner_Service\<close>, \<open>Runner_Http\<close>: \<open>runner/\<close>. The token is recovered from a
    terminal transcript and handed out once, over an engine that only keeps the laws of \<open>container_engine\<close>;
    overdue containers are removed; every route but the health check needs the control token.

  \<^bold>\<open>Documents and lists.\<close>
  \<^item> \<open>Chunking\<close>: \<open>orchestration/chunking.rs\<close>. Chunks are exact slices that miss no text.
  \<^item> \<open>Context_Planner\<close>: \<open>application/context_planner.rs\<close>. It refines the choice of the first plan whose texts fit
    the budget, and what rendering adds on top is bounded; retrieved text never speaks with the system role.
  \<^item> \<open>Pagination\<close>: \<open>domain/pagination.rs\<close>, \<open>infra/repositories/keyset.rs\<close>, the page assembly. Following the
    cursors enumerates the table; cursors read back and are bound to their scope and kind.

  \<^bold>\<open>Replicas and workers.\<close>
  \<^item> \<open>Job_Store\<close>, \<open>Worker_Queue\<close>: the job table and the queue worker. Attempts are numbered and handed out
    once (locale \<open>attempt_ledger\<close>), a job is claimed again only after it was handed back, and a poll settles every claimed
    row by what its handler did.
  \<^item> \<open>Cluster\<close>: the admission lease, as a step relation over replicas with faults; never more live
    leases than the ceiling.
  \<^item> \<open>Leader_Election\<close>: the advisory lock of singleton workers, with sessions that die unnoticed; one leader.

  \<^bold>\<open>Bounds and termination.\<close> Every definition is total. Loops are structural recursions or have a
  termination proof (\<open>strip_start\<close>, \<open>window_loop\<close>, \<open>canonicalize\<close>, \<open>str_split_whitespace\<close>); the attempt loop recurses on the remaining
  candidates and retries. Fuel occurs in \<open>walk\<close>, the paging client, where one unit per row and one more is proved
  enough, and in the reseal of a key, where the number of rows under the source key and one more is.

  \<^bold>\<open>Not modelled.\<close> The HTTP layer and its OpenAPI description (routing and serialisation), metrics and
  telemetry (they change no decision), the catalogue of texts, database pool, migrations and row
  decoding (I/O), the provider clients, Argon2, the JWT library and the container engine (libraries), the console and SDKs
  (other languages). Conversations beyond their pages and context, the public API service, retrieval scoring (floating
  point), agent platform, settings validation and the remaining workers are not modelled.
\<close>

end
